(* ===== verification/Prelude.thy ===== *)
theory Prelude
  imports Main "HOL-Library.Word" "HOL-Library.AList"
begin

text \<open>
  Shared material of the development: the machine types of the Rust code, the
  \<open>Result\<close> type, little-endian byte strings, hash maps as association lists in
  iteration order (with their interface as a locale), and the generic
  transition-system locale through which every component's invariant is lifted
  from single operations to arbitrary operation sequences.

  The target is a 64-bit machine: \<open>usize\<close> is a 64-bit word. Lengths of byte
  buffers are natural numbers, since Rust bounds every allocation by
  \<open>isize::MAX\<close>; a length is converted to a word where the code casts it.
\<close>

unbundle bit_operations_syntax

named_theorems hmap_simps \<open>characteristic equations of the hash-map operations\<close>
named_theorems le_simps \<open>little-endian encoding and decoding\<close>

subsection \<open>Machine types\<close>

type_synonym u8 = "8 word"
type_synonym u16 = "16 word"
type_synonym u32 = "32 word"
type_synonym u64 = "64 word"
type_synonym u128 = "128 word"
type_synonym i32 = "32 word"
type_synonym i64 = "64 word"
type_synonym usize = "64 word"
type_synonym bytes = "u8 list"

text \<open>\<open>x as usize\<close> for \<open>x: i32\<close> sign-extends; the result as an index.\<close>

definition i32_as_usize :: "i32 \<Rightarrow> nat" where
  "i32_as_usize x = unat (signed_take_bit 31 (ucast x :: usize))"

subsection \<open>Results\<close>

datatype ('a, 'e) result = Ok 'a | Err 'e

fun is_ok :: "('a, 'e) result \<Rightarrow> bool" where
  "is_ok (Ok _) = True"
| "is_ok (Err _) = False"

subsection \<open>Little-endian byte strings\<close>

fun to_le :: "nat \<Rightarrow> nat \<Rightarrow> bytes" where
  "to_le 0 x = []"
| "to_le (Suc n) x = of_nat x # to_le n (x div 256)"

fun of_le :: "bytes \<Rightarrow> nat" where
  "of_le [] = 0"
| "of_le (b # bs) = unat b + 256 * of_le bs"

lemma length_to_le [simp]: "length (to_le n x) = n"
  by (induction n arbitrary: x) auto

lemma of_le_bound: "of_le bs < 256 ^ length bs"
proof (induction bs)
  case (Cons b bs)
  have "unat b < 256" using unsigned_less [of b] by simp
  with Cons show ?case by simp
qed simp

lemma of_le_to_le [le_simps]: "of_le (to_le n x) = x mod 256 ^ n"
proof (induction n arbitrary: x)
  case (Suc n)
  have "unat (of_nat x :: u8) = x mod 256"
    by (simp add: unat_of_nat)
  with Suc show ?case
    by (simp add: mod_mult2_eq)
qed simp

lemma to_le_of_le [le_simps]: "to_le (length bs) (of_le bs) = bs"
proof (induction bs)
  case (Cons b bs)
  have "unat b < 256" using unsigned_less [of b] by simp
  then have "(of_nat (unat b + 256 * of_le bs) :: u8) = b"
    by (simp add: word_unat_eq_iff unat_of_nat del: of_nat_add of_nat_mult)
  moreover from \<open>unat b < 256\<close> have "(unat b + 256 * of_le bs) div 256 = of_le bs"
    by simp
  ultimately show ?case using Cons by simp
qed simp

lemma to_le_inject: "x < 256 ^ n \<Longrightarrow> y < 256 ^ n \<Longrightarrow> to_le n x = to_le n y \<longleftrightarrow> x = y"
  by (metis mod_less of_le_to_le)

lemma to_le_append: "to_le (m + n) x = to_le m x @ to_le n (x div 256 ^ m)"
  by (induction m arbitrary: x) (simp_all add: div_mult2_eq)

lemma to_le_mod: "to_le n (x mod 256 ^ n) = to_le n x"
  using to_le_of_le [of "to_le n x"] by (simp add: of_le_to_le)

subsection \<open>Splitting\<close>

text \<open>\<open>split\<close> on a separator, for strings and slices: one piece more than there are separators.\<close>

fun split_on :: "'a \<Rightarrow> 'a list \<Rightarrow> 'a list list" where
  "split_on c [] = [[]]"
| "split_on c (x # xs) =
    (if x = c then [] # split_on c xs
     else case split_on c xs of [] \<Rightarrow> [[x]] | y # ys \<Rightarrow> (x # y) # ys)"

lemma split_on_ne [simp]: "split_on c xs \<noteq> []"
  by (induction xs) (auto split: list.splits)

lemma split_on_no_sep: "c \<notin> set xs \<Longrightarrow> split_on c xs = [xs]"
  by (induction xs) auto

lemma split_on_append: "c \<notin> set xs \<Longrightarrow> split_on c (xs @ c # ys) = xs # split_on c ys"
  by (induction xs) auto

lemma split_on_pieces: "p \<in> set (split_on c xs) \<Longrightarrow> c \<notin> set p"
  by (induction xs arbitrary: p) (auto split: list.splits if_splits)

text \<open>Decimal numbers, as \<open>format!\<close> prints them.\<close>

fun show_nat :: "nat \<Rightarrow> string" where
  "show_nat n = (if n < 10 then [char_of (48 + n)] else show_nat (n div 10) @ [char_of (48 + n mod 10)])"

declare show_nat.simps [simp del]

definition show_int :: "int \<Rightarrow> string" where
  "show_int i = (if i < 0 then ''-'' @ show_nat (nat (- i)) else show_nat (nat i))"

subsection \<open>Hash maps\<close>

text \<open>
  A Rust \<open>HashMap\<close> (or \<open>DashMap\<close>) is an association list with distinct keys,
  listed in iteration order. Rust leaves that order open; the code's iterations
  are folds whose result the theorems characterise for every order.
\<close>

type_synonym ('k, 'v) hmap = "('k \<times> 'v) list"

definition hm_wf :: "('k, 'v) hmap \<Rightarrow> bool" where
  "hm_wf m \<longleftrightarrow> distinct (map fst m)"

definition hm_get :: "('k, 'v) hmap \<Rightarrow> 'k \<Rightarrow> 'v option" where
  "hm_get m k = map_of m k"

definition hm_contains :: "('k, 'v) hmap \<Rightarrow> 'k \<Rightarrow> bool" where
  "hm_contains m k \<longleftrightarrow> hm_get m k \<noteq> None"

definition hm_insert :: "'k \<Rightarrow> 'v \<Rightarrow> ('k, 'v) hmap \<Rightarrow> ('k, 'v) hmap" where
  "hm_insert k v m = AList.update k v m"

definition hm_remove :: "'k \<Rightarrow> ('k, 'v) hmap \<Rightarrow> ('k, 'v) hmap" where
  "hm_remove k m = AList.delete k m"

text \<open>\<open>get_mut\<close> followed by an in-place change; nothing happens when the key is absent.\<close>

definition hm_modify :: "'k \<Rightarrow> ('v \<Rightarrow> 'v) \<Rightarrow> ('k, 'v) hmap \<Rightarrow> ('k, 'v) hmap" where
  "hm_modify k f m = map (\<lambda>(k', v). (k', if k' = k then f v else v)) m"

definition hm_retain :: "('k \<Rightarrow> 'v \<Rightarrow> bool) \<Rightarrow> ('k, 'v) hmap \<Rightarrow> ('k, 'v) hmap" where
  "hm_retain P m = filter (\<lambda>(k, v). P k v) m"

definition hm_map_values :: "('v \<Rightarrow> 'w) \<Rightarrow> ('k, 'v) hmap \<Rightarrow> ('k, 'w) hmap" where
  "hm_map_values f m = map (\<lambda>(k, v). (k, f v)) m"

definition hm_values :: "('k, 'v) hmap \<Rightarrow> 'v list" where
  "hm_values m = map snd m"

lemma hm_wf_Nil [simp]: "hm_wf []"
  by (simp add: hm_wf_def)

lemma hm_get_Nil [simp]: "hm_get [] k = None"
  by (simp add: hm_get_def)

lemma hm_get_insert [hmap_simps]: "hm_get (hm_insert k v m) k' = (if k' = k then Some v else hm_get m k')"
  by (simp add: hm_get_def hm_insert_def update_conv')

lemma hm_get_remove [hmap_simps]: "hm_get (hm_remove k m) k' = (if k' = k then None else hm_get m k')"
  by (simp add: hm_get_def hm_remove_def delete_conv')

lemma hm_get_modify [hmap_simps]:
  "hm_get (hm_modify k f m) k' = (if k' = k then map_option f (hm_get m k') else hm_get m k')"
  unfolding hm_get_def hm_modify_def by (induction m) auto

lemma hm_get_map_values [hmap_simps]: "hm_get (hm_map_values f m) k = map_option f (hm_get m k)"
  unfolding hm_get_def hm_map_values_def by (induction m) auto

lemma hm_wf_insert [simp]: "hm_wf m \<Longrightarrow> hm_wf (hm_insert k v m)"
  by (simp add: hm_wf_def hm_insert_def distinct_update)

lemma hm_wf_remove [simp]: "hm_wf m \<Longrightarrow> hm_wf (hm_remove k m)"
  by (simp add: hm_wf_def hm_remove_def distinct_delete)

lemma hm_keys_modify [simp]: "map fst (hm_modify k f m) = map fst m"
  by (auto simp: hm_modify_def)

lemma hm_wf_modify [simp]: "hm_wf (hm_modify k f m) = hm_wf m"
  by (simp add: hm_wf_def)

lemma hm_wf_map_values [simp]: "hm_wf (hm_map_values f m) = hm_wf m"
  by (auto simp: hm_wf_def hm_map_values_def comp_def case_prod_beta)

lemma hm_wf_retain [simp]: "hm_wf m \<Longrightarrow> hm_wf (hm_retain P m)"
  unfolding hm_wf_def hm_retain_def by (induction m) auto

lemma hm_get_Some_iff: "hm_wf m \<Longrightarrow> hm_get m k = Some v \<longleftrightarrow> (k, v) \<in> set m"
  by (simp add: hm_wf_def hm_get_def)

lemma hm_get_retain [hmap_simps]:
  assumes "hm_wf m"
  shows "hm_get (hm_retain P m) k =
    (case hm_get m k of None \<Rightarrow> None | Some v \<Rightarrow> if P k v then Some v else None)"
  using assms unfolding hm_wf_def hm_get_def hm_retain_def
  by (induction m) (auto split: option.splits dest: map_of_SomeD intro: rev_image_eqI)

lemma hm_remove_absent: "hm_get m k = None \<Longrightarrow> hm_remove k m = m"
  by (simp add: hm_get_def hm_remove_def map_of_eq_None_iff delete_idem)

lemma length_hm_remove_le: "length (hm_remove k m) \<le> length m"
  by (simp add: hm_remove_def length_delete_le)

lemma length_hm_insert: "length (hm_insert k v m) = (if hm_contains m k then length m else Suc (length m))"
  unfolding hm_insert_def hm_contains_def hm_get_def by (induction m) auto

text \<open>A property of every entry of a map, and how the operations keep it.\<close>

definition hm_all :: "('k \<Rightarrow> 'v \<Rightarrow> bool) \<Rightarrow> ('k, 'v) hmap \<Rightarrow> bool" where
  "hm_all P m \<longleftrightarrow> list_all (\<lambda>(k, v). P k v) m"

lemma hm_all_iff: "hm_all P m \<longleftrightarrow> (\<forall>k v. (k, v) \<in> set m \<longrightarrow> P k v)"
  by (auto simp: hm_all_def list_all_iff)

lemma hm_all_Nil [simp]: "hm_all P []"
  by (simp add: hm_all_def)

lemma hm_all_get: "hm_all P m \<Longrightarrow> hm_get m k = Some v \<Longrightarrow> P k v"
  by (auto simp: hm_all_iff hm_get_def dest: map_of_SomeD)

lemma hm_all_insert [intro]: "hm_all P m \<Longrightarrow> P k v \<Longrightarrow> hm_all P (hm_insert k v m)"
  unfolding hm_all_def hm_insert_def by (induction m) auto

lemma hm_all_remove [intro]: "hm_all P m \<Longrightarrow> hm_all P (hm_remove k m)"
  by (auto simp: hm_all_iff hm_remove_def AList.delete_eq)

lemma hm_all_retain [intro]: "hm_all P m \<Longrightarrow> hm_all P (hm_retain Q m)"
  by (auto simp: hm_all_iff hm_retain_def)

lemma hm_all_modify [intro]: "hm_all P m \<Longrightarrow> (\<And>v. P k v \<Longrightarrow> P k (f v)) \<Longrightarrow> hm_all P (hm_modify k f m)"
  by (auto simp: hm_all_iff hm_modify_def)

text \<open>What the clients of a hash map rely on: lookup after insert and remove, and the key invariant.\<close>

locale keyed_store =
  fixes get :: "'m \<Rightarrow> 'k \<Rightarrow> 'v option"
    and ins :: "'k \<Rightarrow> 'v \<Rightarrow> 'm \<Rightarrow> 'm"
    and rem :: "'k \<Rightarrow> 'm \<Rightarrow> 'm"
    and wf :: "'m \<Rightarrow> bool"
  assumes get_ins: "wf m \<Longrightarrow> get (ins k v m) k' = (if k' = k then Some v else get m k')"
    and get_rem: "wf m \<Longrightarrow> get (rem k m) k' = (if k' = k then None else get m k')"
    and wf_ins: "wf m \<Longrightarrow> wf (ins k v m)"
    and wf_rem: "wf m \<Longrightarrow> wf (rem k m)"
begin

lemma get_rem_ins: "wf m \<Longrightarrow> get m k = None \<Longrightarrow> get (rem k (ins k v m)) = get m"
  by (auto simp: get_ins get_rem wf_ins)

lemma get_ins_ins: "wf m \<Longrightarrow> get (ins k v (ins k w m)) = get (ins k v m)"
  by (auto simp: get_ins wf_ins)

lemma get_ins_commute: "wf m \<Longrightarrow> k \<noteq> l \<Longrightarrow> get (ins k v (ins l w m)) = get (ins l w (ins k v m))"
  by (auto simp: get_ins wf_ins)

lemma get_rem_commute: "wf m \<Longrightarrow> get (rem k (rem l m)) = get (rem l (rem k m))"
  by (auto simp: get_rem wf_rem)

end

interpretation hm: keyed_store hm_get hm_insert hm_remove hm_wf
  by unfold_locales (simp_all add: hmap_simps)

subsection \<open>Operation sequences and reachable states\<close>

text \<open>
  A component whose operations are functions on its state: an invariant that
  every operation keeps holds after any sequence of operations.
\<close>

locale op_invariant =
  fixes step :: "'op \<Rightarrow> 's \<Rightarrow> 's"
    and inv :: "'s \<Rightarrow> bool"
  assumes step_inv: "inv s \<Longrightarrow> inv (step x s)"
begin

lemma run_inv: "inv s \<Longrightarrow> inv (fold step xs s)"
  by (induction xs arbitrary: s) (auto intro: step_inv)

lemma run_inv_prefix: "inv s \<Longrightarrow> inv (fold step (take n xs) s)"
  by (rule run_inv)

end

text \<open>
  A component whose operations may fail to return (\<open>None\<close>) against an abstract specification: every
  operation that returns keeps the invariant and makes an abstract step; so do sequences.
\<close>

fun run_opt :: "('op \<Rightarrow> 's \<Rightarrow> 's option) \<Rightarrow> 'op list \<Rightarrow> 's \<Rightarrow> 's option" where
  "run_opt step [] s = Some s"
| "run_opt step (x # xs) s = (case step x s of None \<Rightarrow> None | Some t \<Rightarrow> run_opt step xs t)"

inductive astar :: "('op \<Rightarrow> 'a \<Rightarrow> 'a \<Rightarrow> bool) \<Rightarrow> 'op list \<Rightarrow> 'a \<Rightarrow> 'a \<Rightarrow> bool" for step where
  astar_Nil: "astar step [] a a"
| astar_Cons: "step x a b \<Longrightarrow> astar step xs b c \<Longrightarrow> astar step (x # xs) a c"

locale op_simulation =
  fixes cstep :: "'op \<Rightarrow> 's \<Rightarrow> 's option"
    and astep :: "'op \<Rightarrow> 'a \<Rightarrow> 'a \<Rightarrow> bool"
    and abs :: "'s \<Rightarrow> 'a"
    and inv :: "'s \<Rightarrow> bool"
  assumes sim: "inv s \<Longrightarrow> cstep x s = Some t \<Longrightarrow> astep x (abs s) (abs t)"
    and keep: "inv s \<Longrightarrow> cstep x s = Some t \<Longrightarrow> inv t"
begin

lemma run_sim: "inv s \<Longrightarrow> run_opt cstep xs s = Some t \<Longrightarrow> astar astep xs (abs s) (abs t) \<and> inv t"
  by (induction xs arbitrary: s) (auto intro: astar.intros sim keep split: option.splits)

end

text \<open>A component whose operations always return.\<close>

locale op_total =
  fixes cstep :: "'op \<Rightarrow> 's \<Rightarrow> 's option"
    and inv :: "'s \<Rightarrow> bool"
  assumes total: "inv s \<Longrightarrow> \<exists>t. cstep x s = Some t \<and> inv t"
begin

lemma run_total: "inv s \<Longrightarrow> \<exists>t. run_opt cstep xs s = Some t \<and> inv t"
proof (induction xs arbitrary: s)
  case (Cons x xs)
  from total [OF Cons.prems, of x] Cons.IH show ?case by auto
qed simp

lemma run_inv_at: "inv s \<Longrightarrow> run_opt cstep xs s = Some t \<Longrightarrow> inv t"
  using run_total [of s xs] by simp

end

text \<open>A component with choice: a step relation and its reachable states.\<close>

inductive reach :: "('s \<Rightarrow> bool) \<Rightarrow> ('s \<Rightarrow> 's \<Rightarrow> bool) \<Rightarrow> 's \<Rightarrow> bool" for init step where
  reach_init: "init s \<Longrightarrow> reach init step s"
| reach_step: "reach init step s \<Longrightarrow> step s t \<Longrightarrow> reach init step t"

locale step_invariant =
  fixes init :: "'s \<Rightarrow> bool"
    and step :: "'s \<Rightarrow> 's \<Rightarrow> bool"
    and inv :: "'s \<Rightarrow> bool"
  assumes init_inv: "init s \<Longrightarrow> inv s"
    and rel_inv: "inv s \<Longrightarrow> step s t \<Longrightarrow> inv t"
begin

lemma reach_inv: "reach init step s \<Longrightarrow> inv s"
  by (induction rule: reach.induct) (auto intro: init_inv rel_inv)

end

end
