(* ===== verification/Bytes_Codec.thy ===== *)
theory Bytes_Codec
  imports Prelude
begin

text \<open>
  The length-prefixed frame codec of \<open>libs/hbb_common/src/bytes_codec.rs\<close>. A frame
  is a header of one to four bytes, whose two low bits say how many bytes it has
  and whose other bits are the payload length, followed by the payload. The decoder
  is incremental: it remembers in its state whether a header has been read.
  The theory proves the round trip, the errors of both directions, and that the
  decoded messages do not depend on how the byte stream is cut into chunks.
\<close>

subsection \<open>State and errors\<close>

datatype decode_state = Head | Data nat

record bytes_codec =
  bc_state :: decode_state
  bc_raw :: bool
  bc_max_packet_length :: nat

datatype io_error = InvalidData string | InvalidInput string

definition usize_MAX :: nat where
  "usize_MAX = 2 ^ 64 - 1"

definition bytes_codec_new :: bytes_codec where
  "bytes_codec_new = \<lparr>bc_state = Head, bc_raw = False, bc_max_packet_length = usize_MAX\<rparr>"

definition set_raw :: "bytes_codec \<Rightarrow> bytes_codec" where
  "set_raw c = c\<lparr>bc_raw := True\<rparr>"

definition set_max_packet_length :: "bytes_codec \<Rightarrow> nat \<Rightarrow> bytes_codec" where
  "set_max_packet_length c n = c\<lparr>bc_max_packet_length := n\<rparr>"

subsection \<open>Decoder\<close>

text \<open>
  The length word of a header: the first \<open>head_len\<close> bytes as a little-endian
  \<open>usize\<close>, shifted right by two.
\<close>

definition head_length :: "bytes \<Rightarrow> nat" where
  "head_length src = unat ((src ! 0) AND 3) + 1"

definition head_value :: "nat \<Rightarrow> bytes \<Rightarrow> usize" where
  "head_value head_len src =
     (let n0 = ucast (src ! 0);
          n1 = (if head_len > 1 then n0 OR push_bit 8 (ucast (src ! 1)) else n0);
          n2 = (if head_len > 2 then n1 OR push_bit 16 (ucast (src ! 2)) else n1);
          n3 = (if head_len > 3 then n2 OR push_bit 24 (ucast (src ! 3)) else n2)
      in drop_bit 2 n3)"

definition decode_head :: "bytes_codec \<Rightarrow> bytes \<Rightarrow> (nat option \<times> bytes, io_error) result" where
  "decode_head c src =
     (if src = [] then Ok (None, src)
      else let head_len = head_length src in
        if length src < head_len then Ok (None, src)
        else let n = unat (head_value head_len src) in
          if n > bc_max_packet_length c then Err (InvalidData ''Too big packet'')
          else Ok (Some n, drop head_len src))"

definition decode_data :: "nat \<Rightarrow> bytes \<Rightarrow> bytes option \<times> bytes" where
  "decode_data n src = (if length src < n then (None, src) else (Some (take n src), drop n src))"

text \<open>The second half of \<open>decode\<close>: cut \<open>n\<close> payload bytes off once they have arrived.\<close>

definition decode_body :: "nat \<Rightarrow> bytes_codec \<Rightarrow> bytes \<Rightarrow> (bytes option, io_error) result \<times> bytes_codec \<times> bytes" where
  "decode_body n c src =
     (case decode_data n src of
        (Some data, src') \<Rightarrow> (Ok (Some data), c\<lparr>bc_state := Head\<rparr>, src')
      | (None, src') \<Rightarrow> (Ok None, c, src'))"

definition decode :: "bytes_codec \<Rightarrow> bytes \<Rightarrow> (bytes option, io_error) result \<times> bytes_codec \<times> bytes" where
  "decode c src =
     (if bc_raw c then
        (if src \<noteq> [] then (Ok (Some src), c, []) else (Ok None, c, src))
      else
        case bc_state c of
          Head \<Rightarrow>
            (case decode_head c src of
               Err e \<Rightarrow> (Err e, c, src)
             | Ok (None, src') \<Rightarrow> (Ok None, c, src')
             | Ok (Some n, src') \<Rightarrow> decode_body n (c\<lparr>bc_state := Data n\<rparr>) src')
        | Data n \<Rightarrow> decode_body n c src)"

subsection \<open>Encoder\<close>

definition encode_head :: "nat \<Rightarrow> (bytes, io_error) result" where
  "encode_head len =
     (let l = push_bit 2 (of_nat len :: usize) in
      if len \<le> 0x3F then Ok [ucast l]
      else if len \<le> 0x3FFF then Ok (to_le 2 (unat ((ucast l :: u16) OR 0x1)))
      else if len \<le> 0x3FFFFF then
        let h = (ucast l :: u32) OR 0x2 in
        Ok (to_le 2 (unat (ucast (h AND 0xFFFF) :: u16)) @ [ucast (drop_bit 16 h)])
      else if len \<le> 0x3FFFFFFF then Ok (to_le 4 (unat ((ucast l :: u32) OR 0x3)))
      else Err (InvalidInput ''Overflow''))"

definition encode :: "bytes_codec \<Rightarrow> bytes \<Rightarrow> bytes \<Rightarrow> (unit, io_error) result \<times> bytes" where
  "encode c data buf =
     (if bc_raw c then (Ok (), buf @ data)
      else case encode_head (length data) of
             Ok h \<Rightarrow> (Ok (), buf @ h @ data)
           | Err e \<Rightarrow> (Err e, buf))"


subsection \<open>The header round trip\<close>

lemma or_push_nat: 
  assumes "(a::nat) < 2 ^ k" shows "a OR push_bit k b = a + 2 ^ k * b"
proof -
  have "take_bit k a = a" using assms by (simp add: take_bit_nat_eq_self)
  then have "a AND push_bit k b = take_bit k a AND push_bit k b" by simp
  also have "\<dots> = 0" by (rule bit_eqI) (auto simp: bit_simps)
  finally have "a + push_bit k b = a OR push_bit k b"
    by (rule disjunctive_add_eq_or)
  then show ?thesis by (simp add: push_bit_eq_mult mult.commute)
qed

lemma unat_or_push_byte:
  assumes "unat (x :: usize) < 2 ^ k" and "k \<le> 48"
  shows "unat (x OR push_bit k (ucast (b :: u8))) = unat x + 2 ^ k * unat b"
proof -
  have "unat b < 2 ^ 8" using unsigned_less [of b] by simp
  then have "2 ^ k * unat b < 2 ^ k * 2 ^ 8" by simp
  also have "\<dots> \<le> (2::nat) ^ 48 * 2 ^ 8" using assms(2) by (intro mult_right_mono power_increasing) auto
  finally have small: "2 ^ k * unat b < 2 ^ 64" by simp
  have "unat (push_bit k (ucast b :: usize)) = take_bit 64 (push_bit k (unat b))"
    using \<open>unat b < 2 ^ 8\<close> by (simp add: unsigned_push_bit_eq unsigned_ucast_eq take_bit_nat_eq_self)
  also have "\<dots> = push_bit k (unat b)"
    using small by (simp add: push_bit_eq_mult take_bit_nat_eq_self mult.commute)
  finally have "unat (push_bit k (ucast b :: usize)) = push_bit k (unat b)" .
  then show ?thesis
    using or_push_nat [OF assms(1)] by (simp add: unsigned_or_eq)
qed

lemma unat_or_tag:
  assumes "c < 4" and "4 * len < 2 ^ LENGTH('a::len)"  and "LENGTH('a) \<le> 64" and "2 < LENGTH('a)"
  shows "unat ((ucast (push_bit 2 (of_nat len :: usize)) :: 'a word) OR of_nat c) = 4 * len + c"
proof -
  have "4 * len < 2 ^ 64" using assms(2,3)
    by (meson less_le_trans one_le_numeral power_increasing)
  then have len64: "len < 2 ^ 64" "push_bit 2 len < 2 ^ 64" by (simp_all add: push_bit_eq_mult)
  have "unat (push_bit 2 (of_nat len :: usize)) = take_bit 64 (push_bit 2 len)"
    using len64(1) by (simp add: unsigned_push_bit_eq unat_of_nat)
  then have "unat (push_bit 2 (of_nat len :: usize)) = push_bit 2 len"
    using len64(2) by (simp add: take_bit_nat_eq_self)
  then have "unat (ucast (push_bit 2 (of_nat len :: usize)) :: 'a word) = push_bit 2 len"
    using assms(2) by (simp add: unsigned_ucast_eq push_bit_eq_mult take_bit_nat_eq_self)
  moreover have "unat (of_nat c :: 'a word) = c"
  proof -
    have "(4::nat) \<le> 2 ^ LENGTH('a)" 
      using assms(4) power_increasing [of 2 "LENGTH('a)" "2::nat"] by simp
    then show ?thesis using assms(1) by (simp add: unat_of_nat)
  qed
  ultimately show ?thesis
    using or_push_nat [of c 2 len] assms(1) by (simp add: unsigned_or_eq or.commute)
qed

lemma head_value_le:
  assumes "1 \<le> k" "k \<le> 4" "k \<le> length src"
  shows "unat (head_value k src) = of_le (take k src) div 4"
proof -
  let ?n0 = "ucast (src ! 0) :: usize"
  let ?n1 = "?n0 OR push_bit 8 (ucast (src ! 1))"
  let ?n2 = "?n1 OR push_bit 16 (ucast (src ! 2))"
  let ?n3 = "?n2 OR push_bit 24 (ucast (src ! 3))"
  have b: "unat (src ! i) < 256" for i
    using unsigned_less [of "src ! i"] by simp
  have n0: "unat ?n0 = unat (src ! 0)"
    using b [of 0] by (simp add: unsigned_ucast_eq take_bit_nat_eq_self)
  have n1: "unat ?n1 = unat (src ! 0) + 2 ^ 8 * unat (src ! 1)"
    using unat_or_push_byte [of ?n0 8 "src ! 1"] b [of 0] n0 by simp
  have n2: "unat ?n2 = unat (src ! 0) + 2 ^ 8 * unat (src ! 1) + 2 ^ 16 * unat (src ! 2)"
    using unat_or_push_byte [of ?n1 16 "src ! 2"] b [of 0] b [of 1] n1 by simp
  have n3: "unat ?n3 = unat (src ! 0) + 2 ^ 8 * unat (src ! 1) + 2 ^ 16 * unat (src ! 2) + 2 ^ 24 * unat (src ! 3)"
    using unat_or_push_byte [of ?n2 24 "src ! 3"] b [of 0] b [of 1] b [of 2] n2 by simp
  have d: "unat (drop_bit 2 (w :: usize)) = unat w div 4" for w
    by (subst unat_drop_bit_eq) (simp add: drop_bit_eq_div)
  consider "k = 1" | "k = 2" | "k = 3" | "k = 4" using assms by linarith
  then show ?thesis
  proof cases
    case 1
    with assms(3) have "take k src = [src ! 0]" by (cases src) auto
    with 1 n0 d [of ?n0] show ?thesis by (simp add: head_value_def)
  next
    case 2
    with assms(3) have "take k src = [src ! 0, src ! 1]"
      by (auto simp: Suc_le_length_iff numeral_2_eq_2)
    with 2 n1 d [of ?n1] show ?thesis by (simp add: head_value_def)
  next
    case 3
    with assms(3) have "take k src = [src ! 0, src ! 1, src ! 2]"
      by (auto simp: Suc_le_length_iff numeral_3_eq_3 numeral_2_eq_2)
    with 3 n2 d [of ?n2] show ?thesis by (simp add: head_value_def)
  next
    case 4
    with assms(3) have "take k src = [src ! 0, src ! 1, src ! 2, src ! 3]"
      by (auto simp: Suc_le_length_iff eval_nat_numeral)
    with 4 n3 d [of ?n3] show ?thesis by (simp add: head_value_def)
  qed
qed

lemma head_length_le: "xs \<noteq> [] \<Longrightarrow> head_length xs = of_le (take (Suc 0) xs) mod 4 + 1"
proof -
  assume "xs \<noteq> []"
  moreover have "(w :: u8) AND 3 = take_bit 2 w" for w
    by (simp add: take_bit_eq_mask mask_eq_exp_minus_1)
  moreover have "unat (take_bit 2 (w :: u8)) = unat w mod 4" for w
    by (subst unsigned_take_bit_eq) (simp add: take_bit_eq_mod)
  ultimately show ?thesis by (cases xs) (simp_all add: head_length_def)
qed

lemma of_le_take_1: "xs \<noteq> [] \<Longrightarrow> of_le (take (Suc 0) xs) = of_le xs mod 256"
proof -
  assume "xs \<noteq> []"
  then obtain a ys where "xs = a # ys" by (cases xs) auto
  moreover have "unat a < 256" using unsigned_less [of a] by simp
  ultimately show ?thesis by simp
qed

text \<open>
  The header of a payload of \<open>len\<close> bytes is the little-endian form of
  \<open>4 * len + (k - 1)\<close> in \<open>k\<close> bytes.
\<close>

definition head_size :: "nat \<Rightarrow> nat" where
  "head_size len = (if len \<le> 0x3F then 1 else if len \<le> 0x3FFF then 2 else if len \<le> 0x3FFFFF then 3 else 4)"

lemma to_le_3:
  assumes "x < 2 ^ 32"
  shows "to_le 2 (unat (ucast ((of_nat x :: u32) AND 0xFFFF) :: u16)) @ [ucast (drop_bit 16 (of_nat x :: u32))]
    = to_le 3 x"
proof -
  have "(of_nat x :: u32) AND 0xFFFF = take_bit 16 (of_nat x :: u32)"
    by (simp add: take_bit_eq_mask mask_eq_exp_minus_1)
  moreover have "unat (ucast (take_bit 16 (of_nat x :: u32)) :: u16) = take_bit 16 (take_bit 16 (take_bit 32 x))"
    by (subst unsigned_ucast_eq, subst unsigned_take_bit_eq) (simp add: unat_of_nat take_bit_eq_mod)
  ultimately have "unat (ucast ((of_nat x :: u32) AND 0xFFFF) :: u16) = x mod 2 ^ 16"
    using assms by (simp add: take_bit_nat_eq_self take_bit_eq_mod)
  moreover have "(ucast (drop_bit 16 (of_nat x :: u32)) :: u8) = of_nat (x div 2 ^ 16)"
  proof -
    have "unat (drop_bit 16 (of_nat x :: u32)) = x div 2 ^ 16"
      using assms by (subst unat_drop_bit_eq) (simp add: drop_bit_eq_div unat_of_nat)
    then show ?thesis by (metis of_nat_unat)
  qed
  moreover have "to_le 3 x = to_le 2 (x mod 2 ^ 16) @ [of_nat (x div 2 ^ 16)]"
    using to_le_append [of 2 1 x] to_le_mod [of 2 x] by simp
  ultimately show ?thesis by simp
qed

lemma encode_head_le:
  assumes "len \<le> 0x3FFFFFFF"
  shows "encode_head len = Ok (to_le (head_size len) (4 * len + (head_size len - 1)))"
proof -
  let ?l = "push_bit 2 (of_nat len :: usize)"
  consider "len \<le> 0x3F" | "0x3F < len" "len \<le> 0x3FFF" | "0x3FFF < len" "len \<le> 0x3FFFFF"
    | "0x3FFFFF < len" "len \<le> 0x3FFFFFFF"
    using assms by linarith
  then show ?thesis
  proof cases
    case 1
    then have "unat (ucast ?l :: u8) = 4 * len"
      using unat_or_tag [where 'a = 8, of 0 len] by simp
    then have "(ucast ?l :: u8) = of_nat (4 * len)"
      by (metis of_nat_unat ucast_id)
    with 1 show ?thesis by (simp add: encode_head_def head_size_def)
  next
    case 2
    then have "unat ((ucast ?l :: u16) OR 1) = 4 * len + 1"
      using unat_or_tag [where 'a = 16, of 1 len] by simp
    with 2 show ?thesis by (simp add: encode_head_def head_size_def)
  next
    case 3
    then have "unat ((ucast ?l :: u32) OR 2) = 4 * len + 2"
      using unat_or_tag [where 'a = 32, of 2 len] by simp
    then have W: "(ucast ?l :: u32) OR 2 = of_nat (4 * len + 2)"
      by (metis of_nat_unat ucast_id)
    have x: "4 * len + 2 < 2 ^ 32" using 3 by simp
    have "encode_head len = Ok (to_le 2 (unat (ucast (((ucast ?l :: u32) OR 2) AND 0xFFFF) :: u16))
        @ [ucast (drop_bit 16 ((ucast ?l :: u32) OR 2))])"
      using 3 by (simp add: encode_head_def Let_def)
    also have "\<dots> = Ok (to_le 3 (4 * len + 2))"
      by (simp only: W to_le_3 [OF x])
    finally show ?thesis using 3 by (simp add: head_size_def)
  next
    case 4
    then have "unat ((ucast ?l :: u32) OR 3) = 4 * len + 3"
      using unat_or_tag [where 'a = 32, of 3 len] by simp
    with 4 show ?thesis by (simp add: encode_head_def head_size_def)
  qed
qed

lemma decode_head_encoded:
  assumes "len \<le> 0x3FFFFFFF" and "encode_head len = Ok h"
  shows "h \<noteq> []" "length h = head_size len" "head_length (h @ xs) = length h"
    "unat (head_value (length h) (h @ xs)) = len"
proof -
  let ?k = "head_size len"
  let ?x = "4 * len + (?k - 1)"
  have h: "h = to_le ?k ?x" using assms encode_head_le by simp
  have k: "1 \<le> ?k" "?k \<le> 4" by (auto simp: head_size_def)
  have x: "?x < 256 ^ ?k" using assms(1) by (auto simp: head_size_def)
  show l: "length h = ?k" by (simp add: h)
  with k show ne: "h \<noteq> []" by auto
  have lx: "of_le h = ?x" using x by (simp add: h of_le_to_le)
  have "head_length (h @ xs) = head_length h"
    using ne by (simp add: head_length_def nth_append)
  then have "head_length (h @ xs) = ?x mod 256 mod 4 + 1"
    using head_length_le [OF ne] of_le_take_1 [OF ne] lx by simp
  also have "\<dots> = ?k"
  proof -
    have "?x mod 4 = (?k - 1) mod 4" by (rule mod_mult_self4)
    with k show ?thesis by (simp add: mod_mod_cancel)
  qed
  finally show "head_length (h @ xs) = length h" using l by simp
  show "unat (head_value (length h) (h @ xs)) = len"
    using head_value_le [of "length h" "h @ xs"] k l lx by simp
qed

subsection \<open>Errors and round trip\<close>

text \<open>The encoder fails exactly on payloads that do not fit the 30-bit length of a
  header (never in raw mode), with the error \<open>Overflow\<close>, and then leaves the buffer as it
  was; otherwise it only appends to it.\<close>

theorem encode_overflow_iff:
  "(fst (encode c data buf) = Err e \<longleftrightarrow>
     \<not> bc_raw c \<and> 0x3FFFFFFF < length data \<and> e = InvalidInput ''Overflow'')
   \<and> (\<exists>out. snd (encode c data buf) = buf @ out \<and> (fst (encode c data buf) = Err e \<longrightarrow> out = []))"
proof (cases "length data \<le> 0x3FFFFFFF")
  case True
  then show ?thesis by (simp add: encode_def encode_head_le)
next
  case False
  then have "encode_head (length data) = Err (InvalidInput ''Overflow'')"
    by (simp add: encode_head_def Let_def)
  with False show ?thesis by (auto simp: encode_def)
qed

theorem encode_overflow_iff_witness:
  "snd (encode bytes_codec_new [1, 2] [0]) = [0, 8, 1, 2] \<and> fst (encode bytes_codec_new [1, 2] [0]) \<noteq> Err (InvalidInput ''Overflow'')"
  using encode_overflow_iff [of bytes_codec_new "[1, 2]" "[0]" "InvalidInput ''Overflow''"]
  by (simp add: encode_def encode_head_def bytes_codec_new_def)

lemma decode_frame:
  assumes "\<not> bc_raw c" "bc_state c = Head" "length data \<le> 0x3FFFFFFF"
    and h: "encode_head (length data) = Ok h"
    and m: "length data \<le> bc_max_packet_length c"
  shows "decode c (h @ data @ rest) = (Ok (Some data), c, rest)"
proof -
  note f = decode_head_encoded [OF assms(3) h]
  have "decode_head c (h @ data @ rest) = Ok (Some (length data), data @ rest)"
    using f(1) f(3,4) [of "data @ rest"] m by (simp add: decode_head_def Let_def)
  with assms(1,2) show ?thesis
    by (simp add: decode_def decode_body_def decode_data_def)
qed


subsection \<open>Incremental decoding\<close>

text \<open>
  The contract between a decoder and the framing loop that drives it: bytes that
  arrive later never change what the bytes already seen decode to.
\<close>

inductive drains :: "('c \<Rightarrow> 'b list \<Rightarrow> ('m option, 'e) result \<times> 'c \<times> 'b list)
    \<Rightarrow> 'c \<Rightarrow> 'b list \<Rightarrow> 'm list \<Rightarrow> 'e option \<Rightarrow> 'c \<Rightarrow> 'b list \<Rightarrow> bool" for dec where
  drains_wait: "dec c xs = (Ok None, c', ys) \<Longrightarrow> drains dec c xs [] None c' ys"
| drains_fail: "dec c xs = (Err e, c', ys) \<Longrightarrow> drains dec c xs [] (Some e) c' ys"
| drains_msg: "dec c xs = (Ok (Some m), c1, ys) \<Longrightarrow> drains dec c1 ys ms r c' zs
    \<Longrightarrow> drains dec c xs (m # ms) r c' zs"

locale incremental_decoder =
  fixes dec :: "'c \<Rightarrow> 'b list \<Rightarrow> ('m option, 'e) result \<times> 'c \<times> 'b list"
    and ok :: "'c \<Rightarrow> bool"
  assumes some_append: "ok c \<Longrightarrow> dec c xs = (Ok (Some m), c', ys) \<Longrightarrow> dec c (xs @ zs) = (Ok (Some m), c', ys @ zs)"
    and none_append: "ok c \<Longrightarrow> dec c xs = (Ok None, c', ys) \<Longrightarrow> dec c (xs @ zs) = dec c' (ys @ zs)"
    and err_append: "ok c \<Longrightarrow> dec c xs = (Err e, c', ys) \<Longrightarrow> dec c (xs @ zs) = (Err e, c', ys @ zs)"
    and dec_ok: "ok c \<Longrightarrow> dec c xs = (r, c', ys) \<Longrightarrow> ok c'"
begin

lemma drains_step_eq:
  assumes "dec c xs = dec c' ys" and "drains dec c' ys ms r d zs"
  shows "drains dec c xs ms r d zs"
  using assms(2) by (cases rule: drains.cases) (simp_all add: assms(1) drains.intros)

lemma drains_append:
  assumes "drains dec c xs ms None c' ys" and "ok c" and "drains dec c' (ys @ zs) ms' r d ws"
  shows "drains dec c (xs @ zs) (ms @ ms') r d ws"
  using assms
proof (induction c xs ms "None :: 'e option" c' ys rule: drains.induct)
  case (drains_wait c xs c' ys)
  then show ?case using none_append [of c xs c' ys zs] by (auto intro: drains_step_eq)
next
  case (drains_msg c xs m c1 ys ms c' zs')
  then have "drains dec c1 (ys @ zs) (ms @ ms') r d ws" using dec_ok by blast
  with drains_msg show ?case
    using some_append [of c xs m c1 ys zs] by (auto intro: drains.drains_msg)
qed

lemma drains_append_fail:
  assumes "drains dec c xs ms (Some e) c' ys" and "ok c"
  shows "drains dec c (xs @ zs) ms (Some e) c' (ys @ zs)"
  using assms
proof (induction c xs ms "Some e" c' ys rule: drains.induct)
  case (drains_fail c xs c' ys)
  then show ?case using err_append by (auto intro: drains.drains_fail)
next
  case (drains_msg c xs m c1 ys ms c' zs')
  then have "drains dec c1 (ys @ zs) ms (Some e) c' (zs' @ zs)" using dec_ok by blast
  with drains_msg show ?case
    using some_append [of c xs m c1 ys zs] by (auto intro: drains.drains_msg)
qed

lemma drains_ok: "drains dec c xs ms r c' ys \<Longrightarrow> ok c \<Longrightarrow> ok c'"
  by (induction rule: drains.induct) (auto dest: dec_ok)

end

lemma decode_body_append:
  "decode_body n c xs = (Ok (Some d), c', ys) \<Longrightarrow> decode_body n c (xs @ zs) = (Ok (Some d), c', ys @ zs)"
  "decode_body n c xs = (Ok None, c', ys) \<Longrightarrow> c' = c \<and> ys = xs"
  "decode_body n c xs \<noteq> (Err e, c', ys)"
  by (auto simp: decode_body_def decode_data_def split: if_splits)

lemma decode_head_append:
  "decode_head c xs = Ok (Some n, ys) \<Longrightarrow> decode_head c (xs @ zs) = Ok (Some n, ys @ zs)"
  "decode_head c xs = Err e \<Longrightarrow> decode_head c (xs @ zs) = Err e"
proof -
  have hl: "head_length (xs @ zs) = head_length xs" if "xs \<noteq> []"
    using that by (simp add: head_length_def nth_append)
  have hv: "head_value (head_length xs) (xs @ zs) = head_value (head_length xs) xs"
    if "xs \<noteq> []" "head_length xs \<le> length xs"
    using that by (auto simp: head_value_def nth_append Let_def)
  show "decode_head c xs = Ok (Some n, ys) \<Longrightarrow> decode_head c (xs @ zs) = Ok (Some n, ys @ zs)"
    "decode_head c xs = Err e \<Longrightarrow> decode_head c (xs @ zs) = Err e"
    using hl hv by (auto simp: decode_head_def Let_def not_less split: if_splits)
qed

lemma decode_head_None: "decode_head c xs = Ok (None, ys) \<Longrightarrow> ys = xs"
  by (auto simp: decode_head_def Let_def split: if_splits)

lemma decode_not_raw:
  assumes "\<not> bc_raw c" "decode c xs = (r, c', ys)"
  shows "\<not> bc_raw c'"
  using assms
  by (cases "bc_state c")
     (auto simp: decode_def decode_body_def split: result.splits option.splits prod.splits)

lemma decode_append:
  assumes "\<not> bc_raw c"
  shows "decode c xs = (Ok (Some m), c', ys) \<Longrightarrow> decode c (xs @ zs) = (Ok (Some m), c', ys @ zs)"
    and "decode c xs = (Err e, c', ys) \<Longrightarrow> decode c (xs @ zs) = (Err e, c', ys @ zs)"
    and "decode c xs = (Ok None, c', ys) \<Longrightarrow> decode c (xs @ zs) = decode c' (ys @ zs)"
proof -
  show "decode c xs = (Ok (Some m), c', ys) \<Longrightarrow> decode c (xs @ zs) = (Ok (Some m), c', ys @ zs)"
    using assms
    by (cases "bc_state c"; cases "decode_head c xs")
       (auto simp: decode_def decode_body_append decode_head_append split: option.splits)
  show "decode c xs = (Err e, c', ys) \<Longrightarrow> decode c (xs @ zs) = (Err e, c', ys @ zs)"
    using assms
    by (cases "bc_state c"; cases "decode_head c xs")
       (auto simp: decode_def decode_body_append(3) decode_head_append split: option.splits)
  assume none: "decode c xs = (Ok None, c', ys)"
  show "decode c (xs @ zs) = decode c' (ys @ zs)"
  proof (cases "c' = c \<and> ys = xs")
    case False
    then obtain n where "bc_state c = Head" "decode_head c xs = Ok (Some n, ys)" "c' = c\<lparr>bc_state := Data n\<rparr>"
      using none assms
      by (auto simp: decode_def dest!: decode_body_append(2) dest: decode_head_None
          split: decode_state.splits result.splits option.splits)
    then show ?thesis using assms by (simp add: decode_def decode_head_append)
  qed simp
qed

interpretation codec: incremental_decoder decode "\<lambda>c. \<not> bc_raw c"
  by unfold_locales (fact decode_append decode_not_raw)+


subsection \<open>The framing loop\<close>

text \<open>
  The loop of the framed transport: decode until the decoder asks for more bytes or
  fails. Every message consumes a header or completes one, so the loop ends.
\<close>

definition decode_measure :: "bytes_codec \<Rightarrow> bytes \<Rightarrow> nat" where
  "decode_measure c xs = 2 * length xs + (case bc_state c of Head \<Rightarrow> 0 | Data _ \<Rightarrow> 1)"

lemma decode_decreases:
  assumes "decode c xs = (Ok (Some m), c', ys)"
  shows "decode_measure c' ys < decode_measure c xs"
proof (cases "bc_raw c")
  case True
  with assms show ?thesis by (auto simp: decode_def decode_measure_def split: if_splits)
next
  case raw: False
  show ?thesis
  proof (cases "bc_state c")
    case (Data n)
    with assms raw show ?thesis
      by (auto simp: decode_def decode_body_def decode_data_def decode_measure_def split: if_splits)
  next
    case Head
    with assms raw obtain n zs where hd: "decode_head c xs = Ok (Some n, zs)"
      and b: "decode_body n (c\<lparr>bc_state := Data n\<rparr>) zs = (Ok (Some m), c', ys)"
      by (auto simp: decode_def split: result.splits option.splits)
    from hd have "length zs < length xs"
      by (auto simp: decode_head_def head_length_def Let_def split: if_splits)
    with b Head show ?thesis
      by (auto simp: decode_body_def decode_data_def decode_measure_def split: if_splits)
  qed
qed

function drain :: "bytes_codec \<Rightarrow> bytes \<Rightarrow> bytes list \<times> io_error option \<times> bytes_codec \<times> bytes" where
  "drain c xs = (case decode c xs of
       (Ok None, c', ys) \<Rightarrow> ([], None, c', ys)
     | (Err e, c', ys) \<Rightarrow> ([], Some e, c', ys)
     | (Ok (Some m), c', ys) \<Rightarrow> (case drain c' ys of (ms, r) \<Rightarrow> (m # ms, r)))"
  by pat_completeness auto
termination
  by (relation "measure (\<lambda>(c, xs). decode_measure c xs)") (auto intro: decode_decreases [OF sym])

declare drain.simps [simp del]

lemma drains_drain: "drain c xs = (ms, r, c', ys) \<Longrightarrow> drains decode c xs ms r c' ys"
proof (induction c xs arbitrary: ms r c' ys rule: drain.induct)
  case (1 c xs)
  obtain res c1 zs where d: "decode c xs = (res, c1, zs)" by (cases "decode c xs")
  show ?case
  proof (cases res)
    case (Err e)
    with "1.prems" d show ?thesis by (auto simp: drain.simps [of c xs] intro: drains.intros)
  next
    case (Ok m)
    show ?thesis
    proof (cases m)
      case None
      with "1.prems" d Ok show ?thesis by (auto simp: drain.simps [of c xs] intro: drains.intros)
    next
      case (Some x)
      obtain ms' r' c2 ys' where dr: "drain c1 zs = (ms', r', c2, ys')" by (cases "drain c1 zs") auto
      with "1.IH" d Ok Some have "drains decode c1 zs ms' r' c2 ys'" by auto
      with "1.prems" d dr Ok Some show ?thesis
        by (auto simp: drain.simps [of c xs] intro: drains_msg)
    qed
  qed
qed

lemma drain_drains: "drains decode c xs ms r c' ys \<Longrightarrow> drain c xs = (ms, r, c', ys)"
  by (induction rule: drains.induct) (subst drain.simps, simp)+

text \<open>The transport delivers the byte stream in chunks; unread bytes stay in the buffer.\<close>

fun feed :: "bytes_codec \<Rightarrow> bytes \<Rightarrow> bytes list \<Rightarrow> bytes list \<times> io_error option \<times> bytes_codec \<times> bytes" where
  "feed c buf [] = ([], None, c, buf)"
| "feed c buf (ch # chs) = (case drain c (buf @ ch) of
       (ms, Some e, c', ys) \<Rightarrow> (ms, Some e, c', ys)
     | (ms, None, c', ys) \<Rightarrow> (case feed c' ys chs of (ms', r) \<Rightarrow> (ms @ ms', r)))"


lemma decode_stuck: "\<not> bc_raw c \<Longrightarrow> decode c xs = (Ok None, c', ys) \<Longrightarrow> decode c' ys = (Ok None, c', ys)"
  using codec.none_append [of c xs c' ys "[]"] by simp

lemma drains_stuck: "drains decode c xs ms r c' ys \<Longrightarrow> r = None \<Longrightarrow> \<not> bc_raw c \<Longrightarrow> decode c' ys = (Ok None, c', ys)"
  by (induction rule: drains.induct) (auto intro: decode_stuck dest: decode_not_raw)

lemma feed_drains:
  assumes "\<not> bc_raw c" and "decode c buf = (Ok None, c, buf)" and "feed c buf chs = (ms, r, c', ys)"
  shows "\<exists>zs. drains decode c (buf @ concat chs) ms r c' (ys @ zs) \<and> (r = None \<longrightarrow> zs = [])"
  using assms
proof (induction chs arbitrary: c buf ms)
  case Nil
  then show ?case by (auto intro: drains_wait)
next
  case (Cons ch chs)
  obtain ms1 r1 c1 ys1 where d: "drain c (buf @ ch) = (ms1, r1, c1, ys1)"
    by (cases "drain c (buf @ ch)") auto
  note d1 = drains_drain [OF d]
  show ?case
  proof (cases r1)
    case (Some e)
    with d Cons.prems have "ms = ms1" "r = Some e" "c' = c1" "ys = ys1" by auto
    with codec.drains_append_fail [of c "buf @ ch" ms1 e c1 ys1 "concat chs"] d1 Some Cons.prems(1)
    show ?thesis by auto
  next
    case None
    obtain ms2 where f: "feed c1 ys1 chs = (ms2, r, c', ys)" and ms: "ms = ms1 @ ms2"
      using d None Cons.prems(3) by (auto split: prod.splits)
    have "\<not> bc_raw c1" "decode c1 ys1 = (Ok None, c1, ys1)"
      using codec.drains_ok [OF d1 Cons.prems(1)] drains_stuck [OF d1 None Cons.prems(1)] by auto
    from Cons.IH [OF this f] obtain zs where
      zs: "drains decode c1 (ys1 @ concat chs) ms2 r c' (ys @ zs)" "r = None \<longrightarrow> zs = []" by blast
    have "drains decode c ((buf @ ch) @ concat chs) (ms1 @ ms2) r c' (ys @ zs)"
      using d1 None Cons.prems(1) zs(1) by (intro codec.drains_append) auto
    with zs(2) ms show ?thesis by auto
  qed
qed

lemma feed_of_drains:
  assumes "\<not> bc_raw c" "bc_state c = Head" "drains decode c (concat chunks) ms None c' []"
  shows "feed c [] chunks = (ms, None, c', [])"
proof -
  obtain ms1 r c1 ys where f: "feed c [] chunks = (ms1, r, c1, ys)"
    by (cases "feed c [] chunks") auto
  have "decode c [] = (Ok None, c, [])"
    using assms(1,2) by (simp add: decode_def decode_head_def)
  from feed_drains [OF assms(1) this f] obtain zs where
    "drains decode c (concat chunks) ms1 r c1 (ys @ zs)" "r = None \<longrightarrow> zs = []" by auto
  with assms(3) f show ?thesis by (auto dest!: drain_drains)
qed

text \<open>The frames a sender puts on the wire, one \<open>encode\<close> after the other.\<close>

fun encode_all :: "bytes_codec \<Rightarrow> bytes list \<Rightarrow> bytes \<Rightarrow> bytes" where
  "encode_all c [] buf = buf"
| "encode_all c (m # ms) buf = encode_all c ms (snd (encode c m buf))"

lemma encode_all_append: "encode_all c ms buf = buf @ encode_all c ms []"
proof (induction ms arbitrary: buf)
  case (Cons m ms)
  have "snd (encode c m buf) = buf @ snd (encode c m [])"
    by (simp add: encode_def split: result.splits)
  with Cons [of "snd (encode c m buf)"] Cons [of "snd (encode c m [])"] show ?case by simp
qed simp

lemma drains_encode_all:
  assumes "\<not> bc_raw c" "bc_state c = Head"
    and "\<forall>m \<in> set ms. length m \<le> 0x3FFFFFFF \<and> length m \<le> bc_max_packet_length c"
  shows "drains decode c (encode_all c ms []) ms None c []"
  using assms(3)
proof (induction ms)
  case Nil
  from assms show ?case by (auto intro!: drains_wait simp: decode_def decode_head_def)
next
  case (Cons m ms)
  then obtain h where h: "encode_head (length m) = Ok h"
    using encode_head_le by auto
  then have "encode_all c (m # ms) [] = h @ m @ encode_all c ms []"
    using assms(1) encode_all_append [of c ms "h @ m"] by (simp add: encode_def)
  moreover have "decode c (h @ m @ encode_all c ms []) = (Ok (Some m), c, encode_all c ms [])"
    using Cons.prems by (intro decode_frame assms h) auto
  ultimately show ?case using Cons by (auto intro: drains_msg)
qed

text \<open>C1. Round trip over a chunked transport: the frames of any messages that fit
  the codec, cut into chunks in any way, are decoded to exactly these messages, with no error,
  no byte left over, and the decoder back in its initial state.\<close>

theorem codec_stream_roundtrip:
  assumes "\<not> bc_raw c" "bc_state c = Head"
    and "\<forall>m \<in> set ms. length m \<le> 0x3FFFFFFF \<and> length m \<le> bc_max_packet_length c"
    and "concat chunks = encode_all c ms []"
  shows "feed c [] chunks = (ms, None, c, [])"
  using drains_encode_all [OF assms(1-3)] assms(4) by (intro feed_of_drains assms) simp

theorem codec_stream_roundtrip_witness:
  "feed bytes_codec_new [] [[0x10], [1, 2], [3, 4, 0x04, 9]] = ([[1, 2, 3, 4], [9]], None, bytes_codec_new, [])"
proof -
  have enc: "encode_all bytes_codec_new [[1, 2, 3, 4], [9]] [] = [0x10, 1, 2, 3, 4, 0x04, 9]"
    by (simp add: encode_def encode_head_def bytes_codec_new_def)
  show ?thesis
    by (rule codec_stream_roundtrip)
       (simp_all add: bytes_codec_new_def usize_MAX_def enc [unfolded bytes_codec_new_def usize_MAX_def, simplified])
qed

text \<open>C19. What a decoder reads does not depend on how the transport cuts the byte
  stream, for arbitrary (also malformed) bytes: two ways to cut the same stream give the same
  messages, the same error and the same decoder state, and the same unread bytes unless an
  error stopped it.\<close>

theorem codec_chunking_irrelevant:
  assumes "\<not> bc_raw c" "bc_state c = Head" "concat xss = concat yss"
    and "feed c [] xss = (ms, r, c', ys)" and "feed c [] yss = (ms', r', c'', ys')"
  shows "ms = ms' \<and> r = r' \<and> c' = c'' \<and> (r = None \<longrightarrow> ys = ys')"
proof -
  have stuck: "decode c [] = (Ok None, c, [])"
    using assms(1,2) by (simp add: decode_def decode_head_def)
  from feed_drains [OF assms(1) stuck assms(4)] obtain zs where
    z: "drain c (concat xss) = (ms, r, c', ys @ zs)" "r = None \<longrightarrow> zs = []"
    by (auto dest: drain_drains)
  from feed_drains [OF assms(1) stuck assms(5)] obtain zs' where
    z': "drain c (concat yss) = (ms', r', c'', ys' @ zs')" "r' = None \<longrightarrow> zs' = []"
    by (auto dest: drain_drains)
  from z z' assms(3) show ?thesis by auto
qed

theorem codec_chunking_irrelevant_witness:
  "feed bytes_codec_new [] [[0x04, 7, 0x05]] = ([[7]], None, bytes_codec_new, [0x05])
   \<and> feed bytes_codec_new [] [[0x04], [7], [0x05]] = ([[7]], None, bytes_codec_new, [0x05])"
proof -
  have a: "feed bytes_codec_new [] [[0x04, 7, 0x05]] = ([[7]], None, bytes_codec_new, [0x05])"
    by (simp add: bytes_codec_new_def usize_MAX_def drain.simps decode_def decode_head_def head_length_def
        head_value_def decode_body_def decode_data_def)
  obtain ms r c' ys where b: "feed bytes_codec_new [] [[0x04], [7], [0x05]] = (ms, r, c', ys)"
    by (cases "feed bytes_codec_new [] [[0x04], [7], [0x05]]") auto
  from codec_chunking_irrelevant [OF _ _ _ a b] a b show ?thesis
    by (simp add: bytes_codec_new_def)
qed

lemma head_value_bound: "k \<le> 4 \<Longrightarrow> k \<le> length src \<Longrightarrow> 1 \<le> k \<Longrightarrow> unat (head_value k src) \<le> 0x3FFFFFFF"
proof -
  assume k: "k \<le> 4" "k \<le> length src" "1 \<le> k"
  have "of_le (take k src) < 256 ^ k" using of_le_bound [of "take k src"] k by simp
  also have "\<dots> \<le> (256::nat) ^ 4" using k by (intro power_increasing) auto
  finally have "of_le (take k src) div 4 \<le> 0x3FFFFFFF" by simp
  with k show ?thesis by (simp add: head_value_le)
qed

lemma head_length_le_4: "head_length src \<le> 4"
proof -
  have "unat ((src ! 0) AND 3) \<le> unat (3 :: u8)"
    by (rule word_and_le1 [THEN word_le_nat_alt [THEN iffD1]])
  then show ?thesis by (simp add: head_length_def)
qed

definition bounded_state :: "bytes_codec \<Rightarrow> bool" where
  "bounded_state c \<longleftrightarrow> (case bc_state c of Head \<Rightarrow> True | Data n \<Rightarrow> n \<le> bc_max_packet_length c \<and> n \<le> 0x3FFFFFFF)"

lemma decode_bounded:
  assumes "\<not> bc_raw c" "bounded_state c" "decode c xs = (r, c', ys)"
  shows "bounded_state c' \<and> bc_max_packet_length c' = bc_max_packet_length c
    \<and> (\<forall>m. r = Ok (Some m) \<longrightarrow> length m \<le> min (bc_max_packet_length c) 0x3FFFFFFF)"
proof (cases "bc_state c")
  case (Data n)
  with assms show ?thesis
    by (auto simp: decode_def decode_body_def decode_data_def bounded_state_def split: if_splits)
next
  case Head
  show ?thesis
  proof (cases "decode_head c xs")
    case (Err e)
    with Head assms show ?thesis by (auto simp: decode_def)
  next
    case (Ok p)
    then obtain o' zs where p: "decode_head c xs = Ok (o', zs)" by (cases p) auto
    have "n \<le> bc_max_packet_length c \<and> n \<le> 0x3FFFFFFF" if "o' = Some n" for n
      using p that head_value_bound [of "head_length xs" xs] head_length_le_4 [of xs]
      by (auto simp: decode_head_def Let_def head_length_def split: if_splits)
    with p Head assms show ?thesis
      by (auto simp: decode_def decode_body_def decode_data_def bounded_state_def split: option.splits if_splits)
  qed
qed

lemma drains_bounded:
  "drains decode c xs ms r c' ys \<Longrightarrow> \<not> bc_raw c \<Longrightarrow> bounded_state c \<Longrightarrow>
    (\<forall>m \<in> set ms. length m \<le> min (bc_max_packet_length c) 0x3FFFFFFF)"
proof (induction rule: drains.induct)
  case (drains_msg c xs m c1 ys ms r c' zs)
  with decode_bounded [of c xs "Ok (Some m)" c1 ys] decode_not_raw [of c xs "Ok (Some m)" c1 ys]
  show ?case by auto
qed auto

text \<open>The packet limit holds on every input: whatever bytes arrive and however they
  are cut, no message longer than \<open>max_packet_length\<close> or than the 30 bits of a header
  is ever handed to the caller.\<close>

theorem codec_respects_limit:
  assumes "\<not> bc_raw c" "bc_state c = Head" "feed c [] chunks = (ms, r, c', ys)" "m \<in> set ms"
  shows "length m \<le> bc_max_packet_length c \<and> length m \<le> 0x3FFFFFFF"
proof -
  have "decode c [] = (Ok None, c, [])" "bounded_state c"
    using assms(1,2) by (simp_all add: decode_def decode_head_def bounded_state_def)
  with feed_drains [OF assms(1) _ assms(3)] drains_bounded [OF _ assms(1)] assms(4)
  show ?thesis by fastforce
qed

theorem codec_respects_limit_witness:
  "feed (set_max_packet_length bytes_codec_new 1) [] [[0x04, 7, 0x08, 1, 2]]
     = ([[7]], Some (InvalidData ''Too big packet''), set_max_packet_length bytes_codec_new 1, [0x08, 1, 2])
   \<and> length [7 :: u8] \<le> 1"
proof -
  let ?c = "set_max_packet_length bytes_codec_new 1"
  have f: "feed ?c [] [[0x04, 7, 0x08, 1, 2]]
     = ([[7]], Some (InvalidData ''Too big packet''), ?c, [0x08, 1, 2])"
    by (simp add: bytes_codec_new_def set_max_packet_length_def drain.simps decode_def decode_head_def
        head_length_def head_value_def decode_body_def decode_data_def)
  from codec_respects_limit [OF _ _ f, of "[7]"] f show ?thesis
    by (simp add: bytes_codec_new_def set_max_packet_length_def)
qed

end
