(* ===== verification/Secure_Stream.thy ===== *)
theory Secure_Stream
  imports Bytes_Codec
begin

text \<open>
  The encrypted framed stream of \<open>libs/hbb_common/src/tcp.rs\<close>: \<open>Encrypt\<close> (a symmetric key
  and two sequence numbers), \<open>FramedStream\<close> (the codec, the optional key and the send
  timeout) and the key handshake. The cryptography is the library \<open>sodiumoxide\<close>; its
  functions are a record of parameters, and what a theorem needs of them is a hypothesis:
  \<open>open\<close> inverts \<open>seal\<close> under the same nonce and key, a sealed text has the
  authenticator in front (so more than one byte), and a text sealed under another nonce is
  refused.
\<close>

subsection \<open>Parameters and state\<close>

record 'k secretbox =
  sb_seal :: "bytes \<Rightarrow> bytes \<Rightarrow> 'k \<Rightarrow> bytes"
  sb_open :: "bytes \<Rightarrow> bytes \<Rightarrow> 'k \<Rightarrow> bytes option"

definition NONCEBYTES :: nat where "NONCEBYTES = 24"
definition KEYBYTES :: nat where "KEYBYTES = 32"
definition PUBLICKEYBYTES :: nat where "PUBLICKEYBYTES = 32"

record 'k encrypt =
  en_key :: 'k
  en_send :: u64
  en_recv :: u64

record 'k framed_stream =
  st_codec :: bytes_codec
  st_encrypt :: "'k encrypt option"
  st_timeout :: u64
  st_wire :: bytes

datatype stream_error = DecryptionError | CodecError io_error | SendTimeout | SendFailed

datatype handshake_error = PkLength nat | BoxDecryptionFailure | InvalidSecretKeyLength

subsection \<open>Encrypt\<close>

definition get_nonce :: "u64 \<Rightarrow> bytes" where
  "get_nonce seqnum = to_le 8 (unat seqnum) @ replicate (NONCEBYTES - 8) 0"

definition encrypt_new :: "'k \<Rightarrow> 'k encrypt" where
  "encrypt_new key = \<lparr>en_key = key, en_send = 0, en_recv = 0\<rparr>"

definition enc :: "'k secretbox \<Rightarrow> 'k encrypt \<Rightarrow> bytes \<Rightarrow> bytes \<times> 'k encrypt" where
  "enc sb e data =
     (let e' = e\<lparr>en_send := en_send e + 1\<rparr>;
          nonce = get_nonce (en_send e')
      in (sb_seal sb data nonce (en_key e'), e'))"

definition dec :: "'k secretbox \<Rightarrow> 'k encrypt \<Rightarrow> bytes \<Rightarrow> (unit, stream_error) result \<times> 'k encrypt \<times> bytes" where
  "dec sb e data =
     (if length data \<le> 1 then (Ok (), e, data)
      else
        let e' = e\<lparr>en_recv := en_recv e + 1\<rparr>;
            nonce = get_nonce (en_recv e')
        in case sb_open sb data nonce (en_key e') of
             Some res \<Rightarrow> (Ok (), e', res)
           | None \<Rightarrow> (Err DecryptionError, e', data))"

text \<open>
  The handshake: \<open>box_open\<close> (ciphertext, nonce, their public key, our secret key) is the
  library's public-key opening; the key it yields is the bytes of the symmetric key.
\<close>

definition encrypt_decode :: "(bytes \<Rightarrow> bytes \<Rightarrow> bytes \<Rightarrow> 's \<Rightarrow> bytes option)
    \<Rightarrow> bytes \<Rightarrow> bytes \<Rightarrow> 's \<Rightarrow> (bytes, handshake_error) result" where
  "encrypt_decode box_open symmetric_data their_pk_b our_sk_b =
     (if length their_pk_b \<noteq> PUBLICKEYBYTES then Err (PkLength (length their_pk_b))
      else
        let nonce = replicate NONCEBYTES 0
        in case box_open symmetric_data nonce their_pk_b our_sk_b of
             None \<Rightarrow> Err BoxDecryptionFailure
           | Some symmetric_key \<Rightarrow>
               (if length symmetric_key \<noteq> KEYBYTES then Err InvalidSecretKeyLength
                else Ok symmetric_key))"

subsection \<open>FramedStream\<close>

text \<open>A stream over a fresh connection; the wire is what has been written to the socket.\<close>

definition stream_from :: "'k framed_stream" where
  "stream_from = \<lparr>st_codec = bytes_codec_new, st_encrypt = None, st_timeout = 0, st_wire = []\<rparr>"

definition set_send_timeout :: "'k framed_stream \<Rightarrow> u64 \<Rightarrow> 'k framed_stream" where
  "set_send_timeout s ms = s\<lparr>st_timeout := ms\<rparr>"

definition stream_set_raw :: "'k framed_stream \<Rightarrow> 'k framed_stream" where
  "stream_set_raw s = s\<lparr>st_codec := set_raw (st_codec s), st_encrypt := None\<rparr>"

definition is_secured :: "'k framed_stream \<Rightarrow> bool" where
  "is_secured s \<longleftrightarrow> st_encrypt s \<noteq> None"

definition set_key :: "'k framed_stream \<Rightarrow> 'k \<Rightarrow> 'k framed_stream" where
  "set_key s key = s\<lparr>st_encrypt := Some (encrypt_new key)\<rparr>"

text \<open>
  \<open>sink\<close> is the outcome of flushing the encoded frame: it is told the timeout, if one
  is set, and answers with success, an I/O error or (only under a timeout) \<open>SendTimeout\<close>.
  The wire is what has been handed to the sink: a frame whose flush fails or times out stays in the sink's buffer, ahead
  of later frames. A sink whose buffer is full and that times out before it takes the frame is not modelled.
\<close>

definition send_bytes :: "(u64 option \<Rightarrow> (unit, stream_error) result) \<Rightarrow> 'k framed_stream \<Rightarrow> bytes
    \<Rightarrow> (unit, stream_error) result \<times> 'k framed_stream" where
  "send_bytes sink s data =
     (case encode (st_codec s) data (st_wire s) of
        (Err e, _) \<Rightarrow> (Err (CodecError e), s)
      | (Ok _, wire) \<Rightarrow>
          (let s' = s\<lparr>st_wire := wire\<rparr> in
           if st_timeout s > 0 then (sink (Some (st_timeout s)), s')
           else (sink None, s')))"

definition send_raw :: "'k secretbox \<Rightarrow> (u64 option \<Rightarrow> (unit, stream_error) result) \<Rightarrow> 'k framed_stream \<Rightarrow> bytes
    \<Rightarrow> (unit, stream_error) result \<times> 'k framed_stream" where
  "send_raw sb sink s msg =
     (case st_encrypt s of
        Some e \<Rightarrow> (case enc sb e msg of (c, e') \<Rightarrow> send_bytes sink (s\<lparr>st_encrypt := Some e'\<rparr>) c)
      | None \<Rightarrow> send_bytes sink s msg)"

text \<open>
  \<open>next\<close> takes what the framing layer yielded (\<open>None\<close> at the end of the stream) and
  decrypts it when a key is set.
\<close>

definition stream_next :: "'k secretbox \<Rightarrow> 'k framed_stream \<Rightarrow> (bytes, stream_error) result option
    \<Rightarrow> (bytes, stream_error) result option \<times> 'k framed_stream" where
  "stream_next sb s res =
     (case res of
        Some (Ok data) \<Rightarrow>
          (case st_encrypt s of
             Some e \<Rightarrow>
               (case dec sb e data of
                  (Err err, e', _) \<Rightarrow> (Some (Err err), s\<lparr>st_encrypt := Some e'\<rparr>)
                | (Ok _, e', data') \<Rightarrow> (Some (Ok data'), s\<lparr>st_encrypt := Some e'\<rparr>))
           | None \<Rightarrow> (res, s))
      | _ \<Rightarrow> (res, s))"

text \<open>\<open>next_timeout\<close>: \<open>None\<close> also when the time runs out before a frame arrives.\<close>

definition next_timeout :: "'k secretbox \<Rightarrow> 'k framed_stream \<Rightarrow> (bytes, stream_error) result option option
    \<Rightarrow> (bytes, stream_error) result option \<times> 'k framed_stream" where
  "next_timeout sb s arrived =
     (case arrived of Some res \<Rightarrow> stream_next sb s res | None \<Rightarrow> (None, s))"

subsection \<open>Nonces\<close>

lemma length_get_nonce [simp]: "length (get_nonce s) = NONCEBYTES"
  by (simp add: get_nonce_def NONCEBYTES_def)

lemma get_nonce_inject [simp]: "get_nonce a = get_nonce b \<longleftrightarrow> a = b"
proof -
  have "unat x < 256 ^ 8" for x :: u64 using unsigned_less [of x] by simp
  then show ?thesis
    by (simp add: get_nonce_def to_le_inject word_unat_eq_iff)
qed

fun enc_all :: "'k secretbox \<Rightarrow> 'k encrypt \<Rightarrow> bytes list \<Rightarrow> bytes list \<times> 'k encrypt" where
  "enc_all sb e [] = ([], e)"
| "enc_all sb e (m # ms) =
     (case enc sb e m of (c, e') \<Rightarrow> case enc_all sb e' ms of (cs, e'') \<Rightarrow> (c # cs, e''))"

lemma enc_all_Cons:
  "fst (enc_all sb e (m # ms)) = fst (enc sb e m) # fst (enc_all sb (snd (enc sb e m)) ms)"
  by (simp split: prod.splits)

lemma enc_all_nonces:
  "fst (enc_all sb e ms) =
     map (\<lambda>i. sb_seal sb (ms ! i) (get_nonce (en_send e + 1 + of_nat i)) (en_key e)) [0..<length ms]"
proof (induction ms arbitrary: e)
  case (Cons m ms)
  have "[0..<length (m # ms)] = 0 # map Suc [0..<length ms]"
    using upt_conv_Cons [of 0 "Suc (length ms)"] by (simp add: map_Suc_upt del: upt_Suc)
  with Cons show ?case
    by (simp only: enc_all_Cons) (simp add: enc_def Let_def ac_simps del: upt_Suc)
qed simp

lemma of_nat_u64_inj: "inj_on (of_nat :: nat \<Rightarrow> u64) {0..<2 ^ 64}"
proof (rule inj_onI)
  fix a b :: nat
  assume "a \<in> {0..<2 ^ 64}" "b \<in> {0..<2 ^ 64}" and eq: "(of_nat a :: u64) = of_nat b"
  from this(1,2) have "unat (of_nat a :: u64) = a" "unat (of_nat b :: u64) = b"
    by (simp_all add: unat_of_nat)
  with eq show "a = b" by metis
qed

lemma enc_all_nonces_nth:
  assumes "i < length ms"
  shows "fst (enc_all \<lparr>sb_seal = (\<lambda>data nonce key. nonce), sb_open = opn\<rparr> e ms) ! i = get_nonce (en_send e + 1 + of_nat i)"
  using assms by (simp add: enc_all_nonces)

lemma enc_nonces_distinct:
  assumes "length ms \<le> 2 ^ 64"
  shows "distinct (fst (enc_all \<lparr>sb_seal = (\<lambda>data nonce key. nonce), sb_open = opn\<rparr> e ms))"
proof -
  have "inj_on (\<lambda>i. get_nonce (en_send e + 1 + of_nat i)) {0..<length ms}"
    using inj_on_subset [OF of_nat_u64_inj, of "{0..<length ms}"] assms
    by (auto simp: inj_on_def)
  then show ?thesis
    by (simp add: enc_all_nonces distinct_map)
qed

text \<open>
  C20. The nonces of a secured connection. Both ends call \<open>set_key\<close> with the same key and count from zero. Over up to
  \<open>2 ^ 64\<close> messages the nonces of one direction are pairwise different, but the nonce of a message is that of the message
  with the same position in the other direction, and of no other message there: a nonce is used once in each direction,
  under one key. (Instantiating \<open>seal\<close> with the function that returns its nonce makes the nonces the outputs.)
\<close>

theorem session_nonces:
  assumes ends: "st_encrypt (set_key a key) = Some ea" "st_encrypt (set_key b key) = Some eb"
    and bounds: "length ms \<le> 2 ^ 64" "length ns \<le> 2 ^ 64"
  shows "let box = \<lparr>sb_seal = (\<lambda>data nonce key. nonce), sb_open = opn\<rparr>;
             there = fst (enc_all box ea ms); back = fst (enc_all box eb ns) in
    en_key ea = en_key eb \<and> distinct there \<and> distinct back
    \<and> (\<forall>i<length ms. \<forall>j<length ns. there ! i = back ! j \<longleftrightarrow> i = j)"
proof -
  have e: "ea = encrypt_new key" "eb = encrypt_new key" using ends by (simp_all add: set_key_def)
  have "(of_nat i :: u64) = of_nat j \<longleftrightarrow> i = j" if "i < length ms" "j < length ns" for i j
    using inj_on_eq_iff [OF of_nat_u64_inj, of i j] that bounds by simp
  then show ?thesis using enc_nonces_distinct [OF bounds(1), of opn ea] enc_nonces_distinct [OF bounds(2), of opn eb] e by (simp add: enc_all_nonces_nth Let_def)
qed

theorem session_nonces_witness:
  "distinct (fst (enc_all \<lparr>sb_seal = (\<lambda>data nonce key. nonce), sb_open = (\<lambda>_ _ _. None)\<rparr> (encrypt_new ''k'') [[1], [1], [2]]))
   \<and> fst (enc_all \<lparr>sb_seal = (\<lambda>data nonce key. nonce), sb_open = (\<lambda>_ _ _. None)\<rparr> (encrypt_new ''k'') [[1], [1], [2]]) ! 1
     = fst (enc_all \<lparr>sb_seal = (\<lambda>data nonce key. nonce), sb_open = (\<lambda>_ _ _. None)\<rparr> (encrypt_new ''k'') [[7], [8]]) ! 1"
proof -
  have "st_encrypt (set_key stream_from ''k'') = Some (encrypt_new ''k'')" by (simp add: set_key_def)
  from session_nonces [OF this this, of "[[1], [1], [2]]" "[[7], [8]]" "\<lambda>_ _ _. None"]
  show ?thesis by (simp add: Let_def del: enc_all.simps)
qed

subsection \<open>The secured channel\<close>

fun next_all :: "'k secretbox \<Rightarrow> 'k framed_stream \<Rightarrow> bytes list
    \<Rightarrow> (bytes, stream_error) result option list \<times> 'k framed_stream" where
  "next_all sb s [] = ([], s)"
| "next_all sb s (f # fs) =
     (case stream_next sb s (Some (Ok f)) of (r, s') \<Rightarrow>
        case next_all sb s' fs of (rs, s'') \<Rightarrow> (r # rs, s''))"

lemma next_all_Cons:
  "fst (next_all sb s (f # fs)) =
     fst (stream_next sb s (Some (Ok f))) # fst (next_all sb (snd (stream_next sb s (Some (Ok f)))) fs)"
  by (simp split: prod.splits)

lemma next_all_enc_all:
  assumes inv: "\<And>m n. sb_open sb (sb_seal sb m n k) n k = Some m"
    and len: "\<And>m n. 1 < length (sb_seal sb m n k)"
    and "en_key es = k" "st_encrypt r = Some er" "en_key er = k" "en_recv er = en_send es"
  shows "fst (next_all sb r (fst (enc_all sb es ms))) = map (Some \<circ> Ok) ms"
  using assms(3-6)
proof (induction ms arbitrary: es r er)
  case (Cons m ms)
  let ?es = "es\<lparr>en_send := en_send es + 1\<rparr>" and ?er = "er\<lparr>en_recv := en_recv er + 1\<rparr>"
  have "\<not> length (sb_seal sb m (get_nonce (en_send es + 1)) k) \<le> Suc 0"
    using len [of m "get_nonce (en_send es + 1)"] by simp
  moreover have "fst (next_all sb (r\<lparr>st_encrypt := Some ?er\<rparr>) (fst (enc_all sb ?es ms))) = map (Some \<circ> Ok) ms"
    using Cons.prems by (intro Cons.IH [of ?es _ ?er]) auto
  ultimately show ?case
    using Cons.prems inv
    by (simp add: enc_all_Cons next_all_Cons enc_def dec_def stream_next_def Let_def del: enc_all.simps next_all.simps)
qed simp

text \<open>
  Since both directions share key and nonces, the frames an end has sent are those it expects: sent back to it unchanged,
  they are accepted as the messages of its peer, in the order it sent them.
\<close>

lemma enc_all_state:
  "en_key (snd (enc_all sb e ms)) = en_key e \<and> en_recv (snd (enc_all sb e ms)) = en_recv e"
proof (induction ms arbitrary: e)
  case (Cons m ms)
  from Cons.IH [of "snd (enc sb e m)"] show ?case
    by (cases "enc_all sb (snd (enc sb e m)) ms") (simp add: enc_def Let_def)
qed simp

lemma reflected_frames_accepted:
  assumes "\<And>m n. sb_open sb (sb_seal sb m n key) n key = Some m" and "\<And>m n. 1 < length (sb_seal sb m n key)"
    and "enc_all sb (encrypt_new key) ms = (cs, e)"
  shows "fst (next_all sb (s\<lparr>st_encrypt := Some e\<rparr>) cs) = map (Some \<circ> Ok) ms"
proof -
  have "en_key e = key" "en_recv e = 0"
    using enc_all_state [of sb "encrypt_new key" ms] assms(3) by (simp_all add: encrypt_new_def)
  then show ?thesis
    using next_all_enc_all [OF assms(1,2), of "encrypt_new key" "s\<lparr>st_encrypt := Some e\<rparr>" e ms] assms(3)
    by (simp add: encrypt_new_def)
qed

text \<open>C21. Accepted means in sequence: under an authenticated cipher, a frame sealed with
  sequence number \<open>n\<close> is accepted exactly when \<open>n\<close> is the receiver's next number, and
  then yields the plain text; every replayed, dropped-before or reordered frame is refused.\<close>

theorem dec_accepts_iff_in_sequence:
  assumes inv: "\<And>m n. sb_open sb (sb_seal sb m n (en_key e)) n (en_key e) = Some m"
    and auth: "\<And>m n n'. length n = NONCEBYTES \<Longrightarrow> length n' = NONCEBYTES \<Longrightarrow> n \<noteq> n' \<Longrightarrow> sb_open sb (sb_seal sb m n (en_key e)) n' (en_key e) = None"
    and len: "\<And>m n. 1 < length (sb_seal sb m n (en_key e))"
  shows "dec sb e (sb_seal sb m (get_nonce n) (en_key e)) =
    (if n = en_recv e + 1 then (Ok (), e\<lparr>en_recv := n\<rparr>, m)
     else (Err DecryptionError, e\<lparr>en_recv := en_recv e + 1\<rparr>, sb_seal sb m (get_nonce n) (en_key e)))"
  using len [of m "get_nonce n"] inv [of m "get_nonce n"] auth [of "get_nonce n" "get_nonce (en_recv e + 1)" m]
  by (auto simp: dec_def Let_def)

text \<open>An idealised cipher: the nonce travels with the text and is compared on opening.\<close>

definition ideal_box :: "string secretbox" where
  "ideal_box = \<lparr>sb_seal = (\<lambda>m n k. 0 # 0 # n @ m),
     sb_open = (\<lambda>c n k. if take (length n) (drop 2 c) = n \<and> 2 + length n \<le> length c then Some (drop (2 + length n) c) else None)\<rparr>"

lemma ideal_box_laws:
  "sb_open ideal_box (sb_seal ideal_box m n k) n k = Some m"
  "Suc 0 < length (sb_seal ideal_box m n k)"
  "length n = length n' \<Longrightarrow> n \<noteq> n' \<Longrightarrow> sb_open ideal_box (sb_seal ideal_box m n k) n' k = None"
  by (auto simp: ideal_box_def)

theorem dec_accepts_iff_in_sequence_witness:
  "let e = encrypt_new ''k''; c = sb_seal ideal_box [5, 6] (get_nonce 1) ''k'' in
     dec ideal_box e c = (Ok (), e\<lparr>en_recv := 1\<rparr>, [5, 6])
   \<and> dec ideal_box (e\<lparr>en_recv := 1\<rparr>) c = (Err DecryptionError, e\<lparr>en_recv := 2\<rparr>, c)"
proof -
  let ?e = "encrypt_new ''k''"
  have "dec ideal_box ?e (sb_seal ideal_box [5, 6] (get_nonce 1) (en_key ?e)) = (Ok (), ?e\<lparr>en_recv := 1\<rparr>, [5, 6])"
    by (subst dec_accepts_iff_in_sequence) (simp_all add: ideal_box_laws encrypt_new_def)
  moreover have "dec ideal_box (?e\<lparr>en_recv := 1\<rparr>) (sb_seal ideal_box [5, 6] (get_nonce 1) (en_key (?e\<lparr>en_recv := 1\<rparr>)))
      = (Err DecryptionError, ?e\<lparr>en_recv := 2\<rparr>, sb_seal ideal_box [5, 6] (get_nonce 1) (en_key ?e))"
    by (subst dec_accepts_iff_in_sequence) (simp_all add: ideal_box_laws encrypt_new_def)
  ultimately show ?thesis by (simp add: encrypt_new_def)
qed

subsection \<open>Handshake\<close>

text \<open>The handshake yields only well-formed keys, and its three failures are told
  apart: a public key of the wrong length, a box that does not open, a secret of the wrong
  length.\<close>

theorem encrypt_decode_cases:
  "encrypt_decode box_open sd pk sk = r \<longleftrightarrow>
     (if length pk \<noteq> 32 then r = Err (PkLength (length pk))
      else case box_open sd (replicate 24 0) pk sk of
             None \<Rightarrow> r = Err BoxDecryptionFailure
           | Some key \<Rightarrow> (length key = 32 \<and> r = Ok key) \<or> (length key \<noteq> 32 \<and> r = Err InvalidSecretKeyLength))"
  by (auto simp: encrypt_decode_def Let_def PUBLICKEYBYTES_def KEYBYTES_def NONCEBYTES_def split: option.splits)

subsection \<open>From sender to receiver over the wire\<close>

fun send_raw_all :: "'k secretbox \<Rightarrow> (u64 option \<Rightarrow> (unit, stream_error) result) \<Rightarrow> 'k framed_stream
    \<Rightarrow> bytes list \<Rightarrow> 'k framed_stream" where
  "send_raw_all sb sink s [] = s"
| "send_raw_all sb sink s (m # ms) = send_raw_all sb sink (snd (send_raw sb sink s m)) ms"

lemma send_raw_all_wire:
  assumes "st_encrypt s = Some e" "\<forall>c \<in> set (fst (enc_all sb e ms)). length c \<le> 0x3FFFFFFF"
  shows "st_wire (send_raw_all sb sink s ms) = encode_all (st_codec s) (fst (enc_all sb e ms)) (st_wire s)"
  using assms
proof (induction ms arbitrary: s e)
  case (Cons m ms)
  obtain c e' where c: "enc sb e m = (c, e')" by (cases "enc sb e m")
  have "length c \<le> 0x3FFFFFFF" using Cons.prems(2) c by (simp only: enc_all_Cons) simp
  then have "\<exists>h. encode_head (length c) = Ok h" using encode_head_le by blast
  then have ok: "fst (encode (st_codec s) c (st_wire s)) = Ok ()" by (auto simp: encode_def)
  let ?s = "s\<lparr>st_encrypt := Some e', st_wire := snd (encode (st_codec s) c (st_wire s))\<rparr>"
  have "snd (send_raw sb sink s m) = ?s"
    using Cons.prems(1) c ok
    by (cases "encode (st_codec s) c (st_wire s)") (simp add: send_raw_def send_bytes_def Let_def)
  moreover have "st_wire (send_raw_all sb sink ?s ms) = encode_all (st_codec ?s) (fst (enc_all sb e' ms)) (st_wire ?s)"
    using Cons.prems(2) c by (intro Cons.IH) (simp_all add: enc_all_Cons del: enc_all.simps)
  ultimately show ?case using c by (simp add: enc_all_Cons del: enc_all.simps)
qed simp

lemma codec_new_limit [simp]:
  "\<not> bc_raw bytes_codec_new" "bc_state bytes_codec_new = Head"
  "n \<le> 0x3FFFFFFF \<Longrightarrow> n \<le> bc_max_packet_length bytes_codec_new"
  by (simp_all add: bytes_codec_new_def usize_MAX_def)

text \<open>C2. End to end: messages sent with \<open>send_raw\<close> over a secured stream arrive. The bytes on
  the wire, cut into chunks in any way, reframed by the receiver's codec and passed through
  \<open>next\<close>, give back the messages in order, when both ends hold the same key and agree on the
  sequence number.\<close>

theorem secure_stream_end_to_end:
  assumes inv: "\<And>m n. sb_open sb (sb_seal sb m n k) n k = Some m"
    and len: "\<And>m n. 1 < length (sb_seal sb m n k)"
    and snd_key: "st_encrypt s = Some es" "en_key es = k"
    and rcv_key: "st_encrypt r = Some er" "en_key er = k" "en_recv er = en_send es"
    and codec: "st_codec s = bytes_codec_new" "st_wire s = []"
    and fits: "\<forall>c \<in> set (fst (enc_all sb es ms)). length c \<le> 0x3FFFFFFF"
    and chunks: "concat chunks = st_wire (send_raw_all sb sink s ms)"
  shows "\<exists>frames. feed bytes_codec_new [] chunks = (frames, None, bytes_codec_new, [])
    \<and> fst (next_all sb r frames) = map (Some \<circ> Ok) ms"
proof -
  let ?cs = "fst (enc_all sb es ms)"
  have "concat chunks = encode_all bytes_codec_new ?cs []"
    using chunks send_raw_all_wire [OF snd_key(1) fits] codec by simp
  then have "feed bytes_codec_new [] chunks = (?cs, None, bytes_codec_new, [])"
    using fits by (intro feed_of_drains) (auto intro!: drains_encode_all simp: codec_new_limit)
  moreover have "fst (next_all sb r ?cs) = map (Some \<circ> Ok) ms"
    using next_all_enc_all [OF inv len snd_key(2) rcv_key] .
  ultimately show ?thesis by blast
qed

theorem secure_stream_end_to_end_witness:
  "\<exists>frames. feed bytes_codec_new [] [st_wire (send_raw_all ideal_box (\<lambda>_. Ok ()) (set_key stream_from ''k'') [[1, 2], []])]
      = (frames, None, bytes_codec_new, [])
    \<and> fst (next_all ideal_box (set_key stream_from ''k'') frames) = [Some (Ok [1, 2]), Some (Ok [])]"
proof -
  have "\<forall>c \<in> set (fst (enc_all ideal_box (encrypt_new ''k'') [[1, 2], []])). length c \<le> 0x3FFFFFFF"
    by (simp add: enc_all_Cons enc_def Let_def ideal_box_def NONCEBYTES_def del: enc_all.simps) simp
  then show ?thesis
    using secure_stream_end_to_end [of ideal_box "''k''" "set_key stream_from ''k''" "encrypt_new ''k''"
        "set_key stream_from ''k''" "encrypt_new ''k''" "[[1, 2], []]"
        "[st_wire (send_raw_all ideal_box (\<lambda>_. Ok ()) (set_key stream_from ''k'') [[1, 2], []])]" "\<lambda>_. Ok ()"]
    by (simp add: ideal_box_laws set_key_def stream_from_def encrypt_new_def del: send_raw_all.simps feed.simps)
qed

end
