(* ===== verification/Key_Handshake.thy ===== *)
theory Key_Handshake
  imports Secure_Stream
begin

text \<open>
  The handshake that gives a stream its key: \<open>secure_connection\<close> of \<open>src/client.rs\<close> on the controlling side,
  \<open>create_tcp_connection\<close> of \<open>src/server.rs\<close> on the controlled side, and \<open>secure_tcp\<close> of \<open>src/common.rs\<close> with a rendezvous
  server. The rendezvous server vouches for the signing key of an id; with it the controlled side signs a fresh
  box key, to which the controlling side seals a fresh symmetric key. Signatures, boxes, base64 and protobuf are
  parameters; fresh keys are arguments, and so is what arrives in answer.
\<close>

subsection \<open>Parameters and messages\<close>

record 'sk hs_env =
  hs_verify :: "bytes \<Rightarrow> bytes \<Rightarrow> bytes option"
  hs_sign :: "bytes \<Rightarrow> bytes \<Rightarrow> bytes"
  hs_parse_id_pk :: "bytes \<Rightarrow> (string \<times> bytes) option"
  hs_id_pk_bytes :: "string \<Rightarrow> bytes \<Rightarrow> bytes"
  hs_decode64 :: "string \<Rightarrow> bytes option"
  hs_seal :: "bytes \<Rightarrow> bytes \<Rightarrow> bytes \<Rightarrow> 'sk \<Rightarrow> bytes"
  hs_box_open :: "bytes \<Rightarrow> bytes \<Rightarrow> bytes \<Rightarrow> 'sk \<Rightarrow> bytes option"
  hs_rs_pub_key :: string
  hs_use_ws :: bool

text \<open>A public key message carries the asymmetric and the symmetric value.\<close>

datatype hs_msg = EmptyMsg | SignedIdMsg bytes | PublicKeyMsg bytes bytes | OtherMsg

text \<open>What a bounded wait for the next frame gives.\<close>

datatype 'a arrival = TimedOut | Closed | Broken | Garbage | Arrived 'a

datatype hs_error = HsTimeout | HsReset | HsStream | HsSend | HsKey handshake_error | HsMsg string

text \<open>What one side has done: the messages it sent, the key it set, and its result.\<close>

type_synonym 'r hs_outcome = "hs_msg list \<times> bytes option \<times> ('r, hs_error) result"

subsection \<open>Keys\<close>

definition get_pk :: "bytes \<Rightarrow> bytes option" where
  "get_pk pk = (if length pk = 32 then Some pk else None)"

definition get_rs_pk :: "'sk hs_env \<Rightarrow> string \<Rightarrow> bytes option" where
  "get_rs_pk env str_base64 = (case hs_decode64 env str_base64 of Some pk \<Rightarrow> get_pk pk | None \<Rightarrow> None)"

definition decode_id_pk :: "'sk hs_env \<Rightarrow> bytes \<Rightarrow> bytes \<Rightarrow> (string \<times> bytes, hs_error) result" where
  "decode_id_pk env signed_msg key =
    (case hs_verify env signed_msg key of
       None \<Rightarrow> Err (HsMsg ''Signature mismatch'')
     | Some m \<Rightarrow>
         (case hs_parse_id_pk env m of
            None \<Rightarrow> Err (HsMsg ''parse'')
          | Some (i, pk) \<Rightarrow> (case get_pk pk of Some pk \<Rightarrow> Ok (i, pk) | None \<Rightarrow> Err (HsMsg ''Wrong their public length''))))"

text \<open>The public value, the sealed key and the key; the key pair and the key are fresh.\<close>

definition create_symmetric_key_msg :: "'sk hs_env \<Rightarrow> bytes \<times> 'sk \<Rightarrow> bytes \<Rightarrow> bytes \<Rightarrow> bytes \<times> bytes \<times> bytes" where
  "create_symmetric_key_msg env our key their_pk_b =
     (fst our, hs_seal env key (replicate NONCEBYTES 0) their_pk_b (snd our), key)"

subsection \<open>The controlling side\<close>

text \<open>Sending one message and going on; \<open>sends\<close> tells whether sending works.\<close>

definition hs_send :: "bool \<Rightarrow> hs_msg \<Rightarrow> bytes option \<Rightarrow> 'r \<Rightarrow> 'r hs_outcome" where
  "hs_send sends m k r = (if sends then ([m], k, Ok r) else ([], None, Err HsSend))"

definition peer_sign_pk :: "'sk hs_env \<Rightarrow> string \<Rightarrow> bytes \<Rightarrow> string \<Rightarrow> bytes option" where
  "peer_sign_pk env peer_id signed_id_pk key =
    (if signed_id_pk = [] then None
     else case get_rs_pk env (if key = [] then hs_rs_pub_key env else key) of
            None \<Rightarrow> None
          | Some rs_pk \<Rightarrow>
              (case decode_id_pk env signed_id_pk rs_pk of
                 Ok (i, pk) \<Rightarrow> if i = peer_id then Some pk else None
               | Err _ \<Rightarrow> None))"

definition secure_connection :: "'sk hs_env \<Rightarrow> bytes \<times> 'sk \<Rightarrow> bytes \<Rightarrow> bool \<Rightarrow> string \<Rightarrow> bytes \<Rightarrow> string \<Rightarrow> hs_msg arrival
    \<Rightarrow> bytes option hs_outcome" where
  "secure_connection env our fresh_key sends peer_id signed_id_pk key arrived =
    (case peer_sign_pk env peer_id signed_id_pk key of
       None \<Rightarrow> hs_send sends EmptyMsg None None
     | Some sign_pk \<Rightarrow>
         (case arrived of
            TimedOut \<Rightarrow> ([], None, Err HsTimeout)
          | Closed \<Rightarrow> ([], None, Err HsReset)
          | Broken \<Rightarrow> ([], None, Err HsStream)
          | Garbage \<Rightarrow> hs_send sends EmptyMsg None (Some sign_pk)
          | Arrived (SignedIdMsg si) \<Rightarrow>
              (case decode_id_pk env si sign_pk of
                 Ok (i, their_pk_b) \<Rightarrow>
                   if i = peer_id then
                     case create_symmetric_key_msg env our fresh_key their_pk_b of
                       (asymmetric_value, symmetric_value, k) \<Rightarrow>
                         hs_send sends (PublicKeyMsg asymmetric_value symmetric_value) (Some k) (Some sign_pk)
                   else hs_send sends EmptyMsg None (Some sign_pk)
               | Err _ \<Rightarrow> hs_send sends (PublicKeyMsg [] []) None (Some sign_pk))
          | Arrived _ \<Rightarrow> hs_send sends EmptyMsg None (Some sign_pk)))"

subsection \<open>The controlled side\<close>

definition SIGN_SECRETKEYBYTES :: nat where "SIGN_SECRETKEYBYTES = 64"

text \<open>
  The first message and the handling of the answer; \<open>(sk, pk)\<close> is the signing key pair of the machine, \<open>our\<close> the fresh
  box keys. The flag of the result tells whether the key is still confirmed at the rendezvous server.
\<close>

definition server_hello :: "'sk hs_env \<Rightarrow> bool \<Rightarrow> bytes \<times> bytes \<Rightarrow> string \<Rightarrow> bytes \<times> 'sk \<Rightarrow> hs_msg option" where
  "server_hello env secure keys my_id our =
    (if secure \<and> length (snd keys) = PUBLICKEYBYTES \<and> length (fst keys) = SIGN_SECRETKEYBYTES
     then Some (SignedIdMsg (hs_sign env (hs_id_pk_bytes env my_id (fst our)) (fst keys))) else None)"

definition create_tcp_connection :: "'sk hs_env \<Rightarrow> bool \<Rightarrow> bytes \<times> bytes \<Rightarrow> string \<Rightarrow> bytes \<times> 'sk \<Rightarrow> bool \<Rightarrow> hs_msg arrival
    \<Rightarrow> bool hs_outcome" where
  "create_tcp_connection env secure keys my_id our sends arrived =
    (case server_hello env secure keys my_id our of
       None \<Rightarrow> ([], None, Ok True)
     | Some hello \<Rightarrow>
         if \<not> sends then ([], None, Err HsSend)
         else ([hello],
           case arrived of
             TimedOut \<Rightarrow> (None, Err HsTimeout)
           | Broken \<Rightarrow> (None, Err HsStream)
           | Closed \<Rightarrow> (None, Err (HsMsg ''Failed to receive public key''))
           | Garbage \<Rightarrow> (None, Err (HsMsg ''Handshake failed: invalid message format''))
           | Arrived (PublicKeyMsg asymmetric_value symmetric_value) \<Rightarrow>
               if length asymmetric_value = PUBLICKEYBYTES then
                 (case encrypt_decode (hs_box_open env) symmetric_value asymmetric_value (snd our) of
                    Ok k \<Rightarrow> (Some k, Ok True)
                  | Err e \<Rightarrow> (None, Err (HsKey e)))
               else if asymmetric_value = [] then (None, Ok False)
               else (None, Err (HsMsg ''Handshake failed: invalid public sign key length from peer''))
           | Arrived _ \<Rightarrow> (None, Ok True)))"

subsection \<open>The rendezvous server\<close>

text \<open>\<open>Some keys\<close> is a key exchange message, \<open>None\<close> any other message.\<close>

definition secure_tcp :: "'sk hs_env \<Rightarrow> bytes \<times> 'sk \<Rightarrow> bytes \<Rightarrow> bool \<Rightarrow> string \<Rightarrow> bytes list option arrival
    \<Rightarrow> bytes list list \<times> bytes option \<times> (unit, hs_error) result" where
  "secure_tcp env our fresh_key sends key arrived =
    (if hs_use_ws env then ([], None, Ok ())
     else case get_rs_pk env key of
            None \<Rightarrow> ([], None, Err (HsMsg ''Handshake failed: invalid public key from rendezvous server''))
          | Some rs_pk \<Rightarrow>
              (case arrived of
                 TimedOut \<Rightarrow> ([], None, Err HsTimeout)
               | Arrived (Some keys) \<Rightarrow>
                   if length keys \<noteq> 1 then ([], None, Err (HsMsg ''Handshake failed: invalid key exchange message''))
                   else (case hs_verify env (keys ! 0) rs_pk of
                           None \<Rightarrow> ([], None, Err (HsMsg ''Signature mismatch in key exchange''))
                         | Some their_pk_b \<Rightarrow>
                             (case get_pk their_pk_b of
                                None \<Rightarrow> ([], None, Err (HsMsg ''Wrong their public length in key exchange''))
                              | Some pk \<Rightarrow>
                                  (case create_symmetric_key_msg env our fresh_key pk of
                                     (asymmetric_value, symmetric_value, k) \<Rightarrow>
                                       if sends then ([[asymmetric_value, symmetric_value]], Some k, Ok ())
                                       else ([], None, Err HsSend))))
               | _ \<Rightarrow> ([], None, Ok ())))"

subsection \<open>Agreement\<close>

text \<open>
  C22. Both sides of an honest handshake end with the same key: when the rendezvous server's statement verifies for the
  id of the peer and the machine holds the signing key it names, the first message of the machine makes the
  controlling side choose and send a key, and the machine's answer to that message is to set the same key.
\<close>

theorem handshake_same_key:
  assumes sign: "\<And>m. hs_verify env (hs_sign env m sk) pk = Some m"
    and idpk: "hs_parse_id_pk env (hs_id_pk_bytes env my_id (fst sbox)) = Some (my_id, fst sbox)"
    and box: "\<And>m n. hs_box_open env (hs_seal env m n (fst sbox) (snd cbox)) n (fst cbox) (snd sbox) = Some m"
    and vouched: "peer_sign_pk env my_id signed_id_pk key = Some pk"
    and lengths: "length pk = 32" "length sk = 64" "length (fst sbox) = 32" "length (fst cbox) = 32" "length fresh_key = 32"
  shows "\<exists>hello reply. server_hello env True (sk, pk) my_id sbox = Some hello
    \<and> secure_connection env cbox fresh_key True my_id signed_id_pk key (Arrived hello) = ([reply], Some fresh_key, Ok (Some pk))
    \<and> create_tcp_connection env True (sk, pk) my_id sbox True (Arrived reply) = ([hello], Some fresh_key, Ok True)"
  using sign idpk box vouched lengths
  by (simp add: server_hello_def secure_connection_def create_tcp_connection_def create_symmetric_key_msg_def hs_send_def
      decode_id_pk_def get_pk_def encrypt_decode_def PUBLICKEYBYTES_def SIGN_SECRETKEYBYTES_def KEYBYTES_def Let_def)

definition demo_hs_env :: "bytes hs_env" where
  "demo_hs_env =
     \<lparr>hs_verify = (\<lambda>s _. Some s), hs_sign = (\<lambda>m _. m), hs_parse_id_pk = (\<lambda>_. Some (''a'', replicate 32 1)),
      hs_id_pk_bytes = (\<lambda>_ p. p), hs_decode64 = (\<lambda>_. Some (replicate 32 9)), hs_seal = (\<lambda>m _ _ _. m),
      hs_box_open = (\<lambda>c _ _ _. Some c), hs_rs_pub_key = ''k'', hs_use_ws = False\<rparr>"

theorem handshake_same_key_witness:
  "\<exists>hello reply. server_hello demo_hs_env True (replicate 64 2, replicate 32 1) ''a'' (replicate 32 1, []) = Some hello
    \<and> secure_connection demo_hs_env (replicate 32 3, []) (replicate 32 7) True ''a'' [1] [] (Arrived hello)
        = ([reply], Some (replicate 32 7), Ok (Some (replicate 32 1)))
    \<and> create_tcp_connection demo_hs_env True (replicate 64 2, replicate 32 1) ''a'' (replicate 32 1, []) True (Arrived reply)
        = ([hello], Some (replicate 32 7), Ok True)"
  by (rule handshake_same_key)
     (simp_all add: demo_hs_env_def peer_sign_pk_def get_rs_pk_def decode_id_pk_def get_pk_def)

text \<open>
  C8. The controlling side only encrypts to a key its peer has signed: it sets a key exactly when the rendezvous server
  vouches for a signing key of the wanted id, the answer is a box key signed with it for the same id, and the
  sealed key could be sent; a message that does not verify never leads to a key, but leaves the connection
  unencrypted or fails.
\<close>

theorem key_only_for_verified_peer:
  "fst (snd (secure_connection env our fresh_key sends peer_id signed_id_pk key arrived)) = Some k \<longleftrightarrow>
     k = fresh_key \<and> sends
   \<and> (\<exists>rs_pk pk si their_pk. signed_id_pk \<noteq> [] \<and> get_rs_pk env (if key = [] then hs_rs_pub_key env else key) = Some rs_pk
        \<and> decode_id_pk env signed_id_pk rs_pk = Ok (peer_id, pk) \<and> arrived = Arrived (SignedIdMsg si)
        \<and> decode_id_pk env si pk = Ok (peer_id, their_pk)
        \<and> fst (secure_connection env our fresh_key sends peer_id signed_id_pk key arrived)
            = [PublicKeyMsg (fst our) (hs_seal env fresh_key (replicate NONCEBYTES 0) their_pk (snd our))])"
proof (cases "peer_sign_pk env peer_id signed_id_pk key")
  case None
  then show ?thesis
    by (auto simp: secure_connection_def hs_send_def peer_sign_pk_def split: if_splits option.splits result.splits)
next
  case (Some pk)
  then obtain rs where rs: "signed_id_pk \<noteq> []" "get_rs_pk env (if key = [] then hs_rs_pub_key env else key) = Some rs"
    "decode_id_pk env signed_id_pk rs = Ok (peer_id, pk)"
    by (auto simp: peer_sign_pk_def split: if_splits option.splits result.splits)
  show ?thesis unfolding secure_connection_def Some
    using rs by (auto simp: hs_send_def create_symmetric_key_msg_def split: arrival.splits hs_msg.splits result.splits)
qed

end
