(* ===== verification/Kcp_Packet.thy ===== *)
theory Kcp_Packet
  imports Prelude
begin

text \<open>
  The packet layer of the KCP transport, \<open>libs/kcp-sys/src/packet_def.rs\<close>: the packed
  14-byte header (three little-endian identifiers, a flag byte, a reserved byte) in front of
  the payload. A packet is kept as its header and its payload; \<open>packet_bytes\<close> is the byte
  buffer of the code and \<open>packet_of_bytes\<close> the header view over it, which exists exactly
  when the buffer holds a whole header (the \<open>unwrap\<close> of the view panics otherwise).
\<close>

subsection \<open>Header\<close>

record kcp_packet_header =
  ph_conv :: u32
  ph_src_session_id :: u32
  ph_dst_session_id :: u32
  ph_flag :: u8
  ph_rsv :: u8

definition header_default :: kcp_packet_header where
  "header_default = \<lparr>ph_conv = 0, ph_src_session_id = 0, ph_dst_session_id = 0, ph_flag = 0, ph_rsv = 0\<rparr>"

definition HEADER_SIZE :: nat where
  "HEADER_SIZE = 14"

text \<open>The flag bits; every bit pattern is a valid flag set, so reading flags never fails.\<close>

datatype header_flag = SYN | ACK | FIN | DATA | RST | PING | PONG

fun flag_bits :: "header_flag \<Rightarrow> u8" where
  "flag_bits SYN = 1"
| "flag_bits ACK = 2"
| "flag_bits FIN = 4"
| "flag_bits DATA = 8"
| "flag_bits RST = 16"
| "flag_bits PING = 32"
| "flag_bits PONG = 64"

definition contains_flag :: "u8 \<Rightarrow> u8 \<Rightarrow> bool" where
  "contains_flag bits f \<longleftrightarrow> bits AND f = f"

definition put_flag :: "u8 \<Rightarrow> u8 \<Rightarrow> bool \<Rightarrow> u8" where
  "put_flag bits f b = (if b then bits OR f else bits AND NOT f)"

definition is_syn :: "kcp_packet_header \<Rightarrow> bool" where
  "is_syn h = contains_flag (ph_flag h) (flag_bits SYN)"
definition is_ack :: "kcp_packet_header \<Rightarrow> bool" where
  "is_ack h = contains_flag (ph_flag h) (flag_bits ACK)"
definition is_fin :: "kcp_packet_header \<Rightarrow> bool" where
  "is_fin h = contains_flag (ph_flag h) (flag_bits FIN)"
definition is_data :: "kcp_packet_header \<Rightarrow> bool" where
  "is_data h = contains_flag (ph_flag h) (flag_bits DATA)"
definition is_rst :: "kcp_packet_header \<Rightarrow> bool" where
  "is_rst h = contains_flag (ph_flag h) (flag_bits RST)"
definition is_ping :: "kcp_packet_header \<Rightarrow> bool" where
  "is_ping h = contains_flag (ph_flag h) (flag_bits PING)"
definition is_pong :: "kcp_packet_header \<Rightarrow> bool" where
  "is_pong h = contains_flag (ph_flag h) (flag_bits PONG)"

definition set_syn :: "kcp_packet_header \<Rightarrow> bool \<Rightarrow> kcp_packet_header" where
  "set_syn h b = h\<lparr>ph_flag := put_flag (ph_flag h) (flag_bits SYN) b\<rparr>"
definition set_ack :: "kcp_packet_header \<Rightarrow> bool \<Rightarrow> kcp_packet_header" where
  "set_ack h b = h\<lparr>ph_flag := put_flag (ph_flag h) (flag_bits ACK) b\<rparr>"
definition set_fin :: "kcp_packet_header \<Rightarrow> bool \<Rightarrow> kcp_packet_header" where
  "set_fin h b = h\<lparr>ph_flag := put_flag (ph_flag h) (flag_bits FIN) b\<rparr>"
definition set_data :: "kcp_packet_header \<Rightarrow> bool \<Rightarrow> kcp_packet_header" where
  "set_data h b = h\<lparr>ph_flag := put_flag (ph_flag h) (flag_bits DATA) b\<rparr>"
definition set_rst :: "kcp_packet_header \<Rightarrow> bool \<Rightarrow> kcp_packet_header" where
  "set_rst h b = h\<lparr>ph_flag := put_flag (ph_flag h) (flag_bits RST) b\<rparr>"
definition set_ping :: "kcp_packet_header \<Rightarrow> bool \<Rightarrow> kcp_packet_header" where
  "set_ping h b = h\<lparr>ph_flag := put_flag (ph_flag h) (flag_bits PING) b\<rparr>"
definition set_pong :: "kcp_packet_header \<Rightarrow> bool \<Rightarrow> kcp_packet_header" where
  "set_pong h b = h\<lparr>ph_flag := put_flag (ph_flag h) (flag_bits PONG) b\<rparr>"

definition set_conv :: "kcp_packet_header \<Rightarrow> u32 \<Rightarrow> kcp_packet_header" where
  "set_conv h v = h\<lparr>ph_conv := v\<rparr>"
definition set_src_session_id :: "kcp_packet_header \<Rightarrow> u32 \<Rightarrow> kcp_packet_header" where
  "set_src_session_id h v = h\<lparr>ph_src_session_id := v\<rparr>"
definition set_dst_session_id :: "kcp_packet_header \<Rightarrow> u32 \<Rightarrow> kcp_packet_header" where
  "set_dst_session_id h v = h\<lparr>ph_dst_session_id := v\<rparr>"

definition header_bytes :: "kcp_packet_header \<Rightarrow> bytes" where
  "header_bytes h = to_le 4 (unat (ph_conv h)) @ to_le 4 (unat (ph_src_session_id h))
     @ to_le 4 (unat (ph_dst_session_id h)) @ [ph_flag h, ph_rsv h]"

definition header_of_bytes :: "bytes \<Rightarrow> kcp_packet_header" where
  "header_of_bytes bs =
     \<lparr>ph_conv = of_nat (of_le (take 4 bs)),
      ph_src_session_id = of_nat (of_le (take 4 (drop 4 bs))),
      ph_dst_session_id = of_nat (of_le (take 4 (drop 8 bs))),
      ph_flag = bs ! 12, ph_rsv = bs ! 13\<rparr>"

subsection \<open>Packets\<close>

record kcp_packet =
  pk_header :: kcp_packet_header
  pk_payload :: bytes

definition packet_bytes :: "kcp_packet \<Rightarrow> bytes" where
  "packet_bytes p = header_bytes (pk_header p) @ pk_payload p"

definition packet_of_bytes :: "bytes \<Rightarrow> kcp_packet option" where
  "packet_of_bytes bs =
     (if length bs < HEADER_SIZE then None
      else Some \<lparr>pk_header = header_of_bytes bs, pk_payload = drop HEADER_SIZE bs\<rparr>)"

text \<open>
  \<open>KcpPacket::new\<close> fills the whole capacity of a fresh buffer with zeros. The allocator
  may hand out more than was asked for; \<open>capacity\<close> is that choice.
\<close>

definition packet_new :: "(nat \<Rightarrow> nat) \<Rightarrow> nat \<Rightarrow> kcp_packet" where
  "packet_new capacity body_size =
     \<lparr>pk_header = header_default, pk_payload = replicate (capacity (HEADER_SIZE + body_size) - HEADER_SIZE) 0\<rparr>"

definition packet_new_with_payload :: "bytes \<Rightarrow> kcp_packet" where
  "packet_new_with_payload payload = \<lparr>pk_header = header_default, pk_payload = payload\<rparr>"

definition packet_len :: "kcp_packet \<Rightarrow> nat" where
  "packet_len p = length (packet_bytes p)"

definition mut_header :: "(kcp_packet_header \<Rightarrow> kcp_packet_header) \<Rightarrow> kcp_packet \<Rightarrow> kcp_packet" where
  "mut_header f p = p\<lparr>pk_header := f (pk_header p)\<rparr>"

subsection \<open>Flags\<close>

fun flag_pos :: "header_flag \<Rightarrow> nat" where
  "flag_pos SYN = 0"
| "flag_pos ACK = 1"
| "flag_pos FIN = 2"
| "flag_pos DATA = 3"
| "flag_pos RST = 4"
| "flag_pos PING = 5"
| "flag_pos PONG = 6"

lemma flag_bits_pos: "flag_bits f = push_bit (flag_pos f) 1"
  by (cases f) (simp_all add: push_bit_eq_mult)

lemma flag_pos_bound: "flag_pos f < 8"
  by (cases f) simp_all

lemma flag_pos_inject [simp]: "flag_pos f = flag_pos g \<longleftrightarrow> f = g"
  by (cases f; cases g) simp_all

lemma contains_flag_bit: "contains_flag w (flag_bits f) \<longleftrightarrow> bit w (flag_pos f)"
  unfolding contains_flag_def flag_bits_pos bit_eq_iff
  using flag_pos_bound [of f] by (auto simp: bit_simps)

lemma contains_put_flag:
  "contains_flag (put_flag bits (flag_bits f) b) (flag_bits g) =
     (if f = g then b else contains_flag bits (flag_bits g))"
  using flag_pos_bound [of g] flag_pos_inject [of f g]
  unfolding contains_flag_bit put_flag_def
  by (auto simp: flag_bits_pos bit_simps)

lemma contains_no_flag: "\<not> contains_flag 0 (flag_bits f)"
  by (simp add: contains_flag_bit)

lemmas flag_defs =
  is_syn_def is_ack_def is_fin_def is_data_def is_rst_def is_ping_def is_pong_def
  set_syn_def set_ack_def set_fin_def set_data_def set_rst_def set_ping_def set_pong_def

lemmas id_defs = set_conv_def set_src_session_id_def set_dst_session_id_def

subsection \<open>The byte buffer and its header view\<close>

lemma length_header_bytes [simp]: "length (header_bytes h) = HEADER_SIZE"
  by (simp add: header_bytes_def HEADER_SIZE_def)

lemma u32_le_roundtrip: "(of_nat (of_le (to_le 4 (unat w))) :: u32) = w"
proof -
  have "unat w < 2 ^ 32" using unsigned_less [of w] by simp
  then show ?thesis by (simp add: of_le_to_le)
qed

lemma u32_of_le_roundtrip:
  assumes "length bs = 4"
  shows "to_le 4 (unat (of_nat (of_le bs) :: u32)) = bs"
proof -
  have "of_le bs < 2 ^ 32" using of_le_bound [of bs] assms by simp
  then have "unat (of_nat (of_le bs) :: u32) = of_le bs"
    by (simp add: unat_of_nat)
  then show ?thesis using to_le_of_le [of bs] assms by simp
qed

lemma header_of_bytes_prefix: "header_of_bytes (header_bytes h @ rest) = h"
  unfolding header_of_bytes_def header_bytes_def
  by (simp add: nth_append u32_le_roundtrip)

lemma packet_of_packet_bytes: "packet_of_bytes (packet_bytes p) = Some p"
  by (simp add: packet_of_bytes_def packet_bytes_def header_of_bytes_prefix)

lemma header_bytes_of_bytes:
  assumes "HEADER_SIZE \<le> length bs"
  shows "header_bytes (header_of_bytes bs) = take HEADER_SIZE bs"
proof -
  have "take HEADER_SIZE bs = take 4 bs @ take 4 (drop 4 bs) @ take 4 (drop 8 bs) @ take 2 (drop 12 bs)"
    using take_add [of 4 10 bs] take_add [of 4 6 "drop 4 bs"] take_add [of 4 2 "drop 8 bs"]
    by (simp add: HEADER_SIZE_def)
  moreover have "take 2 (drop 12 bs) = [bs ! 12, bs ! 13]"
    using assms by (simp add: HEADER_SIZE_def take_Suc_conv_app_nth numeral_2_eq_2)
  ultimately show ?thesis
    using assms unfolding header_bytes_def header_of_bytes_def
    by (simp add: u32_of_le_roundtrip HEADER_SIZE_def)
qed

lemma packet_bytes_of_bytes: "packet_of_bytes bs = Some p \<Longrightarrow> packet_bytes p = bs"
  by (auto simp: packet_of_bytes_def packet_bytes_def header_bytes_of_bytes split: if_splits)

lemma packet_of_bytes_None_iff: "packet_of_bytes bs = None \<longleftrightarrow> length bs < HEADER_SIZE"
  by (simp add: packet_of_bytes_def)

text \<open>
  The packet layout round-trips in both directions: reading a buffer as a packet gives exactly
  the packet whose encoding is that buffer; every packet is recovered from its bytes, and a buffer
  is rejected only when it is shorter than the 14-byte header.
\<close>

theorem packet_roundtrip:
  "(packet_of_bytes bs = Some p \<longleftrightarrow> packet_bytes p = bs)
   \<and> (packet_of_bytes bs = None \<longleftrightarrow> length bs < 14)"
  using packet_of_packet_bytes packet_bytes_of_bytes packet_of_bytes_None_iff
  by (auto simp: HEADER_SIZE_def)

end
