(* ===== verification/Kcp_State.thy ===== *)
theory Kcp_State
  imports Kcp_Packet
begin

text \<open>
  The connection state machine of the KCP transport, \<open>libs/kcp-sys/src/state.rs\<close>. The
  code is generic over the trait \<open>PacketHeaderFlagManipulator\<close>; here the trait is a record
  of operations and the laws the machine relies on form the locale \<open>packet_flags\<close>, which is
  interpreted on \<open>KcpPacket\<close> (the \<open>impl\<close> block of \<open>endpoint.rs\<close>).
\<close>

subsection \<open>The trait\<close>

record 'p flag_ops =
  p_default :: 'p
  has_syn :: "'p \<Rightarrow> bool"
  has_ack :: "'p \<Rightarrow> bool"
  has_fin :: "'p \<Rightarrow> bool"
  has_rst :: "'p \<Rightarrow> bool"
  has_data :: "'p \<Rightarrow> bool"
  put_syn :: "'p \<Rightarrow> bool \<Rightarrow> 'p"
  put_ack :: "'p \<Rightarrow> bool \<Rightarrow> 'p"
  put_fin :: "'p \<Rightarrow> bool \<Rightarrow> 'p"
  put_rst :: "'p \<Rightarrow> bool \<Rightarrow> 'p"
  put_data :: "'p \<Rightarrow> bool \<Rightarrow> 'p"

definition kcp_packet_flags :: "(nat \<Rightarrow> nat) \<Rightarrow> kcp_packet flag_ops" where
  "kcp_packet_flags capacity =
     \<lparr>p_default = packet_new capacity 0,
      has_syn = (\<lambda>p. is_syn (pk_header p)),
      has_ack = (\<lambda>p. is_ack (pk_header p)),
      has_fin = (\<lambda>p. is_fin (pk_header p)),
      has_rst = (\<lambda>p. is_rst (pk_header p)),
      has_data = (\<lambda>p. is_data (pk_header p)),
      put_syn = (\<lambda>p b. mut_header (\<lambda>h. set_syn h b) p),
      put_ack = (\<lambda>p b. mut_header (\<lambda>h. set_ack h b) p),
      put_fin = (\<lambda>p b. mut_header (\<lambda>h. set_fin h b) p),
      put_rst = (\<lambda>p b. mut_header (\<lambda>h. set_rst h b) p),
      put_data = (\<lambda>p b. mut_header (\<lambda>h. set_data h b) p)\<rparr>"

subsection \<open>The machine\<close>

datatype kcp_error =
    InvalidState | InvalidStateNeedRst | ConnectioinReset | CreateConnectionFailed
  | AnyhowError string | ConnectTimeout | Shutdown

datatype kcp_fsm =
    FsmClosed | FsmListen | FsmSynReceived | FsmSynSent | FsmEstablished | FsmLocalClosed | FsmPeerClosed

definition fsm_listen :: kcp_fsm where
  "fsm_listen = FsmListen"

definition fsm_connect :: "'p flag_ops \<Rightarrow> 'p \<Rightarrow> kcp_fsm \<times> 'p" where
  "fsm_connect fo out_packet = (FsmSynSent, put_syn fo out_packet True)"

definition fsm_close :: "'p flag_ops \<Rightarrow> kcp_fsm \<Rightarrow> 'p \<Rightarrow> kcp_fsm \<times> 'p" where
  "fsm_close fo self out_packet =
     (if self = FsmEstablished then FsmLocalClosed else FsmClosed, put_fin fo out_packet True)"

definition check_packet_flag ::
    "'p flag_ops \<Rightarrow> 'p \<Rightarrow> bool \<Rightarrow> bool \<Rightarrow> bool \<Rightarrow> bool \<Rightarrow> bool \<Rightarrow> bool" where
  "check_packet_flag fo packet syn ack fin rst data \<longleftrightarrow>
     has_syn fo packet = syn \<and> has_ack fo packet = ack \<and> has_fin fo packet = fin
     \<and> has_rst fo packet = rst \<and> has_data fo packet = data"

type_synonym 'p fsm_result = "kcp_fsm \<times> 'p option \<times> (unit, kcp_error) result"

fun do_handle_packet :: "'p flag_ops \<Rightarrow> kcp_fsm \<Rightarrow> 'p \<Rightarrow> 'p option \<Rightarrow> 'p fsm_result" where
  "do_handle_packet fo FsmClosed packet out = (FsmClosed, out, Err InvalidStateNeedRst)"
| "do_handle_packet fo FsmListen packet out =
     (if check_packet_flag fo packet True False False False False
      then (FsmSynReceived, Some (put_ack fo (put_syn fo (p_default fo) True) True), Ok ())
      else (FsmListen, out, Err InvalidStateNeedRst))"
| "do_handle_packet fo FsmSynReceived packet out =
     (if check_packet_flag fo packet False True False False True then (FsmEstablished, out, Ok ())
      else if has_rst fo packet then (FsmClosed, out, Err InvalidState)
      else if has_fin fo packet then (FsmClosed, out, Err InvalidStateNeedRst)
      else (FsmSynReceived, out, Err InvalidStateNeedRst))"
| "do_handle_packet fo FsmSynSent packet out =
     (if check_packet_flag fo packet True True False False False
      then (FsmEstablished, Some (put_data fo (put_ack fo (p_default fo) True) True), Ok ())
      else if has_rst fo packet then (FsmClosed, out, Err InvalidState)
      else if has_fin fo packet then (FsmClosed, out, Err InvalidStateNeedRst)
      else (FsmSynSent, out, Err InvalidStateNeedRst))"
| "do_handle_packet fo FsmEstablished packet out =
     (if check_packet_flag fo packet False True False False True then (FsmEstablished, out, Ok ())
      else if has_rst fo packet then (FsmClosed, out, Err InvalidState)
      else if has_fin fo packet then (FsmPeerClosed, out, Ok ())
      else (FsmEstablished, out, Err InvalidStateNeedRst))"
| "do_handle_packet fo FsmLocalClosed packet out =
     (if has_fin fo packet then (FsmClosed, out, Ok ())
      else if has_rst fo packet then (FsmClosed, out, Err InvalidState)
      else if has_data fo packet then (FsmLocalClosed, out, Ok ())
      else (FsmLocalClosed, out, Err InvalidState))"
| "do_handle_packet fo FsmPeerClosed packet out =
     (if has_rst fo packet then (FsmClosed, out, Err InvalidState)
      else (FsmPeerClosed, out, Err InvalidState))"

definition fsm_handle_packet :: "'p flag_ops \<Rightarrow> kcp_fsm \<Rightarrow> 'p \<Rightarrow> 'p option \<Rightarrow> 'p fsm_result" where
  "fsm_handle_packet fo self packet out =
     (case do_handle_packet fo self packet out of
        (self', out', ret) \<Rightarrow>
          (self', if ret = Err InvalidStateNeedRst then Some (put_rst fo (p_default fo) True) else out', ret))"

subsection \<open>The laws of the trait\<close>

definition flags_of :: "'p flag_ops \<Rightarrow> 'p \<Rightarrow> bool \<times> bool \<times> bool \<times> bool \<times> bool" where
  "flags_of fo p = (has_syn fo p, has_ack fo p, has_fin fo p, has_rst fo p, has_data fo p)"

text \<open>The five packet shapes of the protocol.\<close>

definition syn_packet :: "'p flag_ops \<Rightarrow> 'p \<Rightarrow> bool" where
  "syn_packet fo p \<longleftrightarrow> flags_of fo p = (True, False, False, False, False)"
definition syn_ack_packet :: "'p flag_ops \<Rightarrow> 'p \<Rightarrow> bool" where
  "syn_ack_packet fo p \<longleftrightarrow> flags_of fo p = (True, True, False, False, False)"
definition data_packet :: "'p flag_ops \<Rightarrow> 'p \<Rightarrow> bool" where
  "data_packet fo p \<longleftrightarrow> flags_of fo p = (False, True, False, False, True)"
definition rst_packet :: "'p flag_ops \<Rightarrow> 'p \<Rightarrow> bool" where
  "rst_packet fo p \<longleftrightarrow> flags_of fo p = (False, False, False, True, False)"
definition fin_packet :: "'p flag_ops \<Rightarrow> 'p \<Rightarrow> bool" where
  "fin_packet fo p \<longleftrightarrow> flags_of fo p = (False, False, True, False, False)"

lemmas packet_shape_defs =
  syn_packet_def syn_ack_packet_def data_packet_def rst_packet_def fin_packet_def

lemma check_packet_flag_iff:
  "check_packet_flag fo p s a f r d \<longleftrightarrow> flags_of fo p = (s, a, f, r, d)"
  by (simp add: check_packet_flag_def flags_of_def)

locale packet_flags =
  fixes fo :: "'p flag_ops"
  assumes flags_default: "flags_of fo (p_default fo) = (False, False, False, False, False)"
    and flags_put_syn: "flags_of fo p = (s, a, f, r, d) \<Longrightarrow> flags_of fo (put_syn fo p b) = (b, a, f, r, d)"
    and flags_put_ack: "flags_of fo p = (s, a, f, r, d) \<Longrightarrow> flags_of fo (put_ack fo p b) = (s, b, f, r, d)"
    and flags_put_fin: "flags_of fo p = (s, a, f, r, d) \<Longrightarrow> flags_of fo (put_fin fo p b) = (s, a, b, r, d)"
    and flags_put_rst: "flags_of fo p = (s, a, f, r, d) \<Longrightarrow> flags_of fo (put_rst fo p b) = (s, a, f, b, d)"
    and flags_put_data: "flags_of fo p = (s, a, f, r, d) \<Longrightarrow> flags_of fo (put_data fo p b) = (s, a, f, r, b)"
begin

lemmas flags_put = flags_put_syn flags_put_ack flags_put_fin flags_put_rst flags_put_data

lemma syn_ack_shape: "syn_ack_packet fo (put_ack fo (put_syn fo (p_default fo) True) True)"
  unfolding syn_ack_packet_def by (rule flags_put_ack, rule flags_put_syn, rule flags_default)

lemma data_shape: "data_packet fo (put_data fo (put_ack fo (p_default fo) True) True)"
  unfolding data_packet_def by (rule flags_put_data, rule flags_put_ack, rule flags_default)

lemma rst_shape: "rst_packet fo (put_rst fo (p_default fo) True)"
  unfolding rst_packet_def by (rule flags_put_rst, rule flags_default)

lemma syn_shape: "syn_packet fo (put_syn fo (p_default fo) True)"
  unfolding syn_packet_def by (rule flags_put_syn, rule flags_default)

lemma fin_shape: "fin_packet fo (put_fin fo (p_default fo) True)"
  unfolding fin_packet_def by (rule flags_put_fin, rule flags_default)

text \<open>What a handled packet can cause to be sent: a SYN-ACK, an ACK+DATA or an RST.\<close>

lemma out_shape:
  assumes "fsm_handle_packet fo s p None = (t, Some q, r)"
  shows "(s = FsmListen \<and> t = FsmSynReceived \<and> r = Ok () \<and> syn_packet fo p \<and> syn_ack_packet fo q)
       \<or> (s = FsmSynSent \<and> t = FsmEstablished \<and> r = Ok () \<and> syn_ack_packet fo p \<and> data_packet fo q)
       \<or> (r = Err InvalidStateNeedRst \<and> rst_packet fo q)"
  using assms syn_ack_shape data_shape rst_shape
  unfolding fsm_handle_packet_def
  by (cases s) (auto simp: check_packet_flag_iff syn_packet_def syn_ack_packet_def split: if_splits)

lemma connect_shape: "fsm_connect fo (p_default fo) = (FsmSynSent, q) \<Longrightarrow> syn_packet fo q"
  using syn_shape by (auto simp: fsm_connect_def)

lemma close_shape: "fsm_close fo s (p_default fo) = (t, q) \<Longrightarrow> fin_packet fo q"
  using fin_shape by (auto simp: fsm_close_def)

end

lemma kcp_packet_flags_laws: "packet_flags (kcp_packet_flags capacity)"
  by unfold_locales
    (simp_all add: flags_of_def kcp_packet_flags_def mut_header_def flag_defs contains_put_flag
      packet_new_def header_default_def contains_no_flag
      del: flag_bits.simps)

interpretation kp: packet_flags "kcp_packet_flags capacity" for capacity
  by (rule kcp_packet_flags_laws)

subsection \<open>Behaviour of the machine\<close>

text \<open>The phases of a connection, in the order a connection goes through them.\<close>

fun fsm_rank :: "kcp_fsm \<Rightarrow> nat" where
  "fsm_rank FsmListen = 0"
| "fsm_rank FsmSynReceived = 1"
| "fsm_rank FsmSynSent = 1"
| "fsm_rank FsmEstablished = 2"
| "fsm_rank FsmLocalClosed = 3"
| "fsm_rank FsmPeerClosed = 3"
| "fsm_rank FsmClosed = 4"

lemma fsm_handle_state: "fst (fsm_handle_packet fo s p out) = fst (do_handle_packet fo s p out)"
  by (simp add: fsm_handle_packet_def split: prod.splits)

lemma fsm_handle_rank: "fsm_rank s \<le> fsm_rank (fst (fsm_handle_packet fo s p out))"
  unfolding fsm_handle_state by (cases s) auto

lemma fsm_close_rank: "fsm_rank s \<le> fsm_rank (fst (fsm_close fo s p))"
  by (cases s) (auto simp: fsm_close_def)

lemma fsm_handle_rank_strict:
  "fst (fsm_handle_packet fo s p out) \<noteq> s \<Longrightarrow> fsm_rank s < fsm_rank (fst (fsm_handle_packet fo s p out))"
  unfolding fsm_handle_state by (cases s) (auto split: if_splits)

datatype 'p fsm_op = OpPacket 'p | OpClose 'p

fun fsm_step :: "'p flag_ops \<Rightarrow> 'p fsm_op \<Rightarrow> kcp_fsm \<Rightarrow> kcp_fsm" where
  "fsm_step fo (OpPacket p) s = fst (fsm_handle_packet fo s p None)"
| "fsm_step fo (OpClose p) s = fst (fsm_close fo s p)"

interpretation fsm: op_invariant "fsm_step fo" "\<lambda>s. n \<le> fsm_rank s" for fo n
proof
  fix s x assume "n \<le> fsm_rank s"
  then show "n \<le> fsm_rank (fsm_step fo x s)"
    using fsm_handle_rank [of s fo] fsm_close_rank [of s fo] by (cases x) (auto intro: le_trans)
qed

lemma fsm_rank_closed: "4 \<le> fsm_rank s \<longleftrightarrow> s = FsmClosed"
  by (cases s) simp_all

lemma established_only_by_handshake:
  assumes "s \<noteq> FsmEstablished" and "fst (fsm_handle_packet fo s p out) = FsmEstablished"
  shows "(s = FsmSynReceived \<and> data_packet fo p) \<or> (s = FsmSynSent \<and> syn_ack_packet fo p)"
  using assms unfolding fsm_handle_state
  by (cases s) (auto simp: check_packet_flag_iff packet_shape_defs split: if_splits)

lemma rst_closes:
  assumes "has_rst fo p" and "s \<noteq> FsmListen"
  shows "fst (fsm_handle_packet fo s p out) = FsmClosed"
  using assms unfolding fsm_handle_state by (cases s) (auto simp: check_packet_flag_def)

lemma rst_state_change_silent:
  assumes "has_rst fo p" and "fsm_handle_packet fo s p None = (t, q, r)" and "s \<noteq> t"
  shows "q = None"
  using assms by (cases s) (auto simp: fsm_handle_packet_def check_packet_flag_def split: if_splits)

text \<open>
  Connections only move forward: whatever sequence of packets and local closes reaches a
  connection, its phase never decreases, and once it is closed it stays closed. In particular
  an established connection is never re-established.
\<close>

theorem fsm_phases_monotone:
  "fsm_rank s \<le> fsm_rank (fold (fsm_step fo) ops s)
   \<and> (fold (fsm_step fo) ops FsmClosed = FsmClosed)"
  using fsm.run_inv [of "fsm_rank s" s fo ops] fsm.run_inv [of 4 FsmClosed fo ops]
  by (simp add: fsm_rank_closed)

text \<open>
  C23. A machine that becomes established did so by the matching handshake packet: an ACK+DATA
  packet with no other flag after a SYN had been received, or a SYN-ACK with no other flag after
  a SYN had been sent. In every other state, and for every other flag combination, the machine
  does not become established.
\<close>

theorem fsm_established_iff:
  "fst (fsm_handle_packet fo s p out) = FsmEstablished \<longleftrightarrow>
     (s = FsmSynReceived \<and> data_packet fo p) \<or> (s = FsmSynSent \<and> syn_ack_packet fo p)
     \<or> (s = FsmEstablished \<and> (data_packet fo p \<or> \<not> has_rst fo p \<and> \<not> has_fin fo p))"
  unfolding fsm_handle_state
  by (cases s) (auto simp: check_packet_flag_iff packet_shape_defs flags_of_def)

text \<open>
  The handshake completes: the SYN of a connecting endpoint, handled by a listening one,
  is answered by a SYN-ACK whose handling establishes the client and produces an ACK+DATA packet
  whose handling establishes the server, on the packets and flag bytes of the implementation.
\<close>

theorem fsm_handshake_completes:
  "\<exists>syn syn_ack dat.
     fsm_connect (kcp_packet_flags capacity) (p_default (kcp_packet_flags capacity)) = (FsmSynSent, syn)
   \<and> fsm_handle_packet (kcp_packet_flags capacity) fsm_listen syn None = (FsmSynReceived, Some syn_ack, Ok ())
   \<and> fsm_handle_packet (kcp_packet_flags capacity) FsmSynSent syn_ack None = (FsmEstablished, Some dat, Ok ())
   \<and> fsm_handle_packet (kcp_packet_flags capacity) FsmSynReceived dat None = (FsmEstablished, None, Ok ())"
  using kp.syn_shape kp.syn_ack_shape kp.data_shape
  by (auto simp: fsm_connect_def fsm_listen_def fsm_handle_packet_def check_packet_flag_iff packet_shape_defs)

text \<open>
  What the machine sends: in answer to a packet it emits nothing, or a SYN-ACK exactly when a
  listening machine got a SYN, or an ACK+DATA exactly when a connecting machine got the SYN-ACK,
  or a pure RST when the packet was rejected with the reset error.
\<close>

theorem fsm_replies:
  assumes "fsm_handle_packet (kcp_packet_flags capacity) s p None = (t, Some q, r)"
  shows "(s = FsmListen \<and> t = FsmSynReceived \<and> r = Ok ()
            \<and> syn_packet (kcp_packet_flags capacity) p \<and> syn_ack_packet (kcp_packet_flags capacity) q)
       \<or> (s = FsmSynSent \<and> t = FsmEstablished \<and> r = Ok ()
            \<and> syn_ack_packet (kcp_packet_flags capacity) p \<and> data_packet (kcp_packet_flags capacity) q)
       \<or> (r = Err InvalidStateNeedRst \<and> rst_packet (kcp_packet_flags capacity) q)"
  by (rule kp.out_shape [OF assms])

theorem fsm_replies_witness:
  "rst_packet (kcp_packet_flags id) (mut_header (\<lambda>h. set_rst h True) (packet_new id 0))"
proof -
  have "fsm_handle_packet (kcp_packet_flags id) FsmClosed (packet_new id 0) None =
      (FsmClosed, Some (mut_header (\<lambda>h. set_rst h True) (packet_new id 0)), Err InvalidStateNeedRst)"
    by (simp add: fsm_handle_packet_def kcp_packet_flags_def)
  from fsm_replies [OF this] show ?thesis by simp
qed

end
