(* ===== verification/Kcp_Connection.thy ===== *)
theory Kcp_Connection
  imports Kcp_State
begin

text \<open>
  One KCP connection: the safe wrapper over the C control block (\<open>libs/kcp-sys/src/ffi_safe.rs\<close>),
  \<open>KcpConnection\<close> with its updater, send and receive tasks (\<open>endpoint.rs\<close>), and the byte
  stream offered to the application (\<open>stream.rs\<close>).

  The C library is a parameter: a record of its entry points over an opaque control block. Its
  output callback is represented by the list of buffers an entry point hands to the callback.
  A \<open>Notify\<close> is its stored permit. The outcome of a channel operation is an argument of the step
  that performs it, so the theorems hold for every schedule and every channel fill level.
  Each task is a step function; one step runs the task from one waiting point to the next.
\<close>

subsection \<open>Connection identifiers\<close>

record conn_id =
  ci_conv :: u32
  ci_src_session_id :: u32
  ci_dst_session_id :: u32

definition conn_id_from :: "kcp_packet \<Rightarrow> conn_id" where
  "conn_id_from p = \<lparr>ci_conv = ph_conv (pk_header p),
     ci_src_session_id = ph_src_session_id (pk_header p),
     ci_dst_session_id = ph_dst_session_id (pk_header p)\<rparr>"

definition fill_packet_header :: "conn_id \<Rightarrow> kcp_packet \<Rightarrow> kcp_packet" where
  "fill_packet_header cid p = mut_header (\<lambda>h.
     set_dst_session_id (set_src_session_id (set_conv h (ci_conv cid)) (ci_src_session_id cid))
       (ci_dst_session_id cid)) p"

subsection \<open>The control block\<close>

definition MTU_SIZE :: int where "MTU_SIZE = 1200"

record kcp_config =
  kf_conv :: u32
  kf_mtu :: "int option"
  kf_sndwnd :: "int option"
  kf_rcvwnd :: "int option"
  kf_nodelay :: "int option"
  kf_interval :: "int option"
  kf_resend :: "int option"
  kf_nc :: "int option"

definition config_new :: "u32 \<Rightarrow> kcp_config" where
  "config_new conv = \<lparr>kf_conv = conv, kf_mtu = None, kf_sndwnd = None, kf_rcvwnd = None,
     kf_nodelay = None, kf_interval = None, kf_resend = None, kf_nc = None\<rparr>"

definition config_new_turbo :: "u32 \<Rightarrow> kcp_config" where
  "config_new_turbo conv = \<lparr>kf_conv = conv, kf_mtu = Some MTU_SIZE, kf_sndwnd = Some 1024,
     kf_rcvwnd = Some 1024, kf_nodelay = Some 1, kf_interval = Some 10, kf_resend = Some 2, kf_nc = Some 1\<rparr>"

text \<open>The entry points of the C library the wrapper calls; an \<open>int\<close> is a C return code.\<close>

record 'k ikcp =
  ikcp_create :: "u32 \<Rightarrow> 'k option"
  ikcp_set_stream :: "'k \<Rightarrow> 'k"
  ikcp_setmtu :: "'k \<Rightarrow> int \<Rightarrow> 'k \<times> int"
  ikcp_wndsize :: "'k \<Rightarrow> int \<Rightarrow> int \<Rightarrow> 'k \<times> int"
  ikcp_nodelay :: "'k \<Rightarrow> int \<Rightarrow> int \<Rightarrow> int \<Rightarrow> int \<Rightarrow> 'k \<times> int"
  ikcp_set_interval :: "'k \<Rightarrow> int \<Rightarrow> 'k"
  ikcp_input :: "'k \<Rightarrow> bytes \<Rightarrow> 'k \<times> int"
  ikcp_update :: "'k \<Rightarrow> u32 \<Rightarrow> 'k \<times> bytes list"
  ikcp_check :: "'k \<Rightarrow> u32 \<Rightarrow> u32"
  ikcp_send :: "'k \<Rightarrow> bytes \<Rightarrow> 'k \<times> int"
  ikcp_flush :: "'k \<Rightarrow> 'k \<times> bytes list"
  ikcp_peeksize :: "'k \<Rightarrow> int"
  ikcp_recv :: "'k \<Rightarrow> nat \<Rightarrow> 'k \<times> int \<times> bytes"
  ikcp_waitsnd :: "'k \<Rightarrow> int"
  ikcp_mss :: "'k \<Rightarrow> u32"
  ikcp_snd_wnd :: "'k \<Rightarrow> u32"
  ikcp_rcv_wnd :: "'k \<Rightarrow> u32"

text \<open>The callback is the closure installed by \<open>KcpConnection::run\<close>, which captures a connection id.\<close>

record 'k kcp =
  k_kcp :: 'k
  k_config :: kcp_config
  k_now :: nat
  k_output_cb :: "conn_id option"

definition opt_or :: "'a \<Rightarrow> 'a option \<Rightarrow> 'a" where
  "opt_or d x = (case x of None \<Rightarrow> d | Some v \<Rightarrow> v)"

definition apply_config :: "'k ikcp \<Rightarrow> 'k kcp \<Rightarrow> ('k kcp, kcp_error) result" where
  "apply_config ik k =
    (let cfg = k_config k; (cb, ret) = ikcp_setmtu ik (k_kcp k) (opt_or MTU_SIZE (kf_mtu cfg)) in
     if ret < 0 then Err (AnyhowError ''setmtu failed'') else
     let (cb, ret) = ikcp_wndsize ik cb (opt_or (-1) (kf_sndwnd cfg)) (opt_or (-1) (kf_rcvwnd cfg)) in
     if ret < 0 then Err (AnyhowError ''wndsize failed'') else
     let (cb, ret) = ikcp_nodelay ik cb (opt_or (-1) (kf_nodelay cfg)) (opt_or (-1) (kf_interval cfg))
                       (opt_or (-1) (kf_resend cfg)) (opt_or (-1) (kf_nc cfg)) in
     if ret < 0 then Err (AnyhowError ''nodelay failed'') else
     let cb = (case kf_interval cfg of
                 None \<Rightarrow> cb
               | Some interval \<Rightarrow> if interval > 0 then ikcp_set_interval ik cb interval else cb) in
     Ok (k\<lparr>k_kcp := cb\<rparr>))"

definition kcp_new :: "'k ikcp \<Rightarrow> nat \<Rightarrow> kcp_config \<Rightarrow> ('k kcp, kcp_error) result" where
  "kcp_new ik now config =
    (case ikcp_create ik (kf_conv config) of
       None \<Rightarrow> Err CreateConnectionFailed
     | Some cb \<Rightarrow> apply_config ik
         \<lparr>k_kcp = ikcp_set_stream ik cb, k_config = config, k_now = now, k_output_cb = None\<rparr>)"

definition set_output_cb :: "conn_id \<Rightarrow> 'k kcp \<Rightarrow> 'k kcp" where
  "set_output_cb cid k = k\<lparr>k_output_cb := Some cid\<rparr>"

definition kcp_handle_input :: "'k ikcp \<Rightarrow> 'k kcp \<Rightarrow> bytes \<Rightarrow> 'k kcp \<times> (unit, kcp_error) result" where
  "kcp_handle_input ik k data =
    (let (cb, ret) = ikcp_input ik (k_kcp k) data in
     (k\<lparr>k_kcp := cb\<rparr>, if ret < 0 then Err (AnyhowError ''input failed'') else Ok ()))"

text \<open>\<open>elapsed().as_millis() as u32\<close> truncates.\<close>

definition elapsed_ms :: "nat \<Rightarrow> 'k kcp \<Rightarrow> u32" where
  "elapsed_ms now k = of_nat (now - k_now k)"

definition kcp_update :: "'k ikcp \<Rightarrow> nat \<Rightarrow> 'k kcp \<Rightarrow> 'k kcp \<times> bytes list" where
  "kcp_update ik now k =
    (let (cb, bufs) = ikcp_update ik (k_kcp k) (elapsed_ms now k) in (k\<lparr>k_kcp := cb\<rparr>, bufs))"

definition next_update_delay_ms :: "'k ikcp \<Rightarrow> nat \<Rightarrow> 'k kcp \<Rightarrow> u32" where
  "next_update_delay_ms ik now k =
    (let current = elapsed_ms now k in ikcp_check ik (k_kcp k) current - current)"

definition kcp_send :: "'k ikcp \<Rightarrow> 'k kcp \<Rightarrow> bytes \<Rightarrow> 'k kcp \<times> (nat, kcp_error) result" where
  "kcp_send ik k data =
    (let (cb, ret) = ikcp_send ik (k_kcp k) data in
     (k\<lparr>k_kcp := cb\<rparr>, if ret < 0 then Err (AnyhowError ''send failed'') else Ok (nat ret)))"

definition kcp_flush :: "'k ikcp \<Rightarrow> 'k kcp \<Rightarrow> 'k kcp \<times> bytes list" where
  "kcp_flush ik k = (let (cb, bufs) = ikcp_flush ik (k_kcp k) in (k\<lparr>k_kcp := cb\<rparr>, bufs))"

definition kcp_peeksize :: "'k ikcp \<Rightarrow> 'k kcp \<Rightarrow> int" where
  "kcp_peeksize ik k = ikcp_peeksize ik (k_kcp k)"

text \<open>\<open>recv\<close> writes into the whole capacity of the buffer and sets its length to the return value.\<close>

definition kcp_recv :: "'k ikcp \<Rightarrow> 'k kcp \<Rightarrow> nat \<Rightarrow> 'k kcp \<times> (bytes, kcp_error) result" where
  "kcp_recv ik k capacity =
    (let (cb, ret, data) = ikcp_recv ik (k_kcp k) capacity in
     (k\<lparr>k_kcp := cb\<rparr>, if ret < 0 then Err (AnyhowError ''recv failed'') else Ok (take (nat ret) data)))"

definition kcp_waitsnd :: "'k ikcp \<Rightarrow> 'k kcp \<Rightarrow> int" where
  "kcp_waitsnd ik k = ikcp_waitsnd ik (k_kcp k)"

definition kcp_sendwnd :: "'k kcp \<Rightarrow> int" where
  "kcp_sendwnd k = opt_or 32 (kf_sndwnd (k_config k))"

text \<open>The chunk size is computed in \<open>usize\<close>, after widening both factors.\<close>

definition max_chunk_size :: "'k ikcp \<Rightarrow> 'k kcp \<Rightarrow> usize" where
  "max_chunk_size ik k =
    (let mss = ikcp_mss ik (k_kcp k);
         max_count = min (128 - 1) (min (ikcp_snd_wnd ik (k_kcp k)) (ikcp_rcv_wnd ik (k_kcp k)));
         truncate_size = (ucast max_count :: usize) * ucast mss in
     max truncate_size 1024)"

subsection \<open>The connection\<close>

datatype send_task =
    SendIdle | SendChunks "bytes list" | SendWaitWindow "bytes list"
  | SendDrain | SendWaitDrain | SendDone

datatype recv_task = RecvLoop | RecvWait | RecvPanic | RecvDone

record 'k kcp_conn =
  kc_conn_id :: conn_id
  kc_kcp :: "'k kcp"
  kc_update_notified :: bool
  kc_recv_notified :: bool
  kc_send_notified :: bool
  kc_has_new_input :: bool
  kc_waiting_new_send_window :: bool
  kc_send_sender :: bool
  kc_recv_receiver :: bool
  kc_send_closed_notified :: bool
  kc_recv_closed :: bool
  kc_send_task :: send_task
  kc_recv_task :: recv_task

definition kcp_connection_new :: "'k ikcp \<Rightarrow> nat \<Rightarrow> conn_id \<Rightarrow> ('k kcp_conn, kcp_error) result" where
  "kcp_connection_new ik now cid =
    (case kcp_new ik now (config_new_turbo (ci_conv cid)) of
       Err e \<Rightarrow> Err e
     | Ok k \<Rightarrow> Ok \<lparr>kc_conn_id = cid, kc_kcp = k, kc_update_notified = False, kc_recv_notified = False,
         kc_send_notified = False, kc_has_new_input = False, kc_waiting_new_send_window = False,
         kc_send_sender = True, kc_recv_receiver = True, kc_send_closed_notified = False,
         kc_recv_closed = False, kc_send_task = SendIdle, kc_recv_task = RecvLoop\<rparr>)"

definition kcp_connection_run :: "'k kcp_conn \<Rightarrow> 'k kcp_conn" where
  "kcp_connection_run c = c\<lparr>kc_kcp := set_output_cb (kc_conn_id c) (kc_kcp c)\<rparr>"

definition output_packet :: "conn_id \<Rightarrow> bytes \<Rightarrow> kcp_packet" where
  "output_packet cid data =
     mut_header (\<lambda>h. set_ack (set_data h True) True) (fill_packet_header cid (packet_new_with_payload data))"

definition handle_output_callback :: "'k kcp \<Rightarrow> bytes list \<Rightarrow> kcp_packet list" where
  "handle_output_callback k bufs =
     (case k_output_cb k of None \<Rightarrow> [] | Some cid \<Rightarrow> map (output_packet cid) bufs)"

definition updater_step :: "'k ikcp \<Rightarrow> nat \<Rightarrow> 'k kcp_conn \<Rightarrow> 'k kcp_conn \<times> kcp_packet list" where
  "updater_step ik now c =
    (let (k, bufs) = kcp_update ik now (kc_kcp c);
         c1 = c\<lparr>kc_kcp := k, kc_update_notified := False\<rparr>;
         c2 = (if kc_has_new_input c1 then c1\<lparr>kc_has_new_input := False, kc_recv_notified := True\<rparr> else c1);
         c3 = (if kc_waiting_new_send_window c2
               then c2\<lparr>kc_waiting_new_send_window := False, kc_send_notified := True\<rparr> else c2);
         c4 = (if kc_recv_closed c3 then c3\<lparr>kc_recv_notified := True\<rparr> else c3) in
     (c4, handle_output_callback k bufs))"

text \<open>\<open>slice::chunks\<close>; a zero chunk size panics.\<close>

function chunks :: "nat \<Rightarrow> 'a list \<Rightarrow> 'a list list" where
  "chunks n xs = (if xs = [] \<or> n = 0 then [] else take n xs # chunks n (drop n xs))"
  by pat_completeness auto
termination by (relation "measure (length \<circ> snd)") auto

declare chunks.simps [simp del]

text \<open>
  The send task. \<open>incoming\<close> is what the send channel yields when the task waits for it:
  a buffer, or nothing once every sender is gone. A rejected chunk ends the loop over the
  buffer it came from.
\<close>

definition send_task_step ::
    "'k ikcp \<Rightarrow> bytes option \<Rightarrow> 'k kcp_conn \<Rightarrow> 'k kcp_conn \<times> bytes list \<times> kcp_packet list" where
  "send_task_step ik incoming c =
    (case kc_send_task c of
       SendIdle \<Rightarrow>
         (case incoming of
            Some data \<Rightarrow>
              (c\<lparr>kc_send_task := SendChunks (chunks (unat (max_chunk_size ik (kc_kcp c))) data)\<rparr>, [], [])
          | None \<Rightarrow> (c\<lparr>kc_send_task := SendDrain\<rparr>, [], []))
     | SendChunks [] \<Rightarrow> (c\<lparr>kc_send_task := SendIdle\<rparr>, [], [])
     | SendChunks (chunk # rest) \<Rightarrow>
         if kcp_waitsnd ik (kc_kcp c) > 2 * kcp_sendwnd (kc_kcp c)
         then (c\<lparr>kc_waiting_new_send_window := True, kc_send_task := SendWaitWindow (chunk # rest)\<rparr>, [], [])
         else (case kcp_send ik (kc_kcp c) chunk of
                 (k, Err e) \<Rightarrow> (c\<lparr>kc_kcp := k, kc_send_task := SendIdle\<rparr>, [], [])
               | (k, Ok n) \<Rightarrow>
                   (let (k', bufs) = kcp_flush ik k in
                    (c\<lparr>kc_kcp := k', kc_update_notified := True, kc_send_task := SendChunks rest\<rparr>,
                     [chunk], handle_output_callback k' bufs)))
     | SendWaitWindow cs \<Rightarrow>
         if kc_send_notified c then (c\<lparr>kc_send_notified := False, kc_send_task := SendChunks cs\<rparr>, [], [])
         else (c, [], [])
     | SendDrain \<Rightarrow>
         if kcp_waitsnd ik (kc_kcp c) > 0
         then (c\<lparr>kc_waiting_new_send_window := True, kc_send_task := SendWaitDrain\<rparr>, [], [])
         else (c\<lparr>kc_send_closed_notified := True, kc_send_task := SendDone\<rparr>, [], [])
     | SendWaitDrain \<Rightarrow>
         if kc_send_notified c then (c\<lparr>kc_send_notified := False, kc_send_task := SendDrain\<rparr>, [], [])
         else (c, [], [])
     | SendDone \<Rightarrow> (c, [], []))"

text \<open>
  The receive task. \<open>capacity\<close> is the buffer capacity before the step; \<open>reserve\<close> makes it at
  least the requested amount. \<open>send_ok\<close> is the outcome of handing the buffer to the channel.
\<close>

definition recv_task_step ::
    "'k ikcp \<Rightarrow> nat \<Rightarrow> bool \<Rightarrow> 'k kcp_conn \<Rightarrow> 'k kcp_conn \<times> bytes option" where
  "recv_task_step ik capacity send_ok c =
    (case kc_recv_task c of
       RecvLoop \<Rightarrow>
         if kc_recv_closed c then (c\<lparr>kc_recv_task := RecvDone\<rparr>, None)
         else let peeksize = kcp_peeksize ik (kc_kcp c) in
         if peeksize \<le> 0 then (c\<lparr>kc_recv_task := RecvWait\<rparr>, None)
         else let cap = (if capacity < nat peeksize then max (nat peeksize) 4096 else capacity) in
         (case kcp_recv ik (kc_kcp c) cap of
            (k, Err e) \<Rightarrow> (c\<lparr>kc_kcp := k\<rparr>, None)
          | (k, Ok buf) \<Rightarrow>
              if buf = [] then (c\<lparr>kc_kcp := k, kc_recv_task := RecvPanic\<rparr>, None)
              else if send_ok then (c\<lparr>kc_kcp := k\<rparr>, Some buf)
              else (c\<lparr>kc_kcp := k, kc_recv_task := RecvDone\<rparr>, None))
     | RecvWait \<Rightarrow>
         if kc_recv_notified c then (c\<lparr>kc_recv_notified := False, kc_recv_task := RecvLoop\<rparr>, None)
         else (c, None)
     | RecvPanic \<Rightarrow> (c, None)
     | RecvDone \<Rightarrow> (c, None))"

definition conn_handle_input :: "'k ikcp \<Rightarrow> 'k kcp_conn \<Rightarrow> kcp_packet \<Rightarrow> 'k kcp_conn \<times> (unit, kcp_error) result" where
  "conn_handle_input ik c p =
    (case kcp_handle_input ik (kc_kcp c) (pk_payload p) of
       (k, Err e) \<Rightarrow> (c\<lparr>kc_kcp := k\<rparr>, Err e)
     | (k, Ok _) \<Rightarrow> (c\<lparr>kc_kcp := k, kc_has_new_input := True, kc_update_notified := True\<rparr>, Ok ()))"

definition take_send_sender :: "'k kcp_conn \<Rightarrow> 'k kcp_conn \<times> bool" where
  "take_send_sender c = (c\<lparr>kc_send_sender := False\<rparr>, kc_send_sender c)"

definition take_recv_receiver :: "'k kcp_conn \<Rightarrow> 'k kcp_conn \<times> bool" where
  "take_recv_receiver c = (c\<lparr>kc_recv_receiver := False\<rparr>, kc_recv_receiver c)"

definition close_recv :: "'k kcp_conn \<Rightarrow> 'k kcp_conn" where
  "close_recv c = c\<lparr>kc_recv_closed := True, kc_recv_notified := True\<rparr>"

definition drop_conn :: "'k kcp_conn \<Rightarrow> 'k kcp_conn" where
  "drop_conn c = c\<lparr>kc_send_closed_notified := True\<rparr>"

subsection \<open>The byte stream\<close>

text \<open>
  \<open>poll_read\<close> against the buffers the receive channel holds (\<open>rq\<close>) and whether its sender is
  gone. The result is what was put into the caller's buffer, the new leftover, the buffers left
  in the channel and the poll outcome; \<open>ReadPanic\<close> is the failed assertion.
\<close>

datatype read_poll = ReadReady | ReadBroken | ReadPending | ReadPanic

fun poll_read_loop ::
    "nat \<Rightarrow> bool \<Rightarrow> bool \<Rightarrow> bytes list \<Rightarrow> bytes \<times> bytes option \<times> bytes list \<times> read_poll" where
  "poll_read_loop remaining partial_recved closed [] =
     ([], None, [], if partial_recved then ReadReady else if closed then ReadBroken else ReadPending)"
| "poll_read_loop remaining partial_recved closed (read_buf # rq) =
     (let len = min remaining (length read_buf);
          partial = (if len < length read_buf then Some (drop len read_buf) else None) in
      if remaining - len = 0 then (take len read_buf, partial, rq, ReadReady)
      else (case poll_read_loop (remaining - len) True closed rq of
              (out, partial', rq', r) \<Rightarrow> (take len read_buf @ out, partial', rq', r)))"

definition poll_read ::
    "nat \<Rightarrow> bytes option \<Rightarrow> bool \<Rightarrow> bytes list \<Rightarrow> bytes \<times> bytes option \<times> bytes list \<times> read_poll" where
  "poll_read remaining partial_recv_buf closed rq =
    (case partial_recv_buf of
       None \<Rightarrow> poll_read_loop remaining False closed rq
     | Some pb \<Rightarrow>
         if pb = [] then ([], Some pb, rq, ReadPanic)
         else let len = min remaining (length pb);
                  partial = (if drop len pb = [] then None else Some (drop len pb)) in
         if remaining - len = 0 then (take len pb, partial, rq, ReadReady)
         else (case poll_read_loop (remaining - len) True closed rq of
                 (out, partial', rq', r) \<Rightarrow> (take len pb @ out, partial', rq', r)))"

datatype write_poll = WritePending | WriteReady nat | WriteBroken

text \<open>\<open>poll_write\<close>: \<open>reserve\<close> is the outcome of reserving a slot (\<open>None\<close>: not ready), \<open>sent\<close> of filling it.\<close>

definition poll_write :: "bool option \<Rightarrow> bool \<Rightarrow> bytes \<Rightarrow> write_poll \<times> bytes list" where
  "poll_write reserve sent buf =
    (case reserve of
       None \<Rightarrow> (WritePending, [])
     | Some ok \<Rightarrow> if ok \<and> sent then (WriteReady (length buf), [buf]) else (WriteBroken, []))"

subsection \<open>Output packets\<close>

lemma conn_id_from_fill [simp]: "conn_id_from (fill_packet_header cid p) = cid"
  by (simp add: conn_id_from_def fill_packet_header_def mut_header_def id_defs)

lemma fill_packet_header_flag [simp]: "ph_flag (pk_header (fill_packet_header cid p)) = ph_flag (pk_header p)"
  by (simp add: fill_packet_header_def mut_header_def id_defs)

lemma fill_packet_header_payload [simp]: "pk_payload (fill_packet_header cid p) = pk_payload p"
  by (simp add: fill_packet_header_def mut_header_def)

lemma flags_of_fill [simp]:
  "flags_of (kcp_packet_flags capacity) (fill_packet_header cid p) = flags_of (kcp_packet_flags capacity) p"
  by (simp add: flags_of_def kcp_packet_flags_def flag_defs)

lemma output_packet_shape:
  "data_packet (kcp_packet_flags capacity) (output_packet cid data)
   \<and> conn_id_from (output_packet cid data) = cid \<and> pk_payload (output_packet cid data) = data"
  by (simp add: output_packet_def data_packet_def flags_of_def kcp_packet_flags_def flag_defs
      mut_header_def packet_new_with_payload_def header_default_def contains_put_flag contains_no_flag
      conn_id_from_def fill_packet_header_def id_defs del: flag_bits.simps)

subsection \<open>Chunking and the send task\<close>

lemma concat_chunks: "0 < n \<Longrightarrow> concat (chunks n xs) = xs"
  by (induction n xs rule: chunks.induct) (subst chunks.simps, auto)

lemma chunks_lengths: "c \<in> set (chunks n xs) \<Longrightarrow> 0 < length c \<and> length c \<le> n"
proof (induction n xs rule: chunks.induct)
  case (1 n xs)
  then show ?case by (cases "xs = [] \<or> n = 0") (auto simp: chunks.simps [of n xs])
qed

lemma min_127_mult_mss_bound: "min 127 c * unat (w :: u32) < 2 ^ 64"
proof -
  have "unat w < 2 ^ 32" using unsigned_less [of w] by simp
  then have "min 127 c * unat w \<le> 127 * 2 ^ 32" by (intro mult_mono) auto
  then show ?thesis by simp
qed

lemma unat_min_u32: "unat (min (a :: u32) b) = min (unat a) (unat b)"
  by (simp add: min_def word_le_nat_alt)

lemma unat_max_usize: "unat (max (a :: usize) b) = max (unat a) (unat b)"
  by (simp add: max_def word_le_nat_alt)

lemma unat_ucast_usize: "unat (ucast (w :: u32) :: usize) = unat w"
proof -
  have "unat w < 2 ^ 32" using unsigned_less [of w] by simp
  then show ?thesis by (simp add: unsigned_ucast_eq take_bit_nat_eq_self)
qed

lemma unat_max_chunk_size:
  "unat (max_chunk_size ik k) =
     max 1024 (min 127 (min (unat (ikcp_snd_wnd ik (k_kcp k))) (unat (ikcp_rcv_wnd ik (k_kcp k))))
                 * unat (ikcp_mss ik (k_kcp k)))"
  using min_127_mult_mss_bound
  by (simp add: max_chunk_size_def Let_def unat_max_usize unat_word_ariths unat_ucast_usize
      unat_min_u32 max.commute)

lemma max_chunk_size_pos: "0 < unat (max_chunk_size ik k)"
  by (simp add: unat_max_chunk_size)

fun send_pending :: "send_task \<Rightarrow> bytes list" where
  "send_pending (SendChunks cs) = cs"
| "send_pending (SendWaitWindow cs) = cs"
| "send_pending _ = []"

definition send_consumed :: "send_task \<Rightarrow> bytes option \<Rightarrow> bytes" where
  "send_consumed s incoming = (if s = SendIdle then opt_or [] incoming else [])"

text \<open>
  What the send task relies on: \<open>ikcp_send\<close> accepts a buffer of at most 127 segments (it refuses one whose fragments
  would fill its receive window of 128), and neither it nor \<open>ikcp_flush\<close> changes the size of a segment, which only
  \<open>ikcp_setmtu\<close> does.
\<close>

abbreviation conn_mss :: "'k ikcp \<Rightarrow> 'k kcp_conn \<Rightarrow> nat" where
  "conn_mss ik c \<equiv> unat (ikcp_mss ik (k_kcp (kc_kcp c)))"

definition ikcp_fragments :: "'k ikcp \<Rightarrow> bool" where
  "ikcp_fragments ik \<longleftrightarrow>
     (\<forall>cb d. length d \<le> 127 * unat (ikcp_mss ik cb) \<longrightarrow> 0 \<le> snd (ikcp_send ik cb d))
   \<and> (\<forall>cb d. ikcp_mss ik (fst (ikcp_send ik cb d)) = ikcp_mss ik cb)
   \<and> (\<forall>cb. ikcp_mss ik (fst (ikcp_flush ik cb)) = ikcp_mss ik cb)"

lemma ikcp_fragmentsD:
  assumes "ikcp_fragments ik"
  shows "length d \<le> 127 * unat (ikcp_mss ik cb) \<Longrightarrow> 0 \<le> snd (ikcp_send ik cb d)"
    and "ikcp_mss ik (fst (ikcp_send ik cb d)) = ikcp_mss ik cb" and "ikcp_mss ik (fst (ikcp_flush ik cb)) = ikcp_mss ik cb"
  using assms by (auto simp: ikcp_fragments_def)

definition chunks_fit :: "'k ikcp \<Rightarrow> 'k kcp_conn \<Rightarrow> bytes list \<Rightarrow> bool" where
  "chunks_fit ik c cs \<longleftrightarrow> (\<forall>ch \<in> set cs. length ch \<le> 127 * conn_mss ik c)"

text \<open>A chunk has at most 127 segments, unless the size of a segment is so small that the least chunk of 1024 bytes has more.\<close>

lemma max_chunk_size_fits:
  assumes "9 \<le> unat (ikcp_mss ik (k_kcp k))"
  shows "unat (max_chunk_size ik k) \<le> 127 * unat (ikcp_mss ik (k_kcp k))"
proof -
  have "min 127 n * unat (ikcp_mss ik (k_kcp k)) \<le> 127 * unat (ikcp_mss ik (k_kcp k))" for n
    by (intro mult_right_mono) simp_all
  with assms show ?thesis by (simp add: unat_max_chunk_size)
qed

lemma chunks_fit_chunks:
  assumes "9 \<le> conn_mss ik c"
  shows "chunks_fit ik c (chunks (unat (max_chunk_size ik (kc_kcp c))) data)"
  using chunks_lengths max_chunk_size_fits [OF assms] unfolding chunks_fit_def by (meson le_trans)

lemma send_task_step_conserves:
  assumes accept: "ikcp_fragments ik" and mss: "9 \<le> conn_mss ik c" and fit: "chunks_fit ik c (send_pending (kc_send_task c))"
    and step: "send_task_step ik incoming c = (c', sent, packets)"
  shows "concat sent @ concat (send_pending (kc_send_task c')) =
         concat (send_pending (kc_send_task c)) @ send_consumed (kc_send_task c) incoming"
    and "conn_mss ik c' = conn_mss ik c" and "chunks_fit ik c (sent @ send_pending (kc_send_task c'))"
proof -
  have "concat sent @ concat (send_pending (kc_send_task c')) =
         concat (send_pending (kc_send_task c)) @ send_consumed (kc_send_task c) incoming
       \<and> ikcp_mss ik (k_kcp (kc_kcp c')) = ikcp_mss ik (k_kcp (kc_kcp c)) \<and> chunks_fit ik c (sent @ send_pending (kc_send_task c'))"
  proof (cases "kc_send_task c")
    case SendIdle
    with step chunks_fit_chunks [OF mss] show ?thesis
      by (auto simp: send_task_step_def send_consumed_def opt_or_def concat_chunks max_chunk_size_pos chunks_fit_def
          split: option.splits)
  next
    case (SendChunks cs)
    show ?thesis
    proof (cases cs)
      case Nil
      with SendChunks step show ?thesis by (auto simp: send_task_step_def send_consumed_def chunks_fit_def)
    next
      case (Cons chunk rest)
      let ?r = "ikcp_send ik (k_kcp (kc_kcp c)) chunk"
      have "length chunk \<le> 127 * conn_mss ik c" using fit SendChunks Cons by (simp add: chunks_fit_def)
      then have "0 \<le> snd ?r" by (rule ikcp_fragmentsD [OF accept])
      moreover obtain cb ret cb' bufs where "?r = (cb, ret)" "ikcp_flush ik cb = (cb', bufs)"
        by (cases ?r, cases "ikcp_flush ik (fst ?r)") auto
      moreover from this have "ikcp_mss ik cb' = ikcp_mss ik (k_kcp (kc_kcp c))"
        using ikcp_fragmentsD(2) [OF accept, of "k_kcp (kc_kcp c)" chunk] ikcp_fragmentsD(3) [OF accept, of cb] by simp
      ultimately show ?thesis using Cons SendChunks step fit
        by (auto simp: send_task_step_def send_consumed_def kcp_send_def kcp_flush_def chunks_fit_def split: if_splits)
    qed
  qed (use step fit in \<open>auto simp: send_task_step_def send_consumed_def chunks_fit_def split: if_splits\<close>)
  then show "concat sent @ concat (send_pending (kc_send_task c')) =
         concat (send_pending (kc_send_task c)) @ send_consumed (kc_send_task c) incoming"
    and "conn_mss ik c' = conn_mss ik c" and "chunks_fit ik c (sent @ send_pending (kc_send_task c'))" by simp_all
qed

text \<open>
  A run of the send task: its own steps, interleaved with anything else that happens to the
  connection (updates, input, notifications), which leaves the size of a segment alone. It collects the bytes taken from
  the channel and the chunks handed to the control block.
\<close>

inductive send_exec :: "'k ikcp \<Rightarrow> 'k kcp_conn \<Rightarrow> bytes \<Rightarrow> bytes list \<Rightarrow> 'k kcp_conn \<Rightarrow> bool" for ik c where
  send_exec_init: "send_exec ik c [] [] c"
| send_exec_step: "send_exec ik c written sent d \<Longrightarrow> send_task_step ik incoming d = (e, chs, packets)
     \<Longrightarrow> send_exec ik c (written @ send_consumed (kc_send_task d) incoming) (sent @ chs) e"
| send_exec_env: "send_exec ik c written sent d \<Longrightarrow> kc_send_task e = kc_send_task d
     \<Longrightarrow> ikcp_mss ik (k_kcp (kc_kcp e)) = ikcp_mss ik (k_kcp (kc_kcp d)) \<Longrightarrow> send_exec ik c written sent e"

lemma send_exec_conserves:
  assumes "send_exec ik c written sent d"
    and "ikcp_fragments ik" and "9 \<le> conn_mss ik c" and "kc_send_task c = SendIdle"
  shows "concat sent @ concat (send_pending (kc_send_task d)) = written
    \<and> conn_mss ik d = conn_mss ik c \<and> chunks_fit ik c (sent @ send_pending (kc_send_task d))"
  using assms(1)
proof induction
  case send_exec_init
  then show ?case by (simp add: assms(4) chunks_fit_def)
next
  case (send_exec_step written sent d incoming e chs packets)
  have "9 \<le> conn_mss ik d" "chunks_fit ik d (send_pending (kc_send_task d))"
    using send_exec_step(3) assms(3) by (simp_all add: chunks_fit_def)
  note step = send_task_step_conserves [OF assms(2) this send_exec_step(2)]
  have "concat (sent @ chs) @ concat (send_pending (kc_send_task e)) = written @ send_consumed (kc_send_task d) incoming"
    using step(1) send_exec_step(3) by (metis append.assoc concat_append)
  with step(2,3) send_exec_step(3) show ?case by (auto simp: chunks_fit_def)
next
  case (send_exec_env written sent d e)
  then show ?case by (simp add: chunks_fit_def)
qed

subsection \<open>Reading from the stream\<close>

definition stream_bytes :: "bytes option \<Rightarrow> bytes list \<Rightarrow> bytes" where
  "stream_bytes partial rq = opt_or [] partial @ concat rq"

lemma poll_read_loop_lossless:
  assumes "poll_read_loop remaining pr closed rq = (out, partial, rq', r)"
  shows "out @ stream_bytes partial rq' = concat rq \<and> length out \<le> remaining \<and> partial \<noteq> Some []"
  using assms
proof (induction rq arbitrary: remaining pr out partial rq' r)
  case (Cons b rq)
  show ?case
  proof (cases "remaining - min remaining (length b) = 0")
    case True
    with Cons.prems show ?thesis
      by (auto simp: stream_bytes_def opt_or_def Let_def split: if_splits)
  next
    case False
    obtain out1 where rec: "poll_read_loop (remaining - length b) True closed rq = (out1, partial, rq', r)"
      and out: "out = b @ out1"
      using Cons.prems False by (auto simp: Let_def split: prod.splits)
    show ?thesis using Cons.IH [OF rec] out False by auto
  qed
qed (auto simp: stream_bytes_def opt_or_def)

lemma poll_read_loop_result:
  assumes "poll_read_loop remaining pr closed rq = (out, partial, rq', r)"
  shows "(r = ReadReady \<longleftrightarrow> pr \<or> rq \<noteq> [])
       \<and> (r = ReadPending \<longleftrightarrow> \<not> pr \<and> rq = [] \<and> \<not> closed)
       \<and> (r = ReadBroken \<longleftrightarrow> \<not> pr \<and> rq = [] \<and> closed)"
  using assms
proof (induction rq arbitrary: remaining pr out partial rq' r)
  case (Cons b rq)
  show ?case
  proof (cases "remaining - min remaining (length b) = 0")
    case True
    with Cons.prems show ?thesis by (auto simp: Let_def)
  next
    case False
    obtain out1 where rec: "poll_read_loop (remaining - length b) True closed rq = (out1, partial, rq', r)"
      using Cons.prems False by (auto simp: Let_def split: prod.splits)
    show ?thesis using Cons.IH [OF rec] by auto
  qed
qed (auto split: if_splits)

lemma poll_read_lossless_aux:
  assumes "poll_read remaining partial closed rq = (out, partial', rq', r)"
  shows "out @ stream_bytes partial' rq' = stream_bytes partial rq"
    and "length out \<le> remaining" and "partial \<noteq> Some [] \<Longrightarrow> partial' \<noteq> Some []"
proof -
  have "out @ stream_bytes partial' rq' = stream_bytes partial rq \<and> length out \<le> remaining
      \<and> (partial \<noteq> Some [] \<longrightarrow> partial' \<noteq> Some [])"
  proof (cases partial)
    case None
    with assms poll_read_loop_lossless [of remaining False closed rq out partial' rq' r]
    show ?thesis by (simp add: poll_read_def stream_bytes_def opt_or_def)
  next
    case (Some pb)
    show ?thesis
    proof (cases "pb = [] \<or> remaining - min remaining (length pb) = 0")
      case True
      with Some assms show ?thesis
        by (auto simp: poll_read_def stream_bytes_def opt_or_def Let_def split: if_splits)
    next
      case False
      then obtain out1 where
        rec: "poll_read_loop (remaining - length pb) True closed rq = (out1, partial', rq', r)"
        and out: "out = pb @ out1"
        using Some assms by (auto simp: poll_read_def Let_def split: prod.splits)
      show ?thesis
        using poll_read_loop_lossless [OF rec] out Some False
        by (auto simp: stream_bytes_def opt_or_def)
    qed
  qed
  then show "out @ stream_bytes partial' rq' = stream_bytes partial rq"
    and "length out \<le> remaining" and "partial \<noteq> Some [] \<Longrightarrow> partial' \<noteq> Some []"
    by auto
qed

lemma poll_read_result:
  assumes "poll_read remaining partial closed rq = (out, partial', rq', r)" and "partial \<noteq> Some []"
  shows "(r = ReadReady \<longleftrightarrow> partial \<noteq> None \<or> rq \<noteq> [])
       \<and> (r = ReadPending \<longleftrightarrow> partial = None \<and> rq = [] \<and> \<not> closed)
       \<and> (r = ReadBroken \<longleftrightarrow> partial = None \<and> rq = [] \<and> closed)"
proof (cases partial)
  case None
  with assms poll_read_loop_result [of remaining False closed rq out partial' rq' r]
  show ?thesis by (simp add: poll_read_def)
next
  case (Some pb)
  show ?thesis
  proof (cases "remaining - min remaining (length pb) = 0")
    case True
    with Some assms show ?thesis by (auto simp: poll_read_def Let_def)
  next
    case False
    then obtain out1 where rec: "poll_read_loop (remaining - length pb) True closed rq = (out1, partial', rq', r)"
      using Some assms by (auto simp: poll_read_def Let_def split: prod.splits)
    show ?thesis using poll_read_loop_result [OF rec] Some by auto
  qed
qed

lemma poll_read_loop_fills:
  assumes "poll_read_loop remaining pr closed rq = (out, partial, rq', r)"
    and "stream_bytes partial rq' \<noteq> []"
  shows "length out = remaining"
  using assms
proof (induction rq arbitrary: remaining pr out partial rq' r)
  case (Cons b rq)
  show ?case
  proof (cases "remaining - min remaining (length b) = 0")
    case True
    with Cons.prems show ?thesis by (auto simp: Let_def)
  next
    case False
    obtain out1 where rec: "poll_read_loop (remaining - length b) True closed rq = (out1, partial, rq', r)"
      and "out = b @ out1"
      using Cons.prems False by (auto simp: Let_def split: prod.splits)
    with Cons.IH [OF rec Cons.prems(2)] False show ?thesis by auto
  qed
qed (simp add: stream_bytes_def opt_or_def)

lemma poll_read_fills:
  assumes "poll_read remaining partial closed rq = (out, partial', rq', r)" and "partial \<noteq> Some []"
    and "stream_bytes partial' rq' \<noteq> []"
  shows "length out = remaining"
proof (cases partial)
  case None
  with assms poll_read_loop_fills [of remaining False closed rq out partial' rq' r]
  show ?thesis by (simp add: poll_read_def)
next
  case (Some pb)
  show ?thesis
  proof (cases "remaining - min remaining (length pb) = 0")
    case True
    with Some assms show ?thesis by (auto simp: poll_read_def Let_def)
  next
    case False
    then obtain out1 where rec: "poll_read_loop (remaining - length pb) True closed rq = (out1, partial', rq', r)"
      and "out = pb @ out1"
      using Some assms by (auto simp: poll_read_def Let_def split: prod.splits)
    with poll_read_loop_fills [OF rec assms(3)] False show ?thesis by auto
  qed
qed

text \<open>A sequence of reads: before each poll some more buffers may have arrived in the channel.\<close>

fun read_run :: "(bytes list \<times> nat \<times> bool) list \<Rightarrow> bytes option \<Rightarrow> bytes list \<Rightarrow> bytes \<times> bytes option \<times> bytes list" where
  "read_run [] partial rq = ([], partial, rq)"
| "read_run ((arrived, remaining, closed) # polls) partial rq =
     (case poll_read remaining partial closed (rq @ arrived) of
        (out, partial', rq', r) \<Rightarrow>
          (case read_run polls partial' rq' of (outs, pq) \<Rightarrow> (out @ outs, pq)))"

lemma read_run_lossless:
  "read_run polls partial rq = (out, partial', rq') \<Longrightarrow>
     out @ stream_bytes partial' rq' = stream_bytes partial rq @ concat (concat (map fst polls))"
proof (induction polls partial rq arbitrary: out rule: read_run.induct)
  case (2 arrived remaining closed polls partial rq)
  obtain o1 p1 q1 r1 where one: "poll_read remaining partial closed (rq @ arrived) = (o1, p1, q1, r1)"
    by (cases "poll_read remaining partial closed (rq @ arrived)") auto
  obtain o2 where rest: "read_run polls p1 q1 = (o2, partial', rq')" and out: "out = o1 @ o2"
    using "2.prems" one by (auto split: prod.splits)
  have "o2 @ stream_bytes partial' rq' = stream_bytes p1 q1 @ concat (concat (map fst polls))"
    using "2.IH" [OF one [symmetric] refl refl rest] .
  with poll_read_lossless_aux(1) [OF one] out show ?case
    by (simp add: stream_bytes_def)
qed (simp add: stream_bytes_def)

subsection \<open>Properties\<close>

text \<open>
  The buffer given to the send task is cut into non-empty chunks that make it up in order, and
  the chunk size, computed on machine words, is exactly the larger of 1024 and the segment size
  times the window capped at 127 segments: the product never wraps and the size is never zero.
\<close>

theorem send_chunks_partition:
  "unat (max_chunk_size ik k) =
     max 1024 (min 127 (min (unat (ikcp_snd_wnd ik (k_kcp k))) (unat (ikcp_rcv_wnd ik (k_kcp k))))
                 * unat (ikcp_mss ik (k_kcp k)))
   \<and> concat (chunks (unat (max_chunk_size ik k)) data) = data
   \<and> list_all (\<lambda>c. 0 < length c \<and> length c \<le> unat (max_chunk_size ik k))
       (chunks (unat (max_chunk_size ik k)) data)"
proof (intro conjI)
  show "list_all (\<lambda>c. 0 < length c \<and> length c \<le> unat (max_chunk_size ik k))
      (chunks (unat (max_chunk_size ik k)) data)"
    unfolding list_all_iff using chunks_lengths by blast
qed (rule unat_max_chunk_size, rule concat_chunks [OF max_chunk_size_pos])

text \<open>
  C25. The send task is lossless and ordered: the chunks handed to the control block, followed by the chunks still waiting
  for window space, are exactly the bytes taken from the application's channel, for every interleaving with the other
  tasks, and none of them is longer than the 127 segments that \<open>ikcp_send\<close> accepts at most, so none is refused. The
  size of a segment must be at least nine bytes (it is 1176: the configuration sets an MTU of 1200), since a chunk may
  always have 1024.
\<close>

theorem send_task_in_order:
  assumes "send_exec ik c written sent d"
    and "ikcp_fragments ik" and "9 \<le> unat (ikcp_mss ik (k_kcp (kc_kcp c)))" and "kc_send_task c = SendIdle"
  shows "concat sent @ concat (send_pending (kc_send_task d)) = written
    \<and> (\<forall>ch \<in> set (sent @ send_pending (kc_send_task d)). length ch \<le> 127 * unat (ikcp_mss ik (k_kcp (kc_kcp c))))"
  using send_exec_conserves [OF assms] by (simp add: chunks_fit_def)

definition demo_ikcp :: "bytes ikcp" where
  "demo_ikcp = \<lparr>ikcp_create = (\<lambda>_. Some []), ikcp_set_stream = id, ikcp_setmtu = (\<lambda>k _. (k, 0)),
     ikcp_wndsize = (\<lambda>k _ _. (k, 0)), ikcp_nodelay = (\<lambda>k _ _ _ _. (k, 0)), ikcp_set_interval = (\<lambda>k _. k),
     ikcp_input = (\<lambda>k d. (k @ d, 0)), ikcp_update = (\<lambda>k _. (k, [])), ikcp_check = (\<lambda>_ t. t),
     ikcp_send = (\<lambda>k d. (k, if length d \<le> 127 * 1176 then int (length d) else -2)), ikcp_flush = (\<lambda>k. (k, [])),
     ikcp_peeksize = (\<lambda>k. int (length k)), ikcp_recv = (\<lambda>k n. (drop n k, int (length (take n k)), take n k)),
     ikcp_waitsnd = (\<lambda>_. 0), ikcp_mss = (\<lambda>_. 1176), ikcp_snd_wnd = (\<lambda>_. 1024), ikcp_rcv_wnd = (\<lambda>_. 1024)\<rparr>"

definition demo_conn :: "bytes kcp_conn" where
  "demo_conn = \<lparr>kc_conn_id = \<lparr>ci_conv = 1, ci_src_session_id = 0, ci_dst_session_id = 0\<rparr>,
     kc_kcp = \<lparr>k_kcp = [], k_config = config_new_turbo 1, k_now = 0, k_output_cb = None\<rparr>,
     kc_update_notified = False, kc_recv_notified = False, kc_send_notified = False,
     kc_has_new_input = False, kc_waiting_new_send_window = False, kc_send_sender = True,
     kc_recv_receiver = True, kc_send_closed_notified = False, kc_recv_closed = False,
     kc_send_task = SendIdle, kc_recv_task = RecvLoop\<rparr>"

theorem send_task_in_order_witness:
  "concat (send_pending (kc_send_task (fst (send_task_step demo_ikcp (Some [1, 2, 3]) demo_conn)))) = [1, 2, 3]"
proof -
  obtain e chs packets where step: "send_task_step demo_ikcp (Some [1, 2, 3]) demo_conn = (e, chs, packets)"
    by (cases "send_task_step demo_ikcp (Some [1, 2, 3]) demo_conn") auto
  have "chs = []" using step by (simp add: send_task_step_def demo_conn_def)
  moreover have "ikcp_fragments demo_ikcp" by (simp add: ikcp_fragments_def demo_ikcp_def)
  from send_task_in_order [OF send_exec_step [OF send_exec_init step] this]
  have "concat ([] @ chs) @ concat (send_pending (kc_send_task e)) = [] @ send_consumed (kc_send_task demo_conn) (Some [1, 2, 3])"
    by (simp add: demo_ikcp_def demo_conn_def)
  ultimately show ?thesis
    using step by (simp add: send_consumed_def demo_conn_def opt_or_def)
qed

text \<open>
  Reading the stream loses nothing and reorders nothing: over any sequence of reads with any
  buffer sizes and any arrivals in between, the bytes returned, followed by the leftover and the
  buffers still queued, are the initial stream followed by everything that arrived.
\<close>

theorem read_run_in_order:
  "case read_run polls partial rq of (out, partial', rq') \<Rightarrow>
     out @ stream_bytes partial' rq' = stream_bytes partial rq @ concat (concat (map fst polls))"
  using read_run_lossless by (auto split: prod.splits)

text \<open>
  A single read never overfills the caller's buffer, fills it completely whenever data remains
  afterwards, never leaves an empty leftover (so the assertion at the start of the next read holds),
  waits only when the channel is open and empty, and reports a broken pipe only when it is closed
  and everything was delivered.
\<close>

theorem poll_read_contract:
  assumes "poll_read remaining partial closed rq = (out, partial', rq', r)" and "partial \<noteq> Some []"
  shows "length out \<le> remaining \<and> partial' \<noteq> Some [] \<and> r \<noteq> ReadPanic
    \<and> (stream_bytes partial' rq' = [] \<or> length out = remaining)
    \<and> (r = ReadPending \<longleftrightarrow> partial = None \<and> rq = [] \<and> \<not> closed)
    \<and> (r = ReadBroken \<longleftrightarrow> partial = None \<and> rq = [] \<and> closed)"
  using poll_read_lossless_aux [OF assms(1)] poll_read_result [OF assms] poll_read_fills [OF assms] assms(2)
  by (cases r) auto

theorem poll_read_contract_witness:
  "poll_read 3 (Some [1, 2]) False [[3, 4], [5]] = ([1, 2, 3], Some [4], [[5]], ReadReady)
   \<and> stream_bytes (Some [4]) [[5]] \<noteq> []"
proof -
  have eq: "poll_read 3 (Some [1, 2]) False [[3, 4], [5]] = ([1, 2, 3], Some [4], [[5]], ReadReady)"
    by (simp add: poll_read_def Let_def)
  with poll_read_contract [OF eq] show ?thesis by (simp add: stream_bytes_def)
qed

end
