(* ===== verification/Kcp_Endpoint.thy ===== *)
theory Kcp_Endpoint
  imports Kcp_Connection
begin

text \<open>
  The KCP endpoint, \<open>libs/kcp-sys/src/endpoint.rs\<close>: the per-connection protocol state, the packet
  receive loop with its keep-alive handling, the cleaning and ping tasks, connecting and accepting,
  and the datagram guard of \<open>src/kcp_stream.rs\<close> in front of it.

  Every task body between two waiting points is one operation on the endpoint; times are in
  milliseconds. \<open>ep_output\<close> collects the packets handed to the output channel (a send to a
  dropped receiver is only logged by the code); \<open>ep_new_conn\<close> is the bounded queue that
  \<open>accept\<close> reads.
\<close>

subsection \<open>Connection state\<close>

record conn_state =
  cs_fsm :: kcp_fsm
  cs_notified :: bool
  cs_conn_data :: bytes
  cs_last_pong :: nat

definition conn_state_new :: "nat \<Rightarrow> kcp_fsm \<Rightarrow> conn_state" where
  "conn_state_new now fsm = \<lparr>cs_fsm = fsm, cs_notified = False, cs_conn_data = [], cs_last_pong = now\<rparr>"

definition notify_pong :: "nat \<Rightarrow> conn_state \<Rightarrow> conn_state" where
  "notify_pong now st = st\<lparr>cs_last_pong := now\<rparr>"

definition state_handle_packet ::
    "(nat \<Rightarrow> nat) \<Rightarrow> nat \<Rightarrow> conn_state \<Rightarrow> kcp_packet \<Rightarrow> conn_state \<times> kcp_packet option" where
  "state_handle_packet capacity now st p =
    (let st = notify_pong now st;
         old_state = cs_fsm st;
         (fsm, out_packet, _) = fsm_handle_packet (kcp_packet_flags capacity) (cs_fsm st) p None in
     if old_state \<noteq> fsm then (st\<lparr>cs_fsm := fsm, cs_notified := True\<rparr>, out_packet)
     else (st\<lparr>cs_fsm := fsm\<rparr>, None))"

definition is_established :: "conn_state \<Rightarrow> bool" where
  "is_established st \<longleftrightarrow> cs_fsm st = FsmEstablished"
definition is_peer_closed :: "conn_state \<Rightarrow> bool" where
  "is_peer_closed st \<longleftrightarrow> cs_fsm st = FsmPeerClosed \<or> cs_fsm st = FsmClosed"
definition is_local_closed :: "conn_state \<Rightarrow> bool" where
  "is_local_closed st \<longleftrightarrow> cs_fsm st = FsmLocalClosed \<or> cs_fsm st = FsmClosed"
definition is_closed :: "conn_state \<Rightarrow> bool" where
  "is_closed st \<longleftrightarrow> cs_fsm st = FsmClosed"
definition set_conn_data :: "bytes \<Rightarrow> conn_state \<Rightarrow> conn_state" where
  "set_conn_data d st = st\<lparr>cs_conn_data := d\<rparr>"
definition is_pong_timeout :: "nat \<Rightarrow> conn_state \<Rightarrow> bool" where
  "is_pong_timeout now st \<longleftrightarrow> now - cs_last_pong st > 60 * 1000"

lemmas conn_state_defs = is_established_def is_peer_closed_def is_local_closed_def is_closed_def
  set_conn_data_def is_pong_timeout_def notify_pong_def conn_state_new_def

subsection \<open>The endpoint\<close>

record 'k endpoint =
  ep_cur_conv :: u32
  ep_conn_map :: "(conn_id, 'k kcp_conn) hmap"
  ep_state_map :: "(conn_id, conn_state) hmap"
  ep_output :: "kcp_packet list"
  ep_output_open :: bool
  ep_new_conn :: "conn_id list"

definition endpoint_new :: "u32 \<Rightarrow> 'k endpoint" where
  "endpoint_new random_conv = \<lparr>ep_cur_conv = random_conv, ep_conn_map = [], ep_state_map = [],
     ep_output = [], ep_output_open = True, ep_new_conn = []\<rparr>"

definition NEW_CONN_CAPACITY :: nat where "NEW_CONN_CAPACITY = 4"

definition output_send :: "kcp_packet \<Rightarrow> 'k endpoint \<Rightarrow> 'k endpoint" where
  "output_send p e = (if ep_output_open e then e\<lparr>ep_output := ep_output e @ [p]\<rparr> else e)"

definition new_conn_try_send :: "conn_id \<Rightarrow> 'k endpoint \<Rightarrow> 'k endpoint" where
  "new_conn_try_send cid e =
     (if length (ep_new_conn e) < NEW_CONN_CAPACITY then e\<lparr>ep_new_conn := ep_new_conn e @ [cid]\<rparr> else e)"

definition try_handle_pingpong :: "nat \<Rightarrow> kcp_packet \<Rightarrow> 'k endpoint \<Rightarrow> 'k endpoint \<times> bool" where
  "try_handle_pingpong now p e =
    (let h = pk_header p;
         cid = conn_id_from p;
         e1 = (if is_ping h \<and> \<not> is_pong h then
                 let need_send_pong = (case hm_get (ep_state_map e) cid of
                                         None \<Rightarrow> False | Some x \<Rightarrow> \<not> is_local_closed x);
                     out_packet = (if need_send_pong then mut_header (\<lambda>h. set_pong h True) p
                                   else mut_header (\<lambda>h. set_rst h True) (mut_header (\<lambda>h. set_ping h False) p)) in
                 output_send out_packet e
               else e);
         e2 = e1\<lparr>ep_state_map := hm_modify cid (notify_pong now) (ep_state_map e1)\<rparr> in
     (e2, is_ping h))"

text \<open>The part of the receive loop for a packet of an unknown connection, and for a known one.\<close>

definition recv_first_packet ::
    "(nat \<Rightarrow> nat) \<Rightarrow> nat \<Rightarrow> kcp_packet \<Rightarrow> conn_id \<Rightarrow> 'k endpoint \<Rightarrow> 'k endpoint \<times> kcp_packet option" where
  "recv_first_packet capacity now p cid e =
    (if is_rst (pk_header p) then (e, None)
     else case fsm_handle_packet (kcp_packet_flags capacity) fsm_listen p None of
       (fsm, out, res) \<Rightarrow>
         (if is_ok res
          then e\<lparr>ep_state_map := hm_insert cid (set_conn_data (pk_payload p) (conn_state_new now fsm)) (ep_state_map e)\<rparr>
          else e, out))"

definition recv_known_packet ::
    "(nat \<Rightarrow> nat) \<Rightarrow> nat \<Rightarrow> kcp_packet \<Rightarrow> conn_id \<Rightarrow> conn_state \<Rightarrow> 'k endpoint \<Rightarrow> 'k endpoint \<times> kcp_packet option" where
  "recv_known_packet capacity now p cid st e =
    (let (st', out) = state_handle_packet capacity now st p;
         e1 = e\<lparr>ep_state_map := hm_modify cid (\<lambda>_. st') (ep_state_map e)\<rparr>;
         e2 = (if \<not> is_established st \<and> is_established st' then new_conn_try_send cid e1 else e1);
         e3 = (if is_peer_closed st' then e2\<lparr>ep_conn_map := hm_modify cid close_recv (ep_conn_map e2)\<rparr> else e2);
         e4 = (if is_closed st' then e3\<lparr>ep_conn_map := hm_remove cid (ep_conn_map e3)\<rparr> else e3) in
     (e4, out))"

definition recv_packet ::
    "(nat \<Rightarrow> nat) \<Rightarrow> 'k ikcp \<Rightarrow> nat \<Rightarrow> kcp_packet \<Rightarrow> 'k endpoint \<Rightarrow> 'k endpoint" where
  "recv_packet capacity ik now p e =
    (let (e, handled) = try_handle_pingpong now p e in
     if handled then e
     else let cid = conn_id_from p;
              e = (if is_data (pk_header p) \<and> length (pk_payload p) > 0
                   then e\<lparr>ep_conn_map := hm_modify cid (\<lambda>c. fst (conn_handle_input ik c p)) (ep_conn_map e)\<rparr>
                   else e);
              (e, out) = (case hm_get (ep_state_map e) cid of
                            None \<Rightarrow> recv_first_packet capacity now p cid e
                          | Some st \<Rightarrow> recv_known_packet capacity now p cid st e) in
          (case out of None \<Rightarrow> e | Some q \<Rightarrow> output_send (fill_packet_header cid q) e))"

definition clean_task :: "nat \<Rightarrow> 'k endpoint \<Rightarrow> 'k endpoint" where
  "clean_task now e =
    (let sm = hm_retain (\<lambda>_ st. cs_fsm st \<noteq> FsmClosed \<and> \<not> is_pong_timeout now st) (ep_state_map e) in
     e\<lparr>ep_state_map := sm, ep_conn_map := hm_retain (\<lambda>cid _. hm_contains sm cid) (ep_conn_map e)\<rparr>)"

definition ping_packet :: "(nat \<Rightarrow> nat) \<Rightarrow> conn_id \<Rightarrow> kcp_packet" where
  "ping_packet capacity cid = mut_header (\<lambda>h. set_ping h True) (fill_packet_header cid (packet_new capacity 0))"

definition ping_task :: "(nat \<Rightarrow> nat) \<Rightarrow> 'k endpoint \<Rightarrow> 'k endpoint" where
  "ping_task capacity e =
     fold output_send
       (map (\<lambda>(cid, _). ping_packet capacity cid) (filter (\<lambda>(_, st). \<not> is_closed st) (ep_state_map e))) e"

definition add_conn :: "'k ikcp \<Rightarrow> nat \<Rightarrow> conn_id \<Rightarrow> 'k endpoint \<Rightarrow> 'k endpoint \<times> (unit, kcp_error) result" where
  "add_conn ik now cid e =
    (case kcp_connection_new ik now cid of
       Err err \<Rightarrow> (e, Err err)
     | Ok c \<Rightarrow> (e\<lparr>ep_conn_map := hm_insert cid (kcp_connection_run c) (ep_conn_map e)\<rparr>, Ok ()))"

text \<open>The task spawned by \<open>add_conn\<close>, from the moment the close notification arrives.\<close>

definition close_watcher :: "(nat \<Rightarrow> nat) \<Rightarrow> conn_id \<Rightarrow> 'k endpoint \<Rightarrow> 'k endpoint" where
  "close_watcher capacity cid e =
    (case hm_get (ep_state_map e) cid of
       None \<Rightarrow> e
     | Some st \<Rightarrow>
         (case fsm_close (kcp_packet_flags capacity) (cs_fsm st) (packet_new capacity 0) of
            (fsm, out_packet) \<Rightarrow>
              (let e1 = e\<lparr>ep_state_map := hm_modify cid (\<lambda>s. s\<lparr>cs_fsm := fsm\<rparr>) (ep_state_map e)\<rparr>;
                   e2 = output_send (fill_packet_header cid out_packet) e1 in
               if fsm = FsmClosed then e2\<lparr>ep_conn_map := hm_remove cid (ep_conn_map e2)\<rparr> else e2)))"

definition conn_sender_receiver :: "conn_id \<Rightarrow> 'k endpoint \<Rightarrow> 'k endpoint \<times> bool" where
  "conn_sender_receiver cid e =
    (case hm_get (ep_conn_map e) cid of
       None \<Rightarrow> (e, False)
     | Some c \<Rightarrow>
         (case take_send_sender c of
            (c1, False) \<Rightarrow> (e\<lparr>ep_conn_map := hm_modify cid (\<lambda>_. c1) (ep_conn_map e)\<rparr>, False)
          | (c1, True) \<Rightarrow>
              (case take_recv_receiver c1 of
                 (c2, ok) \<Rightarrow> (e\<lparr>ep_conn_map := hm_modify cid (\<lambda>_. c2) (ep_conn_map e)\<rparr>, ok))))"

definition ep_conn_data :: "conn_id \<Rightarrow> 'k endpoint \<Rightarrow> bytes option" where
  "ep_conn_data cid e = map_option cs_conn_data (hm_get (ep_state_map e) cid)"

text \<open>The search for an unused conversation number; the counter wraps around.\<close>

fun alloc_conn_id :: "nat \<Rightarrow> u32 \<Rightarrow> u32 \<Rightarrow> 'k endpoint \<Rightarrow> (conn_id \<times> 'k endpoint) option" where
  "alloc_conn_id 0 src dst e = None"
| "alloc_conn_id (Suc fuel) src dst e =
    (let cid = \<lparr>ci_conv = ep_cur_conv e, ci_src_session_id = src, ci_dst_session_id = dst\<rparr>;
         e' = e\<lparr>ep_cur_conv := ep_cur_conv e + 1\<rparr> in
     if \<not> hm_contains (ep_state_map e') cid then Some (cid, e') else alloc_conn_id fuel src dst e')"

definition alloc_fuel :: "'k endpoint \<Rightarrow> nat" where
  "alloc_fuel e = Suc (length (ep_state_map e))"

text \<open>\<open>connect\<close> up to the wait for the answer, and after it.\<close>

definition connect_begin ::
    "(nat \<Rightarrow> nat) \<Rightarrow> nat \<Rightarrow> u32 \<Rightarrow> u32 \<Rightarrow> bytes \<Rightarrow> 'k endpoint \<Rightarrow> ((conn_id, kcp_error) result \<times> 'k endpoint) option" where
  "connect_begin capacity now src dst conn_data e =
    (case alloc_conn_id (alloc_fuel e) src dst e of
       None \<Rightarrow> None
     | Some (cid, e1) \<Rightarrow>
         (case fsm_connect (kcp_packet_flags capacity) (packet_new_with_payload conn_data) of
            (fsm, out_packet) \<Rightarrow>
              (let e2 = e1\<lparr>ep_state_map :=
                     hm_insert cid (set_conn_data conn_data (conn_state_new now fsm)) (ep_state_map e1)\<rparr> in
               Some (if ep_output_open e2 then (Ok cid, output_send (fill_packet_header cid out_packet) e2)
                     else (Err (AnyhowError ''send connect packet failed''), e2)))))"

definition connect_finish ::
    "'k ikcp \<Rightarrow> nat \<Rightarrow> bool \<Rightarrow> conn_id \<Rightarrow> 'k endpoint \<Rightarrow> 'k endpoint \<times> (conn_id, kcp_error) result" where
  "connect_finish ik now timed_out cid e =
    (if timed_out then (e\<lparr>ep_state_map := hm_remove cid (ep_state_map e)\<rparr>, Err ConnectTimeout)
     else case hm_get (ep_state_map e) cid of
       None \<Rightarrow> (e, Err (AnyhowError ''connect failed''))
     | Some st \<Rightarrow>
         if cs_fsm st = FsmEstablished
         then (case add_conn ik now cid e of (e', Ok _) \<Rightarrow> (e', Ok cid) | (e', Err err) \<Rightarrow> (e', Err err))
         else (e\<lparr>ep_state_map := hm_remove cid (ep_state_map e)\<rparr>, Err (AnyhowError ''connect failed'')))"

text \<open>\<open>accept\<close> on the queued ids; \<open>None\<close> means that it goes on waiting.\<close>

fun accept_loop :: "'k ikcp \<Rightarrow> nat \<Rightarrow> conn_id list \<Rightarrow> 'k endpoint \<Rightarrow> 'k endpoint \<times> (conn_id, kcp_error) result option" where
  "accept_loop ik now [] e = (e\<lparr>ep_new_conn := []\<rparr>, None)"
| "accept_loop ik now (cid # q) e =
    (case hm_get (ep_state_map e) cid of
       None \<Rightarrow> accept_loop ik now q e
     | Some st \<Rightarrow>
         if cs_fsm st = FsmEstablished
         then (case add_conn ik now cid (e\<lparr>ep_new_conn := q\<rparr>) of
                 (e', Ok _) \<Rightarrow> (e', Some (Ok cid)) | (e', Err err) \<Rightarrow> (e', Some (Err err)))
         else accept_loop ik now q e)"

definition accept :: "'k ikcp \<Rightarrow> nat \<Rightarrow> 'k endpoint \<Rightarrow> 'k endpoint \<times> (conn_id, kcp_error) result option" where
  "accept ik now e = accept_loop ik now (ep_new_conn e) e"

text \<open>A step of one of the tasks of a connection; \<open>room\<close> tells which packets the output channel takes.\<close>

datatype conn_task = TaskUpdate | TaskSend "bytes option" | TaskRecv nat bool

fun conn_task_step :: "'k ikcp \<Rightarrow> nat \<Rightarrow> conn_task \<Rightarrow> 'k kcp_conn \<Rightarrow> 'k kcp_conn \<times> kcp_packet list" where
  "conn_task_step ik now TaskUpdate c = updater_step ik now c"
| "conn_task_step ik now (TaskSend incoming) c = (case send_task_step ik incoming c of (c', _, ps) \<Rightarrow> (c', ps))"
| "conn_task_step ik now (TaskRecv cap ok) c = (fst (recv_task_step ik cap ok c), [])"

definition run_conn_task ::
    "'k ikcp \<Rightarrow> nat \<Rightarrow> (kcp_packet \<Rightarrow> bool) \<Rightarrow> conn_id \<Rightarrow> conn_task \<Rightarrow> 'k endpoint \<Rightarrow> 'k endpoint" where
  "run_conn_task ik now room cid task e =
    (case hm_get (ep_conn_map e) cid of
       None \<Rightarrow> e
     | Some c \<Rightarrow>
         (case conn_task_step ik now task c of
            (c', ps) \<Rightarrow> fold output_send (filter room ps)
                         (e\<lparr>ep_conn_map := hm_modify cid (\<lambda>_. c') (ep_conn_map e)\<rparr>)))"

subsection \<open>The datagram guard\<close>

text \<open>
  The socket side of \<open>kcp_io\<close>: a received datagram is cut to the buffer, dropped when it cannot
  hold a header, and otherwise becomes a packet.
\<close>

definition kcp_io_recv :: "bytes \<Rightarrow> kcp_packet option" where
  "kcp_io_recv datagram =
    (let size = min (length datagram) 1500 in
     if size < HEADER_SIZE then None else packet_of_bytes (take size datagram))"

definition kcp_io_init :: "bytes option \<Rightarrow> kcp_packet option" where
  "kcp_io_init init_packet =
    (case init_packet of
       None \<Rightarrow> None
     | Some packet \<Rightarrow> if length packet \<ge> HEADER_SIZE then packet_of_bytes packet else None)"

subsection \<open>Operation sequences and the invariant\<close>

datatype ep_op =
    OpRecv kcp_packet | OpClean | OpPing | OpCloseWatcher conn_id
  | OpConnectBegin u32 u32 bytes | OpConnectFinish bool conn_id | OpAccept
  | OpSenderReceiver conn_id | OpConnTask "kcp_packet \<Rightarrow> bool" conn_id conn_task | OpDropOutput

fun ep_step :: "(nat \<Rightarrow> nat) \<Rightarrow> 'k ikcp \<Rightarrow> nat \<times> ep_op \<Rightarrow> 'k endpoint \<Rightarrow> 'k endpoint" where
  "ep_step capacity ik (now, OpRecv p) e = recv_packet capacity ik now p e"
| "ep_step capacity ik (now, OpClean) e = clean_task now e"
| "ep_step capacity ik (now, OpPing) e = ping_task capacity e"
| "ep_step capacity ik (now, OpCloseWatcher cid) e = close_watcher capacity cid e"
| "ep_step capacity ik (now, OpConnectBegin src dst d) e =
     (case connect_begin capacity now src dst d e of None \<Rightarrow> e | Some (_, e') \<Rightarrow> e')"
| "ep_step capacity ik (now, OpConnectFinish timed_out cid) e = fst (connect_finish ik now timed_out cid e)"
| "ep_step capacity ik (now, OpAccept) e = fst (accept ik now e)"
| "ep_step capacity ik (now, OpSenderReceiver cid) e = fst (conn_sender_receiver cid e)"
| "ep_step capacity ik (now, OpConnTask room cid task) e = run_conn_task ik now room cid task e"
| "ep_step capacity ik (now, OpDropOutput) e = e\<lparr>ep_output_open := False\<rparr>"

definition conn_ok :: "conn_id \<Rightarrow> 'k kcp_conn \<Rightarrow> bool" where
  "conn_ok cid c \<longleftrightarrow> kc_conn_id c = cid \<and> k_output_cb (kc_kcp c) = Some cid"

definition state_ok :: "conn_id \<Rightarrow> conn_state \<Rightarrow> bool" where
  "state_ok cid st \<longleftrightarrow> cs_fsm st \<noteq> FsmListen"

text \<open>
  Between operations both maps have unique keys, no stored connection is in the listening state,
  every connection object sits under its own id and sends under it, and the accept queue respects
  its capacity.
\<close>

definition ep_inv :: "'k endpoint \<Rightarrow> bool" where
  "ep_inv e \<longleftrightarrow> hm_wf (ep_state_map e) \<and> hm_wf (ep_conn_map e) \<and> hm_all state_ok (ep_state_map e)
     \<and> hm_all conn_ok (ep_conn_map e) \<and> length (ep_new_conn e) \<le> NEW_CONN_CAPACITY"

lemma ep_invI:
  assumes "hm_wf (ep_state_map e)" "hm_wf (ep_conn_map e)" "hm_all state_ok (ep_state_map e)"
    "hm_all conn_ok (ep_conn_map e)" "length (ep_new_conn e) \<le> NEW_CONN_CAPACITY"
  shows "ep_inv e"
  using assms by (simp add: ep_inv_def)

lemma ep_inv_parts:
  assumes "ep_inv e"
  shows "hm_wf (ep_state_map e)" "hm_wf (ep_conn_map e)" "hm_all state_ok (ep_state_map e)"
    "hm_all conn_ok (ep_conn_map e)" "length (ep_new_conn e) \<le> NEW_CONN_CAPACITY"
  using assms by (auto simp: ep_inv_def)

text \<open>Updates of one part keep the invariant when the new part is fine.\<close>

lemma ep_inv_state_map:
  "ep_inv e \<Longrightarrow> hm_wf m \<Longrightarrow> hm_all state_ok m \<Longrightarrow> ep_inv (e\<lparr>ep_state_map := m\<rparr>)"
  by (simp add: ep_inv_def)

lemma ep_inv_conn_map:
  "ep_inv e \<Longrightarrow> hm_wf m \<Longrightarrow> hm_all conn_ok m \<Longrightarrow> ep_inv (e\<lparr>ep_conn_map := m\<rparr>)"
  by (simp add: ep_inv_def)

lemma ep_inv_irrelevant [simp]:
  "ep_inv (e\<lparr>ep_output := x\<rparr>) = ep_inv e"
  "ep_inv (e\<lparr>ep_output_open := b\<rparr>) = ep_inv e"
  "ep_inv (e\<lparr>ep_cur_conv := v\<rparr>) = ep_inv e"
  by (simp_all add: ep_inv_def)

lemma output_send_inv [simp]: "ep_inv (output_send p e) = ep_inv e"
  by (simp add: output_send_def)

lemma output_send_fields [simp]:
  "ep_state_map (output_send p e) = ep_state_map e"
  "ep_conn_map (output_send p e) = ep_conn_map e"
  "ep_new_conn (output_send p e) = ep_new_conn e"
  "ep_cur_conv (output_send p e) = ep_cur_conv e"
  "ep_output_open (output_send p e) = ep_output_open e"
  by (simp_all add: output_send_def)

lemma fold_output_send_inv [simp]: "ep_inv (fold output_send ps e) = ep_inv e"
  by (induction ps arbitrary: e) simp_all

lemma new_conn_try_send_inv: "ep_inv e \<Longrightarrow> ep_inv (new_conn_try_send cid e)"
  by (simp add: new_conn_try_send_def ep_inv_def)

lemma state_handle_not_listen:
  assumes "cs_fsm st \<noteq> FsmListen"
  shows "cs_fsm (fst (state_handle_packet capacity now st p)) \<noteq> FsmListen"
proof -
  have "fsm_rank (cs_fsm st) \<noteq> 0" using assms by (cases "cs_fsm st") auto
  then have "fst (fsm_handle_packet fo (cs_fsm st) p None) \<noteq> FsmListen" for fo
    using fsm_handle_rank [of "cs_fsm st" fo p None] by auto
  then show ?thesis
    by (auto simp: state_handle_packet_def notify_pong_def Let_def split: prod.splits) (metis fst_conv)+
qed

lemma try_handle_pingpong_inv: "ep_inv e \<Longrightarrow> ep_inv (fst (try_handle_pingpong now p e))"
  unfolding try_handle_pingpong_def Let_def fst_conv
  by (intro ep_inv_state_map) (auto simp: ep_inv_parts state_ok_def notify_pong_def)

lemma conn_ok_handle_input: "conn_ok cid c \<Longrightarrow> conn_ok cid (fst (conn_handle_input ik c p))"
  by (auto simp: conn_ok_def conn_handle_input_def kcp_handle_input_def split: prod.splits result.splits)

lemma close_recv_inv:
  "ep_inv e \<Longrightarrow> ep_inv (e\<lparr>ep_conn_map := hm_modify cid close_recv (ep_conn_map e)\<rparr>)"
  by (rule ep_inv_conn_map) (auto simp: ep_inv_parts conn_ok_def close_recv_def)

lemma remove_conn_inv: "ep_inv e \<Longrightarrow> ep_inv (e\<lparr>ep_conn_map := hm_remove cid (ep_conn_map e)\<rparr>)"
  by (rule ep_inv_conn_map) (auto simp: ep_inv_parts)

lemma recv_first_packet_inv: "ep_inv e \<Longrightarrow> ep_inv (fst (recv_first_packet capacity now p cid e))"
  unfolding recv_first_packet_def
  by (auto simp: ep_inv_parts state_ok_def conn_state_defs fsm_listen_def fsm_handle_packet_def
      split: prod.splits if_splits intro!: ep_inv_state_map)

lemma recv_known_packet_inv:
  assumes "ep_inv e" and "hm_get (ep_state_map e) cid = Some st"
  shows "ep_inv (fst (recv_known_packet capacity now p cid st e))"
proof -
  have "cs_fsm st \<noteq> FsmListen"
    using hm_all_get [OF ep_inv_parts(3) [OF assms(1)] assms(2)] by (simp add: state_ok_def)
  obtain st' out where step: "state_handle_packet capacity now st p = (st', out)"
    by (cases "state_handle_packet capacity now st p")
  have "state_ok cid st'"
    using state_handle_not_listen [OF \<open>cs_fsm st \<noteq> FsmListen\<close>, of capacity now p] step
    by (simp add: state_ok_def)
  then have "ep_inv (e\<lparr>ep_state_map := hm_modify cid (\<lambda>_. st') (ep_state_map e)\<rparr>)"
    using assms(1) by (intro ep_inv_state_map) (auto simp: ep_inv_parts)
  then have inv2: "ep_inv (if \<not> is_established st \<and> is_established st'
      then new_conn_try_send cid (e\<lparr>ep_state_map := hm_modify cid (\<lambda>_. st') (ep_state_map e)\<rparr>)
      else e\<lparr>ep_state_map := hm_modify cid (\<lambda>_. st') (ep_state_map e)\<rparr>)" (is "ep_inv ?e2")
    by (simp add: new_conn_try_send_inv)
  have inv3: "ep_inv (if is_peer_closed st'
      then ?e2\<lparr>ep_conn_map := hm_modify cid close_recv (ep_conn_map ?e2)\<rparr> else ?e2)" (is "ep_inv ?e3")
    using close_recv_inv [OF inv2, of cid] inv2 by presburger
  have "ep_inv (if is_closed st' then ?e3\<lparr>ep_conn_map := hm_remove cid (ep_conn_map ?e3)\<rparr> else ?e3)"
    using remove_conn_inv [OF inv3, of cid] inv3 by presburger
  then show ?thesis by (simp add: recv_known_packet_def step Let_def)
qed

lemma recv_packet_inv: "ep_inv e \<Longrightarrow> ep_inv (recv_packet capacity ik now p e)"
proof -
  assume "ep_inv e"
  obtain e1 handled where ping: "try_handle_pingpong now p e = (e1, handled)"
    by (cases "try_handle_pingpong now p e")
  define e2 where "e2 = (if is_data (pk_header p) \<and> length (pk_payload p) > 0
    then e1\<lparr>ep_conn_map := hm_modify (conn_id_from p) (\<lambda>c. fst (conn_handle_input ik c p)) (ep_conn_map e1)\<rparr>
    else e1)"
  have inv1: "ep_inv e1" using try_handle_pingpong_inv [OF \<open>ep_inv e\<close>, of now p] ping by simp
  then have inv2: "ep_inv e2"
    unfolding e2_def by (auto intro!: ep_inv_conn_map simp: ep_inv_parts conn_ok_handle_input)
  then have "ep_inv (fst (case hm_get (ep_state_map e2) (conn_id_from p) of
      None \<Rightarrow> recv_first_packet capacity now p (conn_id_from p) e2
    | Some st \<Rightarrow> recv_known_packet capacity now p (conn_id_from p) st e2))"
    by (auto simp: recv_first_packet_inv recv_known_packet_inv split: option.split)
  then show ?thesis
    using inv1 ping unfolding recv_packet_def e2_def
    by (auto simp: Let_def split: prod.split option.split)
qed

lemma clean_task_inv: "ep_inv e \<Longrightarrow> ep_inv (clean_task now e)"
  unfolding clean_task_def Let_def ep_inv_def by auto

lemma ping_task_inv: "ep_inv e \<Longrightarrow> ep_inv (ping_task capacity e)"
  by (simp add: ping_task_def)

lemma close_watcher_inv:
  assumes "ep_inv e"
  shows "ep_inv (close_watcher capacity cid e)"
proof -
  have "ep_inv (e\<lparr>ep_state_map := hm_modify cid (\<lambda>s. s\<lparr>cs_fsm := fsm\<rparr>) (ep_state_map e)\<rparr>)"
    if "fsm \<noteq> FsmListen" for fsm
    using assms that by (intro ep_inv_state_map) (auto simp: ep_inv_parts state_ok_def)
  then have step: "ep_inv (output_send q (e\<lparr>ep_state_map := hm_modify cid (\<lambda>s. s\<lparr>cs_fsm := fsm\<rparr>) (ep_state_map e)\<rparr>))"
    if "fsm \<noteq> FsmListen" for fsm q
    using that by simp
  show ?thesis
    using assms step [of FsmLocalClosed] remove_conn_inv [OF step [of FsmClosed], of cid]
    by (auto simp: close_watcher_def fsm_close_def Let_def split: option.split)
qed

lemma kcp_connection_new_id: "kcp_connection_new ik now cid = Ok c \<Longrightarrow> kc_conn_id c = cid"
  by (auto simp: kcp_connection_new_def split: result.splits)

lemma add_conn_inv: "ep_inv e \<Longrightarrow> ep_inv (fst (add_conn ik now cid e))"
proof -
  assume "ep_inv e"
  have "ep_inv (e\<lparr>ep_conn_map := hm_insert cid (kcp_connection_run c) (ep_conn_map e)\<rparr>)"
    if "kcp_connection_new ik now cid = Ok c" for c
    using \<open>ep_inv e\<close> kcp_connection_new_id [OF that]
    by (intro ep_inv_conn_map)
      (auto simp: ep_inv_parts conn_ok_def kcp_connection_run_def set_output_cb_def)
  then show ?thesis using \<open>ep_inv e\<close> by (auto simp: add_conn_def split: result.split)
qed

lemma alloc_conn_id_inv: "ep_inv e \<Longrightarrow> alloc_conn_id fuel src dst e = Some (cid, e') \<Longrightarrow> ep_inv e'"
  by (induction fuel src dst e rule: alloc_conn_id.induct) (auto simp: Let_def split: if_splits)

lemma connect_begin_inv:
  assumes "ep_inv e" and "connect_begin capacity now src dst d e = Some (r, e')"
  shows "ep_inv e'"
proof -
  have "ep_inv (e1\<lparr>ep_state_map := hm_insert cid (set_conn_data d (conn_state_new now FsmSynSent)) (ep_state_map e1)\<rparr>)"
    if "alloc_conn_id (alloc_fuel e) src dst e = Some (cid, e1)" for cid e1
    using alloc_conn_id_inv [OF assms(1) that]
    by (intro ep_inv_state_map) (auto simp: ep_inv_parts state_ok_def conn_state_defs)
  then show ?thesis
    using assms(2) by (auto simp: connect_begin_def fsm_connect_def Let_def split: option.splits if_splits)
qed

lemma remove_state_inv: "ep_inv e \<Longrightarrow> ep_inv (e\<lparr>ep_state_map := hm_remove cid (ep_state_map e)\<rparr>)"
  by (rule ep_inv_state_map) (auto simp: ep_inv_parts)

lemma connect_finish_inv: "ep_inv e \<Longrightarrow> ep_inv (fst (connect_finish ik now timed_out cid e))"
  using add_conn_inv [of e ik now cid]
  by (auto simp: connect_finish_def remove_state_inv split: option.split prod.split result.split)

lemma ep_inv_shrink_queue: "ep_inv e \<Longrightarrow> length q \<le> NEW_CONN_CAPACITY \<Longrightarrow> ep_inv (e\<lparr>ep_new_conn := q\<rparr>)"
  by (simp add: ep_inv_def)

lemma accept_loop_inv:
  "ep_inv e \<Longrightarrow> length q \<le> NEW_CONN_CAPACITY \<Longrightarrow> ep_inv (fst (accept_loop ik now q e))"
proof (induction ik now q e rule: accept_loop.induct)
  case (1 ik now e)
  then show ?case by (simp add: ep_inv_shrink_queue)
next
  case (2 ik now cid q e)
  have "ep_inv (fst (add_conn ik now cid (e\<lparr>ep_new_conn := q\<rparr>)))"
    using 2 by (intro add_conn_inv ep_inv_shrink_queue) auto
  with 2 show ?case by (auto split: option.split prod.split result.split)
qed

lemma accept_inv: "ep_inv e \<Longrightarrow> ep_inv (fst (accept ik now e))"
  unfolding accept_def by (rule accept_loop_inv) (auto simp: ep_inv_parts)

lemma replace_conn_inv:
  assumes "ep_inv e" and "hm_get (ep_conn_map e) cid = Some c" and "conn_ok cid c \<Longrightarrow> conn_ok cid c'"
  shows "ep_inv (e\<lparr>ep_conn_map := hm_modify cid (\<lambda>_. c') (ep_conn_map e)\<rparr>)"
  using assms hm_all_get [OF ep_inv_parts(4) [OF assms(1)] assms(2)]
  by (intro ep_inv_conn_map) (auto simp: ep_inv_parts)

lemma conn_sender_receiver_inv: "ep_inv e \<Longrightarrow> ep_inv (fst (conn_sender_receiver cid e))"
  unfolding conn_sender_receiver_def take_send_sender_def take_recv_receiver_def
  by (auto simp: conn_ok_def split: option.split bool.split intro!: replace_conn_inv)

lemma conn_ok_updater: "conn_ok cid c \<Longrightarrow> conn_ok cid (fst (updater_step ik now c))"
  by (auto simp: conn_ok_def updater_step_def kcp_update_def Let_def split: prod.split)

lemma conn_ok_recv_task: "conn_ok cid c \<Longrightarrow> conn_ok cid (fst (recv_task_step ik cap ok c))"
  by (auto simp: conn_ok_def recv_task_step_def kcp_recv_def Let_def
      split: recv_task.split prod.split result.split)

lemma conn_ok_send_task:
  assumes "conn_ok cid c"
  shows "conn_ok cid (fst (send_task_step ik incoming c))"
proof (cases "kc_send_task c")
  case (SendChunks cs)
  with assms show ?thesis
    by (cases cs) (auto simp: conn_ok_def send_task_step_def kcp_send_def kcp_flush_def Let_def
        split: prod.split)
qed (use assms in \<open>auto simp: conn_ok_def send_task_step_def split: option.split\<close>)

lemma conn_ok_task: "conn_ok cid c \<Longrightarrow> conn_ok cid (fst (conn_task_step ik now task c))"
  using conn_ok_updater [of cid c] conn_ok_recv_task [of cid c] conn_ok_send_task [of cid c]
  by (cases task) (auto split: prod.split, metis fst_conv)

lemma run_conn_task_inv:
  assumes "ep_inv e"
  shows "ep_inv (run_conn_task ik now room cid task e)"
proof (cases "hm_get (ep_conn_map e) cid")
  case (Some c)
  have "ep_inv (e\<lparr>ep_conn_map := hm_modify cid (\<lambda>_. fst (conn_task_step ik now task c)) (ep_conn_map e)\<rparr>)"
    by (rule replace_conn_inv [OF assms Some]) (rule conn_ok_task)
  then show ?thesis by (cases "conn_task_step ik now task c") (simp add: run_conn_task_def Some)
qed (simp add: run_conn_task_def assms)

lemmas ep_op_invs = recv_packet_inv clean_task_inv ping_task_inv close_watcher_inv connect_finish_inv
  accept_inv conn_sender_receiver_inv run_conn_task_inv

interpretation ep: op_invariant "ep_step capacity ik" ep_inv for capacity ik
proof
  fix e and x :: "nat \<times> ep_op"
  assume "ep_inv (e :: 'a endpoint)"
  obtain now op where x: "x = (now, op)" by (cases x)
  show "ep_inv (ep_step capacity ik x e)"
    unfolding x using \<open>ep_inv e\<close> connect_begin_inv [OF \<open>ep_inv e\<close>]
    by (cases op) (auto simp: ep_op_invs split: option.split)
qed

subsection \<open>Allocating connection ids\<close>

lemma alloc_conn_id_fails:
  "alloc_conn_id fuel src dst e = None \<Longrightarrow> i < fuel \<Longrightarrow>
     hm_contains (ep_state_map e)
       \<lparr>ci_conv = ep_cur_conv e + of_nat i, ci_src_session_id = src, ci_dst_session_id = dst\<rparr>"
proof (induction fuel src dst e arbitrary: i rule: alloc_conn_id.induct)
  case (2 fuel src dst e)
  show ?case
  proof (cases i)
    case 0
    with "2.prems" show ?thesis by (auto simp: Let_def split: if_splits)
  next
    case (Suc j)
    with "2.prems" "2.IH" [OF refl refl, of j] show ?thesis
      by (auto simp: Let_def algebra_simps split: if_splits)
  qed
qed simp

lemma conv_candidates_distinct:
  assumes "n \<le> 2 ^ 32"
  shows "inj_on (\<lambda>i. (v :: u32) + of_nat i) {..<n}"
proof (rule inj_onI)
  fix i j assume "i \<in> {..<n}" "j \<in> {..<n}" "v + of_nat i = v + of_nat j"
  then have "i < 2 ^ 32" "j < 2 ^ 32" and eq: "(of_nat i :: u32) = of_nat j" using assms by auto
  from arg_cong [OF eq, of unat] \<open>i < 2 ^ 32\<close> \<open>j < 2 ^ 32\<close> show "i = j" by (simp add: unat_of_nat)
qed

lemma alloc_conn_id_succeeds:
  assumes "length (ep_state_map e) < 2 ^ 32"
  shows "alloc_conn_id (alloc_fuel e) src dst e \<noteq> None"
proof
  assume none: "alloc_conn_id (alloc_fuel e) src dst e = None"
  let ?id = "\<lambda>i. \<lparr>ci_conv = ep_cur_conv e + of_nat i, ci_src_session_id = src, ci_dst_session_id = dst\<rparr>"
  let ?n = "Suc (length (ep_state_map e))"
  have sub: "?id ` {..<?n} \<subseteq> fst ` set (ep_state_map e)"
    using alloc_conn_id_fails [OF none]
    by (auto simp: alloc_fuel_def hm_contains_def hm_get_def map_of_eq_None_iff)
  have "inj_on ?id {..<?n}"
    using conv_candidates_distinct [of ?n "ep_cur_conv e"] assms by (auto simp: inj_on_def)
  then have "card (?id ` {..<?n}) = ?n" by (simp add: card_image)
  moreover have "card (?id ` {..<?n}) \<le> length (ep_state_map e)"
    using card_mono [OF _ sub] card_length [of "map fst (ep_state_map e)"] by simp
  ultimately show False by simp
qed

lemma alloc_conn_id_fresh:
  "alloc_conn_id fuel src dst e = Some (cid, e') \<Longrightarrow>
     hm_get (ep_state_map e) cid = None \<and> ci_src_session_id cid = src \<and> ci_dst_session_id cid = dst
     \<and> e' = e\<lparr>ep_cur_conv := ci_conv cid + 1\<rparr>"
  by (induction fuel src dst e rule: alloc_conn_id.induct)
    (auto simp: Let_def hm_contains_def split: if_splits)

subsection \<open>Receiving\<close>

lemma pingpong_not_ping:
  "\<not> is_ping (pk_header p) \<Longrightarrow> try_handle_pingpong now p e =
     (e\<lparr>ep_state_map := hm_modify (conn_id_from p) (notify_pong now) (ep_state_map e)\<rparr>, False)"
  by (simp add: try_handle_pingpong_def)

lemma recv_packet_unknown:
  assumes "\<not> is_ping (pk_header p)" and "hm_get (ep_state_map e) (conn_id_from p) = None"
    and "syn_packet (kcp_packet_flags capacity) p"
  shows "ep_state_map (recv_packet capacity ik now p e) =
      hm_insert (conn_id_from p) (set_conn_data (pk_payload p) (conn_state_new now FsmSynReceived))
        (hm_modify (conn_id_from p) (notify_pong now) (ep_state_map e))
    \<and> ep_output (recv_packet capacity ik now p e) =
      ep_output e @ (if ep_output_open e then [fill_packet_header (conn_id_from p)
        (put_ack (kcp_packet_flags capacity)
          (put_syn (kcp_packet_flags capacity) (p_default (kcp_packet_flags capacity)) True) True)] else [])
    \<and> ep_new_conn (recv_packet capacity ik now p e) = ep_new_conn e
    \<and> ep_output_open (recv_packet capacity ik now p e) = ep_output_open e"
proof -
  have "\<not> is_rst (pk_header p)"
    using assms(3) by (simp add: syn_packet_def flags_of_def kcp_packet_flags_def)
  with assms show ?thesis
    by (simp add: recv_packet_def pingpong_not_ping hmap_simps recv_first_packet_def fsm_listen_def
        fsm_handle_packet_def check_packet_flag_iff syn_packet_def output_send_def Let_def)
qed

lemma recv_packet_known:
  assumes "\<not> is_ping (pk_header p)" and "hm_get (ep_state_map e) (conn_id_from p) = Some st"
    and "state_handle_packet capacity now st p = (st', out)"
  shows "hm_get (ep_state_map (recv_packet capacity ik now p e)) (conn_id_from p) = Some st'
    \<and> ep_output (recv_packet capacity ik now p e) = ep_output e @
        (case out of None \<Rightarrow> [] | Some q \<Rightarrow> if ep_output_open e then [fill_packet_header (conn_id_from p) q] else [])
    \<and> ep_new_conn (recv_packet capacity ik now p e) =
        (if \<not> is_established st \<and> is_established st' \<and> length (ep_new_conn e) < NEW_CONN_CAPACITY
         then ep_new_conn e @ [conn_id_from p] else ep_new_conn e)
    \<and> ep_output_open (recv_packet capacity ik now p e) = ep_output_open e
    \<and> (is_closed st' \<longrightarrow> hm_get (ep_conn_map (recv_packet capacity ik now p e)) (conn_id_from p) = None)"
proof -
  have twice: "state_handle_packet capacity now (notify_pong now st) p = (st', out)"
    "is_established (notify_pong now st) = is_established st"
    using assms(3) by (simp_all add: state_handle_packet_def notify_pong_def is_established_def)
  show ?thesis
    using assms(1,2)
    by (auto simp: recv_packet_def pingpong_not_ping hmap_simps recv_known_packet_def Let_def twice
        output_send_def new_conn_try_send_def split: option.split)
qed

lemma connect_begin_Ok:
  assumes "connect_begin capacity now src dst d e = Some (Ok cid, e')"
  shows "hm_get (ep_state_map e) cid = None \<and> ep_output_open e
    \<and> ci_src_session_id cid = src \<and> ci_dst_session_id cid = dst
    \<and> hm_get (ep_state_map e') cid = Some (set_conn_data d (conn_state_new now FsmSynSent))
    \<and> ep_output e' = ep_output e @ [fill_packet_header cid
        (put_syn (kcp_packet_flags capacity) (packet_new_with_payload d) True)]
    \<and> ep_output_open e'"
proof -
  obtain c1 e1 where alloc: "alloc_conn_id (alloc_fuel e) src dst e = Some (c1, e1)"
    using assms by (auto simp: connect_begin_def split: option.splits)
  with assms alloc_conn_id_fresh [OF alloc] show ?thesis
    by (auto simp: connect_begin_def fsm_connect_def Let_def hmap_simps output_send_def split: if_splits)
qed

text \<open>The shapes of the three handshake packets, on the concrete header.\<close>

lemma put_flag_no_ping:
  "is_ping (pk_header (put_syn (kcp_packet_flags capacity) p b)) = is_ping (pk_header p)"
  "is_ping (pk_header (put_ack (kcp_packet_flags capacity) p b)) = is_ping (pk_header p)"
  "is_ping (pk_header (put_data (kcp_packet_flags capacity) p b)) = is_ping (pk_header p)"
  "is_ping (pk_header (put_rst (kcp_packet_flags capacity) p b)) = is_ping (pk_header p)"
  "is_ping (pk_header (fill_packet_header cid p)) = is_ping (pk_header p)"
  by (simp_all add: kcp_packet_flags_def mut_header_def flag_defs contains_put_flag del: flag_bits.simps)

lemma default_no_ping:
  "\<not> is_ping (pk_header (p_default (kcp_packet_flags capacity)))"
  "\<not> is_ping (pk_header (packet_new_with_payload d))"
  by (simp_all add: kcp_packet_flags_def packet_new_def packet_new_with_payload_def header_default_def
      is_ping_def contains_no_flag del: flag_bits.simps)

lemma connect_packet_shape:
  "syn_packet (kcp_packet_flags capacity)
     (fill_packet_header cid (put_syn (kcp_packet_flags capacity) (packet_new_with_payload d) True))"
proof -
  have "flags_of (kcp_packet_flags capacity) (packet_new_with_payload d) = (False, False, False, False, False)"
    by (simp add: flags_of_def kcp_packet_flags_def packet_new_with_payload_def header_default_def
        flag_defs contains_no_flag del: flag_bits.simps)
  then show ?thesis unfolding syn_packet_def flags_of_fill by (rule kp.flags_put_syn)
qed

lemma connect_packet_payload:
  "pk_payload (put_syn (kcp_packet_flags capacity) (packet_new_with_payload d) True) = d"
  by (simp add: kcp_packet_flags_def mut_header_def packet_new_with_payload_def)

lemma syn_sent_handles_syn_ack:
  assumes "syn_ack_packet (kcp_packet_flags capacity) p" and "cs_fsm st = FsmSynSent"
  shows "state_handle_packet capacity now st p =
    (st\<lparr>cs_last_pong := now, cs_fsm := FsmEstablished, cs_notified := True\<rparr>,
     Some (put_data (kcp_packet_flags capacity)
        (put_ack (kcp_packet_flags capacity) (p_default (kcp_packet_flags capacity)) True) True))"
  using assms by (simp add: state_handle_packet_def notify_pong_def fsm_handle_packet_def
      check_packet_flag_iff syn_ack_packet_def)

lemma syn_received_handles_data:
  assumes "data_packet (kcp_packet_flags capacity) p" and "cs_fsm st = FsmSynReceived"
  shows "state_handle_packet capacity now st p =
    (st\<lparr>cs_last_pong := now, cs_fsm := FsmEstablished, cs_notified := True\<rparr>, None)"
  using assms by (simp add: state_handle_packet_def notify_pong_def fsm_handle_packet_def
      check_packet_flag_iff data_packet_def)

lemma accept_loop_established:
  assumes "accept_loop ik now q e = (e', Some (Ok cid))"
  shows "cid \<in> set q \<and> (\<exists>st. hm_get (ep_state_map e) cid = Some st \<and> cs_fsm st = FsmEstablished)
    \<and> hm_contains (ep_conn_map e') cid \<and> ep_state_map e' = ep_state_map e"
  using assms
proof (induction ik now q e rule: accept_loop.induct)
  case (2 ik now cid' q e)
  show ?case
  proof (cases "\<exists>st. hm_get (ep_state_map e) cid' = Some st \<and> cs_fsm st = FsmEstablished")
    case True
    with "2.prems" show ?thesis
      by (auto simp: add_conn_def hm_contains_def hmap_simps split: result.splits prod.splits)
  next
    case False
    with 2 show ?thesis by (auto split: option.splits)
  qed
qed simp

lemma state_handle_rst:
  assumes "is_rst (pk_header p)" and "cs_fsm st \<noteq> FsmListen"
  shows "\<exists>st'. state_handle_packet capacity now st p = (st', None) \<and> cs_fsm st' = FsmClosed"
proof -
  let ?fo = "kcp_packet_flags capacity"
  have rst: "has_rst ?fo p" using assms(1) by (simp add: kcp_packet_flags_def)
  obtain t q r where step: "fsm_handle_packet ?fo (cs_fsm st) p None = (t, q, r)"
    by (cases "fsm_handle_packet ?fo (cs_fsm st) p None") auto
  have "t = FsmClosed" using rst_closes [OF rst assms(2), of None] step by simp
  moreover have "cs_fsm st \<noteq> t \<Longrightarrow> q = None" using rst_state_change_silent [OF rst step] .
  ultimately show ?thesis
    using step by (auto simp: state_handle_packet_def notify_pong_def Let_def)
qed

subsection \<open>Properties\<close>

text \<open>
  C26. The endpoint invariant holds after every sequence of received packets, keep-alive, cleaning and
  connection-task steps, connects, accepts and closes, in any order: map keys are unique, no stored
  connection is listening, every connection object sits under its own id and sends only under it,
  and the accept queue never exceeds its capacity of four.
\<close>

theorem endpoint_invariant: "ep_inv (fold (ep_step capacity ik) ops (endpoint_new random_conv))"
  by (rule ep.run_inv) (simp add: ep_inv_def endpoint_new_def)

text \<open>
  C27. Connecting always finds a conversation number: with fewer than \<open>2 ^ 32\<close> stored states the search
  ends within one step more than there are states, and the id it picks is not in use, carries the
  requested session ids and is stored as a connection that has sent its SYN.
\<close>

theorem connect_allocates_fresh_id:
  assumes "length (ep_state_map e) < 2 ^ 32" and "ep_output_open e"
  shows "\<exists>cid e'. connect_begin capacity now src dst d e = Some (Ok cid, e')
    \<and> hm_get (ep_state_map e) cid = None \<and> ci_src_session_id cid = src \<and> ci_dst_session_id cid = dst
    \<and> hm_get (ep_state_map e') cid = Some (set_conn_data d (conn_state_new now FsmSynSent))"
proof -
  obtain cid e1 where alloc: "alloc_conn_id (alloc_fuel e) src dst e = Some (cid, e1)"
    using alloc_conn_id_succeeds [OF assms(1), of src dst] by auto
  then obtain e' where "connect_begin capacity now src dst d e = Some (Ok cid, e')"
    using assms(2) alloc_conn_id_fresh [OF alloc] by (simp add: connect_begin_def fsm_connect_def Let_def)
  from this connect_begin_Ok [OF this] show ?thesis by blast
qed

theorem connect_allocates_fresh_id_witness:
  "\<exists>cid e'. connect_begin id 0 1 3 [] (endpoint_new 4294967295 :: unit endpoint) = Some (Ok cid, e')
    \<and> hm_get (ep_state_map e') cid = Some (set_conn_data [] (conn_state_new 0 FsmSynSent))"
  using connect_allocates_fresh_id [of "endpoint_new 4294967295 :: unit endpoint" id 0 1 3 "[]"]
  by (auto simp: endpoint_new_def)

text \<open>
  A reset is never answered: a packet with the RST flag that is not a keep-alive leaves the output
  untouched, closes the connection it names and removes its connection object. Two endpoints can
  therefore not exchange resets for ever.
\<close>

theorem rst_never_answered:
  assumes "ep_inv e" and "is_rst (pk_header p)" and "\<not> is_ping (pk_header p)"
  shows "ep_output (recv_packet capacity ik now p e) = ep_output e
    \<and> (case hm_get (ep_state_map e) (conn_id_from p) of
         None \<Rightarrow> hm_get (ep_state_map (recv_packet capacity ik now p e)) (conn_id_from p) = None
       | Some st \<Rightarrow> (\<exists>st'. hm_get (ep_state_map (recv_packet capacity ik now p e)) (conn_id_from p) = Some st'
            \<and> cs_fsm st' = FsmClosed
            \<and> hm_get (ep_conn_map (recv_packet capacity ik now p e)) (conn_id_from p) = None))"
proof (cases "hm_get (ep_state_map e) (conn_id_from p)")
  case None
  with assms show ?thesis
    by (auto simp: recv_packet_def pingpong_not_ping hmap_simps recv_first_packet_def Let_def)
next
  case (Some st)
  have "cs_fsm st \<noteq> FsmListen"
    using hm_all_get [OF ep_inv_parts(3) [OF assms(1)] Some] by (simp add: state_ok_def)
  from state_handle_rst [OF assms(2) this] obtain st' where
    "state_handle_packet capacity now st p = (st', None)" "cs_fsm st' = FsmClosed" by blast
  with recv_packet_known [OF assms(3) Some, of capacity now st' None ik] Some show ?thesis
    by (auto simp: is_closed_def)
qed

theorem rst_never_answered_witness:
  "ep_output (recv_packet id demo_ikcp 5 (mut_header (\<lambda>h. set_rst h True) (packet_new id 0)) (endpoint_new 7)) = []"
proof -
  let ?p = "mut_header (\<lambda>h. set_rst h True) (packet_new id 0)"
  have "ep_inv (endpoint_new 7 :: bytes endpoint)" by (simp add: ep_inv_def endpoint_new_def)
  moreover have "is_rst (pk_header ?p)" "\<not> is_ping (pk_header ?p)"
    by (simp_all add: mut_header_def packet_new_def header_default_def flag_defs contains_put_flag
        contains_no_flag del: flag_bits.simps)
  ultimately show ?thesis
    using rst_never_answered [of "endpoint_new 7 :: bytes endpoint" ?p id demo_ikcp 5]
    by (simp add: endpoint_new_def)
qed

text \<open>
  C28. A connection is set up end to end: the packet a connecting endpoint sends, received by an endpoint
  that does not know the id and has room in its accept queue, leads through a SYN-ACK and an ACK+DATA
  packet to an established connection on both sides, with the connecting side woken up, the id queued
  for \<open>accept\<close> on the other side, and the connection data delivered.
\<close>

theorem endpoints_handshake:
  assumes "connect_begin capacity t0 src dst d c = Some (Ok cid, c1)"
    and "ep_output_open s" and "hm_get (ep_state_map s) cid = None"
    and "length (ep_new_conn s) < NEW_CONN_CAPACITY"
  shows "\<exists>syn syn_ack dat s1 c2 s2 st_c st_s.
      ep_output c1 = ep_output c @ [syn]
    \<and> s1 = recv_packet capacity ik t1 syn s \<and> ep_output s1 = ep_output s @ [syn_ack]
    \<and> c2 = recv_packet capacity ik t2 syn_ack c1 \<and> ep_output c2 = ep_output c1 @ [dat]
    \<and> s2 = recv_packet capacity ik t3 dat s1 \<and> ep_output s2 = ep_output s1
    \<and> hm_get (ep_state_map c2) cid = Some st_c \<and> cs_fsm st_c = FsmEstablished \<and> cs_notified st_c
    \<and> hm_get (ep_state_map s2) cid = Some st_s \<and> cs_fsm st_s = FsmEstablished \<and> cs_conn_data st_s = d
    \<and> ep_new_conn s2 = ep_new_conn s @ [cid]"
proof -
  let ?fo = "kcp_packet_flags capacity"
  let ?syn = "fill_packet_header cid (put_syn ?fo (packet_new_with_payload d) True)"
  let ?syn_ack = "fill_packet_header cid (put_ack ?fo (put_syn ?fo (p_default ?fo) True) True)"
  let ?dat = "fill_packet_header cid (put_data ?fo (put_ack ?fo (p_default ?fo) True) True)"
  let ?s1 = "recv_packet capacity ik t1 ?syn s"
  let ?c2 = "recv_packet capacity ik t2 ?syn_ack c1"
  note conn = connect_begin_Ok [OF assms(1)]
  have no_ping: "\<not> is_ping (pk_header ?syn)" "\<not> is_ping (pk_header ?syn_ack)" "\<not> is_ping (pk_header ?dat)"
    by (simp_all add: put_flag_no_ping default_no_ping)
  have syn_ack: "syn_ack_packet ?fo ?syn_ack" and dat: "data_packet ?fo ?dat"
    using kp.syn_ack_shape kp.data_shape by (simp_all add: packet_shape_defs)
  have s1: "hm_get (ep_state_map ?s1) cid = Some (set_conn_data d (conn_state_new t1 FsmSynReceived))
      \<and> ep_output ?s1 = ep_output s @ [?syn_ack] \<and> ep_new_conn ?s1 = ep_new_conn s"
    using recv_packet_unknown [OF no_ping(1), where e = s and ik = ik and now = t1]
      connect_packet_shape assms(2,3)
    by (simp add: hmap_simps connect_packet_payload)
  have c2: "\<exists>st. hm_get (ep_state_map ?c2) cid = Some st \<and> cs_fsm st = FsmEstablished \<and> cs_notified st
      \<and> ep_output ?c2 = ep_output c1 @ [?dat]"
    using recv_packet_known [OF no_ping(2), where e = c1 and ik = ik and now = t2]
      syn_sent_handles_syn_ack [OF syn_ack, where now = t2] conn
    by (simp add: conn_state_defs)
  have s2: "\<exists>st. hm_get (ep_state_map (recv_packet capacity ik t3 ?dat ?s1)) cid = Some st
      \<and> cs_fsm st = FsmEstablished \<and> cs_conn_data st = d
      \<and> ep_output (recv_packet capacity ik t3 ?dat ?s1) = ep_output ?s1
      \<and> ep_new_conn (recv_packet capacity ik t3 ?dat ?s1) = ep_new_conn s @ [cid]"
    using recv_packet_known [OF no_ping(3), where e = ?s1 and ik = ik and now = t3]
      syn_received_handles_data [OF dat, where now = t3] s1 assms(4)
    by (simp add: conn_state_defs)
  from conn s1 c2 s2 show ?thesis by blast
qed

theorem endpoints_handshake_witness:
  "\<exists>c1 syn. connect_begin id 0 1 3 [104] (endpoint_new 9 :: bytes endpoint) =
       Some (Ok \<lparr>ci_conv = 9, ci_src_session_id = 1, ci_dst_session_id = 3\<rparr>, c1)
     \<and> ep_output c1 = [syn]
     \<and> ep_conn_data \<lparr>ci_conv = 9, ci_src_session_id = 1, ci_dst_session_id = 3\<rparr>
         (recv_packet id demo_ikcp 1 syn (endpoint_new 5)) \<noteq> ep_conn_data \<lparr>ci_conv = 9, ci_src_session_id = 1, ci_dst_session_id = 3\<rparr> (endpoint_new 5 :: bytes endpoint)"
proof -
  let ?c = "endpoint_new 9 :: bytes endpoint" and ?s = "endpoint_new 5 :: bytes endpoint"
  let ?id = "\<lparr>ci_conv = 9, ci_src_session_id = 1, ci_dst_session_id = 3\<rparr> :: conn_id"
  obtain c1 where c1: "connect_begin id 0 1 3 [104] ?c = Some (Ok ?id, c1)"
    by (simp add: connect_begin_def alloc_fuel_def endpoint_new_def fsm_connect_def Let_def
        hm_contains_def)
  have "ep_output_open ?s" "hm_get (ep_state_map ?s) ?id = None" "length (ep_new_conn ?s) < NEW_CONN_CAPACITY"
    by (simp_all add: endpoint_new_def NEW_CONN_CAPACITY_def)
  from endpoints_handshake [OF c1 this, of demo_ikcp 1 2 3] obtain syn syn_ack where
    syn: "ep_output c1 = ep_output ?c @ [syn]"
    and sa: "ep_output (recv_packet id demo_ikcp 1 syn ?s) = ep_output ?s @ [syn_ack]" by blast
  have "\<not> is_ping (pk_header syn)" "syn_packet (kcp_packet_flags id) syn" "conn_id_from syn = ?id"
    using connect_begin_Ok [OF c1] syn connect_packet_shape by (auto simp: put_flag_no_ping default_no_ping)
  then have "ep_conn_data ?id (recv_packet id demo_ikcp 1 syn ?s) \<noteq> ep_conn_data ?id ?s"
    using recv_packet_unknown [of syn ?s id demo_ikcp 1] \<open>hm_get (ep_state_map ?s) ?id = None\<close>
    by (simp add: ep_conn_data_def hmap_simps)
  with c1 syn show ?thesis by (auto simp: endpoint_new_def)
qed

text \<open>
  \<open>accept\<close> only returns ids that were queued and whose connection is still established, and it
  returns them with a connection object in place; ids whose state has gone or has moved on are skipped.
\<close>

theorem accept_returns_established:
  assumes "accept ik now e = (e', Some (Ok cid))"
  shows "cid \<in> set (ep_new_conn e)
    \<and> (\<exists>st. hm_get (ep_state_map e') cid = Some st \<and> cs_fsm st = FsmEstablished)
    \<and> hm_contains (ep_conn_map e') cid"
  using accept_loop_established [OF assms [unfolded accept_def]] by auto

theorem accept_returns_established_witness:
  "\<exists>e'. accept demo_ikcp 3 ((endpoint_new 1)\<lparr>
        ep_state_map := [(conn_id_from (packet_new id 0), conn_state_new 0 FsmEstablished)],
        ep_new_conn := [conn_id_from (packet_new id 0)]\<rparr>) = (e', Some (Ok (conn_id_from (packet_new id 0))))
     \<and> hm_contains (ep_conn_map e') (conn_id_from (packet_new id 0))"
proof -
  let ?id = "conn_id_from (packet_new id 0)"
  let ?e = "(endpoint_new 1)\<lparr>ep_state_map := [(?id, conn_state_new 0 FsmEstablished)], ep_new_conn := [?id]\<rparr>"
  obtain e' where acc: "accept demo_ikcp 3 ?e = (e', Some (Ok ?id))"
    by (simp add: accept_def hm_get_def conn_state_new_def add_conn_def kcp_connection_new_def kcp_new_def
        apply_config_def demo_ikcp_def config_new_turbo_def opt_or_def)
  from accept_returns_established [OF acc] acc show ?thesis by blast
qed

text \<open>
  The cleaning task removes exactly the closed states and those silent for more than sixty seconds,
  keeps every other state unchanged, and afterwards every connection object belongs to a live state.
\<close>

theorem clean_task_spec:
  assumes "ep_inv e"
  shows "hm_get (ep_state_map (clean_task now e)) cid =
      (case hm_get (ep_state_map e) cid of
         None \<Rightarrow> None
       | Some st \<Rightarrow> if cs_fsm st = FsmClosed \<or> now - cs_last_pong st > 60000 then None else Some st)
    \<and> (hm_contains (ep_conn_map (clean_task now e)) cid \<longleftrightarrow>
         hm_contains (ep_conn_map e) cid \<and> hm_contains (ep_state_map (clean_task now e)) cid)"
  using ep_inv_parts(1,2) [OF assms]
  by (auto simp: clean_task_def Let_def hmap_simps hm_contains_def is_pong_timeout_def split: option.split)

theorem clean_task_spec_witness:
  "hm_get (ep_state_map (clean_task 70000 ((endpoint_new 1 :: bytes endpoint)\<lparr>
     ep_state_map := [(conn_id_from (packet_new id 0), conn_state_new 0 FsmEstablished)]\<rparr>)))
     (conn_id_from (packet_new id 0)) = None"
proof -
  let ?e = "(endpoint_new 1 :: bytes endpoint)\<lparr>
     ep_state_map := [(conn_id_from (packet_new id 0), conn_state_new 0 FsmEstablished)]\<rparr>"
  have "ep_inv ?e" by (simp add: ep_inv_def endpoint_new_def hm_wf_def hm_all_def state_ok_def conn_state_new_def)
  from clean_task_spec [OF this, of 70000 "conn_id_from (packet_new id 0)"] show ?thesis
    by (simp add: hm_get_def conn_state_new_def)
qed

text \<open>
  A half-closed connection does not survive the next keep-alive: an endpoint that has closed its
  sending side answers a ping with a reset for the same connection, and the peer, which had seen the
  close but could still send, drops its connection on receiving it.
\<close>

theorem half_close_reset_by_ping:
  assumes "hm_get (ep_state_map a) cid = Some st" and "cs_fsm st = FsmLocalClosed" and "ep_output_open a"
    and "ep_inv b" and "hm_get (ep_state_map b) cid = Some st'" and "cs_fsm st' = FsmPeerClosed"
  shows "\<exists>rst. ep_output (recv_packet capacity ik now (ping_packet capacity cid) a) = ep_output a @ [rst]
    \<and> (\<exists>st''. hm_get (ep_state_map (recv_packet capacity ik now' rst b)) cid = Some st'' \<and> cs_fsm st'' = FsmClosed)
    \<and> hm_get (ep_conn_map (recv_packet capacity ik now' rst b)) cid = None"
proof -
  let ?ping = "ping_packet capacity cid"
  let ?rst = "mut_header (\<lambda>h. set_rst h True) (mut_header (\<lambda>h. set_ping h False) ?ping)"
  have ping: "is_ping (pk_header ?ping)" "\<not> is_pong (pk_header ?ping)" and id: "conn_id_from ?ping = cid"
    by (simp_all add: ping_packet_def mut_header_def fill_packet_header_def id_defs flag_defs packet_new_def
        header_default_def contains_put_flag contains_no_flag conn_id_from_def del: flag_bits.simps)
  have rst: "is_rst (pk_header ?rst)" "\<not> is_ping (pk_header ?rst)" and rid: "conn_id_from ?rst = cid"
    using id by (simp_all add: mut_header_def flag_defs contains_put_flag conn_id_from_def del: flag_bits.simps)
  have "ep_output (recv_packet capacity ik now ?ping a) = ep_output a @ [?rst]"
    using assms(1-3) ping id
    by (simp add: recv_packet_def try_handle_pingpong_def is_local_closed_def output_send_def Let_def)
  moreover obtain st'' where handled: "state_handle_packet capacity now' st' ?rst = (st'', None)"
      and closed: "cs_fsm st'' = FsmClosed"
    using state_handle_rst [OF rst(1), of st' capacity now'] assms(6) by auto
  moreover have "hm_get (ep_state_map b) (conn_id_from ?rst) = Some st'" using assms(5) rid by simp
  ultimately show ?thesis
    using recv_packet_known [OF rst(2) _ handled, of b ik] rid
    by (auto simp: is_closed_def)
qed

theorem half_close_reset_by_ping_witness:
  "\<exists>rst. ep_output (recv_packet id demo_ikcp 1 (ping_packet id (conn_id_from (packet_new id 0)))
      ((endpoint_new 1)\<lparr>ep_state_map := [(conn_id_from (packet_new id 0), conn_state_new 0 FsmLocalClosed)]\<rparr>)) = [rst]"
proof -
  let ?id = "conn_id_from (packet_new id 0)"
  let ?a = "(endpoint_new 1)\<lparr>ep_state_map := [(?id, conn_state_new 0 FsmLocalClosed)]\<rparr>"
  let ?b = "(endpoint_new 1)\<lparr>ep_state_map := [(?id, conn_state_new 0 FsmPeerClosed)]\<rparr>"
  have "ep_inv ?b"
    by (simp add: ep_inv_def endpoint_new_def hm_wf_def hm_all_def state_ok_def conn_state_new_def)
  then show ?thesis
    using half_close_reset_by_ping [of ?a ?id "conn_state_new 0 FsmLocalClosed" ?b "conn_state_new 0 FsmPeerClosed"
        id demo_ikcp 1 1]
    by (auto simp: hm_get_def conn_state_new_def endpoint_new_def)
qed

text \<open>
  The connecting side also puts its own id into its accept queue when the SYN-ACK arrives, so an
  endpoint that both connects and accepts can be handed its own outgoing connection by \<open>accept\<close>.
\<close>

lemma connecting_side_queues_own_id:
  assumes "hm_get (ep_state_map e) (conn_id_from p) = Some st" and "cs_fsm st = FsmSynSent"
    and "syn_ack_packet (kcp_packet_flags capacity) p" and "\<not> is_ping (pk_header p)"
    and "length (ep_new_conn e) < NEW_CONN_CAPACITY"
  shows "ep_new_conn (recv_packet capacity ik now p e) = ep_new_conn e @ [conn_id_from p]"
  using recv_packet_known [OF assms(4) assms(1) syn_sent_handles_syn_ack [OF assms(3,2), where now = now], of ik] assms(2,5)
  by (simp add: is_established_def)

text \<open>
  The datagram guard makes the header view total: a received datagram reaches the endpoint exactly
  when it holds a whole header, and then as the packet whose bytes are the datagram cut at 1500 bytes;
  the panicking header access is never reached on a short buffer.
\<close>

theorem datagram_guard:
  "(kcp_io_recv datagram = None \<longleftrightarrow> length datagram < HEADER_SIZE)
   \<and> (kcp_io_recv datagram = Some p \<longleftrightarrow> packet_bytes p = take 1500 datagram)"
proof -
  have "packet_of_bytes (take 1500 datagram) = Some p \<longleftrightarrow> packet_bytes p = take 1500 datagram"
    using packet_of_packet_bytes packet_bytes_of_bytes by metis
  moreover have "length (packet_bytes p) \<ge> HEADER_SIZE" by (simp add: packet_bytes_def)
  moreover have "take (min (length datagram) 1500) datagram = take 1500 datagram"
    by (simp add: min_def)
  ultimately show ?thesis
    by (auto simp: kcp_io_recv_def Let_def packet_of_bytes_None_iff HEADER_SIZE_def min_def
        simp del: take_all take_all_iff)
qed

end
