(* ===== verification/Kcp_Network.thy ===== *)
theory Kcp_Network
  imports Kcp_Endpoint
begin

text \<open>
  Two endpoints and the network between them: the life of one connection of the KCP transport under
  loss, duplication and reordering. The state of the connection on both sides is driven by the
  operations of \<open>Kcp_Endpoint\<close>; a packet in flight is never removed, so it may be delivered any
  number of times, in any order, or never. The step relation covers delivery on either side (to a
  known and to an unknown connection), data sent over an established connection, closing, the
  reset that answers a keep-alive, and the cleaning task. Cleaning may happen at any moment, which
  covers every choice of clocks and keep-alive times.
\<close>

subsection \<open>The network\<close>

text \<open>
  The last three fields record the history: the server has accepted a request, and either side has
  been established.
\<close>

record net =
  nw_client :: "conn_state option"
  nw_server :: "conn_state option"
  nw_c2s :: "kcp_packet set"
  nw_s2c :: "kcp_packet set"
  nw_accepted :: bool
  nw_client_established :: bool
  nw_server_established :: bool

definition net_init :: "(nat \<Rightarrow> nat) \<Rightarrow> net \<Rightarrow> bool" where
  "net_init capacity n \<longleftrightarrow> (\<exists>now d. n = \<lparr>nw_client = Some (set_conn_data d (conn_state_new now FsmSynSent)), nw_server = None,
     nw_c2s = {snd (fsm_connect (kcp_packet_flags capacity) (packet_new_with_payload d))}, nw_s2c = {},
     nw_accepted = False, nw_client_established = False, nw_server_established = False\<rparr>)"

text \<open>A packet for an unknown connection, as \<open>recv_first_packet\<close> treats it.\<close>

definition first_packet :: "(nat \<Rightarrow> nat) \<Rightarrow> nat \<Rightarrow> kcp_packet \<Rightarrow> conn_state option \<times> kcp_packet option" where
  "first_packet capacity now p =
    (case recv_first_packet capacity now p (conn_id_from p) (endpoint_new 0 :: unit endpoint) of
       (e, out) \<Rightarrow> (hm_get (ep_state_map e) (conn_id_from p), out))"

inductive net_step :: "(nat \<Rightarrow> nat) \<Rightarrow> net \<Rightarrow> net \<Rightarrow> bool" for capacity where
  client_recv: "p \<in> nw_s2c n \<Longrightarrow> nw_client n = Some st0 \<Longrightarrow> state_handle_packet capacity now st0 p = (st, out) \<Longrightarrow>
    net_step capacity n (n\<lparr>nw_client := Some st, nw_c2s := nw_c2s n \<union> set_option out,
      nw_client_established := nw_client_established n \<or> is_established st\<rparr>)"
| client_first: "p \<in> nw_s2c n \<Longrightarrow> nw_client n = None \<Longrightarrow> first_packet capacity now p = (st, out) \<Longrightarrow>
    net_step capacity n (n\<lparr>nw_client := st, nw_c2s := nw_c2s n \<union> set_option out\<rparr>)"
| server_recv: "p \<in> nw_c2s n \<Longrightarrow> nw_server n = Some st0 \<Longrightarrow> state_handle_packet capacity now st0 p = (st, out) \<Longrightarrow>
    net_step capacity n (n\<lparr>nw_server := Some st, nw_s2c := nw_s2c n \<union> set_option out,
      nw_server_established := nw_server_established n \<or> is_established st\<rparr>)"
| server_first: "p \<in> nw_c2s n \<Longrightarrow> nw_server n = None \<Longrightarrow> first_packet capacity now p = (st, out) \<Longrightarrow>
    net_step capacity n (n\<lparr>nw_server := st, nw_s2c := nw_s2c n \<union> set_option out,
      nw_accepted := nw_accepted n \<or> st \<noteq> None\<rparr>)"
| client_data: "nw_client_established n \<Longrightarrow> net_step capacity n (n\<lparr>nw_c2s := insert (output_packet cid d) (nw_c2s n)\<rparr>)"
| server_data: "nw_server_established n \<Longrightarrow> net_step capacity n (n\<lparr>nw_s2c := insert (output_packet cid d) (nw_s2c n)\<rparr>)"
| client_close: "nw_client n = Some st \<Longrightarrow>
    fsm_close (kcp_packet_flags capacity) (cs_fsm st) (packet_new capacity 0) = (fsm, out) \<Longrightarrow>
    net_step capacity n (n\<lparr>nw_client := Some (st\<lparr>cs_fsm := fsm\<rparr>), nw_c2s := insert out (nw_c2s n)\<rparr>)"
| server_close: "nw_server n = Some st \<Longrightarrow>
    fsm_close (kcp_packet_flags capacity) (cs_fsm st) (packet_new capacity 0) = (fsm, out) \<Longrightarrow>
    net_step capacity n (n\<lparr>nw_server := Some (st\<lparr>cs_fsm := fsm\<rparr>), nw_s2c := insert out (nw_s2c n)\<rparr>)"
| client_reset: "is_rst (pk_header p) \<Longrightarrow> net_step capacity n (n\<lparr>nw_c2s := insert p (nw_c2s n)\<rparr>)"
| server_reset: "is_rst (pk_header p) \<Longrightarrow> net_step capacity n (n\<lparr>nw_s2c := insert p (nw_s2c n)\<rparr>)"
| client_clean: "net_step capacity n (n\<lparr>nw_client := None\<rparr>)"
| server_clean: "net_step capacity n (n\<lparr>nw_server := None\<rparr>)"

inductive_cases net_stepE: "net_step capacity n n'"

subsection \<open>The invariant\<close>

text \<open>
  A SYN-ACK exists only once the server has accepted a request, an ACK+DATA packet of the client only
  once the client has been established, and the server never sends a pure SYN; each side knows at
  most what the packets it received prove.
\<close>

definition net_inv :: "(nat \<Rightarrow> nat) \<Rightarrow> net \<Rightarrow> bool" where
  "net_inv capacity n \<longleftrightarrow>
     (\<forall>p \<in> nw_s2c n. \<not> syn_packet (kcp_packet_flags capacity) p
        \<and> (syn_ack_packet (kcp_packet_flags capacity) p \<longrightarrow> nw_accepted n))
   \<and> (\<forall>p \<in> nw_c2s n. data_packet (kcp_packet_flags capacity) p \<longrightarrow> nw_client_established n)
   \<and> (nw_client_established n \<longrightarrow> nw_accepted n)
   \<and> (nw_server_established n \<longrightarrow> nw_client_established n)
   \<and> (\<forall>st. nw_client n = Some st \<longrightarrow> cs_fsm st \<notin> {FsmListen, FsmSynReceived}
        \<and> (is_established st \<longrightarrow> nw_client_established n))
   \<and> (\<forall>st. nw_server n = Some st \<longrightarrow> cs_fsm st \<notin> {FsmListen, FsmSynSent}
        \<and> (is_established st \<longrightarrow> nw_server_established n))"

lemma net_invI:
  assumes "\<And>p. p \<in> nw_s2c n \<Longrightarrow> \<not> syn_packet (kcp_packet_flags capacity) p"
    and "\<And>p. p \<in> nw_s2c n \<Longrightarrow> syn_ack_packet (kcp_packet_flags capacity) p \<Longrightarrow> nw_accepted n"
    and "\<And>p. p \<in> nw_c2s n \<Longrightarrow> data_packet (kcp_packet_flags capacity) p \<Longrightarrow> nw_client_established n"
    and "nw_client_established n \<Longrightarrow> nw_accepted n" and "nw_server_established n \<Longrightarrow> nw_client_established n"
    and "\<And>st. nw_client n = Some st \<Longrightarrow> cs_fsm st \<notin> {FsmListen, FsmSynReceived} \<and> (is_established st \<longrightarrow> nw_client_established n)"
    and "\<And>st. nw_server n = Some st \<Longrightarrow> cs_fsm st \<notin> {FsmListen, FsmSynSent} \<and> (is_established st \<longrightarrow> nw_server_established n)"
  shows "net_inv capacity n"
  using assms unfolding net_inv_def by blast

lemma net_invD:
  assumes "net_inv capacity n"
  shows "p \<in> nw_s2c n \<Longrightarrow> \<not> syn_packet (kcp_packet_flags capacity) p"
    and "p \<in> nw_s2c n \<Longrightarrow> syn_ack_packet (kcp_packet_flags capacity) p \<Longrightarrow> nw_accepted n"
    and "p \<in> nw_c2s n \<Longrightarrow> data_packet (kcp_packet_flags capacity) p \<Longrightarrow> nw_client_established n"
    and "nw_client_established n \<Longrightarrow> nw_accepted n" and "nw_server_established n \<Longrightarrow> nw_client_established n"
    and "nw_client n = Some st \<Longrightarrow> cs_fsm st \<notin> {FsmListen, FsmSynReceived}"
    and "nw_client n = Some st \<Longrightarrow> is_established st \<Longrightarrow> nw_client_established n"
    and "nw_server n = Some st \<Longrightarrow> cs_fsm st \<notin> {FsmListen, FsmSynSent}"
    and "nw_server n = Some st \<Longrightarrow> is_established st \<Longrightarrow> nw_server_established n"
  using assms unfolding net_inv_def by blast+

text \<open>What handling a packet does to a machine on either side.\<close>

lemma fsm_step_target:
  assumes "fst (fsm_handle_packet fo s p None) = t"
  shows "(t = FsmSynReceived \<longrightarrow> s = FsmListen \<or> s = t) \<and> (t = FsmSynSent \<longrightarrow> s = t) \<and> (t = FsmListen \<longrightarrow> s = t)"
  using assms unfolding fsm_handle_state by (cases s) (auto split: if_splits)

lemma state_handle_fsm:
  assumes "state_handle_packet capacity now st p = (st', out)"
  shows "cs_fsm st' = fst (fsm_handle_packet (kcp_packet_flags capacity) (cs_fsm st) p None)"
    and "out = Some q \<Longrightarrow> \<exists>r. fsm_handle_packet (kcp_packet_flags capacity) (cs_fsm st) p None = (cs_fsm st', Some q, r)"
  using assms by (auto simp: state_handle_packet_def notify_pong_def Let_def split: prod.splits if_splits)

lemma reset_shape:
  assumes "is_rst (pk_header p)"
  shows "\<not> syn_packet (kcp_packet_flags capacity) p" and "\<not> syn_ack_packet (kcp_packet_flags capacity) p"
    and "\<not> data_packet (kcp_packet_flags capacity) p"
  using assms by (auto simp: packet_shape_defs flags_of_def kcp_packet_flags_def)

lemma close_packet_shape:
  "fsm_close (kcp_packet_flags capacity) s (packet_new capacity 0) = (t, q) \<Longrightarrow> fin_packet (kcp_packet_flags capacity) q"
  using kp.close_shape [of capacity s t q] by (simp add: kcp_packet_flags_def)

lemma fsm_close_target: "fsm_close fo s q = (fsm, out) \<Longrightarrow> fsm \<in> {FsmLocalClosed, FsmClosed}"
  by (auto simp: fsm_close_def split: if_splits)

text \<open>An unknown connection is created exactly by a pure SYN, and is answered by a SYN-ACK or a reset.\<close>

lemma first_packet_cases:
  assumes "first_packet capacity now p = (st, out)"
  shows "(st = None \<and> (\<forall>q. out = Some q \<longrightarrow> rst_packet (kcp_packet_flags capacity) q))
    \<or> (\<exists>x. st = Some x \<and> cs_fsm x = FsmSynReceived \<and> syn_packet (kcp_packet_flags capacity) p
         \<and> (\<forall>q. out = Some q \<longrightarrow> syn_ack_packet (kcp_packet_flags capacity) q))"
  using assms kp.rst_shape [of capacity] kp.syn_ack_shape [of capacity]
  by (auto simp: first_packet_def recv_first_packet_def fsm_handle_packet_def fsm_listen_def endpoint_new_def
      check_packet_flag_iff syn_packet_def conn_state_new_def set_conn_data_def hm_get_def hm_insert_def
      split: if_splits)

lemma net_step_client_recv:
  assumes inv: "net_inv capacity n" and p: "p \<in> nw_s2c n" and client: "nw_client n = Some st0"
    and step: "state_handle_packet capacity now st0 p = (st, out)"
  shows "net_inv capacity (n\<lparr>nw_client := Some st, nw_c2s := nw_c2s n \<union> set_option out,
      nw_client_established := nw_client_established n \<or> is_established st\<rparr>)"
proof -
  let ?fo = "kcp_packet_flags capacity" and ?s = "cs_fsm st0"
  note fsm = state_handle_fsm(1) [OF step]
  have s: "?s \<notin> {FsmListen, FsmSynReceived}" by (rule net_invD(6) [OF inv client])
  have est: "nw_accepted n" if "is_established st"
  proof (cases "?s = FsmEstablished")
    case True
    then show ?thesis using net_invD(4,7) [OF inv] client by (simp add: is_established_def)
  next
    case False
    with that fsm established_only_by_handshake [of ?s ?fo p None] s have "syn_ack_packet ?fo p"
      by (simp add: is_established_def)
    then show ?thesis by (rule net_invD(2) [OF inv p])
  qed
  have out: "is_established st" if "out = Some q" "data_packet ?fo q" for q
    using state_handle_fsm(2) [OF step that(1)] kp.out_shape [of capacity ?s p "cs_fsm st" q] that(2)
    by (auto simp: is_established_def packet_shape_defs)
  have t: "cs_fsm st \<notin> {FsmListen, FsmSynReceived}"
    using fsm_step_target [of ?fo ?s p "cs_fsm st"] fsm s by auto
  show ?thesis
    using t by (intro net_invI) (auto dest: net_invD [OF inv] est out)
qed

lemma net_step_server_recv:
  assumes inv: "net_inv capacity n" and p: "p \<in> nw_c2s n" and server: "nw_server n = Some st0"
    and step: "state_handle_packet capacity now st0 p = (st, out)"
  shows "net_inv capacity (n\<lparr>nw_server := Some st, nw_s2c := nw_s2c n \<union> set_option out,
      nw_server_established := nw_server_established n \<or> is_established st\<rparr>)"
proof -
  let ?fo = "kcp_packet_flags capacity" and ?s = "cs_fsm st0"
  note fsm = state_handle_fsm(1) [OF step]
  have s: "?s \<notin> {FsmListen, FsmSynSent}" by (rule net_invD(8) [OF inv server])
  have est: "nw_client_established n" if "is_established st"
  proof (cases "?s = FsmEstablished")
    case True
    then show ?thesis using net_invD(5,9) [OF inv] server by (simp add: is_established_def)
  next
    case False
    with that fsm established_only_by_handshake [of ?s ?fo p None] s have "data_packet ?fo p"
      by (simp add: is_established_def)
    then show ?thesis by (rule net_invD(3) [OF inv p])
  qed
  have out: "\<not> syn_packet ?fo q \<and> \<not> syn_ack_packet ?fo q" if "out = Some q" for q
    using state_handle_fsm(2) [OF step that] kp.out_shape [of capacity ?s p "cs_fsm st" q] s
    by (auto simp: packet_shape_defs)
  have t: "cs_fsm st \<notin> {FsmListen, FsmSynSent}"
    using fsm_step_target [of ?fo ?s p "cs_fsm st"] fsm s by auto
  show ?thesis
    using t by (intro net_invI) (auto dest: net_invD [OF inv] est out)
qed

lemma net_step_first:
  assumes inv: "net_inv capacity n" and step: "first_packet capacity now p = (st, out)"
  shows "p \<in> nw_s2c n \<Longrightarrow> net_inv capacity (n\<lparr>nw_client := st, nw_c2s := nw_c2s n \<union> set_option out\<rparr>)"
    and "net_inv capacity (n\<lparr>nw_server := st, nw_s2c := nw_s2c n \<union> set_option out,
      nw_accepted := nw_accepted n \<or> st \<noteq> None\<rparr>)"
proof -
  let ?fo = "kcp_packet_flags capacity"
  note first = first_packet_cases [OF step]
  have out: "\<not> data_packet ?fo q \<and> \<not> syn_packet ?fo q" "syn_ack_packet ?fo q \<Longrightarrow> st \<noteq> None" if "out = Some q" for q
    using first that by (auto simp: packet_shape_defs)
  show "net_inv capacity (n\<lparr>nw_client := st, nw_c2s := nw_c2s n \<union> set_option out\<rparr>)" if p: "p \<in> nw_s2c n"
  proof -
    from first net_invD(1) [OF inv p] have "st = None" by auto
    then show ?thesis by (intro net_invI) (auto dest: net_invD [OF inv] out)
  qed
  show "net_inv capacity (n\<lparr>nw_server := st, nw_s2c := nw_s2c n \<union> set_option out,
      nw_accepted := nw_accepted n \<or> st \<noteq> None\<rparr>)"
  proof -
    from first have "cs_fsm x = FsmSynReceived" if "st = Some x" for x using that by auto
    then show ?thesis
      by (intro net_invI) (auto simp: is_established_def dest: net_invD [OF inv] out)
  qed
qed

lemma net_step_close:
  assumes inv: "net_inv capacity n"
    and close: "fsm_close (kcp_packet_flags capacity) s (packet_new capacity 0) = (fsm, out)"
  shows "net_inv capacity (n\<lparr>nw_client := Some (st\<lparr>cs_fsm := fsm\<rparr>), nw_c2s := insert out (nw_c2s n)\<rparr>)"
    and "net_inv capacity (n\<lparr>nw_server := Some (st\<lparr>cs_fsm := fsm\<rparr>), nw_s2c := insert out (nw_s2c n)\<rparr>)"
proof -
  let ?fo = "kcp_packet_flags capacity"
  have out: "\<not> data_packet ?fo out" "\<not> syn_packet ?fo out" "\<not> syn_ack_packet ?fo out"
    using close_packet_shape [OF close] by (auto simp: packet_shape_defs)
  note t = fsm_close_target [OF close]
  show "net_inv capacity (n\<lparr>nw_client := Some (st\<lparr>cs_fsm := fsm\<rparr>), nw_c2s := insert out (nw_c2s n)\<rparr>)"
    using out t by (intro net_invI) (auto simp: is_established_def dest: net_invD [OF inv])
  show "net_inv capacity (n\<lparr>nw_server := Some (st\<lparr>cs_fsm := fsm\<rparr>), nw_s2c := insert out (nw_s2c n)\<rparr>)"
    using out t by (intro net_invI) (auto simp: is_established_def dest: net_invD [OF inv])
qed

lemma net_step_inv: "net_inv capacity n \<Longrightarrow> net_step capacity n n' \<Longrightarrow> net_inv capacity n'"
proof (erule net_stepE, goal_cases)
  case (4 p now st out)
  show ?case unfolding 4(2) using net_step_first(2) [OF 4(1,5)] by simp
next
  case (5 cid d)
  then show ?case by (auto simp: net_inv_def)
next
  case (6 cid d)
  then show ?case
    using output_packet_shape [of capacity cid d] by (auto simp: net_inv_def packet_shape_defs)
next
  case (9 p)
  then show ?case using reset_shape [of p] by (auto simp: net_inv_def)
next
  case (10 p)
  then show ?case using reset_shape [of p] by (auto simp: net_inv_def)
next
  case 11
  then show ?case by (auto simp: net_inv_def)
next
  case 12
  then show ?case by (auto simp: net_inv_def)
qed (auto intro: net_step_client_recv net_step_server_recv net_step_first net_step_close)

lemma net_init_inv: "net_init capacity n \<Longrightarrow> net_inv capacity n"
  using connect_packet_shape [of capacity undefined]
  by (auto simp: net_init_def net_inv_def conn_state_defs fsm_connect_def syn_packet_def data_packet_def)

interpretation net: step_invariant "net_init capacity" "net_step capacity" "net_inv capacity" for capacity
  by unfold_locales (auto intro: net_init_inv net_step_inv)

text \<open>
  C24. Handshake agreement over an unreliable network: however packets are lost, duplicated and
  reordered, and whenever the sides close, reset or forget the connection, the server is only ever
  established if the client has been established, and the client only if the server has accepted the
  connection request.
\<close>

theorem handshake_agreement:
  assumes "reach (net_init capacity) (net_step capacity) n"
  shows "(nw_server_established n \<longrightarrow> nw_client_established n)
    \<and> (nw_client_established n \<longrightarrow> nw_accepted n)
    \<and> (\<forall>st. nw_client n = Some st \<and> is_established st \<longrightarrow> nw_accepted n)
    \<and> (\<forall>st. nw_server n = Some st \<and> is_established st \<longrightarrow> nw_client_established n)"
  using net.reach_inv [OF assms] unfolding net_inv_def by blast

theorem handshake_agreement_witness:
  "\<exists>n. reach (net_init id) (net_step id) n \<and> nw_client_established n \<and> nw_accepted n"
proof -
  let ?fo = "kcp_packet_flags id"
  let ?syn = "snd (fsm_connect ?fo (packet_new_with_payload []))"
  let ?sa = "put_ack ?fo (put_syn ?fo (p_default ?fo) True) True"
  define n0 where "n0 = \<lparr>nw_client = Some (set_conn_data [] (conn_state_new 0 FsmSynSent)), nw_server = None,
     nw_c2s = {?syn}, nw_s2c = {}, nw_accepted = False, nw_client_established = False, nw_server_established = False\<rparr>"
  have r0: "reach (net_init id) (net_step id) n0"
    by (rule reach_init) (auto simp: net_init_def n0_def)
  have syn: "flags_of ?fo ?syn = (True, False, False, False, False)"
    using connect_packet_shape [of id] by (simp add: fsm_connect_def syn_packet_def)
  then have "\<not> is_rst (pk_header ?syn)"
    by (simp add: flags_of_def) (simp add: kcp_packet_flags_def)
  with syn obtain x where first: "first_packet id 0 ?syn = (Some x, Some ?sa)"
    by (simp add: first_packet_def recv_first_packet_def fsm_handle_packet_def fsm_listen_def
        check_packet_flag_iff endpoint_new_def hmap_simps)
  define n1 where "n1 = n0\<lparr>nw_server := Some x, nw_s2c := nw_s2c n0 \<union> set_option (Some ?sa), nw_accepted := nw_accepted n0 \<or> Some x \<noteq> None\<rparr>"
  have r1: "reach (net_init id) (net_step id) n1"
    unfolding n1_def by (rule reach_step [OF r0 server_first [OF _ _ first]]) (simp_all add: n0_def)
  obtain st out where step: "state_handle_packet id 0 (set_conn_data [] (conn_state_new 0 FsmSynSent)) ?sa = (st, out)"
    by force
  have "is_established st"
    using state_handle_fsm(1) [OF step] kp.syn_ack_shape [of id]
    by (simp add: is_established_def set_conn_data_def conn_state_new_def fsm_handle_packet_def
        check_packet_flag_iff syn_ack_packet_def)
  moreover have "reach (net_init id) (net_step id) (n1\<lparr>nw_client := Some st, nw_c2s := nw_c2s n1 \<union> set_option out,
      nw_client_established := nw_client_established n1 \<or> is_established st\<rparr>)" (is "reach _ _ ?n2")
    by (rule reach_step [OF r1 client_recv [OF _ _ step]]) (simp_all add: n0_def n1_def)
  ultimately show ?thesis using handshake_agreement [of id ?n2] by (intro exI [of _ ?n2]) simp
qed

end
