(* ===== verification/Fs_Job.thy ===== *)
theory Fs_Job
  imports Prelude
begin

text \<open>
  File-transfer jobs, \<open>libs/hbb_common/src/fs.rs\<close>: the job record, its reading side (opening the
  next file, the digest handshake, cutting a file into blocks) and its writing side (creating the
  download file, appending blocks, finishing a file), resuming, and the scheduler over the list of
  jobs.

  A file system is a partial map from paths to contents; an open file is its path and position, and
  it follows the file when the file is renamed. What the operating system decides (which files can be
  opened, created, written, renamed or removed, how many bytes a read returns, modification times) and the compression
  library are parameters collected in \<open>fs_env\<close>. Paths are Unix paths. Modification times of written
  files are not part of the model.
\<close>

subsection \<open>Paths and names\<close>

definition path_join :: "string \<Rightarrow> string \<Rightarrow> string" where
  "path_join p name =
     (if name \<noteq> [] \<and> name ! 0 = CHR ''/'' then name
      else if p = [] then name
      else if last p = CHR ''/'' then p @ name
      else p @ ''/'' @ name)"

definition job_join :: "string \<Rightarrow> string \<Rightarrow> string" where
  "job_join p name = (if name = [] then p else path_join p name)"

definition download_path :: "string \<Rightarrow> string" where
  "download_path path = path @ ''.download''"

definition digest_path :: "string \<Rightarrow> string" where
  "digest_path path = path @ ''.digest''"

text \<open>The text after the last dot, or nothing when there is none.\<close>

definition get_ext :: "string \<Rightarrow> string" where
  "get_ext name =
     (if CHR ''.'' \<in> set name then rev (takeWhile (\<lambda>c. c \<noteq> CHR ''.'') (rev name)) else [])"

definition is_compressed_file :: "string \<Rightarrow> bool" where
  "is_compressed_file name \<longleftrightarrow>
     get_ext name \<in> set [''xz'', ''gz'', ''zip'', ''7z'', ''rar'', ''bz2'', ''tgz'', ''png'', ''jpg'']"

subsection \<open>Jobs\<close>

datatype job_type = JobGeneric | JobPrinter

definition job_type_of_i32 :: "i32 \<Rightarrow> job_type" where
  "job_type_of_i32 v = (if v = 0 then JobGeneric else if v = 1 then JobPrinter else JobGeneric)"

fun job_type_to_i32 :: "job_type \<Rightarrow> i32" where
  "job_type_to_i32 JobGeneric = 0"
| "job_type_to_i32 JobPrinter = 1"

datatype data_source = FilePath string | MemoryCursor bytes

datatype data_stream = FileStream string nat | BufStream bytes nat

fun to_meta :: "data_source \<Rightarrow> string" where
  "to_meta (FilePath p) = p"
| "to_meta (MemoryCursor _) = []"

record file_entry =
  fe_name :: string
  fe_size :: u64
  fe_modified_time :: u64

record file_digest =
  dg_size :: u64
  dg_modified :: u64

record transfer_job =
  tj_id :: i32
  tj_type :: job_type
  tj_remote :: string
  tj_data_source :: data_source
  tj_show_hidden :: bool
  tj_is_remote :: bool
  tj_is_last_job :: bool
  tj_is_resume :: bool
  tj_file_num :: i32
  tj_files :: "file_entry list"
  tj_conn_id :: i32
  tj_data_stream :: "data_stream option"
  tj_total_size :: u64
  tj_finished_size :: u64
  tj_transferred :: u64
  tj_enable_overwrite_detection :: bool
  tj_file_confirmed :: bool
  tj_file_skipped :: bool
  tj_file_is_waiting :: bool
  tj_default_overwrite_strategy :: "bool option"
  tj_digest :: file_digest

record transfer_job_meta =
  tm_id :: i32
  tm_remote :: string
  tm_to :: string
  tm_show_hidden :: bool
  tm_file_num :: i32
  tm_is_remote :: bool

record file_block =
  fb_id :: i32
  fb_file_num :: i32
  fb_data :: bytes
  fb_compressed :: bool

datatype confirm_union = ConfirmSkip bool | ConfirmOffsetBlk u32

record confirm_request =
  cr_id :: i32
  cr_file_num :: i32
  cr_union :: "confirm_union option"

record file_transfer_digest =
  fd_id :: i32
  fd_file_num :: i32
  fd_last_modified :: u64
  fd_file_size :: u64
  fd_is_identical :: bool
  fd_transferred_size :: u64
  fd_is_resume :: bool

datatype fs_msg =
    MsgDigest file_transfer_digest | MsgError i32 string i32 | MsgBlock file_block | MsgDone i32 i32

type_synonym fsys = "string \<Rightarrow> bytes option"

text \<open>
  The environment. \<open>fv_read\<close> bounds what the \<open>n\<close>-th read call of a round returns (\<open>None\<close> is an
  I/O error); a modification time is seconds and nanoseconds; the compressor fails with \<open>None\<close>.
\<close>

record fs_env =
  fv_can_open :: "string \<Rightarrow> bool"
  fv_can_create :: "string \<Rightarrow> bool"
  fv_can_remove :: "string \<Rightarrow> bool"
  fv_can_rename :: "string \<Rightarrow> string \<Rightarrow> bool"
  fv_can_write :: "string \<Rightarrow> bool"
  fv_sync_ok :: bool
  fv_mtime :: "string \<Rightarrow> (u64 \<times> nat) option"
  fv_read :: "nat \<Rightarrow> nat option"
  fv_send_ok :: bool
  fv_compress :: "bytes \<Rightarrow> bytes option"
  fv_decompress :: "bytes \<Rightarrow> bytes option"
  fv_digest_json :: "file_digest \<Rightarrow> bytes"
  fv_digest_parse :: "bytes \<Rightarrow> file_digest option"

text \<open>\<open>compress\<close> and \<open>decompress\<close> turn a failure of the library into an empty result.\<close>

definition compress :: "fs_env \<Rightarrow> bytes \<Rightarrow> bytes" where
  "compress env data = (case fv_compress env data of None \<Rightarrow> [] | Some res \<Rightarrow> res)"

definition decompress :: "fs_env \<Rightarrow> bytes \<Rightarrow> bytes" where
  "decompress env data = (case fv_decompress env data of None \<Rightarrow> [] | Some res \<Rightarrow> res)"

definition sum_sizes :: "file_entry list \<Rightarrow> u64" where
  "sum_sizes files = sum_list (map fe_size files)"

definition job_default :: transfer_job where
  "job_default = \<lparr>tj_id = 0, tj_type = JobGeneric, tj_remote = [], tj_data_source = FilePath [],
     tj_show_hidden = False, tj_is_remote = False, tj_is_last_job = False, tj_is_resume = False,
     tj_file_num = 0, tj_files = [], tj_conn_id = 0, tj_data_stream = None, tj_total_size = 0,
     tj_finished_size = 0, tj_transferred = 0, tj_enable_overwrite_detection = False,
     tj_file_confirmed = False, tj_file_skipped = False, tj_file_is_waiting = False,
     tj_default_overwrite_strategy = None, tj_digest = \<lparr>dg_size = 0, dg_modified = 0\<rparr>\<rparr>"

definition new_write ::
    "i32 \<Rightarrow> job_type \<Rightarrow> string \<Rightarrow> data_source \<Rightarrow> i32 \<Rightarrow> bool \<Rightarrow> bool \<Rightarrow> file_entry list \<Rightarrow> bool \<Rightarrow> transfer_job" where
  "new_write i ty remote src file_num show_hidden is_remote files overwrite =
     job_default\<lparr>tj_id := i, tj_type := ty, tj_remote := remote, tj_data_source := src,
       tj_file_num := file_num, tj_show_hidden := show_hidden, tj_is_remote := is_remote,
       tj_files := files, tj_total_size := sum_sizes files, tj_enable_overwrite_detection := overwrite\<rparr>"

text \<open>\<open>listing\<close> is what the recursive directory walk returns for a path.\<close>

definition new_read ::
    "(string \<Rightarrow> bool \<Rightarrow> (file_entry list, string) result) \<Rightarrow> i32 \<Rightarrow> job_type \<Rightarrow> string \<Rightarrow> data_source \<Rightarrow> i32
      \<Rightarrow> bool \<Rightarrow> bool \<Rightarrow> bool \<Rightarrow> (transfer_job, string) result" where
  "new_read listing i ty remote src file_num show_hidden is_remote overwrite =
    (let mk = (\<lambda>files total. job_default\<lparr>tj_id := i, tj_type := ty, tj_remote := remote,
       tj_data_source := src, tj_file_num := file_num, tj_show_hidden := show_hidden,
       tj_is_remote := is_remote, tj_files := files, tj_total_size := total,
       tj_enable_overwrite_detection := overwrite\<rparr>) in
     (case src of
        FilePath p \<Rightarrow>
          (case listing p show_hidden of
             Err e \<Rightarrow> Err e
           | Ok files \<Rightarrow> Ok (mk files (sum_sizes files)))
      | MemoryCursor c \<Rightarrow> Ok (mk [] (of_nat (length c)))))"

definition get_buf_data :: "transfer_job \<Rightarrow> bytes option" where
  "get_buf_data job = (case tj_data_stream job of Some (BufStream b pos) \<Rightarrow> Some b | _ \<Rightarrow> None)"

definition set_files :: "file_entry list \<Rightarrow> transfer_job \<Rightarrow> transfer_job" where
  "set_files files job = job\<lparr>tj_files := files\<rparr>"

definition set_digest :: "u64 \<Rightarrow> u64 \<Rightarrow> transfer_job \<Rightarrow> transfer_job" where
  "set_digest sz modified job = job\<lparr>tj_digest := \<lparr>dg_size = sz, dg_modified = modified\<rparr>\<rparr>"

definition set_finished_size_on_resume :: "transfer_job \<Rightarrow> transfer_job" where
  "set_finished_size_on_resume job =
     (if tj_is_resume job \<and> 0 <s tj_file_num job
      then job\<lparr>tj_finished_size := sum_sizes (take (i32_as_usize (tj_file_num job)) (tj_files job))\<rparr>
      else job)"

definition set_overwrite_strategy :: "bool option \<Rightarrow> transfer_job \<Rightarrow> transfer_job" where
  "set_overwrite_strategy s job = job\<lparr>tj_default_overwrite_strategy := s\<rparr>"

definition set_file_confirmed :: "bool \<Rightarrow> transfer_job \<Rightarrow> transfer_job" where
  "set_file_confirmed b job = job\<lparr>tj_file_confirmed := b, tj_file_skipped := False\<rparr>"

definition set_file_is_waiting :: "bool \<Rightarrow> transfer_job \<Rightarrow> transfer_job" where
  "set_file_is_waiting b job = job\<lparr>tj_file_is_waiting := b\<rparr>"

definition job_skipped :: "transfer_job \<Rightarrow> bool" where
  "job_skipped job \<longleftrightarrow> tj_file_skipped job \<and> length (tj_files job) = 1"

definition job_completed :: "transfer_job \<Rightarrow> bool" where
  "job_completed job \<longleftrightarrow>
     \<not> tj_enable_overwrite_detection job \<or> (\<not> tj_file_confirmed job \<and> \<not> tj_file_is_waiting job)"

definition job_error :: "transfer_job \<Rightarrow> string option" where
  "job_error job = (if job_skipped job then Some ''skipped'' else None)"

definition set_file_skipped :: "transfer_job \<Rightarrow> transfer_job" where
  "set_file_skipped job =
    (let job = set_file_is_waiting False (set_file_confirmed False (job\<lparr>tj_data_stream := None\<rparr>)) in
     job\<lparr>tj_file_num := tj_file_num job + 1, tj_file_skipped := True\<rparr>)"

definition gen_meta :: "transfer_job \<Rightarrow> transfer_job_meta" where
  "gen_meta job = \<lparr>tm_id = tj_id job, tm_remote = tj_remote job, tm_to = to_meta (tj_data_source job),
     tm_show_hidden = tj_show_hidden job, tm_file_num = tj_file_num job, tm_is_remote = tj_is_remote job\<rparr>"

subsection \<open>Files on disk\<close>

definition fs_remove :: "string \<Rightarrow> fsys \<Rightarrow> fsys" where
  "fs_remove p fs = fs(p := None)"

definition fs_rename :: "string \<Rightarrow> string \<Rightarrow> fsys \<Rightarrow> fsys" where
  "fs_rename a b fs = (case fs a of None \<Rightarrow> fs | Some c \<Rightarrow> (fs(a := None))(b \<mapsto> c))"

definition overwrite_at :: "nat \<Rightarrow> bytes \<Rightarrow> bytes \<Rightarrow> bytes" where
  "overwrite_at pos data content =
     take pos (content @ replicate (pos - length content) 0) @ data @ drop (pos + length data) content"

text \<open>Writing through an open file whose name has gone is possible but has no visible effect.\<close>

definition fs_write_at :: "string \<Rightarrow> nat \<Rightarrow> bytes \<Rightarrow> fsys \<Rightarrow> fsys" where
  "fs_write_at p pos data fs = (case fs p of None \<Rightarrow> fs | Some c \<Rightarrow> fs(p \<mapsto> overwrite_at pos data c))"

definition stream_follow :: "string \<Rightarrow> string \<Rightarrow> data_stream option \<Rightarrow> data_stream option" where
  "stream_follow a b st =
     (case st of Some (FileStream p pos) \<Rightarrow> Some (FileStream (if p = a then b else p) pos) | _ \<Rightarrow> st)"

fun is_file_stream :: "data_stream option \<Rightarrow> bool" where
  "is_file_stream (Some (FileStream p pos)) = True"
| "is_file_stream _ = False"

definition current_path :: "transfer_job \<Rightarrow> string option" where
  "current_path job =
    (case tj_data_source job of
       FilePath p \<Rightarrow>
         (let file_num = i32_as_usize (tj_file_num job) in
          if file_num < length (tj_files job) then Some (job_join p (fe_name (tj_files job ! file_num))) else None)
     | MemoryCursor _ \<Rightarrow> None)"

text \<open>A removal or renaming whose failure the code ignores (\<open>.ok()\<close>).\<close>

definition fs_try_remove :: "fs_env \<Rightarrow> string \<Rightarrow> fsys \<Rightarrow> fsys" where
  "fs_try_remove env p fs = (if fv_can_remove env p then fs_remove p fs else fs)"

definition modify_time :: "fs_env \<Rightarrow> transfer_job \<Rightarrow> fsys \<Rightarrow> transfer_job \<times> fsys" where
  "modify_time env job fs =
    (if tj_type job = JobPrinter then (job, fs)
     else case current_path job of
       None \<Rightarrow> (job, fs)
     | Some path \<Rightarrow>
         (let fs = fs_try_remove env (digest_path path) fs in
          if fs (download_path path) \<noteq> None \<and> fv_can_rename env (download_path path) path
          then (job\<lparr>tj_data_stream := stream_follow (download_path path) path (tj_data_stream job)\<rparr>,
                fs_rename (download_path path) path fs)
          else (job, fs)))"

definition remove_download_file :: "fs_env \<Rightarrow> transfer_job \<Rightarrow> fsys \<Rightarrow> fsys" where
  "remove_download_file env job fs =
    (if tj_type job = JobPrinter then fs
     else case current_path job of
       None \<Rightarrow> fs
     | Some path \<Rightarrow> fs_try_remove env (digest_path path) (fs_try_remove env (download_path path) fs))"

subsection \<open>Writing\<close>

type_synonym 'a job_result = "transfer_job \<times> fsys \<times> ('a, string) result"

text \<open>
  Opening the file a block belongs to: finish the previous file, then create the download file and
  its digest. A failing step returns at once and leaves what was done before it.
\<close>

definition open_write_file :: "fs_env \<Rightarrow> string \<Rightarrow> i32 \<Rightarrow> transfer_job \<Rightarrow> fsys \<Rightarrow> unit job_result" where
  "open_write_file env p block_file_num job fs =
    (let (job, fs) = modify_time env job fs in
     if is_file_stream (tj_data_stream job) \<and> \<not> fv_sync_ok env
     then (job, fs, Err ''sync failed'') else
     let job = job\<lparr>tj_file_num := block_file_num\<rparr>;
         entry = tj_files job ! i32_as_usize block_file_num in
     if tj_type job = JobPrinter then
       (if fv_can_create env p
        then (job\<lparr>tj_data_stream := Some (FileStream p 0)\<rparr>, fs(p \<mapsto> []), Ok ())
        else (job, fs, Err ''create failed''))
     else
       let path = job_join p (fe_name entry);
           dl = download_path path; dp = digest_path path in
       if fs dp \<noteq> None \<and> \<not> fv_can_remove env dp then (job, fs, Err ''remove failed'')
       else let fs = fs_remove dp fs in
       if fv_can_create env dl
       then (job\<lparr>tj_data_stream := Some (FileStream dl 0)\<rparr>,
             (fs(dl \<mapsto> []))(dp := if fv_can_create env dp then Some (fv_digest_json env (tj_digest job)) else None),
             Ok ())
       else (job, fs, Err ''create failed''))"

definition stream_write_all :: "fs_env \<Rightarrow> bytes \<Rightarrow> transfer_job \<Rightarrow> fsys \<Rightarrow> unit job_result" where
  "stream_write_all env data job fs =
    (case tj_data_stream job of
       None \<Rightarrow> (job, fs, Err ''data stream is None'')
     | Some (FileStream p pos) \<Rightarrow>
         if fv_can_write env p
         then (job\<lparr>tj_data_stream := Some (FileStream p (pos + length data))\<rparr>, fs_write_at p pos data fs, Ok ())
         else (job, fs, Err ''write failed'')
     | Some (BufStream b pos) \<Rightarrow>
         (job\<lparr>tj_data_stream := Some (BufStream (overwrite_at pos data b) (pos + length data))\<rparr>, fs, Ok ()))"

definition write_block_data :: "fs_env \<Rightarrow> file_block \<Rightarrow> transfer_job \<Rightarrow> fsys \<Rightarrow> unit job_result" where
  "write_block_data env block job fs =
    (let data = (if fb_compressed block then decompress env (fb_data block) else fb_data block) in
     case stream_write_all env data job fs of
       (job, fs, Err e) \<Rightarrow> (job, fs, Err e)
     | (job, fs, Ok _) \<Rightarrow>
         (job\<lparr>tj_finished_size := tj_finished_size job + of_nat (length data),
              tj_transferred := tj_transferred job + of_nat (length (fb_data block))\<rparr>, fs, Ok ()))"

definition job_write :: "fs_env \<Rightarrow> file_block \<Rightarrow> transfer_job \<Rightarrow> fsys \<Rightarrow> unit job_result" where
  "job_write env block job fs =
    (if fb_id block \<noteq> tj_id job then (job, fs, Err ''Wrong id'')
     else case tj_data_source job of
       FilePath p \<Rightarrow>
         (let file_num = i32_as_usize (fb_file_num block) in
          if file_num \<ge> length (tj_files job) then (job, fs, Err ''Wrong file number'')
          else if file_num \<noteq> i32_as_usize (tj_file_num job) \<or> tj_data_stream job = None
          then (case open_write_file env p (fb_file_num block) job fs of
                  (job, fs, Err e) \<Rightarrow> (job, fs, Err e)
                | (job, fs, Ok _) \<Rightarrow> write_block_data env block job fs)
          else write_block_data env block job fs)
     | MemoryCursor c \<Rightarrow>
         write_block_data env block
           (if tj_data_stream job = None then job\<lparr>tj_data_stream := Some (BufStream c 0)\<rparr> else job) fs)"

subsection \<open>Reading\<close>

definition send_current_digest :: "fs_env \<Rightarrow> fsys \<Rightarrow> transfer_job \<Rightarrow> fs_msg list \<times> (unit, string) result" where
  "send_current_digest env fs job =
    (case tj_data_stream job of
       None \<Rightarrow> ([], Err ''file is None'')
     | Some (BufStream _ _) \<Rightarrow> ([], Err ''No need to send digest for buf stream'')
     | Some (FileStream p pos) \<Rightarrow>
         (case (fs p, fv_mtime env p) of
            (Some content, Some (last_modified, nanos)) \<Rightarrow>
              if fv_send_ok env
              then ([MsgDigest \<lparr>fd_id = tj_id job, fd_file_num = tj_file_num job,
                       fd_last_modified = last_modified, fd_file_size = of_nat (length content),
                       fd_is_identical = False, fd_transferred_size = 0, fd_is_resume = tj_is_resume job\<rparr>], Ok ())
              else ([], Err ''send failed'')
          | _ \<Rightarrow> ([], Err ''metadata failed'')))"

definition digest_handshake :: "fs_env \<Rightarrow> fsys \<Rightarrow> transfer_job \<Rightarrow> transfer_job \<times> fs_msg list \<times> (unit, string) result" where
  "digest_handshake env fs job =
    (if tj_type job = JobGeneric \<and> tj_enable_overwrite_detection job \<and> \<not> tj_file_confirmed job
        \<and> \<not> tj_file_is_waiting job
     then (case send_current_digest env fs job of
             (msgs, Err e) \<Rightarrow> (job, msgs, Err e)
           | (msgs, Ok _) \<Rightarrow> (set_file_is_waiting True job, msgs, Ok ()))
     else (job, [], Ok ()))"

definition init_data_stream :: "fs_env \<Rightarrow> fsys \<Rightarrow> transfer_job \<Rightarrow> transfer_job \<times> fs_msg list \<times> (unit, string) result" where
  "init_data_stream env fs job =
    (let file_num = i32_as_usize (tj_file_num job) in
     case tj_data_source job of
       FilePath p \<Rightarrow>
         if file_num \<ge> length (tj_files job) then (job\<lparr>tj_data_stream := None\<rparr>, [], Ok ())
         else if tj_data_stream job = None then
           (let path = job_join p (fe_name (tj_files job ! file_num)) in
            if fs path \<noteq> None \<and> fv_can_open env path
            then digest_handshake env fs
                   (job\<lparr>tj_data_stream := Some (FileStream path 0), tj_file_confirmed := False, tj_file_is_waiting := False\<rparr>)
            else (job\<lparr>tj_file_num := tj_file_num job + 1, tj_file_confirmed := False, tj_file_is_waiting := False\<rparr>,
                  [], Err ''open failed''))
         else digest_handshake env fs job
     | MemoryCursor c \<Rightarrow>
         digest_handshake env fs
           (if tj_data_stream job = None
            then job\<lparr>tj_data_source := MemoryCursor [], tj_data_stream := Some (BufStream c 0)\<rparr> else job))"

definition BUF_SIZE :: nat where "BUF_SIZE = 128 * 1024"

text \<open>
  The read loop: \<open>rest\<close> is what is left of the source, \<open>room\<close> what is left of the buffer. A read
  returns at least one byte unless the source is at its end. \<open>k\<close> counts the read calls.
\<close>

function read_loop :: "fs_env \<Rightarrow> nat \<Rightarrow> nat \<Rightarrow> bytes \<Rightarrow> bytes option" where
  "read_loop env k room rest =
    (case fv_read env k of
       None \<Rightarrow> None
     | Some m \<Rightarrow>
         (let n = min (max 1 m) (min room (length rest)) in
          if n = 0 \<or> n = room then Some (take n rest)
          else map_option (\<lambda>more. take n rest @ more) (read_loop env (Suc k) (room - n) (drop n rest))))"
  by pat_completeness auto
termination by (relation "measure (\<lambda>(env, k, room, rest). room)") (auto simp: Let_def)

declare read_loop.simps [simp del]

definition stream_rest :: "fsys \<Rightarrow> data_stream \<Rightarrow> bytes" where
  "stream_rest fs st =
     (case st of FileStream p pos \<Rightarrow> drop pos (case fs p of None \<Rightarrow> [] | Some c \<Rightarrow> c)
               | BufStream b pos \<Rightarrow> drop pos b)"

definition stream_advance :: "nat \<Rightarrow> data_stream \<Rightarrow> data_stream" where
  "stream_advance n st =
     (case st of FileStream p pos \<Rightarrow> FileStream p (pos + n) | BufStream b pos \<Rightarrow> BufStream b (pos + n))"

definition next_file :: "transfer_job \<Rightarrow> transfer_job" where
  "next_file job = job\<lparr>tj_file_num := tj_file_num job + 1, tj_data_stream := None,
     tj_file_confirmed := False, tj_file_is_waiting := False\<rparr>"

definition pack_block :: "fs_env \<Rightarrow> transfer_job \<Rightarrow> string \<Rightarrow> bytes \<Rightarrow> bytes \<times> bool" where
  "pack_block env job name buf =
    (case tj_data_source job of
       FilePath _ \<Rightarrow>
         if is_compressed_file name then (buf, False)
         else (let tmp = compress env buf in if length tmp < length buf then (tmp, True) else (buf, False))
     | MemoryCursor _ \<Rightarrow> (buf, False))"

definition read_block :: "fs_env \<Rightarrow> fsys \<Rightarrow> i32 \<Rightarrow> string \<Rightarrow> transfer_job \<Rightarrow> transfer_job \<times> (file_block option, string) result" where
  "read_block env fs file_num name job =
    (case tj_data_stream job of
       None \<Rightarrow> (job, Err ''data stream is None'')
     | Some st \<Rightarrow>
         (case read_loop env 0 BUF_SIZE (stream_rest fs st) of
            None \<Rightarrow> (next_file job, Err ''read failed'')
          | Some buf \<Rightarrow>
              if buf = [] then
                (case tj_data_source job of
                   MemoryCursor _ \<Rightarrow> (job\<lparr>tj_data_stream := None\<rparr>, Ok None)
                 | FilePath _ \<Rightarrow>
                     (next_file job,
                      Ok (Some \<lparr>fb_id = tj_id job, fb_file_num = file_num, fb_data = [], fb_compressed = False\<rparr>)))
              else
                (let (data, compressed) = pack_block env job name buf in
                 (job\<lparr>tj_data_stream := Some (stream_advance (length buf) st),
                      tj_finished_size := tj_finished_size job + of_nat (length buf),
                      tj_transferred := tj_transferred job + of_nat (length data)\<rparr>,
                  Ok (Some \<lparr>fb_id = tj_id job, fb_file_num = file_num, fb_data = data, fb_compressed = compressed\<rparr>)))))"

definition job_read :: "fs_env \<Rightarrow> fsys \<Rightarrow> transfer_job \<Rightarrow> transfer_job \<times> (file_block option, string) result" where
  "job_read env fs job =
    (if tj_type job = JobGeneric \<and> tj_enable_overwrite_detection job \<and> \<not> tj_file_confirmed job
     then (job, Ok None)
     else case tj_data_source job of
       FilePath p \<Rightarrow>
         (let file_num = i32_as_usize (tj_file_num job) in
          if file_num \<ge> length (tj_files job) then (job\<lparr>tj_data_stream := None\<rparr>, Ok None)
          else read_block env fs (of_nat file_num) (fe_name (tj_files job ! file_num)) job)
     | MemoryCursor _ \<Rightarrow> read_block env fs (of_nat (i32_as_usize (tj_file_num job))) [] job)"

subsection \<open>Resuming and confirming\<close>

definition set_stream_offset :: "fs_env \<Rightarrow> fsys \<Rightarrow> nat \<Rightarrow> u64 \<Rightarrow> transfer_job \<Rightarrow> transfer_job option" where
  "set_stream_offset env fs file_num offset job =
    (case tj_data_source job of
       MemoryCursor _ \<Rightarrow> Some job
     | FilePath p \<Rightarrow>
         if file_num \<ge> length (tj_files job) then None
         else let path = job_join p (fe_name (tj_files job ! file_num));
                  dl = download_path path; dp = digest_path path;
                  target = (if fs dl \<noteq> None \<and> fs dp \<noteq> None then Some dl
                            else if fs path \<noteq> None then Some path else None) in
         (case target of
            None \<Rightarrow> Some job
          | Some t \<Rightarrow>
              if fv_can_open env t
              then Some (job\<lparr>tj_data_stream := Some (FileStream t (unat offset)),
                             tj_transferred := tj_transferred job + offset,
                             tj_finished_size := tj_finished_size job + offset\<rparr>)
              else Some job))"

text \<open>\<open>confirm\<close>; \<open>None\<close> is the panic of an out-of-range file number.\<close>

definition confirm :: "fs_env \<Rightarrow> fsys \<Rightarrow> confirm_request \<Rightarrow> transfer_job \<Rightarrow> transfer_job option" where
  "confirm env fs r job =
    (if tj_file_num job \<noteq> cr_file_num r then Some job
     else case cr_union r of
       Some (ConfirmSkip s) \<Rightarrow> Some (if s then set_file_skipped job else set_file_confirmed True job)
     | Some (ConfirmOffsetBlk offset) \<Rightarrow>
         (let job = set_file_confirmed True job in
          if offset > 0 then set_stream_offset env fs (i32_as_usize (cr_file_num r)) (ucast offset) job
          else Some job)
     | None \<Rightarrow> Some job)"

subsection \<open>The job list\<close>

fun remove_job :: "i32 \<Rightarrow> transfer_job list \<Rightarrow> transfer_job list \<times> transfer_job option" where
  "remove_job i [] = ([], None)"
| "remove_job i (job # jobs) =
     (if tj_id job = i then (jobs, Some job)
      else (case remove_job i jobs of (jobs', r) \<Rightarrow> (job # jobs', r)))"

fun get_job :: "i32 \<Rightarrow> transfer_job list \<Rightarrow> transfer_job option" where
  "get_job i [] = None"
| "get_job i (job # jobs) = (if tj_id job = i then Some job else get_job i jobs)"

fun init_jobs :: "fs_env \<Rightarrow> fsys \<Rightarrow> transfer_job list \<Rightarrow> transfer_job list \<times> fs_msg list \<times> (unit, string) result" where
  "init_jobs env fs [] = ([], [], Ok ())"
| "init_jobs env fs (job # jobs) =
    (if tj_is_last_job job
     then (case init_jobs env fs jobs of (jobs', msgs, r) \<Rightarrow> (job # jobs', msgs, r))
     else case init_data_stream env fs job of
       (job', msgs, Err e) \<Rightarrow>
         if fv_send_ok env
         then (case init_jobs env fs jobs of
                 (jobs', msgs', r) \<Rightarrow> (job' # jobs', msgs @ MsgError (tj_id job') e (tj_file_num job') # msgs', r))
         else (job' # jobs, msgs, Err ''send failed'')
     | (job', msgs, Ok _) \<Rightarrow>
         (case init_jobs env fs jobs of (jobs', msgs', r) \<Rightarrow> (job' # jobs', msgs @ msgs', r)))"

record job_log =
  jl_job :: transfer_job
  jl_done :: bool
  jl_cancel :: bool
  jl_error :: string

definition serialize_transfer_job :: "transfer_job \<Rightarrow> bool \<Rightarrow> bool \<Rightarrow> string \<Rightarrow> job_log" where
  "serialize_transfer_job job don cancel err = \<lparr>jl_job = job, jl_done = don, jl_cancel = cancel, jl_error = err\<rparr>"

text \<open>
  One scheduling round: only the first active job is read. The result is the remaining jobs, the
  messages sent and the log entry of a finished job; a failing send returns before the finished job
  is removed.
\<close>

fun read_first_job ::
    "fs_env \<Rightarrow> fsys \<Rightarrow> transfer_job list \<Rightarrow> transfer_job list \<times> fs_msg list \<times> i32 list \<times> (job_log option, string) result" where
  "read_first_job env fs [] = ([], [], [], Ok None)"
| "read_first_job env fs (job # jobs) =
    (if tj_is_last_job job
     then (case read_first_job env fs jobs of (jobs', msgs, fin, r) \<Rightarrow> (job # jobs', msgs, fin, r))
     else case job_read env fs job of
       (job', res) \<Rightarrow>
         let send = (\<lambda>msg fin log. if fv_send_ok env then (job' # jobs, [msg], fin, Ok log)
                                   else (job' # jobs, [], [], Err ''send failed'')) in
         (case res of
            Err e \<Rightarrow> send (MsgError (tj_id job') e (tj_file_num job')) [] None
          | Ok (Some block) \<Rightarrow> send (MsgBlock block) [] None
          | Ok None \<Rightarrow>
              if job_completed job'
              then (case job_error job' of
                      Some err \<Rightarrow> send (MsgError (tj_id job') err (tj_file_num job')) [tj_id job']
                                    (Some (serialize_transfer_job job' False False err))
                    | None \<Rightarrow> send (MsgDone (tj_id job') (tj_file_num job')) [tj_id job']
                                    (Some (serialize_transfer_job job' True False [])))
              else (job' # jobs, [], [], Ok None)))"

definition handle_read_jobs ::
    "fs_env \<Rightarrow> fsys \<Rightarrow> transfer_job list \<Rightarrow> transfer_job list \<times> fs_msg list \<times> (job_log option, string) result" where
  "handle_read_jobs env fs jobs =
    (case init_jobs env fs jobs of
       (jobs, msgs, Err e) \<Rightarrow> (jobs, msgs, Err e)
     | (jobs, msgs, Ok _) \<Rightarrow>
         (case read_first_job env fs jobs of
            (jobs, msgs', fin, r) \<Rightarrow> (fold (\<lambda>i js. fst (remove_job i js)) fin jobs, msgs @ msgs', r)))"

subsection \<open>Overwrite detection\<close>

datatype digest_check_result = IsSame | NeedConfirm file_transfer_digest | NoSuchFile

definition is_write_need_confirmation ::
    "fs_env \<Rightarrow> fsys \<Rightarrow> bool \<Rightarrow> string \<Rightarrow> file_transfer_digest \<Rightarrow> (digest_check_result, string) result" where
  "is_write_need_confirmation env fs is_resume file_path digest =
    (let resumed =
       (if is_resume then
          (case (fs (digest_path file_path), fs (download_path file_path)) of
             (Some content, Some downloaded) \<Rightarrow>
               (case fv_digest_parse env content of
                  Some local \<Rightarrow>
                    if dg_modified local = fd_last_modified digest \<and> dg_size local = fd_file_size digest
                       \<and> length downloaded > 0
                    then Some (NeedConfirm \<lparr>fd_id = fd_id digest, fd_file_num = fd_file_num digest,
                           fd_last_modified = fd_last_modified digest, fd_file_size = fd_file_size digest,
                           fd_is_identical = True, fd_transferred_size = of_nat (length downloaded),
                           fd_is_resume = False\<rparr>)
                    else None
                | None \<Rightarrow> None)
           | _ \<Rightarrow> None)
        else None) in
     case resumed of
       Some r \<Rightarrow> Ok r
     | None \<Rightarrow>
         (case fs file_path of
            None \<Rightarrow> Ok NoSuchFile
          | Some content \<Rightarrow>
              (case fv_mtime env file_path of
                 None \<Rightarrow> Err ''metadata failed''
               | Some (local_mt, nanos) \<Rightarrow>
                   Ok (NeedConfirm \<lparr>fd_id = fd_id digest, fd_file_num = fd_file_num digest,
                         fd_last_modified = local_mt, fd_file_size = of_nat (length content),
                         fd_is_identical = (fd_last_modified digest = local_mt \<and> nanos = 0
                            \<and> fd_file_size digest = of_nat (length content)),
                         fd_transferred_size = 0, fd_is_resume = False\<rparr>))))"

subsection \<open>Reading a block\<close>

lemma i32_as_usize_small:
  assumes "unat x < 2 ^ 31"
  shows "i32_as_usize x = unat x"
proof -
  have "unat (ucast x :: usize) = unat x"
    using assms by (simp add: unsigned_ucast_eq take_bit_nat_eq_self)
  moreover have "\<not> bit (unat x) 31" using assms by (simp add: bit_iff_odd)
  ultimately have "\<not> bit (unat (ucast x :: usize)) 31" by simp
  then have "\<not> bit (ucast x :: usize) 31" by (simp only: bit_unsigned_iff) simp
  then have "signed_take_bit 31 (ucast x :: usize) = take_bit 31 (ucast x)"
    by (rule signed_take_bit_eq_if_positive)
  then show ?thesis
    using assms \<open>unat (ucast x :: usize) = unat x\<close>
    by (simp add: i32_as_usize_def unsigned_take_bit_eq take_bit_nat_eq_self)
qed

lemma i32_as_usize_of_nat: "i < 2 ^ 31 \<Longrightarrow> i32_as_usize (of_nat i) = i"
  by (simp add: i32_as_usize_small unat_of_nat)

lemma read_loop_full:
  assumes "\<And>k. fv_read env k \<noteq> None" and "0 < room"
  shows "read_loop env k room rest = Some (take room rest)"
  using assms
proof (induction env k room rest rule: read_loop.induct)
  case (1 env k room rest)
  obtain m where m: "fv_read env k = Some m" using 1 by blast
  define n where "n = min (max 1 m) (min room (length rest))"
  show ?case
  proof (cases "n = 0 \<or> n = room")
    case True
    with \<open>0 < room\<close> have "take n rest = take room rest" by (auto simp: n_def min_def max_def split: if_splits)
    with True m show ?thesis by (simp add: read_loop.simps [of env k] Let_def n_def)
  next
    case False
    then have lt: "n < room" "0 < room - n" by (auto simp: n_def)
    have "read_loop env (Suc k) (room - n) (drop n rest) = Some (take (room - n) (drop n rest))"
      using "1.IH" [OF m n_def] False lt "1.prems" by blast
    moreover have "take n rest @ take (room - n) (drop n rest) = take room rest"
      using lt(1) by (simp flip: take_add)
    ultimately show ?thesis using m False by (simp add: read_loop.simps [of env k] Let_def n_def)
  qed
qed

text \<open>An environment in which nothing fails and the compressor round-trips.\<close>

definition good_env :: "fs_env \<Rightarrow> bool" where
  "good_env env \<longleftrightarrow> (\<forall>p. fv_can_open env p \<and> fv_can_create env p \<and> fv_can_remove env p \<and> fv_can_write env p)
     \<and> (\<forall>p q. fv_can_rename env p q)
     \<and> fv_sync_ok env \<and> fv_send_ok env \<and> (\<forall>k. fv_read env k \<noteq> None)
     \<and> (\<forall>d. \<exists>r. fv_compress env d = Some r \<and> fv_decompress env r = Some d)"

definition block_content :: "fs_env \<Rightarrow> file_block \<Rightarrow> bytes" where
  "block_content env b = (if fb_compressed b then decompress env (fb_data b) else fb_data b)"

lemma pack_block_content:
  assumes "good_env env" and "pack_block env job name buf = (data, compressed)"
  shows "(if compressed then decompress env data else data) = buf"
proof -
  obtain r where "fv_compress env buf = Some r" "fv_decompress env r = Some buf"
    using assms(1) unfolding good_env_def by blast
  with assms(2) show ?thesis
    by (auto simp: pack_block_def compress_def decompress_def Let_def split: data_source.splits if_splits)
qed

text \<open>The content a job still has to send of its current file.\<close>

lemma read_block_file:
  assumes "good_env env" and "tj_data_stream job = Some (FileStream path pos)"
    and "tj_data_source job = FilePath p" and "fs path = Some content"
  shows "(case read_block env fs file_num name job of
      (job', Ok (Some b)) \<Rightarrow> fb_id b = tj_id job \<and> fb_file_num b = file_num
        \<and> block_content env b = take BUF_SIZE (drop pos content)
        \<and> (if pos < length content
           then tj_data_stream job' = Some (FileStream path (pos + length (block_content env b)))
             \<and> tj_file_num job' = tj_file_num job
           else tj_data_stream job' = None \<and> tj_file_num job' = tj_file_num job + 1)
        \<and> tj_finished_size job' = tj_finished_size job + of_nat (length (block_content env b))
        \<and> tj_id job' = tj_id job \<and> tj_type job' = tj_type job \<and> tj_files job' = tj_files job
        \<and> tj_data_source job' = tj_data_source job
        \<and> tj_enable_overwrite_detection job' = tj_enable_overwrite_detection job
    | _ \<Rightarrow> False)"
proof -
  let ?buf = "take BUF_SIZE (drop pos content)"
  have loop: "read_loop env 0 BUF_SIZE (drop pos content) = Some ?buf"
    using assms(1) by (intro read_loop_full) (auto simp: good_env_def BUF_SIZE_def)
  show ?thesis
  proof (cases "pos < length content")
    case True
    then have "?buf \<noteq> []" by (simp add: BUF_SIZE_def)
    obtain data compressed where pack: "pack_block env job name ?buf = (data, compressed)"
      by (cases "pack_block env job name ?buf")
    with pack_block_content [OF assms(1) pack] loop True \<open>?buf \<noteq> []\<close> assms(2-) show ?thesis
      by (cases compressed)
        (simp_all add: read_block_def stream_rest_def stream_advance_def block_content_def)
  next
    case False
    with loop assms(2-) show ?thesis
      by (simp add: read_block_def stream_rest_def block_content_def next_file_def)
  qed
qed

subsection \<open>Transferring a file\<close>

text \<open>One round of the reading side, and the loop that carries the blocks of one file over.\<close>

definition read_step :: "fs_env \<Rightarrow> fsys \<Rightarrow> transfer_job \<Rightarrow> transfer_job \<times> (file_block option, string) result" where
  "read_step env fs job =
    (case init_data_stream env fs job of
       (job', _, Err e) \<Rightarrow> (job', Err e)
     | (job', _, Ok _) \<Rightarrow> job_read env fs job')"

fun transfer_file ::
    "nat \<Rightarrow> fs_env \<Rightarrow> fsys \<Rightarrow> transfer_job \<Rightarrow> transfer_job \<Rightarrow> fsys \<Rightarrow> (transfer_job \<times> transfer_job \<times> fsys) option" where
  "transfer_file 0 env fs_r r w fs_w = None"
| "transfer_file (Suc n) env fs_r r w fs_w =
    (case read_step env fs_r r of
       (r', Ok (Some b)) \<Rightarrow>
         (case job_write env b w fs_w of
            (w', fs_w', Ok _) \<Rightarrow>
              if tj_file_num r' \<noteq> tj_file_num r then Some (r', w', fs_w') else transfer_file n env fs_r r' w' fs_w'
          | _ \<Rightarrow> None)
     | _ \<Rightarrow> None)"

text \<open>A reading job at the \<open>i\<close>-th file without overwrite detection, at position \<open>pos\<close> of it.\<close>

definition reader_at :: "string \<Rightarrow> file_entry list \<Rightarrow> nat \<Rightarrow> nat \<Rightarrow> transfer_job \<Rightarrow> bool" where
  "reader_at p files i pos r \<longleftrightarrow> tj_data_source r = FilePath p \<and> tj_files r = files \<and> tj_file_num r = of_nat i
     \<and> \<not> tj_enable_overwrite_detection r
     \<and> (tj_data_stream r = Some (FileStream (job_join p (fe_name (files ! i))) pos)
        \<or> tj_data_stream r = None \<and> pos = 0)"

lemma read_step_file:
  assumes "good_env env" and "reader_at p files i pos r" and "i < length files" and "length files < 2 ^ 31"
    and "fs (job_join p (fe_name (files ! i))) = Some content"
  shows "case read_step env fs r of
      (r', Ok (Some b)) \<Rightarrow> fb_id b = tj_id r \<and> fb_file_num b = of_nat i
        \<and> block_content env b = take BUF_SIZE (drop pos content)
        \<and> (if pos < length content
           then reader_at p files i (pos + length (block_content env b)) r'
           else tj_data_stream r' = None \<and> tj_file_num r' = of_nat i + 1)
        \<and> tj_finished_size r' = tj_finished_size r + of_nat (length (block_content env b)) \<and> tj_id r' = tj_id r
    | _ \<Rightarrow> False"
proof -
  let ?path = "job_join p (fe_name (files ! i))"
  have idx: "i32_as_usize (of_nat i) = i" using assms(3,4) by (simp add: i32_as_usize_of_nat)
  obtain r1 msgs where init: "init_data_stream env fs r = (r1, msgs, Ok ())"
    and stream: "tj_data_stream r1 = Some (FileStream ?path pos)"
    and same: "tj_data_source r1 = FilePath p" "tj_files r1 = files" "tj_file_num r1 = of_nat i"
      "\<not> tj_enable_overwrite_detection r1" "tj_id r1 = tj_id r" "tj_finished_size r1 = tj_finished_size r"
  proof (cases "tj_data_stream r")
    case None
    with assms idx that show thesis
      by (auto simp: init_data_stream_def reader_at_def digest_handshake_def good_env_def)
  next
    case (Some st)
    with assms idx that show thesis
      by (auto simp: init_data_stream_def reader_at_def digest_handshake_def)
  qed
  have "read_step env fs r = read_block env fs (of_nat i) (fe_name (files ! i)) r1"
    using init same idx assms(3) by (simp add: read_step_def job_read_def)
  with read_block_file [where fs = fs, OF assms(1) stream same(1) assms(5), of "of_nat i" "fe_name (files ! i)"] same
  show ?thesis by (auto simp: reader_at_def split: prod.splits result.splits option.splits if_splits)
qed

text \<open>A writing job that has received \<open>done\<close> of the \<open>i\<close>-th file.\<close>

definition writer_at :: "string \<Rightarrow> file_entry list \<Rightarrow> nat \<Rightarrow> bytes \<Rightarrow> transfer_job \<Rightarrow> fsys \<Rightarrow> bool" where
  "writer_at q files i received w fs \<longleftrightarrow> tj_data_source w = FilePath q \<and> tj_files w = files
     \<and> tj_type w = JobGeneric \<and> tj_file_num w = of_nat i
     \<and> tj_data_stream w = Some (FileStream (download_path (job_join q (fe_name (files ! i)))) (length received))
     \<and> fs (download_path (job_join q (fe_name (files ! i)))) = Some received"

lemma overwrite_at_end: "overwrite_at (length c) d c = c @ d"
  by (simp add: overwrite_at_def)

lemma write_block_data_at:
  assumes "good_env env" and "writer_at q files i received w fs"
  shows "\<exists>w' fs'. write_block_data env b w fs = (w', fs', Ok ()) \<and> tj_id w' = tj_id w
    \<and> writer_at q files i (received @ block_content env b) w' fs'
    \<and> tj_finished_size w' = tj_finished_size w + of_nat (length (block_content env b))"
  using assms
  by (auto simp: write_block_data_def stream_write_all_def block_content_def good_env_def writer_at_def
      fs_write_at_def overwrite_at_end Let_def)

lemma modify_time_fields:
  "tj_data_source (fst (modify_time env w fs)) = tj_data_source w \<and> tj_files (fst (modify_time env w fs)) = tj_files w
   \<and> tj_type (fst (modify_time env w fs)) = tj_type w \<and> tj_id (fst (modify_time env w fs)) = tj_id w
   \<and> tj_finished_size (fst (modify_time env w fs)) = tj_finished_size w"
  by (auto simp: modify_time_def Let_def split: option.split)

lemma open_write_file_at:
  assumes "good_env env" and "tj_data_source w = FilePath q" and "tj_files w = files" and "tj_type w = JobGeneric"
    and "i < length files" and "length files < 2 ^ 31"
  shows "\<exists>w' fs'. open_write_file env q (of_nat i) w fs = (w', fs', Ok ()) \<and> tj_id w' = tj_id w
    \<and> writer_at q files i [] w' fs' \<and> tj_finished_size w' = tj_finished_size w"
proof -
  obtain w1 fs1 where mt: "modify_time env w fs = (w1, fs1)" by (cases "modify_time env w fs")
  have idx: "i32_as_usize (of_nat i) = i" using assms(5,6) by (simp add: i32_as_usize_of_nat)
  have "download_path x \<noteq> digest_path x" for x by (simp add: download_path_def digest_path_def)
  with mt modify_time_fields [of env w fs] idx assms show ?thesis
    by (simp add: open_write_file_def good_env_def writer_at_def Let_def fs_remove_def)
qed

lemma job_write_at:
  assumes "good_env env" and "writer_at q files i received w fs" and "fb_id b = tj_id w"
    and "fb_file_num b = of_nat i" and "i < length files" and "length files < 2 ^ 31"
  shows "\<exists>w' fs'. job_write env b w fs = (w', fs', Ok ()) \<and> tj_id w' = tj_id w
    \<and> writer_at q files i (received @ block_content env b) w' fs'
    \<and> tj_finished_size w' = tj_finished_size w + of_nat (length (block_content env b))"
proof -
  have idx: "i32_as_usize (of_nat i) = i" using assms(5,6) by (simp add: i32_as_usize_of_nat)
  have "job_write env b w fs = write_block_data env b w fs"
    using assms idx by (simp add: job_write_def writer_at_def)
  with write_block_data_at [OF assms(1,2), of b] show ?thesis by simp
qed

lemma job_write_first:
  assumes "good_env env" and "tj_data_source w = FilePath q" and "tj_files w = files" and "tj_type w = JobGeneric"
    and "tj_data_stream w = None \<or> i32_as_usize (tj_file_num w) \<noteq> i"
    and "fb_id b = tj_id w" and "fb_file_num b = of_nat i" and "i < length files" and "length files < 2 ^ 31"
  shows "\<exists>w' fs'. job_write env b w fs = (w', fs', Ok ()) \<and> tj_id w' = tj_id w
    \<and> writer_at q files i (block_content env b) w' fs'
    \<and> tj_finished_size w' = tj_finished_size w + of_nat (length (block_content env b))"
proof -
  have idx: "i32_as_usize (of_nat i) = i" using assms(8,9) by (simp add: i32_as_usize_of_nat)
  obtain w1 fs1 where opened: "open_write_file env q (of_nat i) w fs = (w1, fs1, Ok ())"
    and w1: "tj_id w1 = tj_id w" "writer_at q files i [] w1 fs1" "tj_finished_size w1 = tj_finished_size w"
    using open_write_file_at [OF assms(1-4,8,9)] by blast
  have "job_write env b w fs = write_block_data env b w1 fs1"
    using assms idx opened by (auto simp: job_write_def)
  with write_block_data_at [OF assms(1) w1(2), of b] w1 show ?thesis by simp
qed

text \<open>From the second block on.\<close>

lemma transfer_rest:
  assumes "good_env env" and "i < length files" and "length files < 2 ^ 31"
    and "fs_r (job_join p (fe_name (files ! i))) = Some content"
    and "reader_at p files i pos r" and "writer_at q files i (take pos content) w fs_w"
    and "pos \<le> length content" and "length content - pos \<le> n * BUF_SIZE" and "tj_id r = tj_id w"
  shows "\<exists>r' w' fs_w'. transfer_file (Suc n) env fs_r r w fs_w = Some (r', w', fs_w')
    \<and> writer_at q files i content w' fs_w' \<and> tj_data_stream r' = None \<and> tj_file_num r' = of_nat i + 1
    \<and> tj_finished_size w' = tj_finished_size w + of_nat (length content - pos)"
  using assms(5-)
proof (induction "length content - pos" arbitrary: n r w fs_w pos rule: less_induct)
  case less
  let ?data = "take BUF_SIZE (drop pos content)"
  obtain r1 b where rd: "read_step env fs_r r = (r1, Ok (Some b))" and b: "fb_id b = tj_id r" "fb_file_num b = of_nat i"
      and data: "block_content env b = ?data"
      and r1: "if pos < length content then reader_at p files i (pos + length ?data) r1
        else tj_data_stream r1 = None \<and> tj_file_num r1 = of_nat i + 1" "tj_id r1 = tj_id r"
    using read_step_file [where fs = fs_r, OF assms(1) less.prems(1) assms(2-4)]
    by (auto split: prod.splits result.splits option.splits if_splits)
  obtain w1 fs1 where wr: "job_write env b w fs_w = (w1, fs1, Ok ())" and w1: "tj_id w1 = tj_id w"
      "writer_at q files i (take pos content @ ?data) w1 fs1"
      "tj_finished_size w1 = tj_finished_size w + of_nat (length ?data)"
    using job_write_at [OF assms(1) less.prems(2) _ b(2) assms(2,3)] b less.prems(5) data by auto
  have joined: "take pos content @ ?data = take (pos + length ?data) content"
    by (metis take_add append_take_drop_id length_take min.commute take_all_iff nle_le take_take)
  show ?case
  proof (cases "pos < length content")
    case True
    then obtain m where n: "n = Suc m" using less.prems(4) by (cases n) auto
    have "transfer_file (Suc n) env fs_r r w fs_w = transfer_file n env fs_r r1 w1 fs1"
      using True rd wr r1 less.prems(1) by (simp add: reader_at_def)
    moreover have "\<exists>r' w' fs_w'. transfer_file n env fs_r r1 w1 fs1 = Some (r', w', fs_w')
      \<and> writer_at q files i content w' fs_w' \<and> tj_data_stream r' = None \<and> tj_file_num r' = of_nat i + 1
      \<and> tj_finished_size w' = tj_finished_size w1 + of_nat (length content - (pos + length ?data))"
      unfolding n using True r1 w1 less.prems joined n
      by (intro less.hyps) (auto simp: BUF_SIZE_def min_def)
    moreover have "length content - pos = length ?data + (length content - (pos + length ?data))"
      using True by simp
    ultimately show ?thesis using w1(3) by (metis (no_types, lifting) add.assoc of_nat_add)
  next
    case False
    have "of_nat i + 1 \<noteq> (of_nat i :: i32)" by simp
    with False rd wr r1 less.prems(1,3) w1 joined show ?thesis by (simp add: reader_at_def)
  qed
qed

lemma finish_file:
  assumes "writer_at q files i content w fs" and "i < length files" and "length files < 2 ^ 31"
    and "\<And>a b. fv_can_rename env a b"
  shows "snd (modify_time env w fs) (job_join q (fe_name (files ! i))) = Some content"
    and "tj_data_stream (fst (modify_time env w fs)) = Some (FileStream (job_join q (fe_name (files ! i))) (length content))"
  using assms
  by (simp_all add: writer_at_def modify_time_def current_path_def i32_as_usize_of_nat fs_rename_def
      fs_try_remove_def fs_remove_def download_path_def digest_path_def stream_follow_def Let_def)

subsection \<open>Properties\<close>

text \<open>
  C29. File transfer is exact: carrying the blocks a reading job produces for a file to a writing job,
  with any pattern of short reads and with compression, ends after at most \<open>size / 128 KiB + 2\<close> rounds
  with the reader at the next file and, once the writer finishes the file, with a file of exactly the
  source's content at the destination; the progress counter grew by exactly its size. Empty files are
  transferred as well.
\<close>

theorem file_transfer_exact:
  assumes "good_env env" and "i < length files" and "length files < 2 ^ 31"
    and "fs_r (job_join p (fe_name (files ! i))) = Some content"
    and "reader_at p files i 0 r" and "tj_data_source w = FilePath q" and "tj_files w = files"
    and "tj_type w = JobGeneric" and "tj_data_stream w = None \<or> i32_as_usize (tj_file_num w) \<noteq> i"
    and "tj_id r = tj_id w"
  shows "\<exists>r' w' fs_w'. transfer_file (length content div BUF_SIZE + 2) env fs_r r w fs_w = Some (r', w', fs_w')
    \<and> tj_data_stream r' = None \<and> tj_file_num r' = of_nat i + 1
    \<and> snd (modify_time env w' fs_w') (job_join q (fe_name (files ! i))) = Some content
    \<and> tj_finished_size w' = tj_finished_size w + of_nat (length content)"
proof -
  have ren: "fv_can_rename env a b" for a b using assms(1) by (simp add: good_env_def)
  let ?data = "take BUF_SIZE content" and ?n = "length content div BUF_SIZE"
  obtain r1 b where rd: "read_step env fs_r r = (r1, Ok (Some b))" and b: "fb_id b = tj_id r" "fb_file_num b = of_nat i"
      and data: "block_content env b = ?data"
      and r1: "if 0 < length content then reader_at p files i (length ?data) r1
        else tj_data_stream r1 = None \<and> tj_file_num r1 = of_nat i + 1" "tj_id r1 = tj_id r"
    using read_step_file [where fs = fs_r, OF assms(1,5,2-4)]
    by (auto split: prod.splits result.splits option.splits if_splits)
  obtain w1 fs1 where wr: "job_write env b w fs_w = (w1, fs1, Ok ())" and w1: "tj_id w1 = tj_id w"
      "writer_at q files i ?data w1 fs1" "tj_finished_size w1 = tj_finished_size w + of_nat (length ?data)"
    using job_write_first [where fs = fs_w, OF assms(1,6-9) _ b(2) assms(2,3)] b assms(10) data by metis
  show ?thesis
  proof (cases "content = []")
    case True
    have "of_nat i + 1 \<noteq> (of_nat i :: i32)" by simp
    with True rd wr r1 w1 assms(5) finish_file [OF w1(2) assms(2,3) ren] show ?thesis by (simp add: reader_at_def)
  next
    case False
    have fuel: "length content - length ?data \<le> ?n * BUF_SIZE"
      using div_mult_mod_eq [of "length content" BUF_SIZE] mod_less_divisor [of BUF_SIZE "length content"]
      by (simp add: BUF_SIZE_def)
    have "reader_at p files i (length ?data) r1" using r1 False by simp
    moreover have "writer_at q files i (take (length ?data) content) w1 fs1" using w1(2)
      by (cases "length content \<le> BUF_SIZE") simp_all
    moreover have "length ?data \<le> length content" "tj_id r1 = tj_id w1" using r1(2) w1(1) assms(10) by simp_all
    ultimately have "\<exists>r' w' fs'. transfer_file (Suc ?n) env fs_r r1 w1 fs1 = Some (r', w', fs')
      \<and> writer_at q files i content w' fs' \<and> tj_data_stream r' = None \<and> tj_file_num r' = of_nat i + 1
      \<and> tj_finished_size w' = tj_finished_size w1 + of_nat (length content - length ?data)"
      by (intro transfer_rest [where fs_r = fs_r, OF assms(1-4) _ _ _ fuel])
    then obtain r' w' fs' where "transfer_file (Suc ?n) env fs_r r1 w1 fs1 = Some (r', w', fs')"
      and fin: "writer_at q files i content w' fs'" "tj_data_stream r' = None" "tj_file_num r' = of_nat i + 1"
        "tj_finished_size w' = tj_finished_size w1 + of_nat (length content - length ?data)"
      by blast
    moreover have "transfer_file (?n + 2) env fs_r r w fs_w = transfer_file (Suc ?n) env fs_r r1 w1 fs1"
      using rd wr r1(1) assms(5) False by (simp add: reader_at_def)
    moreover have "tj_finished_size w' = tj_finished_size w + of_nat (length content)"
      using fin(4) w1(3) by (simp add: of_nat_diff)
    ultimately show ?thesis using finish_file(1) [OF fin(1) assms(2,3) ren] by metis
  qed
qed

definition demo_env :: fs_env where
  "demo_env = \<lparr>fv_can_open = (\<lambda>_. True), fv_can_create = (\<lambda>_. True), fv_can_remove = (\<lambda>_. True),
     fv_can_rename = (\<lambda>_ _. True),
     fv_can_write = (\<lambda>_. True), fv_sync_ok = True, fv_mtime = (\<lambda>_. Some (0, 0)), fv_read = (\<lambda>_. Some 1),
     fv_send_ok = True, fv_compress = Some, fv_decompress = Some, fv_digest_json = (\<lambda>_. []),
     fv_digest_parse = (\<lambda>_. None)\<rparr>"

definition demo_files :: "file_entry list" where
  "demo_files = [\<lparr>fe_name = ''a'', fe_size = 3, fe_modified_time = 0\<rparr>, \<lparr>fe_name = ''b'', fe_size = 0, fe_modified_time = 0\<rparr>]"

definition demo_reader :: "bool \<Rightarrow> transfer_job" where
  "demo_reader overwrite = new_write 1 JobGeneric [] (FilePath ''/src'') 0 False False demo_files overwrite"

definition demo_writer :: transfer_job where
  "demo_writer = new_write 1 JobGeneric [] (FilePath ''/dst'') 0 False True demo_files False"

theorem file_transfer_exact_witness:
  "\<exists>r' w' fs_w'. transfer_file (3 div BUF_SIZE + 2) demo_env [''/src/a'' \<mapsto> [7, 8, 9]] (demo_reader False) demo_writer Map.empty
     = Some (r', w', fs_w') \<and> snd (modify_time demo_env w' fs_w') ''/dst/a'' = Some [7, 8, 9]"
proof -
  have env: "good_env demo_env" by (simp add: good_env_def demo_env_def)
  have paths: "job_join ''/src'' (fe_name (demo_files ! 0)) = ''/src/a''"
    "job_join ''/dst'' (fe_name (demo_files ! 0)) = ''/dst/a''"
    by (simp_all add: demo_files_def job_join_def path_join_def)
  have r: "reader_at ''/src'' demo_files 0 0 (demo_reader False)" "tj_id (demo_reader False) = tj_id demo_writer"
    by (simp_all add: reader_at_def demo_reader_def demo_writer_def new_write_def job_default_def)
  have w: "tj_data_source demo_writer = FilePath ''/dst''" "tj_files demo_writer = demo_files"
    "tj_type demo_writer = JobGeneric" "tj_data_stream demo_writer = None"
    by (simp_all add: demo_writer_def new_write_def job_default_def)
  have "0 < length demo_files" "length demo_files < 2 ^ 31" by (simp_all add: demo_files_def)
  from file_transfer_exact [where fs_r = "[''/src/a'' \<mapsto> [7, 8, 9]]" and content = "[7, 8, 9]" and p = "''/src''"
      and fs_w = Map.empty, OF env this _ r(1) w(1-3) disjI1 [OF w(4)] r(2)]
  show ?thesis by (simp del: transfer_file.simps add: paths numeral_3_eq_3) blast
qed

text \<open>
  With overwrite detection on, a file that cannot be opened ends the whole job: the round that meets
  it sends the error and, in the same round, reports the job as done and removes it, whatever number of
  files was still to come.
\<close>

theorem unopenable_file_ends_job:
  assumes "tj_type job = JobGeneric" and "tj_enable_overwrite_detection job" and "\<not> tj_is_last_job job"
    and "tj_data_source job = FilePath p" and "tj_data_stream job = None" and "\<not> tj_file_skipped job"
    and "i32_as_usize (tj_file_num job) = i" and "i < length (tj_files job)"
    and "fs (job_join p (fe_name (tj_files job ! i))) = None" and "fv_send_ok env"
  shows "\<exists>log. handle_read_jobs env fs [job] =
    ([], [MsgError (tj_id job) ''open failed'' (tj_file_num job + 1), MsgDone (tj_id job) (tj_file_num job + 1)],
     Ok (Some log)) \<and> jl_done log"
  using assms
  by (simp add: handle_read_jobs_def init_data_stream_def job_read_def job_completed_def job_error_def
      job_skipped_def serialize_transfer_job_def)

theorem unopenable_file_ends_job_witness:
  "\<exists>log. handle_read_jobs demo_env Map.empty [demo_reader True] =
    ([], [MsgError 1 ''open failed'' 1, MsgDone 1 1], Ok (Some log)) \<and> jl_done log"
proof -
  have "i32_as_usize 0 = 0" using i32_as_usize_small [of 0] by simp
  then show ?thesis
    using unopenable_file_ends_job [of "demo_reader True" "''/src''" 0 Map.empty demo_env]
    by (simp add: demo_reader_def new_write_def job_default_def demo_files_def demo_env_def)
qed

text \<open>
  A file that cannot be created corrupts the one before it: the write of its first block fails, but
  the job already counts as being at the new file while its stream is still that of the finished file,
  so the next block of the new file is appended to the finished one.
\<close>

theorem failed_create_corrupts_previous:
  assumes "writer_at q files i received w fs" and "i < length files" and "length files < 2 ^ 31"
    and "j < length files" and "i \<noteq> j" and "fb_id b = tj_id w" and "fb_file_num b = of_nat j"
    and "\<And>x. fv_can_remove env x" and "\<And>x. fv_can_write env x" and "fv_sync_ok env" and "\<And>a b. fv_can_rename env a b"
    and "\<not> fv_can_create env (download_path (job_join q (fe_name (files ! j))))"
    and "digest_path (job_join q (fe_name (files ! j))) \<noteq> job_join q (fe_name (files ! i))"
  shows "\<exists>w1 fs1 e w2 fs2. job_write env b w fs = (w1, fs1, Err e) \<and> job_write env b w1 fs1 = (w2, fs2, Ok ())
    \<and> fs1 (job_join q (fe_name (files ! i))) = Some received
    \<and> fs2 (job_join q (fe_name (files ! i))) = Some (received @ block_content env b)"
proof -
  let ?path = "job_join q (fe_name (files ! i))"
  obtain w0 fs0 where mt: "modify_time env w fs = (w0, fs0)" by (cases "modify_time env w fs")
  have idx: "i32_as_usize (of_nat i) = i" "i32_as_usize (of_nat j) = j"
    using assms(2-4) by (simp_all add: i32_as_usize_of_nat)
  have w: "tj_data_source w = FilePath q" "tj_files w = files" "tj_type w = JobGeneric" "tj_file_num w = of_nat i"
    using assms(1) by (simp_all add: writer_at_def)
  have w0: "tj_data_source w0 = FilePath q" "tj_files w0 = files" "tj_type w0 = JobGeneric" "tj_id w0 = tj_id w"
    "tj_data_stream w0 = Some (FileStream ?path (length received))" "fs0 ?path = Some received"
    using modify_time_fields [of env w fs] finish_file [OF assms(1-3,11)] mt w by auto
  let ?w1 = "w0\<lparr>tj_file_num := of_nat j\<rparr>"
  let ?fs1 = "fs_remove (digest_path (job_join q (fe_name (files ! j)))) fs0"
  have first: "job_write env b w fs = (?w1, ?fs1, Err ''create failed'')"
    using assms(4-12) w w0 idx mt by (simp add: job_write_def open_write_file_def Let_def)
  have kept: "?fs1 ?path = Some received" using w0(6) assms(13) by (auto simp: fs_remove_def)
  have "job_write env b ?w1 ?fs1 = write_block_data env b ?w1 ?fs1"
    using assms(4,6,7) w0 idx by (simp add: job_write_def)
  moreover have "\<exists>w2 fs2. write_block_data env b ?w1 ?fs1 = (w2, fs2, Ok ())
      \<and> fs2 ?path = Some (received @ block_content env b)"
    using w0(5) kept assms(9)
    by (simp add: write_block_data_def stream_write_all_def block_content_def fs_write_at_def overwrite_at_end Let_def)
  ultimately show ?thesis using first kept by metis
qed

definition no_create_env :: fs_env where
  "no_create_env = demo_env\<lparr>fv_can_create := (\<lambda>p. p \<noteq> ''/dst/b.download'')\<rparr>"

theorem failed_create_corrupts_previous_witness:
  "\<exists>w1 fs1 e w2 fs2. job_write no_create_env \<lparr>fb_id = 1, fb_file_num = 1, fb_data = [66], fb_compressed = False\<rparr>
      (demo_writer\<lparr>tj_data_stream := Some (FileStream ''/dst/a.download'' 1)\<rparr>) [''/dst/a.download'' \<mapsto> [65]] = (w1, fs1, Err e)
    \<and> job_write no_create_env \<lparr>fb_id = 1, fb_file_num = 1, fb_data = [66], fb_compressed = False\<rparr> w1 fs1 = (w2, fs2, Ok ())
    \<and> fs2 ''/dst/a'' = Some [65, 66]"
proof -
  let ?w = "demo_writer\<lparr>tj_data_stream := Some (FileStream ''/dst/a.download'' 1)\<rparr>"
  let ?b = "\<lparr>fb_id = 1, fb_file_num = 1, fb_data = [66], fb_compressed = False\<rparr>"
  have paths: "job_join ''/dst'' (fe_name (demo_files ! 0)) = ''/dst/a''"
    "job_join ''/dst'' (fe_name (demo_files ! 1)) = ''/dst/b''"
    by (simp_all add: demo_files_def job_join_def path_join_def)
  have w: "writer_at ''/dst'' demo_files 0 [65] ?w [''/dst/a.download'' \<mapsto> [65]]"
    using paths by (simp add: writer_at_def demo_writer_def new_write_def job_default_def download_path_def)
  have len: "0 < length demo_files" "length demo_files < 2 ^ 31" "1 < length demo_files" "(0 :: nat) \<noteq> 1"
    by (simp_all add: demo_files_def)
  have b: "fb_id ?b = tj_id ?w" "fb_file_num ?b = of_nat 1" "block_content no_create_env ?b = [66]"
    by (simp_all add: demo_writer_def new_write_def block_content_def)
  have env: "fv_can_remove no_create_env x" "fv_can_write no_create_env x" "fv_sync_ok no_create_env"
    "fv_can_rename no_create_env x y"
    "\<not> fv_can_create no_create_env (download_path (job_join ''/dst'' (fe_name (demo_files ! 1))))"
    "digest_path (job_join ''/dst'' (fe_name (demo_files ! 1))) \<noteq> job_join ''/dst'' (fe_name (demo_files ! 0))" for x y
    unfolding paths by (simp_all add: no_create_env_def demo_env_def download_path_def digest_path_def)
  from failed_create_corrupts_previous [OF w len(1-4) b(1,2) env]
  show ?thesis unfolding paths b(3) append.simps by blast
qed

text \<open>A failing compressor yields an empty, compressed block: the data of the block is lost silently.\<close>

lemma compress_failure_drops_data:
  assumes "fv_compress env buf = None" and "buf \<noteq> []" and "tj_data_source job = FilePath p"
    and "\<not> is_compressed_file name"
  shows "pack_block env job name buf = ([], True)"
  using assms by (simp add: pack_block_def compress_def)

text \<open>
  Removing a job by id takes out exactly the first job with that id, keeps all others in order,
  returns it, and changes nothing when there is none; looking it up agrees with what removal returns.
\<close>

theorem remove_job_spec:
  "case remove_job i jobs of (rest, found) \<Rightarrow>
     found = get_job i jobs
   \<and> (case found of
        None \<Rightarrow> rest = jobs \<and> list_all (\<lambda>j. tj_id j \<noteq> i) jobs
      | Some job \<Rightarrow> tj_id job = i \<and> (\<exists>xs ys. jobs = xs @ job # ys \<and> rest = xs @ ys \<and> list_all (\<lambda>j. tj_id j \<noteq> i) xs))"
proof (induction jobs)
  case (Cons job jobs)
  obtain rest found where rec: "remove_job i jobs = (rest, found)" by (cases "remove_job i jobs")
  show ?case
  proof (cases "tj_id job = i")
    case True
    then show ?thesis by (auto intro: exI [of _ "[]"])
  next
    case False
    show ?thesis
    proof (cases found)
      case None
      with False Cons.IH rec show ?thesis by (auto split: option.splits)
    next
      case (Some job')
      with Cons.IH rec obtain xs ys where split: "tj_id job' = i" "get_job i jobs = Some job'"
        "jobs = xs @ job' # ys" "rest = xs @ ys" "list_all (\<lambda>j. tj_id j \<noteq> i) xs"
        by (auto split: option.splits)
      then have "\<exists>xs ys. job # jobs = xs @ job' # ys \<and> job # rest = xs @ ys \<and> list_all (\<lambda>j. tj_id j \<noteq> i) xs"
        using False by (intro exI [of _ "job # xs"] exI [of _ ys]) simp
      with False Some rec split(1,2) show ?thesis by simp
    qed
  qed
qed simp

end
