(* ===== verification/Terminal_Buffer.thy ===== *)
theory Terminal_Buffer
  imports Prelude "HOL-Library.Sublist"
begin

text \<open>
  The output buffer of a terminal session, \<open>OutputBuffer\<close> of \<open>src/server/terminal_service.rs\<close>: lines of
  recent output with a byte count, trimmed from the front. The count is a \<open>usize\<close> that wraps, as in
  the release profile of the program; the trimming loop may not end, so it is a partial function and
  \<open>None\<close> means that the call does not return.
\<close>

subsection \<open>The buffer\<close>

definition MAX_OUTPUT_BUFFER_SIZE :: usize where "MAX_OUTPUT_BUFFER_SIZE = 1024 * 1024"
definition MAX_BUFFER_LINES :: nat where "MAX_BUFFER_LINES = 10000"

record output_buffer =
  ob_lines :: "bytes list"
  ob_total_size :: usize
  ob_last_line_incomplete :: bool

definition ob_new :: output_buffer where
  "ob_new = \<lparr>ob_lines = [], ob_total_size = 0, ob_last_line_incomplete = False\<rparr>"

definition NL :: u8 where "NL = 10"

definition push_line :: "bytes \<Rightarrow> output_buffer \<Rightarrow> output_buffer" where
  "push_line line_data b = b\<lparr>ob_total_size := ob_total_size b + of_nat (length line_data), ob_lines := ob_lines b @ [line_data]\<rparr>"

text \<open>The loop over the pieces of the new data; the last piece has no newline after it.\<close>

fun push_lines :: "bool \<Rightarrow> bytes list \<Rightarrow> output_buffer \<Rightarrow> output_buffer" where
  "push_lines ends_with_newline [] b = b"
| "push_lines ends_with_newline [line] b =
    (let b = (if \<not> ends_with_newline \<and> line \<noteq> [] then b\<lparr>ob_last_line_incomplete := True\<rparr> else b) in
     if line \<noteq> [] then push_line (line @ (if ends_with_newline then [NL] else [])) b else b)"
| "push_lines ends_with_newline (line # lines) b = push_lines ends_with_newline lines (push_line (line @ [NL]) b)"

text \<open>An iteration on an empty buffer changes nothing, so the loop then runs forever.\<close>

partial_function (option) trim_loop :: "output_buffer \<Rightarrow> output_buffer option" where
  "trim_loop b =
    (if ob_total_size b > MAX_OUTPUT_BUFFER_SIZE \<or> length (ob_lines b) > MAX_BUFFER_LINES
     then trim_loop (case ob_lines b of
            removed # rest \<Rightarrow> b\<lparr>ob_lines := rest, ob_total_size := ob_total_size b - of_nat (length removed)\<rparr>
          | [] \<Rightarrow> b)
     else Some b)"

definition append_rest :: "bytes \<Rightarrow> output_buffer \<Rightarrow> output_buffer option" where
  "append_rest remaining b =
     trim_loop (push_lines (remaining \<noteq> [] \<and> last remaining = NL) (split_on NL remaining) b)"

definition ob_append :: "bytes \<Rightarrow> output_buffer \<Rightarrow> output_buffer option" where
  "ob_append data b =
    (if data = [] then Some b
     else if ob_last_line_incomplete b \<and> ob_lines b \<noteq> [] then
       (if NL \<in> set data then
          (let pos = length (takeWhile (\<lambda>c. c \<noteq> NL) data) in
           append_rest (drop (pos + 1) data)
             (b\<lparr>ob_lines := butlast (ob_lines b) @ [last (ob_lines b) @ take (pos + 1) data],
                ob_last_line_incomplete := False\<rparr>))
        else Some (b\<lparr>ob_lines := butlast (ob_lines b) @ [last (ob_lines b) @ data],
                     ob_total_size := ob_total_size b + of_nat (length data)\<rparr>))
     else append_rest data b)"

fun recent_lines :: "nat \<Rightarrow> nat \<Rightarrow> bytes list \<Rightarrow> bytes" where
  "recent_lines max_bytes sz [] = []"
| "recent_lines max_bytes sz (line # older) =
    (if sz + length line > max_bytes then []
     else recent_lines max_bytes (sz + length line) older @ line)"

definition get_recent :: "nat \<Rightarrow> output_buffer \<Rightarrow> bytes" where
  "get_recent max_bytes b = recent_lines max_bytes 0 (rev (ob_lines b))"

subsection \<open>The loops\<close>

declare trim_loop.simps [simp del]

definition ob_content :: "output_buffer \<Rightarrow> bytes" where
  "ob_content b = concat (ob_lines b)"

text \<open>The pieces pushed for some data spell the data.\<close>

lemma content_push_line [simp]: "ob_content (push_line l b) = ob_content b @ l"
  by (simp add: push_line_def ob_content_def)

lemma push_lines_content:
  "ls \<noteq> [] \<Longrightarrow> ends \<longrightarrow> last ls = [] \<Longrightarrow> ob_content (push_lines ends ls b) =
     ob_content b @ concat (map (\<lambda>l. l @ [NL]) (butlast ls)) @ last ls"
  by (induction ends ls b rule: push_lines.induct) (auto simp: Let_def ob_content_def push_line_def)

lemma split_on_join: "concat (map (\<lambda>l. l @ [c]) (butlast (split_on c xs))) @ last (split_on c xs) = xs"
  by (induction xs) (auto split: list.splits)

lemma split_on_snoc: "split_on c (xs @ [c]) = split_on c xs @ [[]]"
  by (induction xs) (auto split: list.splits)

lemma split_on_last: "xs \<noteq> [] \<Longrightarrow> last xs = c \<Longrightarrow> last (split_on c xs) = []"
  using split_on_snoc [of c "butlast xs"] by (cases xs rule: rev_cases) auto

lemma push_split_content:
  "ob_content (push_lines (xs \<noteq> [] \<and> last xs = NL) (split_on NL xs) b) = ob_content b @ xs"
  using split_on_join [of NL xs] split_on_last [of xs NL]
  by (subst push_lines_content) auto

text \<open>Partial correctness of the trimming loop by induction over its fixed point.\<close>

lemma trim_loop_result:
  assumes "trim_loop b = Some b'"
  shows "(\<exists>dropped. ob_lines b = dropped @ ob_lines b'
      \<and> ob_total_size b' = ob_total_size b - of_nat (length (concat dropped)))
    \<and> ob_total_size b' \<le> MAX_OUTPUT_BUFFER_SIZE \<and> length (ob_lines b') \<le> MAX_BUFFER_LINES
    \<and> ob_last_line_incomplete b' = ob_last_line_incomplete b"
  using assms
proof (induction rule: trim_loop.raw_induct [rotated, consumes 1])
  case (1 trim_loop b b')
  show ?case
  proof (cases "ob_total_size b > MAX_OUTPUT_BUFFER_SIZE \<or> length (ob_lines b) > MAX_BUFFER_LINES")
    case False
    with 1(2) show ?thesis by (auto simp: not_less)
  next
    case True
    show ?thesis
    proof (cases "ob_lines b")
      case Nil
      with True 1(2) have "trim_loop b = Some b'" by simp
      from 1(1) [OF this] show ?thesis by simp
    next
      case (Cons l ls)
      with True 1(2) have "trim_loop (b\<lparr>ob_lines := ls, ob_total_size := ob_total_size b - of_nat (length l)\<rparr>) = Some b'"
        by (simp split: if_splits)
      from 1(1) [OF this] obtain dropped where "ls = dropped @ ob_lines b'"
        "ob_total_size b' = ob_total_size b - of_nat (length l) - of_nat (length (concat dropped))"
        "ob_total_size b' \<le> MAX_OUTPUT_BUFFER_SIZE" "length (ob_lines b') \<le> MAX_BUFFER_LINES"
        "ob_last_line_incomplete b' = ob_last_line_incomplete b" by auto
      with Cons show ?thesis by (auto intro!: exI [of _ "l # dropped"])
    qed
  qed
qed

text \<open>The byte count is exact when it is the length of the content.\<close>

definition ob_exact :: "output_buffer \<Rightarrow> bool" where
  "ob_exact b \<longleftrightarrow> ob_total_size b = of_nat (length (ob_content b))"

lemma trim_loop_exact:
  assumes "ob_exact b" and "length (ob_content b) < 2 ^ 64"
  shows "\<exists>b'. trim_loop b = Some b'"
  using assms
proof (induction "ob_lines b" arbitrary: b)
  case Nil
  then show ?case
    by (simp add: trim_loop.simps [of b] ob_exact_def ob_content_def MAX_OUTPUT_BUFFER_SIZE_def MAX_BUFFER_LINES_def)
next
  case (Cons l ls)
  let ?b = "b\<lparr>ob_lines := ls, ob_total_size := ob_total_size b - of_nat (length l)\<rparr>"
  have "ob_exact ?b" "length (ob_content ?b) < 2 ^ 64"
    using Cons.prems Cons.hyps(2) [symmetric] by (simp_all add: ob_exact_def ob_content_def)
  from Cons.hyps(1) [OF _ this] Cons.hyps(2) [symmetric] show ?case
    by (subst trim_loop.simps) auto
qed

lemma exact_push_line [simp]: "ob_exact b \<Longrightarrow> ob_exact (push_line l b)"
  by (simp add: ob_exact_def push_line_def ob_content_def)

lemma exact_push_lines: "ob_exact b \<Longrightarrow> ob_exact (push_lines ends ls b)"
  by (induction ends ls b rule: push_lines.induct)
    (auto simp: Let_def intro: exact_push_line, simp add: ob_exact_def push_line_def ob_content_def)

lemma append_rest_result:
  assumes "append_rest xs b = Some b'"
  shows "suffix (ob_content b') (ob_content b @ xs)"
    and "ob_total_size b' \<le> MAX_OUTPUT_BUFFER_SIZE" and "length (ob_lines b') \<le> MAX_BUFFER_LINES"
    and "ob_exact b \<Longrightarrow> ob_exact b'"
proof -
  let ?p = "push_lines (xs \<noteq> [] \<and> last xs = NL) (split_on NL xs) b"
  have "trim_loop ?p = Some b'" using assms by (simp add: append_rest_def)
  from trim_loop_result [OF this] obtain dropped where d: "ob_lines ?p = dropped @ ob_lines b'"
    "ob_total_size b' = ob_total_size ?p - of_nat (length (concat dropped))"
    and r: "ob_total_size b' \<le> MAX_OUTPUT_BUFFER_SIZE" "length (ob_lines b') \<le> MAX_BUFFER_LINES" by blast
  from d(1) have "ob_content ?p = concat dropped @ ob_content b'" by (simp add: ob_content_def)
  then show "suffix (ob_content b') (ob_content b @ xs)"
    using push_split_content [of xs b] by (auto simp: suffix_def)
  show "ob_total_size b' \<le> MAX_OUTPUT_BUFFER_SIZE" "length (ob_lines b') \<le> MAX_BUFFER_LINES" by (fact r)+
  show "ob_exact b'" if "ob_exact b"
  proof -
    have "ob_exact ?p" using that by (rule exact_push_lines)
    with d show ?thesis by (simp add: ob_exact_def ob_content_def)
  qed
qed

subsection \<open>Refinement: a window on the output\<close>

lemma ob_append_suffix:
  assumes "ob_append data b = Some b'"
  shows "suffix (ob_content b') (ob_content b @ data)"
proof -
  have snoc: "ls \<noteq> [] \<Longrightarrow> concat (butlast ls @ [last ls @ xs]) = concat ls @ xs" for ls :: "bytes list" and xs
    by (cases ls rule: rev_cases) auto
  let ?pos = "length (takeWhile (\<lambda>c. c \<noteq> NL) data)"
  let ?b = "b\<lparr>ob_lines := butlast (ob_lines b) @ [last (ob_lines b) @ take (?pos + 1) data], ob_last_line_incomplete := False\<rparr>"
  consider "data = []" | "data \<noteq> []" "\<not> (ob_last_line_incomplete b \<and> ob_lines b \<noteq> [])"
    | "data \<noteq> []" "ob_last_line_incomplete b" "ob_lines b \<noteq> []" "NL \<in> set data"
    | "data \<noteq> []" "ob_last_line_incomplete b" "ob_lines b \<noteq> []" "NL \<notin> set data"
    by blast
  then show ?thesis
  proof cases
    case 1
    then show ?thesis using assms by (simp add: ob_append_def)
  next
    case 2
    then have "append_rest data b = Some b'" using assms unfolding ob_append_def by (simp only: if_False)
    then show ?thesis by (rule append_rest_result(1))
  next
    case 3
    then have rest: "append_rest (drop (?pos + 1) data) ?b = Some b'"
      using assms unfolding ob_append_def Let_def by simp
    have "ob_content ?b @ drop (?pos + 1) data = (ob_content b @ take (?pos + 1) data) @ drop (?pos + 1) data"
    proof -
      have "ob_lines ?b = butlast (ob_lines b) @ [last (ob_lines b) @ take (?pos + 1) data]" by simp
      then show ?thesis using snoc [OF 3(3), of "take (?pos + 1) data"] by (simp only: ob_content_def)
    qed
    with append_rest_result(1) [OF rest] show ?thesis by (simp only: append_assoc append_take_drop_id)
  next
    case 4
    then have "ob_lines b' = butlast (ob_lines b) @ [last (ob_lines b) @ data]"
      using assms unfolding ob_append_def by auto
    then have "ob_content b' = ob_content b @ data" using snoc [OF 4(3), of data] by (simp only: ob_content_def)
    then show ?thesis by simp
  qed
qed

text \<open>The specification: new output is appended and old output may be forgotten.\<close>

definition window_step :: "bytes \<Rightarrow> bytes \<Rightarrow> bytes \<Rightarrow> bool" where
  "window_step data w w' \<longleftrightarrow> suffix w' (w @ data)"

interpretation ob: op_simulation ob_append window_step ob_content "\<lambda>b. True"
  by unfold_locales (auto simp: window_step_def intro: ob_append_suffix)

lemma astar_window: "astar window_step ds w w' \<Longrightarrow> suffix w' (w @ concat ds)"
proof (induction rule: astar.induct)
  case (astar_Cons data w w1 ds w2)
  then have "suffix (w1 @ concat ds) (w @ data @ concat ds)"
    by (auto simp: window_step_def suffix_def)
  with astar_Cons.IH show ?case by (auto intro: suffix_order.trans)
qed simp

lemma recent_lines_suffix: "\<exists>older. concat (rev ls) = older @ recent_lines m sz ls"
proof (induction m sz ls rule: recent_lines.induct)
  case (2 m sz line older)
  then show ?case by (cases "m < sz + length line") auto
qed simp

lemma recent_lines_length: "sz \<le> m \<Longrightarrow> sz + length (recent_lines m sz ls) \<le> m"
proof (induction m sz ls rule: recent_lines.induct)
  case (2 m sz line older)
  then show ?case by (cases "m < sz + length line") auto
qed simp

lemma get_recent_suffix: "suffix (get_recent m b) (ob_content b) \<and> length (get_recent m b) \<le> m"
  using recent_lines_suffix [of "rev (ob_lines b)" m 0] recent_lines_length [of 0 m "rev (ob_lines b)"]
  by (auto simp: get_recent_def ob_content_def suffix_def)

text \<open>
  C16. The output buffer refines a window on what is appended to it: whatever chunks are appended to a new buffer, if the
  calls return then the content of the buffer is a suffix of all the bytes appended, and \<open>get_recent\<close> returns a suffix of
  them of at most the requested length. (Only what the reader thread could put in its channel is appended, and no client
  is ever sent what \<open>get_recent\<close> returns: opening an existing session computes it and drops it.)
\<close>

theorem output_buffer_refines_window:
  assumes "run_opt ob_append chunks ob_new = Some b"
  shows "suffix (ob_content b) (concat chunks) \<and> suffix (get_recent m b) (concat chunks) \<and> length (get_recent m b) \<le> m"
proof -
  have "suffix (ob_content b) (concat chunks)"
    using ob.run_sim [OF _ assms] astar_window [of chunks "ob_content ob_new" "ob_content b"]
    by (simp add: ob_new_def ob_content_def)
  then show ?thesis using get_recent_suffix [of m b] suffix_order.trans by blast
qed

theorem output_buffer_refines_window_witness:
  "suffix (ob_content (push_line [104, 10] ob_new)) [104, 10]"
proof -
  have "trim_loop (push_line [104, 10] ob_new) = Some (push_line [104, 10] ob_new)"
    by (subst trim_loop.simps) (simp add: push_line_def ob_new_def MAX_OUTPUT_BUFFER_SIZE_def MAX_BUFFER_LINES_def)
  then have "run_opt ob_append [[104, 10]] ob_new = Some (push_line [104, 10] ob_new)"
    by (simp add: ob_append_def append_rest_def NL_def) (simp add: ob_new_def)
  from output_buffer_refines_window [OF this] show ?thesis by simp
qed

subsection \<open>Complete lines\<close>

definition complete_chunk :: "bytes \<Rightarrow> bool" where
  "complete_chunk data \<longleftrightarrow> data \<noteq> [] \<and> last data = NL \<and> length data \<le> 4096"

lemma push_lines_complete:
  "ls \<noteq> [] \<Longrightarrow> last ls = [] \<Longrightarrow> ob_last_line_incomplete (push_lines ends ls b) = ob_last_line_incomplete b"
  by (induction ends ls b rule: push_lines.induct) (auto simp: push_line_def)

definition ob_tidy :: "output_buffer \<Rightarrow> bool" where
  "ob_tidy b \<longleftrightarrow> ob_exact b \<and> \<not> ob_last_line_incomplete b \<and> length (ob_content b) \<le> unat MAX_OUTPUT_BUFFER_SIZE
     \<and> length (ob_lines b) \<le> MAX_BUFFER_LINES"

lemma append_complete:
  assumes "ob_tidy b" and "complete_chunk data"
  shows "\<exists>b'. ob_append data b = Some b' \<and> ob_tidy b'"
proof -
  let ?p = "push_lines (data \<noteq> [] \<and> last data = NL) (split_on NL data) b"
  have app: "ob_append data b = append_rest data b"
    using assms by (simp add: ob_append_def ob_tidy_def complete_chunk_def)
  have len: "length (ob_content b @ data) < 2 ^ 64"
    using assms by (simp add: ob_tidy_def complete_chunk_def MAX_OUTPUT_BUFFER_SIZE_def)
  have "ob_exact ?p" using assms by (simp add: ob_tidy_def exact_push_lines)
  with len obtain b' where b': "trim_loop ?p = Some b'"
    using trim_loop_exact [of ?p] push_split_content [of data b] by auto
  then have rest: "append_rest data b = Some b'" by (simp add: append_rest_def)
  note res = append_rest_result [OF rest]
  have "length (ob_content b') \<le> length (ob_content b @ data)" using res(1) by (rule suffix_length_le)
  then have "unat (of_nat (length (ob_content b')) :: usize) = length (ob_content b')"
    using len by (simp add: unat_of_nat)
  moreover have "ob_exact b'" using res(4) assms by (simp add: ob_tidy_def)
  ultimately have "length (ob_content b') \<le> unat MAX_OUTPUT_BUFFER_SIZE"
    using res(2) by (simp add: ob_exact_def word_le_nat_alt)
  moreover have "\<not> ob_last_line_incomplete b'"
    using trim_loop_result [OF b'] push_lines_complete [of "split_on NL data"] split_on_last [of data NL] assms
    by (auto simp: ob_tidy_def complete_chunk_def)
  ultimately show ?thesis using app rest res(3) \<open>ob_exact b'\<close> by (auto simp: ob_tidy_def)
qed

lemma ob_tidy_new: "ob_tidy ob_new"
  by (simp add: ob_tidy_def ob_exact_def ob_content_def ob_new_def)

lemma ob_tidy_run:
  "list_all complete_chunk chunks \<Longrightarrow> ob_tidy b \<Longrightarrow> \<exists>b'. run_opt ob_append chunks b = Some b' \<and> ob_tidy b'"
proof (induction chunks arbitrary: b)
  case (Cons data chunks)
  then show ?case using append_complete [of b data] by fastforce
qed simp

text \<open>
  For output that arrives in whole lines the buffer works as meant: the calls return, the byte
  count is exact, and the buffer never holds more than one megabyte or ten thousand lines.
\<close>

theorem output_buffer_complete_lines:
  assumes "list_all complete_chunk chunks"
  shows "\<exists>b. run_opt ob_append chunks ob_new = Some b \<and> unat (ob_total_size b) = length (ob_content b)
    \<and> length (ob_content b) \<le> 1024 * 1024 \<and> length (ob_lines b) \<le> 10000"
proof -
  obtain b where b: "run_opt ob_append chunks ob_new = Some b" "ob_tidy b"
    using ob_tidy_run [OF assms ob_tidy_new] by blast
  then have "length (ob_content b) \<le> 1024 * 1024" by (simp add: ob_tidy_def MAX_OUTPUT_BUFFER_SIZE_def)
  with b show ?thesis by (auto simp: ob_tidy_def ob_exact_def unat_of_nat MAX_BUFFER_LINES_def)
qed

theorem output_buffer_complete_lines_witness:
  "\<exists>b. run_opt ob_append [[104, 105, 10], [10]] ob_new = Some b \<and> length (ob_lines b) \<le> 10000"
  using output_buffer_complete_lines [of "[[104, 105, 10], [10]]"]
  by (auto simp: complete_chunk_def NL_def)

subsection \<open>Completing a line\<close>

text \<open>A byte count below the truth by \<open>d\<close>: once fewer than \<open>d\<close> bytes remain, the loop cannot end.\<close>

lemma trim_loop_short:
  assumes "trim_loop b = Some b'" and "ob_total_size b + of_nat d = of_nat (length (ob_content b))"
    and "d \<le> 2 ^ 63"
  shows "d \<le> length (ob_content b') \<or> 2 ^ 63 \<le> length (ob_content b')"
proof -
  obtain dropped where d: "ob_lines b = dropped @ ob_lines b'"
    "ob_total_size b' = ob_total_size b - of_nat (length (concat dropped))" "ob_total_size b' \<le> MAX_OUTPUT_BUFFER_SIZE"
    using trim_loop_result [OF assms(1)] by blast
  have "ob_total_size b + of_nat d = of_nat (length (concat dropped)) + of_nat (length (ob_content b'))"
    using assms(2) d(1) by (simp add: ob_content_def)
  moreover have "ob_total_size b = ob_total_size b' + of_nat (length (concat dropped))" using d(2) by simp
  ultimately have "of_nat (length (concat dropped)) + (ob_total_size b' + of_nat d)
      = of_nat (length (concat dropped)) + of_nat (length (ob_content b'))" by (simp only: ac_simps)
  then have "of_nat (length (ob_content b')) = ob_total_size b' + of_nat d" by (simp only: add_left_cancel)
  then have eq: "of_nat (length (ob_content b')) = (of_nat (unat (ob_total_size b') + d) :: usize)" by simp
  have u: "unat (ob_total_size b') \<le> 2 ^ 20" using d(3) by (simp add: word_le_nat_alt MAX_OUTPUT_BUFFER_SIZE_def)
  have "length (ob_content b') mod 2 ^ 64 = (unat (ob_total_size b') + d) mod 2 ^ 64"
    using arg_cong [OF eq, of unat] by (simp only: unat_of_nat) simp
  also have "\<dots> = unat (ob_total_size b') + d" using u assms(3) by simp
  finally have "unat (ob_total_size b') + d = length (ob_content b') mod 2 ^ 64" ..
  then show ?thesis by (metis le_add2 le_trans mod_less_eq_dividend)
qed

text \<open>
  C40. Completing an unfinished line can hang the terminal: after one byte without newline, a long rest of
  that line, whose bytes are not counted, and then ten thousand and one empty lines, the trimming loop
  of the third call never ends.
\<close>

theorem output_buffer_hangs:
  assumes "x \<noteq> NL" and "y \<noteq> NL" and "10000 \<le> k" and "k < 2 ^ 62"
  shows "run_opt ob_append [[x], replicate k y @ [NL]] ob_new =
       Some \<lparr>ob_lines = [x # replicate k y @ [NL]], ob_total_size = 1, ob_last_line_incomplete = False\<rparr>
    \<and> run_opt ob_append [[x], replicate k y @ [NL], replicate 10001 NL] ob_new = None"
proof -
  let ?b1 = "\<lparr>ob_lines = [[x]], ob_total_size = 1, ob_last_line_incomplete = True\<rparr>"
  let ?b2 = "\<lparr>ob_lines = [x # replicate k y @ [NL]], ob_total_size = 1, ob_last_line_incomplete = False\<rparr>"
  have small: "trim_loop b = Some b" if "ob_total_size b = 1" "length (ob_lines b) = 1" for b
    using that by (subst trim_loop.simps) (simp add: MAX_OUTPUT_BUFFER_SIZE_def MAX_BUFFER_LINES_def)
  have s1: "ob_append [x] ob_new = Some ?b1"
    using assms(1) small [of ?b1] by (simp add: ob_append_def ob_new_def append_rest_def push_line_def)
  have tw: "takeWhile (\<lambda>c. c \<noteq> NL) (replicate k y @ [NL]) = replicate k y"
    using assms(2) by (simp add: takeWhile_append)
  have s2: "ob_append (replicate k y @ [NL]) ?b1 = Some ?b2"
    using small [of ?b2] tw by (simp add: ob_append_def append_rest_def)
  have s3: "ob_append (replicate 10001 NL) ?b2 = None"
  proof (rule ccontr)
    let ?p = "push_lines True (split_on NL (replicate 10001 NL)) ?b2"
    have nls: "split_on NL (replicate n NL) = replicate (Suc n) []" for n by (induction n) auto
    have pl: "push_lines e (replicate (Suc n) []) b = b\<lparr>ob_lines := ob_lines b @ replicate n [NL], ob_total_size := ob_total_size b + of_nat n\<rparr>" for n e b
      by (induction n arbitrary: b) (simp_all add: push_line_def algebra_simps)
    assume "ob_append (replicate 10001 NL) ?b2 \<noteq> None"
    then obtain b' where "trim_loop ?p = Some b'"
      by (auto simp: ob_append_def append_rest_def last_replicate)
    moreover have p: "?p = \<lparr>ob_lines = (x # replicate k y @ [NL]) # replicate 10001 [NL], ob_total_size = 10002, ob_last_line_incomplete = False\<rparr>"
      by (simp only: nls pl) simp
    ultimately have run: "trim_loop \<lparr>ob_lines = (x # replicate k y @ [NL]) # replicate 10001 [NL], ob_total_size = 10002,
        ob_last_line_incomplete = False\<rparr> = Some b'" (is "trim_loop ?q = _") by (simp only:)
    have cont: "length (ob_content ?q) = k + 2 + 10001" by (simp add: ob_content_def length_concat sum_list_replicate)
    obtain dropped where dr: "(x # replicate k y @ [NL]) # replicate 10001 [NL] = dropped @ ob_lines b'"
      "length (ob_lines b') \<le> 10000"
      using trim_loop_result [OF run] by (auto simp: MAX_BUFFER_LINES_def)
    have "length (dropped @ ob_lines b') = 10002" unfolding dr(1) [symmetric] by simp
    then have "dropped \<noteq> []" using dr(2) by auto
    with dr(1) obtain dropped' where "replicate 10001 [NL] = dropped' @ ob_lines b'" by (cases dropped) auto
    then have "set (ob_lines b') \<subseteq> set (replicate 10001 [NL])" by (simp only: set_append) blast
    then have "map length (ob_lines b') = replicate (length (ob_lines b')) 1"
      by (intro replicate_eqI) (auto split: if_splits)
    then have "length (ob_content b') = length (ob_lines b')"
      by (simp add: ob_content_def length_concat sum_list_replicate)
    then have "length (ob_content b') \<le> 10000" using dr(2) by simp
    moreover have "k + 1 \<le> length (ob_content b') \<or> 2 ^ 63 \<le> length (ob_content b')"
      by (rule trim_loop_short [OF run]) (use assms(4) in \<open>simp_all only: cont\<close>, simp_all)
    ultimately show False using assms(3) by simp
  qed
  show ?thesis using s1 s2 s3 by simp
qed

theorem output_buffer_hangs_witness:
  "run_opt ob_append [[97], replicate 10000 98 @ [10], replicate 10001 10] ob_new = None"
  using output_buffer_hangs [of 97 98 10000] by (simp add: NL_def)

end
