(* ===== verification/Terminal_Service.thy ===== *)
theory Terminal_Service
  imports Terminal_Buffer
begin

text \<open>
  Terminal sessions and the registry of terminal services, \<open>src/server/terminal_service.rs\<close>. A session
  has its channels as queues, its threads as flags (present, finished) and its child process as a handle;
  pseudo terminals and processes are the record of parameters \<open>term_env\<close>, fixed for one call. Sends to
  the writer and joins of threads are taken to return. The model is that of a Linux build.
\<close>

subsection \<open>Data\<close>

definition MAX_SERVICES :: nat where "MAX_SERVICES = 100"
definition SERVICE_IDLE_TIMEOUT :: nat where "SERVICE_IDLE_TIMEOUT = 3600 * 1000"
definition CHANNEL_BUFFER_SIZE :: nat where "CHANNEL_BUFFER_SIZE = 100"
definition COMPRESS_THRESHOLD :: nat where "COMPRESS_THRESHOLD = 512"

type_synonym child = nat

record terminal_session =
  tn_created_at :: nat
  tn_last_activity :: nat
  tn_pty_pair :: bool
  tn_child :: "child option"
  tn_input_tx :: "bytes list option"
  tn_output_rx :: "bytes list option"
  tn_exiting :: bool
  tn_reader_thread :: "bool option"
  tn_writer_thread :: "bool option"
  tn_output_buffer :: output_buffer
  tn_title :: string
  tn_pid :: u32
  tn_rows :: u16
  tn_cols :: u16
  tn_closed_message_sent :: bool
  tn_is_opened :: bool

record terminal_service =
  tz_service_id :: string
  tz_sessions :: "(i32, terminal_session) hmap"
  tz_created_at :: nat
  tz_last_activity :: nat
  tz_is_persistent :: bool
  tz_needs_session_sync :: bool
  tz_is_specified_user :: bool

text \<open>The global tables: services, processes waiting to be reaped, and whether the cleanup thread runs.\<close>

record term_globals =
  tg_services :: "(string, terminal_service) hmap"
  tg_tasks :: "child list"
  tg_cleanup_task :: bool

text \<open>
  \<open>try_wait\<close>: \<open>None\<close> is an error, \<open>Some None\<close> a running process. \<open>tv_locked\<close> are the sessions
  another thread holds.
\<close>

record term_env =
  tv_now :: nat
  tv_openpty :: bool
  tv_spawn :: "child option"
  tv_take_writer :: bool
  tv_clone_reader :: bool
  tv_process_id :: "child \<Rightarrow> u32 option"
  tv_resize_ok :: bool
  tv_kill_ok :: "child \<Rightarrow> bool"
  tv_try_wait :: "child \<Rightarrow> int option option"
  tv_locked :: "i32 \<Rightarrow> bool"
  tv_compress :: "bytes \<Rightarrow> bytes"

datatype terminal_response =
    TermOpened i32 bool string u32 string "i32 list"
  | TermData i32 bytes bool
  | TermClosed i32 int
  | TermError string

datatype terminal_action = ActOpen i32 u32 u32 | ActResize i32 u32 u32 | ActData i32 bytes | ActClose i32 | ActNone

subsection \<open>Sessions\<close>

definition session_new :: "nat \<Rightarrow> i32 \<Rightarrow> u16 \<Rightarrow> u16 \<Rightarrow> terminal_session" where
  "session_new now terminal_id rows cols =
     \<lparr>tn_created_at = now, tn_last_activity = now, tn_pty_pair = False, tn_child = None, tn_input_tx = None,
      tn_output_rx = None, tn_exiting = False, tn_reader_thread = None, tn_writer_thread = None,
      tn_output_buffer = ob_new, tn_title = ''Terminal '' @ show_int (sint terminal_id), tn_pid = 0, tn_rows = rows, tn_cols = cols,
      tn_closed_message_sent = False, tn_is_opened = False\<rparr>"

text \<open>\<open>stop\<close>, also run when a session is dropped; the killed child goes to the reaper.\<close>

definition session_stop :: "terminal_session \<Rightarrow> child list \<Rightarrow> terminal_session \<times> child list" where
  "session_stop s tasks =
     (s\<lparr>tn_is_opened := False, tn_exiting := True, tn_input_tx := None, tn_output_rx := None, tn_pty_pair := False,
        tn_reader_thread := None, tn_writer_thread := None, tn_child := None\<rparr>,
      case tn_child s of Some c \<Rightarrow> tasks @ [c] | None \<Rightarrow> tasks)"

text \<open>One round of the reader thread: \<open>None\<close> is the end of the output or an error.\<close>

definition reader_step :: "bytes option \<Rightarrow> terminal_session \<Rightarrow> terminal_session" where
  "reader_step res s =
    (if tn_reader_thread s \<noteq> Some False then s
     else case res of
       None \<Rightarrow> s\<lparr>tn_reader_thread := Some True\<rparr>
     | Some data \<Rightarrow>
         if tn_exiting s then s\<lparr>tn_reader_thread := Some True\<rparr>
         else (case tn_output_rx s of
                 None \<Rightarrow> s\<lparr>tn_reader_thread := Some True\<rparr>
               | Some q \<Rightarrow> if length q < CHANNEL_BUFFER_SIZE then s\<lparr>tn_output_rx := Some (q @ [data])\<rparr> else s))"

text \<open>One round of the writer thread; \<open>ok\<close> tells whether the write succeeds.\<close>

definition writer_step :: "bool \<Rightarrow> terminal_session \<Rightarrow> terminal_session" where
  "writer_step ok s =
    (if tn_writer_thread s \<noteq> Some False then s
     else case tn_input_tx s of
       None \<Rightarrow> s\<lparr>tn_writer_thread := Some True\<rparr>
     | Some [] \<Rightarrow> s
     | Some (d # q) \<Rightarrow> s\<lparr>tn_input_tx := Some q, tn_writer_thread := Some (\<not> ok)\<rparr>)"

subsection \<open>The registry\<close>

definition service_new_terminal :: "nat \<Rightarrow> string \<Rightarrow> bool \<Rightarrow> bool \<Rightarrow> terminal_service" where
  "service_new_terminal now service_id is_persistent is_specified_user =
     \<lparr>tz_service_id = service_id, tz_sessions = [], tz_created_at = now, tz_last_activity = now,
      tz_is_persistent = is_persistent, tz_needs_session_sync = False, tz_is_specified_user = is_specified_user\<rparr>"

definition reset_status :: "bool \<Rightarrow> terminal_service \<Rightarrow> terminal_service" where
  "reset_status is_persistent svc =
     svc\<lparr>tz_is_persistent := is_persistent, tz_needs_session_sync := True,
         tz_sessions := hm_map_values (\<lambda>s. s\<lparr>tn_is_opened := False\<rparr>) (tz_sessions svc)\<rparr>"

definition is_service_specified_user :: "string \<Rightarrow> term_globals \<Rightarrow> bool option" where
  "is_service_specified_user service_id g = map_option tz_is_specified_user (hm_get (tg_services g) service_id)"

definition get_or_create_service ::
    "nat \<Rightarrow> string \<Rightarrow> bool \<Rightarrow> bool \<Rightarrow> term_globals \<Rightarrow> term_globals \<times> (unit, string) result" where
  "get_or_create_service now service_id is_persistent is_specified_user g =
    (if \<not> hm_contains (tg_services g) service_id \<and> length (tg_services g) \<ge> MAX_SERVICES
     then (g, Err (''Maximum number of terminal services ('' @ show_nat MAX_SERVICES @ '') reached''))
     else let services = (if hm_contains (tg_services g) service_id then tg_services g
                          else hm_insert service_id (service_new_terminal now service_id is_persistent is_specified_user)
                                 (tg_services g)) in
       (g\<lparr>tg_services := hm_modify service_id (reset_status is_persistent) services, tg_cleanup_task := True\<rparr>, Ok ()))"

definition remove_service :: "string \<Rightarrow> term_globals \<Rightarrow> term_globals" where
  "remove_service service_id g =
    (case hm_get (tg_services g) service_id of
       None \<Rightarrow> g
     | Some svc \<Rightarrow> g\<lparr>tg_services := hm_remove service_id (tg_services g),
                      tg_tasks := fold (\<lambda>(_, s) tasks. snd (session_stop s tasks)) (tz_sessions svc) (tg_tasks g)\<rparr>)"

definition list_services :: "term_globals \<Rightarrow> (string \<times> nat \<times> nat \<times> bool) list" where
  "list_services g = map (\<lambda>(k, svc). (k, tz_created_at svc, length (tz_sessions svc), tz_is_persistent svc)) (tg_services g)"

definition service_idle :: "nat \<Rightarrow> terminal_service \<Rightarrow> bool" where
  "service_idle now svc \<longleftrightarrow>
     \<not> tz_is_persistent svc \<and> now - tz_last_activity svc > SERVICE_IDLE_TIMEOUT
   \<or> tz_is_persistent svc \<and> tz_sessions svc = [] \<and> now - tz_last_activity svc > SERVICE_IDLE_TIMEOUT * 2"

definition cleanup_inactive_services :: "nat \<Rightarrow> term_globals \<Rightarrow> term_globals" where
  "cleanup_inactive_services now g =
     fold remove_service (map fst (filter (\<lambda>(_, svc). service_idle now svc) (tg_services g))) g"

definition check_zombie_terminals :: "term_env \<Rightarrow> term_globals \<Rightarrow> term_globals" where
  "check_zombie_terminals env g = g\<lparr>tg_tasks := filter (\<lambda>c. tv_try_wait env c = Some None) (tg_tasks g)\<rparr>"

text \<open>A round of the clean-up thread, every 100 milliseconds; \<open>last_cleanup\<close> is its \<open>last_service_cleanup\<close>.\<close>

definition cleanup_round :: "term_env \<Rightarrow> nat \<Rightarrow> term_globals \<Rightarrow> term_globals \<times> nat" where
  "cleanup_round env last_cleanup g =
    (let g = check_zombie_terminals env g in
     if tv_now env - last_cleanup > 300 * 1000 then (cleanup_inactive_services (tv_now env) g, tv_now env) else (g, last_cleanup))"

definition get_terminal_session_count :: "bool \<Rightarrow> term_globals \<Rightarrow> nat" where
  "get_terminal_session_count include_zombie_tasks g =
     length (tg_services g) + (if include_zombie_tasks then length (tg_tasks g) else 0)"

definition set_persistent :: "string \<Rightarrow> bool \<Rightarrow> term_globals \<Rightarrow> term_globals \<times> (unit, string) result" where
  "set_persistent service_id is_persistent g =
    (if hm_contains (tg_services g) service_id
     then (g\<lparr>tg_services := hm_modify service_id (\<lambda>svc. svc\<lparr>tz_is_persistent := is_persistent\<rparr>) (tg_services g)\<rparr>, Ok ())
     else (g, Err (''Service '' @ service_id @ '' not found'')))"

subsection \<open>Handling actions\<close>

type_synonym 'a handled = "terminal_service \<times> child list \<times> ('a, string) result"

definition open_existing :: "string \<Rightarrow> i32 \<Rightarrow> terminal_session \<Rightarrow> terminal_service \<Rightarrow> terminal_service \<times> terminal_response" where
  "open_existing service_id terminal_id s svc =
    (let others = (if tz_needs_session_sync svc \<and> length (tz_sessions svc) > 1
                   then filter (\<lambda>i. i \<noteq> terminal_id) (map fst (tz_sessions svc)) else []) in
     (svc\<lparr>tz_sessions := hm_modify terminal_id (\<lambda>s. s\<lparr>tn_is_opened := True\<rparr>) (tz_sessions svc), tz_needs_session_sync := False\<rparr>,
      TermOpened terminal_id True ''Reconnected to existing terminal'' (tn_pid s) service_id others))"

definition handle_open :: "term_env \<Rightarrow> string \<Rightarrow> i32 \<Rightarrow> u32 \<Rightarrow> u32 \<Rightarrow> terminal_service \<Rightarrow> child list
    \<Rightarrow> terminal_response option handled" where
  "handle_open env service_id terminal_id rows cols svc tasks =
    (case hm_get (tz_sessions svc) terminal_id of
       Some s \<Rightarrow> (case open_existing service_id terminal_id s svc of (svc, r) \<Rightarrow> (svc, tasks, Ok (Some r)))
     | None \<Rightarrow>
         if \<not> tv_openpty env then (svc, tasks, Err ''Failed to open PTY'')
         else case tv_spawn env of
           None \<Rightarrow> (svc, tasks, Err ''Failed to spawn command'')
         | Some c \<Rightarrow>
             if \<not> tv_take_writer env then (svc, tasks, Err ''Failed to get writer'')
             else if \<not> tv_clone_reader env then (svc, tasks, Err ''Failed to get reader'')
             else
               let pid = (case tv_process_id env c of Some p \<Rightarrow> p | None \<Rightarrow> 0);
                   s = (session_new (tv_now env) terminal_id (ucast rows) (ucast cols))\<lparr>tn_pid := pid, tn_pty_pair := True,
                          tn_child := Some c, tn_input_tx := Some [], tn_output_rx := Some [],
                          tn_reader_thread := Some False, tn_writer_thread := Some False, tn_is_opened := True\<rparr>;
                   others = (if tz_needs_session_sync svc then map fst (tz_sessions svc) else []) in
               (svc\<lparr>tz_needs_session_sync := False, tz_sessions := hm_insert terminal_id s (tz_sessions svc)\<rparr>, tasks,
                Ok (Some (TermOpened terminal_id True ''Terminal opened'' pid (tz_service_id svc) others))))"

definition handle_resize :: "term_env \<Rightarrow> i32 \<Rightarrow> u32 \<Rightarrow> u32 \<Rightarrow> terminal_service \<Rightarrow> child list
    \<Rightarrow> terminal_response option handled" where
  "handle_resize env terminal_id rows cols svc tasks =
    (case hm_get (tz_sessions svc) terminal_id of
       None \<Rightarrow> (svc, tasks, Ok None)
     | Some s \<Rightarrow>
         (svc\<lparr>tz_sessions := hm_modify terminal_id
                (\<lambda>s. s\<lparr>tn_last_activity := tv_now env, tn_rows := ucast rows, tn_cols := ucast cols\<rparr>) (tz_sessions svc)\<rparr>, tasks,
          if tn_pty_pair s \<and> \<not> tv_resize_ok env then Err ''resize failed'' else Ok None))"

definition handle_data :: "term_env \<Rightarrow> i32 \<Rightarrow> bytes \<Rightarrow> terminal_service \<Rightarrow> child list \<Rightarrow> terminal_response option handled" where
  "handle_data env terminal_id data svc tasks =
     (svc\<lparr>tz_sessions := hm_modify terminal_id
            (\<lambda>s. s\<lparr>tn_last_activity := tv_now env,
                   tn_input_tx := (case tn_input_tx s of
                       Some q \<Rightarrow> Some (if tn_writer_thread s = Some False then q @ [data] else q)
                     | None \<Rightarrow> None)\<rparr>) (tz_sessions svc)\<rparr>, tasks, Ok None)"

definition handle_close :: "term_env \<Rightarrow> i32 \<Rightarrow> terminal_service \<Rightarrow> child list \<Rightarrow> terminal_response option handled" where
  "handle_close env terminal_id svc tasks =
    (case hm_get (tz_sessions svc) terminal_id of
       None \<Rightarrow> (svc, tasks, Ok None)
     | Some s \<Rightarrow>
         (let svc = svc\<lparr>tz_sessions := hm_remove terminal_id (tz_sessions svc)\<rparr> in
          case tn_child s of
            None \<Rightarrow> (svc, tasks, Ok (Some (TermClosed terminal_id 0)))
          | Some c \<Rightarrow>
              if tv_kill_ok env c then (svc, tasks @ [c], Ok (Some (TermClosed terminal_id (- 1))))
              else (svc, tasks, Err ''kill failed'')))"

definition dispatch_action :: "term_env \<Rightarrow> string \<Rightarrow> terminal_action \<Rightarrow> terminal_service \<Rightarrow> child list
    \<Rightarrow> terminal_response option handled" where
  "dispatch_action env service_id action svc tasks =
    (case action of
       ActOpen i rows cols \<Rightarrow> handle_open env service_id i rows cols svc tasks
     | ActResize i rows cols \<Rightarrow> handle_resize env i rows cols svc tasks
     | ActData i data \<Rightarrow> handle_data env i data svc tasks
     | ActClose i \<Rightarrow> handle_close env i svc tasks
     | ActNone \<Rightarrow> (svc, tasks, Ok None))"

definition handle_action :: "term_env \<Rightarrow> string \<Rightarrow> terminal_action \<Rightarrow> term_globals
    \<Rightarrow> term_globals \<times> (terminal_response option, string) result" where
  "handle_action env service_id action g =
    (case hm_get (tg_services g) service_id of
       None \<Rightarrow> (g, Ok (Some (TermError (''Terminal service '' @ service_id @ '' not found''))))
     | Some svc \<Rightarrow>
         (case dispatch_action env service_id action (svc\<lparr>tz_last_activity := tv_now env\<rparr>) (tg_tasks g) of
            (svc, tasks, res) \<Rightarrow>
              (g\<lparr>tg_services := hm_modify service_id (\<lambda>_. svc) (tg_services g), tg_tasks := tasks\<rparr>, res)))"

subsection \<open>Reading outputs\<close>

definition data_response :: "term_env \<Rightarrow> i32 \<Rightarrow> bytes \<Rightarrow> terminal_response" where
  "data_response env terminal_id data =
    (if length data > COMPRESS_THRESHOLD then
       (let compressed = tv_compress env data in
        if length compressed < length data then TermData terminal_id compressed True else TermData terminal_id data False)
     else TermData terminal_id data False)"

text \<open>One session: its new state, the responses, and whether it has just closed; \<open>None\<close> if a call hangs.\<close>

definition read_session :: "term_env \<Rightarrow> i32 \<Rightarrow> terminal_session \<Rightarrow> (terminal_session \<times> terminal_response list \<times> bool) option" where
  "read_session env terminal_id s =
    (if tv_locked env terminal_id then Some (s, [], False)
     else let closed = (\<not> tn_closed_message_sent s \<and> tn_reader_thread s = Some True);
              s = (if closed then s\<lparr>tn_closed_message_sent := True\<rparr> else s) in
       if \<not> tn_is_opened s then Some (s, [], closed)
       else let received = (case tn_output_rx s of Some q \<Rightarrow> q | None \<Rightarrow> []) in
         (case run_opt ob_append received (tn_output_buffer s) of
            None \<Rightarrow> None
          | Some b \<Rightarrow>
              Some (s\<lparr>tn_output_rx := map_option (\<lambda>_. []) (tn_output_rx s), tn_output_buffer := b,
                      tn_last_activity := (if received \<noteq> [] then tv_now env else tn_last_activity s)\<rparr>,
                    map (data_response env terminal_id) received, closed)))"

fun read_sessions :: "term_env \<Rightarrow> (i32, terminal_session) hmap
    \<Rightarrow> ((i32, terminal_session) hmap \<times> terminal_response list \<times> i32 list) option" where
  "read_sessions env [] = Some ([], [], [])"
| "read_sessions env ((i, s) # m) =
    (case read_session env i s of
       None \<Rightarrow> None
     | Some (s, rs, closed) \<Rightarrow>
         (case read_sessions env m of
            None \<Rightarrow> None
          | Some (m, rs', closed_terminals) \<Rightarrow> Some ((i, s) # m, rs @ rs', (if closed then [i] else []) @ closed_terminals)))"

text \<open>A closed terminal: its child goes to the reaper; only a persistent service keeps the session.\<close>

definition close_terminal :: "term_env \<Rightarrow> bool \<Rightarrow> i32 \<Rightarrow> (i32, terminal_session) hmap \<times> child list \<times> terminal_response list
    \<Rightarrow> (i32, terminal_session) hmap \<times> child list \<times> terminal_response list" where
  "close_terminal env is_persistent i st =
    (case st of (m, tasks, rs) \<Rightarrow>
       (let child = Option.bind (hm_get m i) tn_child;
            exit_code = (case child of
                Some c \<Rightarrow> (case tv_try_wait env c of Some (Some code) \<Rightarrow> code | _ \<Rightarrow> 0) | None \<Rightarrow> 0) in
        (if is_persistent then hm_modify i (\<lambda>s. s\<lparr>tn_child := None\<rparr>) m else hm_remove i m,
         (case child of Some c \<Rightarrow> tasks @ [c] | None \<Rightarrow> tasks),
         rs @ [TermClosed i exit_code])))"

definition read_outputs :: "term_env \<Rightarrow> string \<Rightarrow> bool \<Rightarrow> term_globals \<Rightarrow> (term_globals \<times> terminal_response list) option" where
  "read_outputs env service_id is_persistent g =
    (case hm_get (tg_services g) service_id of
       None \<Rightarrow> Some (g, [])
     | Some svc \<Rightarrow>
         (case read_sessions env (tz_sessions svc) of
            None \<Rightarrow> None
          | Some (m, rs, closed) \<Rightarrow>
              (case fold (close_terminal env is_persistent) closed (m, tg_tasks g, rs) of
                 (m, tasks, rs) \<Rightarrow>
                   Some (g\<lparr>tg_services := hm_modify service_id (\<lambda>svc. svc\<lparr>tz_sessions := m\<rparr>) (tg_services g), tg_tasks := tasks\<rparr>, rs))))"

text \<open>A round of \<open>run\<close>, with a proxy that takes the persistence of the service, and what follows the loop.\<close>

definition proxy_is_persistent :: "string \<Rightarrow> bool option \<Rightarrow> term_globals \<Rightarrow> bool" where
  "proxy_is_persistent service_id opt g =
    (case opt of Some p \<Rightarrow> p
     | None \<Rightarrow> (case hm_get (tg_services g) service_id of Some svc \<Rightarrow> tz_is_persistent svc | None \<Rightarrow> False))"

definition run_round_terminal :: "term_env \<Rightarrow> string \<Rightarrow> term_globals \<Rightarrow> (term_globals \<times> terminal_response list) option" where
  "run_round_terminal env service_id g = read_outputs env service_id (proxy_is_persistent service_id None g) g"

definition run_exit :: "string \<Rightarrow> term_globals \<Rightarrow> term_globals" where
  "run_exit service_id g =
    (case hm_get (tg_services g) service_id of
       Some svc \<Rightarrow> if \<not> tz_is_persistent svc then remove_service service_id g else g
     | None \<Rightarrow> g)"

definition on_disconnect :: "string \<Rightarrow> bool \<Rightarrow> term_globals \<Rightarrow> term_globals" where
  "on_disconnect service_id is_persistent g = (if \<not> is_persistent then remove_service service_id g else g)"

definition get_terminal_buffer :: "i32 \<Rightarrow> nat \<Rightarrow> terminal_service \<Rightarrow> bytes option" where
  "get_terminal_buffer terminal_id max_bytes svc =
     map_option (\<lambda>s. get_recent max_bytes (tn_output_buffer s)) (hm_get (tz_sessions svc) terminal_id)"

definition get_terminal_info :: "i32 \<Rightarrow> terminal_service \<Rightarrow> (u16 \<times> u16 \<times> bytes) option" where
  "get_terminal_info terminal_id svc =
     map_option (\<lambda>s. (tn_rows s, tn_cols s, get_recent 4096 (tn_output_buffer s))) (hm_get (tz_sessions svc) terminal_id)"

definition list_terminals :: "terminal_service \<Rightarrow> (i32 \<times> string \<times> u32 \<times> nat) list" where
  "list_terminals svc = map (\<lambda>(i, s). (i, tn_title s, tn_pid s, tn_created_at s)) (tz_sessions svc)"

definition has_active_terminals :: "terminal_service \<Rightarrow> bool" where
  "has_active_terminals svc \<longleftrightarrow> tz_sessions svc \<noteq> []"

subsection \<open>Sequences of calls\<close>

datatype term_op =
    OpCreate nat string bool bool
  | OpAction term_env string terminal_action
  | OpRead term_env string bool
  | OpReader string i32 "bytes option"
  | OpWriter string i32 bool
  | OpReap term_env
  | OpCleanup nat
  | OpDisconnect string bool
  | OpExit string
  | OpSetPersistent string bool

definition on_session :: "string \<Rightarrow> i32 \<Rightarrow> (terminal_session \<Rightarrow> terminal_session) \<Rightarrow> term_globals \<Rightarrow> term_globals" where
  "on_session service_id i f g =
     g\<lparr>tg_services := hm_modify service_id (\<lambda>svc. svc\<lparr>tz_sessions := hm_modify i f (tz_sessions svc)\<rparr>) (tg_services g)\<rparr>"

fun term_step :: "term_op \<Rightarrow> term_globals \<Rightarrow> term_globals option" where
  "term_step (OpCreate now sid p u) g = Some (fst (get_or_create_service now sid p u g))"
| "term_step (OpAction env sid a) g = Some (fst (handle_action env sid a g))"
| "term_step (OpRead env sid p) g = map_option fst (read_outputs env sid p g)"
| "term_step (OpReader sid i res) g = Some (on_session sid i (reader_step res) g)"
| "term_step (OpWriter sid i ok) g = Some (on_session sid i (writer_step ok) g)"
| "term_step (OpReap env) g = Some (check_zombie_terminals env g)"
| "term_step (OpCleanup now) g = Some (cleanup_inactive_services now g)"
| "term_step (OpDisconnect sid p) g = Some (on_disconnect sid p g)"
| "term_step (OpExit sid) g = Some (run_exit sid g)"
| "term_step (OpSetPersistent sid p) g = Some (fst (set_persistent sid p g))"

definition term_init :: term_globals where
  "term_init = \<lparr>tg_services = [], tg_tasks = [], tg_cleanup_task = False\<rparr>"

end
