(* ===== verification/Terminal_Tracking.thy ===== *)
theory Terminal_Tracking
  imports Terminal_Service "HOL-Library.Multiset"
begin

text \<open>
  What the terminal service does with its processes and their output: the handles held are counted as a
  multiset that every call may change only in a stated way, and the output of one session is followed from
  its reader thread to the responses.
\<close>

subsection \<open>Accounting for processes\<close>

definition ksum :: "('v \<Rightarrow> 'a multiset) \<Rightarrow> ('k, 'v) hmap \<Rightarrow> 'a multiset" where
  "ksum f m = sum_list (map (\<lambda>(_, v). f v) m)"

lemma ksum_Nil [simp]: "ksum f [] = {#}"
  by (simp add: ksum_def)

lemma ksum_Cons [simp]: "ksum f ((k, v) # m) = f v + ksum f m"
  by (simp add: ksum_def)

lemma hm_remove_Cons: "hm_remove k ((k', v) # m) = (if k = k' then hm_remove k m else (k', v) # hm_remove k m)"
  by (simp add: hm_remove_def)

lemma hm_modify_Cons: "hm_modify k h ((k', v) # m) = (k', if k' = k then h v else v) # hm_modify k h m"
  by (simp add: hm_modify_def)

lemma hm_modify_absent: "hm_get m k = None \<Longrightarrow> hm_modify k h m = m"
  by (force simp: hm_modify_def hm_get_def map_of_eq_None_iff intro!: map_idI)

lemma ksum_remove: "hm_wf m \<Longrightarrow> hm_get m k = Some v \<Longrightarrow> ksum f m = f v + ksum f (hm_remove k m)"
proof (induction m)
  case (Cons p m)
  then show ?case
    by (cases p) (auto simp: hm_wf_def hm_get_def hm_remove_Cons hm_remove_absent map_of_eq_None_iff split: if_splits)
qed simp

lemma ksum_modify:
  "hm_wf m \<Longrightarrow> hm_get m k = Some v \<Longrightarrow> ksum f (hm_modify k h m) = f (h v) + ksum f (hm_remove k m)"
proof (induction m)
  case (Cons p m)
  then show ?case
    by (cases p) (auto simp: hm_wf_def hm_get_def hm_remove_Cons hm_modify_Cons hm_remove_absent hm_modify_absent
        map_of_eq_None_iff split: if_splits)
qed simp

lemma ksum_insert: "hm_wf m \<Longrightarrow> hm_get m k = None \<Longrightarrow> ksum f (hm_insert k v m) = f v + ksum f m"
  unfolding hm_insert_def hm_get_def hm_wf_def by (induction m) (auto split: if_splits)

lemma ksum_map_values: "ksum f (hm_map_values h m) = ksum (\<lambda>v. f (h v)) m"
  by (induction m) (auto simp: hm_map_values_def)

lemma ksum_modify_same:
  assumes "hm_wf m" and "\<And>v. f (h v) = f v"
  shows "ksum f (hm_modify k h m) = ksum f m"
  using ksum_modify [OF assms(1), of k _ f h] ksum_remove [OF assms(1), of k _ f] assms(2) hm_modify_absent [of m k h]
  by (cases "hm_get m k") simp_all

definition session_children :: "terminal_session \<Rightarrow> child multiset" where
  "session_children s = (case tn_child s of Some c \<Rightarrow> {#c#} | None \<Rightarrow> {#})"

definition service_children :: "terminal_service \<Rightarrow> child multiset" where
  "service_children svc = ksum session_children (tz_sessions svc)"

text \<open>Every process handle the program holds: in a session, or waiting in the reaper's list.\<close>

definition all_children :: "term_globals \<Rightarrow> child multiset" where
  "all_children g = ksum service_children (tg_services g) + mset (tg_tasks g)"

definition session_ok :: "terminal_session \<Rightarrow> bool" where
  "session_ok s \<longleftrightarrow> (case tn_output_rx s of Some q \<Rightarrow> length q \<le> CHANNEL_BUFFER_SIZE | None \<Rightarrow> True)"

definition service_wf :: "string \<Rightarrow> terminal_service \<Rightarrow> bool" where
  "service_wf k svc \<longleftrightarrow> tz_service_id svc = k \<and> hm_wf (tz_sessions svc) \<and> hm_all (\<lambda>_. session_ok) (tz_sessions svc)"

definition term_inv :: "term_globals \<Rightarrow> bool" where
  "term_inv g \<longleftrightarrow> hm_wf (tg_services g) \<and> hm_all service_wf (tg_services g) \<and> length (tg_services g) \<le> MAX_SERVICES"

text \<open>What one call may do to the set of handles.\<close>

fun child_step :: "term_op \<Rightarrow> child multiset \<Rightarrow> child multiset \<Rightarrow> bool" where
  "child_step (OpAction env sid a) A B \<longleftrightarrow> B = A
      \<or> (\<exists>c. tv_spawn env = Some c \<and> B = add_mset c A) \<or> (\<exists>c. \<not> tv_kill_ok env c \<and> A = add_mset c B)"
| "child_step (OpReap env) A B \<longleftrightarrow> B \<subseteq># A \<and> (\<forall>c \<in># A - B. tv_try_wait env c \<noteq> Some None)"
| "child_step _ A B \<longleftrightarrow> B = A"

lemma child_step_add: "child_step op A B \<Longrightarrow> child_step op (A + R) (B + R)"
  by (cases op) auto

lemmas child_defs = session_children_def service_children_def

lemma dispatch_children:
  assumes "hm_wf (tz_sessions svc)" and "dispatch_action env sid a svc tasks = (svc', tasks', res)"
  shows "child_step (OpAction env sid a) (service_children svc + mset tasks) (service_children svc' + mset tasks')"
proof (cases a)
  case (ActOpen i rows cols)
  then show ?thesis
    using assms ksum_modify_same [of "tz_sessions svc" session_children "\<lambda>s. s\<lparr>tn_is_opened := True\<rparr>" i]
    by (auto simp: dispatch_action_def handle_open_def open_existing_def Let_def child_defs ksum_insert
        split: option.splits if_splits)
next
  case (ActResize i rows cols)
  have "ksum session_children (hm_modify i (\<lambda>s. s\<lparr>tn_last_activity := tv_now env, tn_rows := ucast rows, tn_cols := ucast cols\<rparr>)
      (tz_sessions svc)) = ksum session_children (tz_sessions svc)"
    using assms(1) by (rule ksum_modify_same) (simp add: session_children_def)
  with ActResize assms show ?thesis
    by (auto simp: dispatch_action_def handle_resize_def service_children_def split: option.splits)
next
  case (ActData i data)
  have "service_children svc' = service_children svc \<and> tasks' = tasks"
    using assms(2) ksum_modify_same [OF assms(1), of session_children] ActData
    by (auto simp: dispatch_action_def handle_data_def service_children_def session_children_def)
  then show ?thesis by simp
next
  case (ActClose i)
  then show ?thesis
    using assms ksum_remove [OF assms(1), of i _ session_children]
    by (auto simp: dispatch_action_def handle_close_def child_defs Let_def split: option.splits if_splits)
next
  case ActNone
  then show ?thesis using assms by (simp add: dispatch_action_def)
qed

lemma dispatch_wf:
  assumes "service_wf k svc" and "dispatch_action env sid a svc tasks = (svc', tasks', res)"
  shows "service_wf k svc'"
proof -
  note wf = assms(1) [unfolded service_wf_def] and run = assms(2) [unfolded dispatch_action_def]
  have keep: "(\<And>s. session_ok s \<Longrightarrow> session_ok (f s)) \<Longrightarrow> hm_all (\<lambda>_. session_ok) (hm_modify i f (tz_sessions svc))" for i f
    using wf by (auto intro: hm_all_modify)
  show ?thesis
  proof (cases a)
    case (ActOpen i rows cols)
    then show ?thesis
      using run wf keep
      by (auto simp: handle_open_def open_existing_def session_new_def session_ok_def service_wf_def Let_def
          split: option.splits if_splits intro!: hm_all_insert)
  next
    case (ActClose i)
    then show ?thesis
      using run wf by (auto simp: handle_close_def service_wf_def Let_def split: option.splits if_splits)
  qed (use run wf keep in \<open>auto simp: handle_resize_def handle_data_def session_ok_def service_wf_def split: option.splits\<close>)
qed

lemma read_session_keeps:
  assumes "read_session env i s = Some (s', rs, closed)"
  shows "session_children s' = session_children s" and "session_ok s \<Longrightarrow> session_ok s'"
  using assms by (auto simp: read_session_def Let_def session_children_def session_ok_def split: if_splits option.splits)

lemma read_sessions_keeps:
  assumes "read_sessions env m = Some (m', rs, closed)"
  shows "map fst m' = map fst m \<and> ksum session_children m' = ksum session_children m
    \<and> (hm_all (\<lambda>_. session_ok) m \<longrightarrow> hm_all (\<lambda>_. session_ok) m')"
  using assms
proof (induction env m arbitrary: m' rs closed rule: read_sessions.induct)
  case (2 env i s m)
  obtain s1 rs1 c1 where s1: "read_session env i s = Some (s1, rs1, c1)"
    using "2.prems" by (auto split: option.splits)
  obtain m1 rs2 cs where m1: "read_sessions env m = Some (m1, rs2, cs)" "m' = (i, s1) # m1"
    using "2.prems" s1 by (auto split: option.splits)
  show ?case
    using "2.IH" [OF s1 refl refl m1(1)] read_session_keeps [OF s1] m1(2) by (auto simp: hm_all_def)
qed simp

lemma close_terminal_keeps:
  assumes "close_terminal env p i (m, tasks, rs) = (m', tasks', rs')" and "hm_wf m"
  shows "hm_wf m' \<and> ksum session_children m' + mset tasks' = ksum session_children m + mset tasks
    \<and> (hm_all (\<lambda>_. session_ok) m \<longrightarrow> hm_all (\<lambda>_. session_ok) m')"
proof (cases "hm_get m i")
  case None
  then show ?thesis using assms by (auto simp: close_terminal_def hm_modify_absent hm_remove_absent)
next
  case (Some s)
  have "hm_all (\<lambda>_. session_ok) (hm_modify i (\<lambda>s. s\<lparr>tn_child := None\<rparr>) m)" if "hm_all (\<lambda>_. session_ok) m"
    using that by (rule hm_all_modify) (simp add: session_ok_def)
  then show ?thesis
    using assms Some ksum_remove [OF assms(2) Some, of session_children]
      ksum_modify [OF assms(2) Some, of session_children "\<lambda>s. s\<lparr>tn_child := None\<rparr>"]
    by (auto simp: close_terminal_def Let_def session_children_def split: option.splits if_splits)
qed

lemma close_terminals_keep:
  assumes "fold (close_terminal env p) closed (m, tasks, rs) = (m', tasks', rs')" and "hm_wf m"
  shows "hm_wf m' \<and> ksum session_children m' + mset tasks' = ksum session_children m + mset tasks
    \<and> (hm_all (\<lambda>_. session_ok) m \<longrightarrow> hm_all (\<lambda>_. session_ok) m')"
  using assms
proof (induction closed arbitrary: m tasks rs)
  case (Cons i closed)
  obtain m1 t1 r1 where st: "close_terminal env p i (m, tasks, rs) = (m1, t1, r1)"
    by (cases "close_terminal env p i (m, tasks, rs)")
  from close_terminal_keeps [OF this Cons.prems(2)] Cons.IH [of m1 t1 r1] Cons.prems(1) st show ?case by auto
qed simp

text \<open>Replacing one service: the handles outside it are untouched.\<close>

lemma replace_service:
  assumes "term_inv g" and "hm_get (tg_services g) sid = Some svc" and "service_wf sid (h svc)"
  shows "term_inv (g\<lparr>tg_services := hm_modify sid h (tg_services g), tg_tasks := tasks\<rparr>)"
    and "all_children (g\<lparr>tg_services := hm_modify sid h (tg_services g), tg_tasks := tasks\<rparr>)
      = (service_children (h svc) + mset tasks) + ksum service_children (hm_remove sid (tg_services g))"
    and "all_children g = (service_children svc + mset (tg_tasks g)) + ksum service_children (hm_remove sid (tg_services g))"
proof -
  have wf: "hm_wf (tg_services g)" using assms(1) by (simp add: term_inv_def)
  have "length (hm_modify sid h (tg_services g)) = length (tg_services g)" by (simp add: hm_modify_def)
  moreover have "hm_all service_wf (hm_modify sid h (tg_services g))"
    using assms wf by (auto simp: term_inv_def hm_all_iff hm_modify_def hm_get_Some_iff hm_wf_def dest: eq_key_imp_eq_value)
  ultimately show "term_inv (g\<lparr>tg_services := hm_modify sid h (tg_services g), tg_tasks := tasks\<rparr>)"
    using assms(1) by (simp add: term_inv_def)
  show "all_children (g\<lparr>tg_services := hm_modify sid h (tg_services g), tg_tasks := tasks\<rparr>)
      = (service_children (h svc) + mset tasks) + ksum service_children (hm_remove sid (tg_services g))"
    using ksum_modify [OF wf assms(2), of service_children h] by (simp add: all_children_def)
  show "all_children g = (service_children svc + mset (tg_tasks g)) + ksum service_children (hm_remove sid (tg_services g))"
    using ksum_remove [OF wf assms(2), of service_children] by (simp add: all_children_def)
qed

lemma term_inv_wf: "term_inv g \<Longrightarrow> hm_get (tg_services g) sid = Some svc \<Longrightarrow> service_wf sid svc"
  by (auto simp: term_inv_def dest: hm_all_get)

lemma handle_action_keeps:
  assumes "term_inv g"
  shows "term_inv (fst (handle_action env sid a g))
    \<and> child_step (OpAction env sid a) (all_children g) (all_children (fst (handle_action env sid a g)))"
proof (cases "hm_get (tg_services g) sid")
  case (Some svc)
  let ?svc = "svc\<lparr>tz_last_activity := tv_now env\<rparr>"
  obtain svc' tasks' res where d: "dispatch_action env sid a ?svc (tg_tasks g) = (svc', tasks', res)"
    by (cases "dispatch_action env sid a ?svc (tg_tasks g)")
  have wf: "service_wf sid ?svc" using term_inv_wf [OF assms Some] by (simp add: service_wf_def)
  have g': "fst (handle_action env sid a g) = g\<lparr>tg_services := hm_modify sid (\<lambda>_. svc') (tg_services g), tg_tasks := tasks'\<rparr>"
    using Some d by (simp add: handle_action_def)
  note rep = replace_service(1,2) [where h = "\<lambda>_. svc'" and tasks = tasks', OF assms Some dispatch_wf [OF wf d]]
    replace_service(3) [where h = "\<lambda>_. svc'", OF assms Some dispatch_wf [OF wf d]]
  have "child_step (OpAction env sid a) (service_children svc + mset (tg_tasks g)) (service_children svc' + mset tasks')"
    using dispatch_children [OF _ d] wf by (simp add: service_wf_def service_children_def)
  from child_step_add [OF this] rep show ?thesis unfolding g' by (simp only:)
qed (use assms in \<open>simp add: handle_action_def\<close>)

lemma read_outputs_keeps:
  assumes "term_inv g" and "read_outputs env sid p g = Some (g', rs)"
  shows "term_inv g' \<and> all_children g' = all_children g"
proof (cases "hm_get (tg_services g) sid")
  case (Some svc)
  obtain m rs1 closed where m: "read_sessions env (tz_sessions svc) = Some (m, rs1, closed)"
    using assms(2) Some by (auto simp: read_outputs_def split: option.splits)
  obtain m' tasks' rs' where f: "fold (close_terminal env p) closed (m, tg_tasks g, rs1) = (m', tasks', rs')"
    by (cases "fold (close_terminal env p) closed (m, tg_tasks g, rs1)")
  have g': "g' = g\<lparr>tg_services := hm_modify sid (\<lambda>svc. svc\<lparr>tz_sessions := m'\<rparr>) (tg_services g), tg_tasks := tasks'\<rparr>"
    using assms(2) Some m f by (simp add: read_outputs_def)
  have wf: "service_wf sid svc" by (rule term_inv_wf [OF assms(1) Some])
  note k1 = read_sessions_keeps [OF m]
  have "hm_wf m" using wf k1 by (simp add: service_wf_def hm_wf_def)
  note k2 = close_terminals_keep [OF f this]
  have wf': "service_wf sid (svc\<lparr>tz_sessions := m'\<rparr>)" using wf k1 k2 by (auto simp: service_wf_def)
  note rep = replace_service(1,2) [where h = "\<lambda>svc. svc\<lparr>tz_sessions := m'\<rparr>" and tasks = tasks', OF assms(1) Some wf']
    replace_service(3) [where h = "\<lambda>svc. svc\<lparr>tz_sessions := m'\<rparr>", OF assms(1) Some wf']
  show ?thesis unfolding g' using rep k1 k2 by (simp add: service_children_def)
qed (use assms in \<open>simp add: read_outputs_def\<close>)

lemma stop_sessions_tasks:
  "mset (fold (\<lambda>(_, s) tasks. snd (session_stop s tasks)) m tasks) = ksum session_children m + mset tasks"
  by (induction m arbitrary: tasks) (auto simp: session_stop_def session_children_def split: option.splits)

lemma remove_service_keeps:
  assumes "term_inv g"
  shows "term_inv (remove_service sid g) \<and> all_children (remove_service sid g) = all_children g"
proof (cases "hm_get (tg_services g) sid")
  case (Some svc)
  have "hm_wf (tg_services g)" using assms by (simp add: term_inv_def)
  from ksum_remove [OF this Some, of service_children] Some assms length_hm_remove_le [of sid "tg_services g"]
  show ?thesis
    by (auto simp: remove_service_def term_inv_def all_children_def stop_sessions_tasks service_children_def)
qed (use assms in \<open>simp add: remove_service_def\<close>)

lemma remove_services_keep:
  "term_inv g \<Longrightarrow> term_inv (fold remove_service sids g) \<and> all_children (fold remove_service sids g) = all_children g"
  by (induction sids arbitrary: g) (auto simp: remove_service_keeps)

text \<open>A change of a service that leaves its children alone.\<close>

lemma adjust_service:
  assumes "term_inv g" and "\<And>k svc. service_wf k svc \<Longrightarrow> service_wf k (h svc)" and "\<And>svc. service_wf sid svc \<Longrightarrow> service_children (h svc) = service_children svc"
  shows "term_inv (g\<lparr>tg_services := hm_modify sid h (tg_services g)\<rparr>)
    \<and> all_children (g\<lparr>tg_services := hm_modify sid h (tg_services g)\<rparr>) = all_children g"
proof (cases "hm_get (tg_services g) sid")
  case None
  then show ?thesis using assms(1) by (simp add: hm_modify_absent)
next
  case (Some svc)
  have "service_wf sid (h svc)" by (rule assms(2) [OF term_inv_wf [OF assms(1) Some]])
  note rep = replace_service(1,2) [where h = h and tasks = "tg_tasks g", OF assms(1) Some this]
    replace_service(3) [where h = h, OF assms(1) Some this]
  then show ?thesis using assms(3) [OF term_inv_wf [OF assms(1) Some]] by simp
qed

lemma on_session_keeps:
  assumes "term_inv g" and "\<And>s. session_ok s \<Longrightarrow> session_ok (f s)" and "\<And>s. session_children (f s) = session_children s"
  shows "term_inv (on_session sid i f g) \<and> all_children (on_session sid i f g) = all_children g"
  unfolding on_session_def
  by (rule adjust_service [OF assms(1)])
    (use assms(2,3) in \<open>auto simp: service_wf_def service_children_def intro: hm_all_modify ksum_modify_same\<close>)

lemma reset_status_keeps:
  "service_wf k svc \<Longrightarrow> service_wf k (reset_status p svc) \<and> service_children (reset_status p svc) = service_children svc"
proof -
  have "hm_all (\<lambda>_. session_ok) m \<Longrightarrow> hm_all (\<lambda>_. session_ok) (hm_map_values (\<lambda>s. s\<lparr>tn_is_opened := False\<rparr>) m)" for m
    by (auto simp: hm_all_iff hm_map_values_def session_ok_def)
  moreover have "(\<lambda>s. session_children (s\<lparr>tn_is_opened := False\<rparr>)) = session_children"
    by (simp add: session_children_def fun_eq_iff)
  ultimately show "service_wf k svc \<Longrightarrow> ?thesis"
    by (auto simp: service_wf_def reset_status_def service_children_def ksum_map_values)
qed

lemma get_or_create_service_keeps:
  assumes "term_inv g"
  shows "term_inv (fst (get_or_create_service now sid p u g))
    \<and> all_children (fst (get_or_create_service now sid p u g)) = all_children g"
proof (cases "\<not> hm_contains (tg_services g) sid \<and> length (tg_services g) \<ge> MAX_SERVICES")
  case True
  then show ?thesis using assms by (simp add: get_or_create_service_def)
next
  case False
  let ?new = "service_new_terminal now sid p u"
  let ?services = "if hm_contains (tg_services g) sid then tg_services g else hm_insert sid ?new (tg_services g)"
  let ?g = "g\<lparr>tg_services := ?services, tg_cleanup_task := True\<rparr>"
  have "service_wf sid ?new" "service_children ?new = {#}"
    by (simp_all add: service_wf_def service_new_terminal_def service_children_def)
  with assms False have "term_inv ?g \<and> all_children ?g = all_children g"
    by (auto simp: term_inv_def all_children_def length_hm_insert ksum_insert hm_contains_def intro: hm_all_insert)
  then have "term_inv (?g\<lparr>tg_services := hm_modify sid (reset_status p) (tg_services ?g)\<rparr>)
      \<and> all_children (?g\<lparr>tg_services := hm_modify sid (reset_status p) (tg_services ?g)\<rparr>) = all_children g"
    using adjust_service [of ?g "reset_status p" sid] reset_status_keeps [of _ _ p] by simp
  moreover have "fst (get_or_create_service now sid p u g) = ?g\<lparr>tg_services := hm_modify sid (reset_status p) (tg_services ?g)\<rparr>"
    using False by (auto simp: get_or_create_service_def Let_def)
  ultimately show ?thesis by (simp only:)
qed

lemma filter_mset_complement: "T - filter_mset P T = filter_mset (\<lambda>c. \<not> P c) T"
  by (rule multiset_eqI) simp

lemma check_zombie_keeps:
  assumes "term_inv g"
  shows "child_step (OpReap env) (all_children g) (all_children (check_zombie_terminals env g))
    \<and> term_inv (check_zombie_terminals env g)"
proof
  show "child_step (OpReap env) (all_children g) (all_children (check_zombie_terminals env g))"
    unfolding child_step.simps check_zombie_terminals_def all_children_def
    by (simp add: filter_mset_complement)
  show "term_inv (check_zombie_terminals env g)"
    using assms by (simp add: check_zombie_terminals_def term_inv_def)
qed

interpretation tm: op_simulation term_step child_step all_children term_inv
proof unfold_locales
  fix g op g' assume inv: "term_inv g" and step: "term_step op g = Some g'"
  have "child_step op (all_children g) (all_children g') \<and> term_inv g'"
  proof (cases op)
    case (OpAction env sid a)
    with step handle_action_keeps [OF inv, of env sid a] show ?thesis by auto
  next
    case (OpRead env sid p)
    with step read_outputs_keeps [OF inv, of env sid p] show ?thesis by auto
  next
    case (OpReader sid i res)
    have "session_ok s \<Longrightarrow> session_ok (reader_step res s)" "session_children (reader_step res s) = session_children s" for s
      by (auto simp: reader_step_def session_ok_def session_children_def split: option.splits)
    with OpReader step on_session_keeps [OF inv, of "reader_step res" sid i] show ?thesis by auto
  next
    case (OpWriter sid i ok)
    have "session_ok s \<Longrightarrow> session_ok (writer_step ok s)" "session_children (writer_step ok s) = session_children s" for s
      by (auto simp: writer_step_def session_ok_def session_children_def split: option.splits list.splits)
    with OpWriter step on_session_keeps [OF inv, of "writer_step ok" sid i] show ?thesis by auto
  next
    case (OpReap env)
    with step check_zombie_keeps [OF inv, of env] show ?thesis by simp
  next
    case (OpSetPersistent sid p)
    with step inv adjust_service [OF inv, of "\<lambda>svc. svc\<lparr>tz_is_persistent := p\<rparr>" sid] show ?thesis
      by (auto simp: set_persistent_def service_wf_def service_children_def)
  qed (use step inv get_or_create_service_keeps [OF inv] remove_service_keeps [OF inv] remove_services_keep [OF inv]
      in \<open>auto simp: cleanup_inactive_services_def on_disconnect_def run_exit_def split: if_splits option.splits\<close>)
  then show "child_step op (all_children g) (all_children g')" "term_inv g'" by simp_all
qed

subsection \<open>Properties\<close>

lemma term_inv_init: "term_inv term_init"
  by (simp add: term_inv_def term_init_def hm_wf_def hm_all_def)

text \<open>Calls that report the process \<open>c\<close> as running and can kill it.\<close>

fun op_spares :: "child \<Rightarrow> term_op \<Rightarrow> bool" where
  "op_spares c (OpAction env sid a) \<longleftrightarrow> tv_kill_ok env c"
| "op_spares c (OpReap env) \<longleftrightarrow> tv_try_wait env c = Some None"
| "op_spares c _ \<longleftrightarrow> True"

lemma child_step_spares:
  assumes "child_step op A B" and "op_spares c op" and "c \<in># A"
  shows "c \<in># B"
proof (cases op)
  case (OpReap env)
  then have "c \<notin># A - B" "B \<subseteq># A" using assms by auto
  then show ?thesis using assms(3) by (metis in_diffD subset_mset.diff_add union_iff)
qed (use assms in auto)

lemma astar_spares:
  "astar child_step ops A B \<Longrightarrow> \<forall>op \<in> set ops. op_spares c op \<Longrightarrow> c \<in># A \<Longrightarrow> c \<in># B"
  by (induction rule: astar.induct) (auto dest: child_step_spares)

text \<open>
  C17. No shell is forgotten: whatever calls, thread steps, disconnections and clean-ups follow from a
  reachable state, a process the program holds stays held (by a session or by the reaper) as long as it is
  reported running and the attempts to kill it succeed.
\<close>

theorem terminal_process_tracked:
  assumes "run_opt term_step before term_init = Some g" and "c \<in># all_children g"
    and "run_opt term_step ops g = Some g'" and "\<forall>op \<in> set ops. op_spares c op"
  shows "c \<in># all_children g'"
proof -
  have "term_inv g" using tm.run_sim [OF term_inv_init assms(1)] by simp
  from tm.run_sim [OF this assms(3)] assms(2,4) show ?thesis by (auto dest: astar_spares)
qed

definition env0 :: term_env where
  "env0 = \<lparr>tv_now = 0, tv_openpty = True, tv_spawn = Some 7, tv_take_writer = True, tv_clone_reader = True,
     tv_process_id = (\<lambda>c. Some (of_nat c)), tv_resize_ok = True, tv_kill_ok = (\<lambda>_. True), tv_try_wait = (\<lambda>_. Some None),
     tv_locked = (\<lambda>_. False), tv_compress = take 1\<rparr>"

lemmas term_eval = env0_def term_init_def get_or_create_service_def handle_action_def dispatch_action_def handle_open_def
  open_existing_def handle_close_def session_new_def service_new_terminal_def reset_status_def hm_contains_def MAX_SERVICES_def
  hm_get_def hm_insert_def hm_modify_def hm_map_values_def hm_remove_def all_children_def child_defs ksum_def

definition term_g1 :: term_globals where
  "term_g1 = fst (handle_action env0 ''s'' (ActOpen 1 24 80) (fst (get_or_create_service 0 ''s'' False False term_init)))"

lemma term_g1_eq:
  "term_g1 = \<lparr>tg_services = [(''s'', \<lparr>tz_service_id = ''s'',
      tz_sessions = [(1, (session_new 0 1 24 80)\<lparr>tn_pid := 7, tn_pty_pair := True, tn_child := Some 7, tn_input_tx := Some [],
        tn_output_rx := Some [], tn_reader_thread := Some False, tn_writer_thread := Some False, tn_is_opened := True\<rparr>)],
      tz_created_at = 0, tz_last_activity = 0, tz_is_persistent = False, tz_needs_session_sync = False, tz_is_specified_user = False\<rparr>)],
     tg_tasks = [], tg_cleanup_task = True\<rparr>"
  by (simp add: term_g1_def term_eval Let_def)

theorem terminal_process_tracked_witness:
  "7 \<in># all_children (check_zombie_terminals env0 (fst (handle_action env0 ''s'' (ActClose 1) term_g1)))"
proof (rule terminal_process_tracked [where ops = "[OpAction env0 ''s'' (ActClose 1), OpReap env0]"])
  show "run_opt term_step [OpCreate 0 ''s'' False False, OpAction env0 ''s'' (ActOpen 1 24 80)] term_init = Some term_g1"
    by (simp add: term_g1_def)
  show "7 \<in># all_children term_g1" unfolding term_g1_eq by (simp add: term_eval)
qed (simp_all add: env0_def)

text \<open>
  A shell that cannot be killed is lost: closing its terminal returns the error of the kill, removes the
  session and drops the handle without passing it to the reaper, so the process is neither killed nor waited for.
\<close>

theorem close_kill_failure_leaks:
  assumes "run_opt term_step before term_init = Some g" and "hm_get (tg_services g) sid = Some svc"
    and "hm_get (tz_sessions svc) i = Some s" and "tn_child s = Some c" and "\<not> tv_kill_ok env c"
    and "handle_action env sid (ActClose i) g = (g', res)"
  shows "res = Err ''kill failed'' \<and> all_children g = add_mset c (all_children g') \<and> tg_tasks g' = tg_tasks g"
proof -
  let ?svc = "svc\<lparr>tz_last_activity := tv_now env, tz_sessions := hm_remove i (tz_sessions svc)\<rparr>"
  have inv: "term_inv g" using tm.run_sim [OF term_inv_init assms(1)] by simp
  have wf: "service_wf sid svc" by (rule term_inv_wf [OF inv assms(2)])
  then have wf': "service_wf sid ?svc" by (auto simp: service_wf_def)
  have g': "g' = g\<lparr>tg_services := hm_modify sid (\<lambda>_. ?svc) (tg_services g), tg_tasks := tg_tasks g\<rparr>" "res = Err ''kill failed''"
    using assms by (auto simp: handle_action_def dispatch_action_def handle_close_def Let_def)
  have "service_children svc = add_mset c (service_children ?svc)"
    using ksum_remove [of "tz_sessions svc" i s session_children] assms(3,4) wf by (simp add: child_defs service_wf_def)
  with replace_service(2) [where h = "\<lambda>_. ?svc" and tasks = "tg_tasks g", OF inv assms(2) wf']
    replace_service(3) [where h = "\<lambda>_. ?svc", OF inv assms(2) wf'] g'
  show ?thesis by simp
qed

theorem close_kill_failure_leaks_witness:
  "\<exists>g'. handle_action (env0\<lparr>tv_kill_ok := \<lambda>_. False\<rparr>) ''s'' (ActClose 1) term_g1 = (g', Err ''kill failed'') \<and> all_children g' = {#}"
proof -
  let ?env = "env0\<lparr>tv_kill_ok := \<lambda>_. False\<rparr>"
  let ?svc = "the (hm_get (tg_services term_g1) ''s'')"
  obtain g' res where r: "handle_action ?env ''s'' (ActClose 1) term_g1 = (g', res)" by (cases "handle_action ?env ''s'' (ActClose 1) term_g1")
  have "res = Err ''kill failed'' \<and> all_children term_g1 = add_mset 7 (all_children g') \<and> tg_tasks g' = tg_tasks term_g1"
  proof (rule close_kill_failure_leaks [OF _ _ _ _ _ r])
    show "run_opt term_step [OpCreate 0 ''s'' False False, OpAction env0 ''s'' (ActOpen 1 24 80)] term_init = Some term_g1"
      by (simp add: term_g1_def)
    show "hm_get (tg_services term_g1) ''s'' = Some ?svc" "hm_get (tz_sessions ?svc) 1 = Some (the (hm_get (tz_sessions ?svc) 1))"
      "tn_child (the (hm_get (tz_sessions ?svc) 1)) = Some 7"
      by (simp_all add: term_g1_eq hm_get_def)
  qed simp
  moreover have "all_children term_g1 = {#7#}" unfolding term_g1_eq by (simp add: term_eval)
  ultimately show ?thesis using r by simp
qed

text \<open>One session under its reader thread and the polls of the service, with the responses sent.\<close>

datatype sess_op = SBlock bytes | SPoll term_env

fun sess_step :: "i32 \<Rightarrow> sess_op \<Rightarrow> terminal_session \<Rightarrow> (terminal_session \<times> terminal_response list) option" where
  "sess_step i (SBlock d) s = Some (reader_step (Some d) s, [])"
| "sess_step i (SPoll env) s = map_option (\<lambda>(s, rs, _). (s, rs)) (read_session env i s)"

fun sess_run :: "i32 \<Rightarrow> sess_op list \<Rightarrow> terminal_session \<Rightarrow> (terminal_session \<times> terminal_response list) option" where
  "sess_run i [] s = Some (s, [])"
| "sess_run i (x # xs) s =
    (case sess_step i x s of None \<Rightarrow> None
     | Some (s, rs) \<Rightarrow> map_option (\<lambda>(s, rs'). (s, rs @ rs')) (sess_run i xs s))"

fun blocks :: "sess_op list \<Rightarrow> bytes list" where
  "blocks [] = []"
| "blocks (SBlock d # ops) = d # blocks ops"
| "blocks (SPoll env # ops) = blocks ops"

text \<open>The channel, which holds \<open>n\<close> blocks, never fills up.\<close>

fun fits :: "i32 \<Rightarrow> nat \<Rightarrow> sess_op list \<Rightarrow> bool" where
  "fits i n [] \<longleftrightarrow> True"
| "fits i n (SBlock d # ops) \<longleftrightarrow> n < CHANNEL_BUFFER_SIZE \<and> fits i (n + 1) ops"
| "fits i n (SPoll env # ops) \<longleftrightarrow> fits i (if tv_locked env i then n else 0) ops"

text \<open>What the peer reads from a response.\<close>

definition response_data :: "(bytes \<Rightarrow> bytes) \<Rightarrow> terminal_response \<Rightarrow> bytes" where
  "response_data decompress r = (case r of TermData i d c \<Rightarrow> if c then decompress d else d | _ \<Rightarrow> [])"

definition sess_live :: "bytes list \<Rightarrow> terminal_session \<Rightarrow> bool" where
  "sess_live q s \<longleftrightarrow> tn_output_rx s = Some q \<and> tn_is_opened s \<and> \<not> tn_exiting s \<and> tn_reader_thread s = Some False"

fun zip_ok :: "(bytes \<Rightarrow> bytes) \<Rightarrow> sess_op \<Rightarrow> bool" where
  "zip_ok decompress (SPoll env) \<longleftrightarrow> (\<forall>d. decompress (tv_compress env d) = d)"
| "zip_ok decompress (SBlock d) \<longleftrightarrow> True"

lemma response_data_data:
  "\<forall>d. decompress (tv_compress env d) = d \<Longrightarrow> response_data decompress (data_response env i d) = d"
  by (simp add: response_data_def data_response_def Let_def)

lemma sess_step_live:
  assumes "sess_step i x s = Some (s', rs)" and "sess_live q s" and "zip_ok decompress x"
  shows "\<exists>q'. sess_live q' s' \<and> subseq (map (response_data decompress) rs @ q') (q @ blocks [x])
    \<and> (fits i (length q) (x # ops) \<longrightarrow> map (response_data decompress) rs @ q' = q @ blocks [x] \<and> fits i (length q') ops)"
proof (cases x)
  case (SBlock d)
  then show ?thesis
    using assms by (auto simp: reader_step_def sess_live_def list_emb_append2 split: if_splits)
next
  case (SPoll env)
  then show ?thesis
    using assms
    by (auto simp: read_session_def sess_live_def Let_def response_data_data comp_def split: if_splits option.splits)
qed

lemma sess_run_live:
  assumes "sess_run i ops s = Some (s', rs)" and "sess_live q s" and "\<forall>x \<in> set ops. zip_ok decompress x"
  shows "\<exists>q'. sess_live q' s' \<and> subseq (map (response_data decompress) rs @ q') (q @ blocks ops)
    \<and> (fits i (length q) ops \<longrightarrow> map (response_data decompress) rs @ q' = q @ blocks ops)"
  using assms
proof (induction ops arbitrary: s q rs)
  case (Cons x ops)
  obtain s1 r1 r2 where st: "sess_step i x s = Some (s1, r1)" "sess_run i ops s1 = Some (s', r2)" "rs = r1 @ r2"
    using Cons.prems(1) by (auto split: option.splits)
  obtain q1 where q1: "sess_live q1 s1" "subseq (map (response_data decompress) r1 @ q1) (q @ blocks [x])"
    "fits i (length q) (x # ops) \<Longrightarrow> map (response_data decompress) r1 @ q1 = q @ blocks [x] \<and> fits i (length q1) ops"
    using sess_step_live [OF st(1) Cons.prems(2), of decompress ops] Cons.prems(3) by auto
  obtain q2 where q2: "sess_live q2 s'" "subseq (map (response_data decompress) r2 @ q2) (q1 @ blocks ops)"
    "fits i (length q1) ops \<Longrightarrow> map (response_data decompress) r2 @ q2 = q1 @ blocks ops"
    using Cons.IH [OF st(2) q1(1)] Cons.prems(3) by auto
  have b: "blocks (x # ops) = blocks [x] @ blocks ops" by (cases x) simp_all
  have "subseq (map (response_data decompress) r1 @ map (response_data decompress) r2 @ q2)
      (map (response_data decompress) r1 @ q1 @ blocks ops)" using q2(2) by (simp only: subseq_append')
  also have "subseq \<dots> (q @ blocks (x # ops))" using q1(2) b by (metis append.assoc list_emb_append_mono subseq_order.order_refl)
  finally have "subseq (map (response_data decompress) rs @ q2) (q @ blocks (x # ops))" by (simp add: st(3))
  moreover have "map (response_data decompress) rs @ q2 = q @ blocks (x # ops)" if "fits i (length q) (x # ops)"
    using q1(3) [OF that] q2(3) b st(3) by (metis append.assoc map_append)
  ultimately show ?case using q2(1) by blast
qed simp

text \<open>
  The output of an open terminal reaches the peer in order and at most once: the blocks sent, read back,
  followed by those waiting in the channel, are a subsequence of the blocks the shell wrote; and they are all
  of them when the channel never fills up.
\<close>

theorem terminal_output_in_order:
  assumes "sess_run i ops s = Some (s', rs)" and "sess_live [] s" and "\<forall>x \<in> set ops. zip_ok decompress x"
  shows "\<exists>q. tn_output_rx s' = Some q \<and> subseq (map (response_data decompress) rs @ q) (blocks ops)
    \<and> (fits i 0 ops \<longrightarrow> map (response_data decompress) rs @ q = blocks ops)"
  using sess_run_live [OF assms] by (auto simp: sess_live_def)

definition sess1 :: terminal_session where
  "sess1 = (session_new 0 1 24 80)\<lparr>tn_output_rx := Some [], tn_reader_thread := Some False, tn_is_opened := True\<rparr>"

theorem terminal_output_in_order_witness:
  "\<exists>s rs. sess_run 1 [SBlock [72, 10], SBlock [10], SPoll (env0\<lparr>tv_compress := id\<rparr>)] sess1 = Some (s, rs)
    \<and> map (response_data id) rs = [[72, 10], [10]]"
proof -
  let ?ops = "[SBlock [72, 10], SBlock [10], SPoll (env0\<lparr>tv_compress := id\<rparr>)]"
  have "run_opt ob_append [[72, 10], [10]] ob_new \<noteq> None"
    using ob_tidy_run [of "[[72, 10], [10]]", OF _ ob_tidy_new] by (auto simp: complete_chunk_def NL_def)
  then have "sess_run 1 ?ops sess1 \<noteq> None"
    by (auto simp: sess1_def session_new_def reader_step_def read_session_def env0_def CHANNEL_BUFFER_SIZE_def split: option.splits)
  then obtain s rs where r: "sess_run 1 ?ops sess1 = Some (s, rs)" by auto
  moreover have "tn_output_rx s = Some []"
    using r by (auto simp: sess1_def session_new_def reader_step_def read_session_def env0_def CHANNEL_BUFFER_SIZE_def split: option.splits)
  ultimately show ?thesis
    using terminal_output_in_order [OF r, of id] by (auto simp: sess1_def sess_live_def session_new_def CHANNEL_BUFFER_SIZE_def)
qed

text \<open>A session whose shell has exited and whose end has been reported.\<close>

definition sess_dead :: "terminal_session \<Rightarrow> bool" where
  "sess_dead s \<longleftrightarrow> tn_reader_thread s = Some True \<and> tn_closed_message_sent s \<and> tn_child s = None \<and> tn_output_rx s = Some []"

lemma sess_dead_step:
  assumes "sess_dead s" and "sess_step i x s = Some (s', rs)"
  shows "sess_dead s' \<and> rs = []"
  using assms by (cases x) (auto simp: sess_dead_def reader_step_def read_session_def Let_def split: if_splits)

lemma sess_dead_run: "sess_dead s \<Longrightarrow> sess_run i ops s = Some (s', rs) \<Longrightarrow> sess_dead s' \<and> rs = []"
  by (induction ops arbitrary: s rs) (auto split: option.splits dest: sess_dead_step)

text \<open>
  Reopening a terminal whose shell is gone: a persistent service keeps the session after reporting its end,
  answers the next open of it with success and the identifier of the dead process, starts no shell, and
  sends nothing more for it, neither output nor the end of it.
\<close>

theorem reconnect_to_dead_terminal:
  assumes "hm_get (tz_sessions svc) i = Some s" and "sess_dead s"
    and "handle_open env sid i rows cols svc tasks = (svc', tasks', res)"
  shows "(\<exists>others. res = Ok (Some (TermOpened i True ''Reconnected to existing terminal'' (tn_pid s) sid others)))
    \<and> (\<exists>s'. hm_get (tz_sessions svc') i = Some s' \<and> tn_is_opened s' \<and> tn_child s' = None
        \<and> (\<forall>ops s'' rs. sess_run i ops s' = Some (s'', rs) \<longrightarrow> rs = []))"
proof -
  let ?s = "s\<lparr>tn_is_opened := True\<rparr>"
  have "sess_dead ?s" using assms(2) by (simp add: sess_dead_def)
  from sess_dead_run [OF this] have quiet: "\<forall>ops s'' rs. sess_run i ops ?s = Some (s'', rs) \<longrightarrow> rs = []" by blast
  have "hm_get (tz_sessions svc') i = Some ?s" "\<exists>others. res = Ok (Some (TermOpened i True ''Reconnected to existing terminal'' (tn_pid s) sid others))"
    using assms(1,3) by (auto simp: handle_open_def open_existing_def Let_def hmap_simps)
  then show ?thesis using quiet assms(2) by (auto simp: sess_dead_def)
qed

text \<open>The session left by a shell that exits: opened, its reader ends, the end is reported.\<close>

definition term_g2 :: term_globals where
  "term_g2 = the (run_opt term_step [OpSetPersistent ''s'' True, OpReader ''s'' 1 None, OpRead env0 ''s'' True] term_g1)"

lemma term_g2_eq:
  "tz_sessions (the (hm_get (tg_services term_g2) ''s'')) =
     [(1, (session_new 0 1 24 80)\<lparr>tn_pid := 7, tn_pty_pair := True, tn_child := None, tn_input_tx := Some [],
        tn_output_rx := Some [], tn_reader_thread := Some True, tn_writer_thread := Some False, tn_is_opened := True,
        tn_closed_message_sent := True\<rparr>)]"
  by (simp add: term_g2_def term_g1_eq set_persistent_def on_session_def reader_step_def read_outputs_def read_session_def
      close_terminal_def hm_contains_def hm_get_def hm_modify_def env0_def Let_def session_new_def)

theorem reconnect_to_dead_terminal_witness:
  "\<exists>svc' others. handle_open env0 ''s'' 1 24 80 (the (hm_get (tg_services term_g2) ''s'')) []
     = (svc', [], Ok (Some (TermOpened 1 True ''Reconnected to existing terminal'' 7 ''s'' others)))"
proof -
  let ?svc = "the (hm_get (tg_services term_g2) ''s'')"
  obtain svc' tasks' res where r: "handle_open env0 ''s'' 1 24 80 ?svc [] = (svc', tasks', res)"
    by (cases "handle_open env0 ''s'' 1 24 80 ?svc []")
  obtain s where s: "hm_get (tz_sessions ?svc) 1 = Some s" "sess_dead s" "tn_pid s = 7"
    unfolding term_g2_eq by (simp add: hm_get_def sess_dead_def session_new_def)
  have "tasks' = []" using r s(1) by (auto simp: handle_open_def open_existing_def Let_def)
  then show ?thesis using reconnect_to_dead_terminal [OF s(1,2) r] r s(3) by auto
qed

end
