(* ===== verification/Float32.thy ===== *)
theory Float32
  imports Complex_Main Prelude
begin

text \<open>
  Single-precision numbers of Rust (\<open>f32\<close>) as the rationals they denote: an operation is the exact one
  followed by rounding to nearest, ties to even, with 24 significant bits and gradual underflow. Infinities
  and NaN are left out: the callers only divide by positive numbers and stay far below \<open>f32::MAX\<close>.
\<close>

type_synonym f32 = rat

text \<open>Rounding to the nearest integer, ties to even.\<close>

definition rne :: "rat \<Rightarrow> int" where
  "rne x = (let f = \<lfloor>x\<rfloor>; d = x - of_int f in
            if d < 1 / 2 then f else if 1 / 2 < d then f + 1 else if even f then f else f + 1)"

text \<open>The number of bits of a natural number.\<close>

fun bits :: "nat \<Rightarrow> nat" where
  "bits n = (if n = 0 then 0 else Suc (bits (n div 2)))"

declare bits.simps [simp del]

definition pow2 :: "int \<Rightarrow> rat" where
  "pow2 e = (if 0 \<le> e then 2 ^ nat e else 1 / 2 ^ nat (- e))"

text \<open>The exponent \<open>e\<close> with \<open>2\<^sup>e \<le> |x| < 2\<^sup>e\<^sup>+\<^sup>1\<close>.\<close>

definition f32_exponent :: "rat \<Rightarrow> int" where
  "f32_exponent x =
    (let (n, d) = quotient_of \<bar>x\<bar>; e = int (bits (nat n)) - int (bits (nat d)) in
     if pow2 e \<le> \<bar>x\<bar> then e else e - 1)"

definition f32_ulp :: "rat \<Rightarrow> rat" where
  "f32_ulp x = pow2 (max (f32_exponent x) (- 126) - 23)"

definition rnd32 :: "rat \<Rightarrow> f32" where
  "rnd32 x = (if x = 0 then 0 else of_int (rne (x / f32_ulp x)) * f32_ulp x)"

definition f32_mul :: "f32 \<Rightarrow> f32 \<Rightarrow> f32" where "f32_mul x y = rnd32 (x * y)"
definition f32_div :: "f32 \<Rightarrow> f32 \<Rightarrow> f32" where "f32_div x y = rnd32 (x / y)"
definition f32_add :: "f32 \<Rightarrow> f32 \<Rightarrow> f32" where "f32_add x y = rnd32 (x + y)"
definition f32_of_u32 :: "u32 \<Rightarrow> f32" where "f32_of_u32 n = rnd32 (of_nat (unat n))"

text \<open>\<open>x as u32\<close> truncates towards zero and saturates.\<close>

definition u32_of_f32 :: "f32 \<Rightarrow> u32" where
  "u32_of_f32 x = (if x \<le> 0 then 0 else if 2 ^ 32 - 1 \<le> x then - 1 else of_int \<lfloor>x\<rfloor>)"

definition f32_ceil :: "f32 \<Rightarrow> f32" where "f32_ceil x = of_int \<lceil>x\<rceil>"

text \<open>\<open>clamp\<close> panics (\<open>None\<close>) when its bounds are out of order.\<close>

definition clamp :: "'a::linorder \<Rightarrow> 'a \<Rightarrow> 'a \<Rightarrow> 'a option" where
  "clamp lo hi x = (if lo \<le> hi then Some (if x < lo then lo else if hi < x then hi else x) else None)"

lemma clamp_Some: "clamp lo hi x = Some y \<Longrightarrow> lo \<le> y \<and> y \<le> hi"
  by (auto simp: clamp_def split: if_splits)

lemma clamp_total: "lo \<le> hi \<Longrightarrow> \<exists>y. clamp lo hi x = Some y"
  by (simp add: clamp_def)

subsection \<open>Exact results\<close>

lemma rne_of_int [simp]: "rne (of_int k) = k"
  by (simp add: rne_def)

lemma bits_bounds: "0 < n \<Longrightarrow> 2 ^ bits n \<le> 2 * n \<and> n < 2 ^ bits n"
proof (induction n rule: bits.induct)
  case (1 n)
  show ?case
  proof (cases "n div 2 = 0")
    case True
    with 1(2) have "n = 1" by auto
    then show ?thesis by (simp add: bits.simps)
  next
    case False
    then have "2 ^ bits (n div 2) \<le> 2 * (n div 2) \<and> n div 2 < 2 ^ bits (n div 2)" using 1 by simp
    moreover have "bits n = Suc (bits (n div 2))" using 1(2) by (subst bits.simps) simp
    ultimately show ?thesis by (simp, linarith)
  qed
qed

lemma pow2_pos [simp]: "0 < pow2 e"
  by (simp add: pow2_def)

lemma pow2_neq [simp]: "pow2 e \<noteq> 0"
  using pow2_pos [of e] by linarith

lemma abs_pow2 [simp]: "\<bar>pow2 e\<bar> = pow2 e"
  using pow2_pos [of e] by linarith

lemma pow2_nonneg: "0 \<le> e \<Longrightarrow> pow2 e = 2 ^ nat e"
  by (simp add: pow2_def)

lemma pow2_minus: "pow2 (- e) = 1 / pow2 e"
  by (auto simp: pow2_def)

lemma pow2_diff: "pow2 (int a - int b) = 2 ^ a / 2 ^ b"
  by (auto simp: pow2_def nat_diff_distrib power_diff)

lemma pow2_mono: "i \<le> j \<Longrightarrow> pow2 i \<le> pow2 j"
proof -
  assume "i \<le> j"
  obtain a c where a: "i = int a - int c" by (cases i rule: int_diff_cases)
  define b where "b = nat (j + int c)"
  have abc: "i = int a - int c" "j = int b - int c" using a \<open>i \<le> j\<close> by (simp_all add: b_def)
  with \<open>i \<le> j\<close> have "a \<le> b" by simp
  then have "(2::rat) ^ a \<le> 2 ^ b" by simp
  then show ?thesis unfolding abc pow2_diff by (simp add: divide_right_mono)
qed

lemma pow2_add: "pow2 (i + j) = pow2 i * pow2 j"
proof -
  obtain a b where i: "i = int a - int b" by (cases i rule: int_diff_cases)
  obtain c d where j: "j = int c - int d" by (cases j rule: int_diff_cases)
  have "pow2 (i + j) = pow2 (int (a + c) - int (b + d))" by (simp add: i j algebra_simps)
  then show ?thesis unfolding i j pow2_diff by (simp add: power_add)
qed

lemma pow2_le_iff: "pow2 i \<le> pow2 j \<longleftrightarrow> i \<le> j"
proof
  assume le: "pow2 i \<le> pow2 j"
  show "i \<le> j"
  proof (rule ccontr)
    assume "\<not> i \<le> j"
    then have "pow2 (j + 1) \<le> pow2 i" by (intro pow2_mono) simp
    with le have "pow2 j * pow2 1 \<le> pow2 j" unfolding pow2_add by linarith
    then show False using pow2_pos [of j] by (simp add: pow2_def [of 1])
  qed
qed (rule pow2_mono)

text \<open>The exponent brackets the number.\<close>

lemma f32_exponent_bounds: "x \<noteq> 0 \<Longrightarrow> pow2 (f32_exponent x) \<le> \<bar>x\<bar> \<and> \<bar>x\<bar> < pow2 (f32_exponent x + 1)"
proof -
  assume x: "x \<noteq> 0"
  obtain n d where q: "quotient_of \<bar>x\<bar> = (n, d)" by fastforce
  have d: "0 < d" using q by (rule quotient_of_denom_pos)
  have xnd: "\<bar>x\<bar> = of_int n / of_int d" using q by (rule quotient_of_div)
  have "0 < of_int n / (of_int d :: rat)" using x unfolding xnd [symmetric] by simp
  then have n: "0 < n" using d by (simp add: zero_less_divide_iff)
  let ?a = "bits (nat n)" and ?b = "bits (nat d)"
  have "2 ^ ?a \<le> 2 * nat n" "nat d \<le> 2 ^ ?b" "nat n < 2 ^ ?a" "2 ^ ?b \<le> 2 * nat d"
    using bits_bounds [of "nat n"] bits_bounds [of "nat d"] n d by auto
  then have "of_nat (2 ^ ?a) \<le> (of_nat (2 * nat n) :: rat)" "of_nat (nat d) \<le> (of_nat (2 ^ ?b) :: rat)"
    "of_nat (nat n) < (of_nat (2 ^ ?a) :: rat)" "of_nat (2 ^ ?b) \<le> (of_nat (2 * nat d) :: rat)"
    by (simp_all only: of_nat_le_iff of_nat_less_iff)
  then have a: "(2::rat) ^ ?a \<le> 2 * of_int n" and b: "(of_int d :: rat) \<le> 2 ^ ?b"
    and a': "of_int n < (2::rat) ^ ?a" and b': "2 ^ ?b \<le> (2 * of_int d :: rat)"
    using n d by (simp_all add: of_nat_nat)
  have "pow2 (int ?a - int (Suc ?b)) = 2 ^ ?a / 2 / 2 ^ ?b" unfolding pow2_diff by simp
  also have "\<dots> \<le> of_int n / 2 ^ ?b" using a by (intro divide_right_mono) simp_all
  also have "\<dots> \<le> \<bar>x\<bar>" unfolding xnd using b d n by (intro divide_left_mono) simp_all
  finally have low: "pow2 (int ?a - int ?b - 1) \<le> \<bar>x\<bar>" by (simp add: algebra_simps)
  have "\<bar>x\<bar> < 2 ^ ?a / of_int d" unfolding xnd using a' d by (intro divide_strict_right_mono) simp_all
  also have "\<dots> \<le> 2 ^ ?a / (2 ^ ?b / 2)" using b' d by (intro divide_left_mono) simp_all
  also have "\<dots> = pow2 (int (Suc ?a) - int ?b)" unfolding pow2_diff by simp
  finally have "\<bar>x\<bar> < pow2 (int ?a - int ?b + 1)" by (simp add: algebra_simps)
  with low q show ?thesis by (auto simp: f32_exponent_def Let_def)
qed

text \<open>A number with at most 24 significant bits is represented exactly.\<close>

lemma rnd32_rep:
  assumes "x = of_int k * pow2 m" and "\<bar>k\<bar> \<le> 2 ^ 24" and "- 149 \<le> m"
  shows "rnd32 x = x"
proof (cases "x = 0")
  case False
  let ?e = "f32_exponent x"
  define u where "u = max ?e (- 126) - 23"
  have ulp: "f32_ulp x = pow2 u" by (simp add: f32_ulp_def u_def)
  have bound: "\<bar>x\<bar> \<le> pow2 (24 + m)"
    using assms(2) unfolding assms(1) pow2_add abs_mult
    by (intro mult_mono) (simp_all add: pow2_def flip: of_int_abs)
  have "\<exists>j. x / pow2 u = of_int j"
  proof (cases "u \<le> m")
    case True
    have "x / pow2 u = of_int k * pow2 (m - u)" unfolding assms(1) using pow2_add [of "m - u" u] by simp
    also have "\<dots> = of_int (k * 2 ^ nat (m - u))" using True by (simp add: pow2_nonneg)
    finally show ?thesis ..
  next
    case u: False
    then have "24 + m \<le> ?e" "u = ?e - 23" using assms(3) by (auto simp: u_def)
    moreover have "pow2 ?e \<le> pow2 (24 + m)" using f32_exponent_bounds [OF False] bound by linarith
    ultimately have "?e = 24 + m" "u = m + 1" by (simp_all add: pow2_le_iff)
    then have "pow2 (24 + m) \<le> \<bar>x\<bar>" "u = m + 1" using f32_exponent_bounds [OF False] by auto
    then have "\<bar>x\<bar> = pow2 23 * pow2 u" using bound pow2_add [of 23 u] by (simp add: algebra_simps)
    then have "\<bar>x\<bar> / pow2 u = of_int (2 ^ 23)" by (simp add: pow2_def [of 23])
    then have "x / pow2 u = of_int (2 ^ 23) \<or> x / pow2 u = of_int (- (2 ^ 23))" by (auto simp: abs_if split: if_splits)
    then show ?thesis by blast
  qed
  then show ?thesis using False by (auto simp: rnd32_def ulp divide_eq_eq)
qed (simp add: rnd32_def)

lemma rne_le: "x \<le> of_int k \<Longrightarrow> rne x \<le> k"
proof -
  assume x: "x \<le> of_int k"
  show ?thesis
  proof (cases "\<lfloor>x\<rfloor> < k")
    case False
    then have "x = of_int k" using x by linarith
    then show ?thesis by simp
  qed (simp add: rne_def Let_def)
qed

lemma rne_ge: "of_int k \<le> x \<Longrightarrow> k \<le> rne x"
  using le_floor_iff [of k x] unfolding rne_def Let_def by auto

text \<open>Rounding yields a number that is represented exactly.\<close>

lemma rnd32_idem [simp]: "rnd32 (rnd32 x) = rnd32 x"
proof (cases "x = 0")
  case False
  let ?u = "max (f32_exponent x) (- 126) - 23"
  have "\<bar>x\<bar> < pow2 (f32_exponent x + 1)" using f32_exponent_bounds [OF False] by simp
  also have "\<dots> \<le> pow2 (24 + ?u)" by (rule pow2_mono) simp
  also have "\<dots> = 2 ^ 24 * pow2 ?u" unfolding pow2_add by (simp add: pow2_def [of 24])
  finally have "\<bar>x\<bar> / pow2 ?u < 2 ^ 24" by (simp add: divide_less_eq)
  then have "\<bar>x / pow2 ?u\<bar> \<le> of_int (2 ^ 24)" by (simp add: abs_divide)
  then have "x / pow2 ?u \<le> of_int (2 ^ 24)" "of_int (- (2 ^ 24)) \<le> x / pow2 ?u" by (simp_all only: abs_le_iff of_int_minus) simp_all
  then have "\<bar>rne (x / pow2 ?u)\<bar> \<le> 2 ^ 24"
    using rne_le [of "x / pow2 ?u" "2 ^ 24"] rne_ge [of "- (2 ^ 24)" "x / pow2 ?u"] by linarith
  then show ?thesis using False by (intro rnd32_rep [of _ "rne (x / pow2 ?u)" ?u]) (simp_all add: rnd32_def f32_ulp_def)
qed (simp add: rnd32_def)

text \<open>Multiples of one half below \<open>2\<^sup>2\<^sup>3\<close> are represented exactly.\<close>

lemma rnd32_half: "k < 2 ^ 24 \<Longrightarrow> rnd32 (of_nat k / 2) = of_nat k / 2"
  by (rule rnd32_rep [of _ "int k" "- 1"]) (simp_all add: pow2_def)

lemma rnd32_nat: "k < 2 ^ 23 \<Longrightarrow> rnd32 (of_nat k) = of_nat k"
  using rnd32_half [of "2 * k"] by simp

end
