(* ===== verification/Video_Qos.thy ===== *)
theory Video_Qos
  imports Float32
begin

text \<open>
  The control of frame rate and bitrate, \<open>src/server/video_qos.rs\<close>. Users and displays are hash maps in
  iteration order, \<open>u32\<close> is a word with wrapping addition, \<open>f32\<close> is the rounded arithmetic of
  \<open>Float32\<close>; a call that panics in \<open>clamp\<close> is \<open>None\<close>. The clock, the configuration and the
  target system are the record \<open>qos_env\<close>, fixed for one call.
\<close>

subsection \<open>Constants and data\<close>

definition FPS :: u32 where "FPS = 30"
definition MIN_FPS :: u32 where "MIN_FPS = 1"
definition MAX_FPS :: u32 where "MAX_FPS = 120"
definition INIT_FPS :: u32 where "INIT_FPS = 15"
definition BR_MAX :: f32 where "BR_MAX = rnd32 40"
definition BR_MIN :: f32 where "BR_MIN = rnd32 (2 / 10)"
definition BR_MIN_HIGH_RESOLUTION :: f32 where "BR_MIN_HIGH_RESOLUTION = rnd32 (1 / 10)"
definition MAX_BR_MULTIPLE :: f32 where "MAX_BR_MULTIPLE = rnd32 1"
definition HISTORY_DELAY_LEN :: nat where "HISTORY_DELAY_LEN = 2"
definition ADJUST_RATIO_INTERVAL :: nat where "ADJUST_RATIO_INTERVAL = 3"
definition DYNAMIC_SCREEN_THRESHOLD :: nat where "DYNAMIC_SCREEN_THRESHOLD = 2"
definition DELAY_THRESHOLD_150MS :: u32 where "DELAY_THRESHOLD_150MS = 150"
definition BR_BEST :: f32 where "BR_BEST = rnd32 (15 / 10)"
definition BR_BALANCED :: f32 where "BR_BALANCED = rnd32 (67 / 100)"
definition BR_SPEED :: f32 where "BR_SPEED = rnd32 (5 / 10)"

datatype quality = Best | Balanced | Low | Custom f32

fun quality_ratio :: "quality \<Rightarrow> f32" where
  "quality_ratio Best = BR_BEST"
| "quality_ratio Balanced = BR_BALANCED"
| "quality_ratio Low = BR_SPEED"
| "quality_ratio (Custom v) = v"

record rtt_calculator =
  rc_min_rtt :: "u32 option"
  rc_window_min_rtt :: "u32 option"
  rc_smoothed_rtt :: "u32 option"
  rc_samples :: "u32 list"

record user_delay =
  ud_response_delayed :: bool
  ud_delay_history :: "u32 list"
  ud_fps :: "u32 option"
  ud_rtt_calculator :: rtt_calculator
  ud_quick_increase_fps_count :: nat
  ud_increase_fps_count :: nat

record user_data =
  us_auto_adjust_fps :: "u32 option"
  us_custom_fps :: "u32 option"
  us_quality :: "(int \<times> quality) option"
  us_delay :: user_delay
  us_record :: bool

record display_data =
  dd_send_counter :: nat
  dd_support_changing_quality :: bool

record video_qos =
  vq_fps :: u32
  vq_ratio :: f32
  vq_users :: "(i32, user_data) hmap"
  vq_displays :: "(string, display_data) hmap"
  vq_bitrate_store :: u32
  vq_adjust_ratio_instant :: nat
  vq_abr_config :: bool
  vq_new_user_instant :: nat

record qos_env =
  qe_now :: nat
  qe_time :: int
  qe_enable_abr :: string
  qe_linux :: bool

subsection \<open>Round-trip times\<close>

definition WINDOW_SAMPLES :: nat where "WINDOW_SAMPLES = 60"
definition MIN_SAMPLES :: nat where "MIN_SAMPLES = 10"
definition ALPHA :: f32 where "ALPHA = rnd32 (5 / 10)"

definition rtt_default :: rtt_calculator where
  "rtt_default = \<lparr>rc_min_rtt = None, rc_window_min_rtt = None, rc_smoothed_rtt = None, rc_samples = []\<rparr>"

definition list_min :: "'a::linorder list \<Rightarrow> 'a option" where
  "list_min xs = (case xs of [] \<Rightarrow> None | x # xs \<Rightarrow> Some (fold min xs x))"

definition list_max :: "'a::linorder list \<Rightarrow> 'a option" where
  "list_max xs = (case xs of [] \<Rightarrow> None | x # xs \<Rightarrow> Some (fold max xs x))"

definition rtt_update :: "u32 \<Rightarrow> rtt_calculator \<Rightarrow> rtt_calculator" where
  "rtt_update delay rc =
    (let min_rtt = (case rc_min_rtt rc of
                      Some m \<Rightarrow> if delay < m then Some delay else Some m
                    | None \<Rightarrow> Some delay);
         samples = (if length (rc_samples rc) \<ge> WINDOW_SAMPLES then tl (rc_samples rc) else rc_samples rc) @ [delay];
         window_min = list_min samples;
         smoothed = (if length samples \<ge> WINDOW_SAMPLES
                     then (case (min_rtt, window_min) of
                             (Some m, Some w) \<Rightarrow>
                               Some (u32_of_f32 (f32_add (f32_mul (rnd32 (1 - ALPHA)) (f32_of_u32 m)) (f32_mul ALPHA (f32_of_u32 w))))
                           | _ \<Rightarrow> rc_smoothed_rtt rc)
                     else rc_smoothed_rtt rc) in
     \<lparr>rc_min_rtt = min_rtt, rc_window_min_rtt = window_min, rc_smoothed_rtt = smoothed, rc_samples = samples\<rparr>)"

definition get_rtt :: "rtt_calculator \<Rightarrow> u32 option" where
  "get_rtt rc =
    (case rc_smoothed_rtt rc of
       Some rtt \<Rightarrow> Some rtt
     | None \<Rightarrow> if length (rc_samples rc) \<ge> MIN_SAMPLES then rc_min_rtt rc else None)"

subsection \<open>Delays of a user\<close>

definition delay_default :: user_delay where
  "delay_default = \<lparr>ud_response_delayed = False, ud_delay_history = [], ud_fps = None, ud_rtt_calculator = rtt_default,
     ud_quick_increase_fps_count = 0, ud_increase_fps_count = 0\<rparr>"

definition add_delay :: "u32 \<Rightarrow> user_delay \<Rightarrow> user_delay" where
  "add_delay delay ud =
     ud\<lparr>ud_rtt_calculator := rtt_update delay (ud_rtt_calculator ud),
        ud_delay_history := (if length (ud_delay_history ud) > HISTORY_DELAY_LEN then tl (ud_delay_history ud)
                             else ud_delay_history ud) @ [delay]\<rparr>"

definition avg_delay :: "user_delay \<Rightarrow> u32" where
  "avg_delay ud =
    (let len = length (ud_delay_history ud) in
     if len > 0 then
       let avg_delay = sum_list (ud_delay_history ud) div of_nat len in
       (case get_rtt (ud_rtt_calculator ud) of
          Some rtt \<Rightarrow> if avg_delay > rtt then avg_delay - rtt else avg_delay
        | None \<Rightarrow> avg_delay)
     else DELAY_THRESHOLD_150MS)"

definition user_default :: user_data where
  "user_default = \<lparr>us_auto_adjust_fps = None, us_custom_fps = None, us_quality = None, us_delay = delay_default, us_record = False\<rparr>"

subsection \<open>The controller\<close>

definition qos_default :: "nat \<Rightarrow> video_qos" where
  "qos_default now = \<lparr>vq_fps = FPS, vq_ratio = BR_BALANCED, vq_users = [], vq_displays = [], vq_bitrate_store = 0,
     vq_adjust_ratio_instant = now, vq_abr_config = True, vq_new_user_instant = now\<rparr>"

definition qos_fps :: "video_qos \<Rightarrow> u32" where
  "qos_fps q = (if vq_fps q \<ge> MIN_FPS \<and> vq_fps q \<le> MAX_FPS then vq_fps q else FPS)"

text \<open>\<open>spf\<close>, in seconds.\<close>

definition spf :: "video_qos \<Rightarrow> f32" where
  "spf q = f32_div 1 (f32_of_u32 (qos_fps q))"

definition store_bitrate :: "u32 \<Rightarrow> video_qos \<Rightarrow> video_qos" where
  "store_bitrate b q = q\<lparr>vq_bitrate_store := b\<rparr>"

definition bitrate :: "video_qos \<Rightarrow> u32" where
  "bitrate q = vq_bitrate_store q"

definition qos_ratio :: "video_qos \<Rightarrow> video_qos \<times> f32" where
  "qos_ratio q =
    (let q = (if vq_ratio q < BR_MIN_HIGH_RESOLUTION \<or> vq_ratio q > BR_MAX then q\<lparr>vq_ratio := BR_BALANCED\<rparr> else q) in
     (q, vq_ratio q))"

definition qos_record :: "video_qos \<Rightarrow> bool" where
  "qos_record q = list_ex (\<lambda>(_, u). us_record u) (vq_users q)"

definition set_support_changing_quality :: "string \<Rightarrow> bool \<Rightarrow> video_qos \<Rightarrow> video_qos" where
  "set_support_changing_quality name support q =
     q\<lparr>vq_displays := hm_modify name (\<lambda>d. d\<lparr>dd_support_changing_quality := support\<rparr>) (vq_displays q)\<rparr>"

definition in_vbr_state :: "video_qos \<Rightarrow> bool" where
  "in_vbr_state q \<longleftrightarrow> vq_abr_config q \<and> list_all (\<lambda>(_, d). dd_support_changing_quality d) (vq_displays q)"

definition user_fps :: "user_data \<Rightarrow> u32" where
  "user_fps u =
    (let fps = (case us_custom_fps u of Some f \<Rightarrow> f | None \<Rightarrow> FPS) in
     case us_auto_adjust_fps u of
       Some a \<Rightarrow> if fps = 0 \<or> a < fps then a else fps
     | None \<Rightarrow> fps)"

definition highest_fps :: "video_qos \<Rightarrow> u32 option" where
  "highest_fps q =
     clamp MIN_FPS MAX_FPS
       (case list_min (filter (\<lambda>f. f \<ge> MIN_FPS) (map (\<lambda>(_, u). user_fps u) (vq_users q))) of Some f \<Rightarrow> f | None \<Rightarrow> FPS)"

text \<open>\<open>max_by\<close>: the last of the elements with the greatest key.\<close>

definition max_by_key :: "('a \<Rightarrow> 'b::linorder) \<Rightarrow> 'a list \<Rightarrow> 'a option" where
  "max_by_key f xs = (case xs of [] \<Rightarrow> None | x # xs \<Rightarrow> Some (fold (\<lambda>y m. if f m \<le> f y then y else m) xs x))"

definition latest_quality :: "video_qos \<Rightarrow> quality" where
  "latest_quality q =
    (case max_by_key fst (List.map_filter (\<lambda>(_, u). us_quality u) (vq_users q)) of
       Some (_, ql) \<Rightarrow> ql
     | None \<Rightarrow> Balanced)"

definition on_connection_open :: "qos_env \<Rightarrow> i32 \<Rightarrow> video_qos \<Rightarrow> video_qos" where
  "on_connection_open env i q =
     q\<lparr>vq_users := hm_insert i user_default (vq_users q), vq_abr_config := (qe_enable_abr env \<noteq> ''N''),
       vq_new_user_instant := qe_now env\<rparr>"

definition on_connection_close :: "qos_env \<Rightarrow> i32 \<Rightarrow> video_qos \<Rightarrow> video_qos" where
  "on_connection_close env i q =
    (let q = q\<lparr>vq_users := hm_remove i (vq_users q)\<rparr> in
     if vq_users q = [] then qos_default (qe_now env) else q)"

definition user_custom_fps :: "i32 \<Rightarrow> u32 \<Rightarrow> video_qos \<Rightarrow> video_qos" where
  "user_custom_fps i fps q =
    (if fps < MIN_FPS \<or> fps > MAX_FPS then q
     else q\<lparr>vq_users := hm_modify i (\<lambda>u. u\<lparr>us_custom_fps := Some fps\<rparr>) (vq_users q)\<rparr>)"

definition user_auto_adjust_fps :: "i32 \<Rightarrow> u32 \<Rightarrow> video_qos \<Rightarrow> video_qos" where
  "user_auto_adjust_fps i fps q =
    (if fps < MIN_FPS \<or> fps > MAX_FPS then q
     else q\<lparr>vq_users := hm_modify i (\<lambda>u. u\<lparr>us_auto_adjust_fps := Some fps\<rparr>) (vq_users q)\<rparr>)"

text \<open>The values of the protocol's \<open>ImageQuality\<close>: \<open>Low\<close> is 2, \<open>Balanced\<close> 3 and \<open>Best\<close> 4.\<close>

definition convert_quality :: "i32 \<Rightarrow> quality option" where
  "convert_quality q =
    (if q = 3 then Some Balanced
     else if q = 2 then Some Low
     else if q = 4 then Some Best
     else let b = f32_div (f32_of_u32 (((signed_drop_bit 8 q) AND 0xFFF) * 2)) 100 in
       map_option Custom (clamp BR_MIN BR_MAX b))"

definition user_image_quality :: "qos_env \<Rightarrow> i32 \<Rightarrow> i32 \<Rightarrow> video_qos \<Rightarrow> video_qos option" where
  "user_image_quality env i image_quality q =
    (case convert_quality image_quality of
       None \<Rightarrow> None
     | Some ql \<Rightarrow> Some
         (if hm_contains (vq_users q) i then
            let q = q\<lparr>vq_users := hm_modify i (\<lambda>u. u\<lparr>us_quality := Some (qe_time env, ql)\<rparr>) (vq_users q)\<rparr> in
            q\<lparr>vq_ratio := quality_ratio (latest_quality q)\<rparr>
          else q))"

definition user_record :: "i32 \<Rightarrow> bool \<Rightarrow> video_qos \<Rightarrow> video_qos" where
  "user_record i v q = q\<lparr>vq_users := hm_modify i (\<lambda>u. u\<lparr>us_record := v\<rparr>) (vq_users q)\<rparr>"

subsection \<open>Adjustments\<close>

text \<open>The lower limit of the ratio in \<open>adjust_ratio\<close>.\<close>

definition min_ratio :: "quality \<Rightarrow> f32 option \<Rightarrow> f32" where
  "min_ratio target_quality ratio_1mbps =
    (let lower = (\<lambda>m. case ratio_1mbps of Some r \<Rightarrow> if m > r then r else m | None \<Rightarrow> m) in
     case target_quality of
       Best \<Rightarrow> max (lower (f32_div BR_BEST (rnd32 (25 / 10)))) BR_MIN
     | Balanced \<Rightarrow> max (lower (min (f32_div BR_BALANCED 2) (rnd32 (4 / 10)))) BR_MIN_HIGH_RESOLUTION
     | Low \<Rightarrow> BR_MIN_HIGH_RESOLUTION
     | Custom _ \<Rightarrow> BR_MIN_HIGH_RESOLUTION)"

definition ratio_step :: "u32 \<Rightarrow> bool \<Rightarrow> f32 \<Rightarrow> f32" where
  "ratio_step max_delay dynamic_screen r =
    (if max_delay < 50 then if dynamic_screen then f32_mul r (rnd32 (115 / 100)) else r
     else if max_delay < 100 then if dynamic_screen then f32_mul r (rnd32 (11 / 10)) else r
     else if max_delay < DELAY_THRESHOLD_150MS then if dynamic_screen then f32_mul r (rnd32 (105 / 100)) else r
     else if max_delay < 200 then f32_mul r (rnd32 (95 / 100))
     else if max_delay < 300 then f32_mul r (rnd32 (9 / 10))
     else if max_delay < 500 then f32_mul r (rnd32 (85 / 100))
     else f32_mul r (rnd32 (8 / 10)))"

definition adjust_ratio :: "qos_env \<Rightarrow> bool \<Rightarrow> video_qos \<Rightarrow> video_qos option" where
  "adjust_ratio env dynamic_screen q =
    (if \<not> in_vbr_state q then Some q
     else case list_max (map (\<lambda>(_, u). avg_delay (us_delay u)) (vq_users q)) of
       None \<Rightarrow> Some q
     | Some max_delay \<Rightarrow>
       let target_quality = latest_quality q;
           target_ratio = quality_ratio (latest_quality q);
           current_ratio = vq_ratio q;
           current_bitrate = bitrate q;
           ratio_1mbps = (if current_bitrate > 0
             then Some (max (f32_div (f32_mul current_ratio 1000) (f32_of_u32 current_bitrate)) BR_MIN_HIGH_RESOLUTION) else None);
           ratio_add_150kbps = (if current_bitrate > 0
             then Some (f32_div (f32_mul (f32_of_u32 (current_bitrate + 150)) current_ratio) (f32_of_u32 current_bitrate)) else None);
           max_ratio = f32_mul target_ratio MAX_BR_MULTIPLE;
           v = ratio_step max_delay dynamic_screen current_ratio;
           v = (case ratio_add_150kbps of
                  Some r \<Rightarrow> if v > r \<and> r > current_ratio \<and> current_ratio \<ge> BR_SPEED then r else v
                | None \<Rightarrow> v) in
       (case clamp (min_ratio target_quality ratio_1mbps) max_ratio v of
          None \<Rightarrow> None
        | Some r \<Rightarrow> Some (q\<lparr>vq_ratio := r, vq_adjust_ratio_instant := qe_now env\<rparr>)))"

definition adjust_fps :: "qos_env \<Rightarrow> video_qos \<Rightarrow> video_qos option" where
  "adjust_fps env q =
    (case highest_fps q of
       None \<Rightarrow> None
     | Some hf \<Rightarrow>
       let fps = (case list_min (map (\<lambda>(_, u). case ud_fps (us_delay u) of Some f \<Rightarrow> f | None \<Rightarrow> INIT_FPS) (vq_users q)) of
                    Some f \<Rightarrow> f | None \<Rightarrow> INIT_FPS);
           fps = (if list_ex (\<lambda>(_, u). ud_response_delayed (us_delay u)) (vq_users q) \<and> fps > MIN_FPS + 1 then MIN_FPS + 1 else fps);
           fps = (if (qe_now env - vq_new_user_instant q) div 1000 < 1 \<and> fps > INIT_FPS then INIT_FPS else fps) in
       map_option (\<lambda>f. q\<lparr>vq_fps := f\<rparr>) (clamp MIN_FPS hf fps))"

text \<open>The frame rate that \<open>user_network_delay\<close> computes before its counters are consulted.\<close>

definition delay_fps :: "u32 \<Rightarrow> u32 \<Rightarrow> u32 \<Rightarrow> u32 \<Rightarrow> nat \<Rightarrow> u32 \<Rightarrow> u32 \<times> nat" where
  "delay_fps min_fps normal_fps old_avg avg quick fps =
    (let dividend_ms = DELAY_THRESHOLD_150MS * min_fps in
     if avg < 50 then
       (let quick = quick + 1; step = (if fps < normal_fps then 1 else 0);
            (quick, step) = (if quick \<ge> 3 then (0, 5) else (quick, step)) in
        (max min_fps (fps + step), quick))
     else if avg < 100 then
       (max min_fps (fps + (if avg < old_avg then if fps < normal_fps then 1 else 0 else 0)), quick)
     else if avg < DELAY_THRESHOLD_150MS then (max min_fps fps, quick)
     else let devide_fps = u32_of_f32 (f32_ceil (f32_div (f32_of_u32 fps)
                             (f32_div (f32_of_u32 avg) (f32_of_u32 DELAY_THRESHOLD_150MS)))) in
       (if avg < 200 then max min_fps devide_fps
        else if avg < 300 then min min_fps devide_fps
        else if avg < 600 then dividend_ms div avg
        else min (dividend_ms div avg) devide_fps, quick))"

text \<open>The update of one user; the result is \<open>None\<close> when \<open>clamp\<close> panics.\<close>

definition delay_update :: "u32 \<Rightarrow> u32 \<Rightarrow> u32 \<Rightarrow> u32 \<Rightarrow> u32 \<Rightarrow> user_delay \<Rightarrow> user_delay option" where
  "delay_update hf min_fps normal_fps fps delay ud =
    (let delay = max delay 10;
         old_avg = avg_delay ud;
         ud = add_delay delay ud;
         avg = max (avg_delay ud) 10;
         (fps, quick) = delay_fps min_fps normal_fps old_avg avg (ud_quick_increase_fps_count ud) fps;
         incr = (if avg < DELAY_THRESHOLD_150MS then ud_increase_fps_count ud + 1 else 0);
         (incr, fps) = (if incr \<ge> 3 then (0, fps + 1) else (incr, fps));
         quick = (if avg > 50 then 0 else quick) in
     map_option (\<lambda>f. ud\<lparr>ud_fps := Some f, ud_quick_increase_fps_count := quick, ud_increase_fps_count := incr\<rparr>)
       (clamp MIN_FPS hf fps))"

definition fps_targets :: "f32 \<Rightarrow> u32 \<times> u32" where
  "fps_targets target_ratio = (if target_ratio \<ge> BR_BEST then (8, 16) else if target_ratio \<ge> BR_BALANCED then (10, 20) else (12, 24))"

definition user_network_delay :: "qos_env \<Rightarrow> i32 \<Rightarrow> u32 \<Rightarrow> video_qos \<Rightarrow> video_qos option" where
  "user_network_delay env i delay q =
    (case highest_fps q of
       None \<Rightarrow> None
     | Some hf \<Rightarrow>
       (case fps_targets (quality_ratio (latest_quality q)) of (min_fps, normal_fps) \<Rightarrow>
         (case hm_get (vq_users q) i of
            None \<Rightarrow> adjust_fps env q
          | Some u \<Rightarrow>
            (case delay_update hf min_fps normal_fps (vq_fps q) delay (us_delay u) of
               None \<Rightarrow> None
             | Some ud \<Rightarrow>
               Option.bind (adjust_fps env (q\<lparr>vq_users := hm_modify i (\<lambda>u. u\<lparr>us_delay := ud\<rparr>) (vq_users q)\<rparr>))
                 (\<lambda>q. if ud_fps (us_delay u) = None \<and> \<not> qe_linux env then adjust_ratio env False q else Some q)))))"

definition user_delay_response_elapsed :: "qos_env \<Rightarrow> i32 \<Rightarrow> u128 \<Rightarrow> video_qos \<Rightarrow> video_qos option" where
  "user_delay_response_elapsed env i elapsed q =
    (if \<not> hm_contains (vq_users q) i then Some q
     else let delayed = (elapsed > 2000);
              q = q\<lparr>vq_users := hm_modify i
                (\<lambda>u. u\<lparr>us_delay := (let ud = (us_delay u)\<lparr>ud_response_delayed := delayed\<rparr> in
                                  if delayed then add_delay (ucast elapsed) ud else ud)\<rparr>) (vq_users q)\<rparr> in
       if delayed then adjust_fps env q else Some q)"

definition display_default :: display_data where
  "display_default = \<lparr>dd_send_counter = 0, dd_support_changing_quality = False\<rparr>"

definition new_display :: "string \<Rightarrow> video_qos \<Rightarrow> video_qos" where
  "new_display name q = q\<lparr>vq_displays := hm_insert name display_default (vq_displays q)\<rparr>"

definition remove_display :: "string \<Rightarrow> video_qos \<Rightarrow> video_qos" where
  "remove_display name q = q\<lparr>vq_displays := hm_remove name (vq_displays q)\<rparr>"

definition update_display_data :: "qos_env \<Rightarrow> string \<Rightarrow> nat \<Rightarrow> video_qos \<Rightarrow> video_qos option" where
  "update_display_data env name send_counter q =
    Option.bind (adjust_fps env (q\<lparr>vq_displays := hm_modify name (\<lambda>d. d\<lparr>dd_send_counter := dd_send_counter d + send_counter\<rparr>) (vq_displays q)\<rparr>))
      (\<lambda>q. if in_vbr_state q then
             if (qe_now env - vq_adjust_ratio_instant q) div 1000 \<ge> ADJUST_RATIO_INTERVAL then
               let dynamic_screen = list_ex (\<lambda>(_, d). dd_send_counter d \<ge> ADJUST_RATIO_INTERVAL * DYNAMIC_SCREEN_THRESHOLD) (vq_displays q) in
               adjust_ratio env dynamic_screen (q\<lparr>vq_displays := hm_map_values (\<lambda>d. d\<lparr>dd_send_counter := 0\<rparr>) (vq_displays q)\<rparr>)
             else Some q
           else Some (q\<lparr>vq_ratio := quality_ratio (latest_quality q)\<rparr>))"

subsection \<open>Sequences of calls\<close>

datatype qos_op =
    QOpen qos_env i32
  | QClose qos_env i32
  | QCustomFps i32 u32
  | QAutoFps i32 u32
  | QQuality qos_env i32 i32
  | QRecord i32 bool
  | QDelay qos_env i32 u32
  | QElapsed qos_env i32 u128
  | QNewDisplay string
  | QRemoveDisplay string
  | QSupport string bool
  | QDisplayData qos_env string nat
  | QBitrate u32
  | QRatio

fun qos_step :: "qos_op \<Rightarrow> video_qos \<Rightarrow> video_qos option" where
  "qos_step (QOpen env i) q = Some (on_connection_open env i q)"
| "qos_step (QClose env i) q = Some (on_connection_close env i q)"
| "qos_step (QCustomFps i f) q = Some (user_custom_fps i f q)"
| "qos_step (QAutoFps i f) q = Some (user_auto_adjust_fps i f q)"
| "qos_step (QQuality env i v) q = user_image_quality env i v q"
| "qos_step (QRecord i v) q = Some (user_record i v q)"
| "qos_step (QDelay env i d) q = user_network_delay env i d q"
| "qos_step (QElapsed env i e) q = user_delay_response_elapsed env i e q"
| "qos_step (QNewDisplay n) q = Some (new_display n q)"
| "qos_step (QRemoveDisplay n) q = Some (remove_display n q)"
| "qos_step (QSupport n b) q = Some (set_support_changing_quality n b q)"
| "qos_step (QDisplayData env n c) q = update_display_data env n c q"
| "qos_step (QBitrate b) q = Some (store_bitrate b q)"
| "qos_step QRatio q = Some (fst (qos_ratio q))"

subsection \<open>The invariant\<close>

lemma BR_MAX_eq: "BR_MAX = 40" unfolding BR_MAX_def by code_simp
lemma BR_MIN_eq: "BR_MIN = 13421773 / 67108864" unfolding BR_MIN_def by code_simp
lemma BR_MIN_HIGH_RESOLUTION_eq: "BR_MIN_HIGH_RESOLUTION = 13421773 / 134217728" unfolding BR_MIN_HIGH_RESOLUTION_def by code_simp
lemma MAX_BR_MULTIPLE_eq: "MAX_BR_MULTIPLE = 1" unfolding MAX_BR_MULTIPLE_def by code_simp
lemma BR_BEST_eq: "BR_BEST = 3 / 2" unfolding BR_BEST_def by code_simp
lemma BR_BALANCED_eq: "BR_BALANCED = 11240735 / 16777216" unfolding BR_BALANCED_def by code_simp
lemma BR_SPEED_eq: "BR_SPEED = 1 / 2" unfolding BR_SPEED_def by code_simp
lemma f32_5_2: "rnd32 (25 / 10) = 5 / 2" by code_simp
lemma f32_3_5: "rnd32 (3 / 5) = 10066330 / 16777216" by code_simp
lemma best_part_eq: "f32_div (3 / 2) (rnd32 (5 / 2)) = 10066330 / 16777216"
proof -
  have half: "rnd32 (5 / 2) = 5 / 2" using f32_5_2 by simp
  show ?thesis using f32_3_5 unfolding f32_div_def half by simp
qed
lemma balanced_part_eq: "f32_div (11240735 / 16777216) 2 = 11240735 / 33554432"
  unfolding f32_div_def by (rule trans [OF rnd32_rep [of _ 11240735 "- 25"]]) (simp_all add: pow2_def)

lemmas ratio_values = BR_MAX_eq BR_MIN_eq BR_MIN_HIGH_RESOLUTION_eq MAX_BR_MULTIPLE_eq BR_BEST_eq BR_BALANCED_eq BR_SPEED_eq
  best_part_eq balanced_part_eq

fun quality_ok :: "quality \<Rightarrow> bool" where
  "quality_ok (Custom v) \<longleftrightarrow> BR_MIN \<le> v \<and> v \<le> BR_MAX \<and> rnd32 v = v"
| "quality_ok _ \<longleftrightarrow> True"

definition fps_ok :: "u32 \<Rightarrow> bool" where
  "fps_ok f \<longleftrightarrow> MIN_FPS \<le> f \<and> f \<le> MAX_FPS"

definition delay_ok :: "user_delay \<Rightarrow> bool" where
  "delay_ok ud \<longleftrightarrow> pred_option fps_ok (ud_fps ud) \<and> length (ud_delay_history ud) \<le> HISTORY_DELAY_LEN + 1
     \<and> length (rc_samples (ud_rtt_calculator ud)) \<le> WINDOW_SAMPLES"

definition user_ok :: "user_data \<Rightarrow> bool" where
  "user_ok u \<longleftrightarrow> pred_option (\<lambda>(_, ql). quality_ok ql) (us_quality u) \<and> pred_option fps_ok (us_custom_fps u)
     \<and> pred_option fps_ok (us_auto_adjust_fps u) \<and> delay_ok (us_delay u)"

definition qos_inv :: "video_qos \<Rightarrow> bool" where
  "qos_inv q \<longleftrightarrow> hm_wf (vq_users q) \<and> hm_all (\<lambda>_. user_ok) (vq_users q) \<and> fps_ok (vq_fps q)
     \<and> BR_MIN_HIGH_RESOLUTION \<le> vq_ratio q \<and> vq_ratio q \<le> BR_MAX"

lemma quality_ratio_bounds: "quality_ok ql \<Longrightarrow> BR_MIN_HIGH_RESOLUTION \<le> quality_ratio ql \<and> quality_ratio ql \<le> BR_MAX"
  by (cases ql) (auto simp: ratio_values)

lemma quality_ratio_f32: "quality_ok ql \<Longrightarrow> rnd32 (quality_ratio ql) = quality_ratio ql"
  by (cases ql) (simp_all add: BR_BEST_def BR_BALANCED_def BR_SPEED_def)

lemma max_by_key_in: "max_by_key f xs = Some x \<Longrightarrow> x \<in> set xs"
proof -
  have "fold (\<lambda>y m. if f m \<le> f y then y else m) ys x \<in> set (x # ys)" for ys x
    by (induction ys arbitrary: x) force+
  then show "max_by_key f xs = Some x \<Longrightarrow> x \<in> set xs" by (fastforce simp: max_by_key_def split: list.splits)
qed

lemma latest_quality_ok: "hm_all (\<lambda>_. user_ok) (vq_users q) \<Longrightarrow> quality_ok (latest_quality q)"
  by (fastforce simp: latest_quality_def hm_all_iff user_ok_def map_filter_def split: option.splits dest!: max_by_key_in)

lemma highest_fps_ok:
  obtains f where "highest_fps q = Some f" and "fps_ok f"
proof -
  have "MIN_FPS \<le> MAX_FPS" by (simp add: MIN_FPS_def MAX_FPS_def)
  then obtain f where "highest_fps q = Some f" unfolding highest_fps_def using clamp_total by blast
  then show ?thesis using clamp_Some that unfolding highest_fps_def fps_ok_def by blast
qed

lemma clamp_upper: "clamp lo hi x = Some y \<Longrightarrow> y \<le> max lo x"
  by (auto simp: clamp_def split: if_splits)

text \<open>The frame rate: always in range, and at most two while a response is overdue.\<close>

lemma adjust_fps_ok:
  obtains f where "adjust_fps env q = Some (q\<lparr>vq_fps := f\<rparr>)" and "fps_ok f" and "highest_fps q = Some hf \<Longrightarrow> f \<le> hf"
    and "list_ex (\<lambda>(_, u). ud_response_delayed (us_delay u)) (vq_users q) \<Longrightarrow> f \<le> 2"
proof -
  obtain h where h: "highest_fps q = Some h" "fps_ok h" by (rule highest_fps_ok)
  define low where "low = (case list_min (map (\<lambda>(_, u). case ud_fps (us_delay u) of Some f \<Rightarrow> f | None \<Rightarrow> INIT_FPS) (vq_users q)) of
    Some f \<Rightarrow> f | None \<Rightarrow> INIT_FPS)"
  define capped where "capped = (if list_ex (\<lambda>(_, u). ud_response_delayed (us_delay u)) (vq_users q) \<and> low > MIN_FPS + 1 then MIN_FPS + 1 else low)"
  define fresh where "fresh = (if (qe_now env - vq_new_user_instant q) div 1000 < 1 \<and> capped > INIT_FPS then INIT_FPS else capped)"
  obtain f where f: "clamp MIN_FPS h fresh = Some f" using clamp_total h(2) unfolding fps_ok_def by blast
  have "adjust_fps env q = map_option (\<lambda>f. q\<lparr>vq_fps := f\<rparr>) (clamp MIN_FPS h fresh)"
    unfolding adjust_fps_def fresh_def capped_def low_def Let_def h(1) by (simp only: option.case)
  then have run: "adjust_fps env q = Some (q\<lparr>vq_fps := f\<rparr>)" by (simp only: f option.map)
  have "f \<le> h" "MIN_FPS \<le> f" using clamp_Some [OF f] by auto
  then have "fps_ok f" using h(2) by (auto simp: fps_ok_def)
  moreover have "f \<le> 2" if "list_ex (\<lambda>(_, u). ud_response_delayed (us_delay u)) (vq_users q)"
  proof -
    have "capped \<le> 2" using that by (auto simp: capped_def MIN_FPS_def not_less)
    moreover have "fresh \<le> capped" by (auto simp: fresh_def)
    ultimately have "max MIN_FPS fresh \<le> 2" by (simp add: MIN_FPS_def)
    with clamp_upper [OF f] show ?thesis by (rule order.trans)
  qed
  ultimately show ?thesis using that run \<open>f \<le> h\<close> h(1) by auto
qed

lemma min_ratio_bounds: "quality_ok ql \<Longrightarrow> BR_MIN_HIGH_RESOLUTION \<le> min_ratio ql r \<and> min_ratio ql r \<le> quality_ratio ql"
  by (cases ql) (auto simp: min_ratio_def Let_def ratio_values max_def min_def split: option.splits)

lemma max_ratio_eq: "quality_ok ql \<Longrightarrow> f32_mul (quality_ratio ql) MAX_BR_MULTIPLE = quality_ratio ql"
  by (simp add: f32_mul_def MAX_BR_MULTIPLE_eq quality_ratio_f32)

text \<open>The ratio: the limits are in order, so \<open>clamp\<close> does not panic.\<close>

lemma adjust_ratio_ok:
  assumes "qos_inv q"
  obtains r t where "adjust_ratio env dyn q = Some (q\<lparr>vq_ratio := r, vq_adjust_ratio_instant := t\<rparr>)"
    and "BR_MIN_HIGH_RESOLUTION \<le> r" and "r \<le> BR_MAX"
    and "in_vbr_state q \<Longrightarrow> vq_users q \<noteq> [] \<Longrightarrow> r \<le> quality_ratio (latest_quality q)"
proof (cases "in_vbr_state q \<and> vq_users q \<noteq> []")
  case False
  then have "adjust_ratio env dyn q = Some (q\<lparr>vq_ratio := vq_ratio q, vq_adjust_ratio_instant := vq_adjust_ratio_instant q\<rparr>)"
    by (auto simp: adjust_ratio_def list_max_def)
  then show ?thesis by (rule that) (use assms False in \<open>auto simp: qos_inv_def\<close>)
next
  case True
  have ql: "quality_ok (latest_quality q)" using assms by (simp add: qos_inv_def latest_quality_ok)
  have "\<exists>r m x. adjust_ratio env dyn q = Some (q\<lparr>vq_ratio := r, vq_adjust_ratio_instant := qe_now env\<rparr>)
      \<and> clamp (min_ratio (latest_quality q) m) (quality_ratio (latest_quality q)) x = Some r"
    using True min_ratio_bounds [OF ql]
    by (auto simp: adjust_ratio_def list_max_def Let_def max_ratio_eq [OF ql] clamp_def split: list.splits)
  then obtain r m x where r: "adjust_ratio env dyn q = Some (q\<lparr>vq_ratio := r, vq_adjust_ratio_instant := qe_now env\<rparr>)"
    "min_ratio (latest_quality q) m \<le> r" "r \<le> quality_ratio (latest_quality q)"
    by (auto dest: clamp_Some)
  then show ?thesis
    using that [OF r(1)] min_ratio_bounds [OF ql, of m] quality_ratio_bounds [OF ql] order.trans by blast
qed

lemma add_delay_ok: "delay_ok ud \<Longrightarrow> delay_ok (add_delay d ud)"
  by (auto simp: delay_ok_def add_delay_def rtt_update_def Let_def HISTORY_DELAY_LEN_def WINDOW_SAMPLES_def)

lemma delay_update_form:
  "\<exists>fps' quick incr. delay_update hf min_fps normal_fps fps d ud =
     map_option (\<lambda>f. (add_delay (max d 10) ud)\<lparr>ud_fps := Some f, ud_quick_increase_fps_count := quick, ud_increase_fps_count := incr\<rparr>)
       (clamp MIN_FPS hf fps')"
  unfolding delay_update_def Let_def by (simp only: split: prod.split) blast

lemma delay_update_ok:
  assumes "fps_ok hf" and "delay_ok ud"
  obtains ud' f where "delay_update hf min_fps normal_fps fps d ud = Some ud'" and "delay_ok ud'" and "ud_fps ud' = Some f" and "f \<le> hf"
proof -
  obtain fps' quick incr where form: "delay_update hf min_fps normal_fps fps d ud =
     map_option (\<lambda>f. (add_delay (max d 10) ud)\<lparr>ud_fps := Some f, ud_quick_increase_fps_count := quick, ud_increase_fps_count := incr\<rparr>)
       (clamp MIN_FPS hf fps')"
    using delay_update_form by blast
  have "MIN_FPS \<le> hf" using assms(1) by (simp add: fps_ok_def)
  then obtain f where f: "clamp MIN_FPS hf fps' = Some f" using clamp_total by blast
  have "fps_ok f" "f \<le> hf" using clamp_Some [OF f] assms(1) by (auto simp: fps_ok_def)
  then show ?thesis
    using that form f add_delay_ok [OF assms(2), of "max d 10"] by (simp add: delay_ok_def)
qed

text \<open>Every call succeeds and keeps the invariant.\<close>

lemma qos_inv_users:
  "qos_inv q \<Longrightarrow> (\<And>u. user_ok u \<Longrightarrow> user_ok (f u)) \<Longrightarrow> qos_inv (q\<lparr>vq_users := hm_modify i f (vq_users q)\<rparr>)"
  by (auto simp: qos_inv_def intro: hm_all_modify)

lemma qos_inv_fps: "qos_inv q \<Longrightarrow> fps_ok f \<Longrightarrow> qos_inv (q\<lparr>vq_fps := f\<rparr>)"
  by (simp add: qos_inv_def)

lemma user_default_ok: "user_ok user_default"
  by (simp add: user_ok_def user_default_def delay_ok_def delay_default_def rtt_default_def)

lemma qos_default_inv: "qos_inv (qos_default now)"
  by (simp add: qos_inv_def qos_default_def fps_ok_def MIN_FPS_def MAX_FPS_def FPS_def ratio_values)

lemma convert_quality_ok: "\<exists>ql. convert_quality v = Some ql \<and> quality_ok ql"
proof -
  let ?b = "f32_div (f32_of_u32 (((signed_drop_bit 8 v) AND 0xFFF) * 2)) 100"
  have "BR_MIN \<le> BR_MAX" by (simp add: ratio_values)
  then obtain y where y: "clamp BR_MIN BR_MAX ?b = Some y" using clamp_total by blast
  moreover have "rnd32 y = y"
    using y by (auto simp: clamp_def f32_div_def BR_MIN_def BR_MAX_def split: if_splits)
  ultimately have "map_option Custom (clamp BR_MIN BR_MAX ?b) = Some (Custom y) \<and> quality_ok (Custom y)"
    using clamp_Some [OF y] by simp
  then show ?thesis unfolding convert_quality_def Let_def by (simp del: map_option_eq_Some)
qed

lemma adjust_fps_inv: "qos_inv q \<Longrightarrow> \<exists>q'. adjust_fps env q = Some q' \<and> qos_inv q'"
  by (metis adjust_fps_ok qos_inv_fps)

lemma adjust_ratio_inv:
  assumes "qos_inv q"
  shows "\<exists>q'. adjust_ratio env dyn q = Some q' \<and> qos_inv q'"
proof -
  obtain r t where "adjust_ratio env dyn q = Some (q\<lparr>vq_ratio := r, vq_adjust_ratio_instant := t\<rparr>)"
    "BR_MIN_HIGH_RESOLUTION \<le> r" "r \<le> BR_MAX" by (rule adjust_ratio_ok [OF assms])
  then show ?thesis using assms by (auto simp: qos_inv_def)
qed

lemma user_network_delay_inv:
  assumes "qos_inv q"
  shows "\<exists>q'. user_network_delay env i d q = Some q' \<and> qos_inv q'"
proof -
  obtain hf where hf: "highest_fps q = Some hf" "fps_ok hf" by (rule highest_fps_ok)
  obtain mf nf where t: "fps_targets (quality_ratio (latest_quality q)) = (mf, nf)" by fastforce
  show ?thesis
  proof (cases "hm_get (vq_users q) i")
    case None
    then show ?thesis using adjust_fps_inv [OF assms] hf t by (simp add: user_network_delay_def)
  next
    case (Some u)
    then have "user_ok u" using assms by (auto simp: qos_inv_def dest: hm_all_get)
    then have "delay_ok (us_delay u)" by (simp add: user_ok_def)
    from hf(2) this obtain ud f where ud: "delay_update hf mf nf (vq_fps q) d (us_delay u) = Some ud" "delay_ok ud"
      by (rule delay_update_ok)
    have "qos_inv (q\<lparr>vq_users := hm_modify i (\<lambda>u. u\<lparr>us_delay := ud\<rparr>) (vq_users q)\<rparr>)"
      by (rule qos_inv_users [OF assms]) (simp add: user_ok_def ud(2))
    from adjust_fps_inv [OF this] obtain q1 where
      q1: "adjust_fps env (q\<lparr>vq_users := hm_modify i (\<lambda>u. u\<lparr>us_delay := ud\<rparr>) (vq_users q)\<rparr>) = Some q1" "qos_inv q1" by blast
    show ?thesis
      using adjust_ratio_inv [OF q1(2)] q1 hf(1) t Some ud(1) by (simp add: user_network_delay_def)
  qed
qed

lemma user_delay_response_elapsed_inv:
  assumes "qos_inv q"
  shows "\<exists>q'. user_delay_response_elapsed env i e q = Some q' \<and> qos_inv q'"
proof -
  let ?f = "\<lambda>u. u\<lparr>us_delay := (let ud = (us_delay u)\<lparr>ud_response_delayed := e > 2000\<rparr> in if e > 2000 then add_delay (ucast e) ud else ud)\<rparr>"
  have "user_ok (?f u)" if "user_ok u" for u
    using that add_delay_ok [of "(us_delay u)\<lparr>ud_response_delayed := True\<rparr>" "ucast e"]
    by (auto simp: user_ok_def Let_def delay_ok_def)
  then have inv: "qos_inv (q\<lparr>vq_users := hm_modify i ?f (vq_users q)\<rparr>)" by (rule qos_inv_users [OF assms])
  have "user_delay_response_elapsed env i e q =
      (if \<not> hm_contains (vq_users q) i then Some q
       else if e > 2000 then adjust_fps env (q\<lparr>vq_users := hm_modify i ?f (vq_users q)\<rparr>)
       else Some (q\<lparr>vq_users := hm_modify i ?f (vq_users q)\<rparr>))"
    unfolding user_delay_response_elapsed_def Let_def by (rule refl)
  then show ?thesis using adjust_fps_inv [OF inv, of env] inv assms by (simp only: split: if_split) blast
qed

lemma update_display_data_inv:
  assumes "qos_inv q"
  shows "\<exists>q'. update_display_data env n c q = Some q' \<and> qos_inv q'"
proof -
  let ?q = "q\<lparr>vq_displays := hm_modify n (\<lambda>d. d\<lparr>dd_send_counter := dd_send_counter d + c\<rparr>) (vq_displays q)\<rparr>"
  have "qos_inv ?q" using assms by (simp add: qos_inv_def)
  from adjust_fps_inv [OF this] obtain q1 where q1: "adjust_fps env ?q = Some q1" "qos_inv q1" by blast
  then have "qos_inv (q1\<lparr>vq_displays := ds\<rparr>)" "qos_inv (q1\<lparr>vq_ratio := quality_ratio (latest_quality q1)\<rparr>)" for ds
    using quality_ratio_bounds [OF latest_quality_ok, of q1] by (auto simp: qos_inv_def)
  then show ?thesis using adjust_ratio_inv q1 by (simp add: update_display_data_def Let_def)
qed

lemma qos_step_inv:
  assumes "qos_inv q"
  shows "\<exists>q'. qos_step op q = Some q' \<and> qos_inv q'"
proof (cases op)
  case (QOpen env i)
  then show ?thesis using assms user_default_ok by (auto simp: on_connection_open_def qos_inv_def intro!: hm_all_insert)
next
  case (QClose env i)
  then show ?thesis using assms qos_default_inv by (auto simp: on_connection_close_def qos_inv_def Let_def)
next
  case (QCustomFps i f)
  then show ?thesis
    using assms qos_inv_users [OF assms, of "\<lambda>u. u\<lparr>us_custom_fps := Some f\<rparr>" i]
    by (auto simp: user_custom_fps_def user_ok_def fps_ok_def not_less)
next
  case (QAutoFps i f)
  then show ?thesis
    using assms qos_inv_users [OF assms, of "\<lambda>u. u\<lparr>us_auto_adjust_fps := Some f\<rparr>" i]
    by (auto simp: user_auto_adjust_fps_def user_ok_def fps_ok_def not_less)
next
  case (QQuality env i v)
  obtain ql where ql: "convert_quality v = Some ql" "quality_ok ql" using convert_quality_ok by blast
  let ?q = "q\<lparr>vq_users := hm_modify i (\<lambda>u. u\<lparr>us_quality := Some (qe_time env, ql)\<rparr>) (vq_users q)\<rparr>"
  have "qos_inv ?q" by (rule qos_inv_users [OF assms]) (use ql in \<open>simp add: user_ok_def\<close>)
  then have "qos_inv (?q\<lparr>vq_ratio := quality_ratio (latest_quality ?q)\<rparr>)"
    using quality_ratio_bounds [OF latest_quality_ok, of ?q] by (simp add: qos_inv_def)
  with QQuality ql assms show ?thesis by (simp add: user_image_quality_def Let_def)
next
  case (QRecord i v)
  then show ?thesis using qos_inv_users [OF assms, of "\<lambda>u. u\<lparr>us_record := v\<rparr>" i] by (auto simp: user_record_def user_ok_def)
next
  case QRatio
  then show ?thesis using assms by (auto simp: qos_ratio_def qos_inv_def Let_def not_less)
qed (use assms user_network_delay_inv user_delay_response_elapsed_inv update_display_data_inv
    in \<open>auto simp: new_display_def remove_display_def set_support_changing_quality_def store_bitrate_def qos_inv_def\<close>)

interpretation vq: op_total qos_step qos_inv
  by unfold_locales (rule qos_step_inv)

subsection \<open>Properties\<close>

text \<open>
  C18. Quality control never panics and stays in range: from the default controller, every sequence of calls
  (users, delays, image qualities and displays in any order and with any values) returns, and the controller
  then asks for between 1 and 120 frames per second and for a ratio between 0.1 and 40; the accessors never
  need their fallbacks.
\<close>

theorem qos_total_in_range:
  "\<exists>q. run_opt qos_step ops (qos_default now) = Some q \<and> qos_fps q = vq_fps q \<and> 1 \<le> qos_fps q \<and> qos_fps q \<le> 120
     \<and> qos_ratio q = (q, vq_ratio q) \<and> BR_MIN_HIGH_RESOLUTION \<le> vq_ratio q \<and> vq_ratio q \<le> 40"
proof -
  obtain q where q: "run_opt qos_step ops (qos_default now) = Some q" "qos_inv q"
    using vq.run_total [OF qos_default_inv] by blast
  then have "qos_fps q = vq_fps q" "qos_ratio q = (q, vq_ratio q)"
    by (simp_all add: qos_inv_def fps_ok_def qos_fps_def qos_ratio_def Let_def not_less)
  with q show ?thesis by (auto simp: qos_inv_def fps_ok_def MIN_FPS_def MAX_FPS_def BR_MAX_eq)
qed

lemma fold_min_le: "fold min xs (x :: 'a::linorder) \<le> x \<and> (\<forall>y \<in> set xs. fold min xs x \<le> y)"
proof (induction xs arbitrary: x)
  case (Cons y xs)
  from Cons.IH [of "min y x"] show ?case by auto
qed simp

lemma list_min_le: "list_min xs = Some m \<Longrightarrow> y \<in> set xs \<Longrightarrow> m \<le> y"
  using fold_min_le by (auto simp: list_min_def split: list.splits)

lemma list_min_None: "list_min xs = None \<longleftrightarrow> xs = []"
  by (simp add: list_min_def split: list.splits)

lemma user_fps_le:
  assumes "user_ok u"
  shows "fps_ok (user_fps u)" and "us_custom_fps u = Some c \<Longrightarrow> user_fps u \<le> c"
    and "us_auto_adjust_fps u = Some c \<Longrightarrow> user_fps u \<le> c"
  using assms by (auto simp: user_ok_def user_fps_def fps_ok_def FPS_def MIN_FPS_def MAX_FPS_def Let_def not_less split: option.splits if_splits)

lemma highest_fps_le:
  assumes "highest_fps q = Some hf" and "(i, u) \<in> set (vq_users q)" and "user_ok u"
  shows "hf \<le> user_fps u"
proof -
  let ?fs = "filter (\<lambda>f. f \<ge> MIN_FPS) (map (\<lambda>(_, u). user_fps u) (vq_users q))"
  have mem: "user_fps u \<in> set ?fs" using assms(2) user_fps_le(1) [OF assms(3)] by (force simp: fps_ok_def)
  then have "list_min ?fs \<noteq> None" unfolding list_min_None by (metis empty_iff empty_set)
  then obtain m where m: "list_min ?fs = Some m" by blast
  then have "clamp MIN_FPS MAX_FPS m = Some hf" using assms(1) by (simp add: highest_fps_def)
  from clamp_upper [OF this] list_min_le [OF m mem] user_fps_le(1) [OF assms(3)] show ?thesis
    by (auto simp: fps_ok_def max_def split: if_splits)
qed

text \<open>
  The frame rate respects every user: after any calls, each computation of the frame rate leaves it at or
  below the limits that every connected user has set, and at most two frames per second while the answer of
  some user is overdue.
\<close>

theorem qos_fps_respects_users:
  assumes "run_opt qos_step ops (qos_default now) = Some q" and "adjust_fps env q = Some q'" and "(i, u) \<in> set (vq_users q)"
  shows "(\<forall>c. us_custom_fps u = Some c \<longrightarrow> vq_fps q' \<le> c) \<and> (\<forall>c. us_auto_adjust_fps u = Some c \<longrightarrow> vq_fps q' \<le> c)
    \<and> (ud_response_delayed (us_delay u) \<longrightarrow> vq_fps q' \<le> 2)"
proof -
  have "qos_inv q" using vq.run_inv_at [OF qos_default_inv assms(1)] .
  then have u: "user_ok u" using assms(3) by (auto simp: qos_inv_def hm_all_iff)
  obtain hf where hf: "highest_fps q = Some hf" by (rule highest_fps_ok)
  obtain f where f: "adjust_fps env q = Some (q\<lparr>vq_fps := f\<rparr>)" "f \<le> hf"
    "list_ex (\<lambda>(_, u). ud_response_delayed (us_delay u)) (vq_users q) \<Longrightarrow> f \<le> 2"
    using adjust_fps_ok [of env q hf] hf by metis
  have "f \<le> user_fps u" using f(2) highest_fps_le [OF hf assms(3) u] by (rule order.trans)
  then have "us_custom_fps u = Some c \<Longrightarrow> f \<le> c" "us_auto_adjust_fps u = Some c \<Longrightarrow> f \<le> c" for c
    using user_fps_le(2,3) [OF u] order.trans by blast+
  moreover have "ud_response_delayed (us_delay u) \<Longrightarrow> f \<le> 2" using f(3) assms(3) by (auto simp: list_ex_iff)
  ultimately show ?thesis using f(1) assms(2) by auto
qed

definition qos_env0 :: qos_env where
  "qos_env0 = \<lparr>qe_now = 5000, qe_time = 0, qe_enable_abr = [], qe_linux = True\<rparr>"

theorem qos_fps_respects_users_witness:
  "\<exists>q q'. run_opt qos_step [QOpen qos_env0 1, QCustomFps 1 10] (qos_default 0) = Some q \<and> adjust_fps qos_env0 q = Some q' \<and> vq_fps q' \<le> 10"
proof -
  let ?ops = "[QOpen qos_env0 1, QCustomFps 1 10]" and ?u = "user_default\<lparr>us_custom_fps := Some 10\<rparr>"
  obtain q where q: "run_opt qos_step ?ops (qos_default 0) = Some q" "qos_inv q" using vq.run_total [OF qos_default_inv] by blast
  obtain q' where q': "adjust_fps qos_env0 q = Some q'" using adjust_fps_inv [OF q(2)] by blast
  have "vq_users q = [(1, ?u)]"
    using q(1) by (auto simp: on_connection_open_def user_custom_fps_def qos_default_def hm_insert_def hm_modify_def MIN_FPS_def MAX_FPS_def)
  then show ?thesis using qos_fps_respects_users [OF q(1) q', of 1 ?u] q q' by auto
qed

subsection \<open>The round-trip estimate\<close>

definition last_n :: "nat \<Rightarrow> 'a list \<Rightarrow> 'a list" where
  "last_n n xs = drop (length xs - n) xs"

text \<open>The estimate in integers: half way between the least delay and the least of the last sixty.\<close>

definition rtt_spec :: "u32 list \<Rightarrow> u32 option" where
  "rtt_spec ds =
    (if length ds < 10 then None
     else if length ds < 60 then list_min ds
     else case (list_min ds, list_min (last_n 60 ds)) of (Some m, Some w) \<Rightarrow> Some ((m + w) div 2) | _ \<Rightarrow> None)"

lemma list_min_snoc: "list_min (xs @ [x]) = Some (case list_min xs of Some m \<Rightarrow> min x m | None \<Rightarrow> x)"
  by (simp add: list_min_def split: list.split)

lemma last_n_snoc: "0 < n \<Longrightarrow> last_n n (xs @ [x]) = (if length (last_n n xs) \<ge> n then tl (last_n n xs) else last_n n xs) @ [x]"
  by (auto simp: last_n_def tl_drop drop_Suc Suc_diff_le)

lemma list_min_in: "list_min xs = Some m \<Longrightarrow> m \<in> set xs"
proof -
  have "fold min ys (y :: 'a) \<in> set (y # ys)" for ys y
    by (induction ys arbitrary: y) (force simp: min_def)+
  then show "list_min xs = Some m \<Longrightarrow> m \<in> set xs" by (fastforce simp: list_min_def split: list.splits)
qed

lemma ALPHA_eq: "ALPHA = 1 / 2" unfolding ALPHA_def by code_simp

lemma rnd32_1_2: "rnd32 (1 / 2) = 1 / 2"
  using rnd32_half [of 1] by simp

lemma smoothed_exact:
  assumes "m < 2 ^ 23" and "w < 2 ^ 23"
  shows "u32_of_f32 (f32_add (f32_mul (rnd32 (1 - ALPHA)) (f32_of_u32 m)) (f32_mul ALPHA (f32_of_u32 w))) = (m + w) div 2"
proof -
  have b: "unat m < 2 ^ 23" "unat w < 2 ^ 23" using assms by (simp_all add: word_less_nat_alt)
  have h: "f32_mul (1 / 2) (f32_of_u32 x) = of_nat (unat x) / 2" if "unat x < 2 ^ 23" for x
    using rnd32_nat [OF that] rnd32_half [of "unat x"] that by (simp add: f32_mul_def f32_of_u32_def)
  have a: "rnd32 (1 - 1 / 2) = 1 / 2" by (simp add: rnd32_1_2)
  have sum: "f32_add (f32_mul (rnd32 (1 - ALPHA)) (f32_of_u32 m)) (f32_mul ALPHA (f32_of_u32 w)) = of_nat (unat m + unat w) / 2"
    unfolding ALPHA_eq a h [OF b(1)] h [OF b(2)] f32_add_def
    using rnd32_half [of "unat m + unat w"] b by (simp add: add_divide_distrib)
  have u: "u32_of_f32 (of_nat k / 2) = of_nat (k div 2)" if "k < 2 ^ 24" for k
  proof -
    have "\<lfloor>of_nat k / 2 :: rat\<rfloor> = int (k div 2)" using floor_divide_of_nat_eq [of k 2, where 'a = rat] by simp
    moreover have "of_nat k < (of_nat (2 ^ 24) :: rat)" using that by (simp only: of_nat_less_iff)
    ultimately show ?thesis by (auto simp: u32_of_f32_def)
  qed
  have d: "(m + w) div 2 = of_nat ((unat m + unat w) div 2)"
    using b by (simp add: word_arith_nat_div unat_word_ariths)
  show ?thesis unfolding sum d by (rule u) (use b in simp)
qed

lemma rtt_fold:
  assumes "\<forall>d \<in> set ds. d < 2 ^ 23"
  shows "rc_min_rtt (fold rtt_update ds rtt_default) = list_min ds
    \<and> rc_samples (fold rtt_update ds rtt_default) = last_n 60 ds
    \<and> rc_smoothed_rtt (fold rtt_update ds rtt_default) = (if length ds < 60 then None else rtt_spec ds)"
  using assms
proof (induction ds rule: rev_induct)
  case Nil
  then show ?case by (simp add: rtt_default_def list_min_def last_n_def)
next
  case (snoc d ds)
  let ?rc = "fold rtt_update ds rtt_default"
  have ih: "rc_min_rtt ?rc = list_min ds" "rc_samples ?rc = last_n 60 ds" "rc_smoothed_rtt ?rc = (if length ds < 60 then None else rtt_spec ds)"
    using snoc by simp_all
  have samples: "rc_samples (rtt_update d ?rc) = last_n 60 (ds @ [d])"
    using last_n_snoc [of 60 ds d] ih(2) by (simp add: rtt_update_def Let_def WINDOW_SAMPLES_def)
  have mins: "rc_min_rtt (rtt_update d ?rc) = list_min (ds @ [d])"
    using ih(1) by (auto simp: rtt_update_def Let_def list_min_snoc min_def split: option.splits)
  obtain m w where mw: "list_min (ds @ [d]) = Some m" "list_min (last_n 60 (ds @ [d])) = Some w"
    using list_min_None [of "last_n 60 (ds @ [d])"] by (auto simp: list_min_snoc last_n_def)
  have "m < 2 ^ 23" "w < 2 ^ 23"
    using list_min_in [OF mw(1)] list_min_in [OF mw(2)] snoc.prems by (auto simp: last_n_def dest: in_set_dropD)
  from smoothed_exact [OF this] mw samples mins ih(3)
  have "rc_smoothed_rtt (rtt_update d ?rc) = (if length (ds @ [d]) < 60 then None else rtt_spec (ds @ [d]))"
    by (auto simp: rtt_update_def Let_def WINDOW_SAMPLES_def rtt_spec_def last_n_def)
  with samples mins show ?case by simp
qed

text \<open>
  The estimate of the round-trip time equals its integer specification: for delays below two hours the
  floating-point smoothing is exact; nothing is estimated before the tenth sample, the least delay is used
  before the sixtieth, and afterwards the mean of the least delay ever seen and the least of the last sixty.
\<close>

theorem rtt_estimate_spec:
  assumes "\<forall>d \<in> set ds. d < 2 ^ 23"
  shows "get_rtt (fold rtt_update ds rtt_default) = rtt_spec ds"
proof (cases "length ds < 60")
  case True
  then show ?thesis using rtt_fold [OF assms] by (simp add: get_rtt_def rtt_spec_def last_n_def MIN_SAMPLES_def)
next
  case False
  then have "list_min ds \<noteq> None" "list_min (last_n 60 ds) \<noteq> None" unfolding list_min_None by (auto simp: last_n_def)
  then obtain x where "rtt_spec ds = Some x" using False by (auto simp: rtt_spec_def)
  then show ?thesis using rtt_fold [OF assms] False by (simp add: get_rtt_def)
qed

theorem rtt_estimate_spec_witness: "get_rtt (fold rtt_update [40, 42, 38, 41, 40, 44, 39, 40, 90, 40] rtt_default) = Some 38"
  using rtt_estimate_spec [of "[40, 42, 38, 41, 40, 44, 39, 40, 90, 40]"] by (simp add: rtt_spec_def list_min_def)

subsection \<open>Bands of delay\<close>

lemma fps_targets_cases: "fps_targets r = (mf, nf) \<Longrightarrow> mf \<in> {8, 10, 12}"
  by (auto simp: fps_targets_def split: if_splits)

lemma dividend_bound:
  assumes "mf \<in> {8, 10, 12 :: u32}" and "150 \<le> avg"
  shows "DELAY_THRESHOLD_150MS * mf div avg \<le> mf"
proof -
  have "unat (DELAY_THRESHOLD_150MS * mf) = 150 * unat mf" using assms(1) by (auto simp: DELAY_THRESHOLD_150MS_def)
  moreover have "150 \<le> unat avg" using assms(2) by (simp add: word_le_nat_alt)
  then have "150 * unat mf div unat avg \<le> 150 * unat mf div 150" by (intro div_le_mono2) simp_all
  ultimately show ?thesis by (simp add: word_le_nat_alt unat_div)
qed

lemma delay_fps_quick:
  assumes "avg < 50"
  obtains s where "s \<in> {0, 1, 5}" and "fst (delay_fps mf nf old avg quick fps) = max mf (fps + s)"
proof -
  have "fst (delay_fps mf nf old avg quick fps) = max mf (fps + (if quick + 1 \<ge> 3 then 5 else if fps < nf then 1 else 0))"
    using assms by (cases "quick + 1 \<ge> 3") (simp_all add: delay_fps_def)
  then show ?thesis by (rule that [rotated]) simp
qed

lemma delay_fps_low:
  assumes "avg < 150" and "fps \<le> 120" and "mf \<in> {8, 10, 12}"
  shows "mf \<le> fst (delay_fps mf nf old avg quick fps) \<and> fst (delay_fps mf nf old avg quick fps) \<le> 125"
proof -
  have "mf \<le> 125" using assms(3) by auto
  moreover have "fps + 5 \<le> 125" "fps + 1 \<le> 125" "fps \<le> 125"
    using assms(2) by (simp_all add: word_le_nat_alt unat_word_ariths)
  ultimately have m: "mf \<le> max mf (fps + s) \<and> max mf (fps + s) \<le> 125" if "s \<in> {0, 1, 5}" for s
    using that by (auto simp only: insert_iff empty_iff add_0_right max.cobounded1 max.bounded_iff)
  consider "avg < 50" | "\<not> avg < 50" "avg < 100" | "\<not> avg < 50" "\<not> avg < 100" by blast
  then obtain s where "s \<in> {0, 1, 5}" "fst (delay_fps mf nf old avg quick fps) = max mf (fps + s)"
  proof cases
    case 1
    then show ?thesis by (rule delay_fps_quick) (rule that)
  next
    case 2
    then have "fst (delay_fps mf nf old avg quick fps) = max mf (fps + (if avg < old then if fps < nf then 1 else 0 else 0))"
      by (simp add: delay_fps_def)
    then show ?thesis by (rule that [rotated]) simp
  next
    case 3
    then show ?thesis using that [of 0] assms(1) by (simp add: delay_fps_def DELAY_THRESHOLD_150MS_def)
  qed
  with m show ?thesis by simp
qed

lemma delay_fps_mid: "150 \<le> avg \<Longrightarrow> avg < 200 \<Longrightarrow> mf \<le> fst (delay_fps mf nf old avg quick fps)"
  by (auto simp: delay_fps_def Let_def DELAY_THRESHOLD_150MS_def split: if_splits)

lemma delay_fps_high:
  assumes "200 \<le> avg" and "mf \<in> {8, 10, 12}"
  shows "fst (delay_fps mf nf old avg quick fps) \<le> mf"
proof -
  have "\<not> avg < 50" "\<not> avg < 100" "\<not> avg < DELAY_THRESHOLD_150MS" "\<not> avg < 200" "150 \<le> avg"
    using assms(1) by (simp_all add: word_less_nat_alt word_le_nat_alt DELAY_THRESHOLD_150MS_def)
  then have "\<exists>x. fst (delay_fps mf nf old avg quick fps) = (if avg < 300 then min mf x
      else if avg < 600 then DELAY_THRESHOLD_150MS * mf div avg else min (DELAY_THRESHOLD_150MS * mf div avg) x)"
    unfolding delay_fps_def Let_def by (simp only: if_False fst_conv) blast
  with dividend_bound [OF assms(2) \<open>150 \<le> avg\<close>] show ?thesis by (auto intro: min.coboundedI1)
qed

text \<open>The update in terms of \<open>delay_fps\<close>; only a good sample can add a frame.\<close>

lemma delay_update_fps:
  assumes "delay_update hf mf nf fps d ud = Some ud'" and "ud_fps ud' = Some f"
  shows "\<exists>old quick x quick' b. delay_fps mf nf old (max (avg_delay (add_delay (max d 10) ud)) 10) quick fps = (x, quick')
    \<and> clamp MIN_FPS hf (if b then x + 1 else x) = Some f \<and> (b \<longrightarrow> max (avg_delay (add_delay (max d 10) ud)) 10 < DELAY_THRESHOLD_150MS)"
proof -
  let ?ud = "add_delay (max d 10) ud"
  let ?avg = "max (avg_delay ?ud) 10"
  obtain x quick' where x: "delay_fps mf nf (avg_delay ud) ?avg (ud_quick_increase_fps_count ?ud) fps = (x, quick')"
    by fastforce
  define b where "b = (?avg < DELAY_THRESHOLD_150MS \<and> ud_increase_fps_count ?ud + 1 \<ge> 3)"
  have "clamp MIN_FPS hf (if b then x + 1 else x) = Some f"
    using assms x by (auto simp: delay_update_def Let_def b_def split: if_splits)
  then show ?thesis using x unfolding b_def by blast
qed

text \<open>
  How the frame rate reacts to the delay (the average less the round-trip time, at least ten milliseconds):
  below 200 milliseconds a user gets at least the minimum rate of the image quality (or what the users allow),
  from 200 milliseconds on at most that minimum. Between 150 and 200 milliseconds the rate is thus not below
  the minimum, although the description of the module says so.
\<close>

theorem delay_bands:
  assumes "fps_targets r = (mf, nf)" and "fps_ok fps" and "fps_ok hf"
    and "delay_update hf mf nf fps d ud = Some ud'" and "ud_fps ud' = Some f"
  shows "if max (avg_delay (add_delay (max d 10) ud)) 10 < 200 then min mf hf \<le> f else f \<le> mf"
proof -
  define avg where "avg = max (avg_delay (add_delay (max d 10) ud)) 10"
  obtain old quick x quick' b where x: "delay_fps mf nf old avg quick fps = (x, quick')"
    "clamp MIN_FPS hf (if b then x + 1 else x) = Some f" "b \<Longrightarrow> avg < 150"
    using delay_update_fps [OF assms(4,5)] unfolding avg_def DELAY_THRESHOLD_150MS_def by blast
  have mf: "mf \<in> {8, 10, 12}" by (rule fps_targets_cases [OF assms(1)])
  then have "MIN_FPS \<le> mf" by (auto simp: MIN_FPS_def)
  have "mf \<le> (if b then x + 1 else x)" if "avg < 200"
  proof (cases "avg < 150")
    case True
    then have "mf \<le> x" "x \<le> 125" using delay_fps_low [OF True _ mf, of fps nf old quick] assms(2) x(1) by (simp_all add: fps_ok_def MAX_FPS_def)
    moreover have "x \<le> x + 1" if "x \<le> 125" using that by (simp add: word_le_nat_alt unat_word_ariths)
    ultimately show ?thesis using order.trans by auto
  next
    case False
    then show ?thesis using delay_fps_mid [of avg mf nf old quick fps] that x by (auto simp: not_less)
  qed
  moreover have "(if b then x + 1 else x) \<le> mf" if "\<not> avg < 200"
  proof -
    have "\<not> b" using x(3) that by (auto simp: word_less_nat_alt)
    then show ?thesis using delay_fps_high [OF _ mf, of avg nf old quick fps] that x by (simp add: not_less)
  qed
  ultimately show ?thesis
    using x(2) \<open>MIN_FPS \<le> mf\<close> unfolding avg_def [symmetric] by (auto simp: clamp_def min_def split: if_splits)
qed

theorem delay_bands_witness:
  "\<exists>ud f. delay_update 30 10 20 30 170 delay_default = Some ud \<and> ud_fps ud = Some f \<and> 10 \<le> f"
proof -
  have ok: "fps_ok 30" "delay_ok delay_default"
    by (simp_all add: fps_ok_def MIN_FPS_def MAX_FPS_def delay_ok_def delay_default_def rtt_default_def)
  then obtain ud f where u: "delay_update 30 10 20 30 170 delay_default = Some ud" "ud_fps ud = Some f" by (rule delay_update_ok)
  have t: "fps_targets BR_BALANCED = (10, 20)" by (simp add: fps_targets_def ratio_values)
  have "avg_delay (add_delay (max 170 10) delay_default) = 170"
    by (simp add: avg_delay_def add_delay_def delay_default_def rtt_default_def rtt_update_def get_rtt_def HISTORY_DELAY_LEN_def
        WINDOW_SAMPLES_def MIN_SAMPLES_def Let_def)
  then show ?thesis using delay_bands [OF t ok(1) ok(1) u] u by simp
qed

subsection \<open>Recovery\<close>

lemma short_list_cases: "xs \<noteq> [] \<Longrightarrow> length xs \<le> 3 \<Longrightarrow> (\<exists>a. xs = [a]) \<or> (\<exists>a b. xs = [a, b]) \<or> (\<exists>a b c. xs = [a, b, c])"
  by (cases xs rule: remdups_adj.cases; cases "tl (tl xs)") auto

lemma avg_delay_good:
  assumes "ud_delay_history ud \<noteq> []" and "length (ud_delay_history ud) \<le> 3" and "\<forall>d \<in> set (ud_delay_history ud). d < 50"
  shows "avg_delay ud < 50"
proof -
  let ?h = "ud_delay_history ud"
  have "sum_list ?h div of_nat (length ?h) < 50"
    using short_list_cases [OF assms(1,2)] assms(3)
    by (auto simp: word_less_nat_alt unat_div unat_word_ariths)
  moreover have "x - r \<le> x" if "r < x" for x r :: u32 using that by (simp add: word_le_nat_alt word_less_nat_alt unat_sub_if')
  ultimately have "x - r < 50" if "r < x" "x = sum_list ?h div of_nat (length ?h)" for x r using that order.strict_trans1 by blast
  then show ?thesis using assms(1) \<open>sum_list ?h div of_nat (length ?h) < 50\<close>
    by (auto simp: avg_delay_def Let_def split: option.splits)
qed

text \<open>One good report of the only user: the rate grows, at the latest with every third report.\<close>

definition only_user :: "i32 \<Rightarrow> u32 \<Rightarrow> nat \<Rightarrow> video_qos \<Rightarrow> bool" where
  "only_user i hf t q \<longleftrightarrow> (\<exists>u. vq_users q = [(i, u)] \<and> \<not> ud_response_delayed (us_delay u)
     \<and> (\<forall>d \<in> set (ud_delay_history (us_delay u)). d < 50) \<and> ud_increase_fps_count (us_delay u) < 3)
     \<and> highest_fps q = Some hf \<and> vq_new_user_instant q = t"

definition progress :: "video_qos \<Rightarrow> nat" where
  "progress q = 3 * unat (vq_fps q) + (case vq_users q of (_, u) # _ \<Rightarrow> ud_increase_fps_count (us_delay u) | [] \<Rightarrow> 0)"

lemma good_delay_form:
  assumes "fps_ok fps" and "mf \<in> {8, 10, 12}" and "max (avg_delay (add_delay (max d 10) ud)) 10 < 50" and "c = ud_increase_fps_count ud"
  obtains x quick where "delay_update hf mf nf fps d ud = map_option (\<lambda>f. (add_delay (max d 10) ud)\<lparr>ud_fps := Some f,
        ud_quick_increase_fps_count := quick, ud_increase_fps_count := (if c + 1 \<ge> 3 then 0 else c + 1)\<rparr>)
        (clamp MIN_FPS hf (if c + 1 \<ge> 3 then x + 1 else x))"
    and "unat fps \<le> unat x" and "unat (x + 1) = unat x + 1"
proof -
  let ?ud = "add_delay (max d 10) ud"
  define avg where "avg = max (avg_delay ?ud) 10"
  have c: "ud_increase_fps_count ?ud = c" by (simp add: add_delay_def assms(4))
  have avg: "avg < 50" using assms(3) by (simp add: avg_def)
  obtain x quick where x: "delay_fps mf nf (avg_delay ud) avg (ud_quick_increase_fps_count ?ud) fps = (x, quick)" by fastforce
  from avg obtain s where s: "s \<in> {0, 1, 5}" "fst (delay_fps mf nf (avg_delay ud) avg (ud_quick_increase_fps_count ?ud) fps) = max mf (fps + s)"
    by (rule delay_fps_quick)
  have lt: "avg < DELAY_THRESHOLD_150MS" using avg by (simp add: word_less_nat_alt DELAY_THRESHOLD_150MS_def)
  have form: "delay_update hf mf nf fps d ud = map_option (\<lambda>f. ?ud\<lparr>ud_fps := Some f, ud_quick_increase_fps_count := (if avg > 50 then 0 else quick),
      ud_increase_fps_count := (if c + 1 \<ge> 3 then 0 else c + 1)\<rparr>) (clamp MIN_FPS hf (if c + 1 \<ge> 3 then x + 1 else x))"
    unfolding delay_update_def Let_def avg_def [symmetric] x c using lt
    by (cases "c + 1 \<ge> 3") (simp_all only: if_True if_False case_prod_conv)
  have fps: "unat fps \<le> 120" using assms(1) by (simp add: fps_ok_def MAX_FPS_def word_le_nat_alt)
  have "unat (fps + s) = unat fps + unat s" using s(1) fps by (auto simp: unat_word_ariths)
  moreover have "x = max mf (fps + s)" using s(2) x by simp
  ultimately have "unat fps \<le> unat x" "unat (x + 1) = unat x + 1"
    using fps assms(2) s(1) by (auto simp: max_def word_le_nat_alt unat_word_ariths)
  with that form show ?thesis by blast
qed

lemma good_delay_update:
  assumes "fps_ok hf" and "fps_ok fps" and "mf \<in> {8, 10, 12}" and "delay_ok ud" and "d < 50"
    and "\<forall>d \<in> set (ud_delay_history ud). d < 50" and "ud_increase_fps_count ud < 3"
    and "delay_update hf mf nf fps d ud = Some ud'"
  shows "\<exists>f. ud_fps ud' = Some f \<and> MIN_FPS \<le> f \<and> f \<le> hf \<and> ud_response_delayed ud' = ud_response_delayed ud
    \<and> (\<forall>d \<in> set (ud_delay_history ud'). d < 50) \<and> ud_increase_fps_count ud' < 3
    \<and> (f = hf \<or> 3 * unat fps + ud_increase_fps_count ud < 3 * unat f + ud_increase_fps_count ud')"
proof -
  let ?ud = "add_delay (max d 10) ud"
  define c where "c = ud_increase_fps_count ud"
  have hist: "ud_delay_history ?ud \<noteq> []" "length (ud_delay_history ?ud) \<le> 3" "\<forall>d \<in> set (ud_delay_history ?ud). d < 50"
    using assms(4,5,6) by (auto simp: add_delay_def delay_ok_def HISTORY_DELAY_LEN_def dest: list.set_sel(2) [rotated])
  then have "max (avg_delay ?ud) 10 < 50" using avg_delay_good by simp
  from good_delay_form [OF assms(2,3) this c_def, of hf nf] obtain x quick where
    form: "delay_update hf mf nf fps d ud = map_option (\<lambda>f. ?ud\<lparr>ud_fps := Some f, ud_quick_increase_fps_count := quick,
        ud_increase_fps_count := (if c + 1 \<ge> 3 then 0 else c + 1)\<rparr>) (clamp MIN_FPS hf (if c + 1 \<ge> 3 then x + 1 else x))"
    and xb: "unat fps \<le> unat x" "unat (x + 1) = unat x + 1" by blast
  obtain f where f: "clamp MIN_FPS hf (if c + 1 \<ge> 3 then x + 1 else x) = Some f" and
    ud': "ud' = ?ud\<lparr>ud_fps := Some f, ud_quick_increase_fps_count := quick, ud_increase_fps_count := (if c + 1 \<ge> 3 then 0 else c + 1)\<rparr>"
    using assms(8) unfolding form by (auto simp only: map_option_eq_Some)
  have "1 \<le> unat fps" using assms(2) by (simp add: fps_ok_def MIN_FPS_def word_le_nat_alt)
  then have "f = hf \<or> f = (if c + 1 \<ge> 3 then x + 1 else x)"
    using f xb by (auto simp: clamp_def MIN_FPS_def word_less_nat_alt split: if_splits)
  then have "f = hf \<or> 3 * unat fps + c < 3 * unat f + ud_increase_fps_count ud'"
    using xb assms(7) by (auto simp: ud' c_def split: if_splits)
  then show ?thesis using hist(3) clamp_Some [OF f] assms(7) by (auto simp: ud' c_def add_delay_def)
qed

lemma adjust_fps_single:
  assumes "vq_users q = [(i, u)]" and "\<not> ud_response_delayed (us_delay u)" and "ud_fps (us_delay u) = Some f"
    and "highest_fps q = Some hf" and "MIN_FPS \<le> f" and "f \<le> hf" and "vq_new_user_instant q + 1000 \<le> qe_now env"
  shows "adjust_fps env q = Some (q\<lparr>vq_fps := f\<rparr>)"
proof -
  have "MIN_FPS \<le> hf" using assms(5,6) by (rule order.trans)
  moreover have "(qe_now env - vq_new_user_instant q) div 1000 \<noteq> 0" using assms(7) by (auto simp: div_eq_0_iff)
  ultimately show ?thesis using assms by (simp add: adjust_fps_def list_min_def clamp_def not_less)
qed

lemma highest_fps_delay:
  "vq_users q = [(i, u)] \<Longrightarrow> vq_users q' = [(i, u\<lparr>us_delay := ud\<rparr>)] \<Longrightarrow> highest_fps q' = highest_fps q"
  by (simp add: highest_fps_def user_fps_def)

lemma good_report:
  assumes "qos_inv q" and "only_user i hf t q" and "d < 50" and "t + 1000 \<le> qe_now env"
  shows "\<exists>q'. user_network_delay env i d q = Some q' \<and> qos_inv q' \<and> only_user i hf t q' \<and> (vq_fps q' = hf \<or> progress q < progress q' \<and> vq_fps q' < hf)"
proof -
  obtain u where u: "vq_users q = [(i, u)]" "\<not> ud_response_delayed (us_delay u)" "\<forall>d \<in> set (ud_delay_history (us_delay u)). d < 50"
    "ud_increase_fps_count (us_delay u) < 3" and hf: "highest_fps q = Some hf" and t: "vq_new_user_instant q = t"
    using assms(2) by (auto simp: only_user_def)
  have ok: "fps_ok hf" using hf highest_fps_ok [of q] by (metis option.inject)
  have inv: "fps_ok (vq_fps q)" "delay_ok (us_delay u)" using assms(1) u(1) by (auto simp: qos_inv_def hm_all_iff user_ok_def)
  obtain mf nf where tg: "fps_targets (quality_ratio (latest_quality q)) = (mf, nf)" by fastforce
  obtain ud where ud: "delay_update hf mf nf (vq_fps q) d (us_delay u) = Some ud" using delay_update_ok [OF ok inv(2)] by metis
  obtain f where f: "ud_fps ud = Some f" "MIN_FPS \<le> f" "f \<le> hf" "\<not> ud_response_delayed ud" "\<forall>d \<in> set (ud_delay_history ud). d < 50"
    "ud_increase_fps_count ud < 3" "f = hf \<or> 3 * unat (vq_fps q) + ud_increase_fps_count (us_delay u) < 3 * unat f + ud_increase_fps_count ud"
    using good_delay_update [OF ok inv(1) fps_targets_cases [OF tg] inv(2) assms(3) u(3,4) ud] u(2) by auto
  let ?q = "q\<lparr>vq_users := [(i, u\<lparr>us_delay := ud\<rparr>)]\<rparr>"
  have h: "highest_fps ?q = Some hf" using highest_fps_delay [OF u(1), of ?q ud] hf by simp
  have af: "adjust_fps env ?q = Some (?q\<lparr>vq_fps := f\<rparr>)"
    by (rule adjust_fps_single [where i = i and u = "u\<lparr>us_delay := ud\<rparr>", OF _ _ _ h f(2,3)]) (use f assms(4) t in simp_all)
  have run: "user_network_delay env i d q =
      (if ud_fps (us_delay u) = None \<and> \<not> qe_linux env then adjust_ratio env False (?q\<lparr>vq_fps := f\<rparr>) else Some (?q\<lparr>vq_fps := f\<rparr>))"
    using af hf tg u(1) ud by (simp add: user_network_delay_def hm_get_def hm_modify_def)
  obtain q' where q': "user_network_delay env i d q = Some q'" "qos_inv q'" using user_network_delay_inv [OF assms(1)] by blast
  have "vq_users q' = vq_users ?q \<and> vq_fps q' = f \<and> vq_new_user_instant q' = t"
    using q'(1) run t by (auto simp: adjust_ratio_def Let_def split: if_splits option.splits)
  with f u h q' show ?thesis
    using highest_fps_delay [OF u(1), of q' ud] hf by (auto simp: only_user_def progress_def)
qed

lemma progress_bounds: "only_user i hf t q \<Longrightarrow> 3 * unat (vq_fps q) \<le> progress q \<and> progress q < 3 * unat (vq_fps q) + 3"
  by (auto simp: only_user_def progress_def)

lemma good_reports:
  assumes "qos_inv q" and "only_user i hf t q" and "\<forall>(env, d) \<in> set reports. d < 50 \<and> t + 1000 \<le> qe_now env"
  shows "\<exists>q'. run_opt qos_step (map (\<lambda>(env, d). QDelay env i d) reports) q = Some q' \<and> only_user i hf t q'
    \<and> (vq_fps q' = hf \<or> progress q + length reports \<le> progress q' \<and> (reports \<noteq> [] \<longrightarrow> vq_fps q' < hf))"
  using assms
proof (induction reports arbitrary: q)
  case (Cons r reports)
  obtain env d where r: "r = (env, d)" by fastforce
  with Cons.prems obtain q1 where q1: "user_network_delay env i d q = Some q1" "qos_inv q1" "only_user i hf t q1"
    "vq_fps q1 = hf \<or> progress q < progress q1 \<and> vq_fps q1 < hf"
    using good_report [of q i hf t d env] by auto
  obtain q2 where q2: "run_opt qos_step (map (\<lambda>(env, d). QDelay env i d) reports) q1 = Some q2" "only_user i hf t q2"
    "vq_fps q2 = hf \<or> progress q1 + length reports \<le> progress q2 \<and> (reports \<noteq> [] \<longrightarrow> vq_fps q2 < hf)"
    using Cons.IH [OF q1(2,3)] Cons.prems(3) by auto
  have "vq_fps q1 \<noteq> hf" if "vq_fps q2 \<noteq> hf"
    using that q2 progress_bounds [OF q1(3)] progress_bounds [OF q2(2)] by (cases reports) (auto simp: word_less_nat_alt)
  then have "vq_fps q2 = hf \<or> progress q + length (r # reports) \<le> progress q2 \<and> vq_fps q2 < hf"
    using q1(4) q2(1,3) by (cases reports) auto
  then show ?case using q1(1) q2(1,2) r by auto
qed auto

text \<open>
  The frame rate recovers: whatever the controller did before, when its only user has been connected for a
  second, has no answer overdue and no bad delay among the last three, then three hundred and sixty reports of a
  delay below 50 milliseconds bring the frame rate to the highest rate the user allows.
\<close>

theorem qos_fps_recovers:
  assumes "run_opt qos_step ops (qos_default now) = Some q" and "vq_users q = [(i, u)]"
    and "\<forall>d \<in> set (ud_delay_history (us_delay u)). d < 50" and "\<not> ud_response_delayed (us_delay u)" and "ud_increase_fps_count (us_delay u) < 3"
    and "\<forall>(env, d) \<in> set reports. d < 50 \<and> vq_new_user_instant q + 1000 \<le> qe_now env" and "360 \<le> length reports"
  shows "\<exists>q'. run_opt qos_step (map (\<lambda>(env, d). QDelay env i d) reports) q = Some q' \<and> Some (vq_fps q') = highest_fps q"
proof -
  have inv: "qos_inv q" by (rule vq.run_inv_at [OF qos_default_inv assms(1)])
  obtain hf where hf: "highest_fps q = Some hf" "fps_ok hf" by (rule highest_fps_ok)
  have only: "only_user i hf (vq_new_user_instant q) q" using assms(2-5) hf(1) by (simp add: only_user_def)
  obtain q' where q': "run_opt qos_step (map (\<lambda>(env, d). QDelay env i d) reports) q = Some q'" "only_user i hf (vq_new_user_instant q) q'"
    "vq_fps q' = hf \<or> progress q + length reports \<le> progress q' \<and> (reports \<noteq> [] \<longrightarrow> vq_fps q' < hf)"
    using good_reports [OF inv only assms(6)] by blast
  have "vq_fps q' = hf"
    using q'(3) progress_bounds [OF q'(2)] hf(2) assms(7) by (cases reports) (auto simp: fps_ok_def MAX_FPS_def word_less_nat_alt word_le_nat_alt)
  with q'(1) hf(1) show ?thesis by auto
qed

theorem qos_fps_recovers_witness:
  "\<exists>q'. run_opt qos_step (QOpen (qos_env0\<lparr>qe_now := 0\<rparr>) 1 # QCustomFps 1 60 # replicate 400 (QDelay qos_env0 1 20)) (qos_default 0) = Some q' \<and> vq_fps q' = 60"
proof -
  let ?ops = "[QOpen (qos_env0\<lparr>qe_now := 0\<rparr>) 1, QCustomFps 1 60]" and ?u = "user_default\<lparr>us_custom_fps := Some 60\<rparr>"
  obtain q where q: "run_opt qos_step ?ops (qos_default 0) = Some q" using vq.run_total [OF qos_default_inv] by blast
  have u: "vq_users q = [(1, ?u)]" "vq_new_user_instant q = 0"
    using q by (auto simp: on_connection_open_def user_custom_fps_def qos_default_def hm_insert_def hm_modify_def MIN_FPS_def MAX_FPS_def)
  have "highest_fps q = Some 60"
    by (simp add: highest_fps_def u(1) user_fps_def user_default_def list_min_def clamp_def MIN_FPS_def MAX_FPS_def)
  moreover have "\<exists>q'. run_opt qos_step (map (\<lambda>(env, d). QDelay env 1 d) (replicate 400 (qos_env0, 20))) q = Some q' \<and> Some (vq_fps q') = highest_fps q"
    by (rule qos_fps_recovers [OF q u(1)]) (simp_all add: user_default_def delay_default_def u(2) qos_env0_def)
  ultimately show ?thesis using q by auto
qed

end
