(* ===== verification/Regex_Match.thy ===== *)
theory Regex_Match
  imports Prelude
begin

text \<open>
  The regular expressions the program gives to the \<open>regex\<close> crate, as a datatype with their declarative
  meaning (\<open>rx_matches\<close>) and a matcher by derivatives (\<open>rx_run\<close>) that evaluates. Patterns anchored
  at both ends match a whole string; strings are ASCII.
\<close>

datatype rx = RxNone | RxEmpty | RxClass "char \<Rightarrow> bool" | RxSeq rx rx | RxAlt rx rx | RxStar rx

inductive rx_matches :: "rx \<Rightarrow> string \<Rightarrow> bool" where
  rx_empty: "rx_matches RxEmpty []"
| rx_class: "p c \<Longrightarrow> rx_matches (RxClass p) [c]"
| rx_seq: "rx_matches r s \<Longrightarrow> rx_matches r' s' \<Longrightarrow> rx_matches (RxSeq r r') (s @ s')"
| rx_left: "rx_matches r s \<Longrightarrow> rx_matches (RxAlt r r') s"
| rx_right: "rx_matches r' s \<Longrightarrow> rx_matches (RxAlt r r') s"
| rx_star_empty: "rx_matches (RxStar r) []"
| rx_star: "rx_matches r s \<Longrightarrow> s \<noteq> [] \<Longrightarrow> rx_matches (RxStar r) s' \<Longrightarrow> rx_matches (RxStar r) (s @ s')"

inductive_simps rx_matches_simps [simp]:
  "rx_matches RxNone s"
  "rx_matches RxEmpty s"
  "rx_matches (RxClass p) s"
  "rx_matches (RxAlt r r') s"

inductive_cases rx_seqE: "rx_matches (RxSeq r r') s"
inductive_cases rx_starE: "rx_matches (RxStar r) s"

lemma rx_matches_seq: "rx_matches (RxSeq r r') s \<longleftrightarrow> (\<exists>s1 s2. s = s1 @ s2 \<and> rx_matches r s1 \<and> rx_matches r' s2)"
  by (auto elim!: rx_seqE intro: rx_seq)

subsection \<open>The matcher\<close>

fun rx_null :: "rx \<Rightarrow> bool" where
  "rx_null RxNone \<longleftrightarrow> False"
| "rx_null RxEmpty \<longleftrightarrow> True"
| "rx_null (RxClass p) \<longleftrightarrow> False"
| "rx_null (RxSeq r r') \<longleftrightarrow> rx_null r \<and> rx_null r'"
| "rx_null (RxAlt r r') \<longleftrightarrow> rx_null r \<or> rx_null r'"
| "rx_null (RxStar r) \<longleftrightarrow> True"

text \<open>Derivatives drop impossible branches, so that they stay small.\<close>

fun rx_seq_of :: "rx \<Rightarrow> rx \<Rightarrow> rx" where
  "rx_seq_of RxNone r' = RxNone"
| "rx_seq_of RxEmpty r' = r'"
| "rx_seq_of r r' = RxSeq r r'"

fun rx_alt_of :: "rx \<Rightarrow> rx \<Rightarrow> rx" where
  "rx_alt_of RxNone r' = r'"
| "rx_alt_of r RxNone = r"
| "rx_alt_of r r' = RxAlt r r'"

fun rx_deriv :: "char \<Rightarrow> rx \<Rightarrow> rx" where
  "rx_deriv c RxNone = RxNone"
| "rx_deriv c RxEmpty = RxNone"
| "rx_deriv c (RxClass p) = (if p c then RxEmpty else RxNone)"
| "rx_deriv c (RxSeq r r') =
    (if rx_null r then rx_alt_of (rx_seq_of (rx_deriv c r) r') (rx_deriv c r') else rx_seq_of (rx_deriv c r) r')"
| "rx_deriv c (RxAlt r r') = rx_alt_of (rx_deriv c r) (rx_deriv c r')"
| "rx_deriv c (RxStar r) = rx_seq_of (rx_deriv c r) (RxStar r)"

fun rx_run :: "rx \<Rightarrow> string \<Rightarrow> bool" where
  "rx_run r [] \<longleftrightarrow> rx_null r"
| "rx_run r (c # s) \<longleftrightarrow> rx_run (rx_deriv c r) s"

lemma rx_seq_of_matches [simp]: "rx_matches (rx_seq_of r r') s \<longleftrightarrow> rx_matches (RxSeq r r') s"
  by (cases "(r, r')" rule: rx_seq_of.cases) (auto simp: rx_matches_seq)

lemma rx_alt_of_matches [simp]: "rx_matches (rx_alt_of r r') s \<longleftrightarrow> rx_matches r s \<or> rx_matches r' s"
  by (cases "(r, r')" rule: rx_alt_of.cases) auto

lemma rx_null_matches: "rx_null r \<longleftrightarrow> rx_matches r []"
  by (induction r) (auto simp: rx_matches_seq intro: rx_star_empty)

lemma rx_star_Cons: "rx_matches (RxStar r) (c # s) \<longleftrightarrow> (\<exists>s1 s2. s = s1 @ s2 \<and> rx_matches r (c # s1) \<and> rx_matches (RxStar r) s2)"
  (is "?l \<longleftrightarrow> ?r")
proof
  assume ?l
  then obtain t1 t2 where "c # s = t1 @ t2" "rx_matches r t1" "t1 \<noteq> []" "rx_matches (RxStar r) t2" by (rule rx_starE) auto
  then show ?r by (cases t1) auto
next
  assume ?r
  then obtain s1 s2 where "s = s1 @ s2" "rx_matches r (c # s1)" "rx_matches (RxStar r) s2" by blast
  then show ?l using rx_star [of r "c # s1" s2] by simp
qed

lemma rx_deriv_matches: "rx_matches (rx_deriv c r) s \<longleftrightarrow> rx_matches r (c # s)"
proof (induction r arbitrary: s)
  case (RxSeq r r')
  then show ?case
    by (auto simp: rx_matches_seq rx_null_matches Cons_eq_append_conv)
next
  case (RxStar r)
  then show ?case by (auto simp: rx_matches_seq rx_star_Cons)
qed auto

text \<open>The matcher decides the declarative meaning.\<close>

lemma rx_run_matches: "rx_run r s \<longleftrightarrow> rx_matches r s"
  by (induction s arbitrary: r) (auto simp: rx_null_matches rx_deriv_matches)

subsection \<open>Derived patterns\<close>

definition rx_char :: "char \<Rightarrow> rx" where "rx_char c = RxClass (\<lambda>d. d = c)"
definition rx_opt :: "rx \<Rightarrow> rx" where "rx_opt r = RxAlt r RxEmpty"
definition rx_plus :: "rx \<Rightarrow> rx" where "rx_plus r = RxSeq r (RxStar r)"

primrec rx_power :: "nat \<Rightarrow> rx \<Rightarrow> rx" where
  "rx_power 0 r = RxEmpty"
| "rx_power (Suc n) r = RxSeq r (rx_power n r)"

text \<open>\<open>r{m,n}\<close>: \<open>m\<close> repetitions, then up to \<open>n - m\<close> more, as nested options.\<close>

primrec rx_upto :: "nat \<Rightarrow> rx \<Rightarrow> rx" where
  "rx_upto 0 r = RxEmpty"
| "rx_upto (Suc n) r = rx_opt (RxSeq r (rx_upto n r))"

definition rx_rep :: "nat \<Rightarrow> nat \<Rightarrow> rx \<Rightarrow> rx" where
  "rx_rep m n r = RxSeq (rx_power m r) (rx_upto (n - m) r)"

definition rx_seqs :: "rx list \<Rightarrow> rx" where "rx_seqs rs = foldr RxSeq rs RxEmpty"
definition rx_alts :: "rx list \<Rightarrow> rx" where "rx_alts rs = foldr RxAlt rs RxNone"

lemma rx_char_matches [simp]: "rx_matches (rx_char c) s \<longleftrightarrow> s = [c]"
  by (auto simp: rx_char_def)

lemma rx_class_seq: "rx_matches (RxSeq (RxClass p) r) s \<longleftrightarrow> (\<exists>c s'. s = c # s' \<and> p c \<and> rx_matches r s')"
  unfolding rx_matches_seq by (auto intro: exI [of _ "[c]" for c])

lemma rx_power_class: "rx_matches (rx_power n (RxClass p)) s \<longleftrightarrow> length s = n \<and> list_all p s"
proof (induction n arbitrary: s)
  case (Suc n)
  then show ?case by (cases s) (auto simp: rx_class_seq)
qed auto

lemma rx_upto_class: "rx_matches (rx_upto n (RxClass p)) s \<longleftrightarrow> length s \<le> n \<and> list_all p s"
proof (induction n arbitrary: s)
  case (Suc n)
  have "rx_matches (rx_upto (Suc n) (RxClass p)) s \<longleftrightarrow> rx_matches (RxSeq (RxClass p) (rx_upto n (RxClass p))) s \<or> s = []"
    by (simp add: rx_opt_def)
  then show ?case unfolding rx_class_seq Suc.IH by (cases s) auto
qed auto

lemma rx_rep_class: "m \<le> n \<Longrightarrow> rx_matches (rx_rep m n (RxClass p)) s \<longleftrightarrow> m \<le> length s \<and> length s \<le> n \<and> list_all p s"
proof -
  assume mn: "m \<le> n"
  have "s = take m s @ drop m s" by simp
  then have "m \<le> length s \<and> length s \<le> n \<and> list_all p s \<Longrightarrow> rx_matches (rx_rep m n (RxClass p)) s"
    unfolding rx_rep_def rx_matches_seq rx_power_class rx_upto_class
    by (intro exI [of _ "take m s"] exI [of _ "drop m s"]) (auto simp: list_all_iff dest: in_set_takeD in_set_dropD)
  then show ?thesis
    using mn by (auto simp: rx_rep_def rx_matches_seq rx_power_class rx_upto_class)
qed

lemma rx_star_class: "rx_matches (RxStar (RxClass p)) s \<longleftrightarrow> list_all p s"
proof (induction s)
  case (Cons c s)
  then show ?case by (auto simp: rx_star_Cons)
qed (simp add: rx_star_empty)

lemma rx_plus_class: "rx_matches (rx_plus (RxClass p)) s \<longleftrightarrow> s \<noteq> [] \<and> list_all p s"
  by (cases s) (auto simp: rx_plus_def rx_class_seq rx_star_class)

lemma rx_seqs_Nil [simp]: "rx_matches (rx_seqs []) s \<longleftrightarrow> s = []"
  by (simp add: rx_seqs_def)

lemma rx_seqs_Cons: "rx_matches (rx_seqs (r # rs)) s \<longleftrightarrow> (\<exists>s1 s2. s = s1 @ s2 \<and> rx_matches r s1 \<and> rx_matches (rx_seqs rs) s2)"
  by (simp add: rx_seqs_def rx_matches_seq)

text \<open>The characters a pattern can match.\<close>

fun rx_alphabet :: "rx \<Rightarrow> char \<Rightarrow> bool" where
  "rx_alphabet RxNone c \<longleftrightarrow> False"
| "rx_alphabet RxEmpty c \<longleftrightarrow> False"
| "rx_alphabet (RxClass p) c \<longleftrightarrow> p c"
| "rx_alphabet (RxSeq r r') c \<longleftrightarrow> rx_alphabet r c \<or> rx_alphabet r' c"
| "rx_alphabet (RxAlt r r') c \<longleftrightarrow> rx_alphabet r c \<or> rx_alphabet r' c"
| "rx_alphabet (RxStar r) c \<longleftrightarrow> rx_alphabet r c"

lemma rx_matches_alphabet: "rx_matches r s \<Longrightarrow> c \<in> set s \<Longrightarrow> rx_alphabet r c"
  by (induction rule: rx_matches.induct) auto

end
