(* ===== verification/Net_Util.thy ===== *)
theory Net_Util
  imports Regex_Match "HOL-Library.Sublist" "HOL-Library.Char_ord"
begin

text \<open>
  Helpers of \<open>hbb_common\<close>: mangled socket addresses, version numbers and the recognition of addresses and
  identifiers (\<open>lib.rs\<close>), host and port strings (\<open>socket_client.rs\<close>). Arithmetic on \<open>u128\<close>
  wraps; the clock of \<open>encode\<close> is an argument.
\<close>

subsection \<open>Socket addresses\<close>

text \<open>An IPv6 address has a flow label and a scope besides its octets and port.\<close>

datatype socket_addr = V4 bytes u16 | V6 bytes u16 u32 u32

fun addr_wf :: "socket_addr \<Rightarrow> bool" where
  "addr_wf (V4 ip port) \<longleftrightarrow> length ip = 4"
| "addr_wf (V6 ip port flow scope) \<longleftrightarrow> length ip = 16"

definition v6_loopback :: bytes where "v6_loopback = replicate 15 0 @ [1]"

text \<open>\<open>Ipv6Addr::to_ipv4\<close>: an IPv4-mapped or an IPv4-compatible address.\<close>

definition to_ipv4 :: "bytes \<Rightarrow> bytes option" where
  "to_ipv4 ip = (if take 10 ip = replicate 10 0 \<and> (take 2 (drop 10 ip) = [0, 0] \<or> take 2 (drop 10 ip) = [0xFF, 0xFF])
                 then Some (drop 12 ip) else None)"

fun try_into_v4 :: "socket_addr \<Rightarrow> socket_addr" where
  "try_into_v4 (V6 ip port flow scope) =
    (if ip \<noteq> v6_loopback then (case to_ipv4 ip of Some v4 \<Rightarrow> V4 v4 port | None \<Rightarrow> V6 ip port flow scope)
     else V6 ip port flow scope)"
| "try_into_v4 (V4 ip port) = V4 ip port"

definition strip_zeros :: "bytes \<Rightarrow> bytes" where
  "strip_zeros bs = rev (dropWhile (\<lambda>b. b = 0) (rev bs))"

definition mangle_v4 :: "u32 \<Rightarrow> bytes \<Rightarrow> u16 \<Rightarrow> u128" where
  "mangle_v4 micros octets p =
    (let tm = ucast micros; ip = of_nat (of_le octets); port = ucast p in
     push_bit 49 (ip + tm) OR push_bit 17 tm OR (port + (tm AND 0xFFFF)))"

definition addr_encode :: "u32 \<Rightarrow> socket_addr \<Rightarrow> bytes" where
  "addr_encode micros addr =
    (case try_into_v4 addr of
       V4 ip port \<Rightarrow> strip_zeros (to_le 16 (unat (mangle_v4 micros ip port)))
     | V6 ip port flow scope \<Rightarrow> ip @ to_le 2 (unat port))"

definition get_any_listen_addr :: "bool \<Rightarrow> socket_addr" where
  "get_any_listen_addr is_ipv4 = (if is_ipv4 then V4 (replicate 4 0) 0 else V6 (replicate 16 0) 0 0 0)"

definition addr_decode :: "bytes \<Rightarrow> socket_addr" where
  "addr_decode bs =
    (if length bs > 16 then
       if length bs \<noteq> 18 then get_any_listen_addr False
       else V6 (take 16 bs) (of_nat (of_le (drop 16 bs))) 0 0
     else
       let padded = bs @ replicate (16 - length bs) 0;
           number = (of_nat (of_le padded) :: u128);
           tm = drop_bit 17 number AND 0xFFFFFFFF;
           ip = to_le 4 (unat (ucast (drop_bit 49 number - tm) :: u32));
           port = (number AND 0xFFFFFF) - (tm AND 0xFFFF) in
       V4 ip (ucast port))"

subsection \<open>Numbers\<close>

definition digit :: "char \<Rightarrow> bool" where
  "digit c \<longleftrightarrow> CHR ''0'' \<le> c \<and> c \<le> CHR ''9''"

definition digits_value :: "string \<Rightarrow> nat" where
  "digits_value s = foldl (\<lambda>n c. 10 * n + (of_char c - 48)) 0 s"

text \<open>\<open>parse\<close> of a signed integer type with bounds \<open>lo\<close> and \<open>hi\<close>.\<close>

definition parse_int :: "int \<Rightarrow> int \<Rightarrow> string \<Rightarrow> int option" where
  "parse_int lo hi s =
    (let (neg, ds) = (case s of c # ds \<Rightarrow> if c = CHR ''-'' then (True, ds) else if c = CHR ''+'' then (False, ds) else (False, s)
                      | [] \<Rightarrow> (False, [])) in
     if ds = [] \<or> \<not> list_all digit ds then None
     else let v = (if neg then - int (digits_value ds) else int (digits_value ds)) in
       if lo \<le> v \<and> v \<le> hi then Some v else None)"

definition parse_i64 :: "string \<Rightarrow> int option" where "parse_i64 = parse_int (- (2 ^ 63)) (2 ^ 63 - 1)"
definition parse_i32 :: "string \<Rightarrow> int option" where "parse_i32 = parse_int (- (2 ^ 31)) (2 ^ 31 - 1)"

definition unwrap_or :: "'a option \<Rightarrow> 'a \<Rightarrow> 'a" where
  "unwrap_or x d = (case x of Some y \<Rightarrow> y | None \<Rightarrow> d)"

subsection \<open>Versions\<close>

text \<open>\<open>i64\<close> arithmetic is written on words, which wrap.\<close>

definition get_version_number :: "string \<Rightarrow> i64" where
  "get_version_number v =
    (case split_on CHR ''-'' v of
       [] \<Rightarrow> 0
     | v # rest \<Rightarrow>
       let (n, last) = foldl (\<lambda>(n, _) x. let last = word_of_int (unwrap_or (parse_i64 x) 0) in (n * 1000 + last, last)) (0, 0)
                         (split_on CHR ''.'' v);
           n = n - last + last * 10 in
       (case rest of [] \<Rightarrow> n | p # _ \<Rightarrow> n + word_of_int (unwrap_or (parse_i64 p) 0)))"

definition rposition :: "char \<Rightarrow> string \<Rightarrow> nat option" where
  "rposition c s = (if c \<in> set s then Some (length (takeWhile (\<lambda>x. x \<noteq> c) (rev s))) else None)"

definition get_version_from_url :: "string \<Rightarrow> string" where
  "get_version_from_url url =
    (let n = length url in
     case rposition CHR ''-'' url of
       None \<Rightarrow> []
     | Some a \<Rightarrow>
       (case rposition CHR ''.'' url of
          None \<Rightarrow> []
        | Some b \<Rightarrow>
          if a > b then
            if parse_i32 (drop (n - b) url) \<noteq> None then drop (n - a) url
            else take (a - b - 1) (drop (n - a) url)
          else drop (n - a) url))"

subsection \<open>Recognising identifiers and addresses\<close>

definition lower :: "char \<Rightarrow> bool" where "lower c \<longleftrightarrow> CHR ''a'' \<le> c \<and> c \<le> CHR ''z''"
definition upper :: "char \<Rightarrow> bool" where "upper c \<longleftrightarrow> CHR ''A'' \<le> c \<and> c \<le> CHR ''Z''"
text \<open>\<open>to_lowercase\<close> and \<open>contains\<close>, for ASCII strings.\<close>

definition to_lower :: "char \<Rightarrow> char" where
  "to_lower c = (if upper c then char_of ((of_char c :: nat) + 32) else c)"

definition str_contains :: "string \<Rightarrow> string \<Rightarrow> bool" where
  "str_contains s p \<longleftrightarrow> list_ex (\<lambda>i. take (length p) (drop i s) = p) [0..<Suc (length s)]"

definition word_char :: "char \<Rightarrow> bool" where "word_char c \<longleftrightarrow> lower c \<or> upper c \<or> digit c \<or> c = CHR ''_''"
definition hex_char :: "char \<Rightarrow> bool" where
  "hex_char c \<longleftrightarrow> CHR ''a'' \<le> c \<and> c \<le> CHR ''f'' \<or> CHR ''A'' \<le> c \<and> c \<le> CHR ''F'' \<or> digit c"

definition custom_id_rx :: rx where
  "custom_id_rx = RxSeq (RxClass (\<lambda>c. lower c \<or> upper c)) (rx_rep 5 15 (RxClass (\<lambda>c. word_char c \<or> c = CHR ''-'')))"

definition is_valid_custom_id :: "string \<Rightarrow> bool" where
  "is_valid_custom_id s = rx_run custom_id_rx s"

definition rx_range :: "char \<Rightarrow> char \<Rightarrow> rx" where "rx_range a b = RxClass (\<lambda>c. a \<le> c \<and> c \<le> b)"

definition octet_rx :: rx where
  "octet_rx = rx_alts
     [rx_seqs [rx_char CHR ''2'', rx_char CHR ''5'', rx_range CHR ''0'' CHR ''5''],
      rx_seqs [rx_char CHR ''2'', rx_range CHR ''0'' CHR ''4'', rx_range CHR ''0'' CHR ''9''],
      rx_seqs [rx_opt (rx_range CHR ''0'' CHR ''1''), rx_range CHR ''0'' CHR ''9'', rx_opt (rx_range CHR ''0'' CHR ''9'')]]"

definition port_rx :: rx where
  "port_rx = RxSeq (rx_char CHR '':'') (rx_plus (RxClass digit))"

definition ipv4_rx :: rx where
  "ipv4_rx = rx_seqs [octet_rx, rx_char CHR ''.'', octet_rx, rx_char CHR ''.'', octet_rx, rx_char CHR ''.'', octet_rx, rx_opt port_rx]"

definition is_ipv4_str :: "string \<Rightarrow> bool" where
  "is_ipv4_str s = rx_run ipv4_rx s"

definition hex_group :: rx where "hex_group = rx_rep 1 4 (RxClass hex_char)"

definition ipv6_core :: rx where
  "ipv6_core = RxSeq (rx_plus (RxSeq hex_group (rx_rep 1 2 (rx_char CHR '':'')))) hex_group"

definition ipv6_rx :: rx where
  "ipv6_rx = RxAlt ipv6_core (rx_seqs [rx_char CHR ''['', ipv6_core, rx_char CHR '']'', port_rx])"

definition is_ipv6_str :: "string \<Rightarrow> bool" where
  "is_ipv6_str s = rx_run ipv6_rx s"

definition is_ip_str :: "string \<Rightarrow> bool" where
  "is_ip_str s \<longleftrightarrow> is_ipv4_str s \<or> is_ipv6_str s"

text \<open>The pattern of domains ignores case.\<close>

definition alnum :: "char \<Rightarrow> bool" where "alnum c \<longleftrightarrow> lower c \<or> upper c \<or> digit c"

definition domain_label_rx :: rx where
  "domain_label_rx = RxSeq (RxClass alnum) (rx_opt (RxSeq (rx_rep 0 61 (RxClass (\<lambda>c. alnum c \<or> c = CHR ''-''))) (RxClass alnum)))"

definition domain_port_rx :: rx where
  "domain_port_rx = rx_seqs
     [rx_plus (RxSeq domain_label_rx (rx_char CHR ''.'')), RxClass (\<lambda>c. lower c \<or> upper c),
      rx_rep 0 61 (RxClass (\<lambda>c. lower c \<or> upper c \<or> c = CHR ''-'')), RxClass (\<lambda>c. lower c \<or> upper c),
      rx_char CHR '':'', rx_rep 1 5 (RxClass digit)]"

definition is_domain_port_str :: "string \<Rightarrow> bool" where
  "is_domain_port_str s = rx_run domain_port_rx s"

subsection \<open>Hosts and ports\<close>

text \<open>\<open>split\<close> at a two-character separator.\<close>

fun split_on2 :: "char \<Rightarrow> char \<Rightarrow> string \<Rightarrow> string list" where
  "split_on2 a b (x # y # s) =
    (if x = a \<and> y = b then [] # split_on2 a b s
     else case split_on2 a b (y # s) of p # ps \<Rightarrow> (x # p) # ps | [] \<Rightarrow> [[x]])"
| "split_on2 a b s = [s]"

definition check_port :: "string \<Rightarrow> int \<Rightarrow> string" where
  "check_port host port =
    (if is_ipv6_str host then
       if host \<noteq> [] \<and> hd host = CHR ''['' then host
       else CHR ''['' # host @ '']:'' @ show_int port
     else if CHR '':'' \<notin> set host then host @ '':'' @ show_int port
     else host)"

text \<open>The host and its port, as \<open>increase_port\<close> and \<open>split_host_port\<close> find them; the separator belongs to neither.\<close>

definition host_and_port :: "string \<Rightarrow> (string \<times> int) option" where
  "host_and_port host =
    (let parts = (if is_ipv6_str host then if host \<noteq> [] \<and> hd host = CHR ''['' then split_on2 CHR '']'' CHR '':'' host else []
                  else if CHR '':'' \<in> set host then split_on CHR '':'' host else []) in
     case parts of
       [h, p] \<Rightarrow> let port = unwrap_or (parse_i32 p) 0 in if port > 0 then Some (h, port) else None
     | _ \<Rightarrow> None)"

definition increase_port :: "string \<Rightarrow> int \<Rightarrow> string" where
  "increase_port host offset =
    (case host_and_port host of
       Some (h, port) \<Rightarrow>
         h @ (if is_ipv6_str host then '']:'' else '':'') @ show_int (sint (word_of_int (port + offset) :: i32))
     | None \<Rightarrow> host)"

definition split_host_port :: "string \<Rightarrow> (string \<times> int) option" where
  "split_host_port host =
     map_option (\<lambda>(h, port). (if is_ipv6_str host then h @ '']'' else h, port)) (host_and_port host)"

text \<open>\<open>replace\<close> of a non-empty pattern, from left to right.\<close>

function str_replace :: "string \<Rightarrow> string \<Rightarrow> string \<Rightarrow> string" where
  "str_replace pat new [] = []"
| "str_replace pat new (c # s) =
    (if pat \<noteq> [] \<and> prefix pat (c # s) then new @ str_replace pat new (drop (length pat) (c # s))
     else c # str_replace pat new s)"
  by pat_completeness auto
termination by (relation "measure (\<lambda>(_, _, s). length s)") auto

definition ipv4_to_ipv6 :: "string \<Rightarrow> bool \<Rightarrow> string" where
  "ipv4_to_ipv6 addr ipv4 =
    (if \<not> ipv4 \<and> is_ipv4_str addr
     then let ip = hd (split_on CHR '':'' addr) in str_replace ip (ip @ ''.nip.io'') addr
     else addr)"

subsection \<open>Mangled addresses\<close>

lemma nat_or_disjoint: "x < 2 ^ n \<Longrightarrow> push_bit n y OR x = y * 2 ^ n + (x :: nat)"
proof -
  assume "x < 2 ^ n"
  then have "take_bit n x = x" by (simp add: take_bit_nat_eq_self)
  then have "\<not> bit x i \<or> i < n" for i using bit_take_bit_iff [of n x i] by auto
  then have "push_bit n y + x = push_bit n y OR x" by (intro disjunctive_add) (metis bit_push_bit_iff_nat not_le)
  then show ?thesis by (simp add: push_bit_eq_mult)
qed

lemma unat_and_mask: "unat (x AND mask n) = unat x mod 2 ^ n"
  by (simp only: take_bit_eq_mask [symmetric] unsigned_take_bit_eq) (simp only: take_bit_eq_mod)

lemma u128_masks: "(0xFFFF :: u128) = mask 16" "(0xFFFFFF :: u128) = mask 24" "(0xFFFFFFFF :: u128) = mask 32"
  by (simp_all add: mask_eq_exp_minus_1)

lemma mangle_v4_value:
  assumes "length ip = 4"
  shows "unat (mangle_v4 tm ip port) = (of_le ip + unat tm) * 2 ^ 49 + (unat tm * 2 ^ 17 + (unat port + unat tm mod 2 ^ 16))"
proof -
  let ?T = "unat tm" and ?I = "of_le ip" and ?P = "unat port"
  have T: "?T < 2 ^ 32" and P: "?P < 2 ^ 16" using unsigned_less [of tm] unsigned_less [of port] by simp_all
  have I: "?I < 2 ^ 32" using of_le_bound [of ip] assms by simp
  have w: "unat (ucast tm :: u128) = ?T" "unat (ucast port :: u128) = ?P" using T P by (simp_all add: unsigned_ucast_eq take_bit_nat_eq_self)
  have low: "unat ((ucast tm :: u128) AND 0xFFFF) = ?T mod 2 ^ 16"
    unfolding u128_masks unat_and_mask w(1) ..
  have c: "unat ((ucast port :: u128) + (ucast tm AND 0xFFFF)) = ?P + ?T mod 2 ^ 16"
    using P low w(2) by (simp add: unat_word_ariths)
  have b: "unat (push_bit 17 (ucast tm :: u128)) = push_bit 17 ?T"
    unfolding unsigned_push_bit_eq w(1) using T by (simp add: take_bit_nat_eq_self push_bit_eq_mult)
  have a: "unat (push_bit 49 (of_nat ?I + ucast tm :: u128)) = push_bit 49 (?I + ?T)"
  proof -
    have "unat (of_nat ?I + ucast tm :: u128) = ?I + ?T" using T I w(1) by (simp add: unat_word_ariths unat_of_nat)
    then show ?thesis unfolding unsigned_push_bit_eq using T I by (simp add: take_bit_nat_eq_self push_bit_eq_mult)
  qed
  have c_lt: "?P + ?T mod 2 ^ 16 < 2 ^ 17" using P by simp
  have "unat (mangle_v4 tm ip port) = push_bit 49 (?I + ?T) OR (push_bit 17 ?T OR (?P + ?T mod 2 ^ 16))"
    unfolding mangle_v4_def Let_def unsigned_or_eq a b c by (rule refl)
  also have "push_bit 17 ?T OR (?P + ?T mod 2 ^ 16) = ?T * 2 ^ 17 + (?P + ?T mod 2 ^ 16)" by (rule nat_or_disjoint [OF c_lt])
  also have "push_bit 49 (?I + ?T) OR \<dots> = (?I + ?T) * 2 ^ 49 + (?T * 2 ^ 17 + (?P + ?T mod 2 ^ 16))"
    by (rule nat_or_disjoint) (use T c_lt in simp)
  finally show ?thesis .
qed

lemma split_7_bits: "(x :: nat) * 2 ^ 17 = (x div 2 ^ 7) * 2 ^ 24 + (x mod 2 ^ 7) * 2 ^ 17"
proof -
  have "x * 2 ^ 17 = (x div 2 ^ 7 * 2 ^ 7 + x mod 2 ^ 7) * 2 ^ 17" by (simp only: div_mult_mod_eq)
  also have "\<dots> = (x div 2 ^ 7) * (2 ^ 7 * 2 ^ 17) + (x mod 2 ^ 7) * 2 ^ 17" by (simp only: add_mult_distrib mult.assoc)
  finally show ?thesis by (simp only: power_add [symmetric]) simp
qed

lemma low_24_bits:
  assumes "c < 2 ^ 17"
  shows "(X * 2 ^ 49 + (t * 2 ^ 17 + c)) mod 2 ^ 24 = (t mod 2 ^ 7) * 2 ^ 17 + (c :: nat)"
proof -
  define z where "z = t mod 2 ^ 7"
  have z: "z < 2 ^ 7" by (simp add: z_def)
  have "X * 2 ^ 49 + (t * 2 ^ 17 + c) = (X * 2 ^ 25 + t div 2 ^ 7) * 2 ^ 24 + (z * 2 ^ 17 + c)"
    unfolding split_7_bits [of t] z_def [symmetric] by (simp add: add_mult_distrib)
  moreover have "z * 2 ^ 17 + c < 2 ^ 24" using assms z by simp
  ultimately show ?thesis unfolding z_def [symmetric] by (simp only: mod_mult_self3 mod_less)
qed

lemma low_16_bits: "P < 2 ^ 16 \<Longrightarrow> (z * 2 ^ 17 + P) mod 2 ^ 16 = (P :: nat)"
proof -
  assume "P < 2 ^ 16"
  moreover have "z * 2 ^ 17 + P = (z * 2) * 2 ^ 16 + P" by simp
  ultimately show ?thesis by (simp only: mod_mult_self3 mod_less)
qed

lemma of_le_append_zeros: "of_le (bs @ replicate k 0) = of_le bs"
  by (induction bs) (simp_all, induction k, simp_all)

lemma strip_zeros_pad: "bs = strip_zeros bs @ replicate (length bs - length (strip_zeros bs)) 0"
proof -
  have "takeWhile (\<lambda>b. b = 0) xs = replicate (length (takeWhile (\<lambda>b. b = (0 :: u8)) xs)) 0" for xs
    by (rule replicate_eqI) (auto dest: set_takeWhileD)
  then have "rev bs = replicate (length (takeWhile (\<lambda>b. b = 0) (rev bs))) 0 @ dropWhile (\<lambda>b. b = 0) (rev bs)"
    by (metis takeWhile_dropWhile_id)
  then have "bs = strip_zeros bs @ replicate (length (takeWhile (\<lambda>b. b = 0) (rev bs))) 0"
    unfolding strip_zeros_def by (metis rev_append rev_replicate rev_rev_ident)
  then show ?thesis by (metis add_diff_cancel_left' length_append length_replicate)
qed

lemma decode_v4:
  assumes "length ip = 4"
  shows "addr_decode (strip_zeros (to_le 16 (unat (mangle_v4 tm ip port)))) = V4 ip port"
proof -
  let ?v = "mangle_v4 tm ip port" and ?T = "unat tm" and ?I = "of_le ip" and ?P = "unat port"
  let ?bs = "to_le 16 (unat ?v)"
  have T: "?T < 2 ^ 32" and P: "?P < 2 ^ 16" using unsigned_less [of tm] unsigned_less [of port] by simp_all
  have I: "?I < 2 ^ 32" using of_le_bound [of ip] assms by simp
  note v = mangle_v4_value [OF assms, of tm port]
  have "length (strip_zeros ?bs) \<le> 16" using arg_cong [OF strip_zeros_pad [of ?bs], of length] by simp
  moreover have "strip_zeros ?bs @ replicate (16 - length (strip_zeros ?bs)) 0 = ?bs" using strip_zeros_pad [of ?bs] by simp
  moreover have "unat ?v < 2 ^ 128" using unsigned_less [of ?v] by simp
  then have "of_le ?bs = unat ?v" by (simp add: of_le_to_le)
  ultimately have dec: "addr_decode (strip_zeros ?bs) =
      (let tm = drop_bit 17 ?v AND 0xFFFFFFFF in
       V4 (to_le 4 (unat (ucast (drop_bit 49 ?v - tm) :: u32))) (ucast ((?v AND 0xFFFFFF) - (tm AND 0xFFFF))))"
    by (simp add: addr_decode_def Let_def)
  define X where "X = ?I + ?T"
  define c where "c = ?P + ?T mod 2 ^ 16"
  have c: "c < 2 ^ 17" using P by (simp add: c_def)
  have v': "unat ?v = X * 2 ^ 49 + (?T * 2 ^ 17 + c)" using v by (simp add: X_def c_def)
  have d17: "unat ?v div 2 ^ 17 = X * 2 ^ 32 + ?T" unfolding v' using c by simp
  have d49: "unat ?v div 2 ^ 49 = X" unfolding v' using c T by simp
  have tmw: "drop_bit 17 ?v AND 0xFFFFFFFF = ucast tm"
  proof -
    have "unat (drop_bit 17 ?v AND mask 32) = ?T"
      unfolding unat_and_mask unat_drop_bit_eq unfolding drop_bit_eq_div d17 using T by simp
    then show ?thesis unfolding u128_masks word_unat_eq_iff using T by (simp add: unsigned_ucast_eq take_bit_nat_eq_self)
  qed
  have "unat (drop_bit 49 ?v) = X" unfolding unat_drop_bit_eq unfolding drop_bit_eq_div d49 ..
  then have "drop_bit 49 ?v = of_nat X" by (metis of_nat_unat ucast_id)
  then have ip: "to_le 4 (unat (ucast (drop_bit 49 ?v - ucast tm) :: u32)) = ip"
    using I assms to_le_of_le [of ip] by (simp add: X_def unsigned_ucast_eq take_bit_nat_eq_self unat_of_nat)
  have "(X * 2 ^ 49 + (?T * 2 ^ 17 + c)) mod 2 ^ 24 = (?T mod 2 ^ 7) * 2 ^ 17 + c" by (rule low_24_bits [OF c])
  then have low24: "unat (?v AND 0xFFFFFF) = (?T mod 2 ^ 7) * 2 ^ 17 + c" unfolding u128_masks unat_and_mask v' .
  have port: "ucast ((?v AND 0xFFFFFF) - (ucast tm AND 0xFFFF)) = port"
  proof -
    have "unat ((ucast tm :: u128) AND 0xFFFF) = ?T mod 2 ^ 16"
      unfolding u128_masks unat_and_mask using T by (simp add: unsigned_ucast_eq take_bit_nat_eq_self)
    then have "unat ((?v AND 0xFFFFFF) - (ucast tm AND 0xFFFF)) = (?T mod 2 ^ 7) * 2 ^ 17 + ?P"
      using low24 by (simp add: unat_sub word_le_nat_alt c_def)
    then have "unat (ucast ((?v AND 0xFFFFFF) - (ucast tm AND 0xFFFF)) :: u16) = ?P"
      using low_16_bits [OF P, of "?T mod 2 ^ 7"] by (simp add: unsigned_ucast_eq take_bit_eq_mod)
    then show ?thesis by (simp add: word_unat_eq_iff)
  qed
  show ?thesis unfolding dec Let_def tmw ip port ..
qed

text \<open>
  Mangling a socket address is undone by its inverse, whatever the clock shows: an IPv4 address, or an IPv6
  address that stands for one, comes back as the IPv4 address with its port; any other IPv6 address comes back
  with its octets and port, but without its flow label and scope.
\<close>

theorem addr_mangle_roundtrip:
  assumes "addr_wf addr"
  shows "addr_decode (addr_encode tm addr) =
    (case try_into_v4 addr of V4 ip port \<Rightarrow> V4 ip port | V6 ip port flow scope \<Rightarrow> V6 ip port 0 0)"
proof -
  have "addr_wf (try_into_v4 addr)"
    using assms by (cases addr) (auto simp: to_ipv4_def split: option.splits if_splits)
  then show ?thesis
  proof (cases "try_into_v4 addr")
    case (V4 ip port)
    with \<open>addr_wf (try_into_v4 addr)\<close> show ?thesis by (simp add: addr_encode_def decode_v4)
  next
    case (V6 ip port flow scope)
    moreover have "unat port < 2 ^ 16" using unsigned_less [of port] by simp
    then have "of_nat (of_le (to_le 2 (unat port))) = port" by (simp add: of_le_to_le)
    ultimately show ?thesis using \<open>addr_wf (try_into_v4 addr)\<close> by (simp add: addr_encode_def addr_decode_def)
  qed
qed

theorem addr_mangle_roundtrip_witness: "addr_decode (addr_encode 123456789 (V4 [192, 168, 16, 32] 21116)) = V4 [192, 168, 16, 32] 21116"
  using addr_mangle_roundtrip [of "V4 [192, 168, 16, 32] 21116" 123456789] by simp

subsection \<open>Printing and parsing numbers\<close>

lemma digit_char: "n < (10 :: nat) \<Longrightarrow> digit (char_of (48 + n)) \<and> of_char (char_of (48 + n) :: char) = 48 + n"
  by (simp add: digit_def less_eq_char_def)

lemma show_nat_digits: "show_nat n \<noteq> [] \<and> list_all digit (show_nat n) \<and> digits_value (show_nat n) = n"
proof (induction n rule: show_nat.induct)
  case (1 n)
  show ?case
  proof (cases "n < 10")
    case True
    then have "show_nat n = [char_of (48 + n)]" by (subst show_nat.simps) simp
    then show ?thesis using digit_char [OF True] by (simp add: digits_value_def)
  next
    case False
    have "n mod 10 < 10" by simp
    note d = digit_char [OF this]
    have "show_nat n = show_nat (n div 10) @ [char_of (48 + n mod 10)]" using False by (subst show_nat.simps) simp
    moreover have "digits_value (xs @ [c]) = 10 * digits_value xs + (of_char c - 48)" for xs c by (simp add: digits_value_def)
    ultimately show ?thesis using 1 [OF False] d by simp
  qed
qed

lemma digit_not [simp]: "\<not> digit CHR ''-''" "\<not> digit CHR ''+''" "\<not> digit CHR '':''" "\<not> digit CHR ''.''" "\<not> digit CHR '']''" "\<not> digit CHR ''[''"
  by (simp_all add: digit_def less_eq_char_def)

lemma show_nat_chars: "\<not> digit c \<Longrightarrow> c \<notin> set (show_nat n)"
  using show_nat_digits [of n] by (auto simp: list_all_iff)

lemma parse_show_nat: "int n \<le> hi \<Longrightarrow> lo \<le> 0 \<Longrightarrow> parse_int lo hi (show_nat n) = Some (int n)"
  using show_nat_digits [of n] by (cases "show_nat n") (auto simp: parse_int_def)

lemma show_int_nat: "0 \<le> i \<Longrightarrow> show_int i = show_nat (nat i)"
  by (simp add: show_int_def)

subsection \<open>Version numbers\<close>

definition show_version :: "nat \<Rightarrow> nat \<Rightarrow> nat \<Rightarrow> string" where
  "show_version a b c = show_nat a @ ''.'' @ show_nat b @ ''.'' @ show_nat c"

lemma split_version: "split_on CHR ''.'' (show_version a b c) = [show_nat a, show_nat b, show_nat c]"
  using show_nat_chars [of "CHR ''.''"] by (simp add: show_version_def split_on_append split_on_no_sep)

lemma version_no_dash: "CHR ''-'' \<notin> set (show_version a b c)"
  using show_nat_chars [of "CHR ''-''"] by (simp add: show_version_def)

lemma parse_i64_show: "n < 2 ^ 63 \<Longrightarrow> parse_i64 (show_nat n) = Some (int n)"
  by (simp add: parse_i64_def parse_show_nat)

lemma version_number_value:
  assumes "a < 2 ^ 63" and "b < 2 ^ 63" and "c < 2 ^ 63"
  shows "get_version_number (show_version a b c) = of_nat ((a * 1000 + b) * 1000 + 10 * c)"
    and "p < 2 ^ 63 \<Longrightarrow> get_version_number (show_version a b c @ ''-'' @ show_nat p) = of_nat ((a * 1000 + b) * 1000 + 10 * c + p)"
  using assms version_no_dash [of a b c] show_nat_chars [of "CHR ''-''" p]
  by (simp_all add: get_version_number_def split_on_no_sep split_on_append split_version parse_i64_show unwrap_or_def Let_def algebra_simps)

lemma lex_pair: "r < m \<Longrightarrow> r' < m \<Longrightarrow> x * m + r < x' * m + r' \<longleftrightarrow> x < x' \<or> x = x' \<and> r < (r' :: nat)"
proof -
  have less: "x * m + r < x' * m + r'" if "x < x'" "r < m" for x x' r r' :: nat
    using that mult_le_mono1 [of "Suc x" x' m] by simp
  assume "r < m" "r' < m"
  then show ?thesis using less [of x x' r r'] less [of x' x r' r] by (cases x x' rule: linorder_cases) auto
qed

lemma version_lex:
  assumes "b < 1000" "b' < 1000" "c < 100" "c' < 100" "p < 10" "p' < (10 :: nat)"
  shows "(a * 1000 + b) * 1000 + (c * 10 + p) < (a' * 1000 + b') * 1000 + (c' * 10 + p')
    \<longleftrightarrow> a < a' \<or> a = a' \<and> (b < b' \<or> b = b' \<and> (c < c' \<or> c = c' \<and> p < p'))"
proof -
  have "c * 10 + p < 1000" "c' * 10 + p' < 1000" using assms by simp_all
  from lex_pair [OF this, of "a * 1000 + b" "a' * 1000 + b'"] lex_pair [OF assms(1,2), of a a'] lex_pair [OF assms(2,1), of a' a]
    lex_pair [OF assms(5,6), of c c']
  show ?thesis by auto
qed

text \<open>
  Version numbers compare like versions: for releases whose second part is below 1000, third part below 100
  and patch below 10, the numbers are ordered (as signed integers) exactly as the versions, part by part.
\<close>

theorem version_number_order:
  assumes "a < 2 ^ 40" "b < 1000" "c < 100" "p < 10" "a' < 2 ^ 40" "b' < 1000" "c' < 100" "p' < 10"
  shows "sint (get_version_number (show_version a b c @ ''-'' @ show_nat p)) < sint (get_version_number (show_version a' b' c' @ ''-'' @ show_nat p'))
    \<longleftrightarrow> a < a' \<or> a = a' \<and> (b < b' \<or> b = b' \<and> (c < c' \<or> c = c' \<and> p < p'))"
proof -
  have v: "sint (get_version_number (show_version a b c @ ''-'' @ show_nat p)) = int ((a * 1000 + b) * 1000 + (c * 10 + p))"
    if "a < 2 ^ 40" "b < 1000" "c < 100" "p < 10" for a b c p
  proof -
    define n where "n = (a * 1000 + b) * 1000 + (c * 10 + p)"
    have "n < 2 ^ 63" using that by (simp add: n_def)
    then have "sint (of_nat n :: i64) = int n" by (simp add: signed_of_nat signed_take_bit_int_eq_self)
    moreover have "(a * 1000 + b) * 1000 + 10 * c + p = n" by (simp add: n_def)
    ultimately show ?thesis using version_number_value(2) [of a b c p] that unfolding n_def [symmetric] by simp
  qed
  show ?thesis unfolding v [OF assms(1-4)] v [OF assms(5-8)] of_nat_less_iff
    by (rule version_lex) (use assms in simp_all)
qed

theorem version_number_order_witness:
  "sint (get_version_number (show_version 1 1 10 @ ''-'' @ show_nat 1)) < sint (get_version_number (show_version 1 2 0 @ ''-'' @ show_nat 0))"
  using version_number_order [of 1 1 10 1 1 2 0 0] by simp

text \<open>Outside these limits different versions collide.\<close>

lemma version_collision: "get_version_number (show_version 1 1 100) = get_version_number (show_version 1 2 0)"
  by (simp add: version_number_value)

lemma rposition_last: "c \<notin> set t \<Longrightarrow> rposition c (s @ c # t) = Some (length t)"
proof -
  assume "c \<notin> set t"
  then have "takeWhile (\<lambda>x. x \<noteq> c) (rev t @ c # rev s) = rev t" by (subst takeWhile_append2) auto
  then show ?thesis by (simp add: rposition_def)
qed

text \<open>The version in the name of a download: what stands between the last dash and the extension.\<close>

lemma version_from_url:
  assumes "CHR ''-'' \<notin> set v" and "CHR ''-'' \<notin> set ext" and "CHR ''.'' \<notin> set ext" and "parse_i32 ext = None"
  shows "get_version_from_url (site @ ''-'' @ v @ ''.'' @ ext) = v"
proof -
  have "rposition CHR ''-'' (site @ ''-'' @ v @ ''.'' @ ext) = Some (length v + 1 + length ext)"
    using rposition_last [of "CHR ''-''" "v @ ''.'' @ ext" site] assms(1,2) by simp
  moreover have "rposition CHR ''.'' (site @ ''-'' @ v @ ''.'' @ ext) = Some (length ext)"
    using rposition_last [of "CHR ''.''" ext "site @ ''-'' @ v"] assms(3) by simp
  ultimately show ?thesis using assms(4) by (simp add: get_version_from_url_def Let_def)
qed

subsection \<open>Identifiers\<close>

text \<open>
  A custom identifier is accepted exactly when it has 6 to 16 characters, starts with a letter and
  continues with letters, digits, underscores and dashes.
\<close>

theorem custom_id_iff:
  "is_valid_custom_id s \<longleftrightarrow> 6 \<le> length s \<and> length s \<le> 16 \<and> (lower (hd s) \<or> upper (hd s))
     \<and> list_all (\<lambda>c. word_char c \<or> c = CHR ''-'') (tl s)"
  unfolding is_valid_custom_id_def rx_run_matches custom_id_rx_def rx_class_seq
  by (cases s) (auto simp: rx_rep_class)

subsection \<open>Hosts and ports\<close>

lemma hex_not [simp]: "\<not> hex_char CHR '':''" "\<not> hex_char CHR ''[''" "\<not> hex_char CHR '']''"
  by (simp_all add: hex_char_def digit_def less_eq_char_def)

lemma hex_group_iff: "rx_matches hex_group s \<longleftrightarrow> 1 \<le> length s \<and> length s \<le> 4 \<and> list_all hex_char s"
  by (simp add: hex_group_def rx_rep_class)

lemma colons_iff: "rx_matches (rx_rep 1 2 (rx_char CHR '':'')) s \<longleftrightarrow> s = '':'' \<or> s = ''::''"
proof -
  have "rx_matches (rx_rep 1 2 (rx_char CHR '':'')) s \<longleftrightarrow> 1 \<le> length s \<and> length s \<le> 2 \<and> list_all (\<lambda>c. c = CHR '':'') s"
    unfolding rx_char_def by (rule rx_rep_class) simp
  then show ?thesis by (cases s; cases "tl s") (auto simp: Suc_le_eq)
qed

text \<open>An IPv6 address starts with a group and a colon, and has no brackets.\<close>

lemma ipv6_core_first:
  assumes "rx_matches ipv6_core s"
  obtains g s' where "s = g @ CHR '':'' # s'" and "rx_matches hex_group g" and "CHR '':'' \<notin> set g"
proof -
  obtain g cs rest where "s = g @ cs @ rest" "rx_matches hex_group g" "cs = '':'' \<or> cs = ''::''"
    using assms unfolding ipv6_core_def rx_plus_def rx_matches_seq colons_iff by (metis append.assoc)
  moreover have "CHR '':'' \<notin> set g" using \<open>rx_matches hex_group g\<close> by (auto simp: hex_group_iff list_all_iff)
  ultimately show ?thesis using that by auto
qed

lemma rx_alphabet_power: "rx_alphabet (rx_power n r) c \<Longrightarrow> rx_alphabet r c"
  by (induction n) auto

lemma rx_alphabet_upto: "rx_alphabet (rx_upto n r) c \<Longrightarrow> rx_alphabet r c"
  by (induction n) (auto simp: rx_opt_def)

lemma ipv6_core_chars: "rx_matches ipv6_core s \<Longrightarrow> c \<in> set s \<Longrightarrow> hex_char c \<or> c = CHR '':''"
  by (drule (1) rx_matches_alphabet)
    (auto simp: ipv6_core_def rx_plus_def hex_group_def rx_rep_def rx_char_def rx_opt_def dest!: rx_alphabet_power rx_alphabet_upto)

lemma rx_seqsI: "rx_matches r s \<Longrightarrow> rx_matches (rx_seqs rs) t \<Longrightarrow> rx_matches (rx_seqs (r # rs)) (s @ t)"
  by (auto simp: rx_seqs_Cons)

lemma bracketed_iff:
  "rx_matches (rx_seqs [rx_char CHR ''['', ipv6_core, rx_char CHR '']'', port_rx]) s \<longleftrightarrow>
     (\<exists>a p. s = CHR ''['' # a @ '']:'' @ p \<and> rx_matches ipv6_core a \<and> p \<noteq> [] \<and> list_all digit p)"
  (is "?l \<longleftrightarrow> ?r")
proof
  assume ?l
  then show ?r by (auto simp: rx_seqs_Cons port_rx_def rx_char_def rx_class_seq rx_plus_class)
next
  assume ?r
  then obtain a p where s: "s = ''['' @ a @ '']'' @ ('':'' @ p) @ []" "rx_matches ipv6_core a" "p \<noteq> []" "list_all digit p" by auto
  then have "rx_matches port_rx ('':'' @ p)" by (simp add: port_rx_def rx_char_def rx_class_seq rx_plus_class)
  with s(2) show ?l unfolding s(1) by (intro rx_seqsI) simp_all
qed

lemma is_ipv6_iff:
  "is_ipv6_str s \<longleftrightarrow> rx_matches ipv6_core s
     \<or> (\<exists>a p. s = CHR ''['' # a @ '']:'' @ p \<and> rx_matches ipv6_core a \<and> p \<noteq> [] \<and> list_all digit p)"
  unfolding is_ipv6_str_def rx_run_matches ipv6_rx_def rx_matches_simps bracketed_iff ..

lemma split_on2_no_sep: "a \<notin> set s \<Longrightarrow> split_on2 a b s = [s]"
  by (induction a b s rule: split_on2.induct) auto

lemma split_on2_append: "a \<notin> set s \<Longrightarrow> split_on2 a b (s @ a # b # t) = s # split_on2 a b t"
proof (induction s)
  case (Cons x s)
  then show ?case by (cases s) auto
qed simp

text \<open>A host name, or a bare IPv6 address, with a port.\<close>

definition plain_host :: "string \<Rightarrow> bool" where
  "plain_host h \<longleftrightarrow> CHR '':'' \<notin> set h \<and> \<not> (1 \<le> length h \<and> length h \<le> 4 \<and> list_all hex_char h)"

lemma ipv6_core_colon: "rx_matches ipv6_core s \<Longrightarrow> CHR '':'' \<in> set s"
  by (erule ipv6_core_first) simp

lemma before_colon: "CHR '':'' \<notin> set x \<Longrightarrow> takeWhile (\<lambda>c. c \<noteq> CHR '':'') (x @ CHR '':'' # y) = x"
  by (subst takeWhile_append2) auto

lemma plain_not_core:
  assumes "plain_host h"
  shows "\<not> rx_matches ipv6_core (h @ CHR '':'' # ds)"
proof
  assume "rx_matches ipv6_core (h @ CHR '':'' # ds)"
  then obtain g s' where g: "h @ CHR '':'' # ds = g @ CHR '':'' # s'" "rx_matches hex_group g" "CHR '':'' \<notin> set g" by (rule ipv6_core_first)
  have "CHR '':'' \<notin> set h" using assms unfolding plain_host_def by blast
  from before_colon [OF this, of ds] before_colon [OF g(3), of s'] g(1) have "h = g" by simp
  then show False using assms g(2) unfolding plain_host_def hex_group_iff by blast
qed

lemma plain_not_ipv6:
  assumes "plain_host h" and "CHR '':'' \<notin> set ds"
  shows "\<not> is_ipv6_str (h @ CHR '':'' # ds)" and "\<not> is_ipv6_str h"
proof -
  have h: "CHR '':'' \<notin> set h" using assms(1) unfolding plain_host_def by blast
  have "CHR '':'' \<in> set s" if "is_ipv6_str s" for s using that ipv6_core_colon unfolding is_ipv6_iff by fastforce
  with h show "\<not> is_ipv6_str h" by blast
  have two: "count_list (CHR ''['' # a @ '']:'' @ p) CHR '':'' \<ge> 2" if "rx_matches ipv6_core a" for a p
  proof -
    have "count_list a CHR '':'' \<noteq> 0" unfolding count_list_0_iff using ipv6_core_colon [OF that] by blast
    then show ?thesis by simp
  qed
  have "count_list (h @ CHR '':'' # ds) CHR '':'' = 1" using h assms(2) by (simp add: count_notin)
  with two plain_not_core [OF assms(1), of ds] show "\<not> is_ipv6_str (h @ CHR '':'' # ds)"
    unfolding is_ipv6_iff by (metis Suc_1 not_less_eq_eq order_refl One_nat_def)
qed

lemma parse_i32_show: "0 < p \<Longrightarrow> p < 2 ^ 31 \<Longrightarrow> parse_i32 (show_int p) = Some p"
  by (simp add: parse_i32_def show_int_nat parse_show_nat)

lemma host_and_port_plain:
  assumes "plain_host h" and "0 < p" and "p < 2 ^ 31"
  shows "host_and_port (check_port h p) = Some (h, p)" and "is_ipv6_str (check_port h p) = False"
    and "check_port h p = h @ '':'' @ show_int p"
proof -
  have c: "CHR '':'' \<notin> set (show_int p)" using show_nat_chars [of "CHR '':''" "nat p"] assms(2) by (simp add: show_int_nat)
  note n = plain_not_ipv6 [OF assms(1) c]
  have h: "CHR '':'' \<notin> set h" using assms(1) by (simp add: plain_host_def)
  show eq: "check_port h p = h @ '':'' @ show_int p" using n h by (simp add: check_port_def)
  show "is_ipv6_str (check_port h p) = False" using n eq by simp
  show "host_and_port (check_port h p) = Some (h, p)"
    using n h c parse_i32_show [OF assms(2,3)] assms(2)
    by (simp add: eq host_and_port_def split_on_append split_on_no_sep unwrap_or_def Let_def)
qed

lemma host_and_port_ipv6:
  assumes "rx_matches ipv6_core h" and "0 < p" and "p < 2 ^ 31"
  shows "host_and_port (check_port h p) = Some (CHR ''['' # h, p)" and "is_ipv6_str (check_port h p)"
    and "check_port h p = CHR ''['' # h @ '']:'' @ show_int p"
proof -
  have d: "show_int p \<noteq> []" "list_all digit (show_int p)" using show_nat_digits [of "nat p"] assms(2) by (simp_all add: show_int_nat)
  have b: "CHR '']'' \<notin> set h" "CHR ''['' \<notin> set h" using ipv6_core_chars [OF assms(1)] hex_not by blast+
  have "CHR '']'' \<notin> set (show_int p)" using show_nat_chars [of "CHR '']''" "nat p"] assms(2) by (simp add: show_int_nat)
  then have sp: "split_on2 CHR '']'' CHR '':'' ((CHR ''['' # h) @ CHR '']'' # CHR '':'' # show_int p) = [CHR ''['' # h, show_int p]"
    using b by (subst split_on2_append) (simp_all add: split_on2_no_sep)
  have "h \<noteq> []" using ipv6_core_first [OF assms(1)] by auto
  then have "hd h \<noteq> CHR ''[''" using b(2) by (cases h) auto
  then show eq: "check_port h p = CHR ''['' # h @ '']:'' @ show_int p" using assms(1) by (simp add: check_port_def is_ipv6_iff)
  show six: "is_ipv6_str (check_port h p)" unfolding eq is_ipv6_iff using assms(1) d by blast
  show "host_and_port (check_port h p) = Some (CHR ''['' # h, p)"
    using six sp parse_i32_show [OF assms(2,3)] assms(2) unfolding eq by (simp add: host_and_port_def unwrap_or_def Let_def)
qed

text \<open>
  A host and a port put together are found again: for a host name without colon that is not itself one to
  four hexadecimal digits, splitting the joined string gives the host and the port, and adding to the port gives
  the string joined with the new port; a bare IPv6 address is put in brackets and treated alike.
\<close>

theorem host_port_roundtrip:
  assumes "0 < p" and "p < 2 ^ 31" and "0 < p + k" and "p + k < 2 ^ 31"
  shows "(plain_host h \<longrightarrow> split_host_port (check_port h p) = Some (h, p) \<and> increase_port (check_port h p) k = check_port h (p + k))
    \<and> (rx_run ipv6_core h \<longrightarrow> split_host_port (check_port h p) = Some (''['' @ h @ '']'', p)
         \<and> increase_port (check_port h p) k = check_port h (p + k))"
proof -
  have "sint (word_of_int q :: i32) = q" if "0 < q" "q < 2 ^ 31" for q
    using that by (simp add: signed_of_int signed_take_bit_int_eq_self)
  from this [OF assms(3,4)] have "sint (word_of_int (p + k) :: i32) = p + k" .
  then show ?thesis
    using host_and_port_plain [of h p] host_and_port_plain(3) [of h "p + k"] host_and_port_ipv6 [of h p] host_and_port_ipv6(3) [of h "p + k"] assms
    by (simp add: split_host_port_def increase_port_def rx_run_matches)
qed

theorem host_port_roundtrip_witness:
  "split_host_port (check_port ''example'' 21116) = Some (''example'', 21116) \<and> increase_port (check_port ''1:2::3'' 12) 1 = check_port ''1:2::3'' 13"
proof
  have "plain_host ''example''" by (simp add: plain_host_def)
  then show "split_host_port (check_port ''example'' 21116) = Some (''example'', 21116)"
    using host_port_roundtrip [of 21116 0 "''example''"] by simp
  have "rx_run ipv6_core ''1:2::3''" by code_simp
  then show "increase_port (check_port ''1:2::3'' 12) 1 = check_port ''1:2::3'' 13"
    using host_port_roundtrip [of 12 1 "''1:2::3''"] by simp
qed

text \<open>A host named like a group of hexadecimal digits is taken for an IPv6 address and its port is not found.\<close>

lemma hex_host_port_lost: "split_host_port (check_port ''cafe'' 80) = None \<and> increase_port (check_port ''cafe'' 80) 1 = ''cafe:80''"
proof -
  have "\<not> is_ipv6_str ''cafe''" "is_ipv6_str ''cafe:80''" by code_simp+
  moreover have "show_int 80 = ''80''" by code_simp
  ultimately show ?thesis by (simp add: check_port_def split_host_port_def increase_port_def host_and_port_def)
qed

end
