(* ===== verification/Password_Security.thy ===== *)
theory Password_Security
  imports Prelude
begin

text \<open>
  Password settings and the storage encryption of secrets, \<open>libs/hbb_common/src/password_security.rs\<close>,
  with the option reading it uses (\<open>option2bool\<close> of \<open>config.rs\<close>). The option store is a parameter
  \<open>opt\<close>; the cipher and base64 of the sodiumoxide library are parameters, with the round trips they
  document as hypotheses of the theorems. A Rust string is the list of its UTF-8 bytes where its
  bytes matter.
\<close>

subsection \<open>Options\<close>

definition starts_with :: "string \<Rightarrow> string \<Rightarrow> bool" where
  "starts_with s p \<longleftrightarrow> take (length p) s = p"

definition option2bool :: "string \<Rightarrow> string \<Rightarrow> bool" where
  "option2bool option value =
     (if starts_with option ''enable-'' then value \<noteq> ''N''
      else if starts_with option ''allow-'' \<or> option = ''stop-service'' \<or> option = ''direct-server''
        \<or> option = ''force-always-relay''
      then value = ''Y''
      else value \<noteq> ''N'')"

datatype verification_method = OnlyUseTemporaryPassword | OnlyUsePermanentPassword | UseBothPasswords

datatype approve_mode = ApproveBoth | ApprovePassword | ApproveClick | ApproveAuto

definition get_verification_method :: "(string \<Rightarrow> string) \<Rightarrow> verification_method" where
  "get_verification_method opt =
    (let m = opt ''verification-method'' in
     if m = ''use-temporary-password'' then OnlyUseTemporaryPassword
     else if m = ''use-permanent-password'' then OnlyUsePermanentPassword
     else UseBothPasswords)"

definition temporary_password_length :: "(string \<Rightarrow> string) \<Rightarrow> nat" where
  "temporary_password_length opt =
    (let l = opt ''temporary-password-length'' in if l = ''8'' then 8 else if l = ''10'' then 10 else 6)"

text \<open>\<open>numeric\<close> and \<open>mixed\<close> are the random generators of \<open>Config\<close>, by length.\<close>

definition get_auto_password :: "(string \<Rightarrow> string) \<Rightarrow> (nat \<Rightarrow> bytes) \<Rightarrow> (nat \<Rightarrow> bytes) \<Rightarrow> bytes" where
  "get_auto_password opt numeric mixed =
    (let len = temporary_password_length opt;
         k = ''allow-numeric-one-time-password'' in
     if option2bool k (opt k) then numeric len else mixed len)"

definition temporary_enabled :: "(string \<Rightarrow> string) \<Rightarrow> bool" where
  "temporary_enabled opt \<longleftrightarrow> get_verification_method opt \<noteq> OnlyUsePermanentPassword"

definition permanent_enabled :: "(string \<Rightarrow> string) \<Rightarrow> bool" where
  "permanent_enabled opt \<longleftrightarrow> get_verification_method opt \<noteq> OnlyUseTemporaryPassword"

definition has_valid_password :: "(string \<Rightarrow> string) \<Rightarrow> bytes \<Rightarrow> bytes \<Rightarrow> bool" where
  "has_valid_password opt temporary permanent \<longleftrightarrow>
     temporary_enabled opt \<and> temporary \<noteq> [] \<or> permanent_enabled opt \<and> permanent \<noteq> []"

definition get_approve_mode :: "(string \<Rightarrow> string) \<Rightarrow> approve_mode" where
  "get_approve_mode opt =
    (let m = opt ''approve-mode'' in
     if m = ''password'' then ApprovePassword
     else if m = ''click'' then ApproveClick
     else if m = ''both'' then ApproveBoth
     else ApproveAuto)"

definition hide_cm :: "(string \<Rightarrow> string) \<Rightarrow> bool" where
  "hide_cm opt \<longleftrightarrow> get_approve_mode opt = ApprovePassword
     \<and> get_verification_method opt = OnlyUsePermanentPassword
     \<and> option2bool ''allow-hide-cm'' (opt ''allow-hide-cm'')"

subsection \<open>Encryption of stored secrets\<close>

definition VERSION_LEN :: nat where "VERSION_LEN = 2"

definition version00 :: bytes where "version00 = [48, 48]"

text \<open>
  The primitives: sealing and opening a secret box (key and nonce fixed as in the source: the key is
  the machine id cut or padded to the key length, the nonce is all zeros) and base64.
\<close>

record crypto_ops =
  co_uuid :: bytes
  co_keybytes :: nat
  co_noncebytes :: nat
  co_seal :: "bytes \<Rightarrow> bytes \<Rightarrow> bytes \<Rightarrow> bytes"
  co_open :: "bytes \<Rightarrow> bytes \<Rightarrow> bytes \<Rightarrow> bytes option"
  co_b64_encode :: "bytes \<Rightarrow> bytes"
  co_b64_decode :: "bytes \<Rightarrow> bytes option"
  co_utf8_lossy :: "bytes \<Rightarrow> bytes"

definition resize :: "nat \<Rightarrow> bytes \<Rightarrow> bytes" where
  "resize n bs = take n (bs @ replicate (n - length bs) 0)"

definition symmetric_crypt :: "crypto_ops \<Rightarrow> bytes \<Rightarrow> bool \<Rightarrow> bytes option" where
  "symmetric_crypt co data encrypt =
    (let key = resize (co_keybytes co) (co_uuid co); nonce = replicate (co_noncebytes co) 0 in
     if encrypt then Some (co_seal co data nonce key) else co_open co data nonce key)"

definition ps_encrypt :: "crypto_ops \<Rightarrow> bytes \<Rightarrow> bytes option" where
  "ps_encrypt co v = (if v \<noteq> [] then map_option (co_b64_encode co) (symmetric_crypt co v True) else None)"

definition ps_decrypt :: "crypto_ops \<Rightarrow> bytes \<Rightarrow> bytes option" where
  "ps_decrypt co v =
     (if v \<noteq> [] then Option.bind (co_b64_decode co v) (\<lambda>v. symmetric_crypt co v False) else None)"

definition decrypt_vec_or_original :: "crypto_ops \<Rightarrow> bytes \<Rightarrow> bytes \<Rightarrow> bytes \<times> bool \<times> bool" where
  "decrypt_vec_or_original co v current_version =
    (if length v > VERSION_LEN \<and> take VERSION_LEN v = version00 then
       (case ps_decrypt co (drop VERSION_LEN v) of
          Some d \<Rightarrow> (d, True, version00 \<noteq> current_version)
        | None \<Rightarrow> (v, False, v \<noteq> []))
     else (v, False, v \<noteq> []))"

definition encrypt_vec_or_original :: "crypto_ops \<Rightarrow> bytes \<Rightarrow> bytes \<Rightarrow> nat \<Rightarrow> bytes" where
  "encrypt_vec_or_original co v version max_len =
    (if fst (snd (decrypt_vec_or_original co v version)) then v
     else if length v > max_len then []
     else if version = version00 then
       (case ps_encrypt co v of Some s \<Rightarrow> version @ s | None \<Rightarrow> v)
     else v)"

text \<open>The string variants: lengths in characters for the limit, and lossy UTF-8 on the way back.\<close>

definition char_count :: "bytes \<Rightarrow> nat" where
  "char_count bs = length (filter (\<lambda>b. b AND 0xC0 \<noteq> 0x80) bs)"

definition decrypt_str_or_original :: "crypto_ops \<Rightarrow> bytes \<Rightarrow> bytes \<Rightarrow> bytes \<times> bool \<times> bool" where
  "decrypt_str_or_original co s current_version =
    (if length s > VERSION_LEN \<and> take VERSION_LEN s = version00 then
       (case ps_decrypt co (drop VERSION_LEN s) of
          Some v \<Rightarrow> (co_utf8_lossy co v, True, version00 \<noteq> current_version)
        | None \<Rightarrow> (s, False, s \<noteq> []))
     else (s, False, s \<noteq> []))"

definition encrypt_str_or_original :: "crypto_ops \<Rightarrow> bytes \<Rightarrow> bytes \<Rightarrow> nat \<Rightarrow> bytes" where
  "encrypt_str_or_original co s version max_len =
    (if fst (snd (decrypt_str_or_original co s version)) then s
     else if char_count s > max_len then []
     else if version = version00 then
       (case ps_encrypt co s of Some e \<Rightarrow> version @ e | None \<Rightarrow> s)
     else s)"

subsection \<open>Properties\<close>

text \<open>What the theorems use of the library: the round trips of the box and of base64.\<close>

definition crypto_roundtrips :: "crypto_ops \<Rightarrow> bool" where
  "crypto_roundtrips co \<longleftrightarrow>
     (\<forall>d n k. co_open co (co_seal co d n k) n k = Some d) \<and> (\<forall>d. co_b64_decode co (co_b64_encode co d) = Some d)
   \<and> (\<forall>d. d \<noteq> [] \<longrightarrow> co_b64_encode co d \<noteq> []) \<and> (\<forall>d n k. co_seal co d n k \<noteq> [])"

lemma ps_decrypt_encrypt:
  assumes "crypto_roundtrips co" and "ps_encrypt co v = Some e"
  shows "ps_decrypt co e = Some v \<and> e \<noteq> []"
  using assms
  by (auto simp: ps_encrypt_def ps_decrypt_def symmetric_crypt_def crypto_roundtrips_def Let_def split: if_splits)

lemma ps_encrypt_Some: "v \<noteq> [] \<Longrightarrow> \<exists>e. ps_encrypt co v = Some e"
  by (simp add: ps_encrypt_def symmetric_crypt_def Let_def)

lemma decrypt_of_version: 
  "ps_decrypt co e = Some d \<Longrightarrow> e \<noteq> [] \<Longrightarrow> decrypt_vec_or_original co (version00 @ e) version00 = (d, True, False)"
  by (simp add: decrypt_vec_or_original_def version00_def VERSION_LEN_def)

text \<open>
  Stored secrets round-trip: a non-empty secret within the length limit that is not itself a
  stored secret is encrypted to something that decrypts to it, is recognised as encrypted and needs no
  rewriting, and encrypting again changes nothing. A secret over the limit is dropped, and the empty
  secret is stored as it is.
\<close>

theorem stored_secret_roundtrip:
  assumes "crypto_roundtrips co" and "\<not> fst (snd (decrypt_vec_or_original co v version00))"
  shows "(v \<noteq> [] \<and> length v \<le> max_len \<longrightarrow>
        decrypt_vec_or_original co (encrypt_vec_or_original co v version00 max_len) version00 = (v, True, False)
      \<and> encrypt_vec_or_original co (encrypt_vec_or_original co v version00 max_len) version00 max_len
          = encrypt_vec_or_original co v version00 max_len)
    \<and> (length v > max_len \<longrightarrow> encrypt_vec_or_original co v version00 max_len = [])
    \<and> encrypt_vec_or_original co [] version00 max_len = []"
proof (intro conjI impI)
  assume "v \<noteq> [] \<and> length v \<le> max_len"
  then obtain e where e: "ps_encrypt co v = Some e" using ps_encrypt_Some by blast
  then have enc: "encrypt_vec_or_original co v version00 max_len = version00 @ e"
    using assms(2) \<open>v \<noteq> [] \<and> length v \<le> max_len\<close> by (simp add: encrypt_vec_or_original_def)
  show dec: "decrypt_vec_or_original co (encrypt_vec_or_original co v version00 max_len) version00 = (v, True, False)"
    using ps_decrypt_encrypt [OF assms(1) e] by (simp add: enc decrypt_of_version)
  show "encrypt_vec_or_original co (encrypt_vec_or_original co v version00 max_len) version00 max_len
      = encrypt_vec_or_original co v version00 max_len"
    using dec by (subst encrypt_vec_or_original_def) simp
next
  show "encrypt_vec_or_original co v version00 max_len = []" if "length v > max_len"
    using assms(2) that by (simp add: encrypt_vec_or_original_def)
  show "encrypt_vec_or_original co [] version00 max_len = []"
    by (simp add: encrypt_vec_or_original_def decrypt_vec_or_original_def ps_encrypt_def)
qed

definition demo_crypto :: crypto_ops where
  "demo_crypto = \<lparr>co_uuid = [1, 2], co_keybytes = 4, co_noncebytes = 3,
     co_seal = (\<lambda>d n k. 7 # d), co_open = (\<lambda>c n k. Some (tl c)), co_b64_encode = (\<lambda>d. 65 # d),
     co_b64_decode = (\<lambda>d. Some (tl d)), co_utf8_lossy = id\<rparr>"

theorem stored_secret_roundtrip_witness:
  "decrypt_vec_or_original demo_crypto (encrypt_vec_or_original demo_crypto [49, 50] version00 128) version00
   = ([49, 50], True, False)"
proof -
  have "crypto_roundtrips demo_crypto" by (simp add: crypto_roundtrips_def demo_crypto_def)
  moreover have "\<not> fst (snd (decrypt_vec_or_original demo_crypto [49, 50] version00))"
    by (simp add: decrypt_vec_or_original_def VERSION_LEN_def)
  ultimately show ?thesis using stored_secret_roundtrip [of demo_crypto "[49, 50]" 128] by simp
qed

end
