(* ===== verification/Option_Store.thy ===== *)
theory Option_Store
  imports Net_Util Password_Security
begin

text \<open>
  The options of \<open>libs/hbb_common/src/config.rs\<close>: three layers (settings that overwrite, the stored options,
  defaults) looked up in this order, and the ways to set an option in \<open>Config\<close>, \<open>LocalConfig\<close>, the
  options of the user interface and \<open>UserDefaultConfig\<close>. Each setter also tells whether it writes the file.
  What the readers and setters promise together is the locale \<open>option_layers\<close>, interpreted for each store.
\<close>

type_synonym settings = "(string, string) hmap"

subsection \<open>Layers\<close>

definition get_or :: "settings \<Rightarrow> settings \<Rightarrow> settings \<Rightarrow> string \<Rightarrow> string option" where
  "get_or a b c k = (case hm_get a k of Some v \<Rightarrow> Some v | None \<Rightarrow> (case hm_get b k of Some v \<Rightarrow> Some v | None \<Rightarrow> hm_get c k))"

definition is_option_can_save :: "settings \<Rightarrow> string \<Rightarrow> settings \<Rightarrow> string \<Rightarrow> bool" where
  "is_option_can_save overwrite k defaults v \<longleftrightarrow> \<not> (hm_contains overwrite k \<or> hm_get defaults k = Some v)"

definition unwrap_or_default :: "string option \<Rightarrow> string" where
  "unwrap_or_default x = (case x of Some v \<Rightarrow> v | None \<Rightarrow> [])"

subsection \<open>Options of the service\<close>

definition hm_extend :: "('k, 'v) hmap \<Rightarrow> ('k, 'v) hmap \<Rightarrow> ('k, 'v) hmap" where
  "hm_extend m m' = fold (\<lambda>(k, v). hm_insert k v) m' m"

definition hm_eq :: "('k, 'v) hmap \<Rightarrow> ('k, 'v) hmap \<Rightarrow> bool" where
  "hm_eq m m' \<longleftrightarrow> list_all (\<lambda>(k, v). hm_get m' k = Some v) m \<and> list_all (\<lambda>(k, v). hm_get m k = Some v) m'"

definition config_get_option :: "settings \<Rightarrow> settings \<Rightarrow> settings \<Rightarrow> string \<Rightarrow> string" where
  "config_get_option overwrite defaults options k = unwrap_or_default (get_or overwrite options defaults k)"

definition config_get_options :: "settings \<Rightarrow> settings \<Rightarrow> settings \<Rightarrow> settings" where
  "config_get_options overwrite defaults options = hm_extend (hm_extend defaults options) overwrite"

definition purify_options :: "settings \<Rightarrow> settings \<Rightarrow> settings \<Rightarrow> settings" where
  "purify_options overwrite defaults v = hm_retain (\<lambda>k v. is_option_can_save overwrite k defaults v) v"

definition config_set_options :: "settings \<Rightarrow> settings \<Rightarrow> settings \<Rightarrow> settings \<Rightarrow> settings \<times> bool" where
  "config_set_options overwrite defaults v options =
    (let v = purify_options overwrite defaults v in if hm_eq options v then (options, False) else (v, True))"

definition config_set_option :: "settings \<Rightarrow> settings \<Rightarrow> string \<Rightarrow> string \<Rightarrow> settings \<Rightarrow> settings \<times> bool" where
  "config_set_option overwrite defaults k v options =
    (if \<not> is_option_can_save overwrite k defaults v then (hm_remove k options, hm_contains options k)
     else let v2 = (if v = [] then None else Some v) in
       if v2 \<noteq> hm_get options k then (if v2 = None then hm_remove k options else hm_insert k v options, True)
       else (options, False))"

definition config_get_bool_option :: "settings \<Rightarrow> settings \<Rightarrow> settings \<Rightarrow> string \<Rightarrow> bool" where
  "config_get_bool_option overwrite defaults options k = option2bool k (config_get_option overwrite defaults options k)"

subsection \<open>Options of the user interface\<close>

definition local_set_option :: "settings \<Rightarrow> settings \<Rightarrow> string \<Rightarrow> string \<Rightarrow> settings \<Rightarrow> settings \<times> bool" where
  "local_set_option overwrite defaults k v options =
    (if \<not> is_option_can_save overwrite k defaults v then (hm_remove k options, hm_contains options k)
     else if k = ''lang'' \<and> v = ''default'' then (hm_insert k [] options, True)
     else let v2 = (if v = [] then None else Some v) in
       if v2 \<noteq> hm_get options k then (if v2 = None then hm_remove k options else hm_insert k v options, True)
       else (options, False))"

definition set_flutter_option :: "string \<Rightarrow> string \<Rightarrow> settings \<Rightarrow> settings \<times> bool" where
  "set_flutter_option k v options =
    (let v2 = (if v = [] then None else Some v) in
     if v2 \<noteq> hm_get options k then (if v2 = None then hm_remove k options else hm_insert k v options, True)
     else (options, False))"

definition user_default_set :: "settings \<Rightarrow> settings \<Rightarrow> string \<Rightarrow> string \<Rightarrow> settings \<Rightarrow> settings \<times> bool" where
  "user_default_set overwrite defaults key v options =
    (if \<not> is_option_can_save overwrite key defaults v then (hm_remove key options, hm_contains options key)
     else (if v = [] then hm_remove key options else hm_insert key v options, True))"

definition get_string :: "(string \<Rightarrow> string option) \<Rightarrow> string \<Rightarrow> string \<Rightarrow> string list \<Rightarrow> string" where
  "get_string get_after key dflt others =
    (case get_after key of
       Some opt \<Rightarrow> if opt \<in> set others then opt else dflt
     | None \<Rightarrow> dflt)"

text \<open>Parsing and printing of the number type are arguments, as in the generic function.\<close>

definition get_num_string ::
    "(string \<Rightarrow> 'n::linorder option) \<Rightarrow> ('n \<Rightarrow> string) \<Rightarrow> (string \<Rightarrow> string option) \<Rightarrow> string \<Rightarrow> 'n \<Rightarrow> 'n \<Rightarrow> 'n \<Rightarrow> string" where
  "get_num_string parse to_string get_after key dflt lo hi =
    (case get_after key of
       Some opt \<Rightarrow>
         let v = unwrap_or (parse opt) dflt in if v \<ge> lo \<and> v \<le> hi then to_string v else to_string dflt
     | None \<Rightarrow> to_string dflt)"

text \<open>\<open>UserDefaultConfig::get\<close> on a desktop; \<open>parse\<close> and \<open>to_string\<close> are those of \<open>f64\<close>.\<close>

definition user_default_get :: "(string \<Rightarrow> 'f::{linorder,numeral} option) \<Rightarrow> ('f \<Rightarrow> string) \<Rightarrow> settings \<Rightarrow> settings \<Rightarrow> settings
    \<Rightarrow> string \<Rightarrow> string" where
  "user_default_get parse to_string overwrite defaults options key =
    (let get_after = get_or overwrite options defaults in
     if key = ''view_style'' then get_string get_after key ''original'' [''adaptive'']
     else if key = ''scroll_style'' then get_string get_after key ''scrollauto'' [''scrolledge'', ''scrollbar'']
     else if key = ''image_quality'' then get_string get_after key ''balanced'' [''best'', ''low'', ''custom'']
     else if key = ''codec-preference'' then get_string get_after key ''auto'' [''vp8'', ''vp9'', ''av1'', ''h264'', ''h265'']
     else if key = ''custom_image_quality'' then get_num_string parse to_string get_after key 50 10 4095
     else if key = ''custom-fps'' then get_num_string parse to_string get_after key 30 5 120
     else if key = ''enable-file-copy-paste'' then get_string get_after key ''Y'' [[], ''N'']
     else if key = ''edge-scroll-edge-thickness'' then get_num_string parse_i32 show_int get_after key 100 20 150
     else if key = ''trackpad-speed'' then get_num_string parse_i32 show_int get_after key 100 10 1000
     else unwrap_or_default (get_after key))"

definition status_get :: "settings \<Rightarrow> string \<Rightarrow> string" where
  "status_get values k = unwrap_or_default (hm_get values k)"

definition status_set :: "string \<Rightarrow> string \<Rightarrow> settings \<Rightarrow> settings \<times> bool" where
  "status_set k v values = (if status_get values k = v then (values, False) else (hm_insert k v values, True))"

subsection \<open>Fixed settings\<close>

definition is_incoming_only :: "settings \<Rightarrow> bool" where
  "is_incoming_only hard \<longleftrightarrow> hm_get hard ''conn-type'' = Some ''incoming''"

definition is_outgoing_only :: "settings \<Rightarrow> bool" where
  "is_outgoing_only hard \<longleftrightarrow> hm_get hard ''conn-type'' = Some ''outgoing''"

definition is_some_hard_opton :: "settings \<Rightarrow> string \<Rightarrow> bool" where
  "is_some_hard_opton hard name \<longleftrightarrow> hm_get hard name = Some ''Y''"

definition is_disable_tcp_listen :: "settings \<Rightarrow> bool" where
  "is_disable_tcp_listen hard = is_some_hard_opton hard ''disable-tcp-listen''"

definition is_disable_settings :: "settings \<Rightarrow> bool" where
  "is_disable_settings hard = is_some_hard_opton hard ''disable-settings''"

definition no_register_device :: "settings \<Rightarrow> bool" where
  "no_register_device builtin \<longleftrightarrow> hm_get builtin ''register-device'' = Some ''N''"

subsection \<open>What a store of options promises\<close>

locale option_layers =
  fixes overwrite defaults :: settings
    and rd :: "'s \<Rightarrow> string \<Rightarrow> string option"
    and wr :: "string \<Rightarrow> string \<Rightarrow> 's \<Rightarrow> 's"
  assumes read_overwrite: "hm_get overwrite k = Some v \<Longrightarrow> rd s k = Some v"
    and read_write: "hm_get overwrite k = None \<Longrightarrow> rd (wr k v s) k = (if v = [] then hm_get defaults k else Some v)"
    and read_write_other: "k' \<noteq> k \<Longrightarrow> rd (wr k v s) k' = rd s k'"
begin

lemma read_write_same:
  "rd (wr k v s) k = (case hm_get overwrite k of Some x \<Rightarrow> Some x | None \<Rightarrow> if v = [] then hm_get defaults k else Some v)"
  using read_overwrite read_write by (simp split: option.split)

lemma last_write_wins: "rd (wr k v (wr k w s)) = rd (wr k v s)"
proof
  fix k' show "rd (wr k v (wr k w s)) k' = rd (wr k v s) k'"
    by (cases "k' = k") (simp_all add: read_write_same read_write_other)
qed

lemma writes_commute: "k \<noteq> k' \<Longrightarrow> rd (wr k v (wr k' w s)) = rd (wr k' w (wr k v s))"
proof
  fix k'' assume "k \<noteq> k'"
  then show "rd (wr k v (wr k' w s)) k'' = rd (wr k' w (wr k v s)) k''"
    by (cases "k'' = k"; cases "k'' = k'") (simp_all add: read_write_same read_write_other)
qed

lemma overwritten_fixed: "hm_get overwrite k = Some x \<Longrightarrow> rd (fold (\<lambda>(k, v). wr k v) kvs s) k = Some x"
  by (rule read_overwrite)

lemma writes_other: "k \<notin> fst ` set kvs \<Longrightarrow> rd (fold (\<lambda>(k, v). wr k v) kvs s) k = rd s k"
  by (induction kvs arbitrary: s) (auto simp: read_write_other)

text \<open>A sequence of writes leaves the last value of each key.\<close>

lemma read_writes:
  "rd (fold (\<lambda>(k, v). wr k v) kvs s) k =
     (case hm_get overwrite k of
        Some x \<Rightarrow> Some x
      | None \<Rightarrow> (case map_of (rev kvs) k of
                 Some v \<Rightarrow> if v = [] then hm_get defaults k else Some v
               | None \<Rightarrow> rd s k))"
proof (induction kvs arbitrary: s)
  case Nil
  then show ?case using read_overwrite by (simp split: option.split)
next
  case (Cons kv kvs)
  obtain k' v' where "kv = (k', v')" by fastforce
  with Cons.IH [of "wr k' v' s"] show ?case
    by (auto simp: read_write_same read_write_other map_add_def split: option.split)
qed

end

lemmas option_store_defs = get_or_def is_option_can_save_def hm_contains_def Let_def hmap_simps

interpretation co: option_layers ov df "\<lambda>m. get_or ov m df" "\<lambda>k v m. fst (config_set_option ov df k v m)" for ov df
  by unfold_locales
    (auto simp: config_set_option_def option_store_defs split: option.splits)

interpretation fo: option_layers ov df "\<lambda>m. get_or ov m df" "\<lambda>k v m. fst (set_flutter_option k v m)" for ov df
  by unfold_locales (auto simp: set_flutter_option_def option_store_defs split: option.splits)

interpretation ud: option_layers ov df "\<lambda>m. get_or ov m df" "\<lambda>k v m. fst (user_default_set ov df k v m)" for ov df
  by unfold_locales (auto simp: user_default_set_def option_store_defs split: option.splits)

subsection \<open>Properties\<close>

text \<open>
  C36. The options of the service behave like one map under the settings that overwrite: after any sequence of
  settings, an option that is overwritten has that value; otherwise it has the last value set, the default when
  that value is empty, and what it had before when it was not set.
\<close>

theorem config_options_spec:
  "config_get_option ov df (fold (\<lambda>(k, v) m. fst (config_set_option ov df k v m)) kvs m) k =
     (case hm_get ov k of
        Some x \<Rightarrow> x
      | None \<Rightarrow> (case map_of (rev kvs) k of
                 Some v \<Rightarrow> if v = [] then unwrap_or_default (hm_get df k) else v
               | None \<Rightarrow> config_get_option ov df m k))"
  using co.read_writes [of ov df kvs m k]
  by (auto simp: config_get_option_def unwrap_or_default_def split: option.splits)

lemma hm_get_extend: "hm_wf m' \<Longrightarrow> hm_get (hm_extend m m') k = (case hm_get m' k of Some v \<Rightarrow> Some v | None \<Rightarrow> hm_get m k)"
proof (induction m' arbitrary: m)
  case (Cons kv m')
  obtain k' v' where kv: "kv = (k', v')" by fastforce
  with Cons.prems have "hm_wf m'" "hm_get m' k' = None" by (auto simp: hm_wf_def hm_get_def map_of_eq_None_iff)
  moreover have "hm_extend m (kv # m') = hm_extend (hm_insert k' v' m) m'" by (simp add: hm_extend_def kv)
  moreover have "hm_get (kv # m') k = (if k = k' then Some v' else hm_get m' k)" by (simp add: hm_get_def kv)
  ultimately show ?case using Cons.IH [of "hm_insert k' v' m"] by (auto simp: hmap_simps split: option.split)
qed (simp add: hm_extend_def)

text \<open>
  The two ways of reading the options agree: a key has in the merged map of all options exactly the value
  that reading the single option looks up.
\<close>

theorem get_options_agree:
  assumes "hm_wf options" and "hm_wf ov"
  shows "config_get_option ov df options k = unwrap_or_default (hm_get (config_get_options ov df options) k)"
  using assms by (simp add: config_get_option_def config_get_options_def hm_get_extend get_or_def split: option.split)

theorem get_options_agree_witness:
  "config_get_option [(''b'', ''c'')] [(''b'', ''a'')] [(''a'', ''b'')] ''b''
     = unwrap_or_default (hm_get (config_get_options [(''b'', ''c'')] [(''b'', ''a'')] [(''a'', ''b'')]) ''b'')"
  using get_options_agree [of "[(''a'', ''b'')]" "[(''b'', ''c'')]"] by (simp add: hm_wf_def)

text \<open>Only options that may be saved are kept.\<close>

definition options_pure :: "settings \<Rightarrow> settings \<Rightarrow> settings \<Rightarrow> bool" where
  "options_pure ov df m \<longleftrightarrow> hm_all (\<lambda>k v. is_option_can_save ov k df v) m"

datatype option_op = SetOption string string | SetOptions settings

fun option_step :: "settings \<Rightarrow> settings \<Rightarrow> option_op \<Rightarrow> settings \<Rightarrow> settings" where
  "option_step ov df (SetOption k v) m = fst (config_set_option ov df k v m)"
| "option_step ov df (SetOptions v) m = fst (config_set_options ov df v m)"

lemma option_step_pure: "options_pure ov df m \<Longrightarrow> options_pure ov df (option_step ov df op m)"
proof (cases op)
  case (SetOptions v)
  have "hm_all (\<lambda>k v. is_option_can_save ov k df v) (purify_options ov df v)"
    by (auto simp: purify_options_def hm_all_iff hm_retain_def)
  then show "options_pure ov df m \<Longrightarrow> ?thesis" using SetOptions by (auto simp: options_pure_def config_set_options_def Let_def)
qed (auto simp: options_pure_def config_set_option_def Let_def)

lemma local_set_option_spec:
  assumes "hm_get ov k = None" and "\<not> (k = ''lang'' \<and> v = ''default'')"
  shows "get_or ov (fst (local_set_option ov df k v m)) df k = (if v = [] then hm_get df k else Some v)"
    and "k' \<noteq> k \<Longrightarrow> get_or ov (fst (local_set_option ov df k v m)) df k' = get_or ov m df k'"
  using assms by (auto simp: local_set_option_def option_store_defs split: option.splits)

text \<open>
  Display defaults are always valid: whatever the three layers hold, the choice of view, scroll style, image
  quality and codec is one of the values the program knows, and the trackpad speed and the edge thickness read as
  numbers within their limits.
\<close>

theorem user_defaults_valid:
  "user_default_get parse to_string ov df m ''view_style'' \<in> {''original'', ''adaptive''}
   \<and> user_default_get parse to_string ov df m ''scroll_style'' \<in> {''scrollauto'', ''scrolledge'', ''scrollbar''}
   \<and> user_default_get parse to_string ov df m ''image_quality'' \<in> {''balanced'', ''best'', ''low'', ''custom''}
   \<and> user_default_get parse to_string ov df m ''codec-preference'' \<in> {''auto'', ''vp8'', ''vp9'', ''av1'', ''h264'', ''h265''}
   \<and> (\<exists>n. parse_i32 (user_default_get parse to_string ov df m ''trackpad-speed'') = Some n \<and> 10 \<le> n \<and> n \<le> 1000)
   \<and> (\<exists>n. parse_i32 (user_default_get parse to_string ov df m ''edge-scroll-edge-thickness'') = Some n \<and> 20 \<le> n \<and> n \<le> 150)"
proof -
  let ?g = "get_or ov m df"
  have str: "get_string g k d os \<in> set (d # os)" for g k d os by (auto simp: get_string_def split: option.splits)
  have num: "\<exists>n. parse_i32 (get_num_string parse_i32 show_int g k d lo hi) = Some n \<and> lo \<le> n \<and> n \<le> hi"
    if "0 < lo" "lo \<le> d" "d \<le> hi" "hi < 2 ^ 31" for g k d lo hi
    using that parse_i32_show by (auto simp: get_num_string_def Let_def split: option.splits)
  show ?thesis
    using str [of ?g "''view_style''" "''original''" "[''adaptive'']"]
      str [of ?g "''scroll_style''" "''scrollauto''" "[''scrolledge'', ''scrollbar'']"]
      str [of ?g "''image_quality''" "''balanced''" "[''best'', ''low'', ''custom'']"]
      str [of ?g "''codec-preference''" "''auto''" "[''vp8'', ''vp9'', ''av1'', ''h264'', ''h265'']"]
      num [of 10 100 1000 ?g "''trackpad-speed''"] num [of 20 100 150 ?g "''edge-scroll-edge-thickness''"]
    by (simp add: user_default_get_def Let_def)
qed

interpretation op: op_invariant "option_step ov df" "options_pure ov df" for ov df
  by unfold_locales (rule option_step_pure)

text \<open>
  The configuration never stores what it must not: from options that may be saved, no sequence of settings of
  single options or of whole maps ever stores an option that is overwritten or equal to its default.
\<close>

theorem options_stay_pure:
  assumes "options_pure ov df m"
  shows "options_pure ov df (fold (option_step ov df) ops m)"
  using assms by (rule op.run_inv)

theorem options_stay_pure_witness:
  "options_pure [(''b'', ''c'')] [(''f'', ''a'')] (fold (option_step [(''b'', ''c'')] [(''f'', ''a'')])
     [SetOption ''b'' ''x'', SetOptions [(''f'', ''a''), (''e'', ''d'')]] [])"
  by (rule options_stay_pure) (simp add: options_pure_def)

end
