(* ===== verification/Trusted_Devices.thy ===== *)
theory Trusted_Devices
  imports Password_Security
begin

text \<open>
  The devices that may skip two-factor authentication, \<open>libs/hbb_common/src/config.rs\<close>: a list kept
  in a cache (\<open>TRUSTED_DEVICES\<close>) and, as encrypted JSON, in the configuration file (\<open>CONFIG2\<close>). The JSON
  library is a parameter. The theory shows that what is trusted survives a restart, that entries
  expire after ninety days, and that a device is listed once.
\<close>

subsection \<open>Data\<close>

record trusted_device =
  td_hwid :: bytes
  td_time :: i64
  td_id :: string
  td_name :: string
  td_platform :: string

record td_env =
  te_crypto :: crypto_ops
  te_to_json :: "trusted_device list \<Rightarrow> bytes option"
  te_from_json :: "bytes \<Rightarrow> trusted_device list option"

record td_store =
  ts_devices :: "trusted_device list"
  ts_synced :: bool
  ts_config :: bytes

definition DAYS_90 :: i64 where "DAYS_90 = 90 * 24 * 60 * 60 * 1000"

text \<open>Both sides of the comparison are signed; the addition wraps, as in a release build.\<close>

definition outdate :: "i64 \<Rightarrow> trusted_device \<Rightarrow> bool" where
  "outdate now d \<longleftrightarrow> sint (td_time d + DAYS_90) < sint now"

subsection \<open>Operations\<close>

definition TRUSTED_MAX_LEN :: nat where "TRUSTED_MAX_LEN = 1024 * 1024"

definition set_trusted_devices :: "td_env \<Rightarrow> i64 \<Rightarrow> trusted_device list \<Rightarrow> td_store \<Rightarrow> td_store" where
  "set_trusted_devices te now trusted_devices s =
    (let trusted_devices = filter (\<lambda>d. \<not> outdate now d) trusted_devices;
         devices = (case te_to_json te trusted_devices of Some j \<Rightarrow> j | None \<Rightarrow> []) in
     if length devices > TRUSTED_MAX_LEN then s
     else s\<lparr>ts_config := encrypt_str_or_original (te_crypto te) devices version00 TRUSTED_MAX_LEN,
            ts_devices := trusted_devices, ts_synced := True\<rparr>)"

definition get_trusted_devices :: "td_env \<Rightarrow> i64 \<Rightarrow> td_store \<Rightarrow> trusted_device list \<times> td_store" where
  "get_trusted_devices te now s =
    (if ts_synced s then (ts_devices s, s)
     else case decrypt_str_or_original (te_crypto te) (ts_config s) version00 of
       (devices, succ, store) \<Rightarrow>
         if succ then
           (let all = (case te_from_json te devices of Some ds \<Rightarrow> ds | None \<Rightarrow> []);
                devices = filter (\<lambda>d. \<not> outdate now d) all;
                s = (if store \<or> length devices \<noteq> length all then set_trusted_devices te now devices s else s) in
            (devices, s\<lparr>ts_devices := devices, ts_synced := True\<rparr>))
         else ([], s))"

definition add_trusted_device :: "td_env \<Rightarrow> i64 \<Rightarrow> trusted_device \<Rightarrow> td_store \<Rightarrow> td_store" where
  "add_trusted_device te now device s =
    (case get_trusted_devices te now s of (devices, s) \<Rightarrow>
       set_trusted_devices te now (filter (\<lambda>d. td_hwid d \<noteq> td_hwid device) devices @ [device]) s)"

definition remove_trusted_devices :: "td_env \<Rightarrow> i64 \<Rightarrow> bytes list \<Rightarrow> td_store \<Rightarrow> td_store" where
  "remove_trusted_devices te now hwids s =
    (case get_trusted_devices te now s of (devices, s) \<Rightarrow>
       set_trusted_devices te now (filter (\<lambda>d. td_hwid d \<notin> set hwids) devices) s)"

definition clear_trusted_devices :: "td_env \<Rightarrow> i64 \<Rightarrow> td_store \<Rightarrow> td_store" where
  "clear_trusted_devices te now s = set_trusted_devices te now [] s"

text \<open>A restart of the program: the cache is gone, the configuration file stays.\<close>

definition td_restart :: "td_store \<Rightarrow> td_store" where
  "td_restart s = s\<lparr>ts_devices := [], ts_synced := False\<rparr>"

subsection \<open>The store\<close>

text \<open>
  What is used of the JSON library on a list of devices: its text starts with a bracket and is valid
  UTF-8, and reading inverts writing. The text must fit the limit.
\<close>

definition json_ok :: "td_env \<Rightarrow> trusted_device list \<Rightarrow> bool" where
  "json_ok te ds \<longleftrightarrow> crypto_roundtrips (te_crypto te)
     \<and> (case te_to_json te ds of
          None \<Rightarrow> False
        | Some j \<Rightarrow> take 1 j = [91] \<and> te_from_json te j = Some ds \<and> co_utf8_lossy (te_crypto te) j = j
            \<and> length j \<le> TRUSTED_MAX_LEN)"

text \<open>The cache, when valid, holds no device twice and is what the file decrypts to.\<close>

definition td_file :: "td_env \<Rightarrow> trusted_device list \<Rightarrow> bytes \<Rightarrow> bool" where
  "td_file te ds cfg \<longleftrightarrow> (\<exists>j. te_to_json te ds = Some j \<and> te_from_json te j = Some ds
     \<and> decrypt_str_or_original (te_crypto te) cfg version00 = (j, True, False))"

lemma char_count_le: "char_count bs \<le> length bs"
  by (simp add: char_count_def)

lemma encrypt_str_decrypts:
  assumes "crypto_roundtrips co" and "s = 91 # t" and "co_utf8_lossy co s = s" and "length s \<le> max_len"
  shows "decrypt_str_or_original co (encrypt_str_or_original co s version00 max_len) version00 = (s, True, False)"
proof -
  obtain e where e: "ps_encrypt co s = Some e" using ps_encrypt_Some [of s co] assms(2) by auto
  have plain: "\<not> fst (snd (decrypt_str_or_original co s version00))"
    by (simp add: assms(2) decrypt_str_or_original_def version00_def VERSION_LEN_def)
  have "encrypt_str_or_original co s version00 max_len = version00 @ e"
    using plain e assms(4) char_count_le [of s] by (simp add: encrypt_str_or_original_def)
  then show ?thesis
    using ps_decrypt_encrypt [OF assms(1) e] assms(3)
    by (simp add: decrypt_str_or_original_def version00_def VERSION_LEN_def)
qed

lemma set_trusted_devices_file:
  assumes "json_ok te (filter (\<lambda>d. \<not> outdate now d) ds)"
  shows "ts_devices (set_trusted_devices te now ds s) = filter (\<lambda>d. \<not> outdate now d) ds
    \<and> ts_synced (set_trusted_devices te now ds s)
    \<and> td_file te (filter (\<lambda>d. \<not> outdate now d) ds) (ts_config (set_trusted_devices te now ds s))"
proof -
  obtain j where j: "te_to_json te (filter (\<lambda>d. \<not> outdate now d) ds) = Some j" "take 1 j = [91]"
      "te_from_json te j = Some (filter (\<lambda>d. \<not> outdate now d) ds)" "co_utf8_lossy (te_crypto te) j = j"
      "length j \<le> TRUSTED_MAX_LEN" and rt: "crypto_roundtrips (te_crypto te)"
    using assms by (auto simp: json_ok_def split: option.splits)
  from j(2) obtain t where "j = 91 # t" by (cases j) auto
  from encrypt_str_decrypts [OF rt this j(4,5)] j show ?thesis
    by (simp add: set_trusted_devices_def Let_def td_file_def)
qed

lemma get_after_restart:
  assumes "td_file te ds (ts_config s)" and "\<not> ts_synced s"
  shows "fst (get_trusted_devices te now s) = filter (\<lambda>d. \<not> outdate now d) ds"
  using assms by (auto simp: get_trusted_devices_def td_file_def Let_def)

text \<open>A store that was only ever changed by these operations lists every device once.\<close>

definition td_inv :: "td_store \<Rightarrow> bool" where
  "td_inv s \<longleftrightarrow> (ts_synced s \<longrightarrow> distinct (map td_hwid (ts_devices s)))"

lemma set_trusted_devices_inv: 
  "td_inv s \<Longrightarrow> distinct (map td_hwid ds) \<Longrightarrow> td_inv (set_trusted_devices te now ds s)"
  by (auto simp: td_inv_def set_trusted_devices_def Let_def distinct_map_filter)

lemma add_trusted_device_inv:
  assumes "td_inv s" and "ts_synced s" shows "td_inv (add_trusted_device te now d s)"
proof -
  have "distinct (map td_hwid (filter (\<lambda>x. td_hwid x \<noteq> td_hwid d) (ts_devices s) @ [d]))"
    using assms by (auto simp: td_inv_def distinct_map_filter)
  then show ?thesis
    using set_trusted_devices_inv [OF assms(1)] assms(2) by (simp add: add_trusted_device_def get_trusted_devices_def)
qed

text \<open>
  Trust survives a restart and expires: after a device has been added, a restarted program lists, at
  any later time, exactly the devices that were listed before and the new one, each hardware id once and
  only as long as it is not older than ninety days.
\<close>

theorem trusted_device_survives_restart:
  assumes "ts_synced s" and "td_inv s"
    and "json_ok te (filter (\<lambda>d. \<not> outdate now d) (filter (\<lambda>d. td_hwid d \<noteq> td_hwid device) (ts_devices s) @ [device]))"
    and "listed = fst (get_trusted_devices te later (td_restart (add_trusted_device te now device s)))"
  shows "(\<forall>x. x \<in> set listed \<longleftrightarrow>
      (x = device \<or> x \<in> set (ts_devices s) \<and> td_hwid x \<noteq> td_hwid device) \<and> \<not> outdate now x \<and> \<not> outdate later x)
    \<and> distinct (map td_hwid listed)"
proof -
  let ?ds = "filter (\<lambda>d. td_hwid d \<noteq> td_hwid device) (ts_devices s) @ [device]"
  have s: "add_trusted_device te now device s = set_trusted_devices te now ?ds s"
    using assms(1) by (simp add: add_trusted_device_def get_trusted_devices_def)
  have on_file: "td_file te (filter (\<lambda>d. \<not> outdate now d) ?ds) (ts_config (td_restart (add_trusted_device te now device s)))"
    using set_trusted_devices_file [OF assms(3), of s] by (simp add: s td_restart_def)
  have listed: "listed = filter (\<lambda>d. \<not> outdate later d) (filter (\<lambda>d. \<not> outdate now d) ?ds)"
    unfolding assms(4) by (rule get_after_restart [OF on_file]) (simp add: td_restart_def)
  have "distinct (map td_hwid ?ds)" using assms(1,2) by (auto simp: td_inv_def distinct_map_filter)
  then have "distinct (map td_hwid listed)" unfolding listed by (intro distinct_map_filter)
  then show ?thesis by (auto simp: listed)
qed

definition demo_device :: trusted_device where
  "demo_device = \<lparr>td_hwid = [1, 2], td_time = 1000, td_id = ''peer'', td_name = ''n'', td_platform = ''p''\<rparr>"

definition demo_td_env :: td_env where
  "demo_td_env = \<lparr>te_crypto = demo_crypto, te_to_json = (\<lambda>ds. if ds = [demo_device] then Some [91, 1, 93] else Some [91, 93]),
     te_from_json = (\<lambda>j. if j = [91, 1, 93] then Some [demo_device] else Some [])\<rparr>"

theorem trusted_device_survives_restart_witness:
  "demo_device \<in> set (fst (get_trusted_devices demo_td_env 3000
     (td_restart (add_trusted_device demo_td_env 2000 demo_device \<lparr>ts_devices = [], ts_synced = True, ts_config = []\<rparr>))))"
proof -
  have young: "\<not> outdate 2000 demo_device" "\<not> outdate 3000 demo_device"
    by (simp_all add: outdate_def demo_device_def DAYS_90_def)
  have "json_ok demo_td_env [demo_device]"
    by (simp add: json_ok_def demo_td_env_def demo_crypto_def crypto_roundtrips_def TRUSTED_MAX_LEN_def)
  then show ?thesis
    using trusted_device_survives_restart [of "\<lparr>ts_devices = [], ts_synced = True, ts_config = []\<rparr>" demo_td_env 2000 demo_device _ 3000]
      young by (simp add: td_inv_def)
qed

end
