(* ===== verification/Config_Store.thy ===== *)
theory Config_Store
  imports Option_Store Trusted_Devices
begin

text \<open>
  The configuration of the service, \<open>Config\<close> and \<open>Config2\<close> of \<open>libs/hbb_common/src/config.rs\<close>: the values in
  memory, the two files with their encrypted secrets, and the operations that change them. The TOML library keeps
  values as they are, so a file is the record that was stored last. What does not change while the program runs
  (the cipher, the settings, whether files can be written) is the record \<open>cfg_env\<close>; the clock, random salts and
  generated ids are arguments of the operations.
\<close>

subsection \<open>Data\<close>

definition SERIAL :: int where "SERIAL = 3"
definition ENCRYPT_MAX_LEN :: nat where "ENCRYPT_MAX_LEN = 128"
definition RENDEZVOUS_PORT :: int where "RENDEZVOUS_PORT = 21116"
definition RENDEZVOUS_SERVERS :: "string list" where "RENDEZVOUS_SERVERS = [''turn.tohocoin.com'']"

record config =
  cf_id :: bytes
  cf_enc_id :: bytes
  cf_password :: bytes
  cf_salt :: bytes
  cf_key_pair :: "bytes \<times> bytes"
  cf_key_confirmed :: bool
  cf_keys_confirmed :: "(string, bool) hmap"

record socks5_server =
  sk_proxy :: string
  sk_username :: string
  sk_password :: bytes

text \<open>The trusted devices of \<open>Config2\<close> are the separate store of \<open>Trusted_Devices\<close>.\<close>

record config2 =
  c2_rendezvous_server :: string
  c2_nat_type :: int
  c2_serial :: int
  c2_unlock_pin :: bytes
  c2_socks :: "socks5_server option"
  c2_options :: settings

record cfg_env =
  ce_td :: td_env
  ce_overwrite :: settings
  ce_defaults :: settings
  ce_hard :: settings
  ce_exe_server :: string
  ce_prod_server :: string
  ce_writes :: bool

record cfg_state =
  gs_config :: config
  gs_file :: config
  gs_config2 :: config2
  gs_file2 :: config2
  gs_td :: td_store
  gs_file_td :: bytes
  gs_online :: "(string, int) hmap"
  gs_key_pair :: "(bytes \<times> bytes) option"

definition str_bytes :: "string \<Rightarrow> bytes" where "str_bytes s = map (\<lambda>c. of_nat (of_char c)) s"

abbreviation ce_crypto :: "cfg_env \<Rightarrow> crypto_ops" where "ce_crypto env \<equiv> te_crypto (ce_td env)"

subsection \<open>Files\<close>

definition config_encrypt :: "crypto_ops \<Rightarrow> config \<Rightarrow> config" where
  "config_encrypt co c =
     c\<lparr>cf_password := encrypt_str_or_original co (cf_password c) version00 ENCRYPT_MAX_LEN,
       cf_enc_id := encrypt_str_or_original co (cf_id c) version00 ENCRYPT_MAX_LEN,
       cf_id := []\<rparr>"

definition config_store :: "cfg_env \<Rightarrow> cfg_state \<Rightarrow> cfg_state" where
  "config_store env s = (if ce_writes env then s\<lparr>gs_file := config_encrypt (ce_crypto env) (gs_config s)\<rparr> else s)"

definition config2_encrypt :: "crypto_ops \<Rightarrow> config2 \<Rightarrow> config2" where
  "config2_encrypt co c =
     c\<lparr>c2_socks := map_option (\<lambda>sk. sk\<lparr>sk_password := encrypt_str_or_original co (sk_password sk) version00 ENCRYPT_MAX_LEN\<rparr>) (c2_socks c),
       c2_unlock_pin := encrypt_str_or_original co (c2_unlock_pin c) version00 ENCRYPT_MAX_LEN\<rparr>"

definition config2_store :: "cfg_env \<Rightarrow> cfg_state \<Rightarrow> cfg_state" where
  "config2_store env s =
    (if ce_writes env
     then s\<lparr>gs_file2 := config2_encrypt (ce_crypto env) (gs_config2 s), gs_file_td := ts_config (gs_td s)\<rparr> else s)"

text \<open>\<open>Config::load\<close> from what the file holds; \<open>gens\<close> are the results of \<open>gen_id\<close>, and the flag asks for a store.\<close>

definition config_load :: "crypto_ops \<Rightarrow> bytes option list \<Rightarrow> config \<Rightarrow> config \<times> bool" where
  "config_load co gens raw =
    (case decrypt_str_or_original co (cf_password raw) version00 of (password, _, store1) \<Rightarrow>
     case decrypt_str_or_original co (cf_enc_id raw) version00 of (dec_id, encrypted, store2) \<Rightarrow>
       let config = raw\<lparr>cf_password := password\<rparr>;
           legacy = (cf_id raw \<noteq> [] \<and> cf_enc_id raw = [] \<and> \<not> fst (snd (decrypt_str_or_original co (cf_id raw) version00))) in
       if encrypted then (config\<lparr>cf_id := dec_id\<rparr>, store1 \<or> store2)
       else if legacy then (config, True)
       else (case List.map_filter (\<lambda>x. x) (take 3 gens) of
               [] \<Rightarrow> (config, store1)
             | new_id # _ \<Rightarrow> (config\<lparr>cf_id := new_id\<rparr>, True)))"

definition config2_load :: "crypto_ops \<Rightarrow> config2 \<Rightarrow> config2 \<times> bool" where
  "config2_load co raw =
    (let (socks, store1) =
           (case c2_socks raw of
              Some sk \<Rightarrow> (case decrypt_str_or_original co (sk_password sk) version00 of
                           (password, _, st) \<Rightarrow> (Some (sk\<lparr>sk_password := password\<rparr>), st))
            | None \<Rightarrow> (None, False)) in
     case decrypt_str_or_original co (c2_unlock_pin raw) version00 of (pin, _, store2) \<Rightarrow>
       (raw\<lparr>c2_socks := socks, c2_unlock_pin := pin\<rparr>, store1 \<or> store2))"

text \<open>A new start of the program: both files are loaded, and written again where the load asks for it.\<close>

definition cfg_restart :: "cfg_env \<Rightarrow> bytes option list \<Rightarrow> cfg_state \<Rightarrow> cfg_state" where
  "cfg_restart env gens s =
    (case config_load (ce_crypto env) gens (gs_file s) of (c, st) \<Rightarrow>
     case config2_load (ce_crypto env) (gs_file2 s) of (c2, st2) \<Rightarrow>
       let s = s\<lparr>gs_config := c, gs_config2 := c2, gs_online := [], gs_key_pair := None, gs_td := \<lparr>ts_devices = [], ts_synced = False, ts_config = gs_file_td s\<rparr>\<rparr>;
           s = (if st then config_store env s else s) in
       if st2 then config2_store env s else s)"

subsection \<open>Identity and passwords\<close>

definition on_config :: "cfg_env \<Rightarrow> (config \<Rightarrow> config) \<Rightarrow> cfg_state \<Rightarrow> cfg_state" where
  "on_config env f s = config_store env (s\<lparr>gs_config := f (gs_config s)\<rparr>)"

definition on_config2 :: "cfg_env \<Rightarrow> (config2 \<Rightarrow> config2) \<Rightarrow> cfg_state \<Rightarrow> cfg_state" where
  "on_config2 env f s = config2_store env (s\<lparr>gs_config2 := f (gs_config2 s)\<rparr>)"

definition set_id :: "cfg_env \<Rightarrow> bytes \<Rightarrow> cfg_state \<Rightarrow> cfg_state" where
  "set_id env i s = (if i = cf_id (gs_config s) then s else on_config env (\<lambda>c. c\<lparr>cf_id := i\<rparr>) s)"

definition get_id :: "cfg_env \<Rightarrow> bytes option \<Rightarrow> cfg_state \<Rightarrow> cfg_state \<times> bytes" where
  "get_id env gen s =
    (let i = cf_id (gs_config s) in
     if i = [] then (case gen of Some tmp \<Rightarrow> (set_id env tmp s, tmp) | None \<Rightarrow> (s, i)) else (s, i))"

definition get_id_or :: "bytes \<Rightarrow> cfg_state \<Rightarrow> bytes" where
  "get_id_or b s = (if cf_id (gs_config s) = [] then b else cf_id (gs_config s))"

definition set_key_confirmed :: "cfg_env \<Rightarrow> bool \<Rightarrow> cfg_state \<Rightarrow> cfg_state" where
  "set_key_confirmed env v s =
    (if cf_key_confirmed (gs_config s) = v then s
     else on_config env (\<lambda>c. c\<lparr>cf_key_confirmed := v, cf_keys_confirmed := (if \<not> v then [] else cf_keys_confirmed c)\<rparr>) s)"

definition get_host_key_confirmed :: "string \<Rightarrow> cfg_state \<Rightarrow> bool" where
  "get_host_key_confirmed host s \<longleftrightarrow> hm_get (cf_keys_confirmed (gs_config s)) host = Some True"

definition set_host_key_confirmed :: "cfg_env \<Rightarrow> string \<Rightarrow> bool \<Rightarrow> cfg_state \<Rightarrow> cfg_state" where
  "set_host_key_confirmed env host v s =
    (if get_host_key_confirmed host s = v then s
     else on_config env (\<lambda>c. c\<lparr>cf_keys_confirmed := hm_insert host v (cf_keys_confirmed c)\<rparr>) s)"

definition update_id :: "cfg_env \<Rightarrow> bytes option \<Rightarrow> bytes \<Rightarrow> cfg_state \<Rightarrow> cfg_state" where
  "update_id env gen new_id s = set_id env new_id (fst (get_id env gen s))"

text \<open>
  The key pair: a cached one is returned, then the one of the file; else a new one is generated, which a thread
  stores later (\<open>store_key_pair\<close>). The last component is what that thread will store.
\<close>

definition get_key_pair :: "bytes \<times> bytes \<Rightarrow> cfg_state \<Rightarrow> cfg_state \<times> (bytes \<times> bytes) \<times> (bytes \<times> bytes) option" where
  "get_key_pair new s =
    (case gs_key_pair s of
       Some p \<Rightarrow> (s, p, None)
     | None \<Rightarrow>
         let p = cf_key_pair (gs_file s) in
         if fst p = [] then (s\<lparr>gs_key_pair := Some new\<rparr>, new, Some new) else (s\<lparr>gs_key_pair := Some p\<rparr>, p, None))"

definition store_key_pair :: "cfg_env \<Rightarrow> bytes \<times> bytes \<Rightarrow> cfg_state \<Rightarrow> cfg_state" where
  "store_key_pair env p s = on_config env (\<lambda>c. c\<lparr>cf_key_pair := p\<rparr>) s"

text \<open>The trusted devices of \<open>Trusted_Devices\<close> with the file: every change stores \<open>Config2\<close>.\<close>

definition cfg_set_trusted_devices :: "cfg_env \<Rightarrow> i64 \<Rightarrow> trusted_device list \<Rightarrow> cfg_state \<Rightarrow> cfg_state" where
  "cfg_set_trusted_devices env now trusted_devices s =
    (let trusted_devices = filter (\<lambda>d. \<not> outdate now d) trusted_devices;
         devices = (case te_to_json (ce_td env) trusted_devices of Some j \<Rightarrow> j | None \<Rightarrow> []) in
     if length devices > TRUSTED_MAX_LEN then s
     else let devices = encrypt_str_or_original (ce_crypto env) devices version00 TRUSTED_MAX_LEN;
              s = config2_store env (s\<lparr>gs_td := gs_td s\<lparr>ts_config := devices\<rparr>\<rparr>) in
          s\<lparr>gs_td := gs_td s\<lparr>ts_devices := trusted_devices, ts_synced := True\<rparr>\<rparr>)"

definition cfg_get_trusted_devices :: "cfg_env \<Rightarrow> i64 \<Rightarrow> cfg_state \<Rightarrow> trusted_device list \<times> cfg_state" where
  "cfg_get_trusted_devices env now s =
    (if ts_synced (gs_td s) then (ts_devices (gs_td s), s)
     else case decrypt_str_or_original (ce_crypto env) (ts_config (gs_td s)) version00 of
       (devices, succ, store) \<Rightarrow>
         if succ then
           (let all = (case te_from_json (ce_td env) devices of Some ds \<Rightarrow> ds | None \<Rightarrow> []);
                devices = filter (\<lambda>d. \<not> outdate now d) all;
                s = (if store \<or> length devices \<noteq> length all then cfg_set_trusted_devices env now devices s else s) in
            (devices, s\<lparr>gs_td := gs_td s\<lparr>ts_devices := devices, ts_synced := True\<rparr>\<rparr>))
         else ([], s))"

definition cfg_add_trusted_device :: "cfg_env \<Rightarrow> i64 \<Rightarrow> trusted_device \<Rightarrow> cfg_state \<Rightarrow> cfg_state" where
  "cfg_add_trusted_device env now device s =
    (case cfg_get_trusted_devices env now s of (devices, s) \<Rightarrow>
       cfg_set_trusted_devices env now (filter (\<lambda>d. td_hwid d \<noteq> td_hwid device) devices @ [device]) s)"

definition cfg_remove_trusted_devices :: "cfg_env \<Rightarrow> i64 \<Rightarrow> bytes list \<Rightarrow> cfg_state \<Rightarrow> cfg_state" where
  "cfg_remove_trusted_devices env now hwids s =
    (case cfg_get_trusted_devices env now s of (devices, s) \<Rightarrow>
       cfg_set_trusted_devices env now (filter (\<lambda>d. td_hwid d \<notin> set hwids) devices) s)"

definition cfg_clear_trusted_devices :: "cfg_env \<Rightarrow> i64 \<Rightarrow> cfg_state \<Rightarrow> cfg_state" where
  "cfg_clear_trusted_devices env now s = cfg_set_trusted_devices env now [] s"

text \<open>
  \<open>Config::set\<close> and \<open>Config2::set\<close>, which also tell whether something changed; maps are compared as maps.
\<close>

definition config_eq :: "config \<Rightarrow> config \<Rightarrow> bool" where
  "config_eq a b \<longleftrightarrow> a\<lparr>cf_keys_confirmed := []\<rparr> = b\<lparr>cf_keys_confirmed := []\<rparr> \<and> hm_eq (cf_keys_confirmed a) (cf_keys_confirmed b)"

definition config2_eq :: "config2 \<Rightarrow> config2 \<Rightarrow> bool" where
  "config2_eq a b \<longleftrightarrow> a\<lparr>c2_options := []\<rparr> = b\<lparr>c2_options := []\<rparr> \<and> hm_eq (c2_options a) (c2_options b)"

definition config_set :: "cfg_env \<Rightarrow> config \<Rightarrow> cfg_state \<Rightarrow> cfg_state \<times> bool" where
  "config_set env cfg s = (if config_eq (gs_config s) cfg then (s, False) else (on_config env (\<lambda>_. cfg) s, True))"

definition config2_set :: "cfg_env \<Rightarrow> config2 \<Rightarrow> bytes \<Rightarrow> cfg_state \<Rightarrow> cfg_state \<times> bool" where
  "config2_set env cfg td s =
    (if config2_eq (gs_config2 s) cfg \<and> ts_config (gs_td s) = td then (s, False)
     else (on_config2 env (\<lambda>_. cfg) (s\<lparr>gs_td := gs_td s\<lparr>ts_config := td\<rparr>\<rparr>), True))"

definition set_permanent_password :: "cfg_env \<Rightarrow> i64 \<Rightarrow> bytes \<Rightarrow> cfg_state \<Rightarrow> cfg_state" where
  "set_permanent_password env now password s =
    (if map_option str_bytes (hm_get (ce_hard env) ''password'') = Some password then s
     else if password = cf_password (gs_config s) then s
     else cfg_clear_trusted_devices env now (on_config env (\<lambda>c. c\<lparr>cf_password := password\<rparr>) s))"

definition get_permanent_password :: "cfg_env \<Rightarrow> cfg_state \<Rightarrow> bytes" where
  "get_permanent_password env s =
    (if cf_password (gs_config s) = []
     then (case hm_get (ce_hard env) ''password'' of Some v \<Rightarrow> str_bytes v | None \<Rightarrow> [])
     else cf_password (gs_config s))"

definition set_salt :: "cfg_env \<Rightarrow> bytes \<Rightarrow> cfg_state \<Rightarrow> cfg_state" where
  "set_salt env salt s = (if salt = cf_salt (gs_config s) then s else on_config env (\<lambda>c. c\<lparr>cf_salt := salt\<rparr>) s)"

definition get_salt :: "cfg_env \<Rightarrow> bytes \<Rightarrow> cfg_state \<Rightarrow> cfg_state \<times> bytes" where
  "get_salt env random s =
    (let salt = cf_salt (gs_config s) in if salt = [] then (set_salt env random s, random) else (s, salt))"

subsection \<open>Network settings\<close>

definition set_nat_type :: "cfg_env \<Rightarrow> int \<Rightarrow> cfg_state \<Rightarrow> cfg_state" where
  "set_nat_type env n s = (if n = c2_nat_type (gs_config2 s) then s else on_config2 env (\<lambda>c. c\<lparr>c2_nat_type := n\<rparr>) s)"

definition set_serial :: "cfg_env \<Rightarrow> int \<Rightarrow> cfg_state \<Rightarrow> cfg_state" where
  "set_serial env n s = (if n = c2_serial (gs_config2 s) then s else on_config2 env (\<lambda>c. c\<lparr>c2_serial := n\<rparr>) s)"

definition get_serial :: "cfg_state \<Rightarrow> int" where
  "get_serial s = max (c2_serial (gs_config2 s)) SERIAL"

definition set_unlock_pin :: "cfg_env \<Rightarrow> bytes \<Rightarrow> cfg_state \<Rightarrow> cfg_state" where
  "set_unlock_pin env pin s = (if pin = c2_unlock_pin (gs_config2 s) then s else on_config2 env (\<lambda>c. c\<lparr>c2_unlock_pin := pin\<rparr>) s)"

definition cfg_set_option :: "cfg_env \<Rightarrow> string \<Rightarrow> string \<Rightarrow> cfg_state \<Rightarrow> cfg_state" where
  "cfg_set_option env k v s =
    (case config_set_option (ce_overwrite env) (ce_defaults env) k v (c2_options (gs_config2 s)) of (options, store) \<Rightarrow>
       if store then on_config2 env (\<lambda>c. c\<lparr>c2_options := options\<rparr>) s else s)"

definition cfg_set_options :: "cfg_env \<Rightarrow> settings \<Rightarrow> cfg_state \<Rightarrow> cfg_state" where
  "cfg_set_options env v s =
    (case config_set_options (ce_overwrite env) (ce_defaults env) v (c2_options (gs_config2 s)) of (options, store) \<Rightarrow>
       if store then on_config2 env (\<lambda>c. c\<lparr>c2_options := options\<rparr>) s else s)"

definition cfg_get_option :: "cfg_env \<Rightarrow> cfg_state \<Rightarrow> string \<Rightarrow> string" where
  "cfg_get_option env s k = config_get_option (ce_overwrite env) (ce_defaults env) (c2_options (gs_config2 s)) k"

definition socks_default :: socks5_server where
  "socks_default = \<lparr>sk_proxy = [], sk_username = [], sk_password = []\<rparr>"

definition set_socks :: "cfg_env \<Rightarrow> socks5_server option \<Rightarrow> cfg_state \<Rightarrow> cfg_state" where
  "set_socks env socks s =
    (if hm_contains (ce_overwrite env) ''proxy-url'' then s
     else if c2_socks (gs_config2 s) = socks then s
     else let sk = (case socks of Some sk \<Rightarrow> sk | None \<Rightarrow> socks_default);
              df = ce_defaults env in
       if c2_socks (gs_config2 s) = None \<and> hm_get df ''proxy-url'' \<noteq> None \<and> hm_get df ''proxy-url'' = Some (sk_proxy sk)
          \<and> hm_get df ''proxy-username'' = Some (sk_username sk)
          \<and> map_option str_bytes (hm_get df ''proxy-password'') = Some (sk_password sk) then s
       else on_config2 env (\<lambda>c. c\<lparr>c2_socks := socks\<rparr>) s)"

definition socks_from_settings :: "settings \<Rightarrow> socks5_server option" where
  "socks_from_settings m =
     map_option (\<lambda>url. \<lparr>sk_proxy = url, sk_username = unwrap_or_default (hm_get m ''proxy-username''),
        sk_password = str_bytes (unwrap_or_default (hm_get m ''proxy-password''))\<rparr>) (hm_get m ''proxy-url'')"

definition get_socks :: "cfg_env \<Rightarrow> cfg_state \<Rightarrow> socks5_server option" where
  "get_socks env s =
    (case socks_from_settings (ce_overwrite env) of
       Some sk \<Rightarrow> Some sk
     | None \<Rightarrow> (case c2_socks (gs_config2 s) of Some sk \<Rightarrow> Some sk | None \<Rightarrow> socks_from_settings (ce_defaults env)))"

datatype network_type = Direct | ProxySocks

definition get_network_type :: "cfg_env \<Rightarrow> cfg_state \<Rightarrow> network_type" where
  "get_network_type env s =
    (if hm_get (ce_overwrite env) ''proxy-url'' \<noteq> None then ProxySocks
     else if c2_socks (gs_config2 s) \<noteq> None then ProxySocks
     else if hm_get (ce_defaults env) ''proxy-url'' \<noteq> None then ProxySocks
     else Direct)"

definition is_proxy :: "cfg_env \<Rightarrow> cfg_state \<Rightarrow> bool" where
  "is_proxy env s \<longleftrightarrow> get_network_type env s \<noteq> Direct"

subsection \<open>Rendezvous servers\<close>

definition get_rendezvous_servers :: "cfg_env \<Rightarrow> cfg_state \<Rightarrow> string list" where
  "get_rendezvous_servers env s =
    (if ce_exe_server env \<noteq> [] then [ce_exe_server env]
     else if cfg_get_option env s ''custom-rendezvous-server'' \<noteq> [] then [cfg_get_option env s ''custom-rendezvous-server'']
     else if ce_prod_server env \<noteq> [] then [ce_prod_server env]
     else let ss = (if c2_serial (gs_config2 s) > SERIAL
                    then filter (\<lambda>x. CHR ''.'' \<in> set x) (split_on CHR '','' (cfg_get_option env s ''rendezvous-servers'')) else []) in
       if ss \<noteq> [] then ss else RENDEZVOUS_SERVERS)"

definition get_rendezvous_server :: "cfg_env \<Rightarrow> cfg_state \<Rightarrow> string" where
  "get_rendezvous_server env s =
    (let r = ce_exe_server env;
         r = (if r = [] then cfg_get_option env s ''custom-rendezvous-server'' else r);
         r = (if r = [] then ce_prod_server env else r);
         r = (if r = [] then c2_rendezvous_server (gs_config2 s) else r);
         r = (if r = [] then (case get_rendezvous_servers env s of x # _ \<Rightarrow> x | [] \<Rightarrow> []) else r) in
     if CHR '':'' \<notin> set r then r @ '':'' @ show_int RENDEZVOUS_PORT else r)"

definition reset_online :: "cfg_state \<Rightarrow> cfg_state" where
  "reset_online s = s\<lparr>gs_online := []\<rparr>"

definition fastest :: "(string, int) hmap \<Rightarrow> string \<times> int" where
  "fastest online =
     foldl (\<lambda>(host, delay) (tmp_host, tmp_delay). if tmp_delay > 0 \<and> tmp_delay < delay then (tmp_host, tmp_delay) else (host, delay))
       ([], 2 ^ 63 - 1) online"

definition update_latency :: "cfg_env \<Rightarrow> string \<Rightarrow> int \<Rightarrow> cfg_state \<Rightarrow> cfg_state" where
  "update_latency env host latency s =
    (let s = s\<lparr>gs_online := hm_insert host latency (gs_online s)\<rparr>;
         host = fst (fastest (gs_online s)) in
     if host \<noteq> [] \<and> host \<noteq> c2_rendezvous_server (gs_config2 s)
     then on_config2 env (\<lambda>c. c\<lparr>c2_rendezvous_server := host\<rparr>) s else s)"

definition get_online_state :: "cfg_state \<Rightarrow> int" where
  "get_online_state s = (case map snd (gs_online s) of [] \<Rightarrow> 0 | x # xs \<Rightarrow> fold max xs x)"

subsection \<open>Sequences of operations\<close>

datatype cfg_op =
    SetId bytes
  | GetId "bytes option"
  | UpdateId "bytes option" bytes
  | SetKeyConfirmed bool
  | SetHostKeyConfirmed string bool
  | StoreKeyPair "bytes \<times> bytes"
  | SetPermanentPassword i64 bytes
  | SetSalt bytes
  | GetSalt bytes
  | SetNatType int
  | SetSerial int
  | SetUnlockPin bytes
  | CfgSetOption string string
  | CfgSetOptions settings
  | SetSocks "socks5_server option"
  | UpdateLatency string int
  | ResetOnline
  | GetTrusted i64
  | AddTrusted i64 trusted_device
  | RemoveTrusted i64 "bytes list"
  | ClearTrusted i64
  | SetConfig config
  | SetConfig2 config2 bytes

fun cfg_step :: "cfg_env \<Rightarrow> cfg_op \<Rightarrow> cfg_state \<Rightarrow> cfg_state" where
  "cfg_step env (SetId i) s = set_id env i s"
| "cfg_step env (GetId gen) s = fst (get_id env gen s)"
| "cfg_step env (UpdateId gen i) s = update_id env gen i s"
| "cfg_step env (SetKeyConfirmed v) s = set_key_confirmed env v s"
| "cfg_step env (SetHostKeyConfirmed h v) s = set_host_key_confirmed env h v s"
| "cfg_step env (StoreKeyPair p) s = store_key_pair env p s"
| "cfg_step env (SetPermanentPassword now p) s = set_permanent_password env now p s"
| "cfg_step env (SetSalt x) s = set_salt env x s"
| "cfg_step env (GetSalt x) s = fst (get_salt env x s)"
| "cfg_step env (SetNatType n) s = set_nat_type env n s"
| "cfg_step env (SetSerial n) s = set_serial env n s"
| "cfg_step env (SetUnlockPin p) s = set_unlock_pin env p s"
| "cfg_step env (CfgSetOption k v) s = cfg_set_option env k v s"
| "cfg_step env (CfgSetOptions v) s = cfg_set_options env v s"
| "cfg_step env (SetSocks v) s = set_socks env v s"
| "cfg_step env (UpdateLatency h l) s = update_latency env h l s"
| "cfg_step env ResetOnline s = reset_online s"
| "cfg_step env (GetTrusted now) s = snd (cfg_get_trusted_devices env now s)"
| "cfg_step env (AddTrusted now d) s = cfg_add_trusted_device env now d s"
| "cfg_step env (RemoveTrusted now hs) s = cfg_remove_trusted_devices env now hs s"
| "cfg_step env (ClearTrusted now) s = cfg_clear_trusted_devices env now s"
| "cfg_step env (SetConfig c) s = fst (config_set env c s)"
| "cfg_step env (SetConfig2 c td) s = fst (config2_set env c td s)"

subsection \<open>Secrets on file\<close>

text \<open>A secret that can be stored: not over the limit, valid UTF-8, and not itself a stored secret.\<close>

definition good_secret :: "crypto_ops \<Rightarrow> bytes \<Rightarrow> bool" where
  "good_secret co x \<longleftrightarrow> char_count x \<le> ENCRYPT_MAX_LEN \<and> co_utf8_lossy co x = x
     \<and> \<not> fst (snd (decrypt_str_or_original co x version00))"

lemma secret_roundtrip:
  assumes "crypto_roundtrips co" and "good_secret co x"
  shows "decrypt_str_or_original co (encrypt_str_or_original co x version00 ENCRYPT_MAX_LEN) version00 = (x, x \<noteq> [], False)"
proof (cases "x = []")
  case True
  then show ?thesis by (simp add: encrypt_str_or_original_def decrypt_str_or_original_def ps_encrypt_def)
next
  case False
  then obtain e where e: "ps_encrypt co x = Some e" using ps_encrypt_Some by blast
  have "encrypt_str_or_original co x version00 ENCRYPT_MAX_LEN = version00 @ e"
    using assms(2) e by (simp add: encrypt_str_or_original_def good_secret_def)
  then show ?thesis
    using ps_decrypt_encrypt [OF assms(1) e] assms(2) False
    by (simp add: decrypt_str_or_original_def version00_def VERSION_LEN_def good_secret_def)
qed

definition config_good :: "crypto_ops \<Rightarrow> config \<Rightarrow> bool" where
  "config_good co c \<longleftrightarrow> good_secret co (cf_password c) \<and> good_secret co (cf_id c) \<and> cf_id c \<noteq> []"

definition config2_good :: "crypto_ops \<Rightarrow> config2 \<Rightarrow> bool" where
  "config2_good co c \<longleftrightarrow> good_secret co (c2_unlock_pin c)
     \<and> (case c2_socks c of Some sk \<Rightarrow> good_secret co (sk_password sk) | None \<Rightarrow> True)"

text \<open>The value in memory keeps an old encrypted id, which no operation reads.\<close>

definition same_config :: "config \<Rightarrow> config \<Rightarrow> bool" where
  "same_config a b \<longleftrightarrow> a\<lparr>cf_enc_id := []\<rparr> = b\<lparr>cf_enc_id := []\<rparr>"

lemma config_load_encrypt:
  assumes "crypto_roundtrips co" and "config_good co c"
  shows "\<exists>e. config_load co gens (config_encrypt co c) = (c\<lparr>cf_enc_id := e\<rparr>, False)"
  using assms secret_roundtrip [OF assms(1), of "cf_password c"] secret_roundtrip [OF assms(1), of "cf_id c"]
  by (auto simp: config_load_def config_encrypt_def config_good_def)

lemma config2_load_encrypt:
  assumes "crypto_roundtrips co" and "config2_good co c"
  shows "config2_load co (config2_encrypt co c) = (c, False)"
  using assms secret_roundtrip [OF assms(1), of "c2_unlock_pin c"]
    secret_roundtrip [OF assms(1), of "sk_password (the (c2_socks c))"]
  by (cases c; cases "c2_socks c") (auto simp: config2_load_def config2_encrypt_def config2_good_def)

text \<open>The files give back what is in memory.\<close>

definition cfg_inv :: "cfg_env \<Rightarrow> cfg_state \<Rightarrow> bool" where
  "cfg_inv env s \<longleftrightarrow> config_good (ce_crypto env) (gs_config s) \<and> config2_good (ce_crypto env) (gs_config2 s)
     \<and> (\<forall>gens. same_config (fst (config_load (ce_crypto env) gens (gs_file s))) (gs_config s)
              \<and> \<not> snd (config_load (ce_crypto env) gens (gs_file s)))
     \<and> config2_load (ce_crypto env) (gs_file2 s) = (gs_config2 s, False)
     \<and> gs_file_td s = ts_config (gs_td s)"

fun cfg_op_ok :: "crypto_ops \<Rightarrow> cfg_op \<Rightarrow> bool" where
  "cfg_op_ok co (SetId i) = (good_secret co i \<and> i \<noteq> [])"
| "cfg_op_ok co (UpdateId gen i) = (good_secret co i \<and> i \<noteq> [])"
| "cfg_op_ok co (SetPermanentPassword now p) = good_secret co p"
| "cfg_op_ok co (SetUnlockPin p) = good_secret co p"
| "cfg_op_ok co (SetSocks v) = (case v of Some sk \<Rightarrow> good_secret co (sk_password sk) | None \<Rightarrow> True)"
| "cfg_op_ok co (SetConfig c) = config_good co c"
| "cfg_op_ok co (SetConfig2 c td) = config2_good co c"
| "cfg_op_ok co _ = True"

lemma on_config_inv:
  assumes "crypto_roundtrips (ce_crypto env)" and "ce_writes env" and "cfg_inv env s"
    and "config_good (ce_crypto env) (f (gs_config s))"
  shows "cfg_inv env (on_config env f s)"
proof -
  have "same_config (fst (config_load (ce_crypto env) gens (gs_file (on_config env f s)))) (f (gs_config s))
      \<and> \<not> snd (config_load (ce_crypto env) gens (gs_file (on_config env f s)))" for gens
    using config_load_encrypt [OF assms(1,4), of gens] assms(2)
    by (auto simp: on_config_def config_store_def same_config_def)
  with assms(2-4) show ?thesis by (simp add: cfg_inv_def on_config_def config_store_def)
qed

lemma config2_store_inv:
  assumes "crypto_roundtrips (ce_crypto env)" and "ce_writes env" and "cfg_inv env s"
    and "config2_good (ce_crypto env) (gs_config2 t)" and "gs_config t = gs_config s" and "gs_file t = gs_file s"
  shows "cfg_inv env (config2_store env t)"
  using assms config2_load_encrypt [OF assms(1,4)] by (simp add: cfg_inv_def config2_store_def)

lemma on_config2_inv:
  assumes "crypto_roundtrips (ce_crypto env)" and "ce_writes env" and "cfg_inv env s"
    and "config2_good (ce_crypto env) (f (gs_config2 s))"
  shows "cfg_inv env (on_config2 env f s)"
  unfolding on_config2_def by (rule config2_store_inv [OF assms(1-3)]) (simp_all add: assms(4))

lemma cfg_inv_goodD: "cfg_inv env s \<Longrightarrow> config_good (ce_crypto env) (gs_config s)"
    "cfg_inv env s \<Longrightarrow> config2_good (ce_crypto env) (gs_config2 s)"
  by (simp_all add: cfg_inv_def)

lemma cfg_inv_cache [simp]:
  "cfg_inv env (s\<lparr>gs_td := gs_td s\<lparr>ts_devices := ds, ts_synced := b\<rparr>\<rparr>) = cfg_inv env s"
  "cfg_inv env (s\<lparr>gs_online := m\<rparr>) = cfg_inv env s"
  "cfg_inv env (s\<lparr>gs_key_pair := p\<rparr>) = cfg_inv env s"
  by (simp_all add: cfg_inv_def)

lemma cfg_set_trusted_devices_inv:
  assumes "crypto_roundtrips (ce_crypto env)" and "ce_writes env" and "cfg_inv env s"
  shows "cfg_inv env (cfg_set_trusted_devices env now ds s)"
  using assms config2_store_inv [OF assms] by (simp add: cfg_set_trusted_devices_def Let_def cfg_inv_goodD)

lemma cfg_get_trusted_devices_inv:
  assumes "crypto_roundtrips (ce_crypto env)" and "ce_writes env" and "cfg_inv env s"
  shows "cfg_inv env (snd (cfg_get_trusted_devices env now s))"
  using assms cfg_set_trusted_devices_inv [OF assms]
  by (auto simp: cfg_get_trusted_devices_def Let_def split: prod.split)

lemma config_good_simps [simp]:
  "config_good co (c\<lparr>cf_key_confirmed := a\<rparr>) = config_good co c"
  "config_good co (c\<lparr>cf_keys_confirmed := b\<rparr>) = config_good co c"
  "config_good co (c\<lparr>cf_key_pair := p\<rparr>) = config_good co c"
  "config_good co (c\<lparr>cf_salt := x\<rparr>) = config_good co c"
  "config2_good co (d\<lparr>c2_nat_type := n\<rparr>) = config2_good co d"
  "config2_good co (d\<lparr>c2_serial := n\<rparr>) = config2_good co d"
  "config2_good co (d\<lparr>c2_options := m\<rparr>) = config2_good co d"
  "config2_good co (d\<lparr>c2_rendezvous_server := r\<rparr>) = config2_good co d"
  by (simp_all add: config_good_def config2_good_def)

lemma set_id_inv:
  assumes "crypto_roundtrips (ce_crypto env)" and "ce_writes env" and "cfg_inv env s"
    and "good_secret (ce_crypto env) i" and "i \<noteq> []"
  shows "cfg_inv env (set_id env i s)"
  using on_config_inv [OF assms(1-3), where f = "\<lambda>c. c\<lparr>cf_id := i\<rparr>"] assms cfg_inv_goodD(1) [OF assms(3)]
  by (auto simp: set_id_def config_good_def)

lemma set_permanent_password_inv:
  assumes "crypto_roundtrips (ce_crypto env)" and "ce_writes env" and "cfg_inv env s" and "good_secret (ce_crypto env) p"
  shows "cfg_inv env (set_permanent_password env now p s)"
proof -
  have "cfg_inv env (on_config env (\<lambda>c. c\<lparr>cf_password := p\<rparr>) s)"
    using on_config_inv [OF assms(1-3), where f = "\<lambda>c. c\<lparr>cf_password := p\<rparr>"] assms(4) cfg_inv_goodD(1) [OF assms(3)]
    by (auto simp: config_good_def)
  from cfg_set_trusted_devices_inv [OF assms(1,2) this] assms(3) show ?thesis
    by (auto simp: set_permanent_password_def cfg_clear_trusted_devices_def)
qed

lemma set_socks_inv:
  assumes "crypto_roundtrips (ce_crypto env)" and "ce_writes env" and "cfg_inv env s"
    and "case v of Some sk \<Rightarrow> good_secret (ce_crypto env) (sk_password sk) | None \<Rightarrow> True"
  shows "cfg_inv env (set_socks env v s)"
  using on_config2_inv [OF assms(1-3), where f = "\<lambda>c. c\<lparr>c2_socks := v\<rparr>"] assms cfg_inv_goodD(2) [OF assms(3)]
  by (auto simp: set_socks_def Let_def config2_good_def)

lemma update_latency_inv:
  assumes "crypto_roundtrips (ce_crypto env)" and "ce_writes env" and "cfg_inv env s"
  shows "cfg_inv env (update_latency env h l s)"
proof -
  have "cfg_inv env (s\<lparr>gs_online := hm_insert h l (gs_online s)\<rparr>)" using assms(3) by simp
  from on_config2_inv [OF assms(1,2) this] this show ?thesis
    by (auto simp: update_latency_def Let_def cfg_inv_goodD)
qed

lemma get_id_inv: "cfg_inv env s \<Longrightarrow> fst (get_id env gen s) = s"
  by (simp add: get_id_def cfg_inv_def config_good_def Let_def)

lemma cfg_step_inv:
  assumes "crypto_roundtrips (ce_crypto env)" and "ce_writes env" and "cfg_op_ok (ce_crypto env) x" and "cfg_inv env s"
  shows "cfg_inv env (cfg_step env x s)"
proof -
  note on1 = on_config_inv [OF assms(1,2,4)] and on2 = on_config2_inv [OF assms(1,2,4)]
  note good = cfg_inv_goodD(1) [OF assms(4)] cfg_inv_goodD(2) [OF assms(4)]
  show ?thesis
  proof (cases x)
    case (SetId i)
    then show ?thesis using assms set_id_inv by simp
  next
    case (UpdateId gen i)
    then show ?thesis using assms set_id_inv by (simp add: update_id_def get_id_inv)
  next
    case (SetPermanentPassword now p)
    then show ?thesis using assms set_permanent_password_inv by simp
  next
    case (SetUnlockPin p)
    then show ?thesis using assms good on2 [where f = "\<lambda>c. c\<lparr>c2_unlock_pin := p\<rparr>"]
      by (auto simp: set_unlock_pin_def config2_good_def)
  next
    case (CfgSetOption k v)
    then show ?thesis using assms(4) good on2 by (auto simp: cfg_set_option_def split: prod.split)
  next
    case (CfgSetOptions v)
    then show ?thesis using assms(4) good on2 by (auto simp: cfg_set_options_def split: prod.split)
  next
    case (AddTrusted now d)
    then show ?thesis using cfg_get_trusted_devices_inv [OF assms(1,2,4), of now] cfg_set_trusted_devices_inv [OF assms(1,2)]
      by (simp add: cfg_add_trusted_device_def case_prod_beta)
  next
    case (RemoveTrusted now hs)
    then show ?thesis using cfg_get_trusted_devices_inv [OF assms(1,2,4), of now] cfg_set_trusted_devices_inv [OF assms(1,2)]
      by (simp add: cfg_remove_trusted_devices_def case_prod_beta)
  next
    case (SetConfig2 c td)
    then show ?thesis
      using assms(3,4) config2_store_inv [OF assms(1,2,4)] by (auto simp: config2_set_def on_config2_def)
  next
    case (SetSocks v)
    then show ?thesis using assms set_socks_inv by simp
  qed (use assms(3,4) good on1 on2 update_latency_inv [OF assms(1,2,4)] cfg_get_trusted_devices_inv [OF assms(1,2,4)]
        cfg_set_trusted_devices_inv [OF assms(1,2,4)] in
      \<open>auto simp: get_id_inv set_key_confirmed_def set_host_key_confirmed_def store_key_pair_def set_salt_def get_salt_def
        set_nat_type_def set_serial_def reset_online_def cfg_clear_trusted_devices_def config_set_def Let_def\<close>)
qed

lemma cfg_run_inv:
  assumes "crypto_roundtrips (ce_crypto env)" and "ce_writes env" and "\<forall>x \<in> set xs. cfg_op_ok (ce_crypto env) x"
    and "cfg_inv env s"
  shows "cfg_inv env (fold (cfg_step env) xs s)"
  using assms(3,4) cfg_step_inv [OF assms(1,2)] by (induction xs arbitrary: s) auto

text \<open>The first start, with no files: an id is generated and stored.\<close>

definition config_default :: config where
  "config_default = \<lparr>cf_id = [], cf_enc_id = [], cf_password = [], cf_salt = [], cf_key_pair = ([], []),
     cf_key_confirmed = False, cf_keys_confirmed = []\<rparr>"

definition config2_default :: config2 where
  "config2_default = \<lparr>c2_rendezvous_server = [], c2_nat_type = 0, c2_serial = 0, c2_unlock_pin = [],
     c2_socks = None, c2_options = []\<rparr>"

definition cfg_first_start :: "cfg_env \<Rightarrow> bytes option list \<Rightarrow> cfg_state" where
  "cfg_first_start env gens =
     cfg_restart env gens \<lparr>gs_config = config_default, gs_file = config_default, gs_config2 = config2_default,
       gs_file2 = config2_default, gs_td = \<lparr>ts_devices = [], ts_synced = False, ts_config = []\<rparr>, gs_file_td = [],
       gs_online = [], gs_key_pair = None\<rparr>"

lemma good_secret_Nil: "co_utf8_lossy co [] = [] \<Longrightarrow> good_secret co []"
  by (simp add: good_secret_def char_count_def decrypt_str_or_original_def)

lemma cfg_first_start_inv:
  assumes "crypto_roundtrips (ce_crypto env)" and "ce_writes env" and "co_utf8_lossy (ce_crypto env) [] = []"
    and "good_secret (ce_crypto env) i" and "i \<noteq> []"
  shows "cfg_inv env (cfg_first_start env (Some i # gens))"
proof -
  let ?c = "config_default\<lparr>cf_id := i\<rparr>"
  have good: "config_good (ce_crypto env) ?c" "config2_good (ce_crypto env) config2_default"
    using assms(3-5) by (simp_all add: config_good_def config2_good_def config_default_def config2_default_def good_secret_Nil)
  have dec: "decrypt_str_or_original (ce_crypto env) [] version00 = ([], False, False)"
    by (simp add: decrypt_str_or_original_def)
  have start: "cfg_first_start env (Some i # gens)
      = \<lparr>gs_config = ?c, gs_file = config_encrypt (ce_crypto env) ?c, gs_config2 = config2_default,
          gs_file2 = config2_default, gs_td = \<lparr>ts_devices = [], ts_synced = False, ts_config = []\<rparr>, gs_file_td = [],
          gs_online = [], gs_key_pair = None\<rparr>"
    using assms(2)
    by (simp add: cfg_first_start_def cfg_restart_def config_load_def config2_load_def config_default_def config2_default_def
        config_store_def dec Let_def List.map_filter_simps)
  have "config2_load (ce_crypto env) config2_default = (config2_default, False)"
    by (simp add: config2_load_def config2_default_def dec)
  moreover have "same_config (fst (config_load (ce_crypto env) g (config_encrypt (ce_crypto env) ?c))) ?c
      \<and> \<not> snd (config_load (ce_crypto env) g (config_encrypt (ce_crypto env) ?c))" for g
    using config_load_encrypt [OF assms(1) good(1), of g] by (auto simp: same_config_def)
  ultimately show ?thesis using good by (simp add: cfg_inv_def start)
qed

subsection \<open>Properties\<close>

text \<open>
  C7. The configuration is durable as long as its files can be written: from the first start of the program on, after any
  sequence of operations that set only ids that are not empty, and only ids and secrets of at most 128 characters of valid
  UTF-8 that do not themselves read as an encrypted secret, a new start with the same files gives back the id, passwords,
  keys, options, proxy and trusted devices that were in memory, and writes nothing. (A longer password is lost: lemma
  \<open>long_password_lost\<close>.)
\<close>

theorem config_survives_restart:
  assumes "crypto_roundtrips (ce_crypto env)" and "ce_writes env" and "co_utf8_lossy (ce_crypto env) [] = []"
    and "good_secret (ce_crypto env) i" and "i \<noteq> []" and "\<forall>x \<in> set xs. cfg_op_ok (ce_crypto env) x"
    and "s = fold (cfg_step env) xs (cfg_first_start env (Some i # gens))"
  shows "same_config (gs_config (cfg_restart env gens' s)) (gs_config s)
    \<and> gs_config2 (cfg_restart env gens' s) = gs_config2 s
    \<and> ts_config (gs_td (cfg_restart env gens' s)) = ts_config (gs_td s)
    \<and> gs_file (cfg_restart env gens' s) = gs_file s \<and> gs_file2 (cfg_restart env gens' s) = gs_file2 s"
proof -
  have "cfg_inv env s"
    unfolding assms(7) by (intro cfg_run_inv cfg_first_start_inv assms(1-6))
  then have "same_config (fst (config_load (ce_crypto env) gens' (gs_file s))) (gs_config s)"
      "\<not> snd (config_load (ce_crypto env) gens' (gs_file s))"
      "config2_load (ce_crypto env) (gs_file2 s) = (gs_config2 s, False)" "gs_file_td s = ts_config (gs_td s)"
    by (simp_all add: cfg_inv_def)
  then show ?thesis by (simp add: cfg_restart_def Let_def case_prod_beta)
qed

definition demo_cfg_env :: cfg_env where
  "demo_cfg_env = \<lparr>ce_td = demo_td_env, ce_overwrite = [], ce_defaults = [], ce_hard = [], ce_exe_server = [],
     ce_prod_server = [], ce_writes = True\<rparr>"

lemma demo_cfg_env_simps [simp]: "ce_td demo_cfg_env = demo_td_env" "ce_writes demo_cfg_env" "te_crypto demo_td_env = demo_crypto"
  by (simp_all add: demo_cfg_env_def demo_td_env_def)

lemma demo_crypto_ok: "crypto_roundtrips demo_crypto" "co_utf8_lossy demo_crypto [] = []"
    "good_secret demo_crypto [49, 50]" "good_secret demo_crypto [51]"
  by (simp_all add: crypto_roundtrips_def demo_crypto_def good_secret_def char_count_def ENCRYPT_MAX_LEN_def
      decrypt_str_or_original_def VERSION_LEN_def)

theorem config_survives_restart_witness:
  "cf_password (gs_config (cfg_restart demo_cfg_env []
     (fold (cfg_step demo_cfg_env) [SetPermanentPassword 1000 [51]] (cfg_first_start demo_cfg_env [Some [49, 50]])))) =
   cf_password (gs_config (fold (cfg_step demo_cfg_env) [SetPermanentPassword 1000 [51]] (cfg_first_start demo_cfg_env [Some [49, 50]])))"
proof -
  have same: "same_config a b \<Longrightarrow> cf_password a = cf_password b" for a b
    by (cases a; cases b) (simp add: same_config_def)
  show ?thesis
    by (rule same) (use config_survives_restart [of demo_cfg_env "[49, 50]" "[SetPermanentPassword 1000 [51]]" _ "[]" "[]"]
        demo_crypto_ok in simp)
qed

text \<open>
  A proxy is in use exactly when there is a proxy to connect through: the test that callers make first and the
  lookup of the server agree on every layer of settings.
\<close>

theorem proxy_agrees: "is_proxy env s \<longleftrightarrow> get_socks env s \<noteq> None"
  by (auto simp: is_proxy_def get_network_type_def get_socks_def socks_from_settings_def split: option.splits)

lemma cfg_trusted_devices_refine:
  "gs_td (cfg_set_trusted_devices env now ds s) = set_trusted_devices (ce_td env) now ds (gs_td s)"
  "fst (cfg_get_trusted_devices env now s) = fst (get_trusted_devices (ce_td env) now (gs_td s))"
  "gs_td (snd (cfg_get_trusted_devices env now s)) = snd (get_trusted_devices (ce_td env) now (gs_td s))"
proof -
  show set: "gs_td (cfg_set_trusted_devices env now ds s) = set_trusted_devices (ce_td env) now ds (gs_td s)" for ds
    by (simp add: cfg_set_trusted_devices_def set_trusted_devices_def config2_store_def Let_def)
  show "fst (cfg_get_trusted_devices env now s) = fst (get_trusted_devices (ce_td env) now (gs_td s))"
    by (simp add: cfg_get_trusted_devices_def get_trusted_devices_def Let_def split: prod.split)
  show "gs_td (snd (cfg_get_trusted_devices env now s)) = snd (get_trusted_devices (ce_td env) now (gs_td s))"
    by (simp add: cfg_get_trusted_devices_def get_trusted_devices_def set Let_def split: prod.split)
qed

text \<open>
  A changed permanent password ends all trust: the password is the new one, and no device is trusted any more,
  neither now nor after a new start, so that every device has to pass two-factor authentication again.
\<close>

theorem password_change_untrusts:
  assumes "map_option str_bytes (hm_get (ce_hard env) ''password'') \<noteq> Some p" and "p \<noteq> cf_password (gs_config s)"
    and "ce_writes env" and "json_ok (ce_td env) []"
    and "t = set_permanent_password env now p s"
  shows "cf_password (gs_config t) = p \<and> fst (cfg_get_trusted_devices env later t) = []
    \<and> fst (cfg_get_trusted_devices env later (cfg_restart env gens t)) = []"
proof -
  let ?u = "on_config env (\<lambda>c. c\<lparr>cf_password := p\<rparr>) s"
  have t: "t = cfg_set_trusted_devices env now [] ?u"
    using assms(1,2) by (auto simp: assms(5) set_permanent_password_def cfg_clear_trusted_devices_def)
  have fits: "\<not> length (case te_to_json (ce_td env) [] of Some j \<Rightarrow> j | None \<Rightarrow> []) > TRUSTED_MAX_LEN"
    using assms(4) by (auto simp: json_ok_def split: option.splits)
  have on_file: "gs_file_td t = ts_config (gs_td t)"
    using fits assms(3) by (simp add: t cfg_set_trusted_devices_def config2_store_def Let_def)
  have td: "ts_devices (gs_td t) = []" "ts_synced (gs_td t)" "td_file (ce_td env) [] (ts_config (gs_td t))"
    using set_trusted_devices_file [of "ce_td env" now "[]" "gs_td ?u"] assms(4)
    by (simp_all add: t cfg_trusted_devices_refine)
  have pw: "cf_password (gs_config t) = p"
    by (simp add: t cfg_set_trusted_devices_def config2_store_def on_config_def config_store_def Let_def)
  have "gs_td (cfg_restart env gens t) = \<lparr>ts_devices = [], ts_synced = False, ts_config = gs_file_td t\<rparr>"
    by (simp add: cfg_restart_def config_store_def config2_store_def Let_def split: prod.split)
  then have "fst (cfg_get_trusted_devices env later (cfg_restart env gens t)) = []"
    using get_after_restart [of "ce_td env" "[]" "\<lparr>ts_devices = [], ts_synced = False, ts_config = gs_file_td t\<rparr>" later]
      td(3) by (simp add: cfg_trusted_devices_refine on_file)
  then show ?thesis using pw td(1,2) by (simp add: cfg_get_trusted_devices_def)
qed

theorem password_change_untrusts_witness:
  "fst (cfg_get_trusted_devices demo_cfg_env 3000
     (set_permanent_password demo_cfg_env 2000 [51] (cfg_first_start demo_cfg_env [Some [49, 50]]))) = []"
proof -
  have "json_ok demo_td_env []"
    by (simp add: json_ok_def demo_td_env_def demo_crypto_def crypto_roundtrips_def TRUSTED_MAX_LEN_def)
  moreover have "cf_password (gs_config (cfg_first_start demo_cfg_env [Some [49, 50]])) = []"
    by (simp add: cfg_first_start_def cfg_restart_def config_load_def config2_load_def config_default_def config2_default_def
        config_store_def config2_store_def decrypt_str_or_original_def Let_def List.map_filter_simps)
  moreover have "hm_get (ce_hard demo_cfg_env) ''password'' = None" by (simp add: demo_cfg_env_def)
  ultimately show ?thesis
    using password_change_untrusts [of demo_cfg_env "[51]" "cfg_first_start demo_cfg_env [Some [49, 50]]" _ 2000 3000 "[]"]
    by simp
qed

text \<open>The scan over the latencies, for any order of the map.\<close>

lemma fastest_fold:
  "foldl (\<lambda>(host, delay) (tmp_host, tmp_delay). if tmp_delay > 0 \<and> tmp_delay < delay then (tmp_host, tmp_delay) else (host, delay))
     (h, d :: int) m = (h', d') \<Longrightarrow>
   d' \<le> d \<and> (\<forall>(x, l) \<in> set m. 0 < l \<longrightarrow> d' \<le> l) \<and> ((h', d') = (h, d) \<or> (h', d') \<in> set m \<and> 0 < d')"
proof (induction m arbitrary: h d)
  case (Cons xl m)
  obtain x l where xl: "xl = (x, l)" by fastforce
  show ?case
  proof (cases "l > 0 \<and> l < d")
    case True
    with Cons.prems have "d' \<le> l \<and> (\<forall>(x, l) \<in> set m. 0 < l \<longrightarrow> d' \<le> l) \<and> ((h', d') = (x, l) \<or> (h', d') \<in> set m \<and> 0 < d')"
      by (intro Cons.IH) (simp add: xl)
    with True show ?thesis by (auto simp: xl)
  next
    case False
    with Cons.prems have "d' \<le> d \<and> (\<forall>(x, l) \<in> set m. 0 < l \<longrightarrow> d' \<le> l) \<and> ((h', d') = (h, d) \<or> (h', d') \<in> set m \<and> 0 < d')"
      by (intro Cons.IH) (auto simp: xl split: if_splits)
    with False show ?thesis by (auto simp: xl)
  qed
qed simp

text \<open>
  The rendezvous server in use is the one that answers fastest: once latencies are known, among them a positive
  one, an update leaves a server with the least positive latency of all as the configured server.
\<close>

theorem update_latency_fastest:
  assumes "hm_get (hm_insert host latency (gs_online s)) h = Some l" and "0 < l" and "l < 2 ^ 63 - 1"
    and "hm_all (\<lambda>k v. k \<noteq> []) (hm_insert host latency (gs_online s))" and "hm_wf (gs_online s)"
    and "t = update_latency env host latency s"
  shows "\<exists>d. hm_get (gs_online t) (c2_rendezvous_server (gs_config2 t)) = Some d \<and> 0 < d
    \<and> (\<forall>k v. hm_get (gs_online t) k = Some v \<and> 0 < v \<longrightarrow> d \<le> v)"
proof -
  let ?m = "hm_insert host latency (gs_online s)"
  obtain x d where xd: "fastest ?m = (x, d)" by fastforce
  have wf: "hm_wf ?m" using assms(5) by simp
  have in_set: "(k, v) \<in> set ?m \<longleftrightarrow> hm_get ?m k = Some v" for k v
    using wf by (simp add: hm_get_def hm_wf_def map_of_eq_Some_iff)
  have f: "\<forall>(k, v) \<in> set ?m. 0 < v \<longrightarrow> d \<le> v" "(x, d) = ([], 2 ^ 63 - 1) \<or> (x, d) \<in> set ?m \<and> 0 < d"
    using fastest_fold [of "[]" "2 ^ 63 - 1" ?m x d] xd by (simp_all add: fastest_def)
  have "d \<le> l" using f(1) assms(1,2) in_set by fastforce
  then have x: "hm_get ?m x = Some d" "0 < d" using f(2) assms(3) in_set by auto
  then have "x \<noteq> []" using assms(4) in_set by (auto simp: hm_all_iff)
  then have "gs_online t = ?m" "c2_rendezvous_server (gs_config2 t) = x"
    by (auto simp: assms(6) update_latency_def xd Let_def on_config2_def config2_store_def)
  then show ?thesis using x f(1) in_set by fastforce
qed

theorem update_latency_fastest_witness:
  "\<exists>d. hm_get (gs_online (update_latency demo_cfg_env ''b.org'' 20
        (update_latency demo_cfg_env ''a.org'' 30 (cfg_first_start demo_cfg_env []))))
      (c2_rendezvous_server (gs_config2 (update_latency demo_cfg_env ''b.org'' 20
        (update_latency demo_cfg_env ''a.org'' 30 (cfg_first_start demo_cfg_env []))))) = Some d \<and> 0 < d"
proof -
  let ?s = "update_latency demo_cfg_env ''a.org'' 30 (cfg_first_start demo_cfg_env [])"
  have online: "gs_online ?s = [(''a.org'', 30)]"
    by (simp add: update_latency_def on_config2_def config2_store_def cfg_first_start_def cfg_restart_def config_load_def
        config2_load_def config_default_def config2_default_def decrypt_str_or_original_def Let_def List.map_filter_simps
        hm_insert_def)
  have new: "hm_insert ''b.org'' 20 (gs_online ?s) = [(''a.org'', 30), (''b.org'', 20)]"
    by (simp add: online hm_insert_def)
  have "hm_get (hm_insert ''b.org'' 20 (gs_online ?s)) ''b.org'' = Some 20" by (simp add: hmap_simps)
  moreover have "hm_all (\<lambda>k v. k \<noteq> []) (hm_insert ''b.org'' 20 (gs_online ?s))" by (simp add: new hm_all_iff)
  moreover have "hm_wf (gs_online ?s)" by (simp add: online hm_wf_def)
  ultimately show ?thesis
    using update_latency_fastest [of "''b.org''" 20 ?s "''b.org''" 20 _ demo_cfg_env] by auto
qed

text \<open>
  A permanent password of more than 128 characters does not survive: it works until the program is started
  again, and then the permanent password is empty.
\<close>

theorem long_password_lost:
  assumes "char_count p > ENCRYPT_MAX_LEN" and "\<not> fst (snd (decrypt_str_or_original (ce_crypto env) p version00))"
    and "ce_writes env" and "map_option str_bytes (hm_get (ce_hard env) ''password'') \<noteq> Some p"
    and "p \<noteq> cf_password (gs_config s)" and "t = set_permanent_password env now p s"
  shows "cf_password (gs_config t) = p \<and> cf_password (gs_config (cfg_restart env gens t)) = []"
proof -
  have t: "t = cfg_set_trusted_devices env now [] (on_config env (\<lambda>c. c\<lparr>cf_password := p\<rparr>) s)"
    using assms(4,5) by (auto simp: assms(6) set_permanent_password_def cfg_clear_trusted_devices_def)
  have "cf_password (gs_file t) = []"
    using assms(1-3)
    by (simp add: t cfg_set_trusted_devices_def config2_store_def on_config_def config_store_def config_encrypt_def
        encrypt_str_or_original_def Let_def)
  then have "cf_password (gs_config (cfg_restart env gens t)) = []"
    by (auto simp: cfg_restart_def config_load_def config_store_def config2_store_def decrypt_str_or_original_def Let_def
        split: prod.split list.split)
  moreover have "cf_password (gs_config t) = p"
    by (simp add: t cfg_set_trusted_devices_def config2_store_def on_config_def config_store_def Let_def)
  ultimately show ?thesis by simp
qed

theorem long_password_lost_witness:
  "cf_password (gs_config (cfg_restart demo_cfg_env [] (set_permanent_password demo_cfg_env 2000 (replicate 129 51)
     (cfg_first_start demo_cfg_env [])))) = []"
proof -
  have "char_count (replicate 129 51) > ENCRYPT_MAX_LEN" by (simp add: char_count_def ENCRYPT_MAX_LEN_def)
  moreover have "\<not> fst (snd (decrypt_str_or_original demo_crypto (replicate 129 51) version00))"
    by code_simp
  moreover have "cf_password (gs_config (cfg_first_start demo_cfg_env [])) = []"
    by (simp add: cfg_first_start_def cfg_restart_def config_load_def config2_load_def config_default_def config2_default_def
        decrypt_str_or_original_def Let_def List.map_filter_simps)
  moreover have "hm_get (ce_hard demo_cfg_env) ''password'' = None" by (simp add: demo_cfg_env_def)
  ultimately show ?thesis
    using long_password_lost [of "replicate 129 51" demo_cfg_env "cfg_first_start demo_cfg_env []" _ 2000 "[]"] by simp
qed

end
