(* ===== verification/Peer_Config.thy ===== *)
theory Peer_Config
  imports Complex_Main Config_Store
begin

text \<open>
  The configuration of each peer, \<open>PeerConfig\<close> of \<open>libs/hbb_common/src/config.rs\<close>: one file per peer id in the
  directory \<open>peers\<close>, with encrypted secrets and checked values, and the loading of the list of peers in batches.
  The directory is a map from file names without \<open>.toml\<close> to modification times and stored records (\<open>None\<close>: the
  file cannot be read as a record). Strings are lists of bytes, as in Rust; the TOML library keeps values as they are.
  An id is not empty and not the name of a directory entry like \<open>..\<close>.
\<close>

subsection \<open>Data\<close>

record peer_info_serde =
  pi_username :: string
  pi_hostname :: string
  pi_platform :: string
  pi_os_version :: string

type_synonym wsize = "int \<times> int \<times> int \<times> int"

record peer_config =
  pc_password :: bytes
  pc_size :: wsize
  pc_size_ft :: wsize
  pc_size_pf :: wsize
  pc_view_style :: string
  pc_scroll_style :: string
  pc_edge_scroll_edge_thickness :: int
  pc_image_quality :: string
  pc_custom_image_quality :: "int list"
  pc_show_remote_cursor :: bool
  pc_lock_after_session_end :: bool
  pc_terminal_persistent :: bool
  pc_privacy_mode :: bool
  pc_allow_swap_key :: bool
  pc_port_forwards :: "(int \<times> string \<times> int) list"
  pc_direct_failures :: int
  pc_disable_audio :: bool
  pc_disable_clipboard :: bool
  pc_enable_file_copy_paste :: bool
  pc_show_quality_monitor :: bool
  pc_follow_remote_cursor :: bool
  pc_follow_remote_window :: bool
  pc_keyboard_mode :: string
  pc_view_only :: bool
  pc_show_my_cursor :: bool
  pc_sync_init_clipboard :: bool
  pc_reverse_mouse_wheel :: string
  pc_displays_as_individual_windows :: string
  pc_use_all_my_displays :: string
  pc_trackpad_speed :: int
  pc_custom_resolutions :: "(string, int \<times> int) hmap"
  pc_options :: settings
  pc_ui_flutter :: settings
  pc_info :: peer_info_serde
  pc_transfer :: "string list \<times> string list"

text \<open>
  The environment: the cipher of the secrets, base64 of ids with the lossy reading back, the reading of a user
  default (\<open>UserDefaultConfig::read\<close>), the standard library's reading of an \<open>f64\<close>, as the rational it denotes (an
  infinity as a number beyond the range of \<open>i32\<close>, and a NaN as one that no range contains), and whether files can be written.
\<close>

record peer_env =
  pe_crypto :: crypto_ops
  pe_b64_encode :: "string \<Rightarrow> string"
  pe_b64_decode :: "string \<Rightarrow> string option"
  pe_user_default :: "string \<Rightarrow> string"
  pe_parse_f64 :: "string \<Rightarrow> rat option"
  pe_writes :: bool

record peer_store =
  pr_dir :: "(string, int \<times> peer_config option) hmap"
  pr_new :: "string list"

definition bytes_str :: "bytes \<Rightarrow> string" where "bytes_str bs = map (\<lambda>b. char_of (unat b)) bs"

lemma bytes_str_bytes [simp]: "bytes_str (str_bytes s) = s"
proof -
  have "char_of (unat (of_nat (of_char c) :: 8 word)) = c" for c :: char
    unfolding unat_of_nat by (simp add: take_bit_eq_mod [symmetric] del: of_nat_of_char)
  then show ?thesis by (simp add: bytes_str_def str_bytes_def comp_def del: of_nat_of_char)
qed

subsection \<open>Files\<close>

definition FORBIDDEN :: string where "FORBIDDEN = ''<>:/'' @ [CHR 0x5C] @ ''|?*''"

definition forbidden_paths :: "string \<Rightarrow> bool" where
  "forbidden_paths s \<longleftrightarrow> list_ex (\<lambda>c. c \<in> set FORBIDDEN) s"

text \<open>The name of the file without \<open>.toml\<close>; a trailing separator is not part of a file name.\<close>

definition peer_path :: "peer_env \<Rightarrow> string \<Rightarrow> string" where
  "peer_path env i =
    (let id_encoded = (if forbidden_paths i then ''base64_'' @ pe_b64_encode env i else i) in
     rev (dropWhile (\<lambda>c. c = CHR ''/'') (rev id_encoded)))"

definition SECRET_OPTIONS :: "string list" where
  "SECRET_OPTIONS = [''rdp_password'', ''os-username'', ''os-password'']"

definition encrypt_opt :: "crypto_ops \<Rightarrow> string \<Rightarrow> string" where
  "encrypt_opt co v = bytes_str (encrypt_str_or_original co (str_bytes v) version00 ENCRYPT_MAX_LEN)"

definition peer_encrypt :: "crypto_ops \<Rightarrow> peer_config \<Rightarrow> peer_config" where
  "peer_encrypt co c =
     c\<lparr>pc_password := encrypt_vec_or_original co (pc_password c) version00 ENCRYPT_MAX_LEN,
       pc_options := fold (\<lambda>opt. hm_modify opt (encrypt_opt co)) SECRET_OPTIONS (pc_options c)\<rparr>"

definition store_peer :: "peer_env \<Rightarrow> int \<Rightarrow> string \<Rightarrow> peer_config \<Rightarrow> peer_store \<Rightarrow> peer_store" where
  "store_peer env now i c s =
     s\<lparr>pr_dir := (if pe_writes env then hm_insert (peer_path env i) (now, Some (peer_encrypt (pe_crypto env) c)) (pr_dir s)
                  else pr_dir s),
       pr_new := List.insert i (pr_new s)\<rparr>"

text \<open>What reading a record accepts: the checks of the fields' own deserialisers.\<close>

definition de_string :: "peer_env \<Rightarrow> string \<Rightarrow> string \<Rightarrow> string" where
  "de_string env key v = (if v = [] then pe_user_default env key else v)"

text \<open>\<open>as i32\<close> cuts the fraction off and saturates.\<close>

definition f64_as_i32 :: "rat \<Rightarrow> int" where
  "f64_as_i32 x = max (- (2 ^ 31)) (min (2 ^ 31 - 1) (if 0 \<le> x then \<lfloor>x\<rfloor> else \<lceil>x\<rceil>))"

definition default_custom_image_quality :: "peer_env \<Rightarrow> int list" where
  "default_custom_image_quality env =
    (let f = unwrap_or (pe_parse_f64 env (pe_user_default env ''custom_image_quality'')) 50 in [f64_as_i32 f])"

definition default_trackpad_speed :: "peer_env \<Rightarrow> int" where
  "default_trackpad_speed env = unwrap_or (parse_i32 (pe_user_default env ''trackpad-speed'')) 100"

definition default_edge_scroll_edge_thickness :: "peer_env \<Rightarrow> int" where
  "default_edge_scroll_edge_thickness env = unwrap_or (parse_i32 (pe_user_default env ''edge-scroll-edge-thickness'')) 100"

definition peer_deserialize :: "peer_env \<Rightarrow> peer_config \<Rightarrow> peer_config" where
  "peer_deserialize env c =
     c\<lparr>pc_view_style := de_string env ''view_style'' (pc_view_style c),
       pc_scroll_style := de_string env ''scroll_style'' (pc_scroll_style c),
       pc_image_quality := de_string env ''image_quality'' (pc_image_quality c),
       pc_reverse_mouse_wheel := de_string env ''reverse_mouse_wheel'' (pc_reverse_mouse_wheel c),
       pc_displays_as_individual_windows := de_string env ''displays_as_individual_windows'' (pc_displays_as_individual_windows c),
       pc_use_all_my_displays := de_string env ''use_all_my_displays_for_the_remote_session'' (pc_use_all_my_displays c),
       pc_custom_image_quality :=
         (case pc_custom_image_quality c of
            [v] \<Rightarrow> if v \<ge> 10 \<and> v \<le> 0xFFF then [v] else default_custom_image_quality env
          | _ \<Rightarrow> default_custom_image_quality env),
       pc_trackpad_speed :=
         (if pc_trackpad_speed c \<ge> 10 \<and> pc_trackpad_speed c \<le> 1000 then pc_trackpad_speed c else default_trackpad_speed env),
       pc_edge_scroll_edge_thickness :=
         (if pc_edge_scroll_edge_thickness c \<ge> 20 \<and> pc_edge_scroll_edge_thickness c \<le> 150
          then pc_edge_scroll_edge_thickness c else default_edge_scroll_edge_thickness env)\<rparr>"

definition ud_bool :: "peer_env \<Rightarrow> string \<Rightarrow> bool" where
  "ud_bool env key \<longleftrightarrow> pe_user_default env key = ''Y''"

definition default_options :: "peer_env \<Rightarrow> settings" where
  "default_options env =
     fold (\<lambda>key. hm_insert key (pe_user_default env key))
       [''codec-preference'', ''custom-fps'', ''zoom-cursor'', ''i444'', ''swap-left-right-mouse'', ''collapse_toolbar''] []"

definition peer_default :: "peer_env \<Rightarrow> peer_config" where
  "peer_default env =
     \<lparr>pc_password = [], pc_size = (0, 0, 0, 0), pc_size_ft = (0, 0, 0, 0), pc_size_pf = (0, 0, 0, 0),
      pc_view_style = pe_user_default env ''view_style'', pc_scroll_style = pe_user_default env ''scroll_style'',
      pc_edge_scroll_edge_thickness = default_edge_scroll_edge_thickness env,
      pc_image_quality = pe_user_default env ''image_quality'', pc_custom_image_quality = default_custom_image_quality env,
      pc_show_remote_cursor = ud_bool env ''show_remote_cursor'',
      pc_lock_after_session_end = ud_bool env ''lock_after_session_end'',
      pc_terminal_persistent = ud_bool env ''terminal-persistent'', pc_privacy_mode = ud_bool env ''privacy_mode'',
      pc_allow_swap_key = ud_bool env ''allow_swap_key'', pc_port_forwards = [], pc_direct_failures = 0,
      pc_disable_audio = ud_bool env ''disable_audio'', pc_disable_clipboard = ud_bool env ''disable_clipboard'',
      pc_enable_file_copy_paste = ud_bool env ''enable-file-copy-paste'',
      pc_show_quality_monitor = ud_bool env ''show_quality_monitor'',
      pc_follow_remote_cursor = ud_bool env ''follow_remote_cursor'',
      pc_follow_remote_window = ud_bool env ''follow_remote_window'', pc_keyboard_mode = [],
      pc_view_only = ud_bool env ''view_only'', pc_show_my_cursor = ud_bool env ''show_my_cursor'',
      pc_sync_init_clipboard = ud_bool env ''sync-init-clipboard'',
      pc_reverse_mouse_wheel = pe_user_default env ''reverse_mouse_wheel'',
      pc_displays_as_individual_windows = pe_user_default env ''displays_as_individual_windows'',
      pc_use_all_my_displays = pe_user_default env ''use_all_my_displays_for_the_remote_session'',
      pc_trackpad_speed = default_trackpad_speed env, pc_custom_resolutions = [], pc_options = default_options env,
      pc_ui_flutter = [], pc_info = \<lparr>pi_username = [], pi_hostname = [], pi_platform = [], pi_os_version = []\<rparr>,
      pc_transfer = ([], [])\<rparr>"

text \<open>Decryption of one secret option; the flag asks for a store.\<close>

definition decrypt_opt :: "crypto_ops \<Rightarrow> string \<Rightarrow> settings \<times> bool \<Rightarrow> settings \<times> bool" where
  "decrypt_opt co opt acc =
    (case acc of (m, store) \<Rightarrow>
       (case hm_get m opt of
          None \<Rightarrow> (m, store)
        | Some v \<Rightarrow> (case decrypt_str_or_original co (str_bytes v) version00 of
                      (d, _, store2) \<Rightarrow> (hm_modify opt (\<lambda>_. bytes_str d) m, store \<or> store2))))"

definition peer_load :: "peer_env \<Rightarrow> int \<Rightarrow> string \<Rightarrow> peer_store \<Rightarrow> peer_config \<times> peer_store" where
  "peer_load env now i s =
    (case hm_get (pr_dir s) (peer_path env i) of
       Some (_, Some raw) \<Rightarrow>
         let config = peer_deserialize env raw in
         (case decrypt_vec_or_original (pe_crypto env) (pc_password config) version00 of (password, _, store1) \<Rightarrow>
          case fold (decrypt_opt (pe_crypto env)) SECRET_OPTIONS (pc_options config, store1) of (options, store) \<Rightarrow>
            let config = config\<lparr>pc_password := password, pc_options := options\<rparr> in
            (config, if store then store_peer env now i config s else s))
     | _ \<Rightarrow> (peer_default env, s))"

definition peer_remove :: "peer_env \<Rightarrow> string \<Rightarrow> peer_store \<Rightarrow> peer_store" where
  "peer_remove env i s = s\<lparr>pr_dir := hm_remove (peer_path env i) (pr_dir s)\<rparr>"

definition peer_exists :: "peer_env \<Rightarrow> string \<Rightarrow> peer_store \<Rightarrow> bool" where
  "peer_exists env i s \<longleftrightarrow> hm_contains (pr_dir s) (peer_path env i)"

subsection \<open>The list of peers\<close>

definition BATCH_LOADING_COUNT :: nat where "BATCH_LOADING_COUNT = 100"

definition decode_stem :: "peer_env \<Rightarrow> string \<Rightarrow> string" where
  "decode_stem env i =
    (if starts_with i ''base64_'' \<and> length i \<noteq> 7 then unwrap_or_default (pe_b64_decode env (drop 7 i)) else i)"

text \<open>Newest first; only files of the directory itself are listed, not those in a directory below.\<close>

definition get_vec_id_modified_time_path :: "peer_env \<Rightarrow> string list option \<Rightarrow> peer_store \<Rightarrow> (string \<times> int \<times> string) list" where
  "get_vec_id_modified_time_path env id_filters s =
     sort_key (\<lambda>(_, t, _). - t)
       (filter (\<lambda>(i, _, _). case id_filters of Some fs \<Rightarrow> i \<in> set fs | None \<Rightarrow> True)
         (map (\<lambda>(p, t, _). (decode_stem env p, t, p)) (filter (\<lambda>(p, _). CHR ''/'' \<notin> set p) (pr_dir s))))"

text \<open>One entry: a peer that never connected (no platform known) is dropped and its file removed.\<close>

definition batch_entry :: "peer_env \<Rightarrow> int \<Rightarrow> string \<times> int \<times> string \<Rightarrow> (string \<times> int \<times> peer_config) list \<times> peer_store
    \<Rightarrow> (string \<times> int \<times> peer_config) list \<times> peer_store" where
  "batch_entry env now e acc =
    (case e of (i, t, p) \<Rightarrow> case acc of (out, s) \<Rightarrow> case peer_load env now i s of (c, s) \<Rightarrow>
       if pi_platform (pc_info c) = [] then (out, s\<lparr>pr_dir := hm_remove p (pr_dir s)\<rparr>) else (out @ [(i, t, c)], s))"

definition batch_peers :: "peer_env \<Rightarrow> int \<Rightarrow> (string \<times> int \<times> string) list \<Rightarrow> nat \<Rightarrow> nat option \<Rightarrow> peer_store
    \<Rightarrow> ((string \<times> int \<times> peer_config) list \<times> nat) \<times> peer_store" where
  "batch_peers env now all from to_opt s =
    (if from \<ge> length all then (([], 0), s)
     else let to = (case to_opt of Some to \<Rightarrow> min to (length all) | None \<Rightarrow> min (from + BATCH_LOADING_COUNT) (length all)) in
       if to \<le> from then (([], from), s)
       else case fold (batch_entry env now) (take (to - from) (drop from all)) ([], s) of (peers, s) \<Rightarrow> ((peers, to), s))"

definition peers :: "peer_env \<Rightarrow> int \<Rightarrow> string list option \<Rightarrow> peer_store \<Rightarrow> (string \<times> int \<times> peer_config) list \<times> peer_store" where
  "peers env now id_filters s =
    (let all = get_vec_id_modified_time_path env id_filters s in
     case batch_peers env now all 0 (Some (length all)) s of ((ps, _), s) \<Rightarrow> (ps, s))"

subsection \<open>Values and secrets\<close>

definition peer_valid :: "peer_env \<Rightarrow> peer_config \<Rightarrow> bool" where
  "peer_valid env c \<longleftrightarrow>
     (pc_view_style c = [] \<longrightarrow> pe_user_default env ''view_style'' = [])
   \<and> (pc_scroll_style c = [] \<longrightarrow> pe_user_default env ''scroll_style'' = [])
   \<and> (pc_image_quality c = [] \<longrightarrow> pe_user_default env ''image_quality'' = [])
   \<and> (pc_reverse_mouse_wheel c = [] \<longrightarrow> pe_user_default env ''reverse_mouse_wheel'' = [])
   \<and> (pc_displays_as_individual_windows c = [] \<longrightarrow> pe_user_default env ''displays_as_individual_windows'' = [])
   \<and> (pc_use_all_my_displays c = [] \<longrightarrow> pe_user_default env ''use_all_my_displays_for_the_remote_session'' = [])
   \<and> (\<exists>v. pc_custom_image_quality c = [v] \<and> 10 \<le> v \<and> v \<le> 0xFFF)
   \<and> 10 \<le> pc_trackpad_speed c \<and> pc_trackpad_speed c \<le> 1000
   \<and> 20 \<le> pc_edge_scroll_edge_thickness c \<and> pc_edge_scroll_edge_thickness c \<le> 150"

lemma deserialize_valid: "peer_valid env c \<Longrightarrow> peer_deserialize env c = c"
  by (cases c) (auto simp: peer_valid_def peer_deserialize_def de_string_def)

definition defaults_ok :: "peer_env \<Rightarrow> bool" where
  "defaults_ok env \<longleftrightarrow> (\<exists>v. default_custom_image_quality env = [v] \<and> 10 \<le> v \<and> v \<le> 0xFFF)
     \<and> 10 \<le> default_trackpad_speed env \<and> default_trackpad_speed env \<le> 1000
     \<and> 20 \<le> default_edge_scroll_edge_thickness env \<and> default_edge_scroll_edge_thickness env \<le> 150"

lemma peer_deserialize_valid: "defaults_ok env \<Longrightarrow> peer_valid env (peer_deserialize env c)"
  by (auto simp: peer_valid_def peer_deserialize_def de_string_def defaults_ok_def split: list.split)

lemma peer_default_valid: "defaults_ok env \<Longrightarrow> peer_valid env (peer_default env)"
  by (simp add: peer_valid_def peer_default_def defaults_ok_def)

lemma peer_valid_secrets [simp]:
  "peer_valid env (c\<lparr>pc_password := p, pc_options := m\<rparr>) = peer_valid env c"
  by (simp add: peer_valid_def)

lemma str_bytes_str [simp]: "str_bytes (bytes_str bs) = bs"
proof -
  have "of_nat (of_char (char_of (unat b) :: char)) = b" for b :: "8 word"
    using unsigned_less [of b, where ?'a = nat] by (simp add: of_char_of del: of_nat_of_char)
  then show ?thesis by (simp add: bytes_str_def str_bytes_def comp_def del: of_nat_of_char)
qed

lemma vec_secret_roundtrip:
  assumes "crypto_roundtrips co" and "\<not> fst (snd (decrypt_vec_or_original co v version00))" and "length v \<le> max_len"
  shows "decrypt_vec_or_original co (encrypt_vec_or_original co v version00 max_len) version00 = (v, v \<noteq> [], False)"
proof (cases "v = []")
  case True
  then show ?thesis by (simp add: encrypt_vec_or_original_def decrypt_vec_or_original_def ps_encrypt_def)
next
  case False
  then obtain e where e: "ps_encrypt co v = Some e" using ps_encrypt_Some by blast
  then have "encrypt_vec_or_original co v version00 max_len = version00 @ e"
    using assms(2,3) by (simp add: encrypt_vec_or_original_def)
  then show ?thesis using ps_decrypt_encrypt [OF assms(1) e] False by (simp add: decrypt_of_version)
qed

text \<open>Encryption of the options in a set of keys, all at once.\<close>

definition enc_on :: "crypto_ops \<Rightarrow> string set \<Rightarrow> settings \<Rightarrow> settings" where
  "enc_on co ks m = map (\<lambda>(k, v). (k, if k \<in> ks then encrypt_opt co v else v)) m"

lemma enc_on_empty [simp]: "enc_on co {} m = m"
  by (simp add: enc_on_def)

lemma hm_get_enc_on: "hm_get (enc_on co ks m) k = map_option (if k \<in> ks then encrypt_opt co else (\<lambda>v. v)) (hm_get m k)"
  unfolding enc_on_def hm_get_def by (induction m) (auto simp: option.map_ident)

lemma fold_encrypt: "distinct ks \<Longrightarrow> fold (\<lambda>opt. hm_modify opt (encrypt_opt co)) ks m = enc_on co (set ks) m"
proof (induction ks arbitrary: m)
  case (Cons k ks)
  have "enc_on co (set ks) (hm_modify k (encrypt_opt co) m) = enc_on co (set (k # ks)) m"
    using Cons.prems by (auto simp: enc_on_def hm_modify_def)
  with Cons show ?case by simp
qed simp

definition secrets_good :: "crypto_ops \<Rightarrow> string list \<Rightarrow> settings \<Rightarrow> bool" where
  "secrets_good co ks m \<longleftrightarrow> list_all (\<lambda>k. case hm_get m k of Some v \<Rightarrow> good_secret co (str_bytes v) | None \<Rightarrow> True) ks"

lemma decrypt_opt_enc_on:
  assumes "crypto_roundtrips co" and "hm_wf m" and "k \<notin> ks" and "secrets_good co [k] m"
  shows "decrypt_opt co k (enc_on co (insert k ks) m, b) = (enc_on co ks m, b)"
proof (cases "hm_get m k")
  case None
  then have "(k, v) \<notin> set m" for v by (auto simp: hm_get_def map_of_eq_None_iff image_iff)
  then have "enc_on co (insert k ks) m = enc_on co ks m" by (auto simp: enc_on_def)
  with None show ?thesis by (simp add: decrypt_opt_def hm_get_enc_on)
next
  case (Some v)
  have uniq: "(k, v') \<in> set m \<Longrightarrow> v' = v" for v'
    using Some assms(2) by (metis hm_get_def hm_wf_def map_of_is_SomeI option.inject)
  have "good_secret co (str_bytes v)" using assms(4) Some by (simp add: secrets_good_def)
  from secret_roundtrip [OF assms(1) this]
  have "decrypt_opt co k (enc_on co (insert k ks) m, b) = (hm_modify k (\<lambda>_. v) (enc_on co (insert k ks) m), b)"
    using Some by (simp add: decrypt_opt_def hm_get_enc_on encrypt_opt_def)
  also have "hm_modify k (\<lambda>_. v) (enc_on co (insert k ks) m) = enc_on co ks m"
    using uniq assms(3) by (auto simp: enc_on_def hm_modify_def)
  finally show ?thesis .
qed

lemma fold_decrypt:
  assumes "crypto_roundtrips co" and "hm_wf m" and "distinct ks" and "secrets_good co ks m"
  shows "fold (decrypt_opt co) ks (enc_on co (set ks) m, b) = (m, b)"
  using assms(3,4)
proof (induction ks)
  case (Cons k ks)
  have "decrypt_opt co k (enc_on co (insert k (set ks)) m, b) = (enc_on co (set ks) m, b)"
    using Cons.prems by (intro decrypt_opt_enc_on assms(1,2)) (auto simp: secrets_good_def)
  with Cons show ?case by (simp add: secrets_good_def)
qed simp

lemma distinct_secret_options: "distinct SECRET_OPTIONS"
  by (simp add: SECRET_OPTIONS_def)

subsection \<open>Properties\<close>

text \<open>
  C34. The configuration of a peer round-trips through its file: when it is valid and its secrets are within the
  limit, loading after storing gives the same configuration and asks for no further store.
\<close>

theorem peer_config_roundtrip:
  assumes "crypto_roundtrips (pe_crypto env)" and "pe_writes env" and "peer_valid env c"
    and "\<not> fst (snd (decrypt_vec_or_original (pe_crypto env) (pc_password c) version00))"
    and "length (pc_password c) \<le> ENCRYPT_MAX_LEN" and "hm_wf (pc_options c)"
    and "secrets_good (pe_crypto env) SECRET_OPTIONS (pc_options c)"
  shows "peer_load env later i (store_peer env now i c s) = (c, store_peer env now i c s)"
proof -
  let ?co = "pe_crypto env"
  have opts: "fold (\<lambda>opt. hm_modify opt (encrypt_opt ?co)) SECRET_OPTIONS (pc_options c)
      = enc_on ?co (set SECRET_OPTIONS) (pc_options c)"
    by (rule fold_encrypt) (rule distinct_secret_options)
  have valid: "peer_valid env (peer_encrypt ?co c)" using assms(3) by (simp add: peer_encrypt_def)
  have load: "hm_get (pr_dir (store_peer env now i c s)) (peer_path env i) = Some (now, Some (peer_encrypt ?co c))"
    using assms(2) by (simp add: store_peer_def hmap_simps)
  show ?thesis
    using vec_secret_roundtrip [OF assms(1,4,5)] fold_decrypt [OF assms(1,6) distinct_secret_options assms(7), of False]
    by (simp add: peer_load_def load deserialize_valid [OF valid]) (simp add: peer_encrypt_def opts)
qed

text \<open>Reading and printing of the whole numbers among the \<open>f64\<close>.\<close>

definition demo_parse_f64 :: "string \<Rightarrow> rat option" where
  "demo_parse_f64 s = map_option of_int (parse_i32 s)"

definition demo_show_f64 :: "rat \<Rightarrow> string" where
  "demo_show_f64 x = show_int \<lfloor>x\<rfloor>"

lemma demo_f64_roundtrip: "0 < n \<Longrightarrow> n < 2 ^ 31 \<Longrightarrow> demo_parse_f64 (demo_show_f64 (of_int n)) = Some (of_int n)"
  by (simp add: demo_parse_f64_def demo_show_f64_def parse_i32_show)

definition demo_peer_env :: peer_env where
  "demo_peer_env = \<lparr>pe_crypto = demo_crypto, pe_b64_encode = (\<lambda>s. s), pe_b64_decode = Some,
     pe_user_default = user_default_get demo_parse_f64 demo_show_f64 [] [] [], pe_parse_f64 = demo_parse_f64, pe_writes = True\<rparr>"

definition demo_peer :: peer_config where
  "demo_peer = (peer_default demo_peer_env)\<lparr>pc_password := [51], pc_options := [(''os-password'', ''p'')],
     pc_info := \<lparr>pi_username = ''u'', pi_hostname = ''h'', pi_platform = ''Linux'', pi_os_version = []\<rparr>\<rparr>"

lemma demo_defaults_ok: "defaults_ok demo_peer_env"
proof -
  have "parse_i32 (show_int 100) = Some 100" by (rule parse_i32_show) simp_all
  moreover have "demo_parse_f64 (demo_show_f64 50) = Some 50" using demo_f64_roundtrip [of 50] by simp
  ultimately show ?thesis
    by (simp add: defaults_ok_def default_trackpad_speed_def default_edge_scroll_edge_thickness_def demo_peer_env_def
        default_custom_image_quality_def f64_as_i32_def user_default_get_def get_num_string_def get_or_def unwrap_or_def)
qed

theorem peer_config_roundtrip_witness:
  "peer_load demo_peer_env 2 ''abc'' (store_peer demo_peer_env 1 ''abc'' demo_peer \<lparr>pr_dir = [], pr_new = []\<rparr>)
   = (demo_peer, store_peer demo_peer_env 1 ''abc'' demo_peer \<lparr>pr_dir = [], pr_new = []\<rparr>)"
proof (rule peer_config_roundtrip)
  show "crypto_roundtrips (pe_crypto demo_peer_env)" "pe_writes demo_peer_env"
    by (simp_all add: demo_peer_env_def demo_crypto_ok)
  show "peer_valid demo_peer_env demo_peer"
    using peer_default_valid [OF demo_defaults_ok] by (simp add: demo_peer_def peer_valid_def)
  show "\<not> fst (snd (decrypt_vec_or_original (pe_crypto demo_peer_env) (pc_password demo_peer) version00))"
      "length (pc_password demo_peer) \<le> ENCRYPT_MAX_LEN" "hm_wf (pc_options demo_peer)"
    by (simp_all add: demo_peer_def decrypt_vec_or_original_def VERSION_LEN_def ENCRYPT_MAX_LEN_def hm_wf_def)
  show "secrets_good (pe_crypto demo_peer_env) SECRET_OPTIONS (pc_options demo_peer)"
    by (simp add: secrets_good_def SECRET_OPTIONS_def demo_peer_def hm_get_def demo_peer_env_def demo_crypto_def good_secret_def
        char_count_def decrypt_str_or_original_def VERSION_LEN_def str_bytes_def ENCRYPT_MAX_LEN_def)
qed

text \<open>
  C35. A loaded peer configuration is well formed whatever its file holds: with defaults read from the user's
  settings of any content, the custom quality is one number between 10 and 4095, the trackpad speed is between 10
  and 1000 and the edge thickness between 20 and 150. The standard library's reading and printing of an \<open>f64\<close> are assumed
  to round-trip in the range that is printed.
\<close>

theorem peer_load_valid:
  assumes "pe_user_default env = user_default_get (pe_parse_f64 env) to_string ov df m"
    and "\<And>t f. pe_parse_f64 env t = Some f \<Longrightarrow> 10 \<le> f \<Longrightarrow> f \<le> 4095 \<Longrightarrow> pe_parse_f64 env (to_string f) = Some f"
    and "pe_parse_f64 env (to_string 50) = Some 50"
  shows "peer_valid env (fst (peer_load env now i s))"
proof -
  have num: "\<exists>n. parse_i32 (get_num_string parse_i32 show_int g k d lo hi) = Some n \<and> lo \<le> n \<and> n \<le> hi"
    if "0 < lo" "lo \<le> d" "d \<le> hi" "hi < 2 ^ 31" for g k d lo hi
    using that parse_i32_show by (auto simp: get_num_string_def Let_def split: option.splits)
  let ?q = "get_num_string (pe_parse_f64 env) to_string (get_or ov m df) ''custom_image_quality'' 50 10 4095"
  obtain f where f: "pe_parse_f64 env ?q = Some f" "10 \<le> f" "f \<le> 4095"
  proof (cases "get_or ov m df ''custom_image_quality''")
    case None
    with assms(3) that [of 50] show ?thesis by (simp add: get_num_string_def)
  next
    case (Some opt)
    define v where "v = unwrap_or (pe_parse_f64 env opt) 50"
    have q: "?q = to_string (if 10 \<le> v \<and> v \<le> 4095 then v else 50)"
      using Some by (simp add: get_num_string_def v_def Let_def)
    have "pe_parse_f64 env (to_string v) = Some v" if "10 \<le> v" "v \<le> 4095"
    proof (cases "pe_parse_f64 env opt")
      case None
      then show ?thesis using assms(3) by (simp add: v_def unwrap_or_def)
    next
      case (Some f)
      then show ?thesis using assms(2) [OF Some] \<open>10 \<le> v\<close> \<open>v \<le> 4095\<close> by (simp add: v_def unwrap_or_def)
    qed
    with q assms(3) that [of v] that [of 50] show ?thesis by (simp split: if_splits)
  qed
  then have "default_custom_image_quality env = [\<lfloor>f\<rfloor>]" "10 \<le> \<lfloor>f\<rfloor>" "\<lfloor>f\<rfloor> \<le> 4095"
    by (simp_all add: default_custom_image_quality_def f64_as_i32_def assms(1) user_default_get_def unwrap_or_def le_floor_iff floor_le_iff)
  then have "defaults_ok env"
    using assms(1) num [of 10 100 1000 "get_or ov m df" "''trackpad-speed''"]
      num [of 20 100 150 "get_or ov m df" "''edge-scroll-edge-thickness''"]
    by (auto simp: defaults_ok_def default_trackpad_speed_def default_edge_scroll_edge_thickness_def user_default_get_def
        unwrap_or_def Let_def)
  then show ?thesis
    using peer_deserialize_valid peer_default_valid by (auto simp: peer_load_def Let_def split: option.split prod.split)
qed

theorem peer_load_valid_witness:
  "peer_valid demo_peer_env (fst (peer_load demo_peer_env 1 ''abc'' \<lparr>pr_dir = [(''abc'', 1, Some (demo_peer\<lparr>pc_trackpad_speed := 0\<rparr>))], pr_new = []\<rparr>))"
proof (rule peer_load_valid)
  show "pe_user_default demo_peer_env = user_default_get (pe_parse_f64 demo_peer_env) demo_show_f64 [] [] []"
    by (simp add: demo_peer_env_def)
  show "pe_parse_f64 demo_peer_env (demo_show_f64 50) = Some 50" using demo_f64_roundtrip [of 50] by (simp add: demo_peer_env_def)
  show "pe_parse_f64 demo_peer_env (demo_show_f64 f) = Some f"
    if "pe_parse_f64 demo_peer_env t = Some f" "10 \<le> f" "f \<le> 4095" for t f
  proof -
    have "demo_parse_f64 t = Some f" using that(1) by (simp add: demo_peer_env_def)
    then obtain n where "f = of_int n" unfolding demo_parse_f64_def by blast
    with that(2,3) demo_f64_roundtrip [of n] show ?thesis by (simp add: demo_peer_env_def)
  qed
qed

text \<open>Batches compose: loading a segment in two parts is loading it at once.\<close>

lemma batch_entry_append:
  "fold (batch_entry env now) es (out, s) = (case fold (batch_entry env now) es ([], s) of (out', s') \<Rightarrow> (out @ out', s'))"
proof (induction es arbitrary: out s)
  case (Cons e es)
  obtain i t p where e: "e = (i, t, p)" by (cases e) auto
  obtain c s' where l: "peer_load env now i s = (c, s')" by fastforce
  show ?case
    using Cons.IH [of out "s'\<lparr>pr_dir := hm_remove p (pr_dir s')\<rparr>"] Cons.IH [of "out @ [(i, t, c)]" s'] Cons.IH [of "[(i, t, c)]" s']
    by (simp add: batch_entry_def e l split: prod.split)
qed simp

lemma batch_peers_next:
  "from < length all \<Longrightarrow> batch_peers env now all from None s =
     (case fold (batch_entry env now) (take (min (from + 100) (length all) - from) (drop from all)) ([], s) of
        (ps, s) \<Rightarrow> ((ps, min (from + 100) (length all)), s))"
  by (simp add: batch_peers_def BATCH_LOADING_COUNT_def Let_def)

text \<open>The user interface asks for batch after batch, from the index it was given, until it gets index 0.\<close>

function load_batches :: "peer_env \<Rightarrow> int \<Rightarrow> (string \<times> int \<times> string) list \<Rightarrow> nat \<Rightarrow> peer_store
    \<Rightarrow> (string \<times> int \<times> peer_config) list \<times> peer_store" where
  "load_batches env now all from s =
    (if from \<ge> length all then ([], s)
     else case batch_peers env now all from None s of ((ps, next_from), s) \<Rightarrow>
       case load_batches env now all next_from s of (ps', s) \<Rightarrow> (ps @ ps', s))"
  by pat_completeness auto

termination
  by (relation "measure (\<lambda>(_, _, all, n, _). length all - n)") (auto simp: batch_peers_next split: prod.splits)

declare load_batches.simps [simp del]

lemma load_batches_eq: "load_batches env now all n s = fold (batch_entry env now) (drop n all) ([], s)"
proof (induction env now all n s rule: load_batches.induct)
  case (1 env now all n s)
  show ?case
  proof (cases "n < length all")
    case True
    let ?N = "min (n + 100) (length all)"
    obtain ps s' where b: "fold (batch_entry env now) (take (?N - n) (drop n all)) ([], s) = (ps, s')" by fastforce
    have "load_batches env now all ?N s' = fold (batch_entry env now) (drop ?N all) ([], s')"
      using 1 True b by (simp add: batch_peers_next)
    moreover have "drop n all = take (?N - n) (drop n all) @ drop ?N all"
      using True by (metis append_take_drop_id drop_drop le_add_diff_inverse2 less_imp_le_nat min.bounded_iff trans_le_add1 order_refl)
    then have "fold (batch_entry env now) (drop n all) ([], s) = fold (batch_entry env now) (drop ?N all) (ps, s')"
      by (metis b fold_append o_apply)
    ultimately show ?thesis
      using True batch_entry_append [of env now "drop ?N all" ps s']
      by (subst load_batches.simps) (simp add: batch_peers_next b)
  qed (simp add: load_batches.simps)
qed

text \<open>
  Loading in batches is complete: asking for batch after batch ends, and gives the peers, in the order of the
  list, and leaves the files, that loading the whole list at once does.
\<close>

theorem load_batches_complete:
  "load_batches env now (get_vec_id_modified_time_path env id_filters s) 0 s = peers env now id_filters s"
  by (simp add: load_batches_eq peers_def batch_peers_def Let_def split: prod.split)

text \<open>
  A stored peer is listed under its id: after its configuration was stored, the list of peers has an entry with
  the id, provided base64 of an id with special characters decodes to it and has no separator in it.
\<close>

theorem stored_peer_listed:
  assumes "pe_writes env"
    and "if forbidden_paths i then pe_b64_encode env i \<noteq> [] \<and> CHR ''/'' \<notin> set (pe_b64_encode env i)
           \<and> pe_b64_decode env (pe_b64_encode env i) = Some i
         else \<not> starts_with i ''base64_''"
  shows "\<exists>e \<in> set (get_vec_id_modified_time_path env None (store_peer env now i c s)). fst e = i"
proof -
  have no_sep: "rev (dropWhile (\<lambda>c. c = CHR ''/'') (rev x)) = x" if "CHR ''/'' \<notin> set x" for x
    using that by (cases x rule: rev_cases) auto
  have fb: "\<not> forbidden_paths i \<Longrightarrow> CHR ''/'' \<notin> set i"
    by (auto simp: forbidden_paths_def FORBIDDEN_def list_ex_iff)
  have p1: "peer_path env i = (if forbidden_paths i then ''base64_'' @ pe_b64_encode env i else i)"
    using assms(2) fb no_sep [of "''base64_'' @ pe_b64_encode env i"] no_sep [of i] by (auto simp: peer_path_def)
  then have p2: "CHR ''/'' \<notin> set (peer_path env i)" using assms(2) fb by auto
  have dec: "decode_stem env (peer_path env i) = i"
    using assms(2) p1 by (auto simp: decode_stem_def starts_with_def unwrap_or_default_def)
  let ?m = "pr_dir (store_peer env now i c s)"
  have "hm_get ?m (peer_path env i) \<noteq> None" using assms(1) by (simp add: store_peer_def hmap_simps)
  then obtain t r where "(peer_path env i, t, r) \<in> set ?m" by (auto simp: hm_get_def dest: map_of_SomeD)
  then have "(i, t, peer_path env i) \<in> set (get_vec_id_modified_time_path env None (store_peer env now i c s))"
    using p2 dec by (force simp: get_vec_id_modified_time_path_def)
  then show ?thesis by force
qed

theorem stored_peer_listed_witness:
  "\<exists>e \<in> set (get_vec_id_modified_time_path demo_peer_env None (store_peer demo_peer_env 1 ''a:1'' demo_peer \<lparr>pr_dir = [], pr_new = []\<rparr>)).
     fst e = ''a:1''"
  by (rule stored_peer_listed) (simp_all add: demo_peer_env_def forbidden_paths_def FORBIDDEN_def)

end
