(* ===== verification/Codec_Negotiation.thy ===== *)
theory Codec_Negotiation
  imports Float32 Peer_Config
begin

text \<open>
  The choice of the video codec, \<open>libs/scrap/src/common/codec.rs\<close>: what the controlling side says it can decode and
  prefers, and how the controlled side picks one codec for all its connections. What encoders and decoders the machine
  has, its memory and its build features are parameters; the model is that of a desktop build. The order of the map of connections is that of
  insertion; no property here depends on it.
\<close>

subsection \<open>Data\<close>

datatype codec_format = FmtVP8 | FmtVP9 | FmtAV1 | FmtH264 | FmtH265 | FmtUnknown

text \<open>A preference as it arrives; the last constructor is a number outside the enumeration.\<close>

datatype prefer_codec = PreferAuto | PreferVP9 | PreferH264 | PreferH265 | PreferVP8 | PreferAV1 | PreferOther int

record supported_decoding =
  sd_vp8 :: int
  sd_vp9 :: int
  sd_av1 :: int
  sd_h264 :: int
  sd_h265 :: int
  sd_prefer :: prefer_codec
  sd_i444_vp9 :: bool
  sd_i444_av1 :: bool
  sd_prefer_i444 :: bool

record supported_encoding =
  sn_vp8 :: bool
  sn_av1 :: bool
  sn_h264 :: bool
  sn_h265 :: bool

definition sd_default :: supported_decoding where
  "sd_default = \<lparr>sd_vp8 = 0, sd_vp9 = 0, sd_av1 = 0, sd_h264 = 0, sd_h265 = 0, sd_prefer = PreferAuto,
     sd_i444_vp9 = False, sd_i444_av1 = False, sd_prefer_i444 = False\<rparr>"

text \<open>
  The machine: 32-bit builds do without AV1; \<open>nv_vram\<close> and \<open>nv_hw\<close> tell whether encoders on graphics memory and hardware
  encoders are built in and enabled, the fields after them which there are; likewise for decoders.
\<close>

record codec_env =
  nv_disable_av1 :: bool
  nv_vram :: bool
  nv_vram_h264 :: bool
  nv_vram_h265 :: bool
  nv_hw :: bool
  nv_hw_h264 :: "string option"
  nv_hw_h265 :: "string option"
  nv_av1_test :: string
  nv_total_memory :: nat
  nv_dec_hw :: bool
  nv_dec_hw_h264 :: bool
  nv_dec_hw_h265 :: bool
  nv_dec_vram :: bool
  nv_dec_vram_h264 :: bool
  nv_dec_vram_h265 :: bool

record encoder_state =
  es_decodings :: "(i32, supported_decoding) hmap"
  es_format :: codec_format
  es_usable :: "supported_encoding option"

definition encoder_init :: encoder_state where
  "encoder_init = \<lparr>es_decodings = [], es_format = FmtVP9, es_usable = None\<rparr>"

datatype encoding_update = EncUpdate i32 supported_decoding | EncRemove i32 | EncNewOnlyVP9 i32 | EncCheck

subsection \<open>The controlled side\<close>

definition update_decodings :: "encoding_update \<Rightarrow> (i32, supported_decoding) hmap \<Rightarrow> (i32, supported_decoding) hmap" where
  "update_decodings u m =
    (case u of
       EncUpdate i d \<Rightarrow> hm_insert i d m
     | EncRemove i \<Rightarrow> hm_remove i m
     | EncNewOnlyVP9 i \<Rightarrow> hm_insert i (sd_default\<lparr>sd_vp9 := 1\<rparr>) m
     | EncCheck \<Rightarrow> m)"

definition all_support :: "(supported_decoding \<Rightarrow> int) \<Rightarrow> (i32, supported_decoding) hmap \<Rightarrow> bool" where
  "all_support ability m \<longleftrightarrow> m \<noteq> [] \<and> list_all (\<lambda>(_, s). ability s > 0) m"

definition h264_encoder :: "codec_env \<Rightarrow> bool" where
  "h264_encoder env \<longleftrightarrow> nv_vram env \<and> nv_vram_h264 env \<or> nv_hw env \<and> nv_hw_h264 env \<noteq> None"

definition h265_encoder :: "codec_env \<Rightarrow> bool" where
  "h265_encoder env \<longleftrightarrow> nv_vram env \<and> nv_vram_h265 env \<or> nv_hw env \<and> nv_hw_h265 env \<noteq> None"

definition usable_encodings :: "codec_env \<Rightarrow> (i32, supported_decoding) hmap \<Rightarrow> supported_encoding" where
  "usable_encodings env m =
     \<lparr>sn_vp8 = all_support sd_vp8 m, sn_av1 = all_support sd_av1 m \<and> \<not> nv_disable_av1 env,
      sn_h264 = all_support sd_h264 m \<and> h264_encoder env, sn_h265 = all_support sd_h265 m \<and> h265_encoder env\<rparr>"

definition preference_usable :: "supported_encoding \<Rightarrow> prefer_codec \<Rightarrow> bool" where
  "preference_usable u p \<longleftrightarrow> p = PreferVP9 \<or> p = PreferVP8 \<and> sn_vp8 u \<or> p = PreferAV1 \<and> sn_av1 u
     \<or> p = PreferH264 \<and> sn_h264 u \<or> p = PreferH265 \<and> sn_h265 u"

definition usable_preferences :: "supported_encoding \<Rightarrow> (i32, supported_decoding) hmap \<Rightarrow> prefer_codec list" where
  "usable_preferences u m = map (\<lambda>(_, s). sd_prefer s) (filter (\<lambda>(_, s). preference_usable u (sd_prefer s)) m)"

text \<open>The loop that counts the preferences, in the order of their first occurrence.\<close>

fun bump_count :: "prefer_codec \<Rightarrow> (prefer_codec \<times> nat) list \<Rightarrow> (prefer_codec \<times> nat) list" where
  "bump_count p [] = [(p, 1)]"
| "bump_count p ((q, n) # cs) = (if q = p then (q, n + 1) # cs else (q, n) # bump_count p cs)"

definition count_preferences :: "prefer_codec list \<Rightarrow> (prefer_codec \<times> nat) list" where
  "count_preferences ps = fold bump_count ps []"

definition most_frequent :: "prefer_codec list \<Rightarrow> prefer_codec" where
  "most_frequent ps =
    (let counts = count_preferences ps; max_count = fold max (map snd counts) 0 in
     case find (\<lambda>(_, n). n = max_count) counts of Some (p, _) \<Rightarrow> p | None \<Rightarrow> PreferAuto)"

text \<open>Automatic choice: H265, then H264, then AV1 or VP9, or VP8 on a machine with at most 4 GB.\<close>

definition auto_codec :: "codec_env \<Rightarrow> supported_encoding \<Rightarrow> codec_format" where
  "auto_codec env u =
    (let c = (if sn_av1 u \<and> nv_av1_test env \<noteq> ''N'' then FmtAV1 else FmtVP9);
         c = (if sn_h264 u then FmtH264 else c);
         c = (if sn_h265 u then FmtH265 else c) in
     if (c = FmtVP9 \<or> c = FmtAV1) \<and> sn_vp8 u \<and> nv_total_memory env \<le> 4 * 1024 * 1024 * 1024 then FmtVP8 else c)"

definition choose_format :: "codec_env \<Rightarrow> supported_encoding \<Rightarrow> (i32, supported_decoding) hmap \<Rightarrow> prefer_codec \<Rightarrow> codec_format" where
  "choose_format env u m p =
    (case p of
       PreferVP8 \<Rightarrow> FmtVP8
     | PreferVP9 \<Rightarrow> FmtVP9
     | PreferAV1 \<Rightarrow> FmtAV1
     | PreferH264 \<Rightarrow> if all_support sd_h264 m \<and> h264_encoder env then FmtH264 else auto_codec env u
     | PreferH265 \<Rightarrow> if all_support sd_h265 m \<and> h265_encoder env then FmtH265 else auto_codec env u
     | _ \<Rightarrow> auto_codec env u)"

definition encoder_update :: "codec_env \<Rightarrow> encoding_update \<Rightarrow> encoder_state \<Rightarrow> encoder_state" where
  "encoder_update env upd st =
    (let m = update_decodings upd (es_decodings st); u = usable_encodings env m;
         preference = most_frequent (usable_preferences u m) in
     \<lparr>es_decodings = m, es_format = choose_format env u m preference, es_usable = Some u\<rparr>)"

definition encoder_supported :: "codec_env \<Rightarrow> supported_encoding" where
  "encoder_supported env =
     \<lparr>sn_vp8 = True, sn_av1 = \<not> nv_disable_av1 env,
      sn_h264 = (nv_hw env \<and> nv_hw_h264 env \<noteq> None \<or> nv_vram env \<and> nv_vram_h264 env),
      sn_h265 = (nv_hw env \<and> nv_hw_h265 env \<noteq> None \<or> nv_vram env \<and> nv_vram_h265 env)\<rparr>"

text \<open>The configuration of an encoder, of which the codec matters here; a hardware encoder is known by its name.\<close>

datatype encoder_cfg = CfgVP8 | CfgVP9 | CfgAOM | CfgHwRam string | CfgVRamH264 | CfgVRamH265 | CfgVRamOther

definition set_fallback :: "encoder_cfg \<Rightarrow> encoder_state \<Rightarrow> encoder_state" where
  "set_fallback cfg st =
    (let format = (case cfg of
           CfgVP8 \<Rightarrow> Some FmtVP8
         | CfgVP9 \<Rightarrow> Some FmtVP9
         | CfgAOM \<Rightarrow> Some FmtAV1
         | CfgHwRam name \<Rightarrow>
             let n = map to_lower name in
             Some (if str_contains n ''vp8'' then FmtVP8 else if str_contains n ''vp9'' then FmtVP9 else if str_contains n ''av1'' then FmtAV1
                   else if str_contains n ''h264'' then FmtH264 else FmtH265)
         | CfgVRamH264 \<Rightarrow> Some FmtH264
         | CfgVRamH265 \<Rightarrow> Some FmtH265
         | CfgVRamOther \<Rightarrow> None) in
     case format of Some f \<Rightarrow> st\<lparr>es_format := f\<rparr> | None \<Rightarrow> st)"

definition use_i444 :: "encoder_cfg \<Rightarrow> encoder_state \<Rightarrow> bool" where
  "use_i444 cfg st =
    (let ds = map snd (es_decodings st); prefer_i444 = list_all sd_prefer_i444 ds;
         i444_useable = (case cfg of CfgVP9 \<Rightarrow> list_all sd_i444_vp9 ds | CfgAOM \<Rightarrow> list_all sd_i444_av1 ds | _ \<Rightarrow> False) in
     prefer_i444 \<and> i444_useable \<and> ds \<noteq> [])"

subsection \<open>The controlling side\<close>

text \<open>The preference stored for a peer and whether full colour resolution is wanted; reading the peer may store it again.\<close>

definition preference :: "peer_env \<Rightarrow> int \<Rightarrow> string option \<Rightarrow> peer_store \<Rightarrow> (prefer_codec \<times> bool) \<times> peer_store" where
  "preference env now i s =
    (case i of
       None \<Rightarrow> ((PreferAuto, False), s)
     | Some i \<Rightarrow>
         if i = [] then ((PreferAuto, False), s)
         else case peer_load env now i s of (c, s) \<Rightarrow>
           let codec = unwrap_or_default (hm_get (pc_options c) ''codec-preference'') in
           ((if codec = ''vp8'' then PreferVP8 else if codec = ''vp9'' then PreferVP9 else if codec = ''av1'' then PreferAV1
             else if codec = ''h264'' then PreferH264 else if codec = ''h265'' then PreferH265 else PreferAuto,
             hm_get (pc_options c) ''i444'' = Some ''Y''), s))"

definition mark_unsupported :: "codec_format \<Rightarrow> supported_decoding \<Rightarrow> supported_decoding" where
  "mark_unsupported f d =
    (case f of
       FmtVP8 \<Rightarrow> d\<lparr>sd_vp8 := 0\<rparr>
     | FmtVP9 \<Rightarrow> d\<lparr>sd_vp9 := 0\<rparr>
     | FmtAV1 \<Rightarrow> d\<lparr>sd_av1 := 0\<rparr>
     | FmtH264 \<Rightarrow> d\<lparr>sd_h264 := 0\<rparr>
     | FmtH265 \<Rightarrow> d\<lparr>sd_h265 := 0\<rparr>
     | FmtUnknown \<Rightarrow> d)"

definition supported_decodings :: "codec_env \<Rightarrow> bool \<Rightarrow> prefer_codec \<times> bool \<Rightarrow> codec_format list \<Rightarrow> supported_decoding" where
  "supported_decodings env use_texture_render pref unsupported =
    (let num = (\<lambda>b. if b then 1 else 0);
         d = \<lparr>sd_vp8 = 1, sd_vp9 = 1, sd_av1 = num (\<not> nv_disable_av1 env),
              sd_h264 = num (nv_dec_hw env \<and> nv_dec_hw_h264 env \<or> nv_dec_vram env \<and> use_texture_render \<and> nv_dec_vram_h264 env),
              sd_h265 = num (nv_dec_hw env \<and> nv_dec_hw_h265 env \<or> nv_dec_vram env \<and> use_texture_render \<and> nv_dec_vram_h265 env),
              sd_prefer = fst pref, sd_i444_vp9 = True, sd_i444_av1 = True, sd_prefer_i444 = snd pref\<rparr> in
     fold mark_unsupported unsupported d)"

subsection \<open>Bit rates and threads\<close>

definition RESOLUTION_PRESETS :: "(u32 \<times> u32 \<times> u32) list" where
  "RESOLUTION_PRESETS =
    [(640, 480, 400), (800, 600, 500), (1024, 768, 800), (1280, 720, 1000), (1366, 768, 1100), (1440, 900, 1300),
     (1600, 900, 1500), (1920, 1080, 2073), (2048, 1080, 2200), (2560, 1440, 3000), (3440, 1440, 4000), (3840, 2160, 5000),
     (7680, 4320, 12000)]"

definition u32_distance :: "u32 \<Rightarrow> u32 \<Rightarrow> u32" where
  "u32_distance a b = (if a \<ge> b then a - b else b - a)"

text \<open>The nearest preset, the first of equally near ones.\<close>

fun nearest_preset :: "u32 \<Rightarrow> u32 \<times> u32 \<Rightarrow> (u32 \<times> u32) list \<Rightarrow> u32 \<times> u32" where
  "nearest_preset pixels best [] = best"
| "nearest_preset pixels best (x # xs) =
     nearest_preset pixels (if u32_distance (fst x) pixels < u32_distance (fst best) pixels then x else best) xs"

definition f32_round :: "f32 \<Rightarrow> f32" where
  "f32_round x = (if x < 0 then - of_int \<lfloor>- x + 1 / 2\<rfloor> else of_int \<lfloor>x + 1 / 2\<rfloor>)"

definition base_bitrate :: "u32 \<Rightarrow> u32 \<Rightarrow> u32" where
  "base_bitrate width height =
    (let pixels = width * height;
         presets = map (\<lambda>(w, h, b). (w * h, b)) RESOLUTION_PRESETS;
         (preset_pixels, preset_bitrate) = nearest_preset pixels (hd presets) (tl presets) in
     u32_of_f32 (f32_round (f32_mul (f32_of_u32 preset_bitrate) (f32_div (f32_of_u32 pixels) (f32_of_u32 preset_pixels)))))"

text \<open>The number of threads of an encoder: \<open>idle\<close> is what the load of the machine leaves, memory is in gigabytes.\<close>

definition codec_thread_num :: "nat \<Rightarrow> nat \<Rightarrow> nat \<Rightarrow> nat \<Rightarrow> nat" where
  "codec_thread_num idle cpus memory limit =
    (let res = min (min idle (cpus div 2)) (memory div 2);
         res = (if res \<ge> 64 then 64 else if res \<ge> 32 then 32 else if res \<ge> 16 then 16 else if res \<ge> 8 then 8
                else if res \<ge> 4 then 4 else if res \<ge> 2 then 2 else 1) in
     min res limit)"

subsection \<open>Counting preferences\<close>

lemma bump_count_keys: "set (map fst (bump_count p cs)) = insert p (set (map fst cs))"
  by (induction p cs rule: bump_count.induct) auto

lemma bump_count_distinct: "distinct (map fst cs) \<Longrightarrow> distinct (map fst (bump_count p cs))"
  by (induction p cs rule: bump_count.induct) (use bump_count_keys in auto)

lemma bump_count_map:
  "distinct (map fst cs) \<Longrightarrow> map_of (bump_count p cs) = (map_of cs)(p \<mapsto> (case map_of cs p of Some n \<Rightarrow> n + 1 | None \<Rightarrow> 1))"
  by (induction p cs rule: bump_count.induct) (auto simp: fun_eq_iff split: option.splits)

lemma count_preferences_spec:
  "distinct (map fst (count_preferences ps))
   \<and> map_of (count_preferences ps) = (\<lambda>p. if p \<in> set ps then Some (count_list ps p) else None)"
proof (induction ps rule: rev_induct)
  case (snoc p ps)
  then show ?case
    by (auto simp: count_preferences_def bump_count_distinct bump_count_map fun_eq_iff count_list_append split: option.splits)
qed (simp add: count_preferences_def)

lemma count_preferences_iff: "(p, n) \<in> set (count_preferences ps) \<longleftrightarrow> p \<in> set ps \<and> n = count_list ps p"
  using count_preferences_spec [of ps] by (auto simp: map_of_eq_Some_iff [symmetric] split: if_splits)

lemma fold_max_ge: "x \<in> set xs \<or> x \<le> a \<Longrightarrow> x \<le> fold max xs (a :: nat)"
  by (induction xs arbitrary: a) (auto simp: le_max_iff_disj)

lemma fold_max_in: "fold max xs (a :: nat) \<in> insert a (set xs)"
proof (induction xs arbitrary: a)
  case (Cons x xs)
  then show ?case using Cons [of "max x a"] by (auto simp: max_def split: if_splits)
qed simp

lemma most_frequent_spec:
  "(ps = [] \<and> most_frequent ps = PreferAuto) \<or>
   (most_frequent ps \<in> set ps \<and> (\<forall>q. count_list ps q \<le> count_list ps (most_frequent ps)))"
proof (cases ps)
  case Nil
  then show ?thesis by (simp add: most_frequent_def count_preferences_def)
next
  case (Cons p0 ps0)
  define cs where "cs = count_preferences ps"
  define k where "k = fold max (map snd cs) 0"
  have le: "count_list ps q \<le> k" for q
  proof (cases "q \<in> set ps")
    case True
    then have "(q, count_list ps q) \<in> set cs" by (simp add: cs_def count_preferences_iff)
    then show ?thesis unfolding k_def by (intro fold_max_ge disjI1) force
  qed (simp add: count_notin)
  have "count_list ps p0 > 0" using Cons by simp
  then have "k \<noteq> 0" using le [of p0] by linarith
  then have "k \<in> set (map snd cs)" using fold_max_in [of "map snd cs" 0] by (simp add: k_def)
  then obtain p where "(p, k) \<in> set cs" by auto
  then obtain p' where f: "find (\<lambda>(_, n). n = k) cs = Some (p', k)" and p': "(p', k) \<in> set cs"
    by (cases "find (\<lambda>(_, n). n = k) cs") (fastforce simp: find_None_iff find_Some_iff dest: nth_mem)+
  have "most_frequent ps = p'" using f by (simp add: most_frequent_def cs_def [symmetric] k_def [symmetric] Let_def)
  moreover have "p' \<in> set ps \<and> k = count_list ps p'" using p' by (simp add: cs_def count_preferences_iff)
  ultimately show ?thesis using le by auto
qed

subsection \<open>The chosen codec\<close>

definition can_decode :: "codec_format \<Rightarrow> supported_decoding \<Rightarrow> bool" where
  "can_decode f d \<longleftrightarrow>
    (case f of FmtVP8 \<Rightarrow> sd_vp8 d > 0 | FmtVP9 \<Rightarrow> sd_vp9 d > 0 | FmtAV1 \<Rightarrow> sd_av1 d > 0
     | FmtH264 \<Rightarrow> sd_h264 d > 0 | FmtH265 \<Rightarrow> sd_h265 d > 0 | FmtUnknown \<Rightarrow> False)"

definition prefer_format :: "prefer_codec \<Rightarrow> codec_format" where
  "prefer_format p = (case p of PreferVP8 \<Rightarrow> FmtVP8 | PreferVP9 \<Rightarrow> FmtVP9 | PreferAV1 \<Rightarrow> FmtAV1 | PreferH264 \<Rightarrow> FmtH264
     | PreferH265 \<Rightarrow> FmtH265 | _ \<Rightarrow> FmtUnknown)"

lemma all_support_iff: "all_support ability m \<longleftrightarrow> m \<noteq> [] \<and> list_all (\<lambda>(_, d). ability d > 0) m"
  by (simp add: all_support_def)

lemma auto_codec_decodable:
  "auto_codec env (usable_encodings env m) = FmtVP9 \<or>
   m \<noteq> [] \<and> list_all (\<lambda>(_, d). can_decode (auto_codec env (usable_encodings env m)) d) m"
  by (simp add: auto_codec_def usable_encodings_def all_support_iff can_decode_def Let_def)

lemma usable_preference_format:
  assumes "preference_usable (usable_encodings env m) p"
  shows "choose_format env (usable_encodings env m) m p = prefer_format p"
    and "p = PreferVP9 \<or> m \<noteq> [] \<and> list_all (\<lambda>(_, d). can_decode (prefer_format p) d) m"
  using assms
  by (auto simp: preference_usable_def choose_format_def prefer_format_def usable_encodings_def all_support_iff can_decode_def)

lemma usable_preferences_usable: "p \<in> set (usable_preferences u m) \<Longrightarrow> preference_usable u p"
  by (auto simp: usable_preferences_def)

lemma encoder_update_decodable:
  "let st' = encoder_update env upd st in
   es_format st' = FmtVP9 \<or> list_all (\<lambda>(_, d). can_decode (es_format st') d) (es_decodings st')"
proof -
  define m where "m = update_decodings upd (es_decodings st)"
  define u where "u = usable_encodings env m"
  define p where "p = most_frequent (usable_preferences u m)"
  have "choose_format env u m p = FmtVP9 \<or> list_all (\<lambda>(_, d). can_decode (choose_format env u m p) d) m"
    using most_frequent_spec [of "usable_preferences u m"]
  proof
    assume "usable_preferences u m = [] \<and> most_frequent (usable_preferences u m) = PreferAuto"
    then have "p = PreferAuto" unfolding p_def by (rule conjunct2)
    then have "choose_format env u m p = auto_codec env u" by (simp add: choose_format_def)
    then show ?thesis using auto_codec_decodable [of env m] by (auto simp: u_def)
  next
    assume "most_frequent (usable_preferences u m) \<in> set (usable_preferences u m)
      \<and> (\<forall>q. count_list (usable_preferences u m) q \<le> count_list (usable_preferences u m) (most_frequent (usable_preferences u m)))"
    then have "preference_usable (usable_encodings env m) p" using usable_preferences_usable by (auto simp: p_def u_def)
    from usable_preference_format [OF this] show ?thesis by (auto simp: u_def prefer_format_def)
  qed
  then show ?thesis by (simp add: encoder_update_def m_def u_def p_def Let_def)
qed

text \<open>
  C13. Every connection can decode what is sent: after any sequence of connections, changes and disconnections, on
  machines with any encoders, the codec in use is VP9, which every client is taken to know, or one that every
  connected client has said it decodes.
\<close>

theorem codec_decodable_by_all:
  "let st = fold (\<lambda>(env, upd). encoder_update env upd) us encoder_init in
   es_format st = FmtVP9 \<or> list_all (\<lambda>(_, d). can_decode (es_format st) d) (es_decodings st)"
proof (cases us rule: rev_cases)
  case Nil
  then show ?thesis by (simp add: encoder_init_def)
next
  case (snoc us' x)
  then show ?thesis using encoder_update_decodable [of "fst x" "snd x" "fold (\<lambda>(env, upd). encoder_update env upd) us' encoder_init"]
    by (simp add: case_prod_beta)
qed

text \<open>
  The majority decides: when some connected client prefers a codec that can be used, the codec in use is one that
  most clients with such a preference ask for.
\<close>

theorem codec_by_majority:
  assumes "st' = encoder_update env upd st"
    and "prefs = usable_preferences (usable_encodings env (es_decodings st')) (es_decodings st')" and "prefs \<noteq> []"
  shows "\<exists>p \<in> set prefs. es_format st' = prefer_format p \<and> (\<forall>q. count_list prefs q \<le> count_list prefs p)"
proof -
  have m: "es_decodings st' = update_decodings upd (es_decodings st)"
    "es_format st' = choose_format env (usable_encodings env (es_decodings st')) (es_decodings st') (most_frequent prefs)"
    using assms(1,2) by (simp_all add: encoder_update_def Let_def)
  have "most_frequent prefs \<in> set prefs \<and> (\<forall>q. count_list prefs q \<le> count_list prefs (most_frequent prefs))"
    using most_frequent_spec [of prefs] assms(3) by blast
  then show ?thesis
    using usable_preference_format(1) [OF usable_preferences_usable] m(2) assms(2) by (metis)
qed

definition demo_codec_env :: codec_env where
  "demo_codec_env = \<lparr>nv_disable_av1 = False, nv_vram = False, nv_vram_h264 = False, nv_vram_h265 = False, nv_hw = True,
     nv_hw_h264 = Some ''h264'', nv_hw_h265 = None, nv_av1_test = [], nv_total_memory = 8 * 1024 * 1024 * 1024,
     nv_dec_hw = True, nv_dec_hw_h264 = True, nv_dec_hw_h265 = False, nv_dec_vram = False, nv_dec_vram_h264 = False,
     nv_dec_vram_h265 = False\<rparr>"

theorem codec_by_majority_witness:
  "\<exists>p \<in> set [PreferVP8]. es_format (encoder_update demo_codec_env (EncUpdate 1 (supported_decodings demo_codec_env False (PreferVP8, False) []))
       encoder_init) = prefer_format p \<and> (\<forall>q. count_list [PreferVP8] q \<le> count_list [PreferVP8] p)"
  by (rule codec_by_majority [OF refl])
     (simp_all add: encoder_update_def encoder_init_def update_decodings_def usable_preferences_def usable_encodings_def all_support_def
       preference_usable_def supported_decodings_def hm_insert_def hm_remove_def Let_def)

subsection \<open>Both sides\<close>

lemma marks_keep: "\<not> can_decode f d \<Longrightarrow> \<not> can_decode f (fold mark_unsupported fs d)"
  by (induction fs arbitrary: d) (auto simp: mark_unsupported_def can_decode_def split: codec_format.splits)

lemma mark_not_decodable: "\<not> can_decode f (mark_unsupported f d)"
  by (simp add: mark_unsupported_def can_decode_def split: codec_format.split)

lemma marked_not_decodable: "f \<in> set fs \<Longrightarrow> \<not> can_decode f (fold mark_unsupported fs d)"
  by (induction fs arbitrary: d) (auto simp: marks_keep mark_not_decodable)

fun update_conn :: "encoding_update \<Rightarrow> i32 option" where
  "update_conn (EncUpdate i _) = Some i"
| "update_conn (EncRemove i) = Some i"
| "update_conn (EncNewOnlyVP9 i) = Some i"
| "update_conn EncCheck = None"

lemma update_decodings_other: "update_conn u \<noteq> Some i \<Longrightarrow> hm_get (update_decodings u m) i = hm_get m i"
  by (cases u) (auto simp: update_decodings_def hm_get_insert hm_get_remove)

lemma updates_other:
  "list_all (\<lambda>(_, u). update_conn u \<noteq> Some i) us \<Longrightarrow>
   hm_get (es_decodings (fold (\<lambda>(env, u). encoder_update env u) us st)) i = hm_get (es_decodings st) i"
  by (induction us arbitrary: st) (auto simp: encoder_update_def Let_def update_decodings_other)

text \<open>
  A codec that a client cannot decode is not used: once a client has marked a codec other than VP9 as unsupported
  and sent its abilities, that codec is not in use while the client is connected, whatever the other connections do.
\<close>

theorem unsupported_codec_not_used:
  assumes "f \<in> set unsupported" and "f \<noteq> FmtVP9" and "list_all (\<lambda>(_, u). update_conn u \<noteq> Some i) others"
    and "st' = fold (\<lambda>(env, u). encoder_update env u) others
      (encoder_update env (EncUpdate i (supported_decodings cenv texture pref unsupported)) st)"
  shows "es_format st' \<noteq> f"
proof
  assume eq: "es_format st' = f"
  define d where "d = supported_decodings cenv texture pref unsupported"
  have "\<not> can_decode f d" using assms(1) by (simp add: d_def supported_decodings_def marked_not_decodable Let_def)
  moreover have "hm_get (es_decodings st') i = Some d"
    using updates_other [OF assms(3)] by (simp add: assms(4) encoder_update_def update_decodings_def hm_get_insert d_def Let_def)
  then have "(i, d) \<in> set (es_decodings st')" by (simp add: hm_get_def map_of_SomeD)
  moreover have "es_format st' = FmtVP9 \<or> list_all (\<lambda>(_, d). can_decode (es_format st') d) (es_decodings st')"
    by (cases others rule: rev_cases)
       (use encoder_update_decodable in \<open>simp_all add: assms(4) case_prod_beta Let_def\<close>)
  ultimately show False using assms(2) eq by (auto simp: list_all_iff)
qed

theorem unsupported_codec_not_used_witness:
  "es_format (fold (\<lambda>(env, u). encoder_update env u) [(demo_codec_env, EncCheck)]
     (encoder_update demo_codec_env (EncUpdate 1 (supported_decodings demo_codec_env False (PreferAV1, False) [FmtAV1])) encoder_init)) \<noteq> FmtAV1"
  by (rule unsupported_codec_not_used [OF _ _ _ refl]) simp_all

text \<open>
  The mark on VP9 has no effect: a client that cannot decode VP9 and says so is still sent VP9, although it decodes VP8.
\<close>

lemma vp9_mark_ignored:
  "es_format (encoder_update demo_codec_env (EncUpdate 1 (supported_decodings demo_codec_env False (PreferAuto, False)
     [FmtAV1, FmtH264, FmtVP9])) encoder_init) = FmtVP9"
  by (simp add: encoder_update_def encoder_init_def update_decodings_def usable_preferences_def usable_encodings_def all_support_def
      preference_usable_def supported_decodings_def mark_unsupported_def most_frequent_def count_preferences_def choose_format_def
      auto_codec_def hm_insert_def hm_remove_def demo_codec_env_def h264_encoder_def h265_encoder_def Let_def)

end
