(* ===== verification/Service.thy ===== *)
theory Service
  imports Prelude
begin

text \<open>
  The service template of the controlled side, \<open>src/server/service.rs\<close>: the set of subscribed
  connections, the waiting room of connections that still need a snapshot, broadcasting, the
  snapshot hand-over (\<open>ServiceSwap\<close>) and the two thread loops \<open>run\<close> and \<open>repeat\<close>. Every
  method takes the lock once, so a method is one operation; the snapshot, whose callback runs
  without the lock, is the sequence of the operations it performs.

  A subscriber is its id and the messages sent to it so far.
\<close>

subsection \<open>State\<close>

record 'm subscriber =
  sub_id :: i32
  sub_sent :: "'m list"

definition sub_send :: "'m \<Rightarrow> 'm subscriber \<Rightarrow> 'm subscriber" where
  "sub_send m s = s\<lparr>sub_sent := sub_sent s @ [m]\<rparr>"

record 'm service =
  sv_name :: string
  sv_handle :: bool
  sv_subscribes :: "(i32, 'm subscriber) hmap"
  sv_new_subscribes :: "(i32, 'm subscriber) hmap"
  sv_active :: bool
  sv_need_snapshot :: bool
  sv_options :: "(string, string) hmap"

definition HIBERNATE_TIMEOUT :: nat where "HIBERNATE_TIMEOUT = 30"
definition MAX_ERROR_TIMEOUT :: nat where "MAX_ERROR_TIMEOUT = 1000"
definition SERVICE_OPTION_VALUE_TRUE :: string where "SERVICE_OPTION_VALUE_TRUE = ''1''"
definition SERVICE_OPTION_VALUE_FALSE :: string where "SERVICE_OPTION_VALUE_FALSE = ''0''"

definition service_new :: "string \<Rightarrow> bool \<Rightarrow> 'm service" where
  "service_new name need_snapshot = \<lparr>sv_name = name, sv_handle = False, sv_subscribes = [],
     sv_new_subscribes = [], sv_active = True, sv_need_snapshot = need_snapshot, sv_options = []\<rparr>"

subsection \<open>Subscriptions\<close>

definition send_new_subscribes :: "'m \<Rightarrow> 'm service \<Rightarrow> 'm service" where
  "send_new_subscribes m sv =
     sv\<lparr>sv_new_subscribes := hm_map_values (sub_send m) (sv_new_subscribes sv)\<rparr>"

definition swap_new_subscribes :: "'m service \<Rightarrow> 'm service" where
  "swap_new_subscribes sv =
     sv\<lparr>sv_subscribes := fold (\<lambda>s m. hm_insert (sub_id s) s m) (hm_values (sv_new_subscribes sv)) (sv_subscribes sv),
        sv_new_subscribes := []\<rparr>"

definition has_subscribes :: "'m service \<Rightarrow> bool" where
  "has_subscribes sv \<longleftrightarrow> length (sv_subscribes sv) > 0 \<or> length (sv_new_subscribes sv) > 0"

definition is_subed :: "'m service \<Rightarrow> i32 \<Rightarrow> bool" where
  "is_subed sv i \<longleftrightarrow> hm_get (sv_subscribes sv) i \<noteq> None \<or> hm_get (sv_new_subscribes sv) i \<noteq> None"

definition on_subscribe :: "'m subscriber \<Rightarrow> 'm service \<Rightarrow> 'm service" where
  "on_subscribe s sv =
     (if hm_get (sv_subscribes sv) (sub_id s) \<noteq> None then sv
      else if sv_need_snapshot sv then sv\<lparr>sv_new_subscribes := hm_insert (sub_id s) s (sv_new_subscribes sv)\<rparr>
      else sv\<lparr>sv_subscribes := hm_insert (sub_id s) s (sv_subscribes sv)\<rparr>)"

definition on_unsubscribe :: "i32 \<Rightarrow> 'm service \<Rightarrow> 'm service" where
  "on_unsubscribe i sv =
     (case hm_get (sv_subscribes sv) i of
        None \<Rightarrow> sv\<lparr>sv_new_subscribes := hm_remove i (sv_new_subscribes sv)\<rparr>
      | Some _ \<Rightarrow> sv\<lparr>sv_subscribes := hm_remove i (sv_subscribes sv)\<rparr>)"

definition service_join :: "'m service \<Rightarrow> 'm service" where
  "service_join sv = sv\<lparr>sv_active := False, sv_handle := False\<rparr>"

definition service_get_option :: "'m service \<Rightarrow> string \<Rightarrow> string option" where
  "service_get_option sv opt = hm_get (sv_options sv) opt"

definition service_set_option :: "string \<Rightarrow> string \<Rightarrow> 'm service \<Rightarrow> 'm service \<times> string option" where
  "service_set_option opt val sv =
     (sv\<lparr>sv_options := hm_insert opt val (sv_options sv)\<rparr>, hm_get (sv_options sv) opt)"

definition service_ok :: "'m service \<Rightarrow> bool" where
  "service_ok sv \<longleftrightarrow> sv_active sv \<and> has_subscribes sv"

definition is_option_true :: "'m service \<Rightarrow> string \<Rightarrow> bool" where
  "is_option_true sv opt =
     (case service_get_option sv opt of None \<Rightarrow> False | Some v \<Rightarrow> v = SERVICE_OPTION_VALUE_TRUE)"

definition set_option_bool :: "string \<Rightarrow> bool \<Rightarrow> 'm service \<Rightarrow> 'm service" where
  "set_option_bool opt val sv =
     fst (service_set_option opt (if val then SERVICE_OPTION_VALUE_TRUE else SERVICE_OPTION_VALUE_FALSE) sv)"

subsection \<open>Sending\<close>

definition send_shared :: "'m \<Rightarrow> 'm service \<Rightarrow> 'm service" where
  "send_shared m sv = sv\<lparr>sv_subscribes := hm_map_values (sub_send m) (sv_subscribes sv)\<rparr>"

definition service_send :: "'m \<Rightarrow> 'm service \<Rightarrow> 'm service" where
  "service_send m sv = send_shared m sv"

definition send_to :: "'m \<Rightarrow> i32 \<Rightarrow> 'm service \<Rightarrow> 'm service" where
  "send_to m i sv = sv\<lparr>sv_subscribes := hm_modify i (sub_send m) (sv_subscribes sv)\<rparr>"

definition send_to_others :: "'m \<Rightarrow> i32 \<Rightarrow> 'm service \<Rightarrow> 'm service" where
  "send_to_others m i sv =
     sv\<lparr>sv_subscribes := map (\<lambda>(sid, s). (sid, if sid \<noteq> i then sub_send m s else s)) (sv_subscribes sv)\<rparr>"

definition send_video_frame_shared :: "'m \<Rightarrow> 'm service \<Rightarrow> 'm service \<times> i32 set" where
  "send_video_frame_shared m sv =
     (sv\<lparr>sv_subscribes := hm_map_values (sub_send m) (sv_subscribes sv)\<rparr>,
      set (map sub_id (hm_values (sv_subscribes sv))))"

definition send_without :: "'m \<Rightarrow> i32 \<Rightarrow> 'm service \<Rightarrow> 'm service" where
  "send_without m sub sv =
     sv\<lparr>sv_subscribes := hm_map_values (\<lambda>s. if sub \<noteq> sub_id s then sub_send m s else s) (sv_subscribes sv)\<rparr>"

text \<open>
  \<open>snapshot\<close> with a callback that sends the messages \<open>ms\<close> through the swap handle; the handle
  is dropped when the callback returns, whether or not it failed.
\<close>

definition swap_has_subscribes :: "'m service \<Rightarrow> bool" where
  "swap_has_subscribes sv \<longleftrightarrow> length (sv_subscribes sv) > 0"

definition snapshot :: "'m list \<Rightarrow> (unit, string) result \<Rightarrow> 'm service \<Rightarrow> 'm service \<times> (unit, string) result" where
  "snapshot ms ret sv =
     (if length (sv_new_subscribes sv) > 0
      then (swap_new_subscribes (fold send_new_subscribes ms sv), ret)
      else (sv, Ok ()))"

subsection \<open>The thread loops\<close>

text \<open>
  One round of \<open>repeat\<close> (the loop runs while the service is active): \<open>init\<close>, \<open>reset\<close> and
  \<open>callback\<close> act on the loop state; the round reports how long it sleeps at its end.
\<close>

definition repeat_round ::
    "('s \<Rightarrow> 's) \<Rightarrow> ('s \<Rightarrow> 's) \<Rightarrow> ('s \<Rightarrow> 's \<times> bool) \<Rightarrow> nat \<Rightarrow> nat \<Rightarrow> bool \<Rightarrow> 's \<times> bool \<Rightarrow> ('s \<times> bool) \<times> nat" where
  "repeat_round init reset callback interval elapsed subs sm =
    (case sm of (state, may_reset) \<Rightarrow>
      ((if subs then (fst (callback (if may_reset then state else init state)), True)
        else if may_reset then (reset state, False)
        else (state, False)),
       if elapsed < interval then interval - elapsed else 0))"

text \<open>
  One round of \<open>run\<close>: the outcome of the callback is \<open>None\<close> when there is no subscriber,
  \<open>Some True\<close> for success and \<open>Some False\<close> for an error, with the time it took. The result is
  the new error timeout and the time slept.
\<close>

definition run_round :: "bool option \<Rightarrow> nat \<Rightarrow> nat \<Rightarrow> nat \<times> nat" where
  "run_round outcome elapsed error_timeout =
    (case outcome of
       Some False \<Rightarrow>
         (let t = (if elapsed > MAX_ERROR_TIMEOUT then HIBERNATE_TIMEOUT else error_timeout * 2);
              t = (if t > MAX_ERROR_TIMEOUT then MAX_ERROR_TIMEOUT else t) in
          (t, t + HIBERNATE_TIMEOUT))
     | _ \<Rightarrow> (error_timeout, HIBERNATE_TIMEOUT))"

subsection \<open>Invariant\<close>

datatype 'm service_op =
    SvSubscribe "'m subscriber" | SvUnsubscribe i32 | SvSend 'm | SvSendTo 'm i32 | SvSendToOthers 'm i32
  | SvSendWithout 'm i32 | SvVideoFrame 'm | SvSwapSend 'm | SvSwapDrop | SvSetOption string string | SvJoin

fun service_step :: "'m service_op \<Rightarrow> 'm service \<Rightarrow> 'm service" where
  "service_step (SvSubscribe s) sv = on_subscribe s sv"
| "service_step (SvUnsubscribe i) sv = on_unsubscribe i sv"
| "service_step (SvSend m) sv = service_send m sv"
| "service_step (SvSendTo m i) sv = send_to m i sv"
| "service_step (SvSendToOthers m i) sv = send_to_others m i sv"
| "service_step (SvSendWithout m i) sv = send_without m i sv"
| "service_step (SvVideoFrame m) sv = fst (send_video_frame_shared m sv)"
| "service_step (SvSwapSend m) sv = send_new_subscribes m sv"
| "service_step SvSwapDrop sv = swap_new_subscribes sv"
| "service_step (SvSetOption k v) sv = fst (service_set_option k v sv)"
| "service_step SvJoin sv = service_join sv"

definition id_keyed :: "(i32, 'm subscriber) hmap \<Rightarrow> bool" where
  "id_keyed m \<longleftrightarrow> hm_wf m \<and> hm_all (\<lambda>k s. sub_id s = k) m"

text \<open>
  Both maps are keyed by the subscriber's id, no id is both subscribed and waiting, and a service
  that needs no snapshot has an empty waiting room.
\<close>

definition service_inv :: "'m service \<Rightarrow> bool" where
  "service_inv sv \<longleftrightarrow> id_keyed (sv_subscribes sv) \<and> id_keyed (sv_new_subscribes sv)
     \<and> (\<forall>i. hm_get (sv_subscribes sv) i = None \<or> hm_get (sv_new_subscribes sv) i = None)
     \<and> (sv_need_snapshot sv \<or> sv_new_subscribes sv = [])"

lemma sub_id_send [simp]: "sub_id (sub_send m s) = sub_id s"
  by (simp add: sub_send_def)

lemma id_keyed_Nil [simp]: "id_keyed []"
  by (simp add: id_keyed_def)

lemma id_keyed_insert [simp]: "id_keyed m \<Longrightarrow> id_keyed (hm_insert (sub_id s) s m)"
  by (auto simp: id_keyed_def)

lemma id_keyed_remove [simp]: "id_keyed m \<Longrightarrow> id_keyed (hm_remove i m)"
  by (auto simp: id_keyed_def)

lemma id_keyed_map_values [simp]:
  "(\<And>s. sub_id (f s) = sub_id s) \<Longrightarrow> id_keyed m \<Longrightarrow> id_keyed (hm_map_values f m)"
  by (auto simp: id_keyed_def hm_all_iff) (auto simp: hm_map_values_def)

lemma id_keyed_modify [simp]:
  "(\<And>s. sub_id (f s) = sub_id s) \<Longrightarrow> id_keyed m \<Longrightarrow> id_keyed (hm_modify i f m)"
  by (auto simp: id_keyed_def)

text \<open>Skipping one id while iterating is a conditional update of the values.\<close>

lemma send_to_others_values:
  "id_keyed m \<Longrightarrow> map (\<lambda>(sid, s). (sid, if sid \<noteq> i then sub_send x s else s)) m =
     hm_map_values (\<lambda>s. if i \<noteq> sub_id s then sub_send x s else s) m"
  by (auto simp: id_keyed_def hm_all_iff hm_map_values_def)

lemma hm_get_fold_insert:
  "id_keyed new \<Longrightarrow> hm_get (fold (\<lambda>s m. hm_insert (sub_id s) s m) (hm_values new) m) i =
     (case hm_get new i of None \<Rightarrow> hm_get m i | Some s \<Rightarrow> Some s)"
proof (induction new arbitrary: m)
  case (Cons a new)
  obtain k s where a: "a = (k, s)" by (cases a)
  from Cons.prems a have "id_keyed new" "sub_id s = k" and fresh: "hm_get new k = None"
    by (auto simp: id_keyed_def hm_wf_def hm_all_def hm_get_def map_of_eq_None_iff)
  with Cons.IH [OF \<open>id_keyed new\<close>, of "hm_insert k s m"] show ?case
    by (auto simp: a hm_values_def hmap_simps split: option.split) (auto simp: hm_get_def)
qed (simp add: hm_values_def)

lemma id_keyed_fold_insert: "id_keyed m \<Longrightarrow> id_keyed (fold (\<lambda>s m. hm_insert (sub_id s) s m) ss m)"
  by (induction ss arbitrary: m) auto

lemma service_step_inv:
  assumes "service_inv sv"
  shows "service_inv (service_step op sv)"
proof (cases op)
  case (SvSubscribe s)
  with assms show ?thesis by (auto simp: on_subscribe_def service_inv_def hmap_simps)
next
  case (SvUnsubscribe i)
  with assms show ?thesis
    by (auto simp: on_unsubscribe_def service_inv_def hmap_simps hm_remove_absent split: option.split)
next
  case (SvSendToOthers m i)
  with assms show ?thesis
    by (auto simp: send_to_others_def service_inv_def send_to_others_values hmap_simps)
next
  case SvSwapDrop
  with assms show ?thesis
    by (auto simp: swap_new_subscribes_def service_inv_def id_keyed_fold_insert)
next
  case (SvSwapSend m)
  with assms show ?thesis
    by (auto simp: send_new_subscribes_def service_inv_def hmap_simps) (simp add: hm_map_values_def)
qed (use assms in \<open>auto simp: service_inv_def service_send_def send_shared_def send_to_def send_without_def
      send_video_frame_shared_def service_set_option_def service_join_def hmap_simps\<close>)

interpretation sv: op_invariant service_step service_inv
  by unfold_locales (rule service_step_inv)

lemma service_new_inv: "service_inv (service_new name need)"
  by (simp add: service_inv_def service_new_def)

lemma fold_send_new_subscribes:
  "fold send_new_subscribes ms sv =
     sv\<lparr>sv_new_subscribes := hm_map_values (\<lambda>s. s\<lparr>sub_sent := sub_sent s @ ms\<rparr>) (sv_new_subscribes sv)\<rparr>"
proof (induction ms arbitrary: sv)
  case (Cons m ms)
  have "hm_map_values (\<lambda>s. s\<lparr>sub_sent := sub_sent s @ ms\<rparr>) (hm_map_values (sub_send m) new) =
      hm_map_values (\<lambda>s. s\<lparr>sub_sent := sub_sent s @ m # ms\<rparr>) new" for new
    by (simp add: hm_map_values_def sub_send_def case_prod_beta)
  note this [of "sv_new_subscribes sv"]
  then show ?case by (simp add: Cons.IH) (simp only: send_new_subscribes_def, simp)
next
  case Nil
  have "hm_map_values (\<lambda>s. s\<lparr>sub_sent := sub_sent s @ []\<rparr>) new = new" for new :: "(i32, 'a subscriber) hmap"
    by (induction new) (auto simp: hm_map_values_def)
  then show ?case by simp
qed

subsection \<open>Properties\<close>

text \<open>
  Subscription is exact: after any history of operations, unsubscribing an id removes it from the
  service entirely (from both maps) and changes no other id, and subscribing makes it subscribed.
  No id is ever both broadcast to and waiting for a snapshot.
\<close>

theorem subscription_exact:
  assumes "sv = fold service_step ops (service_new name need)"
  shows "\<not> is_subed (on_unsubscribe i sv) i
    \<and> (j \<noteq> i \<longrightarrow> is_subed (on_unsubscribe i sv) j = is_subed sv j)
    \<and> (is_subed (on_subscribe s sv) j \<longleftrightarrow> j = sub_id s \<or> is_subed sv j)
    \<and> (hm_get (sv_subscribes sv) i = None \<or> hm_get (sv_new_subscribes sv) i = None)"
proof -
  have "service_inv sv" unfolding assms by (rule sv.run_inv) (rule service_new_inv)
  then have "hm_get (sv_subscribes sv) i = None \<or> hm_get (sv_new_subscribes sv) i = None"
    by (simp add: service_inv_def)
  then show ?thesis
    by (auto simp: is_subed_def on_unsubscribe_def on_subscribe_def hmap_simps split: option.split)
qed

theorem subscription_exact_witness:
  "\<not> is_subed (on_unsubscribe 7 (on_subscribe \<lparr>sub_id = 7, sub_sent = [] :: nat list\<rparr> (service_new ''clip'' True))) 7"
  using subscription_exact [of "on_subscribe \<lparr>sub_id = 7, sub_sent = []\<rparr> (service_new ''clip'' True)"
      "[SvSubscribe \<lparr>sub_id = 7, sub_sent = [] :: nat list\<rparr>]" "''clip''" True 7]
  by simp

text \<open>
  Snapshot hand-over: when the callback runs undisturbed, every waiting connection receives exactly
  the snapshot messages, in order, and becomes subscribed; connections already subscribed receive none
  of them, and the waiting room is empty afterwards, also when the callback fails.
\<close>

theorem snapshot_handover:
  assumes "sv = fold service_step ops (service_new name need)"
  shows "hm_get (sv_subscribes (fst (snapshot ms ret sv))) i =
      (case hm_get (sv_new_subscribes sv) i of
         Some s \<Rightarrow> Some (s\<lparr>sub_sent := sub_sent s @ ms\<rparr>)
       | None \<Rightarrow> hm_get (sv_subscribes sv) i)
    \<and> sv_new_subscribes (fst (snapshot ms ret sv)) = []"
proof -
  have inv: "service_inv sv" unfolding assms by (rule sv.run_inv) (rule service_new_inv)
  then have keyed: "id_keyed (hm_map_values (\<lambda>s. s\<lparr>sub_sent := sub_sent s @ ms\<rparr>) (sv_new_subscribes sv))"
    by (intro id_keyed_map_values) (auto simp: service_inv_def)
  show ?thesis
    by (auto simp: snapshot_def fold_send_new_subscribes swap_new_subscribes_def
        hm_get_fold_insert [OF keyed] hmap_simps split: option.split)
qed

theorem snapshot_handover_witness:
  "hm_get (sv_subscribes (fst (snapshot [5, 6] (Ok ()) (on_subscribe \<lparr>sub_id = 7, sub_sent = [] :: nat list\<rparr>
      (service_new ''cursor'' True))))) 7 = Some \<lparr>sub_id = 7, sub_sent = [5, 6]\<rparr>"
  using snapshot_handover [of "on_subscribe \<lparr>sub_id = 7, sub_sent = []\<rparr> (service_new ''cursor'' True)"
      "[SvSubscribe \<lparr>sub_id = 7, sub_sent = [] :: nat list\<rparr>]" "''cursor''" True "[5, 6]" "Ok ()" 7]
  by (simp add: on_subscribe_def service_new_def hmap_simps)

text \<open>
  The callback runs without the lock: a connection that subscribes after the snapshot was sent and
  before the handle is dropped joins the broadcast without ever having received the snapshot.
\<close>

lemma snapshot_race:
  assumes "hm_get (sv_subscribes sv) (sub_id s) = None" and "sv_need_snapshot sv" and "service_inv sv"
  shows "hm_get (sv_subscribes (fold service_step [SvSwapSend m, SvSubscribe s, SvSwapDrop] sv)) (sub_id s) = Some s"
proof -
  have "service_inv (fold service_step [SvSwapSend m, SvSubscribe s] sv)"
    by (rule sv.run_inv) (rule assms(3))
  then have "id_keyed (hm_insert (sub_id s) s (hm_map_values (sub_send m) (sv_new_subscribes sv)))"
    using assms by (simp add: service_inv_def on_subscribe_def send_new_subscribes_def)
  with assms show ?thesis
    by (simp add: on_subscribe_def send_new_subscribes_def swap_new_subscribes_def hm_get_fold_insert hmap_simps)
qed

text \<open>
  Broadcasts reach exactly the subscribed connections, once each: \<open>send\<close> all of them,
  \<open>send_to_others\<close> and \<open>send_without\<close> all but one (and they agree), \<open>send_to\<close> exactly one, and a
  video frame reports exactly the ids it was sent to.
\<close>

theorem broadcast_exact:
  assumes "sv = fold service_step ops (service_new name need)"
  shows "hm_get (sv_subscribes (service_send m sv)) i = map_option (sub_send m) (hm_get (sv_subscribes sv) i)
    \<and> hm_get (sv_subscribes (send_to m j sv)) i =
        map_option (\<lambda>s. if i = j then sub_send m s else s) (hm_get (sv_subscribes sv) i)
    \<and> hm_get (sv_subscribes (send_without m j sv)) i =
        map_option (\<lambda>s. if i \<noteq> j then sub_send m s else s) (hm_get (sv_subscribes sv) i)
    \<and> send_to_others m j sv = send_without m j sv
    \<and> (i \<in> snd (send_video_frame_shared m sv) \<longleftrightarrow> hm_get (sv_subscribes sv) i \<noteq> None)"
proof -
  have "service_inv sv" unfolding assms by (rule sv.run_inv) (rule service_new_inv)
  then have keyed: "id_keyed (sv_subscribes sv)" by (simp add: service_inv_def)
  then have ids: "hm_get (sv_subscribes sv) i = Some s \<Longrightarrow> sub_id s = i" for s
    using hm_all_get by (fastforce simp: id_keyed_def)
  have "i \<in> set (map sub_id (hm_values (sv_subscribes sv))) \<longleftrightarrow> i \<in> fst ` set (sv_subscribes sv)"
    using keyed by (auto simp: id_keyed_def hm_all_iff hm_values_def image_iff) force+
  then have "i \<in> snd (send_video_frame_shared m sv) \<longleftrightarrow> hm_get (sv_subscribes sv) i \<noteq> None"
    by (simp add: send_video_frame_shared_def hm_get_def map_of_eq_None_iff)
  moreover have "send_to_others m j sv = send_without m j sv"
    by (simp add: send_to_others_def send_without_def send_to_others_values [OF keyed])
  moreover have "hm_get (sv_subscribes (send_without m j sv)) i =
        map_option (\<lambda>s. if i \<noteq> j then sub_send m s else s) (hm_get (sv_subscribes sv) i)"
    using ids by (cases "hm_get (sv_subscribes sv) i") (auto simp: send_without_def hmap_simps)
  moreover have "hm_get (sv_subscribes (send_to m j sv)) i =
        map_option (\<lambda>s. if i = j then sub_send m s else s) (hm_get (sv_subscribes sv) i)"
    by (cases "hm_get (sv_subscribes sv) i") (auto simp: send_to_def hmap_simps)
  ultimately show ?thesis by (simp add: service_send_def send_shared_def hmap_simps)
qed

theorem broadcast_exact_witness:
  "send_to_others (1 :: nat) 7 (service_new ''video'' False) = send_without 1 7 (service_new ''video'' False)"
  using broadcast_exact [of "service_new ''video'' False" "[]" "''video''" False "1 :: nat" 7 7] by (simp only: fold_Nil id_apply simp_thms)

text \<open>
  The error back-off of \<open>run\<close>: the pause after an error stays between 30 and 1000 milliseconds, and
  \<open>n\<close> quick failures in a row, starting from the initial timeout, give a pause of \<open>30 * 2 ^ n\<close>
  milliseconds cut at one second.
\<close>

theorem run_backoff:
  "foldl (\<lambda>t elapsed. fst (run_round (Some False) elapsed t)) HIBERNATE_TIMEOUT (replicate n 0) =
     min 1000 (30 * 2 ^ n)
   \<and> (30 \<le> t \<and> t \<le> 1000 \<longrightarrow>
        30 \<le> fst (run_round outcome elapsed t) \<and> fst (run_round outcome elapsed t) \<le> 1000)"
proof
  have step: "fst (run_round (Some False) 0 t) = min 1000 (t * 2)" for t
    by (simp add: run_round_def MAX_ERROR_TIMEOUT_def min_def Let_def)
  have "foldl (\<lambda>t elapsed. fst (run_round (Some False) elapsed t)) t (replicate n 0) = min 1000 (t * 2 ^ n)"
    if "t \<le> 1000" for t n
    using that
  proof (induction n arbitrary: t)
    case (Suc n)
    have "500 \<le> t \<Longrightarrow> 500 * 1 \<le> t * 2 ^ n" by (rule mult_le_mono) simp_all
    with Suc show ?case by (simp add: step min_def)
  qed simp
  from this [of 30 n] show "foldl (\<lambda>t elapsed. fst (run_round (Some False) elapsed t)) HIBERNATE_TIMEOUT (replicate n 0) =
     min 1000 (30 * 2 ^ n)" by (simp add: HIBERNATE_TIMEOUT_def)
  show "30 \<le> t \<and> t \<le> 1000 \<longrightarrow>
        30 \<le> fst (run_round outcome elapsed t) \<and> fst (run_round outcome elapsed t) \<le> 1000"
    by (auto simp: run_round_def Let_def MAX_ERROR_TIMEOUT_def HIBERNATE_TIMEOUT_def split: option.split bool.split)
qed

theorem run_backoff_witness: "30 \<le> fst (run_round (Some False) 0 (600 :: nat)) \<and> fst (run_round (Some False) 0 600) \<le> 1000"
  using run_backoff [of 0 600 "Some False" 0] by simp

end
