(* ===== verification/Server_Registry.thy ===== *)
theory Server_Registry
  imports Service
begin

text \<open>
  The registry of connections and services of the controlled side, \<open>src/server.rs\<close>, and what a connection does with
  it in \<open>src/server/connection.rs\<close>: the permissions that the user of the machine switches, the options that the
  peer sends, the choice of displays, voice calls, and the subscriptions that follow from them. The model is that of
  a desktop build on Unix; \<open>rg_file_copy\<close> is the build feature for copying files over the clipboard. Effects outside
  the registry (video quality, encoder, input thread, messages) are reported as a list of events.
\<close>

subsection \<open>Names\<close>

datatype video_source = Monitor | Camera

definition service_name_prefix :: "video_source \<Rightarrow> string" where
  "service_name_prefix s = (case s of Monitor \<Rightarrow> ''monitor'' | Camera \<Rightarrow> ''camera'')"

definition get_service_name :: "video_source \<Rightarrow> nat \<Rightarrow> string" where
  "get_service_name source idx = service_name_prefix source @ show_nat idx"

definition NAME_AUDIO :: string where "NAME_AUDIO = ''audio''"
definition NAME_DISPLAY :: string where "NAME_DISPLAY = ''display''"
definition NAME_CLIPBOARD :: string where "NAME_CLIPBOARD = ''clipboard''"
definition NAME_FILE_CLIPBOARD :: string where "NAME_FILE_CLIPBOARD = ''file-clipboard''"
definition NAME_CURSOR :: string where "NAME_CURSOR = ''mouse_cursor''"
definition NAME_POS :: string where "NAME_POS = ''mouse_pos''"
definition NAME_WINDOW_FOCUS :: string where "NAME_WINDOW_FOCUS = ''window_focus''"

lemmas service_name_defs = NAME_AUDIO_def NAME_DISPLAY_def NAME_CLIPBOARD_def NAME_FILE_CLIPBOARD_def NAME_CURSOR_def
  NAME_POS_def NAME_WINDOW_FOCUS_def

subsection \<open>The registry\<close>

record 'm server =
  rg_connections :: "(i32, 'm subscriber) hmap"
  rg_services :: "(string, 'm service) hmap"
  rg_id_count :: i32

text \<open>What does not change: build feature, primary display and camera, embedded cursor, X11.\<close>

record reg_env =
  rg_file_copy :: bool
  rg_primary_display :: nat
  rg_camera_exists :: bool
  rg_primary_camera :: nat
  rg_cursor_embedded :: bool
  rg_x11 :: bool
  rg_one_way_clipboard :: bool
  rg_one_way_file :: bool
  rg_whiteboard_supported :: bool

definition is_video_service_name :: "string \<Rightarrow> bool" where
  "is_video_service_name name \<longleftrightarrow> take 7 name = service_name_prefix Monitor \<or> take 6 name = service_name_prefix Camera"

definition add_service :: "'m service \<Rightarrow> 'm server \<Rightarrow> 'm server" where
  "add_service sv s = s\<lparr>rg_services := hm_insert (sv_name sv) sv (rg_services s)\<rparr>"

definition server_new :: "reg_env \<Rightarrow> i32 \<Rightarrow> 'm server" where
  "server_new env random =
    (let s = \<lparr>rg_connections = [], rg_services = [], rg_id_count = word_of_int (sgn (sint random) * (\<bar>sint random\<bar> mod 1000)) + 1000\<rparr>;
         s = add_service (service_new NAME_AUDIO True) s;
         s = add_service (service_new NAME_DISPLAY True) s;
         s = add_service (service_new NAME_CLIPBOARD False) s;
         s = (if rg_file_copy env then add_service (service_new NAME_FILE_CLIPBOARD False) s else s) in
     if rg_cursor_embedded env then s
     else let s = add_service (service_new NAME_CURSOR True) s;
              s = add_service (service_new NAME_POS False) s in
          if rg_x11 env then add_service (service_new NAME_WINDOW_FOCUS False) s else s)"

definition rg_contains :: "string \<Rightarrow> 'm server \<Rightarrow> bool" where
  "rg_contains name s \<longleftrightarrow> hm_contains (rg_services s) name"

definition get_new_id :: "'m server \<Rightarrow> i32 \<times> 'm server" where
  "get_new_id s = (let i = rg_id_count s + 1 in (i, s\<lparr>rg_id_count := i\<rparr>))"

definition add_video_service :: "video_source \<Rightarrow> nat \<Rightarrow> 'm server \<Rightarrow> 'm server" where
  "add_video_service source idx s =
    (if rg_contains (get_service_name source idx) s then s
     else add_service (service_new (get_service_name source idx) True) s)"

definition try_add_primary_camera_service :: "reg_env \<Rightarrow> 'm server \<Rightarrow> 'm server" where
  "try_add_primary_camera_service env s =
     (if rg_camera_exists env then add_video_service Camera (rg_primary_camera env) s else s)"

definition try_add_primay_video_service :: "reg_env \<Rightarrow> 'm server \<Rightarrow> 'm server" where
  "try_add_primay_video_service env s = add_video_service Monitor (rg_primary_display env) s"

definition add_camera_connection :: "reg_env \<Rightarrow> 'm subscriber \<Rightarrow> 'm server \<Rightarrow> 'm server" where
  "add_camera_connection env conn s =
    (let s = (if rg_camera_exists env
              then s\<lparr>rg_services := hm_modify (get_service_name Camera (rg_primary_camera env)) (on_subscribe conn) (rg_services s)\<rparr>
              else s) in
     s\<lparr>rg_connections := hm_insert (sub_id conn) conn (rg_connections s)\<rparr>)"

definition add_connection :: "reg_env \<Rightarrow> 'm subscriber \<Rightarrow> string list \<Rightarrow> 'm server \<Rightarrow> 'm server" where
  "add_connection env conn noperms s =
     s\<lparr>rg_services := hm_map_values (\<lambda>sv.
          if is_video_service_name (sv_name sv) \<and> sv_name sv \<noteq> get_service_name Monitor (rg_primary_display env) then sv
          else if sv_name sv \<notin> set noperms then on_subscribe conn sv else sv) (rg_services s),
       rg_connections := hm_insert (sub_id conn) conn (rg_connections s)\<rparr>"

definition remove_connection :: "i32 \<Rightarrow> 'm server \<Rightarrow> 'm server" where
  "remove_connection i s =
     s\<lparr>rg_services := hm_map_values (on_unsubscribe i) (rg_services s), rg_connections := hm_remove i (rg_connections s)\<rparr>"

definition close_connections :: "'m \<Rightarrow> 'm server \<Rightarrow> 'm server" where
  "close_connections stop s = s\<lparr>rg_connections := hm_map_values (sub_send stop) (rg_connections s)\<rparr>"

definition subscribe :: "string \<Rightarrow> 'm subscriber \<Rightarrow> bool \<Rightarrow> 'm server \<Rightarrow> 'm server" where
  "subscribe name conn sub s =
    (case hm_get (rg_services s) name of
       None \<Rightarrow> s
     | Some sv \<Rightarrow>
         if is_subed sv (sub_id conn) = sub then s
         else s\<lparr>rg_services := hm_modify name (if sub then on_subscribe conn else on_unsubscribe (sub_id conn)) (rg_services s)\<rparr>)"

definition set_video_service_opt :: "(video_source \<times> nat) option \<Rightarrow> string \<Rightarrow> string \<Rightarrow> 'm server \<Rightarrow> 'm server" where
  "set_video_service_opt display opt val s =
     s\<lparr>rg_services := map (\<lambda>(k, sv).
         (k, if (case display of Some (source, d) \<Rightarrow> k \<noteq> get_service_name source d | None \<Rightarrow> False) then sv
             else if is_video_service_name k then fst (service_set_option opt val sv) else sv)) (rg_services s)\<rparr>"

definition get_subbed_displays_count :: "i32 \<Rightarrow> 'm server \<Rightarrow> nat" where
  "get_subbed_displays_count i s =
     length (filter (\<lambda>k. is_video_service_name k
       \<and> (case hm_get (rg_services s) k of Some sv \<Rightarrow> is_subed sv i | None \<Rightarrow> False)) (map fst (rg_services s)))"

definition capture_displays :: "'m subscriber \<Rightarrow> video_source \<Rightarrow> nat list \<Rightarrow> bool \<Rightarrow> bool \<Rightarrow> 'm server \<Rightarrow> 'm server" where
  "capture_displays conn source displays incl excl s =
    (let names = map (get_service_name source) displays in
     fold (\<lambda>name s.
         if is_video_service_name name then
           if name \<in> set names then (if incl then subscribe name conn True s else s)
           else (if excl then subscribe name conn False s else s)
         else s) (map fst (rg_services s)) s)"

definition server_drop :: "'m server \<Rightarrow> 'm server" where
  "server_drop s = s\<lparr>rg_services := hm_map_values service_join (rg_services s)\<rparr>"

subsection \<open>A connection\<close>

datatype auth_kind = KRemote | KFileTransfer | KPortForward | KViewCamera | KTerminal

record perm =
  pm_id :: i32
  pm_kind :: auth_kind
  pm_authorized :: bool
  pm_keyboard :: bool
  pm_clipboard :: bool
  pm_audio :: bool
  pm_file :: bool
  pm_restart :: bool
  pm_recording :: bool
  pm_block_input :: bool
  pm_disable_keyboard :: bool
  pm_disable_clipboard :: bool
  pm_disable_audio :: bool
  pm_enable_file_transfer :: bool
  pm_lock_after_session_end :: bool
  pm_show_remote_cursor :: bool
  pm_follow_remote_cursor :: bool
  pm_follow_remote_window :: bool
  pm_show_my_cursor :: bool
  pm_terminal_persistent :: bool
  pm_services_subed :: bool
  pm_multi_ui_session :: bool
  pm_voice_call_request :: "int option"
  pm_voice_calling :: bool

definition peer_keyboard_enabled :: "perm \<Rightarrow> bool" where
  "peer_keyboard_enabled c \<longleftrightarrow> pm_keyboard c \<and> \<not> pm_disable_keyboard c"

definition clipboard_enabled :: "perm \<Rightarrow> bool" where
  "clipboard_enabled c \<longleftrightarrow> pm_clipboard c \<and> \<not> pm_disable_clipboard c"

definition can_sub_clipboard_service :: "reg_env \<Rightarrow> perm \<Rightarrow> bool" where
  "can_sub_clipboard_service env c \<longleftrightarrow> clipboard_enabled c \<and> peer_keyboard_enabled c \<and> \<not> rg_one_way_clipboard env"

definition audio_enabled :: "perm \<Rightarrow> bool" where
  "audio_enabled c \<longleftrightarrow> pm_audio c \<and> \<not> pm_disable_audio c"

definition file_transfer_enabled :: "perm \<Rightarrow> bool" where
  "file_transfer_enabled c \<longleftrightarrow> pm_file c \<and> pm_enable_file_transfer c"

definition can_sub_file_clipboard_service :: "reg_env \<Rightarrow> perm \<Rightarrow> bool" where
  "can_sub_file_clipboard_service env c \<longleftrightarrow> clipboard_enabled c \<and> file_transfer_enabled c \<and> \<not> rg_one_way_file env"

definition is_remote :: "perm \<Rightarrow> bool" where
  "is_remote c \<longleftrightarrow> pm_kind c = KRemote"

definition video_source_of :: "perm \<Rightarrow> video_source" where
  "video_source_of c = (if pm_kind c = KViewCamera then Camera else Monitor)"

definition is_authed_view_camera_conn :: "perm \<Rightarrow> bool" where
  "is_authed_view_camera_conn c \<longleftrightarrow> pm_authorized c \<and> pm_kind c = KViewCamera"

text \<open>The handle that services keep of a connection.\<close>

definition conn_inner :: "perm \<Rightarrow> 'm subscriber" where
  "conn_inner c = \<lparr>sub_id = pm_id c, sub_sent = []\<rparr>"

definition sub_to :: "string \<Rightarrow> perm \<Rightarrow> bool \<Rightarrow> 'm server \<Rightarrow> 'm server" where
  "sub_to name c b s = subscribe name (conn_inner c) b s"

datatype reg_event =
    EvImageQuality int | EvCustomFps int | EvDecoding | EvPrivacy bool | EvBlockInput bool | EvBlockInputError bool
  | EvWhiteboard bool | EvMessageBox string | EvEmptyFileClipboard | EvPermission string bool
  | EvVoiceCallResponse int bool | EvVoiceCallDevice bool | EvStartVoiceCall | EvCloseVoiceCall | EvSetPersistent bool

subsection \<open>Options of the peer\<close>

datatype bool_option = NotSet | BoNo | BoYes | BoUnknown

text \<open>An \<open>OptionMessage\<close>; the quality is \<open>None\<close> for a number that is not in the enumeration.\<close>

record option_message =
  om_image_quality :: "int option"
  om_lock_after_session_end :: bool_option
  om_show_remote_cursor :: bool_option
  om_privacy_mode :: bool_option
  om_block_input :: bool_option
  om_custom_image_quality :: int
  om_disable_audio :: bool_option
  om_disable_clipboard :: bool_option
  om_enable_file_transfer :: bool_option
  om_supported_decoding :: bool
  om_custom_fps :: int
  om_disable_keyboard :: bool_option
  om_follow_remote_cursor :: bool_option
  om_follow_remote_window :: bool_option
  om_terminal_persistent :: bool_option
  om_show_my_cursor :: bool_option

definition om_default :: option_message where
  "om_default = \<lparr>om_image_quality = Some 0, om_lock_after_session_end = NotSet, om_show_remote_cursor = NotSet,
     om_privacy_mode = NotSet, om_block_input = NotSet, om_custom_image_quality = 0, om_disable_audio = NotSet,
     om_disable_clipboard = NotSet, om_enable_file_transfer = NotSet, om_supported_decoding = False, om_custom_fps = 0,
     om_disable_keyboard = NotSet, om_follow_remote_cursor = NotSet, om_follow_remote_window = NotSet,
     om_terminal_persistent = NotSet, om_show_my_cursor = NotSet\<rparr>"

text \<open>The value a field asks for, if it is set.\<close>

definition bo_val :: "bool_option \<Rightarrow> bool option" where
  "bo_val q = (case q of BoYes \<Rightarrow> Some True | BoNo \<Rightarrow> Some False | _ \<Rightarrow> None)"

type_synonym 'm conn_state = "perm \<times> 'm server \<times> reg_event list"

text \<open>One field: when it is set, \<open>f\<close> runs with the value.\<close>

definition on_field :: "bool_option \<Rightarrow> (bool \<Rightarrow> 'm conn_state \<Rightarrow> 'm conn_state) \<Rightarrow> 'm conn_state \<Rightarrow> 'm conn_state" where
  "on_field q f st = (case bo_val q of Some b \<Rightarrow> f b st | None \<Rightarrow> st)"

definition opt_quality :: "option_message \<Rightarrow> 'm conn_state \<Rightarrow> 'm conn_state" where
  "opt_quality o' st = (case st of (c, s, evs) \<Rightarrow>
     let quality = (case om_image_quality o' of
           None \<Rightarrow> []
         | Some q \<Rightarrow>
             let image_quality = (if q = 0 then (if om_custom_image_quality o' > 0 then om_custom_image_quality o' else - 1) else q) in
             if image_quality > 0 then [EvImageQuality image_quality] else []);
         fps = (if om_custom_fps o' > 0 then [EvCustomFps (om_custom_fps o')] else []);
         decoding = (if om_supported_decoding o' then [EvDecoding] else []) in
     (c, s, evs @ quality @ fps @ decoding))"

definition opt_lock :: "bool \<Rightarrow> 'm conn_state \<Rightarrow> 'm conn_state" where
  "opt_lock b st = (case st of (c, s, evs) \<Rightarrow> (c\<lparr>pm_lock_after_session_end := b\<rparr>, s, evs))"

definition opt_show_remote_cursor :: "bool \<Rightarrow> 'm conn_state \<Rightarrow> 'm conn_state" where
  "opt_show_remote_cursor b st = (case st of (c, s, evs) \<Rightarrow>
     let c = c\<lparr>pm_show_remote_cursor := b\<rparr>;
         s = sub_to NAME_CURSOR c (peer_keyboard_enabled c \<or> pm_show_remote_cursor c) s in
     (c, sub_to NAME_POS c (pm_show_remote_cursor c) s, evs))"

definition opt_follow_remote_cursor :: "bool \<Rightarrow> 'm conn_state \<Rightarrow> 'm conn_state" where
  "opt_follow_remote_cursor b st = (case st of (c, s, evs) \<Rightarrow> (c\<lparr>pm_follow_remote_cursor := b\<rparr>, s, evs))"

definition opt_follow_remote_window :: "bool \<Rightarrow> 'm conn_state \<Rightarrow> 'm conn_state" where
  "opt_follow_remote_window b st = (case st of (c, s, evs) \<Rightarrow>
     let c = c\<lparr>pm_follow_remote_window := b\<rparr> in (c, sub_to NAME_WINDOW_FOCUS c (pm_follow_remote_window c) s, evs))"

text \<open>On a camera connection audio is only ever subscribed during a voice call.\<close>

definition sub_audio :: "perm \<Rightarrow> 'm server \<Rightarrow> 'm server" where
  "sub_audio c s =
    (if is_authed_view_camera_conn c
     then (if pm_voice_calling c \<or> \<not> audio_enabled c then sub_to NAME_AUDIO c (audio_enabled c) s else s)
     else sub_to NAME_AUDIO c (audio_enabled c) s)"

definition opt_disable_audio :: "bool \<Rightarrow> 'm conn_state \<Rightarrow> 'm conn_state" where
  "opt_disable_audio b st = (case st of (c, s, evs) \<Rightarrow>
     let c = c\<lparr>pm_disable_audio := b\<rparr> in (c, sub_audio c s, evs))"

definition sub_file_clipboard :: "reg_env \<Rightarrow> perm \<Rightarrow> 'm server \<Rightarrow> 'm server" where
  "sub_file_clipboard env c s =
     (if rg_file_copy env then sub_to NAME_FILE_CLIPBOARD c (can_sub_file_clipboard_service env c) s else s)"

definition opt_enable_file_transfer :: "reg_env \<Rightarrow> bool \<Rightarrow> 'm conn_state \<Rightarrow> 'm conn_state" where
  "opt_enable_file_transfer env b st = (case st of (c, s, evs) \<Rightarrow>
     if rg_file_copy env then
       let c = c\<lparr>pm_enable_file_transfer := b\<rparr> in
       (c, sub_file_clipboard env c s, evs @ (if \<not> b then [EvEmptyFileClipboard] else []))
     else (c, s, evs))"

definition opt_disable_clipboard :: "reg_env \<Rightarrow> bool \<Rightarrow> 'm conn_state \<Rightarrow> 'm conn_state" where
  "opt_disable_clipboard env b st = (case st of (c, s, evs) \<Rightarrow>
     let c = c\<lparr>pm_disable_clipboard := b\<rparr> in (c, sub_to NAME_CLIPBOARD c (can_sub_clipboard_service env c) s, evs))"

definition opt_disable_keyboard :: "reg_env \<Rightarrow> bool \<Rightarrow> 'm conn_state \<Rightarrow> 'm conn_state" where
  "opt_disable_keyboard env b st = (case st of (c, s, evs) \<Rightarrow>
     let c = c\<lparr>pm_disable_keyboard := b\<rparr>;
         s = sub_to NAME_CLIPBOARD c (can_sub_clipboard_service env c) s;
         s = sub_file_clipboard env c s in
     (c, sub_to NAME_CURSOR c (peer_keyboard_enabled c \<or> pm_show_remote_cursor c) s, evs))"

definition opt_privacy :: "bool \<Rightarrow> 'm conn_state \<Rightarrow> 'm conn_state" where
  "opt_privacy b st = (case st of (c, s, evs) \<Rightarrow> (c, s, evs @ (if pm_keyboard c then [EvPrivacy b] else [])))"

definition opt_block_input :: "bool \<Rightarrow> 'm conn_state \<Rightarrow> 'm conn_state" where
  "opt_block_input b st = (case st of (c, s, evs) \<Rightarrow>
     (c, s, evs @ [if pm_keyboard c \<and> pm_block_input c then EvBlockInput b else EvBlockInputError b]))"

definition opt_terminal_persistent :: "bool \<Rightarrow> 'm conn_state \<Rightarrow> 'm conn_state" where
  "opt_terminal_persistent b st = (case st of (c, s, evs) \<Rightarrow> (c\<lparr>pm_terminal_persistent := b\<rparr>, s, evs @ [EvSetPersistent b]))"

definition opt_show_my_cursor :: "reg_env \<Rightarrow> bool \<Rightarrow> 'm conn_state \<Rightarrow> 'm conn_state" where
  "opt_show_my_cursor env b st = (case st of (c, s, evs) \<Rightarrow>
     (c\<lparr>pm_show_my_cursor := b\<rparr>, s,
      evs @ (if rg_whiteboard_supported env then [EvWhiteboard b]
             else if b then [EvMessageBox ''Show my cursor''] else [])))"

definition update_options :: "reg_env \<Rightarrow> bool \<Rightarrow> option_message \<Rightarrow> 'm conn_state \<Rightarrow> 'm conn_state" where
  "update_options env older_than_1_2_4 o' st =
    (let st = opt_quality o' st;
         st = on_field (om_lock_after_session_end o') opt_lock st;
         st = on_field (om_show_remote_cursor o') opt_show_remote_cursor st;
         st = on_field (om_follow_remote_cursor o') opt_follow_remote_cursor st;
         st = on_field (om_follow_remote_window o') opt_follow_remote_window st;
         st = on_field (om_disable_audio o') opt_disable_audio st;
         st = on_field (om_enable_file_transfer o') (opt_enable_file_transfer env) st;
         st = on_field (om_disable_clipboard o') (opt_disable_clipboard env) st;
         st = on_field (om_disable_keyboard o') (opt_disable_keyboard env) st;
         st = (if older_than_1_2_4 then on_field (om_privacy_mode o') opt_privacy st else st);
         st = on_field (om_block_input o') opt_block_input st;
         st = on_field (om_terminal_persistent o') opt_terminal_persistent st in
     on_field (om_show_my_cursor o') (opt_show_my_cursor env) st)"

subsection \<open>Permissions, displays and voice calls\<close>

definition switch_permission :: "reg_env \<Rightarrow> string \<Rightarrow> bool \<Rightarrow> 'm conn_state \<Rightarrow> 'm conn_state" where
  "switch_permission env name enabled st = (case st of (c, s, evs) \<Rightarrow>
     if name = ''keyboard'' then
       let c = c\<lparr>pm_keyboard := enabled\<rparr>;
           s = sub_to NAME_CLIPBOARD c (can_sub_clipboard_service env c) s;
           s = sub_file_clipboard env c s in
       (c, sub_to NAME_CURSOR c (enabled \<or> pm_show_remote_cursor c) s, evs @ [EvPermission name enabled])
     else if name = ''clipboard'' then
       let c = c\<lparr>pm_clipboard := enabled\<rparr> in
       (c, sub_to NAME_CLIPBOARD c (can_sub_clipboard_service env c) s, evs @ [EvPermission name enabled])
     else if name = ''audio'' then
       let c = c\<lparr>pm_audio := enabled\<rparr> in
       (c, if pm_authorized c then sub_audio c s else s, evs @ [EvPermission name enabled])
     else if name = ''file'' then
       let c = c\<lparr>pm_file := enabled\<rparr> in
       (c, sub_file_clipboard env c s,
        evs @ [EvPermission name enabled] @ (if rg_file_copy env \<and> \<not> enabled then [EvEmptyFileClipboard] else []))
     else if name = ''restart'' then (c\<lparr>pm_restart := enabled\<rparr>, s, evs @ [EvPermission name enabled])
     else if name = ''recording'' then (c\<lparr>pm_recording := enabled\<rparr>, s, evs @ [EvPermission name enabled])
     else if name = ''block_input'' then (c\<lparr>pm_block_input := enabled\<rparr>, s, evs @ [EvPermission name enabled])
     else (c, s, evs))"

definition noperms_of :: "reg_env \<Rightarrow> perm \<Rightarrow> string list" where
  "noperms_of env c =
     (if \<not> peer_keyboard_enabled c \<and> \<not> pm_show_remote_cursor c then [NAME_CURSOR] else [])
   @ (if \<not> pm_show_remote_cursor c then [NAME_POS] else [])
   @ (if \<not> pm_follow_remote_window c then [NAME_WINDOW_FOCUS] else [])
   @ (if \<not> can_sub_clipboard_service env c then [NAME_CLIPBOARD] else [])
   @ (if rg_file_copy env \<and> \<not> can_sub_file_clipboard_service env c then [NAME_FILE_CLIPBOARD] else [])
   @ (if \<not> audio_enabled c then [NAME_AUDIO] else [])"

definition try_sub_monitor_services :: "reg_env \<Rightarrow> 'm conn_state \<Rightarrow> 'm conn_state" where
  "try_sub_monitor_services env st = (case st of (c, s, evs) \<Rightarrow>
     if is_remote c \<and> \<not> pm_services_subed c
     then (c\<lparr>pm_services_subed := True\<rparr>,
           add_connection env (conn_inner c) (noperms_of env c) (try_add_primay_video_service env s), evs)
     else (c, s, evs))"

definition try_sub_camera_displays :: "reg_env \<Rightarrow> 'm conn_state \<Rightarrow> 'm conn_state" where
  "try_sub_camera_displays env st = (case st of (c, s, evs) \<Rightarrow>
     (c, add_camera_connection env (conn_inner c) (try_add_primary_camera_service env s), evs))"

definition conn_capture_displays :: "nat list \<Rightarrow> nat list \<Rightarrow> nat list \<Rightarrow> 'm conn_state \<Rightarrow> 'm conn_state" where
  "conn_capture_displays adds subs sets st = (case st of (c, s, evs) \<Rightarrow>
     let source = video_source_of c;
         s = fold (add_video_service source) adds s;
         s = fold (add_video_service source) sets s;
         s = (if adds \<noteq> [] then capture_displays (conn_inner c) source adds True False s
              else if subs \<noteq> [] then capture_displays (conn_inner c) source subs False True s
              else capture_displays (conn_inner c) source sets True True s);
         c = c\<lparr>pm_multi_ui_session := get_subbed_displays_count (pm_id c) s > 1\<rparr> in
     (c, if pm_follow_remote_window c then sub_to NAME_WINDOW_FOCUS c (\<not> pm_multi_ui_session c) s else s, evs))"

definition handle_voice_call :: "bool \<Rightarrow> 'm conn_state \<Rightarrow> 'm conn_state" where
  "handle_voice_call accepted st = (case st of (c, s, evs) \<Rightarrow>
     case pm_voice_call_request c of
       None \<Rightarrow> (c, s, evs)
     | Some ts \<Rightarrow>
         let c = c\<lparr>pm_voice_call_request := None, pm_voice_calling := accepted\<rparr> in
         (c, if is_authed_view_camera_conn c then sub_to NAME_AUDIO c (audio_enabled c \<and> accepted) s else s,
          evs @ (if accepted then [EvVoiceCallDevice True, EvStartVoiceCall] else [EvCloseVoiceCall]) @ [EvVoiceCallResponse ts accepted]))"

definition close_voice_call :: "'m conn_state \<Rightarrow> 'm conn_state" where
  "close_voice_call st = (case st of (c, s, evs) \<Rightarrow>
     let c = c\<lparr>pm_voice_calling := False\<rparr> in
     (c, if is_authed_view_camera_conn c then sub_to NAME_AUDIO c False s else s, evs @ [EvVoiceCallDevice False, EvCloseVoiceCall]))"

text \<open>The end of the connection loop.\<close>

definition conn_end :: "'m conn_state \<Rightarrow> 'm conn_state" where
  "conn_end st = (case st of (c, s, evs) \<Rightarrow> (c, remove_connection (pm_id c) s, evs))"

text \<open>Whether a mouse event of the peer is passed on.\<close>

definition mouse_input_allowed :: "perm \<Rightarrow> bool" where
  "mouse_input_allowed c \<longleftrightarrow> pm_authorized c \<and> pm_kind c \<noteq> KPortForward \<and> \<not> is_authed_view_camera_conn c \<and> peer_keyboard_enabled c"

subsection \<open>What a set of subscribers promises\<close>

locale subscriber_set =
  fixes inv :: "'s \<Rightarrow> bool"
    and member :: "i32 \<Rightarrow> 's \<Rightarrow> bool"
    and add :: "'m subscriber \<Rightarrow> 's \<Rightarrow> 's"
    and del :: "i32 \<Rightarrow> 's \<Rightarrow> 's"
  assumes add_inv: "inv s \<Longrightarrow> inv (add c s)"
    and del_inv: "inv s \<Longrightarrow> inv (del i s)"
    and member_add: "inv s \<Longrightarrow> member j (add c s) \<longleftrightarrow> j = sub_id c \<or> member j s"
    and member_del: "inv s \<Longrightarrow> member j (del i s) \<longleftrightarrow> j \<noteq> i \<and> member j s"
begin

lemma switch_inv: "inv s \<Longrightarrow> inv ((if b then add c else del (sub_id c)) s)"
  by (simp add: add_inv del_inv)

lemma switch_member:
  "inv s \<Longrightarrow> member j ((if b then add c else del (sub_id c)) s) = (if j = sub_id c then b else member j s)"
  by (auto simp: member_add member_del)

lemma no_change: "inv s \<Longrightarrow> member (sub_id c) s = b \<Longrightarrow> member j ((if b then add c else del (sub_id c)) s) = member j s"
  by (auto simp: switch_member)

end

interpretation sset: subscriber_set service_inv "\<lambda>i sv. is_subed sv i" on_subscribe on_unsubscribe
proof
  fix sv :: "'m service" and c i j
  assume inv: "service_inv sv"
  show "service_inv (on_subscribe c sv)" using service_step_inv [OF inv, of "SvSubscribe c"] by simp
  show "service_inv (on_unsubscribe i sv)" using service_step_inv [OF inv, of "SvUnsubscribe i"] by simp
  show "is_subed (on_subscribe c sv) j \<longleftrightarrow> j = sub_id c \<or> is_subed sv j"
    by (auto simp: is_subed_def on_subscribe_def hmap_simps)
  have "hm_get (sv_subscribes sv) i = None \<or> hm_get (sv_new_subscribes sv) i = None"
    using inv by (simp add: service_inv_def)
  then show "is_subed (on_unsubscribe i sv) j \<longleftrightarrow> j \<noteq> i \<and> is_subed sv j"
    by (auto simp: is_subed_def on_unsubscribe_def hmap_simps split: option.split)
qed

subsection \<open>Subscriptions in the registry\<close>

definition rg_inv :: "'m server \<Rightarrow> bool" where
  "rg_inv s \<longleftrightarrow> hm_wf (rg_services s) \<and> (\<forall>n sv. hm_get (rg_services s) n = Some sv \<longrightarrow> sv_name sv = n \<and> service_inv sv)"

definition present :: "string \<Rightarrow> 'm server \<Rightarrow> bool" where
  "present n s \<longleftrightarrow> hm_get (rg_services s) n \<noteq> None"

definition subbed :: "string \<Rightarrow> i32 \<Rightarrow> 'm server \<Rightarrow> bool" where
  "subbed n i s = (case hm_get (rg_services s) n of Some sv \<Rightarrow> is_subed sv i | None \<Rightarrow> False)"

lemma sv_name_simps [simp]: "sv_name (on_subscribe c sv) = sv_name sv" "sv_name (on_unsubscribe i sv) = sv_name sv"
  by (auto simp: on_subscribe_def on_unsubscribe_def split: option.split)

lemma subscribe_spec:
  assumes "rg_inv s"
  shows "rg_inv (subscribe n c b s)"
    and "present m (subscribe n c b s) = present m s"
    and "subbed m j (subscribe n c b s) = (if m = n \<and> j = sub_id c \<and> present n s then b else subbed m j s)"
proof -
  show "rg_inv (subscribe n c b s)"
    using assms by (auto simp: rg_inv_def subscribe_def hmap_simps sset.add_inv sset.del_inv split: option.splits)
  show "present m (subscribe n c b s) = present m s"
    by (auto simp: present_def subscribe_def hmap_simps split: option.split)
  show "subbed m j (subscribe n c b s) = (if m = n \<and> j = sub_id c \<and> present n s then b else subbed m j s)"
  proof (cases "hm_get (rg_services s) n")
    case (Some sv)
    then have inv: "service_inv sv" using assms by (simp add: rg_inv_def)
    show ?thesis
      using Some sset.switch_member [OF inv, where j = j and b = b and c = c]
        sset.no_change [OF inv, where c = c and b = b and j = j]
      by (auto simp: subscribe_def subbed_def present_def hmap_simps)
  qed (auto simp: subscribe_def present_def)
qed

lemma not_present: "\<not> present n s \<Longrightarrow> \<not> subbed n i s"
  by (simp add: present_def subbed_def)

lemma sub_to_spec:
  assumes "rg_inv s"
  shows "rg_inv (sub_to n c b s)"
    and "present m (sub_to n c b s) = present m s"
    and "subbed m j (sub_to n c b s) = (if m = n \<and> j = pm_id c then present n s \<and> b else subbed m j s)"
  using subscribe_spec [OF assms, where n = n and c = "conn_inner c" and b = b] not_present [of n s j]
  by (auto simp: sub_to_def conn_inner_def)

text \<open>The five services that follow the permissions, and what each may be subscribed for.\<close>

definition allowed :: "reg_env \<Rightarrow> perm \<Rightarrow> string \<Rightarrow> bool" where
  "allowed env c n =
    (if n = NAME_CLIPBOARD then can_sub_clipboard_service env c
     else if n = NAME_AUDIO then audio_enabled c
     else if n = NAME_POS then pm_show_remote_cursor c
     else if n = NAME_WINDOW_FOCUS then pm_follow_remote_window c
     else pm_keyboard c \<or> pm_show_remote_cursor c)"

definition wanted :: "reg_env \<Rightarrow> perm \<Rightarrow> string \<Rightarrow> bool" where
  "wanted env c n =
    (if n = NAME_CURSOR then peer_keyboard_enabled c \<or> pm_show_remote_cursor c else allowed env c n)"

definition perm_services :: "string set" where
  "perm_services = {NAME_CLIPBOARD, NAME_AUDIO, NAME_POS, NAME_WINDOW_FOCUS, NAME_CURSOR}"

text \<open>Nothing is subscribed that is not allowed; with \<open>full\<close>, everything that is wanted is subscribed.\<close>

definition conn_inv :: "reg_env \<Rightarrow> bool \<Rightarrow> (string \<Rightarrow> i32 \<Rightarrow> bool) \<Rightarrow> perm \<Rightarrow> 'm server \<Rightarrow> bool" where
  "conn_inv env full others c s \<longleftrightarrow> rg_inv s \<and> is_remote c \<and> pm_authorized c
     \<and> (\<forall>n \<in> perm_services. subbed n (pm_id c) s \<longrightarrow> allowed env c n)
     \<and> (full \<longrightarrow> (\<forall>n \<in> perm_services. present n s \<and> wanted env c n \<longrightarrow> subbed n (pm_id c) s))
     \<and> (\<forall>n j. j \<noteq> pm_id c \<longrightarrow> subbed n j s = others n j)"

abbreviation st_inv :: "reg_env \<Rightarrow> bool \<Rightarrow> (string \<Rightarrow> i32 \<Rightarrow> bool) \<Rightarrow> 'm conn_state \<Rightarrow> bool" where
  "st_inv env full others st \<equiv> conn_inv env full others (fst st) (fst (snd st))"

lemma on_field_inv:
  assumes "st_inv env full others st" and "\<And>b. st_inv env full others (f b st)"
  shows "st_inv env full others (on_field q f st)"
  using assms by (simp add: on_field_def split: option.split)

lemma sub_file_clipboard_spec:
  assumes "rg_inv s"
  shows "rg_inv (sub_file_clipboard env c s)" and "present m (sub_file_clipboard env c s) = present m s"
    and "subbed m j (sub_file_clipboard env c s) =
      (if rg_file_copy env \<and> m = NAME_FILE_CLIPBOARD \<and> j = pm_id c
       then present m s \<and> can_sub_file_clipboard_service env c else subbed m j s)"
  using assms sub_to_spec [OF assms] by (auto simp: sub_file_clipboard_def)

lemmas sub_specs = sub_to_spec sub_file_clipboard_spec

lemma names_neq:
  "NAME_AUDIO \<noteq> NAME_CLIPBOARD" "NAME_AUDIO \<noteq> NAME_FILE_CLIPBOARD" "NAME_AUDIO \<noteq> NAME_CURSOR" "NAME_AUDIO \<noteq> NAME_POS" "NAME_AUDIO \<noteq> NAME_WINDOW_FOCUS"
  "NAME_CLIPBOARD \<noteq> NAME_AUDIO" "NAME_CLIPBOARD \<noteq> NAME_FILE_CLIPBOARD" "NAME_CLIPBOARD \<noteq> NAME_CURSOR" "NAME_CLIPBOARD \<noteq> NAME_POS" "NAME_CLIPBOARD \<noteq> NAME_WINDOW_FOCUS"
  "NAME_FILE_CLIPBOARD \<noteq> NAME_AUDIO" "NAME_FILE_CLIPBOARD \<noteq> NAME_CLIPBOARD" "NAME_FILE_CLIPBOARD \<noteq> NAME_CURSOR" "NAME_FILE_CLIPBOARD \<noteq> NAME_POS" "NAME_FILE_CLIPBOARD \<noteq> NAME_WINDOW_FOCUS"
  "NAME_CURSOR \<noteq> NAME_AUDIO" "NAME_CURSOR \<noteq> NAME_CLIPBOARD" "NAME_CURSOR \<noteq> NAME_FILE_CLIPBOARD" "NAME_CURSOR \<noteq> NAME_POS" "NAME_CURSOR \<noteq> NAME_WINDOW_FOCUS"
  "NAME_POS \<noteq> NAME_AUDIO" "NAME_POS \<noteq> NAME_CLIPBOARD" "NAME_POS \<noteq> NAME_FILE_CLIPBOARD" "NAME_POS \<noteq> NAME_CURSOR" "NAME_POS \<noteq> NAME_WINDOW_FOCUS"
  "NAME_WINDOW_FOCUS \<noteq> NAME_AUDIO" "NAME_WINDOW_FOCUS \<noteq> NAME_CLIPBOARD" "NAME_WINDOW_FOCUS \<noteq> NAME_FILE_CLIPBOARD" "NAME_WINDOW_FOCUS \<noteq> NAME_CURSOR" "NAME_WINDOW_FOCUS \<noteq> NAME_POS"
  by (simp_all add: service_name_defs)

lemma allowed_simps:
  "allowed env c NAME_CLIPBOARD = can_sub_clipboard_service env c"
  "allowed env c NAME_AUDIO = audio_enabled c"
  "allowed env c NAME_POS = pm_show_remote_cursor c"
  "allowed env c NAME_WINDOW_FOCUS = pm_follow_remote_window c"
  "allowed env c NAME_CURSOR = (pm_keyboard c \<or> pm_show_remote_cursor c)"
  by (simp_all add: allowed_def service_name_defs)

lemma wanted_simps:
  "wanted env c NAME_CLIPBOARD = can_sub_clipboard_service env c"
  "wanted env c NAME_AUDIO = audio_enabled c"
  "wanted env c NAME_POS = pm_show_remote_cursor c"
  "wanted env c NAME_WINDOW_FOCUS = pm_follow_remote_window c"
  "wanted env c NAME_CURSOR = (peer_keyboard_enabled c \<or> pm_show_remote_cursor c)"
  by (simp_all add: wanted_def allowed_def service_name_defs)

text \<open>
  A change of the permissions keeps the invariant when every service is either left alone, with nothing more
  wanted and nothing less allowed, or brought in line with the new permissions.
\<close>

lemma conn_inv_change:
  assumes "conn_inv env full others c s" and "rg_inv s'" and "pm_id c' = pm_id c" and "is_remote c'" and "pm_authorized c'"
    and "\<And>m. present m s' = present m s" and "\<And>n j. j \<noteq> pm_id c \<Longrightarrow> subbed n j s' = subbed n j s"
    and "\<And>n. n \<in> perm_services \<Longrightarrow>
      subbed n (pm_id c) s' = subbed n (pm_id c) s \<and> (allowed env c n \<longrightarrow> allowed env c' n) \<and> (wanted env c' n \<longrightarrow> wanted env c n)
      \<or> (subbed n (pm_id c) s' \<longrightarrow> allowed env c' n) \<and> (present n s \<and> wanted env c' n \<longrightarrow> subbed n (pm_id c) s')"
  shows "conn_inv env full others c' s'"
  unfolding conn_inv_def
proof (intro conjI ballI allI impI)
  fix n assume n: "n \<in> perm_services"
  show "allowed env c' n" if "subbed n (pm_id c') s'" using assms(1,3,8) n that by (auto simp: conn_inv_def)
  show "subbed n (pm_id c') s'" if "full" "present n s' \<and> wanted env c' n"
    using assms(1,3,6,8) n that by (auto simp: conn_inv_def)
qed (use assms in \<open>auto simp: conn_inv_def\<close>)

lemma perm_services_cases:
  assumes "n \<in> perm_services"
  obtains "n = NAME_CLIPBOARD" | "n = NAME_AUDIO" | "n = NAME_POS" | "n = NAME_WINDOW_FOCUS" | "n = NAME_CURSOR"
  using assms by (auto simp: perm_services_def)

lemma conn_invD: "conn_inv env full others c s \<Longrightarrow> rg_inv s" "conn_inv env full others c s \<Longrightarrow> is_remote c"
    "conn_inv env full others c s \<Longrightarrow> pm_authorized c"
  by (simp_all add: conn_inv_def)

lemmas perm_defs = can_sub_clipboard_service_def clipboard_enabled_def peer_keyboard_enabled_def audio_enabled_def
lemmas conn_simps = names_neq allowed_simps wanted_simps sub_specs is_remote_def perm_defs

lemma st_inv_cases:
  assumes "st_inv env full others st"
  obtains c s evs where "st = (c, s, evs)" and "conn_inv env full others c s" and "rg_inv s" and "is_remote c" and "pm_authorized c"
  using assms conn_invD [of env full others "fst st" "fst (snd st)"] that [of "fst st" "fst (snd st)" "snd (snd st)"] by simp

text \<open>Each step, by the rule above.\<close>

lemma opt_lock_inv: "st_inv env full others st \<Longrightarrow> st_inv env full others (opt_lock b st)"
  by (erule st_inv_cases, simp add: opt_lock_def Let_def, erule conn_inv_change)
    (auto elim!: perm_services_cases simp: conn_simps)

lemma opt_show_remote_cursor_inv: "st_inv env full others st \<Longrightarrow> st_inv env full others (opt_show_remote_cursor b st)"
  by (erule st_inv_cases, simp add: opt_show_remote_cursor_def Let_def, erule conn_inv_change)
    (auto elim!: perm_services_cases simp: conn_simps)

lemma opt_follow_remote_cursor_inv: "st_inv env full others st \<Longrightarrow> st_inv env full others (opt_follow_remote_cursor b st)"
  by (erule st_inv_cases, simp add: opt_follow_remote_cursor_def Let_def, erule conn_inv_change)
    (auto elim!: perm_services_cases simp: conn_simps)

lemma opt_follow_remote_window_inv: "st_inv env full others st \<Longrightarrow> st_inv env full others (opt_follow_remote_window b st)"
  by (erule st_inv_cases, simp add: opt_follow_remote_window_def Let_def, erule conn_inv_change)
    (auto elim!: perm_services_cases simp: conn_simps)

lemma opt_disable_clipboard_inv: "st_inv env full others st \<Longrightarrow> st_inv env full others (opt_disable_clipboard env b st)"
  by (erule st_inv_cases, simp add: opt_disable_clipboard_def Let_def, erule conn_inv_change)
    (auto elim!: perm_services_cases simp: conn_simps)

lemma opt_disable_keyboard_inv: "st_inv env full others st \<Longrightarrow> st_inv env full others (opt_disable_keyboard env b st)"
  by (erule st_inv_cases, simp add: opt_disable_keyboard_def Let_def, erule conn_inv_change)
    (auto elim!: perm_services_cases simp: conn_simps)

lemma opt_terminal_persistent_inv: "st_inv env full others st \<Longrightarrow> st_inv env full others (opt_terminal_persistent b st)"
  by (erule st_inv_cases, simp add: opt_terminal_persistent_def Let_def, erule conn_inv_change)
    (auto elim!: perm_services_cases simp: conn_simps)

lemma opt_show_my_cursor_inv: "st_inv env full others st \<Longrightarrow> st_inv env full others (opt_show_my_cursor env b st)"
  by (erule st_inv_cases, simp add: opt_show_my_cursor_def Let_def, erule conn_inv_change)
    (auto elim!: perm_services_cases simp: conn_simps)

lemma sub_audio_remote: "is_remote c \<Longrightarrow> sub_audio c s = sub_to NAME_AUDIO c (audio_enabled c) s"
  by (simp add: sub_audio_def is_authed_view_camera_conn_def is_remote_def)

lemma opt_disable_audio_inv: "st_inv env full others st \<Longrightarrow> st_inv env full others (opt_disable_audio b st)"
  by (erule st_inv_cases, simp add: opt_disable_audio_def sub_audio_remote is_remote_def Let_def, erule conn_inv_change)
    (auto elim!: perm_services_cases simp: conn_simps)

lemma opt_enable_file_transfer_inv: "st_inv env full others st \<Longrightarrow> st_inv env full others (opt_enable_file_transfer env b st)"
  by (cases "rg_file_copy env")
    (erule st_inv_cases, simp add: opt_enable_file_transfer_def Let_def, erule conn_inv_change,
     auto elim!: perm_services_cases simp: conn_simps opt_enable_file_transfer_def)

lemma opt_events_inv:
  "st_inv env full others st \<Longrightarrow> st_inv env full others (opt_quality o' st)"
  "st_inv env full others st \<Longrightarrow> st_inv env full others (opt_privacy b st)"
  "st_inv env full others st \<Longrightarrow> st_inv env full others (opt_block_input b st)"
  by (simp_all add: opt_quality_def opt_privacy_def opt_block_input_def case_prod_beta Let_def)

lemmas opt_invs = opt_events_inv opt_lock_inv opt_show_remote_cursor_inv opt_follow_remote_cursor_inv
  opt_follow_remote_window_inv opt_disable_audio_inv opt_enable_file_transfer_inv opt_disable_clipboard_inv
  opt_disable_keyboard_inv opt_terminal_persistent_inv opt_show_my_cursor_inv

lemma update_options_inv:
  assumes "st_inv env full others st"
  shows "st_inv env full others (update_options env older o' st)"
  unfolding update_options_def Let_def
  by (cases older; simp only: if_True if_False; intro on_field_inv opt_invs assms)

lemma switch_permission_inv:
  assumes "st_inv env full others st"
  shows "st_inv env full others (switch_permission env n b st)"
proof -
  obtain c s evs where st: "st = (c, s, evs)" and inv: "conn_inv env full others c s" and rg: "rg_inv s"
    and c: "is_remote c" "pm_authorized c"
    using assms by (rule st_inv_cases)
  note change = conn_inv_change [OF inv]
  consider "n = ''keyboard''" | "n = ''clipboard''" | "n = ''audio''" | "n = ''file''"
    | "n \<noteq> ''keyboard'' \<and> n \<noteq> ''clipboard'' \<and> n \<noteq> ''audio'' \<and> n \<noteq> ''file''" by argo
  then show ?thesis
  proof cases
    case 1
    then show ?thesis using rg c
      by (simp add: switch_permission_def st Let_def, intro change) (auto elim!: perm_services_cases simp: conn_simps)
  next
    case 2
    then show ?thesis using rg c
      by (simp add: switch_permission_def st Let_def, intro change) (auto elim!: perm_services_cases simp: conn_simps)
  next
    case 3
    then show ?thesis using rg c
      by (simp add: switch_permission_def st sub_audio_remote is_remote_def Let_def, intro change)
        (auto elim!: perm_services_cases simp: conn_simps)
  next
    case 4
    then show ?thesis using rg c
      by (simp add: switch_permission_def st Let_def, intro change) (auto elim!: perm_services_cases simp: conn_simps)
  next
    case 5
    have same: "conn_inv env full others c' s" if "c' \<in> {c\<lparr>pm_restart := b\<rparr>, c\<lparr>pm_recording := b\<rparr>, c\<lparr>pm_block_input := b\<rparr>, c}" for c'
      using that rg c by (intro change) (auto elim!: perm_services_cases simp: conn_simps)
    from 5 show ?thesis by (simp add: switch_permission_def st same)
  qed
qed

lemma voice_call_inv:
  "st_inv env full others st \<Longrightarrow> st_inv env full others (handle_voice_call b st)"
  "st_inv env full others st \<Longrightarrow> st_inv env full others (close_voice_call st)"
proof -
  assume "st_inv env full others st"
  then obtain c s evs where st: "st = (c, s, evs)" and inv: "conn_inv env full others c s" and rg: "rg_inv s"
    and c: "is_remote c" "pm_authorized c" by (rule st_inv_cases)
  have "conn_inv env full others (c\<lparr>pm_voice_call_request := None, pm_voice_calling := b\<rparr>) s" for b
    using rg c by (intro conn_inv_change [OF inv]) (auto elim!: perm_services_cases simp: conn_simps)
  moreover have "conn_inv env full others (c\<lparr>pm_voice_calling := b\<rparr>) s" for b
    using rg c by (intro conn_inv_change [OF inv]) (auto elim!: perm_services_cases simp: conn_simps)
  ultimately show "st_inv env full others (handle_voice_call b st)" "st_inv env full others (close_voice_call st)"
    using inv c
    by (auto simp: handle_voice_call_def close_voice_call_def st is_authed_view_camera_conn_def is_remote_def Let_def split: option.split)
qed

datatype perm_op = PoOptions bool option_message | PoSwitch string bool | PoVoiceCall bool | PoCloseVoiceCall

fun perm_step :: "reg_env \<Rightarrow> perm_op \<Rightarrow> 'm conn_state \<Rightarrow> 'm conn_state" where
  "perm_step env (PoOptions older o') st = update_options env older o' st"
| "perm_step env (PoSwitch n b) st = switch_permission env n b st"
| "perm_step env (PoVoiceCall b) st = handle_voice_call b st"
| "perm_step env PoCloseVoiceCall st = close_voice_call st"

interpretation pst: op_invariant "perm_step env" "\<lambda>st. st_inv env full others st" for env full others
proof
  fix st x assume "st_inv env full others st"
  then show "st_inv env full others (perm_step env x st)"
    by (cases x) (simp_all add: update_options_inv switch_permission_inv voice_call_inv)
qed

text \<open>The id of a connection and the mark of its first subscription never change.\<close>

definition keeps_id :: "('m conn_state \<Rightarrow> 'm conn_state) \<Rightarrow> bool" where
  "keeps_id f \<longleftrightarrow> (\<forall>st. pm_id (fst (f st)) = pm_id (fst st) \<and> pm_services_subed (fst (f st)) = pm_services_subed (fst st))"

lemma keeps_idD: "keeps_id f \<Longrightarrow> pm_id (fst (f st)) = pm_id (fst st)"
    "keeps_id f \<Longrightarrow> pm_services_subed (fst (f st)) = pm_services_subed (fst st)"
  unfolding keeps_id_def by blast+

lemma on_field_keeps: "(\<And>b. keeps_id (f b)) \<Longrightarrow> keeps_id (on_field q f)"
  by (simp add: keeps_id_def on_field_def split: option.split)

lemma opt_keeps: "keeps_id (opt_quality o')" "keeps_id (opt_lock b)" "keeps_id (opt_show_remote_cursor b)"
    "keeps_id (opt_follow_remote_cursor b)" "keeps_id (opt_follow_remote_window b)" "keeps_id (opt_disable_audio b)"
    "keeps_id (opt_enable_file_transfer env b)" "keeps_id (opt_disable_clipboard env b)" "keeps_id (opt_disable_keyboard env b)"
    "keeps_id (opt_privacy b)" "keeps_id (opt_block_input b)" "keeps_id (opt_terminal_persistent b)"
    "keeps_id (opt_show_my_cursor env b)"
  by (simp_all add: keeps_id_def opt_quality_def opt_lock_def opt_show_remote_cursor_def opt_follow_remote_cursor_def
      opt_follow_remote_window_def opt_disable_audio_def opt_enable_file_transfer_def opt_disable_clipboard_def
      opt_disable_keyboard_def opt_privacy_def opt_block_input_def opt_terminal_persistent_def opt_show_my_cursor_def
      Let_def split: prod.split)

lemma update_options_keeps: "keeps_id (update_options env older o')"
  unfolding keeps_id_def update_options_def Let_def by (simp add: keeps_idD on_field_keeps opt_keeps)

lemma perm_step_keeps: "keeps_id (perm_step env x)"
proof (cases x)
  case (PoOptions older o')
  then show ?thesis using update_options_keeps [of env older o'] by (simp add: keeps_id_def)
qed (auto simp: keeps_id_def switch_permission_def handle_voice_call_def close_voice_call_def Let_def split: prod.split option.split)

lemma perm_run_keeps: "pm_id (fst (fold (perm_step env) xs st)) = pm_id (fst st)"
  by (induction xs rule: rev_induct) (simp_all add: keeps_idD perm_step_keeps)

subsection \<open>The first subscription\<close>

lemma perm_services_not_video: "n \<in> perm_services \<Longrightarrow> \<not> is_video_service_name n"
  by (auto simp: perm_services_def is_video_service_name_def service_name_prefix_def service_name_defs)

lemma get_service_name_video: "is_video_service_name (get_service_name source d)"
  by (cases source) (simp_all add: is_video_service_name_def get_service_name_def service_name_prefix_def)

lemma add_video_service_spec:
  assumes "rg_inv s"
  shows "rg_inv (add_video_service source d s)" and "subbed n j (add_video_service source d s) = subbed n j s"
    and "present n (add_video_service source d s) = (present n s \<or> n = get_service_name source d)"
  using assms
  by (auto simp: add_video_service_def add_service_def rg_contains_def hm_contains_def rg_inv_def subbed_def present_def
      hmap_simps service_new_def is_subed_def service_inv_def split: option.splits)

lemma add_connection_spec:
  assumes "rg_inv s"
  shows "rg_inv (add_connection env c np s)"
    and "present n (add_connection env c np s) = present n s"
    and "subbed n j (add_connection env c np s) =
      (j = sub_id c \<and> present n s \<and> \<not> (is_video_service_name n \<and> n \<noteq> get_service_name Monitor (rg_primary_display env)) \<and> n \<notin> set np
       \<or> subbed n j s)"
proof -
  show "rg_inv (add_connection env c np s)"
    using assms by (auto simp: rg_inv_def add_connection_def hmap_simps sset.add_inv)
  show "present n (add_connection env c np s) = present n s" by (simp add: present_def add_connection_def hmap_simps)
  show "subbed n j (add_connection env c np s) =
      (j = sub_id c \<and> present n s \<and> \<not> (is_video_service_name n \<and> n \<noteq> get_service_name Monitor (rg_primary_display env)) \<and> n \<notin> set np
       \<or> subbed n j s)"
  proof (cases "hm_get (rg_services s) n")
    case (Some sv)
    then have "sv_name sv = n" "service_inv sv" using assms by (auto simp: rg_inv_def)
    with Some show ?thesis by (auto simp: subbed_def present_def add_connection_def hmap_simps sset.member_add)
  qed (simp add: subbed_def present_def add_connection_def hmap_simps)
qed

lemma noperms_wanted: "n \<in> perm_services \<Longrightarrow> n \<in> set (noperms_of env c) \<longleftrightarrow> \<not> wanted env c n"
  by (erule perm_services_cases) (auto simp: noperms_of_def wanted_simps names_neq)

lemma wanted_allowed: "n \<in> perm_services \<Longrightarrow> wanted env c n \<Longrightarrow> allowed env c n"
  by (erule perm_services_cases) (auto simp: wanted_simps allowed_simps perm_defs)

lemma try_sub_monitor_inv:
  assumes "st_inv env False others st" and "\<not> pm_services_subed (fst st)"
  shows "st_inv env True others (try_sub_monitor_services env st)"
proof -
  obtain c s evs where st: "st = (c, s, evs)" and inv: "conn_inv env False others c s" and rg: "rg_inv s"
    and c: "is_remote c" "pm_authorized c" using assms(1) by (rule st_inv_cases)
  let ?s1 = "try_add_primay_video_service env s"
  have s1: "rg_inv ?s1" "subbed n j ?s1 = subbed n j s" "n \<in> perm_services \<Longrightarrow> present n ?s1 = present n s" for n j
    using add_video_service_spec [OF rg] perm_services_not_video [of n] get_service_name_video
    by (auto simp: try_add_primay_video_service_def)
  let ?c = "c\<lparr>pm_services_subed := True\<rparr>"
  have same: "wanted env ?c n = wanted env c n" "allowed env ?c n = allowed env c n" for n
    by (simp_all add: wanted_def allowed_def perm_defs)
  have spec: "subbed n (pm_id c) (add_connection env (conn_inner c) (noperms_of env c) ?s1)
      = (present n s \<and> wanted env c n \<or> subbed n (pm_id c) s)" if "n \<in> perm_services" for n
    using that perm_services_not_video [OF that] add_connection_spec(3) [OF s1(1)] s1(2,3)
    by (simp add: conn_inner_def noperms_wanted)
  let ?s2 = "add_connection env (conn_inner c) (noperms_of env c) ?s1"
  have "rg_inv ?s2" by (rule add_connection_spec(1)) (rule s1(1))
  moreover have "subbed n (pm_id c) ?s2 \<Longrightarrow> allowed env c n" if "n \<in> perm_services" for n
    using spec [OF that] inv that wanted_allowed [OF that] by (auto simp: conn_inv_def)
  moreover have "present n ?s2 \<and> wanted env c n \<Longrightarrow> subbed n (pm_id c) ?s2" if "n \<in> perm_services" for n
    using spec [OF that] s1(3) [OF that] add_connection_spec(2) [OF s1(1)] by simp
  moreover have "subbed n j ?s2 = others n j" if "j \<noteq> pm_id c" for n j
    using that inv add_connection_spec(3) [OF s1(1)] s1(2) by (simp add: conn_inv_def conn_inner_def)
  ultimately have "conn_inv env True others ?c ?s2"
    using c unfolding conn_inv_def by (simp add: same is_remote_def)
  then show ?thesis using c assms(2) by (simp add: try_sub_monitor_services_def st)
qed

subsection \<open>Properties\<close>

text \<open>
  C4. Subscriptions follow the permissions: from the login options of a remote-control connection on, after any
  sequence of options from the peer, permissions switched by the user, and voice calls, the connection is subscribed
  to each of the clipboard, audio, cursor position and window focus services of the registry exactly when its
  permissions say so, and no other connection's subscriptions have changed. For the cursor there are only bounds: it is
  subscribed to if the permissions say so, and not while the keyboard permission is off and the cursor not shown. In
  between lies a view-only peer (\<open>disable_keyboard\<close>), which the handler of the keyboard permission subscribes although
  its permissions do not say so.
\<close>

theorem subscriptions_follow_permissions:
  fixes s :: "'m server"
  assumes "rg_inv s" and "\<And>n. \<not> subbed n (pm_id c) s" and "pm_kind c = KRemote" and "pm_authorized c"
    and "\<not> pm_services_subed c"
    and "(c', s', evs) = fold (perm_step env) xs (try_sub_monitor_services env (update_options env older o' (c, s, [])))"
  shows "(subbed NAME_CLIPBOARD (pm_id c) s' \<longleftrightarrow> present NAME_CLIPBOARD s' \<and> can_sub_clipboard_service env c')
    \<and> (subbed NAME_AUDIO (pm_id c) s' \<longleftrightarrow> present NAME_AUDIO s' \<and> audio_enabled c')
    \<and> (subbed NAME_POS (pm_id c) s' \<longleftrightarrow> present NAME_POS s' \<and> pm_show_remote_cursor c')
    \<and> (subbed NAME_WINDOW_FOCUS (pm_id c) s' \<longleftrightarrow> present NAME_WINDOW_FOCUS s' \<and> pm_follow_remote_window c')
    \<and> (present NAME_CURSOR s' \<and> (peer_keyboard_enabled c' \<or> pm_show_remote_cursor c') \<longrightarrow> subbed NAME_CURSOR (pm_id c) s')
    \<and> (subbed NAME_CURSOR (pm_id c) s' \<longrightarrow> pm_keyboard c' \<or> pm_show_remote_cursor c')
    \<and> (\<forall>n j. j \<noteq> pm_id c \<longrightarrow> subbed n j s' = subbed n j s)"
proof -
  let ?others = "\<lambda>n j. subbed n j s" and ?st = "update_options env older o' (c, s, [])"
  have "st_inv env False ?others (c, s, [])" using assms(1-4) by (simp add: conn_inv_def is_remote_def)
  then have "st_inv env False ?others ?st" by (rule update_options_inv)
  moreover have "pm_id (fst ?st) = pm_id c" "\<not> pm_services_subed (fst ?st)"
    using keeps_idD [OF update_options_keeps, of env older o' "(c, s, [])"] assms(5) by simp_all
  moreover have "pm_id (fst (try_sub_monitor_services env st)) = pm_id (fst st)" for st :: "'m conn_state"
    by (simp add: try_sub_monitor_services_def split: prod.split)
  ultimately have "st_inv env True ?others (try_sub_monitor_services env ?st)"
      "pm_id (fst (try_sub_monitor_services env ?st)) = pm_id c"
    using try_sub_monitor_inv [of env ?others ?st] by simp_all
  then have inv: "conn_inv env True ?others c' s'" and id: "pm_id c' = pm_id c"
    using pst.run_inv [of env True ?others "try_sub_monitor_services env ?st" xs]
      perm_run_keeps [of env xs "try_sub_monitor_services env ?st"] by (simp_all flip: assms(6))
  have exact: "subbed n (pm_id c) s' \<longleftrightarrow> present n s' \<and> allowed env c' n" if "n \<in> perm_services" "n \<noteq> NAME_CURSOR" for n
  proof -
    have "wanted env c' n = allowed env c' n" using that(2) by (simp add: wanted_def)
    with inv not_present [of n s'] that(1) show ?thesis by (auto simp: conn_inv_def id)
  qed
  have cursor: "present NAME_CURSOR s' \<and> wanted env c' NAME_CURSOR \<longrightarrow> subbed NAME_CURSOR (pm_id c) s'"
      "subbed NAME_CURSOR (pm_id c) s' \<longrightarrow> allowed env c' NAME_CURSOR"
    using inv by (simp_all add: conn_inv_def id perm_services_def)
  have others: "\<forall>n j. j \<noteq> pm_id c \<longrightarrow> subbed n j s' = subbed n j s" using inv by (simp add: conn_inv_def id)
  show ?thesis
    using exact [of NAME_CLIPBOARD] exact [of NAME_AUDIO] exact [of NAME_POS] exact [of NAME_WINDOW_FOCUS] cursor others
    by (simp add: perm_services_def names_neq allowed_simps wanted_simps)
qed

definition demo_reg_env :: reg_env where
  "demo_reg_env = \<lparr>rg_file_copy = True, rg_primary_display = 0, rg_camera_exists = False, rg_primary_camera = 0,
     rg_cursor_embedded = False, rg_x11 = True, rg_one_way_clipboard = False, rg_one_way_file = False,
     rg_whiteboard_supported = True\<rparr>"

definition demo_perm :: "auth_kind \<Rightarrow> perm" where
  "demo_perm k = \<lparr>pm_id = 1001, pm_kind = k, pm_authorized = True, pm_keyboard = True, pm_clipboard = True, pm_audio = True,
     pm_file = True, pm_restart = True, pm_recording = True, pm_block_input = True, pm_disable_keyboard = False,
     pm_disable_clipboard = False, pm_disable_audio = False, pm_enable_file_transfer = False,
     pm_lock_after_session_end = False, pm_show_remote_cursor = False, pm_follow_remote_cursor = False,
     pm_follow_remote_window = False, pm_show_my_cursor = False, pm_terminal_persistent = False,
     pm_services_subed = False, pm_multi_ui_session = False, pm_voice_call_request = None, pm_voice_calling = False\<rparr>"

lemma add_service_inv: "rg_inv s \<Longrightarrow> service_inv sv \<Longrightarrow> rg_inv (add_service sv s)"
  by (auto simp: rg_inv_def add_service_def hmap_simps)

lemma sv_name_new [simp]: "sv_name (service_new n b) = n"
  by (simp add: service_new_def)

lemma server_new_inv: "rg_inv (server_new env r :: 'm server)"
proof -
  have "rg_inv (\<lparr>rg_connections = [], rg_services = [], rg_id_count = i\<rparr> :: 'm server)" for i by (simp add: rg_inv_def)
  then show ?thesis by (simp add: server_new_def Let_def add_service_inv service_new_inv)
qed

lemma server_new_empty: "\<not> subbed n i (server_new env r :: 'm server)"
proof -
  have add: "\<not> subbed n i s \<Longrightarrow> \<not> subbed n i (add_service (service_new m b) s)" for s :: "'m server" and m b
    by (auto simp: subbed_def add_service_def hmap_simps is_subed_def service_new_def split: option.splits)
  have "\<not> subbed n i (\<lparr>rg_connections = [], rg_services = [], rg_id_count = k\<rparr> :: 'm server)" for k by (simp add: subbed_def)
  then show ?thesis by (simp add: server_new_def Let_def add)
qed

theorem subscriptions_follow_permissions_witness:
  "\<exists>c' s' evs. (c', s', evs) = fold (perm_step demo_reg_env) [PoSwitch ''clipboard'' False]
       (try_sub_monitor_services demo_reg_env (update_options demo_reg_env False om_default (demo_perm KRemote, server_new demo_reg_env 5 :: nat server, [])))
     \<and> (subbed NAME_CLIPBOARD 1001 s' \<longleftrightarrow> present NAME_CLIPBOARD s' \<and> can_sub_clipboard_service demo_reg_env c')"
proof -
  obtain c' s' evs where run: "(c', s', evs) = fold (perm_step demo_reg_env) [PoSwitch ''clipboard'' False]
       (try_sub_monitor_services demo_reg_env (update_options demo_reg_env False om_default (demo_perm KRemote, server_new demo_reg_env 5 :: nat server, [])))"
    by (metis prod_cases3)
  have "pm_id (demo_perm KRemote) = 1001" by (simp add: demo_perm_def)
  moreover have "pm_kind (demo_perm KRemote) = KRemote" "pm_authorized (demo_perm KRemote)" "\<not> pm_services_subed (demo_perm KRemote)"
    by (simp_all add: demo_perm_def)
  ultimately have "subbed NAME_CLIPBOARD 1001 s' \<longleftrightarrow> present NAME_CLIPBOARD s' \<and> can_sub_clipboard_service demo_reg_env c'"
    using subscriptions_follow_permissions [OF server_new_inv server_new_empty _ _ _ run] by simp
  with run show ?thesis by blast
qed

text \<open>
  A closed connection leaves nothing behind: after the end of the connection loop the connection is registered
  nowhere and subscribed to no service, and the subscriptions of all others are as before.
\<close>

theorem connection_end_clean:
  assumes "rg_inv s" and "(c', s', evs') = conn_end (c, s, evs)"
  shows "hm_get (rg_connections s') (pm_id c) = None \<and> \<not> subbed n (pm_id c) s'
    \<and> (j \<noteq> pm_id c \<longrightarrow> subbed n j s' = subbed n j s \<and> hm_get (rg_connections s') j = hm_get (rg_connections s) j)"
proof -
  have "subbed n j s' = (j \<noteq> pm_id c \<and> subbed n j s)" for j
  proof (cases "hm_get (rg_services s) n")
    case (Some sv)
    then have "service_inv sv" using assms(1) by (simp add: rg_inv_def)
    then show ?thesis using assms(2) Some
      by (simp add: conn_end_def remove_connection_def subbed_def hmap_simps sset.member_del)
  qed (use assms(2) in \<open>simp add: conn_end_def remove_connection_def subbed_def hmap_simps\<close>)
  then show ?thesis using assms(2) by (simp add: conn_end_def remove_connection_def hmap_simps)
qed

theorem connection_end_clean_witness:
  "\<not> subbed NAME_AUDIO 1001 (fst (snd (conn_end (demo_perm KRemote, server_new demo_reg_env 5 :: nat server, []))))"
proof -
  obtain c' s' evs where "(c', s', evs) = conn_end (demo_perm KRemote, server_new demo_reg_env 5 :: nat server, [])"
    by (metis prod_cases3)
  from connection_end_clean [OF server_new_inv this] this show ?thesis by (metis demo_perm_def fst_conv perm.select_convs(1) snd_conv)
qed

text \<open>
  Withdrawing the clipboard permission does not stop the copying of files: a connection that is subscribed to
  the file clipboard service stays subscribed when the user switches the clipboard permission off or the peer
  disables the clipboard, although its permissions no longer allow the subscription.
\<close>

theorem file_clipboard_stays_subscribed:
  assumes "rg_inv s" and "subbed NAME_FILE_CLIPBOARD (pm_id c) s"
    and "(c1, s1, evs1) = switch_permission env ''clipboard'' False (c, s, evs)"
    and "(c2, s2, evs2) = update_options env False (om_default\<lparr>om_disable_clipboard := BoYes\<rparr>) (c, s, evs)"
  shows "subbed NAME_FILE_CLIPBOARD (pm_id c) s1 \<and> \<not> can_sub_file_clipboard_service env c1
    \<and> subbed NAME_FILE_CLIPBOARD (pm_id c) s2 \<and> \<not> can_sub_file_clipboard_service env c2"
  using assms
  by (simp add: switch_permission_def update_options_def om_default_def opt_quality_def on_field_def bo_val_def
      opt_disable_clipboard_def can_sub_file_clipboard_service_def clipboard_enabled_def sub_specs names_neq Let_def)

theorem file_clipboard_stays_subscribed_witness:
  "subbed NAME_FILE_CLIPBOARD 1001 (fst (snd (switch_permission demo_reg_env ''clipboard'' False
     (demo_perm KRemote, sub_to NAME_FILE_CLIPBOARD (demo_perm KRemote) True (server_new demo_reg_env 5 :: nat server), []))))"
proof -
  let ?s = "sub_to NAME_FILE_CLIPBOARD (demo_perm KRemote) True (server_new demo_reg_env 5 :: nat server)"
  have i: "pm_id (demo_perm KRemote) = 1001" by (simp add: demo_perm_def)
  have "present NAME_FILE_CLIPBOARD (server_new demo_reg_env 5 :: nat server)"
    by (simp add: present_def server_new_def add_service_def demo_reg_env_def service_new_def hmap_simps Let_def)
  then have s: "rg_inv ?s" "subbed NAME_FILE_CLIPBOARD (pm_id (demo_perm KRemote)) ?s"
    using sub_to_spec(1) [OF server_new_inv [where ?'m = nat, of demo_reg_env 5]]
      sub_to_spec(3) [OF server_new_inv [where ?'m = nat, of demo_reg_env 5]] by simp_all
  obtain c1 s1 e1 where 1: "(c1, s1, e1) = switch_permission demo_reg_env ''clipboard'' False (demo_perm KRemote, ?s, [])" by (metis prod_cases3)
  obtain c2 s2 e2 where 2: "(c2, s2, e2) = update_options demo_reg_env False (om_default\<lparr>om_disable_clipboard := BoYes\<rparr>) (demo_perm KRemote, ?s, [])"
    by (metis prod_cases3)
  from file_clipboard_stays_subscribed [OF s 1 2] i 1 show ?thesis by (metis fst_conv snd_conv)
qed

lemma capture_displays_includes:
  assumes "rg_inv s" and "present (get_service_name source d) s" and "d \<in> set ds" and "excl = False"
  shows "subbed (get_service_name source d) (sub_id c) (capture_displays c source ds True excl s)"
proof -
  let ?n = "get_service_name source d"
  define f where "f = (\<lambda>name s. if is_video_service_name name then
      if name \<in> set (map (get_service_name source) ds) then subscribe name c True s else s else s)"
  have cd: "capture_displays c source ds True excl s = fold f (map fst (rg_services s)) s"
    using assms(4) by (simp add: capture_displays_def f_def Let_def cong: if_cong)
  have keep: "rg_inv s \<and> present ?n s \<Longrightarrow> rg_inv (f m s) \<and> present ?n (f m s)
      \<and> (subbed ?n (sub_id c) s \<longrightarrow> subbed ?n (sub_id c) (f m s))" for m s
    using subscribe_spec [where s = s and n = m and c = c and b = True] by (auto simp: f_def)
  have hit: "rg_inv s \<and> present ?n s \<Longrightarrow> subbed ?n (sub_id c) (f ?n s)" for s
    using subscribe_spec(3) [where s = s and n = ?n and m = ?n and j = "sub_id c" and c = c and b = True] assms(3) get_service_name_video [of source d] by (auto simp: f_def)
  have run: "rg_inv s \<and> present ?n s \<Longrightarrow> ?n \<in> set ns \<or> subbed ?n (sub_id c) s \<Longrightarrow> subbed ?n (sub_id c) (fold f ns s)" for ns s
  proof (induction ns arbitrary: s)
    case (Cons m ns)
    have "?n \<in> set ns \<or> subbed ?n (sub_id c) (f m s)"
      using Cons.prems keep [of s m] hit [of s] by (cases "m = ?n") auto
    with Cons.IH [of "f m s"] keep [OF Cons.prems(1), of m] show ?case by simp
  qed simp
  have "?n \<in> set (map fst (rg_services s))"
    using assms(2) by (auto simp: present_def hm_get_def map_of_eq_None_iff)
  with run assms(1,2) show ?thesis unfolding cd by blast
qed

text \<open>
  What a connection was admitted for is not checked afterwards: an authorised file-transfer connection that asks
  for a display is subscribed to the video of the screen, and while the keyboard permission is at its default its
  mouse events are passed on like those of a remote-control connection.
\<close>

theorem file_transfer_gets_screen_and_input:
  assumes "rg_inv s" and "pm_kind c = KFileTransfer" and "pm_authorized c" and "peer_keyboard_enabled c"
    and "\<not> pm_follow_remote_window c" and "(c', s', evs') = conn_capture_displays [d] [] [] (c, s, evs)"
  shows "subbed (get_service_name Monitor d) (pm_id c) s' \<and> mouse_input_allowed c"
proof -
  let ?s1 = "add_video_service Monitor d s"
  have "rg_inv ?s1" "present (get_service_name Monitor d) ?s1" using add_video_service_spec [OF assms(1)] by auto
  from capture_displays_includes [OF this, of "[d]" False "conn_inner c"]
  have "subbed (get_service_name Monitor d) (pm_id c) (capture_displays (conn_inner c) Monitor [d] True False ?s1)"
    by (simp add: conn_inner_def)
  moreover have "s' = capture_displays (conn_inner c) Monitor [d] True False ?s1"
    using assms(2,5,6) by (simp add: conn_capture_displays_def video_source_of_def Let_def)
  moreover have "mouse_input_allowed c"
    using assms(2-4) by (simp add: mouse_input_allowed_def is_authed_view_camera_conn_def)
  ultimately show ?thesis by simp
qed

theorem file_transfer_gets_screen_and_input_witness:
  "subbed (get_service_name Monitor 0) 1001 (fst (snd (conn_capture_displays [0] [] []
     (demo_perm KFileTransfer, server_new demo_reg_env 5 :: nat server, []))))"
proof -
  obtain c' s' e where run: "(c', s', e) = conn_capture_displays [0] [] [] (demo_perm KFileTransfer, server_new demo_reg_env 5 :: nat server, [])"
    by (metis prod_cases3)
  have "pm_kind (demo_perm KFileTransfer) = KFileTransfer" "pm_authorized (demo_perm KFileTransfer)"
      "peer_keyboard_enabled (demo_perm KFileTransfer)" "\<not> pm_follow_remote_window (demo_perm KFileTransfer)"
      "pm_id (demo_perm KFileTransfer) = 1001"
    by (simp_all add: demo_perm_def peer_keyboard_enabled_def)
  then show ?thesis
    using file_transfer_gets_screen_and_input [OF server_new_inv _ _ _ _ run] run [symmetric] by simp
qed

end
