(* ===== verification/Login.thy ===== *)
theory Login
  imports Trusted_Devices
begin

text \<open>
  Authorisation of an incoming connection, \<open>src/server/connection.rs\<close>: the failure counters with their
  IPv6 prefixes, password validation against the challenge, recent sessions, automatic approval, two-factor
  authentication, trusted devices, the address whitelist, and the log of removed files.

  Global tables (failure counters, sessions, authorised connections) form the record \<open>login_globals\<close>, one
  connection the record \<open>conn\<close>. Configuration, hash function, address parsing and clock are parameters in
  \<open>login_env\<close>. The model is that of a Unix desktop build, where a terminal runs as the user of the
  program; the outcome of starting a desktop session is an argument. The time of the last message of a session
  is part of the session. The check of the failure counters and their update are separate steps. Counters and minutes are Rust's \<open>i32\<close>, kept as integers: the counters are compared before
  they are increased and stay far below the limit of the type.
\<close>

subsection \<open>Data\<close>

type_synonym failure = "int \<times> int \<times> int"

record session_key =
  sk_peer_id :: string
  sk_name :: string
  sk_session_id :: u64

record session =
  se_last_recv_time :: nat
  se_random_password :: bytes
  se_tfa :: bool

datatype auth_conn_type = AuthRemote | AuthFileTransfer | AuthPortForward | AuthViewCamera | AuthTerminal

record authed_conn =
  ac_conn_id :: i32
  ac_conn_type :: auth_conn_type
  ac_session_key :: session_key

record login_globals =
  lg_failures0 :: "(string, failure) hmap"
  lg_failures1 :: "(string, failure) hmap"
  lg_sessions :: "(session_key, session) hmap"
  lg_authed :: "authed_conn list"
  lg_trusted :: td_store

text \<open>The \<open>union\<close> of a login request: directory and hidden files, service id, host and port.\<close>

datatype login_kind = KindFileTransfer string bool | KindViewCamera | KindTerminal string
  | KindPortForward string i32 | KindDefault

text \<open>Of the options in a request (\<open>option\<close>) the field \<open>terminal_persistent\<close> is kept.\<close>

record login_request =
  lr_username :: string
  lr_password :: bytes
  lr_my_id :: string
  lr_my_name :: string
  lr_my_platform :: string
  lr_hwid :: bytes
  lr_session_id :: u64
  lr_version :: string
  lr_option :: "bool option"
  lr_video_ack_required :: bool
  lr_union :: login_kind

datatype terminal_user_token = SelfUser

record conn =
  cn_id :: i32
  cn_ip :: string
  cn_salt :: bytes
  cn_challenge :: bytes
  cn_lr :: login_request
  cn_authorized :: bool
  cn_require_2fa :: bool
  cn_from_switch :: bool
  cn_file_transfer :: "(string \<times> bool) option"
  cn_port_forward_address :: string
  cn_port_forward_socket :: bool
  cn_view_camera :: bool
  cn_terminal :: bool
  cn_terminal_persistent :: bool
  cn_terminal_service_id :: string
  cn_terminal_user_token :: "terminal_user_token option"
  cn_options_in_login :: "bool option"
  cn_peer_argb :: u32
  cn_video_ack_required :: bool

record login_env =
  le_option :: "string \<Rightarrow> string"
  le_builtin_option :: "string \<Rightarrow> string"
  le_sha256 :: "bytes \<Rightarrow> bytes"
  le_temporary_password :: bytes
  le_permanent_password :: bytes
  le_id :: string
  le_is_ip_str :: "string \<Rightarrow> bool"
  le_is_domain_port_str :: "string \<Rightarrow> bool"
  le_version_ge_1_2_0 :: "string \<Rightarrow> bool"
  le_is_logon :: bool
  le_parse_ipv6 :: "string \<Rightarrow> u128 option"
  le_show_ipv6 :: "u128 \<Rightarrow> string"
  le_cidr_contains :: "string \<Rightarrow> string \<Rightarrow> bool"
  le_td :: td_env
  le_flutter :: bool
  le_service_specified_user :: "string \<Rightarrow> bool option"
  le_tcp_connect :: "string \<Rightarrow> bool"
  le_in_privacy_mode :: bool
  le_now :: nat

text \<open>\<open>(get_time() / 60_000) as i32\<close>; the clock is in milliseconds.\<close>

definition minute :: "login_env \<Rightarrow> int" where
  "minute env = int (le_now env div 60000)"

subsection \<open>Failure counters\<close>

definition mask_u128 :: "u128 \<Rightarrow> nat \<Rightarrow> u128" where
  "mask_u128 addr prefix =
     addr AND (if prefix = 0 \<or> prefix > 128 then 0 else push_bit (128 - prefix) (NOT 0))"

definition is_space :: "char \<Rightarrow> bool" where
  "is_space c \<longleftrightarrow> c \<in> {CHR '' '', CHR 0x09, CHR 0x0A, CHR 0x0B, CHR 0x0C, CHR 0x0D}"

definition trim :: "string \<Rightarrow> string" where
  "trim s = rev (dropWhile is_space (rev (dropWhile is_space s)))"

definition get_ipv6_prefixes :: "login_env \<Rightarrow> string \<Rightarrow> (string \<times> string \<times> string) option" where
  "get_ipv6_prefixes env ip =
    (case le_parse_ipv6 env (trim (takeWhile (\<lambda>c. c \<noteq> CHR ''%'') ip)) of
       None \<Rightarrow> None
     | Some a \<Rightarrow> Some (le_show_ipv6 env (mask_u128 a 64) @ ''/64'', le_show_ipv6 env (mask_u128 a 56) @ ''/56'',
                         le_show_ipv6 env (mask_u128 a 48) @ ''/48''))"

definition bump :: "failure \<Rightarrow> int \<Rightarrow> failure" where
  "bump cur time = (case cur of (m, c, t) \<Rightarrow> if m = time then (m, c + 1, t + 1) else (time, 1, t + 1))"

definition get_failure :: "(string, failure) hmap \<Rightarrow> string \<Rightarrow> failure" where
  "get_failure m k = (case hm_get m k of None \<Rightarrow> (0, 0, 0) | Some f \<Rightarrow> f)"

definition update_failure ::
    "login_env \<Rightarrow> string \<Rightarrow> failure \<Rightarrow> int \<Rightarrow> bool \<Rightarrow> (string, failure) hmap \<Rightarrow> (string, failure) hmap" where
  "update_failure env ip failure time remove m =
    (if remove then
       (if fst failure \<noteq> 0 then
          (case get_ipv6_prefixes env ip of
             Some (p64, p56, p48) \<Rightarrow> hm_remove ip (hm_remove p48 (hm_remove p56 (hm_remove p64 m)))
           | None \<Rightarrow> hm_remove ip m)
        else m)
     else
       (case get_ipv6_prefixes env ip of
          Some (p64, p56, p48) \<Rightarrow>
            hm_insert ip (bump failure time)
              (fold (\<lambda>key m. hm_insert key (bump (get_failure m key) time) m) [p64, p56, p48] m)
        | None \<Rightarrow> hm_insert ip (bump failure time) m))"

datatype login_msg = LoginError string | LogonResponse auth_conn_type | StartCm bool

definition check_failure_ipv6_prefix ::
    "(string, failure) hmap \<Rightarrow> string \<Rightarrow> int \<Rightarrow> failure option" where
  "check_failure_ipv6_prefix m prefix thresh =
    (let f = get_failure m prefix in if snd (snd f) > thresh then Some f else None)"

definition check_failure_direct :: "(string, failure) hmap \<Rightarrow> string \<Rightarrow> int \<Rightarrow> failure \<times> bool \<times> login_msg list" where
  "check_failure_direct m ip time =
    (let failure = get_failure m ip in
     if snd (snd failure) > 30 then (failure, False, [LoginError ''Too many wrong attempts''])
     else if time = fst failure \<and> fst (snd failure) > 6 then (failure, False, [LoginError ''Please try 1 minute later''])
     else (failure, True, []))"

definition check_failure ::
    "login_env \<Rightarrow> string \<Rightarrow> (string, failure) hmap \<Rightarrow> failure \<times> bool \<times> login_msg list" where
  "check_failure env ip m =
    (case get_ipv6_prefixes env ip of
       Some (p64, p56, p48) \<Rightarrow>
         (case check_failure_ipv6_prefix m p64 60 of
            Some f \<Rightarrow> (f, False, [LoginError ''Too many wrong attempts for IPv6 prefix /64''])
          | None \<Rightarrow>
         (case check_failure_ipv6_prefix m p56 80 of
            Some f \<Rightarrow> (f, False, [LoginError ''Too many wrong attempts for IPv6 prefix /56''])
          | None \<Rightarrow>
         (case check_failure_ipv6_prefix m p48 100 of
            Some f \<Rightarrow> (f, False, [LoginError ''Too many wrong attempts for IPv6 prefix /48''])
          | None \<Rightarrow> check_failure_direct m ip (minute env))))
     | None \<Rightarrow> check_failure_direct m ip (minute env))"

subsection \<open>Passwords and sessions\<close>

definition conn_session_key :: "conn \<Rightarrow> session_key" where
  "conn_session_key c = \<lparr>sk_peer_id = lr_my_id (cn_lr c), sk_name = lr_my_name (cn_lr c),
     sk_session_id = lr_session_id (cn_lr c)\<rparr>"

definition validate_one_password :: "login_env \<Rightarrow> conn \<Rightarrow> bytes \<Rightarrow> bool" where
  "validate_one_password env c password =
    (if length password = 0 then False
     else le_sha256 env (le_sha256 env (password @ cn_salt c) @ cn_challenge c) = lr_password (cn_lr c))"

definition update_or_insert_session ::
    "nat \<Rightarrow> session_key \<Rightarrow> bytes option \<Rightarrow> bool option \<Rightarrow> (session_key, session) hmap \<Rightarrow> (session_key, session) hmap" where
  "update_or_insert_session now key password tfa m =
    (case hm_get m key of
       Some _ \<Rightarrow> hm_modify key (\<lambda>s. s\<lparr>
           se_random_password := (case password of Some p \<Rightarrow> p | None \<Rightarrow> se_random_password s),
           se_tfa := (case tfa of Some t \<Rightarrow> t | None \<Rightarrow> se_tfa s)\<rparr>) m
     | None \<Rightarrow> hm_insert key \<lparr>se_last_recv_time = now,
           se_random_password = (case password of Some p \<Rightarrow> p | None \<Rightarrow> []),
           se_tfa = (case tfa of Some t \<Rightarrow> t | None \<Rightarrow> False)\<rparr> m)"

definition set_session_2fa :: "nat \<Rightarrow> session_key \<Rightarrow> (session_key, session) hmap \<Rightarrow> (session_key, session) hmap" where
  "set_session_2fa now key m =
    (case hm_get m key of
       Some _ \<Rightarrow> hm_modify key (\<lambda>s. s\<lparr>se_tfa := True\<rparr>) m
     | None \<Rightarrow> hm_insert key \<lparr>se_last_recv_time = now, se_random_password = [], se_tfa = True\<rparr> m)"

definition check_remove_session :: "i32 \<Rightarrow> session_key \<Rightarrow> login_globals \<Rightarrow> login_globals" where
  "check_remove_session conn_id key g =
    (if hm_contains (lg_sessions g) key then
       (let is_remote = list_ex (\<lambda>c. ac_conn_id c = conn_id \<and> ac_conn_type c = AuthRemote) (lg_authed g);
            another_remote = list_ex (\<lambda>c. ac_conn_id c \<noteq> conn_id \<and> ac_session_key c = key
                                \<and> ac_conn_type c = AuthRemote) (lg_authed g) in
        if is_remote \<or> \<not> another_remote then g\<lparr>lg_sessions := hm_remove key (lg_sessions g)\<rparr> else g)
     else g)"

definition validate_password :: "login_env \<Rightarrow> conn \<Rightarrow> login_globals \<Rightarrow> login_globals \<times> bool" where
  "validate_password env c g =
    (if temporary_enabled (le_option env) \<and> validate_one_password env c (le_temporary_password env)
     then (g\<lparr>lg_sessions := update_or_insert_session (le_now env) (conn_session_key c)
                 (Some (le_temporary_password env)) (Some False) (lg_sessions g)\<rparr>, True)
     else (g, permanent_enabled (le_option env) \<and> validate_one_password env c (le_permanent_password env)))"

definition SESSION_TIMEOUT :: nat where "SESSION_TIMEOUT = 30 * 1000"

definition is_recent_session :: "login_env \<Rightarrow> conn \<Rightarrow> bool \<Rightarrow> login_globals \<Rightarrow> login_globals \<times> bool" where
  "is_recent_session env c tfa g =
    (let m = hm_retain (\<lambda>_ s. le_now env - se_last_recv_time s < SESSION_TIMEOUT) (lg_sessions g) in
     (g\<lparr>lg_sessions := m\<rparr>,
      (case hm_get m (conn_session_key c) of
         None \<Rightarrow> False
       | Some s \<Rightarrow> lr_password (cn_lr c) \<noteq> []
           \<and> (tfa \<and> se_tfa s \<or> \<not> tfa \<and> validate_one_password env c (se_random_password s)))))"

definition should_auto_approve_file_transfer :: "conn \<Rightarrow> string \<Rightarrow> login_globals \<Rightarrow> bool" where
  "should_auto_approve_file_transfer c peer_id g \<longleftrightarrow>
     cn_file_transfer c \<noteq> None
     \<and> list_ex (\<lambda>a. (ac_conn_type a = AuthRemote \<or> ac_conn_type a = AuthViewCamera \<or> ac_conn_type a = AuthTerminal)
          \<and> sk_peer_id (ac_session_key a) = peer_id) (lg_authed g)"

definition permission :: "login_env \<Rightarrow> string \<Rightarrow> bool" where
  "permission env enable_prefix_option =
    (if le_flutter env \<and> le_option env ''access-mode'' = ''full'' then True
     else if le_flutter env \<and> le_option env ''access-mode'' = ''view'' then False
     else option2bool enable_prefix_option (le_option env enable_prefix_option))"

definition enable_trusted_devices :: "login_env \<Rightarrow> bool" where
  "enable_trusted_devices env = option2bool ''enable-trusted-devices'' (le_option env ''enable-trusted-devices'')"

definition str2color :: "string \<Rightarrow> u8 \<Rightarrow> u32" where
  "str2color s alpha =
    (let hash = fold (\<lambda>byte hash. ucast byte + (push_bit 5 hash - hash)) (map (of_char :: char \<Rightarrow> u8) s) (0 :: u32);
         hash = hash mod 16777216; rgb = hash AND 0xFF7FFF
     in push_bit 24 (ucast alpha) OR rgb)"

text \<open>Reading the trusted devices may fill their cache, so the global state is returned as well.\<close>

definition get_time :: "login_env \<Rightarrow> i64" where "get_time env = of_nat (le_now env)"

definition handle_login_request_without_validation ::
    "login_env \<Rightarrow> login_request \<Rightarrow> conn \<Rightarrow> login_globals \<Rightarrow> conn \<times> login_globals" where
  "handle_login_request_without_validation env lr c g =
    (let c = c\<lparr>cn_lr := lr, cn_peer_argb := str2color (lr_my_id lr @ lr_my_platform lr) 0xff\<rparr>;
         c = (case lr_option lr of Some opt \<Rightarrow> c\<lparr>cn_options_in_login := Some opt\<rparr> | None \<Rightarrow> c);
         (c, g) =
           (if cn_require_2fa c \<and> lr_hwid lr \<noteq> [] \<and> enable_trusted_devices env then
              (case get_trusted_devices (le_td env) (get_time env) (lg_trusted g) of (devices, ts) \<Rightarrow>
                 (case find (\<lambda>d. td_hwid d = lr_hwid lr) devices of
                    Some device \<Rightarrow>
                      if \<not> outdate (get_time env) device \<and> td_id device = lr_my_id lr \<and> td_name device = lr_my_name lr
                         \<and> td_platform device = lr_my_platform lr
                      then c\<lparr>cn_require_2fa := False\<rparr> else c
                  | None \<Rightarrow> c, g\<lparr>lg_trusted := ts\<rparr>))
            else (c, g))
     in (c\<lparr>cn_video_ack_required := lr_video_ack_required lr\<rparr>, g))"

text \<open>The whitelist drops the empty pieces.\<close>

definition check_whitelist :: "login_env \<Rightarrow> string \<Rightarrow> bool \<times> login_msg list" where
  "check_whitelist env ip =
    (let whitelist = filter (\<lambda>x. x \<noteq> []) (split_on CHR '','' (le_option env ''whitelist'')) in
     if whitelist \<noteq> [] \<and> ''0.0.0.0'' \<notin> set whitelist \<and> \<not> list_ex (\<lambda>x. le_cidr_contains env x ip) whitelist
     then (False, [LoginError ''Your ip is blocked by the peer''])
     else (True, []))"

subsection \<open>The login state machine\<close>

definition auth_type :: "conn \<Rightarrow> auth_conn_type" where
  "auth_type c =
     (if cn_file_transfer c \<noteq> None then AuthFileTransfer else if cn_port_forward_socket c then AuthPortForward
      else if cn_view_camera c then AuthViewCamera else if cn_terminal c then AuthTerminal else AuthRemote)"

type_synonym login_result = "conn \<times> login_globals \<times> login_msg list"

definition send_logon_response :: "login_env \<Rightarrow> conn \<Rightarrow> login_globals \<Rightarrow> login_result" where
  "send_logon_response env c g =
    (if cn_authorized c then (c, g, [])
     else let (g, recent) = (if cn_require_2fa c then is_recent_session env c True g else (g, False)) in
     if cn_require_2fa c \<and> \<not> recent \<and> \<not> cn_from_switch c then (c, g, [LoginError ''2FA Required''])
     else (c\<lparr>cn_authorized := True\<rparr>,
           g\<lparr>lg_authed := lg_authed g @ [\<lparr>ac_conn_id = cn_id c, ac_conn_type = auth_type c,
                                            ac_session_key = conn_session_key c\<rparr>]\<rparr>,
           [LogonResponse (auth_type c)]))"

definition approve :: "login_env \<Rightarrow> conn \<Rightarrow> login_globals \<Rightarrow> login_result" where
  "approve env c g =
    (case send_logon_response env c g of (c, g, msgs) \<Rightarrow> (c, g, msgs @ [StartCm (cn_authorized c)]))"

text \<open>
  A login request on a connection that is not yet authorised, after the kind of session was set up;
  \<open>err_msg\<close> is what starting a desktop session reported. The returned flag tells whether the
  connection is kept open.
\<close>

definition login_check :: "login_env \<Rightarrow> string \<Rightarrow> conn \<Rightarrow> login_globals \<Rightarrow> login_result \<times> bool" where
  "login_check env err_msg c g =
    (let lr = cn_lr c; mode = get_approve_mode (le_option env);
         valid = has_valid_password (le_option env) (le_temporary_password env) (le_permanent_password env) in
     if \<not> le_is_ip_str env (lr_username lr) \<and> \<not> le_is_domain_port_str env (lr_username lr)
        \<and> lr_username lr \<noteq> le_id env
     then ((c, g, [LoginError ''Offline'']), False)
     else if should_auto_approve_file_transfer c (lr_my_id lr) g then (approve env c g, True)
     else if mode = ApproveAuto then (approve env c g, True)
     else if mode = ApproveClick \<and> \<not> (le_builtin_option env ''allow-logon-screen-password'' = ''Y'' \<and> le_is_logon env)
        \<or> mode = ApproveBoth \<and> \<not> valid
     then ((c, g, StartCm False #
             (if le_version_ge_1_2_0 env (lr_version lr) then [LoginError ''No Password Access''] else [])), True)
     else let (g, recent) = is_recent_session env c False g in
     if recent then
       ((if err_msg = [] then approve env c g else (c, g, [LoginError err_msg])), True)
     else if lr_password lr = [] then
       ((c, g, [if err_msg = [] then StartCm False else LoginError ''Desktop session not ready, password empty'']), True)
     else case check_failure env (cn_ip c) (lg_failures0 g) of
       (failure, False, msgs) \<Rightarrow> ((c, g, msgs), True)
     | (failure, True, _) \<Rightarrow>
         (case validate_password env c g of
            (g, False) \<Rightarrow>
              ((c, g\<lparr>lg_failures0 := update_failure env (cn_ip c) failure (minute env) False (lg_failures0 g)\<rparr>,
                if err_msg = [] then [LoginError ''Wrong Password'', StartCm False]
                else [LoginError ''Desktop session not ready, password wrong'']), True)
          | (g, True) \<Rightarrow>
              (let g = g\<lparr>lg_failures0 := update_failure env (cn_ip c) failure (minute env) True (lg_failures0 g)\<rparr> in
               ((if err_msg = [] then approve env c g else (c, g, [LoginError err_msg])), True))))"

text \<open>
  Setting up the requested kind of session. Whether the forwarded port can be reached, whether a terminal
  service belongs to a given user and whether privacy mode is on come from the environment.
\<close>

definition fill_terminal_user_token :: "conn \<Rightarrow> conn \<times> string option" where
  "fill_terminal_user_token c = (c\<lparr>cn_terminal_user_token := Some SelfUser\<rparr>, None)"

fun to_terminal_service_token :: "terminal_user_token \<Rightarrow> 't option" where
  "to_terminal_service_token SelfUser = None"

definition setup_terminal :: "login_env \<Rightarrow> string \<Rightarrow> conn \<Rightarrow> conn \<times> login_msg list \<times> bool" where
  "setup_terminal env service_id c =
    (let c = c\<lparr>cn_terminal := True\<rparr>;
         c = (case cn_options_in_login c of Some p \<Rightarrow> c\<lparr>cn_terminal_persistent := p\<rparr> | None \<Rightarrow> c);
         c = c\<lparr>cn_terminal_service_id := service_id\<rparr> in
     case fill_terminal_user_token c of
       (c, Some msg) \<Rightarrow> (c, [LoginError msg], False)
     | (c, None) \<Rightarrow>
         (case (le_service_specified_user env service_id, cn_terminal_user_token c) of
            (Some is_user, Some user_token) \<Rightarrow>
              if is_user \<noteq> ((to_terminal_service_token user_token :: unit option) \<noteq> None)
              then (c, [LoginError ''Terminal service user mismatch detected.''], False) else (c, [], True)
          | _ \<Rightarrow> (c, [], True)))"

definition setup_port_forward :: "login_env \<Rightarrow> string \<Rightarrow> i32 \<Rightarrow> conn \<Rightarrow> conn \<times> login_msg list \<times> bool" where
  "setup_port_forward env host port c =
    (let is_rdp = (host = ''RDP'' \<and> port = 0);
         (host, port) = (if is_rdp then (''localhost'', 3389) else (host, port));
         host = (if host = [] then ''localhost'' else host);
         addr = host @ '':'' @ show_int (sint port);
         c = c\<lparr>cn_port_forward_address := addr\<rparr> in
     if le_tcp_connect env addr then (c\<lparr>cn_port_forward_socket := True\<rparr>, [], True)
     else (c, [LoginError (''Failed to access remote '' @ (if is_rdp then ''RDP'' else addr)
                             @ '', please make sure if it is open'')], False))"

definition setup_kind :: "login_env \<Rightarrow> login_kind \<Rightarrow> conn \<Rightarrow> conn \<times> login_msg list \<times> bool" where
  "setup_kind env kind c =
    (case kind of
       KindFileTransfer dir show_hidden \<Rightarrow>
         if \<not> permission env ''enable-file-transfer'' then (c, [LoginError ''No permission of file transfer''], False)
         else (c\<lparr>cn_file_transfer := Some (dir, show_hidden)\<rparr>, [], True)
     | KindViewCamera \<Rightarrow>
         if \<not> permission env ''enable-camera'' then (c, [LoginError ''No permission of viewing camera''], False)
         else (c\<lparr>cn_view_camera := True\<rparr>, [], True)
     | KindTerminal service_id \<Rightarrow>
         if \<not> permission env ''enable-terminal'' then (c, [LoginError ''No permission of terminal''], False)
         else setup_terminal env service_id c
     | KindPortForward host port \<Rightarrow>
         if \<not> permission env ''enable-tunnel'' then (c, [LoginError ''No permission of IP tunneling''], False)
         else setup_port_forward env host port c
     | KindDefault \<Rightarrow>
         if le_in_privacy_mode env then (c, [LoginError ''Someone turns on privacy mode, exit''], False)
         else (c, [], True))"

definition on_login_request ::
    "login_env \<Rightarrow> string \<Rightarrow> login_request \<Rightarrow> conn \<Rightarrow> login_globals \<Rightarrow> login_result \<times> bool" where
  "on_login_request env err_msg lr c g =
    (case handle_login_request_without_validation env lr c g of (c, g) \<Rightarrow>
     if cn_authorized c then ((c, g, []), True)
     else case setup_kind env (lr_union lr) c of
       (c, msgs, False) \<Rightarrow> ((c, g, msgs), False)
     | (c, msgs, True) \<Rightarrow>
         if err_msg \<noteq> [] \<and> err_msg \<noteq> ''Desktop session not ready'' then ((c, g, [LoginError err_msg]), True)
         else login_check env err_msg c g)"

text \<open>
  A two-factor code with the hardware id the sender wants to have trusted; \<open>code_ok\<close> is the verdict of the
  authenticator (\<open>None\<close>: it failed).
\<close>

definition on_auth_2fa :: "login_env \<Rightarrow> bool option \<Rightarrow> bytes \<Rightarrow> conn \<Rightarrow> login_globals \<Rightarrow> login_result" where
  "on_auth_2fa env code_ok hwid c g =
    (case check_failure env (cn_ip c) (lg_failures1 g) of
       (failure, False, msgs) \<Rightarrow> (c, g, msgs)
     | (failure, True, _) \<Rightarrow>
         if \<not> cn_require_2fa c then (c, g, [])
         else (case code_ok of
            None \<Rightarrow> (c, g, [])
          | Some True \<Rightarrow>
              (case approve env (c\<lparr>cn_require_2fa := False\<rparr>)
                  (g\<lparr>lg_failures1 := update_failure env (cn_ip c) failure (minute env) True (lg_failures1 g),
                     lg_sessions := set_session_2fa (le_now env) (conn_session_key c) (lg_sessions g)\<rparr>) of
                 (c, g, msgs) \<Rightarrow>
                   (c, if hwid \<noteq> [] \<and> enable_trusted_devices env
                       then g\<lparr>lg_trusted := add_trusted_device (le_td env) (get_time env)
                          \<lparr>td_hwid = hwid, td_time = get_time env, td_id = lr_my_id (cn_lr c), td_name = lr_my_name (cn_lr c),
                           td_platform = lr_my_platform (cn_lr c)\<rparr> (lg_trusted g)\<rparr>
                       else g, msgs))
          | Some False \<Rightarrow>
              (c, g\<lparr>lg_failures1 := update_failure env (cn_ip c) failure (minute env) False (lg_failures1 g)\<rparr>,
               [LoginError ''Wrong 2FA Code''])))"

text \<open>The approval by the user of the controlled host, which settles two-factor authentication as well.\<close>

definition on_authorize :: "login_env \<Rightarrow> conn \<Rightarrow> login_globals \<Rightarrow> login_result" where
  "on_authorize env c g = send_logon_response env (c\<lparr>cn_require_2fa := False\<rparr>) g"

definition drop_authed_conn :: "i32 \<Rightarrow> login_globals \<Rightarrow> login_globals" where
  "drop_authed_conn conn_id g = g\<lparr>lg_authed := filter (\<lambda>c. ac_conn_id c \<noteq> conn_id) (lg_authed g)\<rparr>"

subsection \<open>The log of removed files\<close>

record removed_file =
  rf_id :: i32
  rf_path :: string

record removed_dir =
  rd_id :: i32
  rd_path :: string

record remove_log =
  rl_conn_id :: i32
  rl_instant :: nat
  rl_files :: "removed_file list"
  rl_dirs :: "removed_dir list"

datatype action_log = ActionLog i32 i32 string bool

text \<open>\<open>Path::parent\<close> on Unix paths without repeated or trailing separators.\<close>

definition path_parent :: "string \<Rightarrow> string option" where
  "path_parent p =
    (if p = [] \<or> p = ''/'' then None
     else if CHR ''/'' \<notin> set p then Some []
     else let d = rev (tl (dropWhile (\<lambda>c. c \<noteq> CHR ''/'') (rev p))) in Some (if d = [] then ''/'' else d))"

definition direct_child :: "string \<Rightarrow> string \<Rightarrow> bool" where
  "direct_child parent child \<longleftrightarrow> path_parent child = Some parent"

definition remove_log_new :: "i32 \<Rightarrow> nat \<Rightarrow> remove_log" where
  "remove_log_new conn_id now = \<lparr>rl_conn_id = conn_id, rl_instant = now, rl_files = [], rl_dirs = []\<rparr>"

definition on_remove_file :: "nat \<Rightarrow> removed_file \<Rightarrow> remove_log \<Rightarrow> remove_log \<times> action_log" where
  "on_remove_file now f l =
     (l\<lparr>rl_instant := now, rl_files := rl_files l @ [f]\<rparr>, ActionLog (rf_id f) (rl_conn_id l) (rf_path f) False)"

definition on_remove_dir :: "nat \<Rightarrow> removed_dir \<Rightarrow> remove_log \<Rightarrow> remove_log \<times> action_log" where
  "on_remove_dir now d l =
    (let files = filter (\<lambda>f. \<not> direct_child (rf_path f) (rd_path d)) (rl_files l);
         dirs = filter (\<lambda>x. \<not> direct_child (rd_path d) (rd_path x)) (rl_dirs l);
         dirs = (if \<not> list_ex (\<lambda>x. direct_child (rd_path x) (rd_path d)) dirs then dirs @ [d] else dirs) in
     (l\<lparr>rl_instant := now, rl_files := files, rl_dirs := dirs\<rparr>,
      ActionLog (rd_id d) (rl_conn_id l) (rd_path d) True))"

definition on_timer :: "nat \<Rightarrow> remove_log \<Rightarrow> remove_log \<times> action_log list" where
  "on_timer now l =
    (if (now - rl_instant l) div 1000 < 1 then (l, [])
     else (l\<lparr>rl_files := [], rl_dirs := []\<rparr>,
           map (\<lambda>f. ActionLog (rf_id f) (rl_conn_id l) (rf_path f) False) (rl_files l)
           @ map (\<lambda>d. ActionLog (rd_id d) (rl_conn_id l) (rd_path d) True) (rl_dirs l)))"

subsection \<open>The counters bound guessing\<close>

text \<open>
  A connection checks the counters of its address and, when they let it pass, looks at the password and then updates them:
  two steps, since the lock of the table is taken for each on its own. Between them the connection keeps what the check
  has read, and other connections may take theirs. (The reads of one check, of the prefixes and of the address, are one
  step.)
\<close>

record guard =
  gd_failures :: "(string, failure) hmap"
  gd_pending :: "nat \<rightharpoonup> login_env \<times> string \<times> failure"

datatype guard_event = Check nat login_env string | Update nat bool

text \<open>A step; the second part of the result is the attempt that was let through, with its minute.\<close>

fun guard_step :: "guard_event \<Rightarrow> guard \<Rightarrow> guard \<times> (string \<times> int) list" where
  "guard_step (Check c env ip) g =
    (case check_failure env ip (gd_failures g) of
       (failure, False, _) \<Rightarrow> (g, [])
     | (failure, True, _) \<Rightarrow> (g\<lparr>gd_pending := (gd_pending g)(c \<mapsto> (env, ip, failure))\<rparr>, [(ip, minute env)]))"
| "guard_step (Update c ok) g =
    (case gd_pending g c of
       None \<Rightarrow> (g, [])
     | Some (env, ip, failure) \<Rightarrow>
         (g\<lparr>gd_failures := update_failure env ip failure (minute env) ok (gd_failures g),
            gd_pending := (gd_pending g)(c := None)\<rparr>, []))"

fun guard_run :: "guard_event list \<Rightarrow> guard \<Rightarrow> (string \<times> int) list" where
  "guard_run [] g = []"
| "guard_run (e # es) g = (case guard_step e g of (g', evaluated) \<Rightarrow> evaluated @ guard_run es g')"

definition guard_new :: guard where
  "guard_new = \<lparr>gd_failures = [], gd_pending = Map.empty\<rparr>"

definition total_failures :: "(string, failure) hmap \<Rightarrow> string \<Rightarrow> int" where
  "total_failures m ip = snd (snd (get_failure m ip))"

lemma get_failure_insert: "get_failure (hm_insert k f m) k' = (if k' = k then f else get_failure m k')"
  by (simp add: get_failure_def hmap_simps)

lemma get_failure_remove: "get_failure (hm_remove k m) k' = (if k' = k then (0, 0, 0) else get_failure m k')"
  by (simp add: get_failure_def hmap_simps)

lemma prefixes_have_slash:
  assumes "get_ipv6_prefixes env ip' = Some (p64, p56, p48)" and "CHR ''/'' \<notin> set ip"
  shows "ip \<noteq> p64 \<and> ip \<noteq> p56 \<and> ip \<noteq> p48"
  using assms by (auto simp: get_ipv6_prefixes_def split: option.splits)

lemma update_failure_other:
  assumes "ip' \<noteq> ip" and "CHR ''/'' \<notin> set ip"
  shows "get_failure (update_failure env ip' f time r m) ip = get_failure m ip"
proof (cases "get_ipv6_prefixes env ip'")
  case None
  with assms(1) show ?thesis by (simp add: update_failure_def get_failure_insert get_failure_remove)
next
  case (Some ps)
  obtain p64 p56 p48 where ps: "ps = (p64, p56, p48)" by (cases ps)
  with Some prefixes_have_slash [of env ip' p64 p56 p48 ip] assms show ?thesis
    by (simp add: update_failure_def get_failure_insert get_failure_remove)
qed

lemma update_failure_self:
  "get_failure (update_failure env ip f time False m) ip = bump f time"
  by (simp add: update_failure_def get_failure_insert split: option.split)

lemma check_failure_passed:
  assumes "check_failure env ip m = (f, True, msgs)"
  shows "f = get_failure m ip \<and> snd (snd f) \<le> 30 \<and> (fst f = minute env \<longrightarrow> fst (snd f) \<le> 6)"
  using assms
  by (auto simp: check_failure_def check_failure_direct_def Let_def split: option.splits if_splits)

text \<open>
  The attempts of an address are wrong and come one after another: none starts while another of that address is between
  its two steps, and a connection has one attempt at a time. Attempts of other addresses may come in between.
\<close>

definition in_flight :: "string \<Rightarrow> guard \<Rightarrow> bool" where
  "in_flight ip g \<longleftrightarrow> (\<exists>c env f. gd_pending g c = Some (env, ip, f))"

fun wrong_in_turn :: "string \<Rightarrow> guard_event list \<Rightarrow> guard \<Rightarrow> bool" where
  "wrong_in_turn ip [] g = True"
| "wrong_in_turn ip (Check c env ip' # es) g \<longleftrightarrow> gd_pending g c = None \<and> (ip' = ip \<longrightarrow> \<not> in_flight ip g)
     \<and> wrong_in_turn ip es (fst (guard_step (Check c env ip') g))"
| "wrong_in_turn ip (Update c ok # es) g \<longleftrightarrow> (\<forall>env f. gd_pending g c = Some (env, ip, f) \<longrightarrow> \<not> ok)
     \<and> wrong_in_turn ip es (fst (guard_step (Update c ok) g))"

text \<open>The minutes in which the attempts of an address start.\<close>

definition check_minutes :: "string \<Rightarrow> guard_event list \<Rightarrow> int list" where
  "check_minutes ip es = List.map_filter (\<lambda>e. case e of Check c env ip' \<Rightarrow> (if ip' = ip then Some (minute env) else None) | _ \<Rightarrow> None) es"

lemma check_minutes_simps [simp]:
  "check_minutes ip [] = []"
  "check_minutes ip (Check c env ip' # es) = (if ip' = ip then minute env # check_minutes ip es else check_minutes ip es)"
  "check_minutes ip (Update c ok # es) = check_minutes ip es"
  by (simp_all add: check_minutes_def List.map_filter_def)

text \<open>The counters of an address with the attempt in flight already counted: only the start of an attempt changes them.\<close>

definition counted :: "string \<Rightarrow> guard \<Rightarrow> failure \<Rightarrow> bool" where
  "counted ip g f \<longleftrightarrow> (if in_flight ip g
     then (\<exists>c env. gd_pending g c = Some (env, ip, get_failure (gd_failures g) ip)
             \<and> (\<forall>c' env' f'. gd_pending g c' = Some (env', ip, f') \<longrightarrow> c' = c)
             \<and> f = bump (get_failure (gd_failures g) ip) (minute env))
     else f = get_failure (gd_failures g) ip)"

lemma counted_cong:
  assumes "\<And>d e f'. gd_pending g' d = Some (e, ip, f') \<longleftrightarrow> gd_pending g d = Some (e, ip, f')"
    and "get_failure (gd_failures g') ip = get_failure (gd_failures g) ip"
  shows "counted ip g' f = counted ip g f"
  by (simp only: counted_def in_flight_def assms)

lemma counted_check:
  assumes "counted ip g f" and "wrong_in_turn ip (Check c env ip' # es) g" and "CHR ''/'' \<notin> set ip"
    and "guard_step (Check c env ip') g = (g', evs)"
  shows "if ip' = ip \<and> evs \<noteq> [] then counted ip g' (bump f (minute env)) \<and> evs = [(ip, minute env)] \<and> snd (snd f) \<le> 30
            \<and> (fst f = minute env \<longrightarrow> fst (snd f) \<le> 6)
         else counted ip g' f \<and> filter (\<lambda>e. fst e = ip) evs = []"
proof -
  obtain failure passed msgs where chk: "check_failure env ip' (gd_failures g) = (failure, passed, msgs)"
    by (cases "check_failure env ip' (gd_failures g)")
  show ?thesis
  proof (cases passed)
    case False
    with chk assms show ?thesis by (auto split: if_splits)
  next
    case True
    with chk assms(4) have g': "g' = g\<lparr>gd_pending := (gd_pending g)(c \<mapsto> (env, ip', failure))\<rparr>" and evs: "evs = [(ip', minute env)]"
      by auto
    have free: "gd_pending g c = None" using assms(2) by simp
    have get: "gd_pending g' d = (if d = c then Some (env, ip', failure) else gd_pending g d)" for d
      by (simp add: g')
    show ?thesis
    proof (cases "ip' = ip")
      case own: True
      have idle: "\<not> in_flight ip g" using assms(2) own by simp
      then have f: "f = get_failure (gd_failures g) ip" using assms(1) by (simp add: counted_def)
      have pass: "failure = f" "snd (snd f) \<le> 30" "fst f = minute env \<longrightarrow> fst (snd f) \<le> 6"
        using check_failure_passed [of env ip "gd_failures g" failure msgs] chk True own f by auto
      have none: "gd_pending g d \<noteq> Some (env', ip, f')" for d env' f' using idle unfolding in_flight_def by blast
      have "gd_pending g' c = Some (env, ip, failure)" using get own by simp
      then have "in_flight ip g'" unfolding in_flight_def by blast
      moreover have "gd_failures g' = gd_failures g" by (simp add: g')
      ultimately have "counted ip g' (bump f (minute env))"
        using get own pass(1) f none unfolding counted_def by (auto split: if_splits)
      with own evs pass show ?thesis by simp
    next
      case other: False
      have "(\<exists>e. gd_pending g' d = Some (e, ip, f')) \<longleftrightarrow> (\<exists>e. gd_pending g d = Some (e, ip, f'))" for d f'
        using get other free by simp
      then have same: "gd_pending g' d = Some (e, ip, f') \<longleftrightarrow> gd_pending g d = Some (e, ip, f')" for d e f'
        using get other free by simp
      then have "counted ip g' f" using counted_cong [of g' ip g f] assms(1) by (simp add: g')
      with other evs show ?thesis by simp
    qed
  qed
qed

lemma counted_update:
  assumes "counted ip g f" and "wrong_in_turn ip (Update c ok # es) g" and "CHR ''/'' \<notin> set ip"
    and "guard_step (Update c ok) g = (g', evs)"
  shows "counted ip g' f \<and> evs = []"
proof (cases "gd_pending g c")
  case None
  with assms show ?thesis by simp
next
  case (Some p)
  obtain env ip' failure where p: "p = (env, ip', failure)" by (cases p)
  with Some assms(4) have g': "g' = g\<lparr>gd_failures := update_failure env ip' failure (minute env) ok (gd_failures g),
      gd_pending := (gd_pending g)(c := None)\<rparr>" and evs: "evs = []" by auto
  have get: "gd_pending g' d = (if d = c then None else gd_pending g d)" for d
    by (simp add: g' hmap_simps)
  show ?thesis
  proof (cases "ip' = ip")
    case True
    with Some p have fl: "in_flight ip g" unfolding in_flight_def by blast
    then obtain d env' where d: "gd_pending g d = Some (env', ip, get_failure (gd_failures g) ip)"
        "\<And>c' env' f'. gd_pending g c' = Some (env', ip, f') \<Longrightarrow> c' = d" "f = bump (get_failure (gd_failures g) ip) (minute env')"
      using assms(1) by (auto simp: counted_def)
    have "c = d" using d(2) [of c env failure] Some p True by simp
    with d(1) Some p have eq: "env' = env" "failure = get_failure (gd_failures g) ip" by auto
    have "\<not> in_flight ip g'" using d(2) \<open>c = d\<close> get unfolding in_flight_def by (metis option.distinct(1))
    moreover have "\<not> ok" using assms(2) Some p True by (cases failure) simp
    ultimately show ?thesis using evs d(3) eq True by (simp add: counted_def g' update_failure_self)
  next
    case False
    have "get_failure (gd_failures g') ip = get_failure (gd_failures g) ip"
      using update_failure_other [OF False assms(3)] by (simp add: g')
    moreover have "gd_pending g' d = Some (e, ip, f') \<longleftrightarrow> gd_pending g d = Some (e, ip, f')" for d e f'
      using get Some p False by auto
    ultimately show ?thesis using assms(1) evs counted_cong [of g' ip g f] by blast
  qed
qed

definition evaluated_from :: "string \<Rightarrow> (string \<times> int) list \<Rightarrow> nat" where
  "evaluated_from ip evs = length (filter (\<lambda>e. fst e = ip) evs)"

definition evaluated_in :: "string \<Rightarrow> int \<Rightarrow> (string \<times> int) list \<Rightarrow> nat" where
  "evaluated_in ip t evs = length (filter (\<lambda>e. e = (ip, t)) evs)"

lemma total_bump: "snd (snd (bump f t)) = snd (snd f) + 1"
  by (simp add: bump_def split: prod.split)

lemma guard_total_bound:
  assumes "CHR ''/'' \<notin> set ip" and "counted ip g f" and "wrong_in_turn ip es g"
  shows "evaluated_from ip (guard_run es g) \<le> nat (31 - snd (snd f))"
  using assms(2,3)
proof (induction es arbitrary: g f)
  case (Cons e es)
  obtain g' evs where step: "guard_step e g = (g', evs)" by (cases "guard_step e g")
  have rest: "wrong_in_turn ip es g'" using Cons.prems(2) step by (cases e) (simp_all del: guard_step.simps)
  show ?case
  proof (cases e)
    case (Check c env ip')
    from counted_check [OF Cons.prems(1) Cons.prems(2) [unfolded Check] assms(1) step [unfolded Check]]
    show ?thesis
      using Cons.IH [OF _ rest, of "bump f (minute env)"] Cons.IH [OF _ rest, of f] step
      by (auto simp: evaluated_from_def total_bump split: if_splits)
  next
    case (Update c ok)
    from counted_update [OF Cons.prems(1) Cons.prems(2) [unfolded Update] assms(1) step [unfolded Update]]
    show ?thesis using Cons.IH [OF _ rest] step by (simp add: evaluated_from_def)
  qed
qed (simp add: evaluated_from_def)

definition minute_count :: "int \<Rightarrow> failure \<Rightarrow> int" where
  "minute_count t f = (case f of (m, n, _) \<Rightarrow> if m = t then n else 0)"

lemma evaluated_in_minutes:
  "0 < evaluated_in ip t (guard_run es g) \<Longrightarrow> t \<in> set (check_minutes ip es)"
proof (induction es arbitrary: g)
  case (Cons e es)
  obtain g' evs where step: "guard_step e g = (g', evs)" by (cases "guard_step e g")
  from Cons.prems have "(\<exists>x \<in> set evs. x = (ip, t)) \<or> 0 < evaluated_in ip t (guard_run es g')"
    by (auto simp: evaluated_in_def step filter_empty_conv)
  then show ?case
  proof
    assume "\<exists>x \<in> set evs. x = (ip, t)"
    with step show ?case by (cases e) (auto split: prod.splits bool.splits option.splits)
  next
    assume "0 < evaluated_in ip t (guard_run es g')"
    from Cons.IH [OF this] show ?case by (cases e) simp_all
  qed
qed (simp add: evaluated_in_def)

lemma guard_minute_bound:
  assumes "CHR ''/'' \<notin> set ip" and "counted ip g f" and "wrong_in_turn ip es g"
    and "sorted (check_minutes ip es)" and "fst (snd f) = 0 \<or> list_all (\<lambda>u. fst f \<le> u) (check_minutes ip es)"
  shows "evaluated_in ip t (guard_run es g) \<le> nat (7 - minute_count t f)"
  using assms(2-)
proof (induction es arbitrary: g f)
  case (Cons e es)
  obtain g' evs where step: "guard_step e g = (g', evs)" by (cases "guard_step e g")
  have rest: "wrong_in_turn ip es g'" using Cons.prems(2) step by (cases e) (simp_all del: guard_step.simps)
  have run: "evaluated_in ip t (guard_run (e # es) g) = evaluated_in ip t evs + evaluated_in ip t (guard_run es g')"
    by (simp add: step evaluated_in_def)
  show ?case
  proof (cases e)
    case (Check c env ip')
    have sort: "sorted (check_minutes ip es)" using Cons.prems(3) Check by (auto split: if_splits)
    from counted_check [OF Cons.prems(1) Cons.prems(2) [unfolded Check] assms(1) step [unfolded Check]]
    have check: "if ip' = ip \<and> evs \<noteq> [] then counted ip g' (bump f (minute env)) \<and> evs = [(ip, minute env)] \<and> snd (snd f) \<le> 30
            \<and> (fst f = minute env \<longrightarrow> fst (snd f) \<le> 6)
         else counted ip g' f \<and> filter (\<lambda>e. fst e = ip) evs = []" .
    show ?thesis
    proof (cases "ip' = ip \<and> evs \<noteq> []")
      case False
      with check have keep: "counted ip g' f" "evaluated_in ip t evs = 0"
        by (auto simp: evaluated_in_def filter_empty_conv)
      have "fst (snd f) = 0 \<or> list_all (\<lambda>u. fst f \<le> u) (check_minutes ip es)" using Cons.prems(4) Check by (auto split: if_splits)
      from Cons.IH [OF keep(1) rest sort this] keep(2) run show ?thesis by simp
    next
      case True
      let ?u = "minute env"
      have new: "counted ip g' (bump f ?u)" "evs = [(ip, ?u)]" "fst f = ?u \<longrightarrow> fst (snd f) \<le> 6"
        using check True by auto
      have ge: "list_all (\<lambda>v. ?u \<le> v) (check_minutes ip es)" using Cons.prems(3) Check True by (simp add: list_all_iff)
      have fst_bump: "fst (bump f ?u) = ?u" by (simp add: bump_def split: prod.split)
      have IH: "evaluated_in ip t (guard_run es g') \<le> nat (7 - minute_count t (bump f ?u))"
        using Cons.IH [OF new(1) rest sort] ge fst_bump by simp
      show ?thesis
      proof (cases "t = ?u")
        case True
        then have "minute_count t (bump f ?u) = minute_count t f + 1" "minute_count t f \<le> 6"
          using new(3) by (auto simp: minute_count_def bump_def split: prod.splits)
        then show ?thesis using IH run new(2) True by (simp add: evaluated_in_def)
      next
        case other: False
        have ev0: "evaluated_in ip t evs = 0" using new(2) other by (simp add: evaluated_in_def)
        show ?thesis
        proof (cases "minute_count t f = 0")
          case True
          have "minute_count t (bump f ?u) = 0" using other fst_bump by (auto simp: minute_count_def split: prod.split)
          with IH ev0 run True show ?thesis by simp
        next
          case False
          then have "fst f = t" "fst (snd f) \<noteq> 0" by (auto simp: minute_count_def split: prod.splits if_splits)
          then have "t \<le> ?u" using Cons.prems(4) Check \<open>ip' = ip \<and> evs \<noteq> []\<close> by simp
          then have "t \<notin> set (check_minutes ip es)" using ge other by (auto simp: list_all_iff)
          then have "evaluated_in ip t (guard_run es g') = 0" using evaluated_in_minutes by blast
          with ev0 run show ?thesis by simp
        qed
      qed
    qed
  next
    case (Update c ok)
    from counted_update [OF Cons.prems(1) Cons.prems(2) [unfolded Update] assms(1) step [unfolded Update]]
    have "counted ip g' f" "evs = []" by simp_all
    with Cons.IH [OF _ rest] Cons.prems(3,4) Update run show ?thesis by (simp add: evaluated_in_def)
  qed
qed (simp add: evaluated_in_def)

text \<open>
  Attempts that overlap escape the bound: the update writes back what its own check has read, plus one, so of any number
  of attempts of an address that have all been checked before the first update, all are evaluated, however many there are,
  and together they count as one.
\<close>

lemma overlapping_checks_pass:
  assumes "check_failure env ip (gd_failures g) = (f, True, msgs)"
  shows "evaluated_from ip (guard_run (map (\<lambda>c. Check c env ip) cs) g) = length cs"
  using assms by (induction cs arbitrary: g) (simp_all add: evaluated_from_def)

lemma overlapping_attempts_count_once:
  assumes "check_failure env ip (gd_failures g) = (f, True, msgs)" and "c \<noteq> d"
  shows "get_failure (gd_failures (fold (\<lambda>e g. fst (guard_step e g)) [Check c env ip, Check d env ip, Update c False, Update d False] g)) ip
    = bump f (minute env)"
  using assms by (simp add: update_failure_self)

subsection \<open>Authorisation\<close>

text \<open>
  What a login step leaves alone: the request, the challenge and the origin of a connection. Password
  validation and the session key depend on nothing else.
\<close>

definition same_login :: "conn \<Rightarrow> conn \<Rightarrow> bool" where
  "same_login c c' \<longleftrightarrow> cn_lr c' = cn_lr c \<and> cn_salt c' = cn_salt c \<and> cn_challenge c' = cn_challenge c
     \<and> cn_from_switch c' = cn_from_switch c"

lemma same_login_validate: "same_login c c' \<Longrightarrow> validate_one_password env c' p = validate_one_password env c p"
  by (simp add: same_login_def validate_one_password_def)

lemma same_login_key: "same_login c c' \<Longrightarrow> conn_session_key c' = conn_session_key c"
  by (simp add: same_login_def conn_session_key_def)

definition live_session :: "login_env \<Rightarrow> login_globals \<Rightarrow> session_key \<Rightarrow> session \<Rightarrow> bool" where
  "live_session env g key s \<longleftrightarrow> hm_get (lg_sessions g) key = Some s \<and> le_now env - se_last_recv_time s < SESSION_TIMEOUT"

lemma recent_session_cases:
  assumes "is_recent_session env c tfa g = (g', b)" and "hm_wf (lg_sessions g)"
  shows "\<exists>m. g' = g\<lparr>lg_sessions := m\<rparr> \<and> hm_wf m \<and> (\<forall>k s. hm_get m k = Some s \<longleftrightarrow> live_session env g k s)"
    and "b \<longleftrightarrow> (\<exists>s. live_session env g (conn_session_key c) s \<and> lr_password (cn_lr c) \<noteq> []
           \<and> (if tfa then se_tfa s else validate_one_password env c (se_random_password s)))"
  using assms
  by (auto simp: is_recent_session_def Let_def live_session_def hmap_simps split: option.splits if_splits)

lemma approve_authorized:
  assumes "approve env c g = (c', g', msgs)" and "\<not> cn_authorized c" and "cn_authorized c'" and "hm_wf (lg_sessions g)"
  shows "same_login c c' \<and> cn_file_transfer c' = cn_file_transfer c \<and> (\<not> cn_require_2fa c \<or> cn_from_switch c
    \<or> (\<exists>s. live_session env g (conn_session_key c) s \<and> se_tfa s))"
proof -
  have "snd (is_recent_session env c True g) \<Longrightarrow> \<exists>s. live_session env g (conn_session_key c) s \<and> se_tfa s"
    using recent_session_cases(2) [OF _ assms(4), of env c True] by (cases "is_recent_session env c True g") auto
  then show ?thesis
    using assms(1-3)
    by (auto simp: approve_def send_logon_response_def same_login_def Let_def split: if_splits prod.splits)
qed

lemma validate_password_cases:
  assumes "validate_password env c g = (g', ok)" and "hm_wf (lg_sessions g)"
  shows "ok \<longleftrightarrow> (temporary_enabled (le_option env) \<and> validate_one_password env c (le_temporary_password env))
      \<or> (permanent_enabled (le_option env) \<and> validate_one_password env c (le_permanent_password env))"
    and "hm_wf (lg_sessions g')"
    and "live_session env g' (conn_session_key c) s \<Longrightarrow> se_tfa s \<Longrightarrow> live_session env g (conn_session_key c) s"
  using assms
  by (auto simp: validate_password_def update_or_insert_session_def live_session_def hmap_simps split: if_splits option.splits)

text \<open>
  The ways to be let in under password approval, seen from the state before the request and the
  connection after it.
\<close>

definition presented_password :: "login_env \<Rightarrow> login_globals \<Rightarrow> conn \<Rightarrow> bool" where
  "presented_password env g c \<longleftrightarrow>
     (temporary_enabled (le_option env) \<and> validate_one_password env c (le_temporary_password env))
   \<or> (permanent_enabled (le_option env) \<and> validate_one_password env c (le_permanent_password env))
   \<or> (\<exists>s. live_session env g (conn_session_key c) s \<and> validate_one_password env c (se_random_password s))"

lemma login_check_authorized:
  assumes "get_approve_mode (le_option env) = ApprovePassword" and "\<not> cn_authorized c" and "hm_wf (lg_sessions g)"
    and "login_check env err c g = ((c', g', msgs), keep)" and "cn_authorized c'"
  shows "same_login c c' \<and> cn_file_transfer c' = cn_file_transfer c
    \<and> (should_auto_approve_file_transfer c (lr_my_id (cn_lr c)) g \<or> presented_password env g c)
    \<and> (\<not> cn_require_2fa c \<or> cn_from_switch c \<or> (\<exists>s. live_session env g (conn_session_key c) s \<and> se_tfa s))"
proof -
  obtain g1 recent where rs: "is_recent_session env c False g = (g1, recent)"
    by (cases "is_recent_session env c False g")
  obtain m where m: "g1 = g\<lparr>lg_sessions := m\<rparr>" "hm_wf m" "\<And>k s. hm_get m k = Some s \<longleftrightarrow> live_session env g k s"
    using recent_session_cases(1) [OF rs assms(3)] by blast
  have live1: "live_session env g1 k s \<longleftrightarrow> live_session env g k s" for k s
    using m(3) [of k s] by (auto simp: live_session_def m(1))
  obtain g2 valid where vp: "validate_password env c g1 = (g2, valid)" by (cases "validate_password env c g1")
  have wf1: "hm_wf (lg_sessions g1)" by (simp add: m(1,2))
  let ?upd = "\<lambda>g0. \<exists>f. g0 = g2\<lparr>lg_failures0 := f\<rparr>"
  have "\<exists>g0. approve env c g0 = (c', g', msgs)
      \<and> (should_auto_approve_file_transfer c (lr_my_id (cn_lr c)) g \<and> g0 = g \<or> recent \<and> g0 = g1 \<or> valid \<and> ?upd g0)"
    using assms(1,2,4,5) rs vp unfolding login_check_def
    by (auto simp: Let_def split: if_splits prod.splits bool.splits)
  then obtain g0 where g0: "approve env c g0 = (c', g', msgs)"
    "should_auto_approve_file_transfer c (lr_my_id (cn_lr c)) g \<and> g0 = g \<or> recent \<and> g0 = g1 \<or> valid \<and> ?upd g0" by blast
  have live0: "live_session env g (conn_session_key c) s" if "live_session env g0 (conn_session_key c) s" "se_tfa s" for s
  proof -
    have "live_session env g0 (conn_session_key c) s = live_session env g2 (conn_session_key c) s" if "?upd g0"
      using that by (auto simp: live_session_def)
    then show ?thesis using g0(2) that live1 validate_password_cases(3) [OF vp wf1, of s] by blast
  qed
  have wf0: "hm_wf (lg_sessions g0)"
    using g0(2) assms(3) wf1 validate_password_cases(2) [OF vp wf1] by auto
  have "presented_password env g c" if "recent \<or> valid"
    using that recent_session_cases(2) [OF rs assms(3)] validate_password_cases(1) [OF vp wf1]
    by (auto simp: presented_password_def)
  then show ?thesis
    using approve_authorized [OF g0(1) assms(2,5) wf0] live0 g0(2) by blast
qed

lemma setup_kind_same:
  assumes "setup_kind env kind c = (c', msgs, ok)"
  shows "same_login c c' \<and> cn_authorized c' = cn_authorized c \<and> cn_require_2fa c' = cn_require_2fa c"
  using assms
  by (auto simp: setup_kind_def setup_terminal_def setup_port_forward_def fill_terminal_user_token_def same_login_def Let_def
      split: login_kind.splits if_splits option.splits)

definition trusted_hwid :: "login_env \<Rightarrow> login_globals \<Rightarrow> login_request \<Rightarrow> bool" where
  "trusted_hwid env g lr \<longleftrightarrow> enable_trusted_devices env \<and>
    (\<exists>d \<in> set (fst (get_trusted_devices (le_td env) (get_time env) (lg_trusted g))).
       td_hwid d = lr_hwid lr \<and> \<not> outdate (get_time env) d \<and> td_id d = lr_my_id lr \<and> td_name d = lr_my_name lr
       \<and> td_platform d = lr_my_platform lr)"

lemma handle_login_request_same:
  assumes "handle_login_request_without_validation env lr c g = (c', g')"
  shows "cn_lr c' = lr \<and> cn_authorized c' = cn_authorized c \<and> cn_from_switch c' = cn_from_switch c"
    and "lg_sessions g' = lg_sessions g \<and> lg_authed g' = lg_authed g"
    and "cn_require_2fa c \<Longrightarrow> cn_require_2fa c' \<or> trusted_hwid env g lr"
proof -
  show "cn_lr c' = lr \<and> cn_authorized c' = cn_authorized c \<and> cn_from_switch c' = cn_from_switch c"
    using assms by (auto simp: handle_login_request_without_validation_def Let_def split: option.splits if_splits prod.splits)
  show "lg_sessions g' = lg_sessions g \<and> lg_authed g' = lg_authed g"
    using assms by (auto simp: handle_login_request_without_validation_def Let_def split: if_splits prod.splits)
  show "cn_require_2fa c' \<or> trusted_hwid env g lr" if "cn_require_2fa c"
  proof -
    obtain devices ts where gt: "get_trusted_devices (le_td env) (get_time env) (lg_trusted g) = (devices, ts)"
      by (cases "get_trusted_devices (le_td env) (get_time env) (lg_trusted g)")
    then show ?thesis
      using assms that
      by (auto simp: handle_login_request_without_validation_def Let_def trusted_hwid_def find_Some_iff
          split: option.splits if_splits)
  qed
qed

subsection \<open>Properties\<close>

text \<open>
  C33. Guessing is bounded as long as attempts do not overlap: from an empty table, of the attempts of one address that are
  all wrong (a right one clears its counters) and that come one after another, each with its update before the check of
  the next, with any attempts of other addresses interleaved, at most 31 are ever evaluated, and at most 7 in any one
  minute while the clock does not go back; all further ones are rejected before the password is looked at.
\<close>

theorem guessing_bounded:
  assumes "CHR ''/'' \<notin> set ip" and "wrong_in_turn ip es guard_new"
  shows "evaluated_from ip (guard_run es guard_new) \<le> 31
    \<and> (sorted (check_minutes ip es) \<longrightarrow> evaluated_in ip t (guard_run es guard_new) \<le> 7)"
proof -
  have "counted ip guard_new (0, 0, 0)"
    by (simp add: counted_def in_flight_def guard_new_def get_failure_def hm_get_def)
  from guard_total_bound [OF assms(1) this assms(2)] guard_minute_bound [OF assms(1) this assms(2), of t]
  show ?thesis by (simp add: minute_count_def)
qed

definition demo_login_env :: login_env where
  "demo_login_env = \<lparr>le_option = (\<lambda>k. if k = ''approve-mode'' then ''password'' else []), le_builtin_option = (\<lambda>_. []),
     le_sha256 = id, le_temporary_password = [], le_permanent_password = [115], le_id = ''123'',
     le_is_ip_str = (\<lambda>_. False), le_is_domain_port_str = (\<lambda>_. False), le_version_ge_1_2_0 = (\<lambda>_. True),
     le_is_logon = False, le_parse_ipv6 = (\<lambda>_. None), le_show_ipv6 = (\<lambda>_. []), le_cidr_contains = (\<lambda>_ _. False),
     le_td = demo_td_env, le_flutter = False, le_service_specified_user = (\<lambda>_. None),
     le_tcp_connect = (\<lambda>_. True), le_in_privacy_mode = False, le_now = 600000\<rparr>"

definition demo_request :: login_request where
  "demo_request = \<lparr>lr_username = ''123'', lr_password = [], lr_my_id = ''peer'', lr_my_name = ''n'',
     lr_my_platform = ''p'', lr_hwid = [], lr_session_id = 1, lr_version = ''1.4.0'', lr_option = None,
     lr_video_ack_required = False, lr_union = KindDefault\<rparr>"

definition demo_login_conn :: "bool \<Rightarrow> conn" where
  "demo_login_conn require_2fa = \<lparr>cn_id = 1, cn_ip = ''10.0.0.1'', cn_salt = [], cn_challenge = [], cn_lr = demo_request,
     cn_authorized = False, cn_require_2fa = require_2fa, cn_from_switch = False, cn_file_transfer = None,
     cn_port_forward_address = [], cn_port_forward_socket = False, cn_view_camera = False, cn_terminal = False,
     cn_terminal_persistent = False, cn_terminal_service_id = [], cn_terminal_user_token = None,
     cn_options_in_login = None, cn_peer_argb = 0, cn_video_ack_required = False\<rparr>"

definition demo_globals :: login_globals where
  "demo_globals = \<lparr>lg_failures0 = [], lg_failures1 = [], lg_sessions = [], lg_authed = [],
     lg_trusted = \<lparr>ts_devices = [], ts_synced = True, ts_config = []\<rparr>\<rparr>"

theorem guessing_bounded_witness:
  "let es = concat (replicate 40 [Check 1 demo_login_env ''10.0.0.1'', Check 2 demo_login_env ''10.0.0.2'', Update 1 False, Update 2 True])
   in evaluated_in ''10.0.0.1'' 10 (guard_run es guard_new) \<le> 7"
proof -
  let ?block = "[Check 1 demo_login_env ''10.0.0.1'', Check 2 demo_login_env ''10.0.0.2'', Update 1 False, Update 2 True]"
  have idle: "gd_pending (fst (guard_step (Update 2 True) (fst (guard_step (Update 1 False) (fst (guard_step (Check 2 demo_login_env ''10.0.0.2'')
      (fst (guard_step (Check 1 demo_login_env ''10.0.0.1'') g)))))))) = Map.empty" if "gd_pending g = Map.empty" for g
    using that by (auto split: prod.split bool.split option.split)
  have "gd_pending g = Map.empty \<Longrightarrow> wrong_in_turn ''10.0.0.1'' (concat (replicate n ?block)) g" for n g
  proof (induction n arbitrary: g)
    case (Suc n)
    with Suc.IH [OF idle [OF Suc.prems]] show ?case
      by (auto simp: in_flight_def split: prod.splits bool.splits if_splits)
  qed simp
  then have "wrong_in_turn ''10.0.0.1'' (concat (replicate 40 ?block)) guard_new" by (simp add: guard_new_def)
  moreover have "check_minutes ''10.0.0.1'' (concat (replicate n ?block)) = replicate n 10" for n
    by (induction n) (simp_all add: minute_def demo_login_env_def)
  then have "sorted (check_minutes ''10.0.0.1'' (concat (replicate 40 ?block)))" by (simp only: sorted_replicate)
  ultimately show ?thesis using guessing_bounded [of "''10.0.0.1''" "concat (replicate 40 ?block)" 10] by (simp add: Let_def)
qed

text \<open>
  C3. Under password approval no login request, of any kind and on any connection, authorises without
  the right password: the connection becomes authorised only if the request answers the challenge with
  the temporary or the permanent password where these are enabled, or with the password of a session of
  the last thirty seconds, or if it is a file transfer for a peer id that already has an authorised
  connection. If two-factor authentication is pending, the connection must moreover come from a
  trusted device that has not expired, from switching sides, or from such a session that passed it.
\<close>

theorem login_requires_password:
  assumes "get_approve_mode (le_option env) = ApprovePassword" and "\<not> cn_authorized c" and "hm_wf (lg_sessions g)"
    and "on_login_request env err lr c g = ((c', g', msgs), keep)" and "cn_authorized c'"
  shows "(presented_password env g c'
      \<or> cn_file_transfer c' \<noteq> None \<and> (\<exists>a \<in> set (lg_authed g). sk_peer_id (ac_session_key a) = lr_my_id lr
          \<and> ac_conn_type a \<in> {AuthRemote, AuthViewCamera, AuthTerminal}))
    \<and> (\<not> cn_require_2fa c \<or> cn_from_switch c \<or> trusted_hwid env g lr
      \<or> (\<exists>s. live_session env g (conn_session_key c') s \<and> se_tfa s))"
proof -
  obtain c1 g1 where h: "handle_login_request_without_validation env lr c g = (c1, g1)"
    by (cases "handle_login_request_without_validation env lr c g")
  note same1 = handle_login_request_same [OF h]
  have c1: "\<not> cn_authorized c1" using same1(1) assms(2) by simp
  obtain c2 msgs2 ok where k: "setup_kind env (lr_union lr) c1 = (c2, msgs2, ok)" by (cases "setup_kind env (lr_union lr) c1")
  note same2 = setup_kind_same [OF k]
  have check: "login_check env err c2 g1 = ((c', g', msgs), keep)"
    using assms(4,5) h c1 k same2 by (auto simp: on_login_request_def split: bool.splits if_splits)
  have live: "live_session env g1 = live_session env g" "presented_password env g1 = presented_password env g"
    using same1(2) by (auto simp: live_session_def presented_password_def fun_eq_iff)
  have "same_login c2 c' \<and> cn_file_transfer c' = cn_file_transfer c2
    \<and> (should_auto_approve_file_transfer c2 (lr_my_id (cn_lr c2)) g1 \<or> presented_password env g c2)
    \<and> (\<not> cn_require_2fa c2 \<or> cn_from_switch c2 \<or> (\<exists>s. live_session env g (conn_session_key c2) s \<and> se_tfa s))"
    using login_check_authorized [OF assms(1) _ _ check assms(5)] same2 c1 same1(2) assms(3) live by simp
  moreover from this have "presented_password env g c' = presented_password env g c2" "conn_session_key c' = conn_session_key c2"
    by (auto simp: presented_password_def same_login_validate same_login_key)
  moreover have "lr_my_id (cn_lr c2) = lr_my_id lr" "cn_from_switch c2 = cn_from_switch c"
    using same1(1) same2 by (auto simp: same_login_def)
  ultimately show ?thesis
    using same1(2,3) same2 by (auto simp: should_auto_approve_file_transfer_def list_ex_iff)
qed

definition demo_password_request :: login_request where
  "demo_password_request = demo_request\<lparr>lr_password := [115]\<rparr>"

lemma demo_password_login:
  "\<exists>c' g' msgs. on_login_request demo_login_env [] demo_password_request (demo_login_conn False) demo_globals
     = ((c', g', msgs), True) \<and> cn_authorized c' \<and> cn_file_transfer c' = None"
proof -
  let ?c = "(demo_login_conn False)\<lparr>cn_lr := demo_password_request, cn_peer_argb := str2color ''peerp'' 0xff\<rparr>"
  have h: "handle_login_request_without_validation demo_login_env demo_password_request (demo_login_conn False) demo_globals
      = (?c, demo_globals)"
    by (simp add: handle_login_request_without_validation_def demo_password_request_def demo_request_def demo_login_conn_def)
  have k: "setup_kind demo_login_env (lr_union demo_password_request) ?c = (?c, [], True)"
    by (simp add: setup_kind_def demo_password_request_def demo_request_def demo_login_env_def)
  have rs: "is_recent_session demo_login_env ?c False demo_globals = (demo_globals, False)"
    by (simp add: is_recent_session_def demo_globals_def hm_retain_def)
  have auto: "\<not> should_auto_approve_file_transfer ?c i demo_globals" for i
    by (simp add: should_auto_approve_file_transfer_def demo_globals_def)
  have mode: "get_approve_mode (le_option demo_login_env) = ApprovePassword"
    by (simp add: get_approve_mode_def demo_login_env_def)
  have user: "lr_username demo_password_request = le_id demo_login_env" "lr_password demo_password_request = [115]"
    "cn_authorized ?c = False" "cn_lr ?c = demo_password_request"
    by (simp_all add: demo_password_request_def demo_login_conn_def demo_request_def demo_login_env_def)
  have cf: "check_failure demo_login_env (cn_ip ?c) (lg_failures0 demo_globals) = ((0, 0, 0), True, [])"
    by (simp add: check_failure_def get_ipv6_prefixes_def demo_login_env_def check_failure_direct_def
        get_failure_def demo_globals_def)
  have vp: "validate_password demo_login_env ?c demo_globals = (demo_globals, True)"
    by (simp add: validate_password_def validate_one_password_def demo_password_request_def demo_login_conn_def
        demo_login_env_def permanent_enabled_def get_verification_method_def)
  have ap: "\<exists>c' g' msgs. approve demo_login_env ?c g0 = (c', g', msgs) \<and> cn_authorized c' \<and> cn_file_transfer c' = None" for g0
    by (simp add: approve_def send_logon_response_def demo_login_conn_def)
  show ?thesis
    unfolding on_login_request_def h prod.case k user
    by (simp only: login_check_def Let_def mode auto rs user cf vp prod.case bool.case) (simp, use ap in blast)
qed

theorem login_requires_password_witness:
  "\<exists>c' g' msgs keep. on_login_request demo_login_env [] demo_password_request (demo_login_conn False) demo_globals
     = ((c', g', msgs), keep) \<and> cn_authorized c' \<and> presented_password demo_login_env demo_globals c'"
proof -
  obtain c' g' msgs keep where run: "on_login_request demo_login_env [] demo_password_request (demo_login_conn False) demo_globals
     = ((c', g', msgs), keep)" "cn_authorized c'" "cn_file_transfer c' = None"
    using demo_password_login by blast
  have "get_approve_mode (le_option demo_login_env) = ApprovePassword"
    by (simp add: get_approve_mode_def demo_login_env_def)
  moreover have "\<not> cn_authorized (demo_login_conn False)" by (simp add: demo_login_conn_def)
  moreover have "hm_wf (lg_sessions demo_globals)" by (simp add: demo_globals_def hm_wf_def)
  ultimately show ?thesis using login_requires_password [OF _ _ _ run(1,2)] run by auto
qed

text \<open>
  C39. A two-factor code is enough on its own: on a connection that has never presented a password, a
  correct code authorises the connection, whatever the approval mode and the passwords are.
\<close>

theorem auth_2fa_without_password:
  assumes "cn_require_2fa c" and "\<not> cn_authorized c"
    and "check_failure env (cn_ip c) (lg_failures1 g) = (failure, True, [])"
  shows "\<exists>c' g' msgs. on_auth_2fa env (Some True) hwid c g = (c', g', msgs) \<and> cn_authorized c'"
  using assms by (simp add: on_auth_2fa_def approve_def send_logon_response_def)

theorem auth_2fa_without_password_witness:
  "\<exists>c' g' msgs. on_auth_2fa demo_login_env (Some True) [] (demo_login_conn True) demo_globals = (c', g', msgs)
     \<and> cn_authorized c' \<and> lr_password (cn_lr (demo_login_conn True)) = []"
proof -
  have "check_failure demo_login_env (cn_ip (demo_login_conn True)) (lg_failures1 demo_globals) = ((0, 0, 0), True, [])"
    by (simp add: check_failure_def get_ipv6_prefixes_def demo_login_env_def check_failure_direct_def
        get_failure_def demo_globals_def)
  then show ?thesis
    using auth_2fa_without_password [of "demo_login_conn True" demo_login_env demo_globals "(0, 0, 0)" "[]"]
    by (auto simp: demo_login_conn_def demo_request_def)
qed

text \<open>
  A file-transfer request is approved on the requester's word: if some authorised connection belongs
  to a peer id, any connection that merely claims this id in its login request is authorised for file
  transfer without a password, in every approval mode, and no failure counter is consulted.
\<close>

theorem file_transfer_trusts_claimed_id:
  assumes "a \<in> set (lg_authed g)" and "ac_conn_type a = AuthRemote"
    and "lr_my_id lr = sk_peer_id (ac_session_key a)" and "lr_union lr = KindFileTransfer dir hidden"
    and "\<not> cn_require_2fa c" and "\<not> cn_authorized c" and "lr_username lr = le_id env"
    and "permission env ''enable-file-transfer''"
  shows "\<exists>c' g' msgs. on_login_request env [] lr c g = ((c', g', msgs), True) \<and> cn_authorized c'
    \<and> lg_failures0 g' = lg_failures0 g"
proof -
  define c1 where "c1 = fst (handle_login_request_without_validation env lr c g)"
  have h: "handle_login_request_without_validation env lr c g = (c1, g)" "cn_lr c1 = lr" "\<not> cn_require_2fa c1" "\<not> cn_authorized c1"
    using assms(5,6) unfolding c1_def
    by (simp_all add: handle_login_request_without_validation_def Let_def split: option.splits)
  have "should_auto_approve_file_transfer (c1\<lparr>cn_file_transfer := Some (dir, hidden)\<rparr>) (lr_my_id lr) g"
    using assms(1-3) by (auto simp: should_auto_approve_file_transfer_def list_ex_iff)
  with h assms(4,7,8) show ?thesis
    by (simp add: on_login_request_def setup_kind_def login_check_def approve_def send_logon_response_def)
qed

definition demo_victim :: authed_conn where
  "demo_victim = \<lparr>ac_conn_id = 9, ac_conn_type = AuthRemote,
     ac_session_key = \<lparr>sk_peer_id = ''peer'', sk_name = ''victim'', sk_session_id = 77\<rparr>\<rparr>"

theorem file_transfer_trusts_claimed_id_witness:
  "\<exists>c' g' msgs. on_login_request demo_login_env [] (demo_request\<lparr>lr_union := KindFileTransfer ''/'' True\<rparr>)
      (demo_login_conn False) (demo_globals\<lparr>lg_authed := [demo_victim]\<rparr>) = ((c', g', msgs), True)
    \<and> cn_authorized c'"
proof -
  have "permission demo_login_env ''enable-file-transfer''"
    by (simp add: permission_def demo_login_env_def option2bool_def starts_with_def)
  then show ?thesis
    using file_transfer_trusts_claimed_id [of demo_victim "demo_globals\<lparr>lg_authed := [demo_victim]\<rparr>"
        "demo_request\<lparr>lr_union := KindFileTransfer ''/'' True\<rparr>" "''/''" True "demo_login_conn False" demo_login_env]
    by (auto simp: demo_victim_def demo_login_conn_def demo_request_def demo_login_env_def)
qed

text \<open>
  When a directory is removed, the removed files directly inside it stay in the pending log: the filter
  compares the directory's parent with the file instead of the file's parent with the directory.
\<close>

lemma remove_dir_keeps_inner_files:
  assumes "f \<in> set (rl_files l)" and "rf_path f = d @ ''/'' @ name" and "CHR ''/'' \<notin> set name"
    and "rd_path dir = d" and "path_parent d \<noteq> Some (rf_path f)"
  shows "f \<in> set (rl_files (fst (on_remove_dir now dir l)))"
  using assms by (simp add: on_remove_dir_def direct_child_def Let_def)

end
