(* ===== verification/Client_Handler.thy ===== *)
theory Client_Handler
  imports Peer_Config Server_Registry Login
begin

text \<open>
  The settings of a session on the controlling side, \<open>LoginConfigHandler\<close> of \<open>src/client.rs\<close>: the configuration of the
  peer in memory and in its file, the options the user toggles with the messages they send, and the login request.
  The state of a session is the handler with the stored configurations and the list of its effects (dialogs,
  messages sent). The clock is fixed for one call. Not kept are the fields for the choice of codecs, which no
  operation here reads.
\<close>

subsection \<open>Data\<close>

text \<open>Where the password that was sent comes from.\<close>

datatype password_source = PersonalAb bytes | SharedAb bytes | Undefined

datatype conn_type = DEFAULT_CONN | FILE_TRANSFER | PORT_FORWARD | RDP | VIEW_CAMERA | TERMINAL

record login_hash =
  lh_salt :: bytes
  lh_challenge :: bytes

record conn_token =
  tk_password :: bytes
  tk_password_source :: password_source
  tk_session_id :: u64

record login_config =
  lc_id :: string
  lc_conn_type :: conn_type
  lc_is_terminal_admin :: bool
  lc_hash :: login_hash
  lc_password :: bytes
  lc_remember :: bool
  lc_config :: peer_config
  lc_port_forward :: "string \<times> i32"
  lc_version :: i64
  lc_features :: "bool option"
  lc_session_id :: u64
  lc_restarting_remote_device :: bool
  lc_force_relay :: bool
  lc_direct :: "bool option"
  lc_received :: bool
  lc_switch_uuid :: "string option"
  lc_other_server :: "(string \<times> string \<times> string) option"
  lc_custom_fps :: "usize option"
  lc_adapter_luid :: "int option"
  lc_selected_windows_session_id :: "nat option"
  lc_password_source :: password_source
  lc_shared_password :: "bytes option"
  lc_record_state :: bool
  lc_record_permission :: bool

text \<open>A login request with all the options and the account of the operating system.\<close>

record client_request = login_request +
  cr_option :: "option_message option"
  cr_os_username :: string
  cr_os_password :: string

datatype client_event = MsgBox string string string string | SendLogin client_request
  | SendSwitchSides bytes client_request | ClearClipboardFiles | SyncPersonalAb string bytes

type_synonym client_state = "login_config \<times> peer_store \<times> client_event list"

text \<open>An address book: its access token and the entries with name and peers (id and base64 of the hashed password).\<close>

type_synonym address_book = "string \<times> (string \<times> (string \<times> string) list) list"

record client_env =
  cl_peer :: peer_env
  cl_now :: int
  cl_sha256 :: "bytes \<Rightarrow> bytes"
  cl_parse_uuid :: "string \<Rightarrow> bytes option"
  cl_parse_token :: "string \<Rightarrow> conn_token option"
  cl_show_token :: "conn_token \<Rightarrow> string option"
  cl_builtin_option :: "string \<Rightarrow> string"
  cl_access_token :: string
  cl_ab :: address_book
  cl_b64_decode :: "string \<Rightarrow> bytes option"
  cl_parse_map :: "string \<Rightarrow> settings option"
  cl_show_map :: "settings \<Rightarrow> string option"
  cl_os_version :: "string \<Rightarrow> string option"
  cl_use_ws :: bool
  cl_is_proxy :: bool
  cl_using_public_server :: bool
  cl_random :: u64
  cl_terminal_admin :: bool
  cl_flutter :: bool
  cl_unix_file_copy_paste :: bool
  cl_my_id :: string
  cl_rendezvous_server :: string
  cl_display_name :: string
  cl_platform :: string
  cl_hwid :: bytes
  cl_version :: string

definition PUBLIC_SERVER :: string where "PUBLIC_SERVER = ''public''"

definition RS_PUB_KEY :: string where "RS_PUB_KEY = ''mzcXkqIjQIqRoukKv3JOIBvLGqPLKdIpH4DkFILnxOo=''"

definition equal_password :: "client_env \<Rightarrow> bytes \<Rightarrow> bytes \<Rightarrow> login_hash \<Rightarrow> bool" where
  "equal_password env password connected_password hash \<longleftrightarrow> connected_password = cl_sha256 env (password @ lh_salt hash)"

definition is_personal_ab :: "password_source \<Rightarrow> bytes \<Rightarrow> bool" where
  "is_personal_ab src password =
    (if password = [] then False else case src of PersonalAb p \<Rightarrow> p = password | _ \<Rightarrow> False)"

definition is_shared_ab :: "client_env \<Rightarrow> password_source \<Rightarrow> bytes \<Rightarrow> login_hash \<Rightarrow> bool" where
  "is_shared_ab env src password hash =
    (if password = [] then False else case src of SharedAb p \<Rightarrow> equal_password env p password hash | _ \<Rightarrow> False)"

subsection \<open>The configuration of the peer\<close>

definition load_config :: "client_env \<Rightarrow> login_config \<Rightarrow> peer_store \<Rightarrow> peer_config \<times> peer_store" where
  "load_config env h ps = peer_load (cl_peer env) (cl_now env) (lc_id h) ps"

definition save_config :: "client_env \<Rightarrow> peer_config \<Rightarrow> client_state \<Rightarrow> client_state" where
  "save_config env c st = (case st of (h, ps, evs) \<Rightarrow>
     (h\<lparr>lc_config := c\<rparr>, store_peer (cl_peer env) (cl_now env) (lc_id h) c ps, evs))"

text \<open>Loading, changing and saving again, which most of the operations do.\<close>

definition with_config :: "client_env \<Rightarrow> (peer_config \<Rightarrow> peer_config) \<Rightarrow> client_state \<Rightarrow> client_state" where
  "with_config env f st = (case st of (h, ps, evs) \<Rightarrow>
     case load_config env h ps of (c, ps) \<Rightarrow> save_config env (f c) (h, ps, evs))"

definition lc_get_option :: "login_config \<Rightarrow> string \<Rightarrow> string" where
  "lc_get_option h k = (case hm_get (pc_options (lc_config h)) k of Some v \<Rightarrow> v | None \<Rightarrow> [])"

definition lc_set_option :: "client_env \<Rightarrow> string \<Rightarrow> string \<Rightarrow> client_state \<Rightarrow> client_state" where
  "lc_set_option env k v st = (case st of (h, ps, evs) \<Rightarrow>
     case load_config env h ps of (c, ps) \<Rightarrow>
       if v = lc_get_option h k then (h, ps, evs)
       else save_config env (c\<lparr>pc_options := hm_insert k v (pc_options c)\<rparr>) (h, ps, evs))"

definition should_auto_login :: "login_config \<Rightarrow> string" where
  "should_auto_login h =
    (let l = pc_lock_after_session_end (lc_config h); a = lc_get_option h ''auto-login'' \<noteq> []; p = lc_get_option h ''os-password'' in
     if p \<noteq> [] \<and> l \<and> a then p else [])"

definition save_view_style :: "client_env \<Rightarrow> string \<Rightarrow> client_state \<Rightarrow> client_state" where
  "save_view_style env v = with_config env (\<lambda>c. c\<lparr>pc_view_style := v\<rparr>)"

definition save_keyboard_mode :: "client_env \<Rightarrow> string \<Rightarrow> client_state \<Rightarrow> client_state" where
  "save_keyboard_mode env v = with_config env (\<lambda>c. c\<lparr>pc_keyboard_mode := v\<rparr>)"

definition save_reverse_mouse_wheel :: "client_env \<Rightarrow> string \<Rightarrow> client_state \<Rightarrow> client_state" where
  "save_reverse_mouse_wheel env v = with_config env (\<lambda>c. c\<lparr>pc_reverse_mouse_wheel := v\<rparr>)"

definition save_displays_as_individual_windows :: "client_env \<Rightarrow> string \<Rightarrow> client_state \<Rightarrow> client_state" where
  "save_displays_as_individual_windows env v = with_config env (\<lambda>c. c\<lparr>pc_displays_as_individual_windows := v\<rparr>)"

definition save_use_all_my_displays :: "client_env \<Rightarrow> string \<Rightarrow> client_state \<Rightarrow> client_state" where
  "save_use_all_my_displays env v = with_config env (\<lambda>c. c\<lparr>pc_use_all_my_displays := v\<rparr>)"

definition save_scroll_style :: "client_env \<Rightarrow> string \<Rightarrow> client_state \<Rightarrow> client_state" where
  "save_scroll_style env v = with_config env (\<lambda>c. c\<lparr>pc_scroll_style := v\<rparr>)"

definition save_edge_scroll_edge_thickness :: "client_env \<Rightarrow> int \<Rightarrow> client_state \<Rightarrow> client_state" where
  "save_edge_scroll_edge_thickness env v = with_config env (\<lambda>c. c\<lparr>pc_edge_scroll_edge_thickness := v\<rparr>)"

definition save_ui_flutter :: "client_env \<Rightarrow> string \<Rightarrow> string \<Rightarrow> client_state \<Rightarrow> client_state" where
  "save_ui_flutter env k v = with_config env (\<lambda>c.
     c\<lparr>pc_ui_flutter := (if v = [] then hm_remove k (pc_ui_flutter c) else hm_insert k v (pc_ui_flutter c))\<rparr>)"

definition get_ui_flutter :: "login_config \<Rightarrow> string \<Rightarrow> string" where
  "get_ui_flutter h k = (case hm_get (pc_ui_flutter (lc_config h)) k of Some v \<Rightarrow> v | None \<Rightarrow> [])"

definition set_direct_failure :: "client_env \<Rightarrow> int \<Rightarrow> client_state \<Rightarrow> client_state" where
  "set_direct_failure env v = with_config env (\<lambda>c. c\<lparr>pc_direct_failures := v\<rparr>)"

definition save_trackpad_speed :: "client_env \<Rightarrow> int \<Rightarrow> client_state \<Rightarrow> client_state" where
  "save_trackpad_speed env v = with_config env (\<lambda>c. c\<lparr>pc_trackpad_speed := v\<rparr>)"

definition get_custom_resolution :: "login_config \<Rightarrow> int \<Rightarrow> (int \<times> int) option" where
  "get_custom_resolution h display = hm_get (pc_custom_resolutions (lc_config h)) (show_int display)"

definition set_custom_resolution :: "client_env \<Rightarrow> int \<Rightarrow> (int \<times> int) option \<Rightarrow> client_state \<Rightarrow> client_state" where
  "set_custom_resolution env display wh = with_config env (\<lambda>c.
     c\<lparr>pc_custom_resolutions := (case wh of
         Some r \<Rightarrow> hm_insert (show_int display) r (pc_custom_resolutions c)
       | None \<Rightarrow> hm_remove (show_int display) (pc_custom_resolutions c))\<rparr>)"

subsection \<open>Options and their messages\<close>

definition get_toggle_option :: "login_config \<Rightarrow> string \<Rightarrow> bool" where
  "get_toggle_option h name =
    (let c = lc_config h in
     if name = ''show-remote-cursor'' then pc_show_remote_cursor c
     else if name = ''lock-after-session-end'' then pc_lock_after_session_end c
     else if name = ''terminal-persistent'' then pc_terminal_persistent c
     else if name = ''privacy-mode'' then pc_privacy_mode c
     else if name = ''enable-file-copy-paste'' then pc_enable_file_copy_paste c
     else if name = ''disable-audio'' then pc_disable_audio c
     else if name = ''disable-clipboard'' then pc_disable_clipboard c
     else if name = ''show-quality-monitor'' then pc_show_quality_monitor c
     else if name = ''allow_swap_key'' then pc_allow_swap_key c
     else if name = ''view-only'' then pc_view_only c
     else if name = ''show-my-cursor'' then pc_show_my_cursor c
     else if name = ''follow-remote-cursor'' then pc_follow_remote_cursor c
     else if name = ''follow-remote-window'' then pc_follow_remote_window c
     else lc_get_option h name \<noteq> [])"

definition bo :: "bool \<Rightarrow> bool_option" where "bo b = (if b then BoYes else BoNo)"

text \<open>
  What a toggle changes in the loaded configuration and puts in the message; \<open>h\<close> is the handler before, whose own
  copy of the configuration is read when the view-only mode ends. \<open>None\<close> is a name that is kept as a plain option.
\<close>

definition toggled :: "login_config \<Rightarrow> string \<Rightarrow> peer_config \<Rightarrow> (peer_config \<times> option_message) option" where
  "toggled h name c =
    (let m = om_default in
     if name = ''show-remote-cursor'' then
       let c = c\<lparr>pc_show_remote_cursor := \<not> pc_show_remote_cursor c\<rparr> in
       Some (c, m\<lparr>om_show_remote_cursor := bo (pc_show_remote_cursor c)\<rparr>)
     else if name = ''follow-remote-cursor'' then
       let c = c\<lparr>pc_follow_remote_cursor := \<not> pc_follow_remote_cursor c\<rparr> in
       Some (c, m\<lparr>om_follow_remote_cursor := bo (pc_follow_remote_cursor c)\<rparr>)
     else if name = ''follow-remote-window'' then
       let c = c\<lparr>pc_follow_remote_window := \<not> pc_follow_remote_window c\<rparr> in
       Some (c, m\<lparr>om_follow_remote_window := bo (pc_follow_remote_window c)\<rparr>)
     else if name = ''disable-audio'' then
       let c = c\<lparr>pc_disable_audio := \<not> pc_disable_audio c\<rparr> in
       Some (c, m\<lparr>om_disable_audio := bo (pc_disable_audio c)\<rparr>)
     else if name = ''disable-clipboard'' then
       let c = c\<lparr>pc_disable_clipboard := \<not> pc_disable_clipboard c\<rparr> in
       Some (c, m\<lparr>om_disable_clipboard := bo (pc_disable_clipboard c)\<rparr>)
     else if name = ''lock-after-session-end'' then
       let c = c\<lparr>pc_lock_after_session_end := \<not> pc_lock_after_session_end c\<rparr> in
       Some (c, m\<lparr>om_lock_after_session_end := bo (pc_lock_after_session_end c)\<rparr>)
     else if name = ''terminal-persistent'' then
       let c = c\<lparr>pc_terminal_persistent := \<not> pc_terminal_persistent c\<rparr> in
       Some (c, m\<lparr>om_terminal_persistent := bo (pc_terminal_persistent c)\<rparr>)
     else if name = ''privacy-mode'' then Some (c, m\<lparr>om_privacy_mode := bo (\<not> pc_privacy_mode c)\<rparr>)
     else if name = ''enable-file-copy-paste'' then
       let c = c\<lparr>pc_enable_file_copy_paste := \<not> pc_enable_file_copy_paste c\<rparr> in
       Some (c, m\<lparr>om_enable_file_transfer := bo (pc_enable_file_copy_paste c)\<rparr>)
     else if name = ''block-input'' then Some (c, m\<lparr>om_block_input := BoYes\<rparr>)
     else if name = ''unblock-input'' then Some (c, m\<lparr>om_block_input := BoNo\<rparr>)
     else if name = ''show-quality-monitor'' then Some (c\<lparr>pc_show_quality_monitor := \<not> pc_show_quality_monitor c\<rparr>, m)
     else if name = ''allow_swap_key'' then Some (c\<lparr>pc_allow_swap_key := \<not> pc_allow_swap_key c\<rparr>, m)
     else if name = ''view-only'' then
       let c = c\<lparr>pc_view_only := \<not> pc_view_only c\<rparr> in
       if pc_view_only c then
         Some (c, m\<lparr>om_disable_keyboard := bo True, om_disable_clipboard := bo True, om_show_remote_cursor := bo True,
                    om_enable_file_transfer := bo False, om_lock_after_session_end := bo False\<rparr>)
       else
         let m = m\<lparr>om_disable_keyboard := bo False,
                   om_disable_clipboard := bo (get_toggle_option h ''disable-clipboard''),
                   om_show_remote_cursor := bo (get_toggle_option h ''show-remote-cursor''),
                   om_enable_file_transfer := bo (pc_enable_file_copy_paste (lc_config h)),
                   om_lock_after_session_end := bo (pc_lock_after_session_end (lc_config h))\<rparr> in
         if pc_show_my_cursor c then Some (c\<lparr>pc_show_my_cursor := False\<rparr>, m\<lparr>om_show_my_cursor := BoNo\<rparr>) else Some (c, m)
     else if name = ''show-my-cursor'' then
       let c = c\<lparr>pc_show_my_cursor := \<not> pc_show_my_cursor c\<rparr> in
       Some (c, m\<lparr>om_show_my_cursor := bo (pc_show_my_cursor c)\<rparr>)
     else None)"

definition toggle_option :: "client_env \<Rightarrow> string \<Rightarrow> client_state \<Rightarrow> option_message option \<times> client_state" where
  "toggle_option env name st = (case st of (h, ps, evs) \<Rightarrow>
     case load_config env h ps of (c, ps) \<Rightarrow>
       (case toggled h name c of
          Some (c, m) \<Rightarrow>
            let evs = (if cl_unix_file_copy_paste env \<and> om_enable_file_transfer m = BoNo then evs @ [ClearClipboardFiles] else evs) in
            (Some m, if \<not> str_contains name ''block-input'' then save_config env c (h, ps, evs) else (h, ps, evs))
        | None \<Rightarrow>
            let cfg = lc_config h; options = pc_options cfg;
                options = (if (case hm_get options name of Some v \<Rightarrow> v \<noteq> [] | None \<Rightarrow> False) then hm_remove name options
                           else hm_insert name ''Y'' options) in
            (None, save_config env (cfg\<lparr>pc_options := options\<rparr>) (h, ps, evs))))"

definition get_image_quality_enum :: "string \<Rightarrow> bool \<Rightarrow> int option" where
  "get_image_quality_enum q ignore_default =
    (if q = ''low'' then Some 2 else if q = ''best'' then Some 4
     else if q = ''balanced'' then (if ignore_default then None else Some 3) else None)"

text \<open>\<open>q << 8\<close> on \<open>i32\<close>.\<close>

definition shl8 :: "int \<Rightarrow> int" where
  "shl8 q = sint (push_bit 8 (word_of_int q :: i32))"

definition message_quality :: "client_env \<Rightarrow> bool \<Rightarrow> client_state \<Rightarrow> option_message \<times> client_state" where
  "message_quality env ignore_default st = (case st of (h, ps, evs) \<Rightarrow>
     let q = pc_image_quality (lc_config h); m = om_default in
     (case get_image_quality_enum q ignore_default of
        Some e \<Rightarrow> (m\<lparr>om_image_quality := Some e\<rparr>, h, ps, evs)
      | None \<Rightarrow>
          if q = ''custom'' then
            case load_config env h ps of (config, ps) \<Rightarrow>
              let allow_more = (\<not> cl_using_public_server env \<or> lc_direct h = Some True);
                  quality = (case pc_custom_image_quality config of
                      [] \<Rightarrow> 50 | x # _ \<Rightarrow> if \<not> allow_more \<and> x > 100 then 50 else x);
                  m = m\<lparr>om_custom_image_quality := shl8 quality\<rparr> in
              (case hm_get (pc_options (lc_config h)) ''custom-fps'' of
                 Some s \<Rightarrow>
                   if cl_flutter env then
                     let fps = unwrap_or (parse_i32 s) 30; fps = (if \<not> allow_more \<and> fps > 30 then 30 else fps) in
                     (m\<lparr>om_custom_fps := fps\<rparr>, h\<lparr>lc_custom_fps := Some (word_of_int fps)\<rparr>, ps, evs)
                   else (m, h, ps, evs)
               | None \<Rightarrow> (m, h, ps, evs))
          else (m, h, ps, evs)))"

text \<open>A field that is only ever set to yes.\<close>

definition yes_if :: "bool \<Rightarrow> ((bool_option \<Rightarrow> bool_option) \<Rightarrow> option_message \<Rightarrow> option_message) \<Rightarrow> option_message \<Rightarrow> option_message" where
  "yes_if b upd m = (if b then upd (\<lambda>_. BoYes) m else m)"

definition message_toggles :: "login_config \<Rightarrow> option_message \<Rightarrow> option_message" where
  "message_toggles h m =
    (let t = get_toggle_option h; view_only = t ''view-only'';
         m = yes_if view_only om_disable_keyboard_update m;
         m = yes_if (view_only \<or> t ''show-remote-cursor'') om_show_remote_cursor_update m;
         m = yes_if (view_only \<and> t ''show-my-cursor'') om_show_my_cursor_update m;
         m = yes_if (t ''follow-remote-cursor'') om_follow_remote_cursor_update m;
         m = yes_if (t ''follow-remote-window'') om_follow_remote_window_update m;
         m = yes_if (\<not> view_only \<and> t ''lock-after-session-end'') om_lock_after_session_end_update m;
         m = yes_if (t ''disable-audio'') om_disable_audio_update m;
         m = yes_if (\<not> view_only \<and> t ''enable-file-copy-paste'') om_enable_file_transfer_update m;
         m = yes_if (view_only \<or> t ''disable-clipboard'') om_disable_clipboard_update m in
     m\<lparr>om_supported_decoding := True\<rparr>)"

definition get_option_message :: "client_env \<Rightarrow> bool \<Rightarrow> client_state \<Rightarrow> option_message option \<times> client_state" where
  "get_option_message env ignore_default st = (case st of (h, ps, evs) \<Rightarrow>
     if lc_conn_type h = PORT_FORWARD \<or> lc_conn_type h = RDP \<or> lc_conn_type h = FILE_TRANSFER then (None, st)
     else if lc_conn_type h = TERMINAL then
       (if get_toggle_option h ''terminal-persistent'' then Some (om_default\<lparr>om_terminal_persistent := BoYes\<rparr>) else None, st)
     else case message_quality env ignore_default st of (m, h, ps, evs) \<Rightarrow> (Some (message_toggles h m), h, ps, evs))"

definition is_privacy_mode_supported :: "login_config \<Rightarrow> bool" where
  "is_privacy_mode_supported h = (case lc_features h of Some b \<Rightarrow> b | None \<Rightarrow> False)"

definition save_custom_image_quality :: "client_env \<Rightarrow> int \<Rightarrow> client_state \<Rightarrow> option_message \<times> client_state" where
  "save_custom_image_quality env image_quality st =
     (om_default\<lparr>om_custom_image_quality := shl8 image_quality\<rparr>,
      with_config env (\<lambda>c. c\<lparr>pc_image_quality := ''custom'', pc_custom_image_quality := [image_quality]\<rparr>) st)"

definition save_image_quality :: "client_env \<Rightarrow> string \<Rightarrow> client_state \<Rightarrow> option_message option \<times> client_state" where
  "save_image_quality env v st =
     (map_option (\<lambda>q. om_default\<lparr>om_image_quality := Some q\<rparr>) (get_image_quality_enum v False),
      with_config env (\<lambda>c. c\<lparr>pc_image_quality := v\<rparr>) st)"

definition set_custom_fps :: "client_env \<Rightarrow> int \<Rightarrow> bool \<Rightarrow> client_state \<Rightarrow> option_message \<times> client_state" where
  "set_custom_fps env fps save st =
    (let st = (if save then with_config env (\<lambda>c. c\<lparr>pc_options := hm_insert ''custom-fps'' (show_int fps) (pc_options c)\<rparr>) st else st) in
     (om_default\<lparr>om_custom_fps := fps\<rparr>, case st of (h, ps, evs) \<Rightarrow> (h\<lparr>lc_custom_fps := Some (word_of_int fps)\<rparr>, ps, evs)))"

subsection \<open>What the file keeps\<close>

text \<open>The switches of a configuration, which neither encryption nor the checks of a loaded record change.\<close>

definition switches :: "peer_config \<Rightarrow> bool list" where
  "switches c =
     [pc_show_remote_cursor c, pc_lock_after_session_end c, pc_disable_audio c, pc_disable_clipboard c,
      pc_enable_file_copy_paste c, pc_follow_remote_cursor c, pc_follow_remote_window c, pc_view_only c, pc_show_my_cursor c]"

lemma switches_encrypt [simp]: "switches (peer_encrypt co c) = switches c"
  by (simp add: switches_def peer_encrypt_def)

lemma switches_deserialize [simp]: "switches (peer_deserialize env c) = switches c"
  by (simp add: switches_def peer_deserialize_def)

lemma switches_password [simp]: "switches (c\<lparr>pc_password := p\<rparr>) = switches c"
  by (simp add: switches_def)

lemma switches_options [simp]: "switches (c\<lparr>pc_options := m\<rparr>) = switches c"
  by (simp add: switches_def)

lemma switches_load_raw:
  "hm_get (pr_dir s) (peer_path env i) = Some (t, Some raw) \<Longrightarrow> switches (fst (peer_load env now i s)) = switches raw"
  by (auto simp: peer_load_def Let_def split: prod.split)

lemma switches_load_store:
  "pe_writes env \<Longrightarrow> switches (fst (peer_load env now i (store_peer env now' i c s))) = switches c"
  by (subst switches_load_raw [where raw = "peer_encrypt (pe_crypto env) c" and t = now']) (simp_all add: store_peer_def hm_get_insert)

lemma peer_load_cases:
  obtains "snd (peer_load env now i s) = s"
  | "snd (peer_load env now i s) = store_peer env now i (fst (peer_load env now i s)) s"
  by (cases "snd (peer_load env now i s) = s") (auto simp: peer_load_def Let_def split: option.splits prod.splits if_splits)

lemma switches_reload:
  "pe_writes env \<Longrightarrow> switches (fst (peer_load env now' i (snd (peer_load env now i s)))) = switches (fst (peer_load env now i s))"
proof (rule peer_load_cases [of env now i s])
  assume *: "snd (peer_load env now i s) = s"
  show ?thesis unfolding * by (cases "hm_get (pr_dir s) (peer_path env i)") (auto simp: peer_load_def Let_def split: prod.split option.split)
qed (simp add: switches_load_store)

subsection \<open>Both sides of the options\<close>

text \<open>The effect of an option message on the permissions of the connection, as one update.\<close>

definition field_or :: "bool_option \<Rightarrow> bool \<Rightarrow> bool" where
  "field_or q b = unwrap_or (bo_val q) b"

definition apply_options :: "reg_env \<Rightarrow> option_message \<Rightarrow> perm \<Rightarrow> perm" where
  "apply_options env m p =
     p\<lparr>pm_lock_after_session_end := field_or (om_lock_after_session_end m) (pm_lock_after_session_end p),
       pm_show_remote_cursor := field_or (om_show_remote_cursor m) (pm_show_remote_cursor p),
       pm_follow_remote_cursor := field_or (om_follow_remote_cursor m) (pm_follow_remote_cursor p),
       pm_follow_remote_window := field_or (om_follow_remote_window m) (pm_follow_remote_window p),
       pm_disable_audio := field_or (om_disable_audio m) (pm_disable_audio p),
       pm_enable_file_transfer :=
         (if rg_file_copy env then field_or (om_enable_file_transfer m) (pm_enable_file_transfer p) else pm_enable_file_transfer p),
       pm_disable_clipboard := field_or (om_disable_clipboard m) (pm_disable_clipboard p),
       pm_disable_keyboard := field_or (om_disable_keyboard m) (pm_disable_keyboard p),
       pm_terminal_persistent := field_or (om_terminal_persistent m) (pm_terminal_persistent p),
       pm_show_my_cursor := field_or (om_show_my_cursor m) (pm_show_my_cursor p)\<rparr>"

lemma field_or_simps [simp]: "field_or NotSet b = b" "field_or (bo x) b = x" "field_or BoYes b = True" "field_or BoNo b = False"
  by (simp_all add: field_or_def bo_def bo_val_def unwrap_or_def)

lemma on_field_update:
  assumes "\<And>b p s evs. fst (f b (p, s, evs)) = upd (\<lambda>_. b) p" and "\<And>p. upd (\<lambda>_. g p) p = p"
  shows "fst (on_field q f st) = upd (\<lambda>_. field_or q (g (fst st))) (fst st)"
  using assms by (cases st) (simp add: on_field_def field_or_def unwrap_or_def split: option.split)

lemmas opt_defs = opt_lock_def opt_show_remote_cursor_def opt_follow_remote_cursor_def opt_follow_remote_window_def
  opt_disable_audio_def opt_enable_file_transfer_def opt_disable_clipboard_def opt_disable_keyboard_def opt_privacy_def
  opt_block_input_def opt_terminal_persistent_def opt_show_my_cursor_def

lemma opt_fst:
  "fst (opt_quality m st) = fst st"
  "fst (on_field q opt_lock st) = fst st\<lparr>pm_lock_after_session_end := field_or q (pm_lock_after_session_end (fst st))\<rparr>"
  "fst (on_field q opt_show_remote_cursor st) = fst st\<lparr>pm_show_remote_cursor := field_or q (pm_show_remote_cursor (fst st))\<rparr>"
  "fst (on_field q opt_follow_remote_cursor st) = fst st\<lparr>pm_follow_remote_cursor := field_or q (pm_follow_remote_cursor (fst st))\<rparr>"
  "fst (on_field q opt_follow_remote_window st) = fst st\<lparr>pm_follow_remote_window := field_or q (pm_follow_remote_window (fst st))\<rparr>"
  "fst (on_field q opt_disable_audio st) = fst st\<lparr>pm_disable_audio := field_or q (pm_disable_audio (fst st))\<rparr>"
  "fst (on_field q (opt_enable_file_transfer env) st) = fst st\<lparr>pm_enable_file_transfer :=
      if rg_file_copy env then field_or q (pm_enable_file_transfer (fst st)) else pm_enable_file_transfer (fst st)\<rparr>"
  "fst (on_field q (opt_disable_clipboard env) st) = fst st\<lparr>pm_disable_clipboard := field_or q (pm_disable_clipboard (fst st))\<rparr>"
  "fst (on_field q (opt_disable_keyboard env) st) = fst st\<lparr>pm_disable_keyboard := field_or q (pm_disable_keyboard (fst st))\<rparr>"
  "fst (on_field q opt_privacy st) = fst st"
  "fst (on_field q opt_block_input st) = fst st"
  "fst (on_field q opt_terminal_persistent st) = fst st\<lparr>pm_terminal_persistent := field_or q (pm_terminal_persistent (fst st))\<rparr>"
  "fst (on_field q (opt_show_my_cursor env) st) = fst st\<lparr>pm_show_my_cursor := field_or q (pm_show_my_cursor (fst st))\<rparr>"
         apply (cases st, simp add: opt_quality_def)
  by (rule on_field_update; simp add: opt_defs Let_def)+

lemma update_options_fst: "fst (update_options env older m st) = apply_options env m (fst st)"
  by (simp add: update_options_def Let_def opt_fst apply_options_def)

text \<open>The controlled side has what the configuration of the controlling side asks for.\<close>

definition synced :: "reg_env \<Rightarrow> peer_config \<Rightarrow> perm \<Rightarrow> bool" where
  "synced env c p \<longleftrightarrow>
     pm_disable_keyboard p = pc_view_only c
   \<and> pm_disable_clipboard p = (pc_view_only c \<or> pc_disable_clipboard c)
   \<and> pm_show_remote_cursor p = (pc_view_only c \<or> pc_show_remote_cursor c)
   \<and> (rg_file_copy env \<longrightarrow> pm_enable_file_transfer p = (\<not> pc_view_only c \<and> pc_enable_file_copy_paste c))
   \<and> pm_lock_after_session_end p = (\<not> pc_view_only c \<and> pc_lock_after_session_end c)
   \<and> pm_disable_audio p = pc_disable_audio c
   \<and> pm_follow_remote_cursor p = pc_follow_remote_cursor c
   \<and> pm_follow_remote_window p = pc_follow_remote_window c"

text \<open>A toggle that the view-only mode does not override.\<close>

definition free_toggle :: "peer_config \<Rightarrow> string \<Rightarrow> bool" where
  "free_toggle c name \<longleftrightarrow> pc_view_only c \<longrightarrow>
     name \<notin> {''disable-clipboard'', ''show-remote-cursor'', ''enable-file-copy-paste'', ''lock-after-session-end''}"

text \<open>The cases of a toggle that concern the controlled side; the others leave the switches and the message alone.\<close>

lemma toggled_cases:
  assumes "toggled h name c = Some (c', m)"
  obtains "name = ''show-remote-cursor''" "c' = c\<lparr>pc_show_remote_cursor := \<not> pc_show_remote_cursor c\<rparr>"
      "m = om_default\<lparr>om_show_remote_cursor := bo (\<not> pc_show_remote_cursor c)\<rparr>"
  | "c' = c\<lparr>pc_follow_remote_cursor := \<not> pc_follow_remote_cursor c\<rparr>"
      "m = om_default\<lparr>om_follow_remote_cursor := bo (\<not> pc_follow_remote_cursor c)\<rparr>"
  | "c' = c\<lparr>pc_follow_remote_window := \<not> pc_follow_remote_window c\<rparr>"
      "m = om_default\<lparr>om_follow_remote_window := bo (\<not> pc_follow_remote_window c)\<rparr>"
  | "c' = c\<lparr>pc_disable_audio := \<not> pc_disable_audio c\<rparr>" "m = om_default\<lparr>om_disable_audio := bo (\<not> pc_disable_audio c)\<rparr>"
  | "name = ''disable-clipboard''" "c' = c\<lparr>pc_disable_clipboard := \<not> pc_disable_clipboard c\<rparr>"
      "m = om_default\<lparr>om_disable_clipboard := bo (\<not> pc_disable_clipboard c)\<rparr>"
  | "name = ''lock-after-session-end''" "c' = c\<lparr>pc_lock_after_session_end := \<not> pc_lock_after_session_end c\<rparr>"
      "m = om_default\<lparr>om_lock_after_session_end := bo (\<not> pc_lock_after_session_end c)\<rparr>"
  | "name = ''enable-file-copy-paste''" "c' = c\<lparr>pc_enable_file_copy_paste := \<not> pc_enable_file_copy_paste c\<rparr>"
      "m = om_default\<lparr>om_enable_file_transfer := bo (\<not> pc_enable_file_copy_paste c)\<rparr>"
  | "\<not> pc_view_only c" "c' = c\<lparr>pc_view_only := True\<rparr>"
      "m = om_default\<lparr>om_disable_keyboard := bo True, om_disable_clipboard := bo True, om_show_remote_cursor := bo True,
             om_enable_file_transfer := bo False, om_lock_after_session_end := bo False\<rparr>"
  | q x where "pc_view_only c" "c' = c\<lparr>pc_view_only := False, pc_show_my_cursor := x\<rparr>"
      "m = om_default\<lparr>om_disable_keyboard := bo False, om_disable_clipboard := bo (pc_disable_clipboard (lc_config h)),
             om_show_remote_cursor := bo (pc_show_remote_cursor (lc_config h)),
             om_enable_file_transfer := bo (pc_enable_file_copy_paste (lc_config h)),
             om_lock_after_session_end := bo (pc_lock_after_session_end (lc_config h)), om_show_my_cursor := q\<rparr>"
  | x y z v q1 q2 q3 q4 where
      "c' = c\<lparr>pc_show_my_cursor := x, pc_terminal_persistent := y, pc_show_quality_monitor := z, pc_allow_swap_key := v\<rparr>"
      "m = om_default\<lparr>om_terminal_persistent := q1, om_privacy_mode := q2, om_block_input := q3, om_show_my_cursor := q4\<rparr>"
proof -
  consider "name = ''show-remote-cursor''" | "name = ''follow-remote-cursor''" | "name = ''follow-remote-window''"
    | "name = ''disable-audio''" | "name = ''disable-clipboard''" | "name = ''lock-after-session-end''"
    | "name = ''enable-file-copy-paste''" | "name = ''view-only''" "\<not> pc_view_only c" | "name = ''view-only''" "pc_view_only c"
    | "name \<in> {''terminal-persistent'', ''privacy-mode'', ''block-input'', ''unblock-input'', ''show-quality-monitor'',
        ''allow_swap_key'', ''show-my-cursor''}"
    using assms by (simp add: toggled_def split: if_splits) blast+
  then show thesis
  proof cases
    case 1 with assms that(1) show thesis by (simp add: toggled_def)
  next
    case 2 with assms that(2) show thesis by (simp add: toggled_def)
  next
    case 3 with assms that(3) show thesis by (simp add: toggled_def)
  next
    case 4 with assms that(4) show thesis by (simp add: toggled_def)
  next
    case 5 with assms that(5) show thesis by (simp add: toggled_def)
  next
    case 6 with assms that(6) show thesis by (simp add: toggled_def)
  next
    case 7 with assms that(7) show thesis by (simp add: toggled_def)
  next
    case 8 with assms that(8) show thesis by (simp add: toggled_def)
  next
    case 9 with assms show thesis
      by (intro that(9) [where x = "pc_show_my_cursor c'" and q = "om_show_my_cursor m"])
         (auto simp: toggled_def get_toggle_option_def om_default_def Let_def split: if_splits)
  next
    case 10 with assms show thesis
      by (intro that(10) [where x = "pc_show_my_cursor c'" and y = "pc_terminal_persistent c'"
            and z = "pc_show_quality_monitor c'" and v = "pc_allow_swap_key c'" and ?q1.0 = "om_terminal_persistent m"
            and ?q2.0 = "om_privacy_mode m" and ?q3.0 = "om_block_input m" and ?q4.0 = "om_show_my_cursor m"])
         (auto simp: toggled_def om_default_def)
  qed
qed

lemma toggled_synced:
  assumes "synced env (lc_config h) p" and "switches c = switches (lc_config h)" and "free_toggle (lc_config h) name"
    and "toggled h name c = Some (c', m)"
  shows "synced env c' (apply_options env m p)"
  using assms(4) assms(1-3)
  by (cases rule: toggled_cases) (simp_all add: synced_def free_toggle_def apply_options_def switches_def om_default_def)

text \<open>
  A clipboard that the configuration disables is enabled on the controlled side by its toggle in view-only mode: the
  message follows the toggle alone.
\<close>

lemma view_only_clipboard_toggle:
  assumes "pc_view_only (lc_config h)" and "pc_disable_clipboard (lc_config h)"
  shows "\<exists>c' m. toggled h ''disable-clipboard'' (lc_config h) = Some (c', m) \<and> \<not> synced env c' (apply_options env m p)"
  using assms by (simp add: toggled_def synced_def apply_options_def om_default_def)

text \<open>A toggle of the user, with the message handled by the peer's connection.\<close>

definition toggle_step :: "client_env \<Rightarrow> reg_env \<Rightarrow> bool \<Rightarrow> string \<Rightarrow> client_state \<times> 'm conn_state \<Rightarrow> client_state \<times> 'm conn_state" where
  "toggle_step env renv older name x = (case x of (st, sst) \<Rightarrow>
     case toggle_option env name st of (m, st) \<Rightarrow>
       (st, case m of Some m \<Rightarrow> update_options renv older m sst | None \<Rightarrow> sst))"

fun toggles_free :: "client_env \<Rightarrow> string list \<Rightarrow> client_state \<Rightarrow> bool" where
  "toggles_free env [] st = True"
| "toggles_free env (name # names) st =
     (free_toggle (lc_config (fst st)) name \<and> toggles_free env names (snd (toggle_option env name st)))"

definition file_agrees :: "client_env \<Rightarrow> client_state \<Rightarrow> bool" where
  "file_agrees env st = (case st of (h, ps, _) \<Rightarrow> switches (fst (load_config env h ps)) = switches (lc_config h))"

lemma save_config_agrees: "pe_writes (cl_peer env) \<Longrightarrow> file_agrees env (save_config env c st)"
  by (cases st) (simp add: save_config_def file_agrees_def load_config_def switches_load_store)

lemma synced_switches: "switches c = switches c' \<Longrightarrow> synced env c p = synced env c' p"
  by (simp add: synced_def switches_def)

lemma toggled_block: "toggled h name c = Some (c', m) \<Longrightarrow> str_contains name ''block-input'' \<Longrightarrow> c' = c"
  by (auto simp: toggled_def str_contains_def upt_rec Let_def split: if_splits)

lemma toggle_step_synced:
  assumes "pe_writes (cl_peer env)" and "file_agrees env st" and "synced renv (lc_config (fst st)) (fst sst)"
    and "free_toggle (lc_config (fst st)) name" and "toggle_step env renv older name (st, sst) = (st', sst')"
  shows "file_agrees env st' \<and> synced renv (lc_config (fst st')) (fst sst')"
proof -
  obtain h ps evs where st: "st = (h, ps, evs)" by (cases st) auto
  obtain c ps' where c: "load_config env h ps = (c, ps')" by fastforce
  have sw: "switches c = switches (lc_config h)" using assms(2) by (simp add: file_agrees_def st c)
  have re: "switches (fst (load_config env h ps')) = switches c"
    using switches_reload [OF assms(1), of "cl_now env" "lc_id h" "cl_now env" ps] c by (simp add: load_config_def)
  show ?thesis
  proof (cases "toggled h name c")
    case None
    then have "switches (lc_config (fst st')) = switches (lc_config h)" "sst' = sst" "file_agrees env st'"
      using assms(5) save_config_agrees [OF assms(1)]
      by (auto simp: toggle_step_def toggle_option_def st c save_config_def Let_def)
    then show ?thesis using assms(3) synced_switches [of "lc_config (fst st')" "lc_config h"] by (simp add: st)
  next
    case (Some r)
    obtain c' m where r: "r = (c', m)" by (cases r)
    have sy: "synced renv c' (apply_options renv m (fst sst))"
      using toggled_synced [OF _ sw] assms(3,4) Some by (simp add: st r)
    have sst': "fst sst' = apply_options renv m (fst sst)"
      using assms(5) by (auto simp: toggle_step_def toggle_option_def st c Some r update_options_fst Let_def)
    show ?thesis
    proof (cases "str_contains name ''block-input''")
      case False
      then show ?thesis using assms(5) sy sst' save_config_agrees [OF assms(1)]
        by (auto simp: toggle_step_def toggle_option_def st c Some r Let_def save_config_def)
    next
      case True
      then have *: "fst st' = h" "fst (snd st') = ps'" "c' = c"
        using assms(5) Some toggled_block [of h name c c' m] by (auto simp: toggle_step_def toggle_option_def st c r Let_def)
      have "file_agrees env st'" using re sw * by (cases st') (simp add: file_agrees_def)
      then show ?thesis using sy sst' * synced_switches [OF sw] by simp
    qed
  qed
qed

lemma toggles_synced:
  assumes "pe_writes (cl_peer env)"
  shows "\<lbrakk>file_agrees env st; synced renv (lc_config (fst st)) (fst sst); toggles_free env names st;
    fold (toggle_step env renv older) names (st, sst) = (st', sst')\<rbrakk> \<Longrightarrow> synced renv (lc_config (fst st')) (fst sst')"
proof (induction names arbitrary: st sst)
  case (Cons name names)
  obtain st1 sst1 where 1: "toggle_step env renv older name (st, sst) = (st1, sst1)" by (cases "toggle_step env renv older name (st, sst)")
  then have "snd (toggle_option env name st) = st1" by (auto simp: toggle_step_def split: prod.splits)
  with Cons.prems 1 toggle_step_synced [OF assms Cons.prems(1,2) _ 1] show ?case by (intro Cons.IH [of st1 sst1]) simp_all
qed simp

lemma yes_if_same: "(\<And>m. sel (upd (\<lambda>_. BoYes) m) = BoYes) \<Longrightarrow> sel (yes_if b upd m) = (if b then BoYes else sel m)"
  by (simp add: yes_if_def)

lemma yes_if_other: "(\<And>m. sel (upd (\<lambda>_. BoYes) m) = sel m) \<Longrightarrow> sel (yes_if b upd m) = sel m"
  by (simp add: yes_if_def)

lemmas yes_if_simps =
  yes_if_same [where sel = om_disable_keyboard and upd = om_disable_keyboard_update]
  yes_if_other [where sel = om_disable_keyboard]
  yes_if_same [where sel = om_show_remote_cursor and upd = om_show_remote_cursor_update]
  yes_if_other [where sel = om_show_remote_cursor]
  yes_if_same [where sel = om_follow_remote_cursor and upd = om_follow_remote_cursor_update]
  yes_if_other [where sel = om_follow_remote_cursor]
  yes_if_same [where sel = om_follow_remote_window and upd = om_follow_remote_window_update]
  yes_if_other [where sel = om_follow_remote_window]
  yes_if_same [where sel = om_lock_after_session_end and upd = om_lock_after_session_end_update]
  yes_if_other [where sel = om_lock_after_session_end]
  yes_if_same [where sel = om_disable_audio and upd = om_disable_audio_update]
  yes_if_other [where sel = om_disable_audio]
  yes_if_same [where sel = om_enable_file_transfer and upd = om_enable_file_transfer_update]
  yes_if_other [where sel = om_enable_file_transfer]
  yes_if_same [where sel = om_disable_clipboard and upd = om_disable_clipboard_update]
  yes_if_other [where sel = om_disable_clipboard]

lemma message_toggles_fields:
  "om_disable_keyboard (message_toggles h m) = (if pc_view_only (lc_config h) then BoYes else om_disable_keyboard m)"
  "om_show_remote_cursor (message_toggles h m) = (if pc_view_only (lc_config h) \<or> pc_show_remote_cursor (lc_config h) then BoYes else om_show_remote_cursor m)"
  "om_follow_remote_cursor (message_toggles h m) = (if pc_follow_remote_cursor (lc_config h) then BoYes else om_follow_remote_cursor m)"
  "om_follow_remote_window (message_toggles h m) = (if pc_follow_remote_window (lc_config h) then BoYes else om_follow_remote_window m)"
  "om_lock_after_session_end (message_toggles h m) = (if \<not> pc_view_only (lc_config h) \<and> pc_lock_after_session_end (lc_config h) then BoYes else om_lock_after_session_end m)"
  "om_disable_audio (message_toggles h m) = (if pc_disable_audio (lc_config h) then BoYes else om_disable_audio m)"
  "om_enable_file_transfer (message_toggles h m) = (if \<not> pc_view_only (lc_config h) \<and> pc_enable_file_copy_paste (lc_config h) then BoYes else om_enable_file_transfer m)"
  "om_disable_clipboard (message_toggles h m) = (if pc_view_only (lc_config h) \<or> pc_disable_clipboard (lc_config h) then BoYes else om_disable_clipboard m)"
  by (simp_all add: message_toggles_def Let_def get_toggle_option_def yes_if_simps)

text \<open>The fields of a message that are not about quality are left unset by the first part of the login options.\<close>

lemma message_quality_unset:
  assumes "message_quality env ig st = (m, st')"
  shows "m\<lparr>om_image_quality := Some 0, om_custom_image_quality := 0, om_custom_fps := 0\<rparr> = om_default"
  using assms by (cases st) (auto simp: message_quality_def om_default_def Let_def split: option.splits if_splits prod.splits list.splits)

text \<open>The options of a connection before the peer has sent any.\<close>

definition fresh_perm :: "perm \<Rightarrow> bool" where
  "fresh_perm p \<longleftrightarrow> \<not> pm_disable_keyboard p \<and> \<not> pm_disable_clipboard p \<and> \<not> pm_show_remote_cursor p \<and> \<not> pm_enable_file_transfer p
     \<and> \<not> pm_lock_after_session_end p \<and> \<not> pm_disable_audio p \<and> \<not> pm_follow_remote_cursor p \<and> \<not> pm_follow_remote_window p"

lemma message_unset_fields:
  assumes "m\<lparr>om_image_quality := Some 0, om_custom_image_quality := 0, om_custom_fps := 0\<rparr> = om_default"
  shows "om_disable_keyboard m = NotSet" "om_show_remote_cursor m = NotSet" "om_follow_remote_cursor m = NotSet"
    "om_follow_remote_window m = NotSet" "om_lock_after_session_end m = NotSet" "om_disable_audio m = NotSet"
    "om_enable_file_transfer m = NotSet" "om_disable_clipboard m = NotSet"
  using assms by (cases m; simp add: om_default_def)+

lemma field_or_if: "field_or (if b then BoYes else NotSet) False = b"
  by simp

lemma message_quality_keeps:
  assumes "message_quality env ig (h, ps, evs) = (m, h', ps', evs')"
  shows "h' = h\<lparr>lc_custom_fps := lc_custom_fps h'\<rparr> \<and> (ps' = ps \<or> ps' = snd (load_config env h ps)) \<and> evs' = evs"
  using assms by (auto simp: message_quality_def Let_def split: option.splits if_splits prod.splits)

lemma option_message_keeps:
  assumes "get_option_message env ig (h, ps, evs) = (m, h', ps', evs')"
  shows "h' = h\<lparr>lc_custom_fps := lc_custom_fps h'\<rparr> \<and> (ps' = ps \<or> ps' = snd (load_config env h ps)) \<and> evs' = evs"
  using assms message_quality_keeps [of env ig h ps evs] by (auto simp: get_option_message_def split: if_splits prod.splits)

lemma login_message_synced:
  assumes "fresh_perm p" and "lc_conn_type h = DEFAULT_CONN" and "get_option_message env ig (h, ps, evs) = (Some m, st)"
  shows "synced renv (lc_config (fst st)) (apply_options renv m p) \<and> lc_config (fst st) = lc_config h"
proof -
  obtain m0 st0 where q: "message_quality env ig (h, ps, evs) = (m0, st0)" by (cases "message_quality env ig (h, ps, evs)")
  have "lc_config (fst st0) = lc_config h"
    using q by (auto simp: message_quality_def Let_def split: option.splits if_splits prod.splits list.splits)
  moreover have "m = message_toggles (fst st0) m0 \<and> st = st0"
    using assms(2,3) q by (auto simp: get_option_message_def split: prod.splits)
  ultimately show ?thesis using assms(1)
    by (simp add: synced_def apply_options_def fresh_perm_def message_toggles_fields message_unset_fields [OF message_quality_unset [OF q]])
qed

text \<open>
  C5. Both sides agree on the options: from the options in the login request on, after any sequence of toggles in which
  the clipboard, the remote cursor, the copying of files and the lock at the end are not toggled while view-only mode is
  on, each toggle followed by the peer's handling of its message, the controlled side has the keyboard, clipboard, audio,
  cursor, file and lock settings that the configuration of the controlling side asks for, view-only mode included. The
  restriction is needed (lemma \<open>view_only_clipboard_toggle\<close>).
\<close>

theorem options_stay_synced:
  fixes s :: "'m server"
  assumes "pe_writes (cl_peer env)" and "load_config env h ps0 = (lc_config h, ps)" and "lc_conn_type h = DEFAULT_CONN"
    and "fresh_perm p" and "get_option_message env True (h, ps, evs) = (Some m, st)" and "toggles_free env names st"
    and "fold (toggle_step env renv older) names (st, update_options renv older m (p, s, [])) = (st', p', s', evs')"
  shows "synced renv (lc_config (fst st')) p'"
proof -
  have re: "switches (fst (load_config env h (snd (load_config env h x)))) = switches (fst (load_config env h x))" for x
    unfolding load_config_def by (rule switches_reload [OF assms(1)])
  obtain h1 ps1 evs1 where st: "st = (h1, ps1, evs1)" by (cases st)
  have keeps: "h1 = h\<lparr>lc_custom_fps := lc_custom_fps h1\<rparr>" "ps1 = ps \<or> ps1 = snd (load_config env h ps)"
    using option_message_keeps [OF assms(5) [unfolded st]] by auto
  have "switches (fst (load_config env h ps1)) = switches (lc_config h)"
    using keeps(2) re [of ps] re [of ps0] assms(2) by auto
  moreover have "lc_id h1 = lc_id h" "lc_config h1 = lc_config h" by (subst keeps(1), simp)+
  ultimately have "file_agrees env st" by (simp add: file_agrees_def st load_config_def)
  then show ?thesis
    using toggles_synced [OF assms(1) _ _ assms(6,7)] login_message_synced [OF assms(4,3,5), of renv] by (auto simp: update_options_fst)
qed

definition demo_client_env :: client_env where
  "demo_client_env =
     \<lparr>cl_peer = demo_peer_env, cl_now = 5, cl_sha256 = (\<lambda>x. 1 # x), cl_parse_uuid = (\<lambda>_. None),
      cl_parse_token = (\<lambda>_. Some \<lparr>tk_password = [7], tk_password_source = Undefined, tk_session_id = 9\<rparr>),
      cl_show_token = (\<lambda>_. Some []), cl_builtin_option = (\<lambda>_. []), cl_access_token = [], cl_ab = ([], []), cl_b64_decode = (\<lambda>_. None),
      cl_parse_map = (\<lambda>_. None), cl_show_map = (\<lambda>_. None), cl_os_version = (\<lambda>_. None), cl_use_ws = False, cl_is_proxy = False,
      cl_using_public_server = True, cl_random = 3, cl_terminal_admin = False, cl_flutter = True, cl_unix_file_copy_paste = True,
      cl_my_id = ''me'', cl_rendezvous_server = ''rs'', cl_display_name = ''Me'', cl_platform = ''Linux'', cl_hwid = [1],
      cl_version = ''1.4.0''\<rparr>"

definition demo_handler :: login_config where
  "demo_handler =
     \<lparr>lc_id = ''abc'', lc_conn_type = DEFAULT_CONN, lc_is_terminal_admin = False, lc_hash = \<lparr>lh_salt = [], lh_challenge = []\<rparr>,
      lc_password = [], lc_remember = False, lc_config = peer_default demo_peer_env, lc_port_forward = ([], 0), lc_version = 0,
      lc_features = None, lc_session_id = 1, lc_restarting_remote_device = False, lc_force_relay = False, lc_direct = None,
      lc_received = False, lc_switch_uuid = None, lc_other_server = None, lc_custom_fps = None, lc_adapter_luid = None,
      lc_selected_windows_session_id = None, lc_password_source = Undefined, lc_shared_password = None, lc_record_state = False,
      lc_record_permission = True\<rparr>"

definition demo_store :: peer_store where "demo_store = \<lparr>pr_dir = [], pr_new = []\<rparr>"

theorem options_stay_synced_witness:
  "\<exists>m st st' p' s' evs'. get_option_message demo_client_env True (demo_handler, demo_store, []) = (Some m, st)
     \<and> fold (toggle_step demo_client_env demo_reg_env False) [''view-only'', ''disable-audio'', ''view-only'']
         (st, update_options demo_reg_env False m (demo_perm KRemote, server_new demo_reg_env 5 :: nat server, [])) = (st', p', s', evs')
     \<and> synced demo_reg_env (lc_config (fst st')) p'"
proof -
  have kind: "lc_conn_type demo_handler = DEFAULT_CONN" by (simp add: demo_handler_def)
  obtain m st where m: "get_option_message demo_client_env True (demo_handler, demo_store, []) = (Some m, st)"
    by (cases "message_quality demo_client_env True (demo_handler, demo_store, [])") (simp add: get_option_message_def kind)
  obtain st' p' s' evs' where run: "fold (toggle_step demo_client_env demo_reg_env False) [''view-only'', ''disable-audio'', ''view-only'']
      (st, update_options demo_reg_env False m (demo_perm KRemote, server_new demo_reg_env 5 :: nat server, [])) = (st', p', s', evs')"
    by (metis prod_cases4)
  have "load_config demo_client_env demo_handler demo_store = (lc_config demo_handler, demo_store)"
    by (simp add: load_config_def peer_load_def demo_client_env_def demo_handler_def demo_store_def)
  moreover have "toggles_free demo_client_env [''view-only'', ''disable-audio'', ''view-only''] st" by (simp add: free_toggle_def)
  moreover have "fresh_perm (demo_perm KRemote)" by (simp add: fresh_perm_def demo_perm_def)
  moreover have "pe_writes (cl_peer demo_client_env)" by (simp add: demo_client_env_def demo_peer_env_def)
  ultimately have "synced demo_reg_env (lc_config (fst st')) p'" using options_stay_synced [OF _ _ kind _ m _ run] by blast
  with m run show ?thesis by blast
qed

end
