(* ===== verification/Client_Login.thy ===== *)
theory Client_Login
  imports Client_Handler
begin

text \<open>
  The login of the controlling side, \<open>src/client.rs\<close>: the start of a session from an id and a token, the order in which
  passwords are tried, the login request, what is remembered after a successful login, and the answers to errors.
  Passwords, salts and challenges are bytes; the hash function, JSON, base64 and the parser of UUIDs are parameters in
  \<open>client_env\<close>, as are the display name and the identity of the machine. Platforms and the names of arguments are
  taken as ASCII.
\<close>

subsection \<open>Keyboard modes\<close>

datatype keyboard_mode = Legacy | Map | Translate | Auto

definition keyboard_mode_str :: "keyboard_mode \<Rightarrow> string" where
  "keyboard_mode_str m = (case m of Legacy \<Rightarrow> ''legacy'' | Map \<Rightarrow> ''map'' | Translate \<Rightarrow> ''translate'' | Auto \<Rightarrow> ''auto'')"

definition keyboard_mode_from_str :: "string \<Rightarrow> keyboard_mode option" where
  "keyboard_mode_from_str s =
    (if s = ''legacy'' then Some Legacy else if s = ''map'' then Some Map else if s = ''translate'' then Some Translate
     else if s = ''auto'' then Some Auto else None)"

definition keyboard_modes :: "keyboard_mode list" where "keyboard_modes = [Legacy, Map, Translate, Auto]"

definition is_keyboard_mode_supported :: "keyboard_mode \<Rightarrow> i64 \<Rightarrow> string \<Rightarrow> bool" where
  "is_keyboard_mode_supported mode version_number peer_platform =
    (let recent = sint version_number \<ge> sint (get_version_number ''1.2.0'') in
     case mode of
       Legacy \<Rightarrow> True
     | Map \<Rightarrow> if map to_lower peer_platform = map to_lower ''Android'' then False else recent
     | Translate \<Rightarrow> recent
     | Auto \<Rightarrow> recent)"

definition get_supported_keyboard_modes :: "i64 \<Rightarrow> string \<Rightarrow> keyboard_mode list" where
  "get_supported_keyboard_modes version peer_platform =
     filter (\<lambda>m. is_keyboard_mode_supported m version peer_platform) keyboard_modes"

definition choose_keyboard_mode :: "string \<Rightarrow> i64 \<Rightarrow> string \<Rightarrow> string" where
  "choose_keyboard_mode current version platform =
    (if current = [] then
       (if is_keyboard_mode_supported Map version platform then keyboard_mode_str Map else keyboard_mode_str Legacy)
     else if unwrap_or (keyboard_mode_from_str current) Legacy \<notin> set (get_supported_keyboard_modes version platform)
     then keyboard_mode_str Legacy else current)"

subsection \<open>The start of a session\<close>

definition handle_relay_id :: "string \<Rightarrow> string" where
  "handle_relay_id i =
    (let n = length i in
     if n \<ge> 2 \<and> (drop (n - 2) i = [CHR 0x5C, CHR ''r''] \<or> drop (n - 2) i = ''/r'') then take (n - 2) i else i)"

definition nth_piece :: "nat \<Rightarrow> string list \<Rightarrow> string" where
  "nth_piece n ps = (if n < length ps then ps ! n else [])"

text \<open>The arguments \<open>k=v&...\<close> after the server; a later one overwrites an earlier one.\<close>

definition parse_args :: "string \<Rightarrow> settings" where
  "parse_args args =
     fold (\<lambda>arg m. if CHR ''='' \<in> set arg
        then hm_insert (map to_lower (takeWhile (\<lambda>c. c \<noteq> CHR ''='') arg)) (tl (dropWhile (\<lambda>c. c \<noteq> CHR ''='') arg)) m
        else m) (split_on CHR ''&'' args) []"

text \<open>The id without server and relay mark, the server with its key, and whether a relay is forced.\<close>

definition parse_peer :: "string \<Rightarrow> bool \<Rightarrow> string \<times> (string \<times> string \<times> string) option \<times> bool" where
  "parse_peer i force_relay =
    (if CHR ''@'' \<in> set i then
       let v = split_on CHR ''@'' i; raw_id = nth_piece 0 v; server_key = split_on CHR ''?'' (nth_piece 1 v);
           server = nth_piece 0 server_key; args = nth_piece 1 server_key;
           key = (if server = PUBLIC_SERVER then RS_PUB_KEY else unwrap_or_default (hm_get (parse_args args) ''key''));
           real_id = handle_relay_id raw_id in
       (real_id @ ''@'' @ server, Some (real_id, server, key), force_relay \<or> real_id \<noteq> raw_id)
     else let real_id = handle_relay_id i in (real_id, None, force_relay \<or> real_id \<noteq> i))"

definition initialize :: "client_env \<Rightarrow> string \<Rightarrow> conn_type \<Rightarrow> string option \<Rightarrow> bool \<Rightarrow> int option \<Rightarrow> bytes option
    \<Rightarrow> string option \<Rightarrow> client_state \<Rightarrow> client_state" where
  "initialize env i conn_type switch_uuid force_relay adapter_luid shared_password conn_token st =
    (case st of (h, ps, evs) \<Rightarrow> case parse_peer i force_relay of (i, other, force_relay) \<Rightarrow>
       let h = h\<lparr>lc_other_server := (case other of Some x \<Rightarrow> Some x | None \<Rightarrow> lc_other_server h), lc_id := i,
                 lc_conn_type := conn_type\<rparr> in
       (case load_config env h ps of (config, ps) \<Rightarrow>
          let h = h\<lparr>lc_remember := pc_password config \<noteq> [], lc_config := config\<rparr>;
              (sid, h) = (case Option.bind conn_token (cl_parse_token env) of
                  Some t \<Rightarrow> (tk_session_id t, h\<lparr>lc_password := tk_password t, lc_password_source := tk_password_source t\<rparr>)
                | None \<Rightarrow> (0, h));
              sid = (if sid = 0 then (if cl_random env = 0 then 1 else cl_random env) else sid);
              h = h\<lparr>lc_session_id := sid, lc_restarting_remote_device := False,
                    lc_force_relay := option2bool ''force-always-relay'' (lc_get_option h ''force-always-relay'')
                       \<or> force_relay \<or> cl_use_ws env \<or> cl_is_proxy env\<rparr>;
              h = (case lc_other_server h of
                     Some (real_id, server, key) \<Rightarrow>
                       let k = lc_get_option h ''other-server-key'' in
                       if k \<noteq> [] \<and> key = [] then h\<lparr>lc_other_server := Some (real_id, server, k)\<rparr> else h
                   | None \<Rightarrow> h) in
          (h\<lparr>lc_direct := None, lc_received := False, lc_switch_uuid := switch_uuid, lc_adapter_luid := adapter_luid,
             lc_selected_windows_session_id := None, lc_shared_password := shared_password, lc_record_state := False,
             lc_record_permission := True, lc_is_terminal_admin := conn_type = TERMINAL \<and> cl_terminal_admin env\<rparr>, ps, evs)))"

definition get_conn_token :: "client_env \<Rightarrow> login_config \<Rightarrow> string option" where
  "get_conn_token env h =
    (if lc_password h = [] then None
     else cl_show_token env \<lparr>tk_password = lc_password h, tk_password_source = lc_password_source h, tk_session_id = lc_session_id h\<rparr>)"

subsection \<open>The login request\<close>

definition get_remote_dir :: "client_env \<Rightarrow> login_config \<Rightarrow> string" where
  "get_remote_dir env h =
     unwrap_or_default (hm_get (unwrap_or (cl_parse_map env (lc_get_option h ''remote_dir'')) []) (pi_username (pc_info (lc_config h))))"

definition get_all_remote_dir :: "client_env \<Rightarrow> string \<Rightarrow> login_config \<Rightarrow> string" where
  "get_all_remote_dir env path h =
    (let user = pi_username (pc_info (lc_config h)); x = unwrap_or (cl_parse_map env (lc_get_option h ''remote_dir'')) [];
         x = (if path = [] then hm_remove user x else hm_insert user path x) in
     unwrap_or_default (cl_show_map env x))"

definition get_key_terminal_service_id :: "login_config \<Rightarrow> string" where
  "get_key_terminal_service_id h = (if lc_is_terminal_admin h then ''terminal-admin-service-id'' else ''terminal-service-id'')"

definition request_kind :: "client_env \<Rightarrow> login_config \<Rightarrow> login_kind" where
  "request_kind env h =
    (case lc_conn_type h of
       FILE_TRANSFER \<Rightarrow> KindFileTransfer (get_remote_dir env h) (lc_get_option h ''remote_show_hidden'' \<noteq> [])
     | VIEW_CAMERA \<Rightarrow> KindViewCamera
     | PORT_FORWARD \<Rightarrow> KindPortForward (fst (lc_port_forward h)) (snd (lc_port_forward h))
     | RDP \<Rightarrow> KindPortForward (fst (lc_port_forward h)) (snd (lc_port_forward h))
     | TERMINAL \<Rightarrow> KindTerminal (lc_get_option h (get_key_terminal_service_id h))
     | DEFAULT_CONN \<Rightarrow> KindDefault)"

text \<open>The own id and the id of the peer, as the request names them.\<close>

definition login_ids :: "client_env \<Rightarrow> login_config \<Rightarrow> string \<times> string" where
  "login_ids env h =
    (case lc_other_server h of
       Some (i, _, _) \<Rightarrow> (cl_my_id env @ ''@'' @ cl_rendezvous_server env, i)
     | None \<Rightarrow> (cl_my_id env, lc_id h))"

definition create_login_msg :: "client_env \<Rightarrow> string \<Rightarrow> string \<Rightarrow> bytes \<Rightarrow> client_state \<Rightarrow> client_request \<times> client_state" where
  "create_login_msg env os_username os_password password st =
    (case st of (h, _, _) \<Rightarrow>
       let hwid = (if lc_get_option h ''trust-this-device'' = ''Y'' then cl_hwid env else []) in
       case get_option_message env True st of (m, st) \<Rightarrow>
         (\<lparr>lr_username = snd (login_ids env h), lr_password = password, lr_my_id = fst (login_ids env h),
           lr_my_name = cl_display_name env, lr_my_platform = cl_platform env, lr_hwid = hwid, lr_session_id = lc_session_id h,
           lr_version = cl_version env, lr_option = map_option (\<lambda>m. om_terminal_persistent m = BoYes) m,
           lr_video_ack_required = False, lr_union = request_kind env h, cr_option = m, cr_os_username = os_username,
           cr_os_password = os_password\<rparr>, st))"

definition send_login :: "client_env \<Rightarrow> string \<Rightarrow> string \<Rightarrow> bytes \<Rightarrow> client_state \<Rightarrow> client_state" where
  "send_login env os_username os_password password st =
    (case create_login_msg env os_username os_password password st of (lr, h, ps, evs) \<Rightarrow> (h, ps, evs @ [SendLogin lr]))"

definition send_switch_login_request :: "client_env \<Rightarrow> bytes \<Rightarrow> client_state \<Rightarrow> client_state" where
  "send_switch_login_request env uuid st =
    (case create_login_msg env [] [] [] st of (lr, h, ps, evs) \<Rightarrow> (h, ps, evs @ [SendSwitchSides uuid lr]))"

subsection \<open>Passwords\<close>

definition hash_password :: "client_env \<Rightarrow> bytes \<Rightarrow> bytes \<Rightarrow> bytes" where
  "hash_password env password salt = cl_sha256 env (password @ salt)"

definition personal :: "string \<Rightarrow> bool" where
  "personal name \<longleftrightarrow> name = ''My address book'' \<or> name = ''Legacy address book''"

definition try_get_password_from_personal_ab :: "client_env \<Rightarrow> string \<Rightarrow> bytes option" where
  "try_get_password_from_personal_ab env i =
    (case cl_ab env of (token, entries) \<Rightarrow>
       if cl_access_token env \<noteq> [] \<and> cl_access_token env = token then
         (case find (\<lambda>(name, _). personal name) entries of
            None \<Rightarrow> None
          | Some (_, ab_peers) \<Rightarrow>
              (case find (\<lambda>(j, _). j = i) ab_peers of
                 None \<Rightarrow> None
               | Some (_, hash) \<Rightarrow>
                   (case cl_b64_decode env hash of Some p \<Rightarrow> if p \<noteq> [] then Some p else None | None \<Rightarrow> None)))
       else None)"

text \<open>
  The password to log in with and where it comes from: each step looks at one place, in the order of the code, on the
  password found so far and the handler. A shared password is taken even when there is one already.
\<close>

type_synonym found_password = "bytes \<times> login_config"

definition pick_preset :: "client_env \<Rightarrow> bytes \<Rightarrow> login_hash \<Rightarrow> found_password \<Rightarrow> found_password" where
  "pick_preset env password_preset hash x = (case x of (password, h) \<Rightarrow>
     if password = [] \<and> password_preset \<noteq> []
     then (hash_password env password_preset (lh_salt hash), h\<lparr>lc_password_source := Undefined\<rparr>) else (password, h))"

definition pick_shared :: "client_env \<Rightarrow> login_hash \<Rightarrow> found_password \<Rightarrow> found_password" where
  "pick_shared env hash x = (case x of (password, h) \<Rightarrow>
     let shared = lc_shared_password h; h = h\<lparr>lc_shared_password := None\<rparr> in
     (case shared of
        Some p \<Rightarrow> if p \<noteq> [] then (hash_password env p (lh_salt hash), h\<lparr>lc_password_source := SharedAb p\<rparr>) else (password, h)
      | None \<Rightarrow> (password, h)))"

definition pick_config :: "found_password \<Rightarrow> found_password" where
  "pick_config x = (case x of (password, h) \<Rightarrow>
     if password = [] then
       let p = pc_password (lc_config h) in (p, if p \<noteq> [] then h\<lparr>lc_password_source := Undefined\<rparr> else h)
     else (password, h))"

definition pick_personal_ab :: "client_env \<Rightarrow> found_password \<Rightarrow> found_password" where
  "pick_personal_ab env x = (case x of (password, h) \<Rightarrow>
     if password = [] then
       (case try_get_password_from_personal_ab env (lc_id h) of
          Some p \<Rightarrow> (p, h\<lparr>lc_password_source := PersonalAb p\<rparr>) | None \<Rightarrow> (password, h))
     else (password, h))"

definition pick_default :: "client_env \<Rightarrow> login_hash \<Rightarrow> found_password \<Rightarrow> found_password" where
  "pick_default env hash x = (case x of (password, h) \<Rightarrow>
     let p = str_bytes (cl_builtin_option env ''default-connect-password'') in
     if password = [] \<and> p \<noteq> [] then (hash_password env p (lh_salt hash), h\<lparr>lc_password_source := SharedAb p\<rparr>) else (password, h))"

definition select_password :: "client_env \<Rightarrow> bytes \<Rightarrow> login_hash \<Rightarrow> login_config \<Rightarrow> login_config" where
  "select_password env password_preset hash h =
    (case pick_default env hash (pick_personal_ab env (pick_config (pick_shared env hash
            (pick_preset env password_preset hash (lc_password h, h))))) of
       (password, h) \<Rightarrow> h\<lparr>lc_password := password\<rparr>)"

lemmas pick_defs = pick_preset_def pick_shared_def pick_config_def pick_personal_ab_def pick_default_def

definition handle_hash :: "client_env \<Rightarrow> bytes \<Rightarrow> login_hash \<Rightarrow> client_state \<Rightarrow> client_state" where
  "handle_hash env password_preset hash st = (case st of (h, ps, evs) \<Rightarrow>
     let uuid = lc_switch_uuid h; h = h\<lparr>lc_hash := hash, lc_switch_uuid := None\<rparr> in
     (case Option.bind uuid (cl_parse_uuid env) of
        Some u \<Rightarrow> (case send_switch_login_request env u (h, ps, evs) of (h, ps, evs) \<Rightarrow> (h\<lparr>lc_password_source := Undefined\<rparr>, ps, evs))
      | None \<Rightarrow>
          let h = select_password env password_preset hash h; password = lc_password h in
          if lc_conn_type h = TERMINAL \<and> lc_is_terminal_admin h then
            (h, ps, evs @ [MsgBox (if password = [] then ''terminal-admin-login-password'' else ''terminal-admin-login'') [] [] []])
          else
            let (password, evs) =
                  (if password = [] then ([], evs @ [MsgBox ''input-password'' ''Password Required'' [] []])
                   else (cl_sha256 env (password @ lh_challenge hash), evs));
                (os_username, os_password) =
                  (if lc_conn_type h = TERMINAL then ([], []) else (lc_get_option h ''os-username'', lc_get_option h ''os-password'')) in
            send_login env os_username os_password password (h, ps, evs)))"

definition handle_login_from_ui :: "client_env \<Rightarrow> string \<Rightarrow> string \<Rightarrow> bytes \<Rightarrow> bool \<Rightarrow> client_state \<Rightarrow> client_state" where
  "handle_login_from_ui env os_username os_password password remember st = (case st of (h, ps, evs) \<Rightarrow>
     let (hashed, h) =
           (if password = [] then
              if lc_password h = [] then
                let p = pc_password (lc_config h) in (p, if p \<noteq> [] then h\<lparr>lc_password_source := Undefined\<rparr> else h)
              else (lc_password h, h)
            else (hash_password env password (lh_salt (lc_hash h)), h\<lparr>lc_password_source := Undefined, lc_remember := remember\<rparr>));
         h = h\<lparr>lc_password := hashed\<rparr> in
     send_login env os_username os_password (cl_sha256 env (hashed @ lh_challenge (lc_hash h))) (h, ps, evs))"

subsection \<open>The answer\<close>

record peer_info =
  ri_username :: string
  ri_hostname :: string
  ri_platform :: string
  ri_version :: string
  ri_features :: "bool option"
  ri_platform_additions :: string

definition get_username :: "login_config \<Rightarrow> peer_info \<Rightarrow> string" where
  "get_username h pinfo = (if ri_username pinfo = [] then pi_username (pc_info (lc_config h)) else ri_username pinfo)"

text \<open>The password that is kept after a successful login.\<close>

definition kept_password :: "client_env \<Rightarrow> login_config \<Rightarrow> bytes \<Rightarrow> bytes" where
  "kept_password env h password0 =
    (let password = lc_password h in
     if lc_remember h then
       if password \<noteq> [] \<and> password \<noteq> password0 \<and> \<not> is_shared_ab env (lc_password_source h) password (lc_hash h)
       then password else password0
     else if is_personal_ab (lc_password_source h) password then password
     else if password0 \<noteq> [] then [] else password0)"

definition serde_of_info :: "client_env \<Rightarrow> peer_info \<Rightarrow> peer_info_serde" where
  "serde_of_info env pinfo =
     \<lparr>pi_username = ri_username pinfo, pi_hostname = ri_hostname pinfo, pi_platform = ri_platform pinfo,
      pi_os_version = (if ri_platform_additions pinfo \<noteq> [] then unwrap_or_default (cl_os_version env (ri_platform_additions pinfo)) else [])\<rparr>"

text \<open>The options that make the next session use the same server and relay.\<close>

definition kept_options :: "login_config \<Rightarrow> settings \<Rightarrow> settings" where
  "kept_options h options =
    (let options = (case lc_other_server h of
           Some (_, server, key) \<Rightarrow> if server \<noteq> PUBLIC_SERVER then hm_insert ''other-server-key'' key options else options
         | None \<Rightarrow> options) in
     if lc_force_relay h then hm_insert ''force-always-relay'' ''Y'' options else options)"

definition sync_events :: "client_env \<Rightarrow> login_config \<Rightarrow> peer_config \<Rightarrow> client_event list" where
  "sync_events env h config =
    (if cl_flutter env \<and> pc_password config \<noteq> [] \<and> \<not> is_shared_ab env (lc_password_source h) (lc_password h) (lc_hash h)
        \<and> \<not> is_personal_ab (lc_password_source h) (lc_password h)
     then [SyncPersonalAb (lc_id h) (pc_password config)] else [])"

definition handle_peer_info :: "client_env \<Rightarrow> peer_info \<Rightarrow> client_state \<Rightarrow> client_state" where
  "handle_peer_info env pinfo st = (case st of (h, ps, evs) \<Rightarrow>
     let h = h\<lparr>lc_version := (if ri_version pinfo \<noteq> [] then get_version_number (ri_version pinfo) else lc_version h),
               lc_features := ri_features pinfo\<rparr> in
     case load_config env h ps of (config, ps) \<Rightarrow>
       let config = config\<lparr>pc_info := serde_of_info env pinfo, pc_password := kept_password env h (pc_password config),
                           pc_options := kept_options h (pc_options config),
                           pc_keyboard_mode := choose_keyboard_mode (pc_keyboard_mode config)
                              (get_version_number (ri_version pinfo)) (ri_platform pinfo)\<rparr> in
       save_config env config (h, ps, evs @ sync_events env h config))"

text \<open>The dialogs for errors of a desktop session, and whether the user may try again.\<close>

definition LOGIN_ERROR_MAP :: "(string \<times> (string \<times> string \<times> string \<times> string) \<times> bool) list" where
  "LOGIN_ERROR_MAP =
    [(''Wayland login screen is not supported'', (''error'', ''Login Error'', ''Login screen using Wayland is not supported'',
        ''https://rustdesk.com/docs/en/manual/linux/#login-screen''), True),
     (''Desktop session not ready'', (''session-login'', [], [], []), True),
     (''Desktop xsession failed'', (''session-re-login'', [], [], []), True),
     (''Desktop session another user login'', (''info-nocancel'', ''another_user_login_title_tip'', ''another_user_login_text_tip'', []), False),
     (''Desktop xorg not found'', (''info-nocancel'', ''xorg_not_found_title_tip'', ''xorg_not_found_text_tip'',
        ''https://github.com/rustdesk/rustdesk/wiki/Headless-Linux-Support''), True),
     (''Desktop none'', (''info-nocancel'', ''no_desktop_title_tip'', ''no_desktop_text_tip'',
        ''https://github.com/rustdesk/rustdesk/wiki/Headless-Linux-Support''), True),
     (''Desktop session not ready, password empty'', (''session-login-password'', [], [], []), True),
     (''Desktop session not ready, password wrong'', (''session-login-re-password'', [], [], []), True),
     (''No Password Access'', (''wait-remote-accept-nook'', ''Prompt'', ''Please wait for the remote side to accept your session request...'', []), True)]"

definition handle_login_error :: "client_env \<Rightarrow> string \<Rightarrow> client_state \<Rightarrow> bool \<times> client_state" where
  "handle_login_error env err st = (case st of (h, ps, evs) \<Rightarrow>
     if err = ''Empty Password'' then (True, h\<lparr>lc_password := []\<rparr>, ps, evs @ [MsgBox ''input-password'' ''Password Required'' [] []])
     else if err = ''Wrong Password'' then
       (True, h\<lparr>lc_password := []\<rparr>, ps, evs @ [MsgBox ''re-input-password'' err ''Do you want to enter again?'' []])
     else if err = ''Wrong 2FA Code'' \<or> err = ''2FA Required'' then
       (case (if lc_get_option h ''trust-this-device'' = ''Y'' then lc_set_option env ''trust-this-device'' [] st else st) of
          (h, ps, evs) \<Rightarrow> (True, h, ps, evs @ [MsgBox ''input-2fa'' err [] []]))
     else (case map_of LOGIN_ERROR_MAP err of
             Some ((msgtype, title, txt, link), try_again) \<Rightarrow> (try_again, h, ps, evs @ [MsgBox msgtype title txt link])
           | None \<Rightarrow> (False, h, ps, evs @ [MsgBox ''error'' ''Login Error'' err
                 (if str_contains err ''x11 expected'' then ''https://rustdesk.com/docs/en/manual/linux/#x11-required'' else [])])))"

definition check_if_retry :: "client_env \<Rightarrow> string \<Rightarrow> string \<Rightarrow> string \<Rightarrow> bool \<Rightarrow> bool" where
  "check_if_retry env msgtype title txt retry_for_relay \<longleftrightarrow>
    (let has = str_contains (map to_lower txt) in
     msgtype = ''error'' \<and> title = ''Connection decline''
     \<and> ((str_contains txt ''10054'' \<or> str_contains txt ''104'') \<and> retry_for_relay
        \<or> \<not> has ''offline'' \<and> \<not> has ''not exist''
          \<and> (\<not> has ''handshake'' \<or> has ''connection reset without closing handshake'' \<and> cl_use_ws env)
          \<and> \<not> has ''failed'' \<and> \<not> has ''resolve'' \<and> \<not> has ''mismatch'' \<and> \<not> has ''manually'' \<and> \<not> has ''not allowed''))"

subsection \<open>The order of passwords\<close>

text \<open>The passwords a session may use, best first, each with its source; an empty one is not there.\<close>

definition password_candidates :: "client_env \<Rightarrow> bytes \<Rightarrow> login_hash \<Rightarrow> login_config \<Rightarrow> (bytes \<times> password_source) list" where
  "password_candidates env preset hash h =
    (let hashed = (\<lambda>p. if p = [] then [] else hash_password env p (lh_salt hash));
         shared = unwrap_or (lc_shared_password h) [];
         ab = unwrap_or (try_get_password_from_personal_ab env (lc_id h)) [];
         default_password = str_bytes (cl_builtin_option env ''default-connect-password'') in
     [(hashed shared, SharedAb shared), (lc_password h, lc_password_source h), (hashed preset, Undefined),
      (pc_password (lc_config h), Undefined), (ab, PersonalAb ab), (hashed default_password, SharedAb default_password)])"

lemma personal_ab_nonempty: "try_get_password_from_personal_ab env i = Some p \<Longrightarrow> p \<noteq> []"
  by (auto simp: try_get_password_from_personal_ab_def split: prod.splits option.splits if_splits)

text \<open>Choosing a password changes nothing else of the handler.\<close>

definition same_session :: "login_config \<Rightarrow> login_config \<Rightarrow> bool" where
  "same_session h h' \<longleftrightarrow> lc_id h' = lc_id h \<and> lc_config h' = lc_config h \<and> lc_conn_type h' = lc_conn_type h
     \<and> lc_is_terminal_admin h' = lc_is_terminal_admin h \<and> lc_hash h' = lc_hash h \<and> lc_remember h' = lc_remember h
     \<and> lc_other_server h' = lc_other_server h \<and> lc_session_id h' = lc_session_id h"

lemma pick_same:
  "same_session h (snd x) \<Longrightarrow> same_session h (snd (pick_preset env preset hash x))"
  "same_session h (snd x) \<Longrightarrow> same_session h (snd (pick_shared env hash x))"
  "same_session h (snd x) \<Longrightarrow> same_session h (snd (pick_config x))"
  "same_session h (snd x) \<Longrightarrow> same_session h (snd (pick_personal_ab env x))"
  "same_session h (snd x) \<Longrightarrow> same_session h (snd (pick_default env hash x))"
  by (cases x; simp add: pick_defs same_session_def Let_def split: option.split)+

lemma select_password_same: "same_session h (select_password env preset hash h)"
proof -
  have "same_session h (snd (pick_default env hash (pick_personal_ab env (pick_config (pick_shared env hash
      (pick_preset env preset hash (lc_password h, h)))))))"
    by (intro pick_same) (simp add: same_session_def)
  then show ?thesis by (simp add: select_password_def same_session_def case_prod_beta)
qed

text \<open>
  Passwords are tried in a fixed order: the session uses the first one there is of a shared password, the one used
  last, a preset one, the one saved for the peer, the one of the personal address book, and the default of the
  build; it records where it comes from, and with none of them stays without a password.
\<close>

theorem password_order:
  assumes "\<And>x. cl_sha256 env x \<noteq> []" and "h' = select_password env preset hash h"
  shows "case find (\<lambda>(p, _). p \<noteq> []) (password_candidates env preset hash h) of
      Some (p, src) \<Rightarrow> lc_password h' = p \<and> lc_password_source h' = src
    | None \<Rightarrow> lc_password h' = [] \<and> lc_password_source h' = lc_password_source h"
  using assms personal_ab_nonempty [of env "lc_id h"]
  by (cases "lc_shared_password h"; cases "try_get_password_from_personal_ab env (lc_id h)")
     (auto simp: password_candidates_def select_password_def pick_defs hash_password_def unwrap_or_def Let_def)

theorem password_order_witness:
  "lc_password (select_password demo_client_env [5] \<lparr>lh_salt = [6], lh_challenge = []\<rparr> demo_handler) = [1, 5, 6]"
  using password_order [of demo_client_env _ "[5]" "\<lparr>lh_salt = [6], lh_challenge = []\<rparr>" demo_handler, OF _ refl]
  by (simp add: password_candidates_def demo_client_env_def demo_handler_def hash_password_def unwrap_or_def Let_def)

subsection \<open>Logging in and remembering\<close>

lemma send_login_form:
  assumes "send_login env u os p (h, ps, evs) = (h', ps', evs')"
  shows "(\<exists>fps. h' = h\<lparr>lc_custom_fps := fps\<rparr>) \<and> (ps' = ps \<or> ps' = snd (load_config env h ps))
    \<and> (\<exists>lr. evs' = evs @ [SendLogin lr] \<and> lr_password lr = p)"
proof -
  obtain m h1 ps1 evs1 where m: "get_option_message env True (h, ps, evs) = (m, h1, ps1, evs1)"
    by (cases "get_option_message env True (h, ps, evs)")
  show ?thesis using assms option_message_keeps [OF m]
    by (auto simp: send_login_def create_login_msg_def m Let_def split: prod.splits option.splits)
qed

lemma load_password:
  assumes "crypto_roundtrips (pe_crypto env)" and "pe_writes env"
    and "\<not> fst (snd (decrypt_vec_or_original (pe_crypto env) (pc_password c) version00))" and "length (pc_password c) \<le> ENCRYPT_MAX_LEN"
  shows "pc_password (fst (peer_load env now i (store_peer env now' i c s))) = pc_password c"
proof -
  have "hm_get (pr_dir (store_peer env now' i c s)) (peer_path env i) = Some (now', Some (peer_encrypt (pe_crypto env) c))"
    using assms(2) by (simp add: store_peer_def hm_get_insert)
  moreover have "decrypt_vec_or_original (pe_crypto env) (pc_password (peer_deserialize env (peer_encrypt (pe_crypto env) c))) version00
      = (pc_password c, pc_password c \<noteq> [], False)"
    using vec_secret_roundtrip [OF assms(1,3,4)] by (simp add: peer_deserialize_def peer_encrypt_def)
  ultimately show ?thesis by (simp add: peer_load_def Let_def split: prod.split)
qed

lemma login_from_ui_form:
  assumes "password \<noteq> []" and "handle_login_from_ui env u os password r (h, ps, evs) = (h', ps', evs')"
  shows "lc_password h' = hash_password env password (lh_salt (lc_hash h)) \<and> lc_password_source h' = Undefined \<and> lc_remember h' = r
    \<and> lc_id h' = lc_id h \<and> lc_hash h' = lc_hash h
    \<and> (\<exists>lr. evs' = evs @ [SendLogin lr]
         \<and> lr_password lr = cl_sha256 env (hash_password env password (lh_salt (lc_hash h)) @ lh_challenge (lc_hash h)))"
proof -
  let ?h = "h\<lparr>lc_password_source := Undefined, lc_remember := r, lc_password := hash_password env password (lh_salt (lc_hash h))\<rparr>"
  have "send_login env u os (cl_sha256 env (hash_password env password (lh_salt (lc_hash h)) @ lh_challenge (lc_hash h))) (?h, ps, evs)
      = (h', ps', evs')"
    using assms by (simp add: handle_login_from_ui_def Let_def)
  then show ?thesis using send_login_form by fastforce
qed

lemma peer_info_irrelevant:
  "kept_password env (h\<lparr>lc_version := v, lc_features := f\<rparr>) x = kept_password env h x"
  "sync_events env (h\<lparr>lc_version := v, lc_features := f\<rparr>) c = sync_events env h c"
  "load_config env (h\<lparr>lc_version := v, lc_features := f\<rparr>) ps = load_config env h ps"
  by (simp_all add: kept_password_def sync_events_def load_config_def Let_def)

lemma peer_info_form:
  assumes "handle_peer_info env pinfo (h, ps, evs) = (h', ps', evs')"
  shows "\<exists>ps1. ps' = store_peer (cl_peer env) (cl_now env) (lc_id h) (lc_config h') ps1"
    and "pc_password (lc_config h') = kept_password env h (pc_password (fst (load_config env h ps)))"
    and "evs' = evs @ sync_events env h (lc_config h')"
proof -
  obtain c ps1 where c: "load_config env h ps = (c, ps1)" by (cases "load_config env h ps")
  note * = assms [symmetric, unfolded handle_peer_info_def Let_def prod.case peer_info_irrelevant c save_config_def]
  show "\<exists>ps1. ps' = store_peer (cl_peer env) (cl_now env) (lc_id h) (lc_config h') ps1"
    using * by (intro exI [of _ ps1]) simp
  show "pc_password (lc_config h') = kept_password env h (pc_password (fst (load_config env h ps)))"
    using * by (simp add: c)
  show "evs' = evs @ sync_events env h (lc_config h')"
    using * by simp
qed

lemma hash_form:
  assumes "lc_switch_uuid h = None" and "\<not> (lc_conn_type h = TERMINAL \<and> lc_is_terminal_admin h)"
    and "lc_password (select_password env preset hash (h\<lparr>lc_hash := hash\<rparr>)) \<noteq> []"
    and "handle_hash env preset hash (h, ps, evs) = (h', ps', evs')"
  shows "(\<exists>fps. h' = (select_password env preset hash (h\<lparr>lc_hash := hash\<rparr>))\<lparr>lc_custom_fps := fps\<rparr>)
    \<and> (\<exists>lr. evs' = evs @ [SendLogin lr]
         \<and> lr_password lr = cl_sha256 env (lc_password (select_password env preset hash (h\<lparr>lc_hash := hash\<rparr>)) @ lh_challenge hash))"
proof -
  have h: "h\<lparr>lc_hash := hash, lc_switch_uuid := None\<rparr> = h\<lparr>lc_hash := hash\<rparr>" using assms(1) by simp
  have t: "\<not> (lc_conn_type (select_password env preset hash (h\<lparr>lc_hash := hash\<rparr>)) = TERMINAL
      \<and> lc_is_terminal_admin (select_password env preset hash (h\<lparr>lc_hash := hash\<rparr>)))"
    using select_password_same [of "h\<lparr>lc_hash := hash\<rparr>" env preset hash] assms(2) by (simp add: same_session_def)
  show ?thesis using assms(4) t assms(3) send_login_form
    by (simp add: handle_hash_def h assms(1) Let_def split: if_splits)
qed

lemma initialize_form:
  assumes "parse_peer i fr = (i', other, fr')" and "initialize env i ct uuid fr luid shared None (h, ps, evs) = (h', ps', evs')"
  shows "lc_password h' = lc_password h \<and> lc_password_source h' = lc_password_source h \<and> lc_switch_uuid h' = uuid
    \<and> lc_shared_password h' = shared \<and> lc_conn_type h' = ct \<and> lc_id h' = i' \<and> evs' = evs
    \<and> lc_config h' = fst (peer_load (cl_peer env) (cl_now env) i' ps) \<and> lc_session_id h' \<noteq> 0"
proof -
  obtain c ps1 where "peer_load (cl_peer env) (cl_now env) i' ps = (c, ps1)"
    by (cases "peer_load (cl_peer env) (cl_now env) i' ps")
  then show ?thesis using assms(2)
    by (auto simp: initialize_def assms(1) load_config_def Let_def split: option.splits prod.splits if_splits)
qed

text \<open>
  C6. A remembered password logs in again: when the user types a password, asks to remember it and is let in, then a
  later session with the same peer, started without any password, sends a request whose password the peer accepts
  under its new challenge, as long as it has the same salt and password.
\<close>

theorem remembered_password_logs_in:
  assumes crypto: "crypto_roundtrips (pe_crypto (cl_peer env))" "pe_writes (cl_peer env)"
    and good: "\<not> fst (snd (decrypt_vec_or_original (pe_crypto (cl_peer env)) (cl_sha256 env (password @ salt)) version00))"
      "length (cl_sha256 env (password @ salt)) \<le> ENCRYPT_MAX_LEN" "cl_sha256 env (password @ salt) \<noteq> []"
    and first: "password \<noteq> []" "lh_salt (lc_hash h) = salt" "lc_id h = i"
      "(h1, ps1, evs1) = handle_peer_info env pinfo (handle_login_from_ui env u os password True (h, ps, evs))"
    and same: "cl_peer env' = cl_peer env" "cl_sha256 env' = cl_sha256 env" "le_sha256 lenv = cl_sha256 env"
    and later: "parse_peer i False = (i, None, False)" "lc_password h2 = []" "ct \<noteq> TERMINAL"
      "(h3, ps3, evs3) = handle_hash env' [] \<lparr>lh_salt = salt, lh_challenge = challenge\<rparr>
         (initialize env' i ct None False luid None None (h2, ps1, evs2))"
    and server: "cn_salt c = salt" "cn_challenge c = challenge"
  shows "\<exists>lr. evs3 = evs2 @ [SendLogin lr] \<and> validate_one_password lenv (c\<lparr>cn_lr := login_request.truncate lr\<rparr>) password"
proof -
  define H where "H = cl_sha256 env (password @ salt)"
  obtain ha psa evsa where ui: "handle_login_from_ui env u os password True (h, ps, evs) = (ha, psa, evsa)"
    by (cases "handle_login_from_ui env u os password True (h, ps, evs)")
  have ha: "lc_password ha = H" "lc_password_source ha = Undefined" "lc_remember ha" "lc_id ha = i"
    using login_from_ui_form [OF first(1) ui] first(2,3) by (simp_all add: H_def hash_password_def)
  note info = peer_info_form [OF first(4) [unfolded ui, symmetric]]
  have kept: "pc_password (lc_config h1) = H"
    using info(2) ha good(3) by (auto simp: kept_password_def is_shared_ab_def H_def Let_def)
  obtain hb psb evsb where ini: "initialize env' i ct None False luid None None (h2, ps1, evs2) = (hb, psb, evsb)"
    by (cases "initialize env' i ct None False luid None None (h2, ps1, evs2)")
  note hb = initialize_form [OF later(1) ini]
  have pw: "pc_password (lc_config hb) = H"
    using load_password [OF crypto, of "lc_config h1"] info(1) kept hb good by (auto simp: ha(4) same H_def)
  define hc where "hc = hb\<lparr>lc_hash := \<lparr>lh_salt = salt, lh_challenge = challenge\<rparr>\<rparr>"
  have sel: "lc_password (select_password env' [] \<lparr>lh_salt = salt, lh_challenge = challenge\<rparr> hc) = H"
    using hb pw later(2) good(3) by (simp add: select_password_def pick_defs hc_def H_def)
  from hash_form [of hb env' "[]" "\<lparr>lh_salt = salt, lh_challenge = challenge\<rparr>" psb evsb, folded hc_def, OF _ _ _ later(4) [unfolded ini, symmetric]]
  obtain lr where lr: "evs3 = evs2 @ [SendLogin lr]" "lr_password lr = cl_sha256 env (H @ challenge)"
    using hb later(3) sel good(3) same by (auto simp: H_def)
  then show ?thesis using first(1) server same
    by (auto simp: validate_one_password_def login_request.defs H_def)
qed

definition demo_host :: peer_info where
  "demo_host = \<lparr>ri_username = ''u'', ri_hostname = ''h'', ri_platform = ''Linux'', ri_version = ''1.4.0'', ri_features = None,
     ri_platform_additions = []\<rparr>"

theorem remembered_password_logs_in_witness:
  "\<exists>lr. snd (snd (handle_hash demo_client_env [] \<lparr>lh_salt = [6], lh_challenge = [8]\<rparr>
       (initialize demo_client_env ''abc'' DEFAULT_CONN None False None None None (demo_handler,
          fst (snd (handle_peer_info demo_client_env demo_host (handle_login_from_ui demo_client_env [] [] [5] True
            (demo_handler\<lparr>lc_hash := \<lparr>lh_salt = [6], lh_challenge = [7]\<rparr>\<rparr>, demo_store, [])))), [])))) = [SendLogin lr]
   \<and> validate_one_password (demo_login_env\<lparr>le_sha256 := \<lambda>x. 1 # x\<rparr>)
       ((demo_login_conn False)\<lparr>cn_salt := [6], cn_challenge := [8], cn_lr := login_request.truncate lr\<rparr>) [5]"
proof -
  let ?h = "demo_handler\<lparr>lc_hash := \<lparr>lh_salt = [6], lh_challenge = [7]\<rparr>\<rparr>"
  obtain h1 ps1 evs1 where 1: "(h1, ps1, evs1) =
      handle_peer_info demo_client_env demo_host (handle_login_from_ui demo_client_env [] [] [5] True (?h, demo_store, []))"
    by (metis prod_cases3)
  obtain h3 ps3 evs3 where 3: "(h3, ps3, evs3) = handle_hash demo_client_env [] \<lparr>lh_salt = [6], lh_challenge = [8]\<rparr>
      (initialize demo_client_env ''abc'' DEFAULT_CONN None False None None None (demo_handler, ps1, []))"
    by (metis prod_cases3)
  have env: "cl_peer demo_client_env = demo_peer_env" "cl_sha256 demo_client_env = (\<lambda>x. 1 # x)" by (simp_all add: demo_client_env_def)
  have peer: "crypto_roundtrips (pe_crypto demo_peer_env)" "pe_writes demo_peer_env"
    by (simp_all add: demo_peer_env_def demo_crypto_ok)
  have good: "\<not> fst (snd (decrypt_vec_or_original (pe_crypto demo_peer_env) [1, 5, 6] version00))"
    by (simp add: demo_peer_env_def decrypt_vec_or_original_def version00_def VERSION_LEN_def demo_crypto_def)
  have parse: "parse_peer ''abc'' False = (''abc'', None, False)" by (simp add: parse_peer_def handle_relay_id_def)
  have "\<exists>lr. evs3 = [] @ [SendLogin lr] \<and> validate_one_password (demo_login_env\<lparr>le_sha256 := \<lambda>x. 1 # x\<rparr>)
       ((demo_login_conn False)\<lparr>cn_salt := [6], cn_challenge := [8]\<rparr>\<lparr>cn_lr := login_request.truncate lr\<rparr>) [5]"
    by (rule remembered_password_logs_in [OF _ _ _ _ _ _ _ _ 1 _ _ _ parse _ _ 3])
       (simp_all add: env peer good demo_handler_def ENCRYPT_MAX_LEN_def)
  moreover have "fst (snd (handle_peer_info demo_client_env demo_host (handle_login_from_ui demo_client_env [] [] [5] True (?h, demo_store, [])))) = ps1"
    by (simp add: 1 [symmetric])
  ultimately show ?thesis by (simp add: 3 [symmetric])
qed

text \<open>
  A shared password is not kept: a session that logs in with a password shared through the address book saves no
  new password for the peer and does not copy it to the personal address book, even when the user asked to
  remember the password.
\<close>

theorem shared_password_not_kept:
  assumes "\<And>x. cl_sha256 env x \<noteq> []" and "lc_shared_password h = Some p" and "p \<noteq> []" and "lc_switch_uuid h = None"
    and "\<not> (lc_conn_type h = TERMINAL \<and> lc_is_terminal_admin h)"
    and "(h1, ps1, evs1) = handle_hash env preset hash (h, ps, evs)"
    and "(h2, ps2, evs2) = handle_peer_info env pinfo (h1, ps1, evs1)"
  shows "pc_password (lc_config h2) \<in> {[], pc_password (fst (load_config env h ps1))} \<and> evs2 = evs1"
proof -
  let ?s = "select_password env preset hash (h\<lparr>lc_hash := hash\<rparr>)"
  have s: "lc_password ?s = hash_password env p (lh_salt hash)" "lc_password_source ?s = SharedAb p"
    using assms(1-3) by (simp_all add: select_password_def pick_defs hash_password_def Let_def split: prod.split)
  have "same_session (h\<lparr>lc_hash := hash\<rparr>) ?s" by (rule select_password_same)
  moreover obtain fps where "h1 = ?s\<lparr>lc_custom_fps := fps\<rparr>"
    using hash_form [OF assms(4,5) _ assms(6) [symmetric]] s(1) assms(1) by (auto simp: hash_password_def)
  ultimately have h1: "lc_password h1 = hash_password env p (lh_salt hash)" "lc_password_source h1 = SharedAb p"
      "lc_hash h1 = hash" "lc_id h1 = lc_id h"
    using s by (simp_all add: same_session_def)
  have shared: "is_shared_ab env (lc_password_source h1) (lc_password h1) (lc_hash h1)"
    using assms(1) by (simp add: is_shared_ab_def h1 equal_password_def hash_password_def)
  have "load_config env h1 ps1 = load_config env h ps1" by (simp add: load_config_def h1)
  then show ?thesis
    using peer_info_form(2,3) [OF assms(7) [symmetric]] shared
    by (auto simp: kept_password_def sync_events_def is_personal_ab_def h1 Let_def)
qed

theorem shared_password_not_kept_witness:
  "\<exists>h1 ps1 evs1 h2 ps2 evs2. (h1, ps1, evs1) = handle_hash demo_client_env [] \<lparr>lh_salt = [6], lh_challenge = [8]\<rparr>
       (demo_handler\<lparr>lc_shared_password := Some [5], lc_remember := True\<rparr>, demo_store, [])
     \<and> (h2, ps2, evs2) = handle_peer_info demo_client_env demo_host (h1, ps1, evs1) \<and> evs2 = evs1"
proof -
  let ?h = "demo_handler\<lparr>lc_shared_password := Some [5], lc_remember := True\<rparr>"
  obtain h1 ps1 evs1 where 1: "(h1, ps1, evs1) = handle_hash demo_client_env [] \<lparr>lh_salt = [6], lh_challenge = [8]\<rparr> (?h, demo_store, [])"
    by (metis prod_cases3)
  obtain h2 ps2 evs2 where 2: "(h2, ps2, evs2) = handle_peer_info demo_client_env demo_host (h1, ps1, evs1)"
    by (metis prod_cases3)
  have "evs2 = evs1"
    by (rule shared_password_not_kept [where p = "[5]", OF _ _ _ _ _ 1 2, THEN conjunct2])
       (simp_all add: demo_handler_def demo_client_env_def)
  with 1 2 show ?thesis by blast
qed

text \<open>
  A session is continued from its token: starting a session from the token of another restores its session id, the
  hashed password and where that came from, so that the next challenge is answered with the same password.
\<close>

theorem token_continues_session:
  assumes "get_conn_token env h = Some t" and "lc_session_id h \<noteq> 0"
    and "\<And>x s. cl_show_token env x = Some s \<Longrightarrow> cl_parse_token env' s = Some x"
    and "(h', ps', evs') = initialize env' i ct uuid fr luid shared (Some t) (h0, ps, evs)"
  shows "lc_password h' = lc_password h \<and> lc_password_source h' = lc_password_source h \<and> lc_session_id h' = lc_session_id h"
proof -
  obtain i' other fr' where p: "parse_peer i fr = (i', other, fr')" by (cases "parse_peer i fr")
  have "cl_parse_token env' t = Some \<lparr>tk_password = lc_password h, tk_password_source = lc_password_source h, tk_session_id = lc_session_id h\<rparr>"
    using assms(1,3) by (auto simp: get_conn_token_def split: if_splits)
  then show ?thesis using assms(2,4)
    by (auto simp: initialize_def p Let_def split: option.splits prod.splits if_splits)
qed

theorem token_continues_session_witness:
  "lc_session_id (fst (initialize (demo_client_env\<lparr>cl_parse_token := \<lambda>_. Some \<lparr>tk_password = [7], tk_password_source = Undefined, tk_session_id = 9\<rparr>\<rparr>)
     ''abc'' DEFAULT_CONN None False None None (Some ''t'') (demo_handler, demo_store, []))) = 9"
proof -
  let ?tok = "\<lparr>tk_password = [7], tk_password_source = Undefined, tk_session_id = 9\<rparr> :: conn_token"
  let ?env = "demo_client_env\<lparr>cl_show_token := \<lambda>x. if x = ?tok then Some ''t'' else None\<rparr>"
  let ?env' = "demo_client_env\<lparr>cl_parse_token := \<lambda>_. Some ?tok\<rparr>"
  obtain h' ps' evs' where 1: "(h', ps', evs') = initialize ?env' ''abc'' DEFAULT_CONN None False None None (Some ''t'') (demo_handler, demo_store, [])"
    by (metis prod_cases3)
  have "lc_session_id h' = lc_session_id (demo_handler\<lparr>lc_password := [7], lc_session_id := 9\<rparr>)"
    by (rule token_continues_session [where env = ?env, OF _ _ _ 1, THEN conjunct2, THEN conjunct2])
       (auto simp: get_conn_token_def demo_handler_def split: if_splits)
  then show ?thesis by (simp flip: 1)
qed

end
