(* ===== verification/Rendezvous.thy ===== *)
theory Rendezvous
  imports Config_Store
begin

text \<open>
  The rendezvous mediator of \<open>src/rendezvous_mediator.rs\<close>: a program that can be controlled registers its id and its
  public key with every rendezvous server, keeps the registration alive, and answers the servers' requests to meet
  a client, by punching a hole, by its local address, or through a relay. One mediator runs per server; they
  share the configuration and the global variables of the file, the record \<open>rz_world\<close>. Times are microseconds
  of the monotonic clock. Fresh values and the answers of the network are arguments. Every handler runs as one step, except that \<open>register_peer\<close> in the UDP
  loop is two, its checks and the sending of the id, between which other mediators run.
\<close>

subsection \<open>Data\<close>

definition REG_INTERVAL :: int where "REG_INTERVAL = 15000"
definition CONNECT_TIMEOUT :: int where "CONNECT_TIMEOUT = 18000"
definition DEFAULT_KEEP_ALIVE :: i32 where "DEFAULT_KEEP_ALIVE = 60000"
definition MIN_REG_TIMEOUT :: int where "MIN_REG_TIMEOUT = 3000"
definition MAX_REG_TIMEOUT :: int where "MAX_REG_TIMEOUT = 30000"
definition MAX_FAILS1 :: int where "MAX_FAILS1 = 2"
definition MAX_FAILS2 :: int where "MAX_FAILS2 = 4"
definition DNS_INTERVAL :: int where "DNS_INTERVAL = 60000"
definition RELAY_PORT :: int where "RELAY_PORT = 21117"
definition SYMMETRIC :: int where "SYMMETRIC = 2"

datatype target_addr = TargetIp socket_addr | TargetDomain string u16

record mediator =
  rz_addr :: target_addr
  rz_host :: string
  rz_host_prefix :: string
  rz_keep_alive :: i32

text \<open>
  The shared state: the configuration, the key pairs that a thread is about to store, and the global variables
  \<open>SOLVING_PK_MISMATCH\<close>, \<open>LAST_MSG\<close>, \<open>LAST_RELAY_MSG\<close>, \<open>SHOULD_EXIT\<close> and \<open>MANUAL_RESTARTED\<close>.
\<close>

record rz_world =
  rw_cfg :: cfg_state
  rw_pending :: "(bytes \<times> bytes) list"
  rw_solving :: string
  rw_last_msg :: "socket_addr \<times> nat"
  rw_last_relay_msg :: "socket_addr \<times> nat"
  rw_exit :: bool
  rw_restarted :: bool

record rz_env =
  re_cfg :: cfg_env
  re_builtin :: settings
  re_machine_uid :: "bytes option"
  re_version :: string

text \<open>What a handler draws: a generated id, a generated key pair, the random id of \<open>update_id\<close>; and whether a send succeeds.\<close>

record rz_fresh =
  fr_gen :: "bytes option"
  fr_key :: "bytes \<times> bytes"
  fr_new_id :: bytes
  fr_sent :: bool

datatype rz_error = SendFailed | RecvFailed | ConnClosed | BadMessage | KeepAliveExpired | ConnectFailed | RebindFailed

datatype rz_end = Go | Exit | Fail rz_error

datatype rz_out =
    RegisterPk bytes bytes bytes bool
  | RegisterPeer bytes int
  | Heartbeat

record punch_hole =
  ph_socket_addr :: bytes
  ph_relay_server :: string
  ph_nat_type :: int
  ph_udp_port :: int
  ph_force_relay :: bool
  ph_socket_addr_v6 :: bytes

record request_relay =
  rr_uuid :: string
  rr_socket_addr :: bytes
  rr_relay_server :: string
  rr_secure :: bool

record fetch_local_addr =
  fla_socket_addr :: bytes
  fla_relay_server :: string
  fla_socket_addr_v6 :: bytes

datatype pk_result = PkOk | UuidMismatch | PkOther

datatype rz_union =
    RegisterPeerResponse bool
  | RegisterPkResponse pk_result i32
  | PunchHole punch_hole
  | RequestRelay request_relay
  | FetchLocalAddr fetch_local_addr
  | ConfigureUpdate int "string list"
  | OtherUnion

text \<open>What the socket gives: the end of the stream, an error, an empty frame, bytes that do not parse, or a message.\<close>

datatype rz_frame = FrameNone | FrameErr | FrameEmpty | FrameGarbage | FrameMsg rz_union

datatype rz_task = TaskPunch punch_hole | TaskRelay request_relay | TaskLocal fetch_local_addr

definition ms_since :: "nat \<Rightarrow> nat \<Rightarrow> int" where "ms_since now x = int ((now - x) div 1000)"

definition is_ipv4 :: "target_addr \<Rightarrow> bool" where
  "is_ipv4 target = (case target of TargetIp (V6 _ _ _ _) \<Rightarrow> False | _ \<Rightarrow> True)"

definition use_ws :: "rz_env \<Rightarrow> rz_world \<Rightarrow> bool" where
  "use_ws env w = option2bool ''allow-websocket'' (cfg_get_option (re_cfg env) (rw_cfg w) ''allow-websocket'')"

definition is_udp_disabled :: "rz_env \<Rightarrow> rz_world \<Rightarrow> bool" where
  "is_udp_disabled env w \<longleftrightarrow> cfg_get_option (re_cfg env) (rw_cfg w) ''disable-udp'' = ''Y''"

definition stop_service :: "rz_env \<Rightarrow> rz_world \<Rightarrow> bool" where
  "stop_service env w = option2bool ''stop-service'' (cfg_get_option (re_cfg env) (rw_cfg w) ''stop-service'')"

subsection \<open>Registration\<close>

definition restart :: "rz_world \<Rightarrow> rz_world" where
  "restart w = w\<lparr>rw_exit := True, rw_restarted := True\<rparr>"

definition get_host_prefix :: "string \<Rightarrow> string" where
  "get_host_prefix host =
    (case split_on CHR ''.'' host of
       x # _ \<Rightarrow> if parse_i32 x \<noteq> None then host else x
     | [] \<Rightarrow> host)"

definition new_mediator :: "string \<Rightarrow> target_addr \<Rightarrow> mediator" where
  "new_mediator host addr = \<lparr>rz_addr = addr, rz_host = host, rz_host_prefix = get_host_prefix host, rz_keep_alive = DEFAULT_KEEP_ALIVE\<rparr>"

definition world_id :: "rz_env \<Rightarrow> rz_fresh \<Rightarrow> rz_world \<Rightarrow> rz_world \<times> bytes" where
  "world_id env fr w = (case get_id (re_cfg env) (fr_gen fr) (rw_cfg w) of (s, i) \<Rightarrow> (w\<lparr>rw_cfg := s\<rparr>, i))"

definition world_key_pair :: "rz_fresh \<Rightarrow> rz_world \<Rightarrow> rz_world \<times> bytes \<times> bytes" where
  "world_key_pair fr w =
    (case get_key_pair (fr_key fr) (rw_cfg w) of
       (s, p, store) \<Rightarrow> (w\<lparr>rw_cfg := s, rw_pending := rw_pending w @ (case store of Some q \<Rightarrow> [q] | None \<Rightarrow> [])\<rparr>, p))"

definition get_uuid :: "rz_env \<Rightarrow> rz_fresh \<Rightarrow> rz_world \<Rightarrow> rz_world \<times> bytes" where
  "get_uuid env fr w =
    (case re_machine_uid env of Some i \<Rightarrow> (w, i) | None \<Rightarrow> (case world_key_pair fr w of (w, _, pk) \<Rightarrow> (w, pk)))"

definition rz_send :: "rz_fresh \<Rightarrow> rz_out \<Rightarrow> rz_world \<Rightarrow> rz_world \<times> rz_out list \<times> rz_end" where
  "rz_send fr m w = (if fr_sent fr then (w, [m], Go) else (w, [], Fail SendFailed))"

definition register_pk :: "rz_env \<Rightarrow> rz_fresh \<Rightarrow> rz_world \<Rightarrow> rz_world \<times> rz_out list \<times> rz_end" where
  "register_pk env fr w =
    (case world_key_pair fr w of (w, _, pk) \<Rightarrow>
     case get_uuid env fr w of (w, uuid) \<Rightarrow>
     case world_id env fr w of (w, i) \<Rightarrow>
       rz_send fr (RegisterPk i uuid pk (no_register_device (re_builtin env))) w)"

definition handle_uuid_mismatch :: "rz_env \<Rightarrow> rz_fresh \<Rightarrow> mediator \<Rightarrow> rz_world \<Rightarrow> rz_world \<times> rz_out list \<times> rz_end" where
  "handle_uuid_mismatch env fr rz w =
    (if rw_solving w = [] \<or> rw_solving w = rz_host rz then
       let s = set_key_confirmed (re_cfg env) False (rw_cfg w);
           s = update_id (re_cfg env) (fr_gen fr) (fr_new_id fr) s in
       register_pk env fr (w\<lparr>rw_cfg := s, rw_solving := rz_host rz\<rparr>)
     else (w, [], Go))"

definition key_confirmed :: "mediator \<Rightarrow> rz_world \<Rightarrow> bool" where
  "key_confirmed rz w \<longleftrightarrow> cf_key_confirmed (gs_config (rw_cfg w)) \<and> get_host_key_confirmed (rz_host_prefix rz) (rw_cfg w)"

definition may_register :: "mediator \<Rightarrow> rz_world \<Rightarrow> bool" where
  "may_register rz w \<longleftrightarrow> (rw_solving w = [] \<or> rw_solving w = rz_host rz) \<and> key_confirmed rz w"

text \<open>What \<open>register_peer\<close> does after its checks: read the id and the serial, and send them.\<close>

definition send_register_peer :: "rz_env \<Rightarrow> rz_fresh \<Rightarrow> rz_world \<Rightarrow> rz_world \<times> rz_out list \<times> rz_end" where
  "send_register_peer env fr w =
    (case world_id env fr w of (w, i) \<Rightarrow> rz_send fr (RegisterPeer i (get_serial (rw_cfg w))) w)"

definition register_peer :: "rz_env \<Rightarrow> rz_fresh \<Rightarrow> mediator \<Rightarrow> rz_world \<Rightarrow> rz_world \<times> rz_out list \<times> rz_end" where
  "register_peer env fr rz w =
    (if \<not> (rw_solving w = [] \<or> rw_solving w = rz_host rz) then (w, [], Go)
     else if \<not> key_confirmed rz w then register_pk env fr w
     else send_register_peer env fr w)"

text \<open>
  The handler of a message, with the closure \<open>update_latency\<close> of the loop that received it as an argument. It gives
  the mediator, the state of the loop with the shared state, the messages sent, and the tasks spawned.
\<close>

definition pk_response :: "rz_env \<Rightarrow> rz_fresh \<Rightarrow> mediator \<Rightarrow> pk_result \<Rightarrow> rz_world \<Rightarrow> rz_world \<times> rz_out list \<times> rz_end" where
  "pk_response env fr rz r w =
    (case r of
       PkOk \<Rightarrow>
         let s = set_key_confirmed (re_cfg env) True (rw_cfg w);
             s = set_host_key_confirmed (re_cfg env) (rz_host_prefix rz) True s in
         (w\<lparr>rw_cfg := s, rw_solving := []\<rparr>, [], Go)
     | UuidMismatch \<Rightarrow> handle_uuid_mismatch env fr rz w
     | PkOther \<Rightarrow> (w, [], Go))"

definition configure_update :: "rz_env \<Rightarrow> int \<Rightarrow> string list \<Rightarrow> rz_world \<Rightarrow> rz_world" where
  "configure_update env serial servers w =
    (let v0 = get_rendezvous_servers (re_cfg env) (rw_cfg w);
         joined = (case servers of [] \<Rightarrow> [] | x # xs \<Rightarrow> x @ concat (map (\<lambda>y. CHR '','' # y) xs));
         s = cfg_set_option (re_cfg env) ''rendezvous-servers'' joined (rw_cfg w);
         s = set_serial (re_cfg env) serial s;
         w = w\<lparr>rw_cfg := s\<rparr> in
     if v0 \<noteq> get_rendezvous_servers (re_cfg env) s then restart w else w)"

definition handle_resp ::
  "rz_env \<Rightarrow> rz_fresh \<Rightarrow> ('l \<times> rz_world \<Rightarrow> 'l \<times> rz_world) \<Rightarrow> rz_union \<Rightarrow> mediator \<Rightarrow> 'l \<Rightarrow> rz_world
   \<Rightarrow> mediator \<times> 'l \<times> rz_world \<times> rz_out list \<times> rz_task list \<times> rz_end" where
  "handle_resp env fr upd msg rz l w =
    (case msg of
       RegisterPeerResponse request_pk \<Rightarrow>
         (case upd (l, w) of (l, w) \<Rightarrow>
            if request_pk then (case register_pk env fr w of (w, sent, e) \<Rightarrow> (rz, l, w, sent, [], e))
            else (rz, l, w, [], [], Go))
     | RegisterPkResponse r keep_alive \<Rightarrow>
         (case upd (l, w) of (l, w) \<Rightarrow>
          case pk_response env fr rz r w of (w, sent, e) \<Rightarrow>
            (if e = Go \<and> sint keep_alive > 0 then rz\<lparr>rz_keep_alive := keep_alive * 1000\<rparr> else rz, l, w, sent, [], e))
     | PunchHole ph \<Rightarrow> (rz, l, w, [], [TaskPunch ph], Go)
     | RequestRelay rr \<Rightarrow> (rz, l, w, [], [TaskRelay rr], Go)
     | FetchLocalAddr fla \<Rightarrow> (rz, l, w, [], [TaskLocal fla], Go)
     | ConfigureUpdate serial servers \<Rightarrow> (rz, l, configure_update env serial servers w, [], [], Go)
     | OtherUnion \<Rightarrow> (rz, l, w, [], [], Go))"

subsection \<open>The loop over UDP\<close>

record udp_loop =
  ul_reg_timeout :: int
  ul_fails :: int
  ul_resp :: "nat option"
  ul_sent :: "nat option"
  ul_dns_check :: nat
  ul_old_latency :: int
  ul_ema_latency :: int

definition udp_init :: "nat \<Rightarrow> udp_loop" where
  "udp_init now = \<lparr>ul_reg_timeout = MIN_REG_TIMEOUT, ul_fails = 0, ul_resp = None, ul_sent = None, ul_dns_check = now,
     ul_old_latency = 0, ul_ema_latency = 0\<rparr>"

definition udp_update_latency :: "rz_env \<Rightarrow> string \<Rightarrow> nat \<Rightarrow> udp_loop \<times> rz_world \<Rightarrow> udp_loop \<times> rz_world" where
  "udp_update_latency env host now = (\<lambda>(l, w).
    let latency = (case ul_sent l of Some x \<Rightarrow> int (now - x) | None \<Rightarrow> 0);
        l = l\<lparr>ul_resp := Some now, ul_fails := 0, ul_reg_timeout := MIN_REG_TIMEOUT, ul_sent := None\<rparr> in
    if latency < 0 \<or> latency > 1000000 then (l, w)
    else let ema = (if ul_ema_latency l = 0 then latency else latency div 30 + ul_ema_latency l * 29 div 30);
             latency = (if ul_ema_latency l = 0 then latency else ema);
             l = l\<lparr>ul_ema_latency := ema\<rparr>;
             n = (if latency div 5 < 3000 then 3000 else latency div 5) in
         if \<bar>latency - ul_old_latency l\<bar> > n \<or> ul_old_latency l \<le> 0
         then (l\<lparr>ul_old_latency := latency\<rparr>, w\<lparr>rw_cfg := update_latency (re_cfg env) host latency (rw_cfg w)\<rparr>)
         else (l, w))"

text \<open>The datagram socket: bytes that do not parse are skipped, and empty ones are a message without content.\<close>

definition udp_recv ::
  "rz_env \<Rightarrow> rz_fresh \<Rightarrow> nat \<Rightarrow> rz_frame \<Rightarrow> mediator \<Rightarrow> udp_loop \<Rightarrow> rz_world
   \<Rightarrow> mediator \<times> udp_loop \<times> rz_world \<times> rz_out list \<times> rz_task list \<times> rz_end" where
  "udp_recv env fr now frame rz l w =
    (case frame of
       FrameNone \<Rightarrow> (rz, l, w, [], [], Fail ConnClosed)
     | FrameErr \<Rightarrow> (rz, l, w, [], [], Fail RecvFailed)
     | FrameGarbage \<Rightarrow> (rz, l, w, [], [], Go)
     | FrameEmpty \<Rightarrow> handle_resp env fr (udp_update_latency env (rz_host rz) now) OtherUnion rz l w
     | FrameMsg msg \<Rightarrow> handle_resp env fr (udp_update_latency env (rz_host rz) now) msg rz l w)"

text \<open>\<open>resolved\<close> is the new address of the host, if it can be looked up and a new socket bound.\<close>

definition rebind_udp_for :: "rz_env \<Rightarrow> target_addr option \<Rightarrow> rz_world \<Rightarrow> (target_addr option, rz_error) result" where
  "rebind_udp_for env resolved w =
    (if get_network_type (re_cfg env) (rw_cfg w) \<noteq> Direct then Ok None
     else case resolved of Some a \<Rightarrow> Ok (Some a) | None \<Rightarrow> Err RebindFailed)"

definition udp_missed ::
  "rz_env \<Rightarrow> target_addr option \<Rightarrow> nat \<Rightarrow> mediator \<Rightarrow> udp_loop \<Rightarrow> rz_world \<Rightarrow> mediator \<times> udp_loop \<times> rz_world \<times> rz_end" where
  "udp_missed env resolved now rz l w =
    (let l = l\<lparr>ul_fails := ul_fails l + 1\<rparr> in
     if ul_fails l \<ge> MAX_FAILS2 then
       let w = w\<lparr>rw_cfg := update_latency (re_cfg env) (rz_host rz) (- 1) (rw_cfg w)\<rparr>;
           l = l\<lparr>ul_old_latency := 0\<rparr> in
       if ms_since now (ul_dns_check l) > DNS_INTERVAL then
         (case rebind_udp_for env resolved w of
            Err e \<Rightarrow> (rz, l, w, Fail e)
          | Ok (Some a) \<Rightarrow> (rz\<lparr>rz_addr := a\<rparr>, l\<lparr>ul_dns_check := now\<rparr>, w, Go)
          | Ok None \<Rightarrow> (rz, l\<lparr>ul_dns_check := now\<rparr>, w, Go))
       else (rz, l, w, Go)
     else if ul_fails l \<ge> MAX_FAILS1 then
       (rz, l\<lparr>ul_old_latency := 0\<rparr>, w\<lparr>rw_cfg := update_latency (re_cfg env) (rz_host rz) 0 (rw_cfg w)\<rparr>, Go)
     else (rz, l, w, Go))"

text \<open>The timer of every second; \<open>public\<close> tells whether the public server is in use.\<close>

definition reg_timed_out :: "nat \<Rightarrow> udp_loop \<Rightarrow> bool" where
  "reg_timed_out now l \<longleftrightarrow> (case ul_sent l of Some x \<Rightarrow> ms_since now x \<ge> ul_reg_timeout l | None \<Rightarrow> False)"

definition reg_expired :: "nat \<Rightarrow> udp_loop \<Rightarrow> bool" where
  "reg_expired now l \<longleftrightarrow> (case ul_resp l of Some x \<Rightarrow> ms_since now x \<ge> REG_INTERVAL | None \<Rightarrow> True)"

text \<open>The timer up to the registration, and whether a registration is due.\<close>

definition udp_due ::
  "rz_env \<Rightarrow> bool \<Rightarrow> target_addr option \<Rightarrow> nat \<Rightarrow> mediator \<Rightarrow> udp_loop \<Rightarrow> rz_world
   \<Rightarrow> mediator \<times> udp_loop \<times> rz_world \<times> rz_end \<times> bool" where
  "udp_due env public resolved now rz l w =
    (if rw_exit w then (rz, l, w, Exit, False)
     else
       let timeout = reg_timed_out now l;
           expired = reg_expired now l;
           l = (if public \<and> timeout \<and> ul_reg_timeout l < MAX_REG_TIMEOUT
                then l\<lparr>ul_reg_timeout := ul_reg_timeout l + MIN_REG_TIMEOUT\<rparr> else l) in
       if timeout \<or> ul_sent l = None \<and> expired then
         (case (if timeout then udp_missed env resolved now rz l w else (rz, l, w, Go)) of
            (rz, l, w, e) \<Rightarrow> (rz, l, w, e, e = Go))
       else (rz, l, w, Go, False))"

definition udp_tick ::
  "rz_env \<Rightarrow> rz_fresh \<Rightarrow> bool \<Rightarrow> target_addr option \<Rightarrow> nat \<Rightarrow> mediator \<Rightarrow> udp_loop \<Rightarrow> rz_world
   \<Rightarrow> mediator \<times> udp_loop \<times> rz_world \<times> rz_out list \<times> rz_end" where
  "udp_tick env fr public resolved now rz l w =
    (case udp_due env public resolved now rz l w of
       (rz, l, w, e, False) \<Rightarrow> (rz, l, w, [], e)
     | (rz, l, w, e, True) \<Rightarrow>
         (case register_peer env fr rz w of
            (w, sent, e) \<Rightarrow> (rz, if e = Go then l\<lparr>ul_sent := Some now\<rparr> else l, w, sent, e)))"

lemma udp_tick_eq:
  "udp_tick env fr public resolved now rz l w =
    (if rw_exit w then (rz, l, w, [], Exit)
     else
       let timeout = reg_timed_out now l;
           expired = reg_expired now l;
           l = (if public \<and> timeout \<and> ul_reg_timeout l < MAX_REG_TIMEOUT
                then l\<lparr>ul_reg_timeout := ul_reg_timeout l + MIN_REG_TIMEOUT\<rparr> else l) in
       if timeout \<or> ul_sent l = None \<and> expired then
         (case (if timeout then udp_missed env resolved now rz l w else (rz, l, w, Go)) of
            (rz, l, w, Go) \<Rightarrow>
              (case register_peer env fr rz w of
                 (w, sent, e) \<Rightarrow> (rz, if e = Go then l\<lparr>ul_sent := Some now\<rparr> else l, w, sent, e))
          | (rz, l, w, e) \<Rightarrow> (rz, l, w, [], e))
       else (rz, l, w, [], Go))"
proof -
  let ?l = "if public \<and> reg_timed_out now l \<and> ul_reg_timeout l < MAX_REG_TIMEOUT
            then l\<lparr>ul_reg_timeout := ul_reg_timeout l + MIN_REG_TIMEOUT\<rparr> else l"
  obtain rz1 l1 w1 e1 where m: "(if reg_timed_out now l then udp_missed env resolved now rz ?l w else (rz, ?l, w, Go)) = (rz1, l1, w1, e1)"
    by (metis prod_cases4)
  show ?thesis unfolding udp_tick_def udp_due_def Let_def m by (simp split: rz_end.split bool.split)
qed

subsection \<open>The loop over TCP\<close>

record tcp_loop =
  tl_sent :: "nat option"
  tl_recv :: nat

text \<open>A new connection starts with an unconfirmed key of the host.\<close>

definition tcp_init :: "rz_env \<Rightarrow> string \<Rightarrow> socket_addr \<Rightarrow> nat \<Rightarrow> rz_world \<Rightarrow> mediator \<times> tcp_loop \<times> rz_world" where
  "tcp_init env host local now w =
    (let host = check_port host RENDEZVOUS_PORT;
         rz = new_mediator host (TargetIp local) in
     (rz, \<lparr>tl_sent = None, tl_recv = now\<rparr>,
      w\<lparr>rw_cfg := set_host_key_confirmed (re_cfg env) (rz_host_prefix rz) False (rw_cfg w)\<rparr>))"

definition tcp_update_latency :: "rz_env \<Rightarrow> string \<Rightarrow> nat \<Rightarrow> tcp_loop \<times> rz_world \<Rightarrow> tcp_loop \<times> rz_world" where
  "tcp_update_latency env host now = (\<lambda>(l, w).
    let latency = (case tl_sent l of Some x \<Rightarrow> int (now - x) | None \<Rightarrow> 0) in
    (l, w\<lparr>rw_cfg := update_latency (re_cfg env) host latency (rw_cfg w)\<rparr>))"

definition tcp_recv ::
  "rz_env \<Rightarrow> rz_fresh \<Rightarrow> nat \<Rightarrow> rz_frame \<Rightarrow> mediator \<Rightarrow> tcp_loop \<Rightarrow> rz_world
   \<Rightarrow> mediator \<times> tcp_loop \<times> rz_world \<times> rz_out list \<times> rz_task list \<times> rz_end" where
  "tcp_recv env fr now frame rz l w =
    (let l = l\<lparr>tl_recv := now\<rparr> in
     case frame of
       FrameNone \<Rightarrow> (rz, l, w, [], [], Fail ConnClosed)
     | FrameErr \<Rightarrow> (rz, l, w, [], [], Fail RecvFailed)
     | FrameEmpty \<Rightarrow> (case rz_send fr Heartbeat w of (w, sent, e) \<Rightarrow> (rz, l, w, sent, [], e))
     | FrameGarbage \<Rightarrow> (rz, l, w, [], [], Fail BadMessage)
     | FrameMsg msg \<Rightarrow> handle_resp env fr (tcp_update_latency env (rz_host rz) now) msg rz l w)"

definition keep_alive_limit :: "i32 \<Rightarrow> u64" where
  "keep_alive_limit k = (scast k * 3) div 2"

definition tcp_tick ::
  "rz_env \<Rightarrow> rz_fresh \<Rightarrow> nat \<Rightarrow> mediator \<Rightarrow> tcp_loop \<Rightarrow> rz_world \<Rightarrow> mediator \<times> tcp_loop \<times> rz_world \<times> rz_out list \<times> rz_end" where
  "tcp_tick env fr now rz l w =
    (if rw_exit w then (rz, l, w, [], Exit)
     else if of_int (ms_since now (tl_recv l)) > keep_alive_limit (rz_keep_alive rz) then (rz, l, w, [], Fail KeepAliveExpired)
     else if \<not> key_confirmed rz w \<and> (case tl_sent l of Some x \<Rightarrow> ms_since now x | None \<Rightarrow> REG_INTERVAL) \<ge> REG_INTERVAL then
       (case register_pk env fr w of (w, sent, e) \<Rightarrow> (rz, if e = Go then l\<lparr>tl_sent := Some now\<rparr> else l, w, sent, e))
     else (rz, l, w, [], Go))"

text \<open>Which loop a server gets; \<open>test_tcp\<close> is the switch of a debug build.\<close>

definition start_over_tcp :: "rz_env \<Rightarrow> bool \<Rightarrow> rz_world \<Rightarrow> bool" where
  "start_over_tcp env test_tcp w \<longleftrightarrow> test_tcp \<or> is_proxy (re_cfg env) (rw_cfg w) \<or> use_ws env w \<or> is_udp_disabled env w"

subsection \<open>Meeting a client\<close>

datatype rz_act =
    StartIpv6 socket_addr socket_addr
  | SendRelayResponse bytes string string "bytes option" string bytes
  | RelayConnection string string socket_addr bool
  | SendLocalAddr bytes bytes bytes string string bytes
  | OpenGateway socket_addr socket_addr
  | SendPunchHoleSent bytes bytes string int string bytes
  | AcceptConnection socket_addr
  | UdpNatListen socket_addr

text \<open>
  The answers of the network to one task: the local IPv6 address that \<open>start_ipv6\<close> offers, the local address of the
  connection to the rendezvous server and whether the message goes out on it, the same for the connection made
  for a relay, a fresh UUID, whether a datagram socket could be had, its send and the listener on it, and the
  clock that mangles addresses.
\<close>

record rz_net =
  nt_now :: nat
  nt_ipv6 :: bytes
  nt_connect :: "socket_addr option"
  nt_sent :: bool
  nt_relay_connect :: bool
  nt_relay_sent :: bool
  nt_uuid :: string
  nt_udp :: bool
  nt_listen :: bool
  nt_micros :: u32

fun addr_port :: "socket_addr \<Rightarrow> u16" where
  "addr_port (V4 _ p) = p"
| "addr_port (V6 _ p _ _) = p"

fun set_port :: "u16 \<Rightarrow> socket_addr \<Rightarrow> socket_addr" where
  "set_port p (V4 ip _) = V4 ip p"
| "set_port p (V6 ip _ flow scope) = V6 ip p flow scope"

text \<open>The text \<open>ip:port\<close> of a socket address is a socket address again only for IPv4; IPv6 needs brackets.\<close>

fun reparse_addr :: "socket_addr \<Rightarrow> socket_addr option" where
  "reparse_addr (V4 ip p) = Some (V4 ip p)"
| "reparse_addr (V6 _ _ _ _) = None"

definition get_relay_server :: "rz_env \<Rightarrow> mediator \<Rightarrow> string \<Rightarrow> rz_world \<Rightarrow> string" where
  "get_relay_server env rz provided w =
    (let relay_server = cfg_get_option (re_cfg env) (rw_cfg w) ''relay-server'';
         relay_server = (if relay_server = [] then provided else relay_server) in
     if relay_server = [] then increase_port (rz_host rz) 1 else relay_server)"

definition relay_target :: "string \<Rightarrow> bool \<Rightarrow> string" where
  "relay_target relay_server ipv4 = ipv4_to_ipv6 (check_port relay_server RELAY_PORT) ipv4"

definition create_relay ::
  "rz_env \<Rightarrow> rz_fresh \<Rightarrow> rz_net \<Rightarrow> mediator \<Rightarrow> bytes \<Rightarrow> string \<Rightarrow> string \<Rightarrow> bool \<Rightarrow> bool \<Rightarrow> bytes \<Rightarrow> rz_world
   \<Rightarrow> rz_world \<times> rz_act list \<times> rz_end" where
  "create_relay env fr net rz socket_addr relay_server uuid secure initiate socket_addr_v6 w =
    (if \<not> nt_relay_connect net then (w, [], Fail ConnectFailed)
     else
       case (if initiate
             then (case world_id env fr w of
                     (w, i) \<Rightarrow> (w, SendRelayResponse socket_addr uuid relay_server (Some i) (re_version env) socket_addr_v6))
             else (w, SendRelayResponse socket_addr [] [] None (re_version env) socket_addr_v6)) of
         (w, rr) \<Rightarrow>
           if nt_relay_sent net
           then (w, [rr, RelayConnection (relay_target relay_server (is_ipv4 (rz_addr rz))) uuid (addr_decode socket_addr) secure], Go)
           else (w, [], Fail SendFailed))"

definition seen_recently :: "nat \<Rightarrow> socket_addr \<Rightarrow> socket_addr \<times> nat \<Rightarrow> bool" where
  "seen_recently now addr last_seen \<longleftrightarrow> fst last_seen = addr \<and> ms_since now (snd last_seen) < 100"

definition handle_request_relay ::
  "rz_env \<Rightarrow> rz_fresh \<Rightarrow> rz_net \<Rightarrow> mediator \<Rightarrow> request_relay \<Rightarrow> rz_world \<Rightarrow> rz_world \<times> rz_act list \<times> rz_end" where
  "handle_request_relay env fr net rz rr w =
    (let addr = addr_decode (rr_socket_addr rr);
         last_seen = rw_last_relay_msg w;
         w = w\<lparr>rw_last_relay_msg := (addr, nt_now net)\<rparr> in
     if seen_recently (nt_now net) addr last_seen then (w, [], Go)
     else create_relay env fr net rz (rr_socket_addr rr) (rr_relay_server rr) (rr_uuid rr) (rr_secure rr) False [] w)"

definition offer_ipv6 :: "rz_net \<Rightarrow> bytes \<Rightarrow> socket_addr \<Rightarrow> bool \<Rightarrow> rz_act list \<times> bytes" where
  "offer_ipv6 net v6 addr relay =
    (let peer_addr_v6 = addr_decode v6 in
     if addr_port peer_addr_v6 > 0 \<and> \<not> relay then ([StartIpv6 peer_addr_v6 addr], nt_ipv6 net) else ([], []))"

definition handle_intranet_local ::
  "rz_env \<Rightarrow> rz_fresh \<Rightarrow> rz_net \<Rightarrow> fetch_local_addr \<Rightarrow> string \<Rightarrow> bytes \<Rightarrow> rz_world \<Rightarrow> rz_world \<times> rz_act list \<times> rz_end" where
  "handle_intranet_local env fr net fla relay_server socket_addr_v6 w =
    (let peer_addr = addr_decode (fla_socket_addr fla) in
     case nt_connect net of
       None \<Rightarrow> (w, [], Fail ConnectFailed)
     | Some local \<Rightarrow>
         (case reparse_addr local of
            None \<Rightarrow> (w, [], Fail BadMessage)
          | Some local_addr \<Rightarrow>
              (case world_id env fr w of (w, i) \<Rightarrow>
                 if nt_sent net
                 then (w, [SendLocalAddr i (addr_encode (nt_micros net) peer_addr) (addr_encode (nt_micros net) local_addr)
                             relay_server (re_version env) socket_addr_v6, AcceptConnection peer_addr], Go)
                 else (w, [], Fail SendFailed))))"

definition handle_intranet ::
  "rz_env \<Rightarrow> rz_fresh \<Rightarrow> rz_net \<Rightarrow> mediator \<Rightarrow> fetch_local_addr \<Rightarrow> rz_world \<Rightarrow> rz_world \<times> rz_act list \<times> rz_end" where
  "handle_intranet env fr net rz fla w =
    (let addr = addr_decode (fla_socket_addr fla);
         last_seen = rw_last_msg w;
         w = w\<lparr>rw_last_msg := (addr, nt_now net)\<rparr> in
     if seen_recently (nt_now net) addr last_seen then (w, [], Go)
     else
       let relay_server = get_relay_server env rz (fla_relay_server fla) w;
           relay = (use_ws env w \<or> is_proxy (re_cfg env) (rw_cfg w));
           (acts, v6) = offer_ipv6 net (fla_socket_addr_v6 fla) addr relay;
           by_relay = (\<lambda>w. case create_relay env fr net rz (fla_socket_addr fla) relay_server (nt_uuid net) True True v6 w of
                              (w, acts', e) \<Rightarrow> (w, acts @ acts', e)) in
       if is_ipv4 (rz_addr rz) \<and> \<not> relay \<and> \<not> is_disable_tcp_listen (ce_hard (re_cfg env)) then
         (case handle_intranet_local env fr net fla relay_server v6 w of
            (w, acts', Go) \<Rightarrow> (w, acts @ acts', Go)
          | (w, _, _) \<Rightarrow> by_relay w)
       else by_relay w)"

definition punch_udp_hole :: "rz_net \<Rightarrow> socket_addr \<Rightarrow> rz_act \<Rightarrow> rz_world \<Rightarrow> rz_world \<times> rz_act list \<times> rz_end" where
  "punch_udp_hole net peer_addr msg_punch w =
    (if \<not> nt_udp net then (w, [], Fail ConnectFailed)
     else if \<not> nt_sent net then (w, [], Fail SendFailed)
     else (w, [msg_punch, msg_punch, msg_punch, UdpNatListen peer_addr], if nt_listen net then Go else Fail RecvFailed))"

definition handle_punch_hole ::
  "rz_env \<Rightarrow> rz_fresh \<Rightarrow> rz_net \<Rightarrow> mediator \<Rightarrow> punch_hole \<Rightarrow> rz_world \<Rightarrow> rz_world \<times> rz_act list \<times> rz_end" where
  "handle_punch_hole env fr net rz ph w =
    (let peer_addr = addr_decode (ph_socket_addr ph);
         last_seen = rw_last_msg w;
         w = w\<lparr>rw_last_msg := (peer_addr, nt_now net)\<rparr> in
     if seen_recently (nt_now net) peer_addr last_seen then (w, [], Go)
     else
       let nat_type = c2_nat_type (gs_config2 (rw_cfg w));
           relay = (use_ws env w \<or> is_proxy (re_cfg env) (rw_cfg w) \<or> ph_force_relay ph);
           (acts, v6) = offer_ipv6 net (ph_socket_addr_v6 ph) peer_addr relay;
           relay_server = get_relay_server env rz (ph_relay_server ph) w in
       if ph_nat_type ph = SYMMETRIC \<or> nat_type = SYMMETRIC \<or> relay
          \<or> is_disable_tcp_listen (ce_hard (re_cfg env)) \<and> ph_udp_port ph \<le> 0 then
         (case create_relay env fr net rz (ph_socket_addr ph) relay_server (nt_uuid net) True True v6 w of
            (w, acts', e) \<Rightarrow> (w, acts @ acts', e))
       else
         case world_id env fr w of (w, i) \<Rightarrow>
           let msg_punch = SendPunchHoleSent (ph_socket_addr ph) i relay_server (if nat_type \<in> {0, 1, 2} then nat_type else 0)
                             (re_version env) v6 in
           if ph_udp_port ph > 0 then
             (case punch_udp_hole net (set_port (of_int (ph_udp_port ph)) peer_addr) msg_punch w of
                (w, acts', e) \<Rightarrow> (w, acts @ acts', e))
           else
             case nt_connect net of
               None \<Rightarrow> (w, acts, Fail ConnectFailed)
             | Some local_addr \<Rightarrow>
                 if nt_sent net
                 then (w, acts @ [OpenGateway peer_addr local_addr, msg_punch, AcceptConnection peer_addr], Go)
                 else (w, acts @ [OpenGateway peer_addr local_addr], Fail SendFailed))"

definition run_task :: "rz_env \<Rightarrow> rz_fresh \<Rightarrow> rz_net \<Rightarrow> mediator \<Rightarrow> rz_task \<Rightarrow> rz_world \<Rightarrow> rz_world \<times> rz_act list \<times> rz_end" where
  "run_task env fr net rz t w =
    (case t of
       TaskPunch ph \<Rightarrow> handle_punch_hole env fr net rz ph w
     | TaskRelay rr \<Rightarrow> handle_request_relay env fr net rz rr w
     | TaskLocal fla \<Rightarrow> handle_intranet env fr net rz fla w)"

subsection \<open>The rounds of \<open>start_all\<close> and the direct server\<close>

text \<open>A round starts a mediator for every server, or, while the service is stopped, closes the connections.\<close>

definition start_round :: "rz_env \<Rightarrow> bool \<Rightarrow> rz_world \<Rightarrow> rz_world \<times> string list option" where
  "start_round env installing w =
    (let w = w\<lparr>rw_solving := []\<rparr> in
     if \<not> stop_service env w \<and> \<not> installing
     then (w\<lparr>rw_exit := False, rw_restarted := False\<rparr>, Some (get_rendezvous_servers (re_cfg env) (rw_cfg w)))
     else (w, None))"

definition round_timeout :: "string list \<Rightarrow> int" where
  "round_timeout errors =
    (if \<exists>e \<in> set errors. str_contains e ''10054'' \<or> str_contains e ''11001'' then 3000 else CONNECT_TIMEOUT)"

text \<open>The pause after a round, in milliseconds; the pause after an ordinary round is in whole seconds.\<close>

definition end_round :: "int \<Rightarrow> int \<Rightarrow> rz_world \<Rightarrow> rz_world \<times> int" where
  "end_round timeout elapsed w =
    (w\<lparr>rw_cfg := reset_online (rw_cfg w)\<rparr>,
     if rw_restarted w then 33 else if elapsed < timeout then (timeout - elapsed) div 1000 * 1000 else 0)"

definition get_direct_port :: "rz_env \<Rightarrow> rz_world \<Rightarrow> int" where
  "get_direct_port env w =
    (let port = unwrap_or (parse_i32 (cfg_get_option (re_cfg env) (rw_cfg w) ''direct-access-port'')) 0 in
     if port \<le> 0 then RENDEZVOUS_PORT + 2 else port)"

datatype direct_state = NoListener | Listening int | WaitPort int

definition direct_disabled :: "rz_env \<Rightarrow> rz_world \<Rightarrow> bool" where
  "direct_disabled env w \<longleftrightarrow>
     \<not> option2bool ''direct-server'' (cfg_get_option (re_cfg env) (rw_cfg w) ''direct-server'') \<or> stop_service env w"

text \<open>
  One pass of \<open>direct_server\<close>: the new state, and whether a connection is accepted in it. After a failed bind it waits
  until another port is configured.
\<close>

definition direct_pass :: "rz_env \<Rightarrow> (u16 \<Rightarrow> bool) \<Rightarrow> bool \<Rightarrow> rz_world \<Rightarrow> direct_state \<Rightarrow> direct_state \<times> bool" where
  "direct_pass env binds incoming w d =
    (let disabled = direct_disabled env w; configured = get_direct_port env w in
     case d of
       WaitPort port \<Rightarrow> (if port \<noteq> configured then NoListener else WaitPort port, False)
     | NoListener \<Rightarrow>
         if disabled then (NoListener, False)
         else if binds (of_int configured) then (Listening configured, incoming)
         else (WaitPort configured, False)
     | Listening port \<Rightarrow>
         if disabled \<or> port \<noteq> configured then (NoListener, False) else (Listening port, incoming))"

subsection \<open>Several mediators\<close>

text \<open>
  The mediators of a round over UDP, with their loops and whether they still run, in any interleaving with each
  other and with the rest of the program, which only ever withdraws the confirmation of the key: \<open>Config::set\<close>, by which
  a configuration with confirmed keys is copied from another process, is left out. A mediator that ends makes the others
  end. A message is handled in one step. A timer is two: between the checks of \<open>register_peer\<close> and the reading and sending
  of the id (\<open>rp_registering\<close>, with the time of the tick) other mediators may run, while this one waits. (The checks
  are one step: the last of them reads whether the key is confirmed for the host.)
\<close>

record rz_peer =
  rp_rz :: mediator
  rp_loop :: udp_loop
  rp_runs :: bool
  rp_registering :: "nat option"

record rz_sys =
  ss_peers :: "rz_peer list"
  ss_world :: rz_world

datatype rz_event =
    Recv nat rz_fresh nat rz_frame
  | Tick nat rz_fresh bool "target_addr option" nat
  | SendPeer nat rz_fresh
  | StorePair
  | OtherOp cfg_op

fun other_op :: "cfg_op \<Rightarrow> bool" where
  "other_op (SetKeyConfirmed v) = (\<not> v)"
| "other_op (SetHostKeyConfirmed _ v) = (\<not> v)"
| "other_op (SetConfig _) = False"
| "other_op _ = True"

definition sys_put :: "nat \<Rightarrow> mediator \<Rightarrow> udp_loop \<Rightarrow> nat option \<Rightarrow> rz_world \<Rightarrow> rz_end \<Rightarrow> rz_sys \<Rightarrow> rz_sys" where
  "sys_put i rz l reg w e s =
     s\<lparr>ss_peers := (ss_peers s)[i := \<lparr>rp_rz = rz, rp_loop = l, rp_runs = (e = Go), rp_registering = reg\<rparr>],
       ss_world := (if e = Go then w else w\<lparr>rw_exit := True\<rparr>)\<rparr>"

definition runs :: "rz_sys \<Rightarrow> nat \<Rightarrow> bool" where
  "runs s i \<longleftrightarrow> i < length (ss_peers s) \<and> rp_runs (ss_peers s ! i) \<and> rp_registering (ss_peers s ! i) = None"

text \<open>A step gives the new state and the messages sent, each with the host it goes to.\<close>

fun sys_step :: "rz_env \<Rightarrow> rz_event \<Rightarrow> rz_sys \<Rightarrow> rz_sys \<times> (mediator \<times> rz_out) list" where
  "sys_step env (Recv i fr now frame) s =
    (if runs s i then
       let p = ss_peers s ! i in
       case udp_recv env fr now frame (rp_rz p) (rp_loop p) (ss_world s) of
         (rz, l, w, sent, _, e) \<Rightarrow> (sys_put i rz l None w e s, map (Pair rz) sent)
     else (s, []))"
| "sys_step env (Tick i fr public resolved now) s =
    (if runs s i then
       let p = ss_peers s ! i in
       case udp_due env public resolved now (rp_rz p) (rp_loop p) (ss_world s) of
         (rz, l, w, e, due) \<Rightarrow>
           if due \<and> may_register rz w then (sys_put i rz l (Some now) w Go s, [])
           else case udp_tick env fr public resolved now (rp_rz p) (rp_loop p) (ss_world s) of
             (rz, l, w, sent, e) \<Rightarrow> (sys_put i rz l None w e s, map (Pair rz) sent)
     else (s, []))"
| "sys_step env (SendPeer i fr) s =
    (if i < length (ss_peers s) then
       let p = ss_peers s ! i in
       case rp_registering p of
         None \<Rightarrow> (s, [])
       | Some now \<Rightarrow>
           (case send_register_peer env fr (ss_world s) of
              (w, sent, e) \<Rightarrow>
                (sys_put i (rp_rz p) (if e = Go then (rp_loop p)\<lparr>ul_sent := Some now\<rparr> else rp_loop p) None w e s,
                 map (Pair (rp_rz p)) sent))
     else (s, []))"
| "sys_step env StorePair s =
    (case rw_pending (ss_world s) of
       [] \<Rightarrow> (s, [])
     | p # ps \<Rightarrow> (s\<lparr>ss_world := (ss_world s)\<lparr>rw_pending := ps, rw_cfg := store_key_pair (re_cfg env) p (rw_cfg (ss_world s))\<rparr>\<rparr>, []))"
| "sys_step env (OtherOp x) s =
    (if other_op x then (s\<lparr>ss_world := (ss_world s)\<lparr>rw_cfg := cfg_step (re_cfg env) x (rw_cfg (ss_world s))\<rparr>\<rparr>, []) else (s, []))"

fun sys_run :: "rz_env \<Rightarrow> rz_event list \<Rightarrow> rz_sys \<Rightarrow> rz_sys \<times> (mediator \<times> rz_out) list" where
  "sys_run env [] s = (s, [])"
| "sys_run env (e # es) s =
    (case sys_step env e s of (s, sent) \<Rightarrow> case sys_run env es s of (s, sent') \<Rightarrow> (s, sent @ sent'))"

lemma sys_run_append:
  "sys_run env (xs @ ys) s =
     (case sys_run env xs s of (s, sent) \<Rightarrow> case sys_run env ys s of (s, sent') \<Rightarrow> (s, sent @ sent'))"
  by (induction xs arbitrary: s) (auto split: prod.splits)

subsection \<open>Confirmed keys\<close>

abbreviation keys_of :: "rz_world \<Rightarrow> (string, bool) hmap" where
  "keys_of w \<equiv> cf_keys_confirmed (gs_config (rw_cfg w))"

lemma store_keeps [simp]:
  "gs_config (config_store env s) = gs_config s" "gs_config (config2_store env s) = gs_config s"
  "gs_config2 (config_store env s) = gs_config2 s" "gs_config2 (config2_store env s) = gs_config2 s"
  "gs_online (config_store env s) = gs_online s" "gs_online (config2_store env s) = gs_online s"
  by (simp_all add: config_store_def config2_store_def)

lemma on_config_config [simp]:
  "gs_config (on_config env f s) = f (gs_config s)" "gs_config (on_config2 env g s) = gs_config s"
  "gs_online (on_config env f s) = gs_online s" "gs_online (on_config2 env g s) = gs_online s"
  by (simp_all add: on_config_def on_config2_def)

lemma set_id_keeps [simp]:
  "cf_keys_confirmed (gs_config (set_id env i s)) = cf_keys_confirmed (gs_config s)"
  "cf_key_confirmed (gs_config (set_id env i s)) = cf_key_confirmed (gs_config s)"
  "gs_online (set_id env i s) = gs_online s" "gs_config2 (set_id env i s) = gs_config2 s"
  by (simp_all add: set_id_def on_config_def)

lemma get_id_keeps [simp]:
  "cf_keys_confirmed (gs_config (fst (get_id env gen s))) = cf_keys_confirmed (gs_config s)"
  "cf_key_confirmed (gs_config (fst (get_id env gen s))) = cf_key_confirmed (gs_config s)"
  "gs_online (fst (get_id env gen s)) = gs_online s" "gs_config2 (fst (get_id env gen s)) = gs_config2 s"
  by (simp_all add: get_id_def Let_def split: option.split)

lemma get_key_pair_keeps [simp]:
  "gs_config (fst (get_key_pair new s)) = gs_config s" "gs_online (fst (get_key_pair new s)) = gs_online s"
  "gs_config2 (fst (get_key_pair new s)) = gs_config2 s"
  by (simp_all add: get_key_pair_def Let_def split: option.split)

lemma update_latency_keeps [simp]:
  "gs_config (update_latency env h n s) = gs_config s"
  "gs_online (update_latency env h n s) = hm_insert h n (gs_online s)"
  by (simp_all add: update_latency_def Let_def)

lemma world_id_keeps [simp]:
  "keys_of (fst (world_id env fr w)) = keys_of w"
  "cf_key_confirmed (gs_config (rw_cfg (fst (world_id env fr w)))) = cf_key_confirmed (gs_config (rw_cfg w))"
  "gs_online (rw_cfg (fst (world_id env fr w))) = gs_online (rw_cfg w)"
  "rw_solving (fst (world_id env fr w)) = rw_solving w" "rw_exit (fst (world_id env fr w)) = rw_exit w"
  "gs_config2 (rw_cfg (fst (world_id env fr w))) = gs_config2 (rw_cfg w)"
  by (simp_all add: world_id_def case_prod_beta)

lemma world_key_pair_keeps [simp]:
  "gs_config (rw_cfg (fst (world_key_pair fr w))) = gs_config (rw_cfg w)"
  "gs_online (rw_cfg (fst (world_key_pair fr w))) = gs_online (rw_cfg w)"
  "rw_solving (fst (world_key_pair fr w)) = rw_solving w" "rw_exit (fst (world_key_pair fr w)) = rw_exit w"
  by (simp_all add: world_key_pair_def case_prod_beta)

lemma get_uuid_keeps [simp]:
  "gs_config (rw_cfg (fst (get_uuid env fr w))) = gs_config (rw_cfg w)"
  "gs_online (rw_cfg (fst (get_uuid env fr w))) = gs_online (rw_cfg w)"
  "rw_solving (fst (get_uuid env fr w)) = rw_solving w" "rw_exit (fst (get_uuid env fr w)) = rw_exit w"
  by (simp_all add: get_uuid_def case_prod_beta split: option.split)

lemma register_pk_keeps [simp]:
  "keys_of (fst (register_pk env fr w)) = keys_of w"
  "cf_key_confirmed (gs_config (rw_cfg (fst (register_pk env fr w)))) = cf_key_confirmed (gs_config (rw_cfg w))"
  "gs_online (rw_cfg (fst (register_pk env fr w))) = gs_online (rw_cfg w)"
  "rw_solving (fst (register_pk env fr w)) = rw_solving w" "rw_exit (fst (register_pk env fr w)) = rw_exit w"
  by (simp_all add: register_pk_def rz_send_def case_prod_beta)

lemma register_peer_keeps [simp]:
  "keys_of (fst (register_peer env fr rz w)) = keys_of w"
  "cf_key_confirmed (gs_config (rw_cfg (fst (register_peer env fr rz w)))) = cf_key_confirmed (gs_config (rw_cfg w))"
  "gs_online (rw_cfg (fst (register_peer env fr rz w))) = gs_online (rw_cfg w)"
  "rw_solving (fst (register_peer env fr rz w)) = rw_solving w" "rw_exit (fst (register_peer env fr rz w)) = rw_exit w"
  by (simp_all add: register_peer_def send_register_peer_def rz_send_def case_prod_beta)

lemma register_pk_sends: "RegisterPeer i n \<notin> set (fst (snd (register_pk env fr w)))"
  by (simp add: register_pk_def rz_send_def case_prod_beta)

lemma register_peer_sends:
  "RegisterPeer i n \<in> set (fst (snd (register_peer env fr rz w))) \<Longrightarrow> key_confirmed rz w \<and> (rw_solving w = [] \<or> rw_solving w = rz_host rz)"
  by (auto simp: register_peer_def send_register_peer_def register_pk_sends split: if_splits)

lemma trusted_keeps_config [simp]:
  "gs_config (cfg_set_trusted_devices env now ds t) = gs_config t"
  "gs_config (snd (cfg_get_trusted_devices env now t)) = gs_config t"
  by (simp_all add: cfg_set_trusted_devices_def cfg_get_trusted_devices_def Let_def split: prod.split)

lemmas cfg_op_defs = update_id_def set_key_confirmed_def set_host_key_confirmed_def store_key_pair_def set_salt_def
  get_salt_def set_nat_type_def set_serial_def set_unlock_pin_def cfg_set_option_def cfg_set_options_def set_socks_def
  reset_online_def config2_set_def cfg_clear_trusted_devices_def set_permanent_password_def
  cfg_add_trusted_device_def cfg_remove_trusted_devices_def Let_def

lemma cfg_step_keys:
  assumes "other_op x" and "hm_get (cf_keys_confirmed (gs_config (cfg_step env x s))) p = Some True"
  shows "hm_get (cf_keys_confirmed (gs_config s)) p = Some True"
  using assms by (cases x) (auto simp: cfg_op_defs hmap_simps case_prod_beta split: if_splits option.splits)

lemma cfg_step_flag:
  assumes "other_op x"
  shows "cf_key_confirmed (gs_config (cfg_step env x s)) = cf_key_confirmed (gs_config s)
    \<or> cf_keys_confirmed (gs_config (cfg_step env x s)) = []"
  using assms by (cases x) (auto simp: cfg_op_defs hmap_simps case_prod_beta split: if_splits option.splits)

text \<open>No host counts as confirmed while the key does not.\<close>

definition keys_sound :: "rz_world \<Rightarrow> bool" where
  "keys_sound w \<longleftrightarrow> (\<forall>p. hm_get (keys_of w) p = Some True \<longrightarrow> cf_key_confirmed (gs_config (rw_cfg w)))"

lemma keys_sound_same:
  assumes "keys_sound w" and "keys_of w' = keys_of w" and "cf_key_confirmed (gs_config (rw_cfg w')) = cf_key_confirmed (gs_config (rw_cfg w))"
  shows "keys_sound w'"
  using assms by (simp add: keys_sound_def)

lemma udp_update_latency_keeps [simp]:
  "gs_config (rw_cfg (snd (udp_update_latency env h now (l, w)))) = gs_config (rw_cfg w)"
  "rw_solving (snd (udp_update_latency env h now (l, w))) = rw_solving w"
  "rw_exit (snd (udp_update_latency env h now (l, w))) = rw_exit w"
  by (simp_all add: udp_update_latency_def Let_def)

lemma udp_missed_keeps:
  assumes "udp_missed env resolved now rz l w = (rz', l', w', e)"
  shows "gs_config (rw_cfg w') = gs_config (rw_cfg w)" "rw_solving w' = rw_solving w" "rw_exit w' = rw_exit w"
    "rz_host rz' = rz_host rz" "rz_host_prefix rz' = rz_host_prefix rz"
  using assms by (auto simp: udp_missed_def Let_def split: if_splits result.splits option.splits)

lemma configure_update_keeps [simp]: "gs_config (rw_cfg (configure_update env n xs w)) = gs_config (rw_cfg w)"
  by (auto simp: configure_update_def restart_def cfg_set_option_def set_serial_def Let_def split: prod.splits)

text \<open>A tick changes no confirmation, and sends a registration of the peer only for a confirmed key.\<close>

lemma udp_tick_cases:
  assumes "udp_tick env fr public resolved now rz l w = (rz', l', w', sent, e)"
  obtains (quiet) "gs_config (rw_cfg w') = gs_config (rw_cfg w)" "sent = []" "rz_host rz' = rz_host rz" "rz_host_prefix rz' = rz_host_prefix rz"
  | (register) w1 where "gs_config (rw_cfg w1) = gs_config (rw_cfg w)" "rz_host rz' = rz_host rz" "rz_host_prefix rz' = rz_host_prefix rz"
      "rw_solving w1 = rw_solving w" "register_peer env fr rz' w1 = (w', sent, e)"
proof -
  let ?l = "if public \<and> reg_timed_out now l \<and> ul_reg_timeout l < MAX_REG_TIMEOUT
            then l\<lparr>ul_reg_timeout := ul_reg_timeout l + MIN_REG_TIMEOUT\<rparr> else l"
  obtain rz1 l1 w1 e1 where m: "(if reg_timed_out now l then udp_missed env resolved now rz ?l w else (rz, ?l, w, Go)) = (rz1, l1, w1, e1)"
    by (metis prod_cases4)
  then have k: "gs_config (rw_cfg w1) = gs_config (rw_cfg w)" "rz_host rz1 = rz_host rz" "rz_host_prefix rz1 = rz_host_prefix rz"
      "rw_solving w1 = rw_solving w"
    by (auto split: if_splits dest: udp_missed_keeps)
  consider "rw_exit w \<or> \<not> (reg_timed_out now l \<or> ul_sent ?l = None \<and> reg_expired now l)"
    | "\<not> rw_exit w" "reg_timed_out now l \<or> ul_sent ?l = None \<and> reg_expired now l" "e1 \<noteq> Go"
    | "\<not> rw_exit w" "reg_timed_out now l \<or> ul_sent ?l = None \<and> reg_expired now l" "e1 = Go" by blast
  then show thesis
  proof cases
    case 1
    then show thesis using assms by (intro quiet) (auto simp: udp_tick_eq Let_def split: if_splits)
  next
    case 2
    then have "udp_tick env fr public resolved now rz l w = (rz1, l1, w1, [], e1)"
      unfolding udp_tick_eq Let_def m by (simp split: rz_end.split)
    then show thesis using assms k by (intro quiet) auto
  next
    case 3
    then have "udp_tick env fr public resolved now rz l w = (case register_peer env fr rz1 w1 of
        (w, sent, e) \<Rightarrow> (rz1, if e = Go then l1\<lparr>ul_sent := Some now\<rparr> else l1, w, sent, e))"
      unfolding udp_tick_eq Let_def m by simp
    then show thesis using assms k by (intro register [of w1]) (auto split: prod.splits)
  qed
qed

lemma udp_tick_keys:
  assumes "udp_tick env fr public resolved now rz l w = (rz', l', w', sent, e)"
  shows "keys_of w' = keys_of w \<and> cf_key_confirmed (gs_config (rw_cfg w')) = cf_key_confirmed (gs_config (rw_cfg w))"
    "rz_host rz' = rz_host rz \<and> rz_host_prefix rz' = rz_host_prefix rz"
    "RegisterPeer i n \<in> set sent \<Longrightarrow> hm_get (keys_of w) (rz_host_prefix rz) = Some True"
proof -
  show "keys_of w' = keys_of w \<and> cf_key_confirmed (gs_config (rw_cfg w')) = cf_key_confirmed (gs_config (rw_cfg w))"
    using assms by (rule udp_tick_cases) (metis register_peer_keeps(1,2) fst_conv)+
  show "rz_host rz' = rz_host rz \<and> rz_host_prefix rz' = rz_host_prefix rz"
    using assms by (rule udp_tick_cases) auto
  show "hm_get (keys_of w) (rz_host_prefix rz) = Some True" if "RegisterPeer i n \<in> set sent"
    using assms
  proof (rule udp_tick_cases)
    fix w1 assume w1: "gs_config (rw_cfg w1) = gs_config (rw_cfg w)" "rz_host_prefix rz' = rz_host_prefix rz"
      "register_peer env fr rz' w1 = (w', sent, e)"
    then have "key_confirmed rz' w1" using that register_peer_sends [of i n env fr rz' w1] by simp
    then show ?thesis using w1 by (simp add: key_confirmed_def get_host_key_confirmed_def)
  qed (use that in simp)
qed

lemma send_register_peer_keeps [simp]:
  "keys_of (fst (send_register_peer env fr w)) = keys_of w"
  "cf_key_confirmed (gs_config (rw_cfg (fst (send_register_peer env fr w)))) = cf_key_confirmed (gs_config (rw_cfg w))"
  by (simp_all add: send_register_peer_def rz_send_def case_prod_beta)

text \<open>A tick that does not register the peer sends no registration; one that does has found the key confirmed.\<close>

lemma udp_due_keeps:
  assumes "udp_due env public resolved now rz l w = (rz', l', w', e, due)"
  shows "gs_config (rw_cfg w') = gs_config (rw_cfg w)" "rz_host rz' = rz_host rz \<and> rz_host_prefix rz' = rz_host_prefix rz"
  using assms by (auto simp: udp_due_def Let_def split: if_splits prod.splits dest: udp_missed_keeps)

lemma udp_tick_no_peer:
  assumes "udp_due env public resolved now rz l w = (rz', l', w', e, due)" and "\<not> (due \<and> may_register rz' w')"
    and "udp_tick env fr public resolved now rz l w = (rz2, l2, w2, sent, e2)"
  shows "RegisterPeer i n \<notin> set sent"
  using assms register_peer_sends [of i n env fr rz' w']
  by (auto simp: udp_tick_def may_register_def split: bool.splits prod.splits)

text \<open>
  What a received frame does to the confirmations: nothing, all are withdrawn, or the host of the mediator is
  confirmed by its server's answer.
\<close>

lemma register_pk_fst:
  assumes "register_pk env fr w = (w', sent, e)"
  shows "keys_of w' = keys_of w" "cf_key_confirmed (gs_config (rw_cfg w')) = cf_key_confirmed (gs_config (rw_cfg w))"
    "rw_solving w' = rw_solving w" "RegisterPeer i n \<notin> set sent"
  using register_pk_keeps [of env fr w] register_pk_sends [of i n env fr w] assms by simp_all

lemma set_key_confirmed_config [simp]:
  "cf_key_confirmed (gs_config (set_key_confirmed env v s)) = v"
  "keys_sound w \<Longrightarrow> hm_get (cf_keys_confirmed (gs_config (set_key_confirmed env False (rw_cfg w)))) p \<noteq> Some True"
  "cf_keys_confirmed (gs_config (set_key_confirmed env True s)) = cf_keys_confirmed (gs_config s)"
  by (auto simp: set_key_confirmed_def keys_sound_def)

lemma set_host_key_confirmed_config [simp]:
  "cf_key_confirmed (gs_config (set_host_key_confirmed env h v s)) = cf_key_confirmed (gs_config s)"
  "hm_get (cf_keys_confirmed (gs_config (set_host_key_confirmed env h v s))) p = Some True \<longleftrightarrow>
     (if p = h then v else hm_get (cf_keys_confirmed (gs_config s)) p = Some True)"
  by (auto simp: set_host_key_confirmed_def get_host_key_confirmed_def hmap_simps)

lemma mismatch_withdraws:
  assumes "handle_uuid_mismatch env fr rz w = (w', sent, e)" and "keys_sound w"
    and "rw_solving w = [] \<or> rw_solving w = rz_host rz"
  shows "hm_get (keys_of w') p \<noteq> Some True" "rw_solving w' = rz_host rz" "RegisterPeer i n \<notin> set sent"
proof -
  let ?s = "set_key_confirmed (re_cfg env) False (rw_cfg w)"
  let ?w = "w\<lparr>rw_cfg := update_id (re_cfg env) (fr_gen fr) (fr_new_id fr) ?s, rw_solving := rz_host rz\<rparr>"
  have r: "register_pk env fr ?w = (w', sent, e)"
    using assms(1,3) by (simp add: handle_uuid_mismatch_def)
  have "keys_of ?w = cf_keys_confirmed (gs_config ?s)" by (simp add: update_id_def)
  then show "hm_get (keys_of w') p \<noteq> Some True"
    using register_pk_fst(1) [OF r] set_key_confirmed_config(2) [OF assms(2), of "re_cfg env" p] by simp
  show "rw_solving w' = rz_host rz" "RegisterPeer i n \<notin> set sent" using register_pk_fst(3,4) [OF r] by simp_all
qed

lemma pk_response_keys:
  assumes "pk_response env fr rz r w = (w', sent, e)" and "keys_sound w"
  shows "keys_sound w'" "RegisterPeer i n \<notin> set sent"
    "hm_get (keys_of w') p = Some True \<Longrightarrow> hm_get (keys_of w) p = Some True \<or> r = PkOk \<and> p = rz_host_prefix rz"
proof -
  have mis: "keys_sound w' \<and> RegisterPeer i n \<notin> set sent \<and> (hm_get (keys_of w') p = Some True \<longrightarrow> hm_get (keys_of w) p = Some True)"
    if "handle_uuid_mismatch env fr rz w = (w', sent, e)"
  proof (cases "rw_solving w = [] \<or> rw_solving w = rz_host rz")
    case True
    then show ?thesis using mismatch_withdraws [OF that assms(2)] by (simp add: keys_sound_def)
  next
    case False
    then show ?thesis using that assms(2) by (auto simp: handle_uuid_mismatch_def)
  qed
  show "keys_sound w'" "RegisterPeer i n \<notin> set sent"
    "hm_get (keys_of w') p = Some True \<Longrightarrow> hm_get (keys_of w) p = Some True \<or> r = PkOk \<and> p = rz_host_prefix rz"
    using assms mis by (auto simp: pk_response_def keys_sound_def Let_def split: pk_result.splits if_splits)
qed

text \<open>
  The handler of messages relies on the closure that reports the latency only for what it leaves alone: the
  confirmations. Both loops provide such a closure.
\<close>

locale latency_report =
  fixes upd :: "'l \<times> rz_world \<Rightarrow> 'l \<times> rz_world"
  assumes keeps_config: "gs_config (rw_cfg (snd (upd (l, w)))) = gs_config (rw_cfg w)"
begin

lemma handle_resp_keys:
  assumes "handle_resp env fr upd msg rz l w = (rz', l', w', sent, tasks, e)" and "keys_sound w"
  shows "keys_sound w'" "RegisterPeer i n \<notin> set sent" "rz_host rz' = rz_host rz \<and> rz_host_prefix rz' = rz_host_prefix rz"
    "hm_get (keys_of w') p = Some True \<Longrightarrow>
       hm_get (keys_of w) p = Some True \<or> (\<exists>k. msg = RegisterPkResponse PkOk k) \<and> p = rz_host_prefix rz"
proof -
  obtain l1 w1 where u: "upd (l, w) = (l1, w1)" by fastforce
  have g: "gs_config (rw_cfg w1) = gs_config (rw_cfg w)"
    using keeps_config [of l w] by (simp add: u)
  then have snd: "keys_sound w1" using assms(2) by (simp add: keys_sound_def)
  have pk: "keys_sound w2 \<and> RegisterPeer i n \<notin> set sent \<and> keys_of w2 = keys_of w"
    if "register_pk env fr w1 = (w2, sent, e2)" for w2 sent e2
    using register_pk_fst [OF that] g snd by (auto simp: keys_sound_def)
  show "keys_sound w'" "RegisterPeer i n \<notin> set sent" "rz_host rz' = rz_host rz \<and> rz_host_prefix rz' = rz_host_prefix rz"
    using assms(1) snd pk by (auto simp: handle_resp_def u split: rz_union.splits if_splits prod.splits
        dest: pk_response_keys intro: keys_sound_same [OF assms(2)])
  show "hm_get (keys_of w) p = Some True \<or> (\<exists>k. msg = RegisterPkResponse PkOk k) \<and> p = rz_host_prefix rz"
    if "hm_get (keys_of w') p = Some True"
    using assms(1) that snd pk g by (auto simp: handle_resp_def u split: rz_union.splits if_splits prod.splits
        dest: pk_response_keys(3))
qed

end

interpretation udp: latency_report "udp_update_latency env h now" for env h now
  by unfold_locales simp

interpretation tcp: latency_report "tcp_update_latency env h now" for env h now
  by unfold_locales (simp add: tcp_update_latency_def)

lemma udp_recv_keys:
  assumes "udp_recv env fr now frame rz l w = (rz', l', w', sent, tasks, e)" and "keys_sound w"
  shows "keys_sound w'" "RegisterPeer i n \<notin> set sent" "rz_host rz' = rz_host rz \<and> rz_host_prefix rz' = rz_host_prefix rz"
    "hm_get (keys_of w') p = Some True \<Longrightarrow>
       hm_get (keys_of w) p = Some True \<or> (\<exists>k. frame = FrameMsg (RegisterPkResponse PkOk k)) \<and> p = rz_host_prefix rz"
  using assms by (auto simp: udp_recv_def split: rz_frame.splits dest: udp.handle_resp_keys)

text \<open>Over TCP the same holds, and the peer is never registered: the connection itself tells the server that it is there.\<close>

lemma tcp_recv_keys:
  assumes "tcp_recv env fr now frame rz l w = (rz', l', w', sent, tasks, e)" and "keys_sound w"
  shows "keys_sound w'" "RegisterPeer i n \<notin> set sent"
    "hm_get (keys_of w') p = Some True \<Longrightarrow>
       hm_get (keys_of w) p = Some True \<or> (\<exists>k. frame = FrameMsg (RegisterPkResponse PkOk k)) \<and> p = rz_host_prefix rz"
  using assms by (auto simp: tcp_recv_def rz_send_def Let_def split: rz_frame.splits if_splits dest: tcp.handle_resp_keys)

text \<open>The event in which a server of the host prefix \<open>p\<close> confirms the key.\<close>

fun confirms :: "rz_sys \<Rightarrow> string \<Rightarrow> rz_event \<Rightarrow> bool" where
  "confirms s p (Recv i fr now (FrameMsg (RegisterPkResponse PkOk k))) \<longleftrightarrow>
     i < length (ss_peers s) \<and> rz_host_prefix (rp_rz (ss_peers s ! i)) = p"
| "confirms s p _ \<longleftrightarrow> False"

definition host_names :: "rz_sys \<Rightarrow> (string \<times> string) list" where
  "host_names s = map (\<lambda>x. (rz_host (rp_rz x), rz_host_prefix (rp_rz x))) (ss_peers s)"

lemma host_names_nth:
  "i < length (ss_peers s) \<Longrightarrow> host_names s ! i = (rz_host (rp_rz (ss_peers s ! i)), rz_host_prefix (rp_rz (ss_peers s ! i)))"
  by (simp add: host_names_def)

lemma host_names_length [simp]: "length (host_names s) = length (ss_peers s)"
  by (simp add: host_names_def)

lemma confirms_names:
  assumes "host_names s = host_names s'"
  shows "confirms s p e = confirms s' p e"
proof -
  have len: "length (ss_peers s) = length (ss_peers s')" using assms by (metis host_names_length)
  have "rz_host_prefix (rp_rz (ss_peers s ! i)) = rz_host_prefix (rp_rz (ss_peers s' ! i))" if "i < length (ss_peers s)" for i
    using that host_names_nth [of i s] host_names_nth [of i s'] assms len by simp
  then show ?thesis using len by (induction s p e rule: confirms.induct) auto
qed

text \<open>The host prefixes whose registration has passed its checks but is not yet sent.\<close>

definition registering :: "rz_sys \<Rightarrow> string \<Rightarrow> bool" where
  "registering s p \<longleftrightarrow> (\<exists>x \<in> set (ss_peers s). rp_registering x \<noteq> None \<and> rz_host_prefix (rp_rz x) = p)"

lemma registering_put:
  assumes "registering (sys_put i rz l reg w e s) p"
  shows "registering s p \<or> reg \<noteq> None \<and> rz_host_prefix rz = p"
proof -
  have "set ((ss_peers s)[i := x]) \<subseteq> insert x (set (ss_peers s))" for x by (rule set_update_subset_insert)
  then show ?thesis using assms unfolding registering_def sys_put_def by fastforce
qed

lemma registering_recv:
  assumes "registering (fst (sys_step env (Recv i fr now frame) s)) p"
  shows "registering s p"
proof (cases "runs s i")
  case True
  obtain rz l w out tasks en where r: "udp_recv env fr now frame (rp_rz (ss_peers s ! i)) (rp_loop (ss_peers s ! i)) (ss_world s) = (rz, l, w, out, tasks, en)"
    by (metis prod_cases6)
  show ?thesis using assms registering_put [of i rz l None w en s p] True by (simp add: Let_def r)
qed (use assms in simp)

lemma sys_put_keeps:
  assumes "i < length (ss_peers s)" and "rz_host rz = rz_host (rp_rz (ss_peers s ! i)) \<and> rz_host_prefix rz = rz_host_prefix (rp_rz (ss_peers s ! i))"
  shows "host_names (sys_put i rz l reg w e s) = host_names s"
    "keys_of (ss_world (sys_put i rz l reg w e s)) = keys_of w" "keys_sound (ss_world (sys_put i rz l reg w e s)) = keys_sound w"
proof -
  show "host_names (sys_put i rz l reg w e s) = host_names s"
    using assms by (intro nth_equalityI) (auto simp: host_names_def sys_put_def nth_list_update)
  show "keys_of (ss_world (sys_put i rz l reg w e s)) = keys_of w" "keys_sound (ss_world (sys_put i rz l reg w e s)) = keys_sound w"
    by (simp_all add: sys_put_def keys_sound_def)
qed

text \<open>The hosts that may be told of the peer: their key is confirmed, or was when a registration now under way checked it.\<close>

definition may_be_told :: "rz_sys \<Rightarrow> string \<Rightarrow> bool" where
  "may_be_told s p \<longleftrightarrow> hm_get (keys_of (ss_world s)) p = Some True \<or> registering s p"

lemma sys_put_told:
  assumes "may_be_told (sys_put i rz l reg w e s) p" and "i < length (ss_peers s)"
    and "rz_host rz = rz_host (rp_rz (ss_peers s ! i)) \<and> rz_host_prefix rz = rz_host_prefix (rp_rz (ss_peers s ! i))"
  shows "hm_get (keys_of w) p = Some True \<or> registering s p \<or> reg \<noteq> None \<and> rz_host_prefix rz = p"
  using assms registering_put [of i rz l reg w e s p] sys_put_keeps(2) [OF assms(2,3), of l reg w e] by (auto simp: may_be_told_def)

lemma sys_step_keys:
  assumes "sys_step env e s = (s', sent)" and "keys_sound (ss_world s)"
  shows "keys_sound (ss_world s') \<and> host_names s' = host_names s
    \<and> (\<forall>p. may_be_told s' p \<longrightarrow> may_be_told s p \<or> confirms s p e)
    \<and> (\<forall>rz i n. (rz, RegisterPeer i n) \<in> set sent \<longrightarrow> may_be_told s (rz_host_prefix rz))"
proof (cases e)
  case (Recv i fr now frame)
  show ?thesis
  proof (cases "runs s i")
    case True
    then have i: "i < length (ss_peers s)" by (simp add: runs_def)
    obtain rz l w out tasks en where r: "udp_recv env fr now frame (rp_rz (ss_peers s ! i)) (rp_loop (ss_peers s ! i)) (ss_world s) = (rz, l, w, out, tasks, en)"
      by (metis prod_cases6)
    have s': "s' = sys_put i rz l None w en s" "sent = map (Pair rz) out" using assms(1) True by (auto simp: Recv Let_def r)
    note k = udp_recv_keys [OF r assms(2)]
    have conf: "confirms s p e" if "\<exists>k. frame = FrameMsg (RegisterPkResponse PkOk k)" "p = rz_host_prefix (rp_rz (ss_peers s ! i))" for p
      using that i by (auto simp: Recv)
    have "may_be_told s p \<or> confirms s p e" if "may_be_told s' p" for p
      using sys_put_told [OF that [unfolded s'] i k(3)] k(4) [of p] conf by (auto simp: may_be_told_def)
    then show ?thesis using k(1-3) sys_put_keeps [OF i k(3)] unfolding s' by auto
  qed (use assms Recv in auto)
next
  case (Tick i fr public resolved now)
  show ?thesis
  proof (cases "runs s i")
    case True
    then have i: "i < length (ss_peers s)" by (simp add: runs_def)
    obtain rz1 l1 w1 en1 due where d: "udp_due env public resolved now (rp_rz (ss_peers s ! i)) (rp_loop (ss_peers s ! i)) (ss_world s) = (rz1, l1, w1, en1, due)"
      by (metis prod_cases5)
    note kd = udp_due_keeps [OF d]
    show ?thesis
    proof (cases "due \<and> may_register rz1 w1")
      case reg: True
      have s': "s' = sys_put i rz1 l1 (Some now) w1 Go s" "sent = []" using assms(1) True reg by (auto simp: Tick Let_def d)
      have "hm_get (keys_of (ss_world s)) (rz_host_prefix rz1) = Some True"
        using reg kd(1) by (simp add: may_register_def key_confirmed_def get_host_key_confirmed_def)
      then have "may_be_told s p" if "may_be_told s' p" for p
        using sys_put_told [OF that [unfolded s'] i kd(2)] kd(1) by (auto simp: may_be_told_def)
      moreover have "keys_sound w1" using assms(2) kd(1) by (simp add: keys_sound_def)
      ultimately show ?thesis using sys_put_keeps [OF i kd(2)] unfolding s' by simp
    next
      case False
      obtain rz l w out en where r: "udp_tick env fr public resolved now (rp_rz (ss_peers s ! i)) (rp_loop (ss_peers s ! i)) (ss_world s) = (rz, l, w, out, en)"
        by (metis prod_cases5)
      have s': "s' = sys_put i rz l None w en s" "sent = map (Pair rz) out"
        using assms(1) True False by (auto simp: Tick Let_def d r split: if_splits)
      note k = udp_tick_keys [OF r] udp_tick_no_peer [OF d False r]
      have "keys_sound w" using assms(2) k(1) by (simp add: keys_sound_def)
      moreover have "may_be_told s p" if "may_be_told s' p" for p
        using sys_put_told [OF that [unfolded s'] i k(2)] k(1) by (auto simp: may_be_told_def)
      ultimately show ?thesis using k(4) sys_put_keeps [OF i k(2)] unfolding s' by auto
    qed
  qed (use assms Tick in auto)
next
  case (SendPeer i fr)
  show ?thesis
  proof (cases "i < length (ss_peers s) \<and> rp_registering (ss_peers s ! i) \<noteq> None")
    case True
    then obtain now where now: "rp_registering (ss_peers s ! i) = Some now" and i: "i < length (ss_peers s)" by auto
    obtain w out en where r: "send_register_peer env fr (ss_world s) = (w, out, en)" by (metis prod_cases3)
    let ?rz = "rp_rz (ss_peers s ! i)"
    obtain l where s': "s' = sys_put i ?rz l None w en s" "sent = map (Pair ?rz) out" using assms(1) i now by (auto simp: SendPeer r Let_def)
    have k: "keys_of w = keys_of (ss_world s)" "cf_key_confirmed (gs_config (rw_cfg w)) = cf_key_confirmed (gs_config (rw_cfg (ss_world s)))"
      using send_register_peer_keeps [of env fr "ss_world s"] by (simp_all add: r)
    have "keys_sound w" using assms(2) k by (simp add: keys_sound_def)
    moreover have "may_be_told s p" if "may_be_told s' p" for p
      using sys_put_told [OF that [unfolded s'] i] k(1) by (auto simp: may_be_told_def)
    moreover have "registering s (rz_host_prefix ?rz)" using now i unfolding registering_def by (metis nth_mem option.distinct(1))
    ultimately show ?thesis using sys_put_keeps [OF i] unfolding s' by (auto simp: may_be_told_def)
  qed (use assms SendPeer in \<open>auto simp: Let_def split: if_splits\<close>)
next
  case StorePair
  then show ?thesis using assms
    by (auto simp: keys_sound_def host_names_def store_key_pair_def may_be_told_def registering_def split: list.splits)
next
  case (OtherOp x)
  show ?thesis
  proof (cases "other_op x")
    case True
    let ?w = "(ss_world s)\<lparr>rw_cfg := cfg_step (re_cfg env) x (rw_cfg (ss_world s))\<rparr>"
    have s': "s' = s\<lparr>ss_world := ?w\<rparr>" "sent = []" using assms(1) True by (auto simp: OtherOp)
    have "keys_sound ?w"
      using cfg_step_flag [OF True, of "re_cfg env" "rw_cfg (ss_world s)"] cfg_step_keys [OF True] assms(2) by (auto simp: keys_sound_def)
    then show ?thesis using cfg_step_keys [OF True] by (auto simp: s' host_names_def may_be_told_def registering_def)
  qed (use assms OtherOp in auto)
qed

lemma sys_run_keys:
  assumes "keys_sound (ss_world s)"
  shows "keys_sound (ss_world (fst (sys_run env es s))) \<and> host_names (fst (sys_run env es s)) = host_names s
    \<and> (\<forall>rz i n. (rz, RegisterPeer i n) \<in> set (snd (sys_run env es s))
        \<longrightarrow> may_be_told s (rz_host_prefix rz) \<or> (\<exists>e \<in> set es. confirms s (rz_host_prefix rz) e))"
  using assms
proof (induction es arbitrary: s)
  case (Cons e es)
  obtain s1 sent1 where st: "sys_step env e s = (s1, sent1)" by fastforce
  note k = sys_step_keys [OF st Cons.prems]
  note ih = Cons.IH [of s1] and nm = confirms_names [of s1 s]
  show ?case using k ih nm by (auto simp: st split: prod.splits) metis+
qed simp

lemma get_id_nonempty: "cf_id (gs_config s) \<noteq> [] \<Longrightarrow> get_id env gen s = (s, cf_id (gs_config s))"
  by (simp add: get_id_def)

lemma register_pk_id:
  assumes "register_pk env fr w = (w', sent, e)" and "cf_id (gs_config (rw_cfg w)) \<noteq> []"
  shows "cf_id (gs_config (rw_cfg w')) = cf_id (gs_config (rw_cfg w))"
    "fr_sent fr \<Longrightarrow> e = Go \<and> (\<exists>uuid pk nr. sent = [RegisterPk (cf_id (gs_config (rw_cfg w))) uuid pk nr])"
proof -
  let ?w1 = "fst (get_uuid env fr (fst (world_key_pair fr w)))"
  have "gs_config (rw_cfg ?w1) = gs_config (rw_cfg w)" by simp
  then have i: "world_id env fr ?w1 = (?w1, cf_id (gs_config (rw_cfg w)))"
    using assms(2) by (simp add: world_id_def get_id_nonempty)
  show "cf_id (gs_config (rw_cfg w')) = cf_id (gs_config (rw_cfg w))"
    "fr_sent fr \<Longrightarrow> e = Go \<and> (\<exists>uuid pk nr. sent = [RegisterPk (cf_id (gs_config (rw_cfg w))) uuid pk nr])"
    using assms(1) i by (auto simp: register_pk_def rz_send_def case_prod_beta split: if_splits)
qed

lemma mismatch_new_id:
  assumes "handle_uuid_mismatch env fr rz w = (w', sent, e)" and "fr_new_id fr \<noteq> []"
    and "rw_solving w = [] \<or> rw_solving w = rz_host rz"
  shows "cf_id (gs_config (rw_cfg w')) = fr_new_id fr"
proof -
  let ?s = "update_id (re_cfg env) (fr_gen fr) (fr_new_id fr) (set_key_confirmed (re_cfg env) False (rw_cfg w))"
  have r: "register_pk env fr (w\<lparr>rw_cfg := ?s, rw_solving := rz_host rz\<rparr>) = (w', sent, e)"
    using assms(1,3) by (simp add: handle_uuid_mismatch_def)
  have "cf_id (gs_config ?s) = fr_new_id fr" by (simp add: update_id_def set_id_def)
  then show ?thesis using register_pk_id(1) [OF r] assms(2) by simp
qed

text \<open>The answer that the id belongs to another machine, as the system handles it.\<close>

lemma mismatch_step:
  assumes "runs s i" and "p = ss_peers s ! i"
    and "rw_solving (ss_world s) = [] \<or> rw_solving (ss_world s) = rz_host (rp_rz p)"
    and "keys_sound (ss_world s)" and "fr_new_id fr \<noteq> []"
    and "sys_step env (Recv i fr now (FrameMsg (RegisterPkResponse UuidMismatch k))) s = (s', sent)"
  shows "cf_id (gs_config (rw_cfg (ss_world s'))) = fr_new_id fr" "hm_get (keys_of (ss_world s')) q \<noteq> Some True"
    "rw_solving (ss_world s') = rz_host (rp_rz p)"
proof -
  obtain l w where u: "udp_update_latency env (rz_host (rp_rz p)) now (rp_loop p, ss_world s) = (l, w)" by fastforce
  obtain w' out e where m: "handle_uuid_mismatch env fr (rp_rz p) w = (w', out, e)" by (metis prod_cases3)
  note keep = udp_update_latency_keeps [of env "rz_host (rp_rz p)" now "rp_loop p" "ss_world s"]
  have w: "keys_sound w" "rw_solving w = [] \<or> rw_solving w = rz_host (rp_rz p)"
    using keep assms(3,4) by (simp_all add: u keys_sound_def)
  have s': "\<exists>rz. s' = sys_put i rz l None w' e s"
    using assms(1,6) by (auto simp: udp_recv_def handle_resp_def pk_response_def Let_def assms(2)[symmetric] u m split: if_splits)
  show "cf_id (gs_config (rw_cfg (ss_world s'))) = fr_new_id fr" "hm_get (keys_of (ss_world s')) q \<noteq> Some True"
    "rw_solving (ss_world s') = rz_host (rp_rz p)"
    using s' mismatch_new_id [OF m assms(5) w(2)] mismatch_withdraws [OF m w(1) w(2)] by (cases "e = Go"; auto simp: sys_put_def)+
qed

subsection \<open>The state of the loop\<close>

definition loop_ok :: "udp_loop \<Rightarrow> bool" where
  "loop_ok l \<longleftrightarrow> 3000 dvd ul_reg_timeout l \<and> MIN_REG_TIMEOUT \<le> ul_reg_timeout l \<and> ul_reg_timeout l \<le> MAX_REG_TIMEOUT
     \<and> 0 \<le> ul_fails l \<and> 0 \<le> ul_ema_latency l \<and> ul_ema_latency l \<le> 1000000 \<and> 0 \<le> ul_old_latency l \<and> ul_old_latency l \<le> 1000000"

lemmas reg_constants = MIN_REG_TIMEOUT_def MAX_REG_TIMEOUT_def MAX_FAILS1_def MAX_FAILS2_def REG_INTERVAL_def DNS_INTERVAL_def

lemma loop_ok_init: "loop_ok (udp_init now)"
  by (simp add: loop_ok_def udp_init_def reg_constants)

lemma ema_bounds:
  fixes x y :: int
  assumes "0 \<le> x" "x \<le> 1000000" "0 \<le> y" "y \<le> 1000000"
  shows "0 \<le> x div 30 + y * 29 div 30" "x div 30 + y * 29 div 30 \<le> 1000000"
proof -
  show "0 \<le> x div 30 + y * 29 div 30" using assms by simp
  have "x div 30 \<le> 1000000 div 30" "y * 29 div 30 \<le> 29000000 div 30" using assms by (intro zdiv_mono1; simp)+
  then show "x div 30 + y * 29 div 30 \<le> 1000000" by simp
qed

lemma loop_ok_update:
  assumes "loop_ok l"
  shows "loop_ok (fst (udp_update_latency env h now (l, w)))"
proof -
  define x where "x = (case ul_sent l of Some t \<Rightarrow> int (now - t) | None \<Rightarrow> 0)"
  define y where "y = (if ul_ema_latency l = 0 then x else x div 30 + ul_ema_latency l * 29 div 30)"
  have y: "0 \<le> y \<and> y \<le> 1000000" if "0 \<le> x" "x \<le> 1000000"
    using that ema_bounds [of x "ul_ema_latency l"] assms unfolding y_def loop_ok_def by (cases "ul_ema_latency l = 0") auto
  have "udp_update_latency env h now (l, w) =
    (let l = l\<lparr>ul_resp := Some now, ul_fails := 0, ul_reg_timeout := MIN_REG_TIMEOUT, ul_sent := None\<rparr> in
     if x < 0 \<or> x > 1000000 then (l, w)
     else if \<bar>y - ul_old_latency l\<bar> > (if y div 5 < 3000 then 3000 else y div 5) \<or> ul_old_latency l \<le> 0
     then (l\<lparr>ul_ema_latency := y, ul_old_latency := y\<rparr>, w\<lparr>rw_cfg := update_latency (re_cfg env) h y (rw_cfg w)\<rparr>)
     else (l\<lparr>ul_ema_latency := y\<rparr>, w))"
    by (simp add: udp_update_latency_def x_def y_def Let_def)
  then show ?thesis using assms y by (simp add: loop_ok_def reg_constants Let_def)
qed

lemma loop_ok_grow:
  assumes "loop_ok l" and "ul_reg_timeout l < MAX_REG_TIMEOUT"
  shows "loop_ok (l\<lparr>ul_reg_timeout := ul_reg_timeout l + MIN_REG_TIMEOUT\<rparr>)"
proof -
  obtain k where "ul_reg_timeout l = 3000 * k" using assms(1) by (auto simp: loop_ok_def dvd_def)
  moreover have "3000 * k + 3000 = 3000 * (k + 1)" by simp
  ultimately show ?thesis using assms by (simp add: loop_ok_def reg_constants)
qed

lemma loop_ok_missed: "loop_ok l \<Longrightarrow> loop_ok (fst (snd (udp_missed env resolved now rz l w)))"
  by (simp add: udp_missed_def loop_ok_def Let_def split: result.split option.split)

lemma loop_ok_sent [simp]: "loop_ok (l\<lparr>ul_sent := x\<rparr>) = loop_ok l"
  by (simp add: loop_ok_def)

lemma loop_ok_tick:
  assumes "loop_ok l"
  shows "loop_ok (fst (snd (udp_tick env fr public resolved now rz l w)))"
proof -
  let ?l = "if public \<and> reg_timed_out now l \<and> ul_reg_timeout l < MAX_REG_TIMEOUT
            then l\<lparr>ul_reg_timeout := ul_reg_timeout l + MIN_REG_TIMEOUT\<rparr> else l"
  have l: "loop_ok ?l" using assms loop_ok_grow by simp
  obtain rz1 l1 w1 e1 where m: "(if reg_timed_out now l then udp_missed env resolved now rz ?l w else (rz, ?l, w, Go)) = (rz1, l1, w1, e1)"
    by (metis prod_cases4)
  then have "loop_ok l1"
    using l loop_ok_missed [OF l, of env resolved now rz w] by (cases "reg_timed_out now l") auto
  then show ?thesis using l assms unfolding udp_tick_eq Let_def m by (auto split: prod.split rz_end.split)
qed

lemma loop_ok_recv:
  assumes "loop_ok l" and "udp_recv env fr now frame rz l w = (rz', l', w', sent, tasks, e)"
  shows "loop_ok l'"
proof -
  have "loop_ok l'" if "handle_resp env fr (udp_update_latency env h now) msg rz l w = (rz', l', w', sent, tasks, e)" for h msg
    using that assms(1) loop_ok_update [OF assms(1), of env h now w]
    by (auto simp: handle_resp_def case_prod_beta split: rz_union.splits if_splits)
  then show ?thesis using assms by (auto simp: udp_recv_def split: rz_frame.splits)
qed

lemma loop_ok_due:
  assumes "loop_ok l" and "udp_due env public resolved now rz l w = (rz', l', w', e, due)"
  shows "loop_ok l'"
proof -
  have "loop_ok (l\<lparr>ul_reg_timeout := ul_reg_timeout l + MIN_REG_TIMEOUT\<rparr>)" if "ul_reg_timeout l < MAX_REG_TIMEOUT"
    using loop_ok_grow [OF assms(1) that] .
  with assms show ?thesis
    by (auto simp: udp_due_def Let_def split: if_splits prod.splits dest: arg_cong [of _ _ "\<lambda>x. loop_ok (fst (snd x))"] loop_ok_missed)
qed

lemma loops_ok_step:
  assumes "\<forall>p \<in> set (ss_peers s). loop_ok (rp_loop p)"
  shows "\<forall>p \<in> set (ss_peers (fst (sys_step env e s))). loop_ok (rp_loop p)"
proof -
  have put: "\<forall>p \<in> set (ss_peers (sys_put i rz l reg w en s)). loop_ok (rp_loop p)" if "loop_ok l" for i rz l reg w en
    using that assms by (auto simp: sys_put_def dest!: set_update_subset_insert [THEN subsetD])
  have nth: "loop_ok (rp_loop (ss_peers s ! i))" if "i < length (ss_peers s)" for i using that assms by simp
  show ?thesis
  proof (cases e)
    case (Recv i fr now frame)
    obtain rz l w out tasks en where r:
      "udp_recv env fr now frame (rp_rz (ss_peers s ! i)) (rp_loop (ss_peers s ! i)) (ss_world s) = (rz, l, w, out, tasks, en)"
      by (metis prod_cases6)
    show ?thesis using assms put [of l i rz None w en] loop_ok_recv [OF nth r] by (simp add: Recv runs_def Let_def r)
  next
    case (Tick i fr public resolved now)
    show ?thesis
    proof (cases "runs s i")
      case True
      then have i: "i < length (ss_peers s)" by (simp add: runs_def)
      obtain rz1 l1 w1 en1 due where d: "udp_due env public resolved now (rp_rz (ss_peers s ! i)) (rp_loop (ss_peers s ! i)) (ss_world s) = (rz1, l1, w1, en1, due)"
        by (metis prod_cases5)
      obtain rz l w out en where r: "udp_tick env fr public resolved now (rp_rz (ss_peers s ! i)) (rp_loop (ss_peers s ! i)) (ss_world s) = (rz, l, w, out, en)"
        by (metis prod_cases5)
      have "loop_ok l" using loop_ok_tick [OF nth [OF i], of env fr public resolved now "rp_rz (ss_peers s ! i)" "ss_world s"] by (simp add: r)
      with put loop_ok_due [OF nth [OF i] d] True show ?thesis by (simp add: Tick Let_def d r)
    qed (use assms Tick in simp)
  next
    case (SendPeer i fr)
    show ?thesis
    proof (cases "i < length (ss_peers s) \<and> rp_registering (ss_peers s ! i) \<noteq> None")
      case True
      then obtain t where t: "rp_registering (ss_peers s ! i) = Some t" and i: "i < length (ss_peers s)" by auto
      obtain w out en where r: "send_register_peer env fr (ss_world s) = (w, out, en)" by (metis prod_cases3)
      let ?l = "if en = Go then (rp_loop (ss_peers s ! i))\<lparr>ul_sent := Some t\<rparr> else rp_loop (ss_peers s ! i)"
      have "loop_ok ?l" using nth [OF i] by simp
      from put [OF this] show ?thesis using i t r by (simp add: SendPeer Let_def)
    qed (use assms SendPeer in \<open>auto simp: Let_def\<close>)
  qed (use assms in \<open>auto split: list.split\<close>)
qed

subsection \<open>A server that does not answer\<close>

text \<open>The timer alone, until the loop ends: the values drawn, whether the server is public, the address found, the time.\<close>

fun udp_ticks :: "rz_env \<Rightarrow> (rz_fresh \<times> bool \<times> target_addr option \<times> nat) list \<Rightarrow> mediator \<Rightarrow> udp_loop \<Rightarrow> rz_world
   \<Rightarrow> mediator \<times> udp_loop \<times> rz_world \<times> rz_end" where
  "udp_ticks env [] rz l w = (rz, l, w, Go)"
| "udp_ticks env ((fr, public, resolved, now) # xs) rz l w =
    (case udp_tick env fr public resolved now rz l w of
       (rz, l, w, _, e) \<Rightarrow> if e = Go then udp_ticks env xs rz l w else (rz, l, w, e))"

fun late_ticks :: "nat \<Rightarrow> (rz_fresh \<times> bool \<times> target_addr option \<times> nat) list \<Rightarrow> bool" where
  "late_ticks t [] = True"
| "late_ticks t ((fr, public, resolved, now) # xs) \<longleftrightarrow> fr_sent fr \<and> resolved \<noteq> None \<and> t + 30000000 \<le> now \<and> late_ticks now xs"

definition status_after :: "nat \<Rightarrow> int option \<Rightarrow> int option" where
  "status_after n old = (if n \<ge> 4 then Some (- 1) else if n \<ge> 2 then Some 0 else old)"

lemma register_peer_goes: "fr_sent fr \<Longrightarrow> snd (snd (register_peer env fr rz w)) = Go"
  by (auto simp: register_peer_def send_register_peer_def register_pk_def rz_send_def case_prod_beta)

lemma udp_missed_spec:
  assumes "udp_missed env resolved now rz l w = (rz', l', w', e)" and "resolved \<noteq> None"
  shows "e = Go \<and> ul_fails l' = ul_fails l + 1 \<and> ul_reg_timeout l' = ul_reg_timeout l
    \<and> hm_get (gs_online (rw_cfg w')) (rz_host rz) =
        (if ul_fails l + 1 \<ge> 4 then Some (- 1) else if ul_fails l + 1 \<ge> 2 then Some 0 else hm_get (gs_online (rw_cfg w)) (rz_host rz))"
proof -
  have "rebind_udp_for env resolved v \<noteq> Err x" for v x
    using assms(2) by (auto simp: rebind_udp_for_def split: option.splits)
  then show ?thesis using assms(1)
    by (auto simp: udp_missed_def reg_constants hmap_simps Let_def split: if_splits result.splits option.splits)
qed

lemma late_tick:
  assumes "\<not> rw_exit w" and "reg_timed_out now l" and "fr_sent fr" and "resolved \<noteq> None"
    and "udp_tick env fr public resolved now rz l w = (rz', l', w', sent, e)"
  shows "e = Go \<and> \<not> rw_exit w' \<and> rz_host rz' = rz_host rz \<and> ul_fails l' = ul_fails l + 1 \<and> ul_sent l' = Some now
    \<and> hm_get (gs_online (rw_cfg w')) (rz_host rz) =
        (if ul_fails l + 1 \<ge> 4 then Some (- 1) else if ul_fails l + 1 \<ge> 2 then Some 0 else hm_get (gs_online (rw_cfg w)) (rz_host rz))"
proof -
  let ?l = "if public \<and> ul_reg_timeout l < MAX_REG_TIMEOUT then l\<lparr>ul_reg_timeout := ul_reg_timeout l + MIN_REG_TIMEOUT\<rparr> else l"
  obtain rz1 l1 w1 e1 where m: "udp_missed env resolved now rz ?l w = (rz1, l1, w1, e1)" by (metis prod_cases4)
  note k = udp_missed_spec [OF m assms(4)] udp_missed_keeps [OF m]
  have fails: "ul_fails ?l = ul_fails l" by simp
  obtain w2 sent2 where r: "register_peer env fr rz1 w1 = (w2, sent2, Go)"
    using register_peer_goes [OF assms(3), of env rz1 w1] by (metis prod.collapse)
  have "udp_tick env fr public resolved now rz l w = (rz1, l1\<lparr>ul_sent := Some now\<rparr>, w2, sent2, Go)"
    using k(1) m assms(1,2) by (simp add: udp_tick_eq Let_def r)
  moreover have "gs_online (rw_cfg w2) = gs_online (rw_cfg w1)" "rw_exit w2 = rw_exit w1"
    using register_peer_keeps(3,5) [of env fr rz1 w1] by (simp_all add: r)
  ultimately show ?thesis using assms(1,5) k unfolding fails by auto
qed

lemma late_ticks_run:
  assumes "\<not> rw_exit w" and "loop_ok l" and "ul_sent l = Some t" and "late_ticks t xs" and "ul_fails l = int n"
    and "udp_ticks env xs rz l w = (rz', l', w', e)"
    and "hm_get (gs_online (rw_cfg w)) (rz_host rz) = status_after n old"
  shows "e = Go \<and> ul_fails l' = int (n + length xs)
    \<and> hm_get (gs_online (rw_cfg w')) (rz_host rz) = status_after (n + length xs) old"
  using assms
proof (induction xs arbitrary: w l rz t n)
  case (Cons x xs)
  obtain fr public resolved now where x: "x = (fr, public, resolved, now)" by (metis prod_cases4)
  obtain rz1 l1 w1 sent e1 where u: "udp_tick env fr public resolved now rz l w = (rz1, l1, w1, sent, e1)" by (metis prod_cases5)
  from Cons.prems(4) have now: "fr_sent fr" "resolved \<noteq> None" "t + 30000000 \<le> now" "late_ticks now xs" by (auto simp: x)
  have "30000000 div 1000 \<le> (now - t) div 1000" using now(3) by (intro div_le_mono) simp
  then have "reg_timed_out now l"
    using Cons.prems(2,3) by (simp add: reg_timed_out_def ms_since_def loop_ok_def reg_constants)
  note k = late_tick [OF Cons.prems(1) this now(1,2) u]
  have ok: "loop_ok l1" using loop_ok_tick [OF Cons.prems(2), of env fr public resolved now rz w] by (simp add: u)
  have "udp_ticks env xs rz1 l1 w1 = (rz', l', w', e)" using Cons.prems(6) k by (simp add: x u)
  moreover have "ul_fails l1 = int (Suc n)" using k Cons.prems(5) by simp
  moreover have "hm_get (gs_online (rw_cfg w1)) (rz_host rz1) = status_after (Suc n) old"
    using k Cons.prems(5,7) by (auto simp: status_after_def)
  moreover have "\<not> rw_exit w1" "ul_sent l1 = Some now" "rz_host rz1 = rz_host rz" using k by blast+
  ultimately show ?case using Cons.IH [of w1 l1 now "Suc n" rz1] ok now(4) by simp
qed simp

subsection \<open>Concrete values\<close>

definition demo_rz_env :: rz_env where
  "demo_rz_env = \<lparr>re_cfg = demo_cfg_env, re_builtin = [], re_machine_uid = Some [7], re_version = ''1''\<rparr>"

definition demo_rz_world :: "settings \<Rightarrow> rz_world" where
  "demo_rz_world opts =
     \<lparr>rw_cfg = \<lparr>gs_config = config_default\<lparr>cf_id := [49]\<rparr>, gs_file = config_default, gs_config2 = config2_default\<lparr>c2_options := opts\<rparr>,
        gs_file2 = config2_default, gs_td = \<lparr>ts_devices = [], ts_synced = False, ts_config = []\<rparr>, gs_file_td = [],
        gs_online = [], gs_key_pair = Some ([1], [2])\<rparr>,
      rw_pending = [], rw_solving = [], rw_last_msg = (V4 [0, 0, 0, 0] 0, 0), rw_last_relay_msg = (V4 [0, 0, 0, 0] 0, 0),
      rw_exit = False, rw_restarted = False\<rparr>"

definition demo_fresh :: rz_fresh where
  "demo_fresh = \<lparr>fr_gen = None, fr_key = ([], []), fr_new_id = [57], fr_sent = True\<rparr>"

definition demo_mediator :: mediator where
  "demo_mediator = \<lparr>rz_addr = TargetDomain ''h'' 1, rz_host = ''h.x:1'', rz_host_prefix = ''h'', rz_keep_alive = 60000\<rparr>"

definition demo_sys :: rz_sys where
  "demo_sys = \<lparr>ss_peers = [\<lparr>rp_rz = demo_mediator, rp_loop = udp_init 0, rp_runs = True, rp_registering = None\<rparr>], ss_world = demo_rz_world []\<rparr>"

lemmas demo_rz_defs = demo_rz_env_def demo_rz_world_def demo_fresh_def demo_mediator_def demo_sys_def

subsection \<open>Properties\<close>

text \<open>
  C9. A new id is registered with its key first: in any interleaving of the mediators of several servers with the
  operations of the rest of the program on the configuration (\<open>Config::set\<close>, which copies a whole configuration, excepted),
  each message being handled without interruption, when a server's answer says that the id belongs to another machine and
  the mediator acts on it, the id is replaced, and from then on a server is told that the peer is there only after
  that server (by its host prefix) has confirmed the key again, or by a registration that had already passed its checks
  when the answer was handled.
\<close>

theorem peer_registered_after_key:
  assumes "keys_sound (ss_world s0)" and "s = fst (sys_run env es s0)" and "runs s i"
    and "rw_solving (ss_world s) = [] \<or> rw_solving (ss_world s) = rz_host (rp_rz (ss_peers s ! i))"
    and "fr_new_id fr \<noteq> []"
    and "s' = fst (sys_step env (Recv i fr now (FrameMsg (RegisterPkResponse UuidMismatch k))) s)"
  shows "cf_id (gs_config (rw_cfg (ss_world s'))) = fr_new_id fr
    \<and> (\<forall>rz j n. (rz, RegisterPeer j n) \<in> set (snd (sys_run env es' s'))
         \<longrightarrow> (\<exists>e \<in> set es'. confirms s0 (rz_host_prefix rz) e) \<or> registering s' (rz_host_prefix rz))"
proof -
  note k0 = sys_run_keys [OF assms(1), of env es]
  then have sound: "keys_sound (ss_world s)" and names: "host_names s = host_names s0" by (simp_all add: assms(2))
  obtain sent where st: "sys_step env (Recv i fr now (FrameMsg (RegisterPkResponse UuidMismatch k))) s = (s', sent)"
    using assms(6) by (metis prod.collapse)
  note m = mismatch_step [OF assms(3) refl assms(4) sound assms(5) st]
  have k: "keys_sound (ss_world s')" "host_names s' = host_names s0" using sys_step_keys [OF st sound] names by simp_all
  have "(\<exists>e \<in> set es'. confirms s0 (rz_host_prefix rz) e) \<or> registering s' (rz_host_prefix rz)"
    if "(rz, RegisterPeer j n) \<in> set (snd (sys_run env es' s'))" for rz j n
    using that sys_run_keys [OF k(1), of env es'] m(2) confirms_names [OF k(2)] unfolding may_be_told_def by blast
  with m(1) show ?thesis by blast
qed

theorem peer_registered_after_key_witness:
  "cf_id (gs_config (rw_cfg (ss_world (fst (sys_step demo_rz_env (Recv 0 demo_fresh 5 (FrameMsg (RegisterPkResponse UuidMismatch 0))) demo_sys))))) = [57]
   \<and> (\<forall>rz j n. (rz, RegisterPeer j n) \<notin> set (snd (sys_run demo_rz_env [Tick 0 demo_fresh True None 20000000, SendPeer 0 demo_fresh]
          (fst (sys_step demo_rz_env (Recv 0 demo_fresh 5 (FrameMsg (RegisterPkResponse UuidMismatch 0))) demo_sys)))))"
proof -
  let ?e = "Recv 0 demo_fresh 5 (FrameMsg (RegisterPkResponse UuidMismatch 0))"
  have s: "keys_sound (ss_world demo_sys)" "runs demo_sys 0" "rw_solving (ss_world demo_sys) = []" "fr_new_id demo_fresh = [57]"
    by (simp_all add: keys_sound_def runs_def demo_sys_def demo_rz_world_def config_default_def demo_fresh_def)
  have "\<not> registering demo_sys p" for p by (simp add: registering_def demo_sys_def)
  then have "\<not> registering (fst (sys_step demo_rz_env ?e demo_sys)) p" for p
    using registering_recv by blast
  with s show ?thesis
    using peer_registered_after_key [of demo_sys demo_sys demo_rz_env "[]" 0 demo_fresh _ 5 0
        "[Tick 0 demo_fresh True None 20000000, SendPeer 0 demo_fresh]", OF _ _ _ _ _ refl]
    by simp
qed

text \<open>
  The exception is real: a registration that has passed its checks sends the id it then reads, so when another mediator has
  replaced the id in between, the new id is announced to a server that has not confirmed its key.
\<close>

lemma registration_race:
  assumes "keys_sound (ss_world s)" and "runs s i"
    and "rw_solving (ss_world s) = [] \<or> rw_solving (ss_world s) = rz_host (rp_rz (ss_peers s ! i))" and "fr_new_id fr \<noteq> []"
    and "j < length (ss_peers s)" and "rp_registering (ss_peers s ! j) = Some t" and "fr_sent fr'"
  shows "\<exists>n. (rp_rz (ss_peers s ! j), RegisterPeer (fr_new_id fr) n)
      \<in> set (snd (sys_run env [Recv i fr now (FrameMsg (RegisterPkResponse UuidMismatch k)), SendPeer j fr'] s))"
proof -
  let ?e = "Recv i fr now (FrameMsg (RegisterPkResponse UuidMismatch k))"
  obtain s' sent where st: "sys_step env ?e s = (s', sent)" by fastforce
  note m = mismatch_step [OF assms(2) refl assms(3,1,4) st]
  have ij: "i \<noteq> j" using assms(2,6) by (auto simp: runs_def)
  have j: "j < length (ss_peers s')" "ss_peers s' ! j = ss_peers s ! j"
    using st assms(2,5) ij by (auto simp: sys_put_def Let_def split: prod.splits)
  have "world_id env fr' (ss_world s') = (ss_world s', fr_new_id fr)"
    using m(1) assms(4) by (simp add: world_id_def get_id_nonempty)
  then have "\<exists>s2 n. sys_step env (SendPeer j fr') s' = (s2, [(rp_rz (ss_peers s ! j), RegisterPeer (fr_new_id fr) n)])"
    using j assms(6,7) by (simp add: send_register_peer_def rz_send_def Let_def)
  then show ?thesis by (auto simp del: sys_step.simps simp: st)
qed

text \<open>
  A server that stops answering is marked: after a request without answer, while the timer alone fires at least
  thirty seconds apart, the loop goes on, every tick counts one failure, and the status of the host is what it was
  after the first, 0 (not ready) after the second and third, and -1 (offline) from the fourth on.
\<close>

theorem silent_server_offline:
  assumes "\<not> rw_exit w" and "loop_ok l" and "ul_fails l = 0" and "ul_sent l = Some t" and "late_ticks t xs"
    and "udp_ticks env xs rz l w = (rz', l', w', e)"
  shows "e = Go \<and> ul_fails l' = int (length xs)
    \<and> hm_get (gs_online (rw_cfg w')) (rz_host rz) = status_after (length xs) (hm_get (gs_online (rw_cfg w)) (rz_host rz))"
  using late_ticks_run [OF assms(1,2,4,5) _ assms(6), of 0 "hm_get (gs_online (rw_cfg w)) (rz_host rz)"] assms(3)
  by (simp add: status_after_def)

theorem silent_server_offline_witness:
  "\<exists>rz' l' w' e. udp_ticks demo_rz_env (map (\<lambda>n. (demo_fresh, True, Some (TargetDomain ''h'' 1), n * 30000000)) [1, 2, 3, 4])
       demo_mediator ((udp_init 0)\<lparr>ul_sent := Some 0\<rparr>) (demo_rz_world []) = (rz', l', w', e)
     \<and> hm_get (gs_online (rw_cfg w')) ''h.x:1'' = Some (- 1)"
proof -
  let ?xs = "map (\<lambda>n. (demo_fresh, True, Some (TargetDomain ''h'' 1), n * 30000000)) [1, 2, 3, 4]"
  obtain rz' l' w' e where u: "udp_ticks demo_rz_env ?xs demo_mediator ((udp_init 0)\<lparr>ul_sent := Some 0\<rparr>) (demo_rz_world []) = (rz', l', w', e)"
    by (metis prod_cases4)
  have "late_ticks 0 ?xs" by (simp add: demo_fresh_def)
  then have "hm_get (gs_online (rw_cfg w')) (rz_host demo_mediator) = status_after 4 (hm_get (gs_online (rw_cfg (demo_rz_world []))) (rz_host demo_mediator))"
    using silent_server_offline [OF _ _ _ _ _ u, of 0] by (simp add: loop_ok_init) (simp add: udp_init_def demo_rz_world_def numeral_eq_Suc)
  then show ?thesis using u by (auto simp: status_after_def demo_mediator_def)
qed

text \<open>
  Registration completes with a server that answers: a fresh loop, with the key not yet confirmed, first sends the
  public key with the id; the server's OK confirms it; and the first tick at least fifteen seconds later registers
  the peer under the same id, with the serial of the configuration.
\<close>

theorem registration_completes:
  assumes "\<not> rw_exit w" and "rw_solving w = [] \<or> rw_solving w = rz_host rz" and "\<not> key_confirmed rz w"
    and "cf_id (gs_config (rw_cfg w)) \<noteq> []" and "fr_sent fr1" and "fr_sent fr3" and "t2 + 15000000 \<le> t3"
    and "udp_tick env fr1 public resolved t1 rz (udp_init t0) w = (rz1, l1, w1, sent1, e1)"
    and "udp_recv env fr2 t2 (FrameMsg (RegisterPkResponse PkOk k)) rz1 l1 w1 = (rz2, l2, w2, sent2, tasks, e2)"
    and "udp_tick env fr3 public' resolved' t3 rz2 l2 w2 = (rz3, l3, w3, sent3, e3)"
  shows "(\<exists>uuid pk nr. sent1 = [RegisterPk (cf_id (gs_config (rw_cfg w))) uuid pk nr]) \<and> e1 = Go \<and> e2 = Go
    \<and> sent3 = [RegisterPeer (cf_id (gs_config (rw_cfg w))) (get_serial (rw_cfg w3))] \<and> e3 = Go"
proof -
  let ?id = "cf_id (gs_config (rw_cfg w))"
  obtain w0 sent0 e0 where r: "register_pk env fr1 w = (w0, sent0, e0)" by (metis prod_cases3)
  note k0 = register_pk_id [OF r assms(4)] register_pk_fst(3) [OF r]
  have first: "rz1 = rz" "w1 = w0" "sent1 = sent0" "e1 = Go" "l1 = (udp_init t0)\<lparr>ul_sent := Some t1\<rparr>"
    using assms(1-3,8) k0(2) [OF assms(5)] r
    by (auto simp: udp_tick_eq udp_init_def reg_timed_out_def reg_expired_def register_peer_def send_register_peer_def Let_def)
  obtain l' w' where u: "udp_update_latency env (rz_host rz) t2 (l1, w0) = (l', w')" by fastforce
  have l': "ul_sent l' = None" "ul_resp l' = Some t2"
    using arg_cong [OF u, of fst] by (auto simp: udp_update_latency_def Let_def split: if_splits)
  note keep = udp_update_latency_keeps [of env "rz_host rz" t2 l1 w0]
  let ?s = "set_host_key_confirmed (re_cfg env) (rz_host_prefix rz) True (set_key_confirmed (re_cfg env) True (rw_cfg w'))"
  have second: "w2 = w'\<lparr>rw_cfg := ?s, rw_solving := []\<rparr>" "l2 = l'" "e2 = Go" "rz_host_prefix rz2 = rz_host_prefix rz" "rz_host rz2 = rz_host rz"
    using assms(9) by (auto simp: udp_recv_def handle_resp_def pk_response_def first(1-4) u Let_def)
  have id2: "cf_id (gs_config ?s) = ?id"
    using keep(1) k0(1) by (simp add: u set_host_key_confirmed_def set_key_confirmed_def)
  have conf: "key_confirmed rz2 w2"
    by (simp add: key_confirmed_def get_host_key_confirmed_def second)
  have w2: "\<not> rw_exit w2" "rw_solving w2 = []"
    using keep(3) register_pk_keeps(5) [of env fr1 w] assms(1) r u second by simp_all
  have "15000000 div 1000 \<le> (t3 - t2) div 1000" using assms(7) by (intro div_le_mono) simp
  then have "reg_expired t3 l2" by (simp add: reg_expired_def ms_since_def reg_constants second l')
  moreover have "\<not> reg_timed_out t3 l2" by (simp add: reg_timed_out_def second l')
  moreover have "world_id env fr3 w2 = (w2, ?id)" using id2 assms(4) by (simp add: world_id_def get_id_nonempty second)
  ultimately have "w3 = w2" "sent3 = [RegisterPeer ?id (get_serial (rw_cfg w2))]" "e3 = Go"
    using assms(6,10) w2 conf l' by (auto simp: udp_tick_eq register_peer_def send_register_peer_def rz_send_def second Let_def)
  then show ?thesis using first second k0(2) [OF assms(5)] by simp
qed

theorem registration_completes_witness:
  "\<exists>rz1 l1 w1 sent1 e1 rz2 l2 w2 sent2 tasks e2 rz3 l3 w3 sent3 e3.
     udp_tick demo_rz_env demo_fresh True None 1000000 demo_mediator (udp_init 0) (demo_rz_world []) = (rz1, l1, w1, sent1, e1)
     \<and> udp_recv demo_rz_env demo_fresh 1100000 (FrameMsg (RegisterPkResponse PkOk 0)) rz1 l1 w1 = (rz2, l2, w2, sent2, tasks, e2)
     \<and> udp_tick demo_rz_env demo_fresh True None 17000000 rz2 l2 w2 = (rz3, l3, w3, sent3, e3)
     \<and> sent3 = [RegisterPeer [49] (get_serial (rw_cfg w3))]"
proof -
  obtain rz1 l1 w1 sent1 e1 where 1: "udp_tick demo_rz_env demo_fresh True None 1000000 demo_mediator (udp_init 0) (demo_rz_world []) = (rz1, l1, w1, sent1, e1)"
    by (metis prod_cases5)
  obtain rz2 l2 w2 sent2 tasks e2 where 2: "udp_recv demo_rz_env demo_fresh 1100000 (FrameMsg (RegisterPkResponse PkOk 0)) rz1 l1 w1 = (rz2, l2, w2, sent2, tasks, e2)"
    by (metis prod_cases6)
  obtain rz3 l3 w3 sent3 e3 where 3: "udp_tick demo_rz_env demo_fresh True None 17000000 rz2 l2 w2 = (rz3, l3, w3, sent3, e3)"
    by (metis prod_cases5)
  have "sent3 = [RegisterPeer [49] (get_serial (rw_cfg w3))]"
    using registration_completes [OF _ _ _ _ _ _ _ 1 2 3]
    by (simp add: demo_rz_world_def demo_fresh_def key_confirmed_def config_default_def)
  with 1 2 3 show ?thesis by blast
qed

text \<open>The actions that go through a relay and tell no IPv6 address.\<close>

fun relay_only :: "rz_act \<Rightarrow> bool" where
  "relay_only (SendRelayResponse _ _ _ _ _ v6) \<longleftrightarrow> v6 = []"
| "relay_only (RelayConnection _ _ _ _) \<longleftrightarrow> True"
| "relay_only _ \<longleftrightarrow> False"

lemma create_relay_only: "\<forall>a \<in> set (fst (snd (create_relay env fr net rz sa rs uuid secure ini [] w))). relay_only a"
  by (simp add: create_relay_def case_prod_beta)

text \<open>
  C10. Behind a proxy or over WebSocket the program never meets a client directly: whatever a rendezvous server asks
  for, the only actions are the answer that names a relay, without an IPv6 address of the machine, and the
  connection to the relay. No hole is punched and no local address is given away.
\<close>

theorem proxy_forces_relay:
  assumes "use_ws env w \<or> is_proxy (re_cfg env) (rw_cfg w)"
  shows "\<forall>a \<in> set (fst (snd (run_task env fr net rz t w))). relay_only a"
proof -
  have relay: "use_ws env (w\<lparr>rw_last_msg := x\<rparr>) \<or> is_proxy (re_cfg env) (rw_cfg w) \<longleftrightarrow> True"
      "use_ws env (w\<lparr>rw_last_msg := x\<rparr>) \<or> is_proxy (re_cfg env) (rw_cfg w) \<or> y \<longleftrightarrow> True" for x y
    using assms by (auto simp: use_ws_def)
  have no_v6: "offer_ipv6 net v6 addr True = ([], [])" for v6 addr by (simp add: offer_ipv6_def)
  show ?thesis
  proof (cases t)
    case (TaskPunch ph)
    then show ?thesis
      by (simp add: run_task_def handle_punch_hole_def relay no_v6 Let_def case_prod_beta create_relay_only)
  next
    case (TaskRelay rr)
    then show ?thesis using create_relay_only by (auto simp: run_task_def handle_request_relay_def Let_def)
  next
    case (TaskLocal fla)
    then show ?thesis
      by (simp add: run_task_def handle_intranet_def relay no_v6 Let_def case_prod_beta create_relay_only)
  qed
qed

definition demo_net :: rz_net where
  "demo_net = \<lparr>nt_now = 1000000, nt_ipv6 = [1], nt_connect = Some (V4 [10, 0, 0, 1] 5), nt_sent = True, nt_relay_connect = True,
     nt_relay_sent = True, nt_uuid = ''u'', nt_udp = True, nt_listen = True, nt_micros = 0\<rparr>"

theorem proxy_forces_relay_witness:
  "list_all relay_only (fst (snd (run_task demo_rz_env demo_fresh demo_net demo_mediator
      (TaskLocal \<lparr>fla_socket_addr = [1, 2, 3], fla_relay_server = ''r'', fla_socket_addr_v6 = []\<rparr>)
      (demo_rz_world [(''allow-websocket'', ''Y'')]))))"
  unfolding list_all_iff
  by (rule proxy_forces_relay)
    (simp add: use_ws_def option2bool_def starts_with_def cfg_get_option_def config_get_option_def get_or_def hm_get_def
      demo_rz_env_def demo_cfg_env_def demo_rz_world_def unwrap_or_default_def)

text \<open>
  The state of every loop stays in its bounds in any run: the time allowed for an answer is a multiple of three
  seconds between three and thirty, the counter of failures does not become negative, and the latencies, smoothed
  and reported, are between zero and one second.
\<close>

theorem udp_loop_bounds:
  assumes "\<forall>p \<in> set (ss_peers s). \<exists>now. rp_loop p = udp_init now"
  shows "\<forall>p \<in> set (ss_peers (fst (sys_run env es s))). loop_ok (rp_loop p)"
proof -
  have "\<forall>p \<in> set (ss_peers (fst (sys_run env es s))). loop_ok (rp_loop p)" if "\<forall>p \<in> set (ss_peers s). loop_ok (rp_loop p)" for s
    using that
  proof (induction es arbitrary: s)
    case (Cons e es)
    show ?case using Cons.IH [OF loops_ok_step [OF Cons.prems, of env e]] by (simp add: case_prod_beta)
  qed simp
  then show ?thesis using assms loop_ok_init by metis
qed

theorem udp_loop_bounds_witness:
  "list_all (\<lambda>p. loop_ok (rp_loop p))
     (ss_peers (fst (sys_run demo_rz_env [Tick 0 demo_fresh True None 1000000, Tick 0 demo_fresh True None 5000000] demo_sys)))"
  unfolding list_all_iff by (rule udp_loop_bounds) (auto simp: demo_sys_def)

text \<open>Requests for the same address within a tenth of a second are answered once.\<close>

lemma duplicate_request_ignored:
  assumes "run_task env fr net rz t w = (w1, acts, e)" and "nt_now net \<le> nt_now net'" and "nt_now net' < nt_now net + 100000"
  shows "fst (snd (run_task env fr' net' rz t w1)) = []"
proof -
  have "(nt_now net' - nt_now net) div 1000 < 100" using assms(2,3) by simp
  then have seen: "seen_recently (nt_now net') addr (addr, nt_now net)" for addr
    by (simp add: seen_recently_def ms_since_def)
  have cr: "rw_last_msg (fst (create_relay env fr net rz sa rs uuid se ini v6 v)) = rw_last_msg v"
      "rw_last_relay_msg (fst (create_relay env fr net rz sa rs uuid se ini v6 v)) = rw_last_relay_msg v" for sa rs uuid se ini v6 v
    by (simp_all add: create_relay_def world_id_def case_prod_beta)
  show ?thesis
  proof (cases t)
    case (TaskPunch ph)
    have "rw_last_msg (fst (handle_punch_hole env fr net rz ph w)) = (addr_decode (ph_socket_addr ph), nt_now net)"
      by (simp add: handle_punch_hole_def Let_def case_prod_beta cr world_id_def punch_udp_hole_def split: option.split)
    then show ?thesis using assms(1) seen by (simp add: TaskPunch run_task_def handle_punch_hole_def Let_def)
  next
    case (TaskRelay rr)
    have "rw_last_relay_msg (fst (handle_request_relay env fr net rz rr w)) = (addr_decode (rr_socket_addr rr), nt_now net)"
      by (simp add: handle_request_relay_def Let_def cr)
    then show ?thesis using assms(1) seen by (simp add: TaskRelay run_task_def handle_request_relay_def Let_def)
  next
    case (TaskLocal fla)
    have "rw_last_msg (fst (handle_intranet_local env fr net fla rs v6 v)) = rw_last_msg v" for rs v6 v
      by (simp add: handle_intranet_local_def world_id_def Let_def case_prod_beta split: option.split)
    then have "rw_last_msg (fst (handle_intranet env fr net rz fla w)) = (addr_decode (fla_socket_addr fla), nt_now net)"
      by (simp add: handle_intranet_def Let_def case_prod_beta cr split: rz_end.split)
    then show ?thesis using assms(1) seen by (simp add: TaskLocal run_task_def handle_intranet_def Let_def)
  qed
qed

text \<open>A relay is always named, as long as the mediator has a host.\<close>

lemma relay_server_named: "rz_host rz \<noteq> [] \<Longrightarrow> get_relay_server env rz provided w \<noteq> []"
  by (auto simp: get_relay_server_def increase_port_def Let_def split: option.split)

text \<open>
  The keep-alive interval of the server is multiplied in 32 bits: 4294968 seconds become 704 milliseconds, and the
  connection over TCP is given up after little more than a second without a message.
\<close>

lemma keep_alive_wraps: "sint ((4294968 :: i32) * 1000) = 704" "unat (keep_alive_limit (4294968 * 1000)) = 1056"
  by (simp_all add: keep_alive_limit_def sint_uint)

text \<open>
  The direct server accepts a connection only while it is enabled, and on the port that is configured at that time;
  but a port above 65535 is accepted as a setting, and the listener then binds another one.
\<close>

lemma direct_accepts_when_enabled:
  assumes "direct_pass env binds incoming w d = (d', True)"
  shows "\<not> direct_disabled env w \<and> incoming \<and> d' = Listening (get_direct_port env w)"
  using assms by (auto simp: direct_pass_def Let_def split: direct_state.splits if_splits)

lemma direct_port_wraps:
  assumes "\<not> direct_disabled env w" and "get_direct_port env w = 65616"
  shows "direct_pass env (\<lambda>p. p = 80) incoming w NoListener = (Listening 65616, incoming)"
  using assms by (simp add: direct_pass_def)

end
