(* ===== verification/Lan_Discovery.thy ===== *)
theory Lan_Discovery
  imports Rendezvous
begin

text \<open>
  Discovery of peers on the local network, \<open>src/lan.rs\<close>: a ping is broadcast, every machine that allows discovery
  answers with a pong, and the answers are merged into the list of known peers, which is stored. Interfaces,
  sockets and the clock are arguments.
\<close>

subsection \<open>Data\<close>

record discovery_peer =
  dp_id :: bytes
  dp_username :: string
  dp_hostname :: string
  dp_platform :: string
  dp_online :: bool
  dp_ip_mac :: "(string, string) hmap"

record peer_discovery =
  pd_cmd :: string
  pd_mac :: string
  pd_id :: bytes
  pd_username :: string
  pd_hostname :: string
  pd_platform :: string

text \<open>An interface: its IPv4 and IPv6 addresses as text, and its hardware address if it has one.\<close>

record lan_interface =
  if_ipv4 :: "string list"
  if_ipv6 :: "string list"
  if_mac :: "string option"

datatype ip_addr = IpV4 string | IpV6 string

definition is_same_peer :: "discovery_peer \<Rightarrow> discovery_peer \<Rightarrow> bool" where
  "is_same_peer a b \<longleftrightarrow> dp_id a = dp_id b \<and> dp_username a = dp_username b"

definition get_broadcast_port :: u16 where "get_broadcast_port = of_int (RENDEZVOUS_PORT + 3)"

fun has_ip :: "ip_addr \<Rightarrow> lan_interface \<Rightarrow> bool" where
  "has_ip (IpV4 a) i \<longleftrightarrow> a \<in> set (if_ipv4 i)"
| "has_ip (IpV6 a) i \<longleftrightarrow> a \<in> set (if_ipv6 i)"

definition get_mac_by_ip :: "lan_interface list \<Rightarrow> ip_addr \<Rightarrow> string option" where
  "get_mac_by_ip interfaces ip =
    (case List.map_filter (\<lambda>i. if has_ip ip i then if_mac i else None) interfaces of mac # _ \<Rightarrow> Some mac | [] \<Rightarrow> None)"

definition get_mac :: "lan_interface list \<Rightarrow> ip_addr \<Rightarrow> string" where
  "get_mac interfaces ip = unwrap_or_default (get_mac_by_ip interfaces ip)"

subsection \<open>Answering a ping\<close>

text \<open>What the machine knows of itself: names, platform, interfaces, and the address it reaches the asker from.\<close>

record lan_self =
  sf_hostname :: string
  sf_username :: string
  sf_platform :: string
  sf_interfaces :: "lan_interface list"

definition lan_answer ::
  "rz_env \<Rightarrow> rz_fresh \<Rightarrow> lan_self \<Rightarrow> ip_addr option \<Rightarrow> peer_discovery \<Rightarrow> rz_world \<Rightarrow> rz_world \<times> peer_discovery option" where
  "lan_answer env fr me self_addr p w =
    (if pd_cmd p = ''ping''
        \<and> option2bool ''enable-lan-discovery'' (cfg_get_option (re_cfg env) (rw_cfg w) ''enable-lan-discovery'') then
       case world_id env fr w of (w, i) \<Rightarrow>
         if pd_id p = i then (w, None)
         else (w, case self_addr of
                    None \<Rightarrow> None
                  | Some a \<Rightarrow>
                      Some \<lparr>pd_cmd = ''pong'', pd_mac = get_mac (sf_interfaces me) a, pd_id = i, pd_username = sf_username me,
                        pd_hostname = (if sf_hostname me = ''localhost'' then ''unknown'' else sf_hostname me),
                        pd_platform = sf_platform me\<rparr>)
     else (w, None))"

text \<open>The ping of a desktop program carries no id; a mobile one sends its own, to recognise itself.\<close>

definition lan_ping :: "bytes \<Rightarrow> peer_discovery" where
  "lan_ping i = \<lparr>pd_cmd = ''ping'', pd_mac = [], pd_id = i, pd_username = [], pd_hostname = [], pd_platform = []\<rparr>"

subsection \<open>Waiting for the answers\<close>

text \<open>
  The socket of an interface: \<open>local\<close> is its address, \<open>None\<close> when it is unknown or unspecified, and then the address
  towards the peer decides. The hardware address of a bound socket is looked up once and kept.
\<close>

record lan_wait =
  lw_last_recv :: nat
  lw_mac :: "string option"

definition local_mac ::
  "lan_interface list \<Rightarrow> ip_addr option \<Rightarrow> ip_addr option \<Rightarrow> lan_wait \<Rightarrow> lan_wait \<times> string" where
  "local_mac interfaces local to_peer st =
    (case local of
       None \<Rightarrow> (st, case to_peer of Some a \<Rightarrow> get_mac interfaces a | None \<Rightarrow> [])
     | Some a \<Rightarrow>
         (case lw_mac st of
            Some m \<Rightarrow> (st, m)
          | None \<Rightarrow> let m = get_mac interfaces a in (st\<lparr>lw_mac := Some m\<rparr>, m)))"

definition wait_packet ::
  "lan_interface list \<Rightarrow> ip_addr option \<Rightarrow> nat \<Rightarrow> string \<Rightarrow> ip_addr option \<Rightarrow> peer_discovery \<Rightarrow> lan_wait
   \<Rightarrow> lan_wait \<times> discovery_peer option" where
  "wait_packet interfaces local now from_ip to_peer p st =
    (let st = st\<lparr>lw_last_recv := now\<rparr> in
     if pd_cmd p = ''pong'' then
       case local_mac interfaces local to_peer st of (st, m) \<Rightarrow>
         (st, if m = [] \<and> pd_mac p = [] \<or> m \<noteq> pd_mac p
              then Some \<lparr>dp_id = pd_id p, dp_username = pd_username p, dp_hostname = pd_hostname p, dp_platform = pd_platform p,
                     dp_online = True, dp_ip_mac = [(from_ip, pd_mac p)]\<rparr>
              else None)
     else (st, None))"

definition wait_over :: "nat \<Rightarrow> lan_wait \<Rightarrow> bool" where
  "wait_over now st \<longleftrightarrow> ms_since now (lw_last_recv st) > 3000"

subsection \<open>Merging the answers\<close>

record lan_state =
  ls_peers :: "discovery_peer list"
  ls_seen :: "bytes list"
  ls_last_write :: "nat option"
  ls_file :: "discovery_peer list"

definition lan_load :: "discovery_peer list \<Rightarrow> lan_state" where
  "lan_load file = \<lparr>ls_peers = map (\<lambda>p. p\<lparr>dp_online := False\<rparr>) file, ls_seen = [], ls_last_write = None, ls_file = file\<rparr>"

definition merge_peer :: "bool \<Rightarrow> discovery_peer \<Rightarrow> discovery_peer list \<Rightarrow> discovery_peer list" where
  "merge_peer in_response_set peer peers =
    (case List.extract (\<lambda>x. is_same_peer x peer) peers of
       Some (before, peer1, after) \<Rightarrow>
         (if in_response_set then peer\<lparr>dp_ip_mac := hm_extend (dp_ip_mac peer) (dp_ip_mac peer1), dp_online := True\<rparr> else peer)
           # before @ after
     | None \<Rightarrow> peer # peers)"

text \<open>An answer is merged and put first; the file is written at most every 300 milliseconds, and at the end.\<close>

definition lan_receive :: "nat \<times> discovery_peer \<Rightarrow> lan_state \<Rightarrow> lan_state" where
  "lan_receive x s =
    (case x of (now, peer) \<Rightarrow>
       let peers = merge_peer (dp_id peer \<in> set (ls_seen s)) peer (ls_peers s);
           s = s\<lparr>ls_peers := peers, ls_seen := (if dp_id peer \<in> set (ls_seen s) then ls_seen s else dp_id peer # ls_seen s)\<rparr> in
       if (case ls_last_write s of Some t \<Rightarrow> ms_since now t > 300 | None \<Rightarrow> True)
       then s\<lparr>ls_file := peers, ls_last_write := Some now\<rparr> else s)"

definition handle_received_peers :: "discovery_peer list \<Rightarrow> (nat \<times> discovery_peer) list \<Rightarrow> lan_state" where
  "handle_received_peers file answers =
    (let s = fold lan_receive answers (lan_load file) in s\<lparr>ls_file := ls_peers s\<rparr>)"

text \<open>Waking a peer: a packet for every hardware address of the first peer with the id, from every interface address.\<close>

definition send_wol :: "lan_interface list \<Rightarrow> (string \<Rightarrow> 'm option) \<Rightarrow> bytes \<Rightarrow> discovery_peer list \<Rightarrow> ('m \<times> string) list" where
  "send_wol interfaces parse_mac i peers =
    (case filter (\<lambda>p. dp_id p = i) peers of
       [] \<Rightarrow> []
     | peer # _ \<Rightarrow>
         concat (map (\<lambda>(_, mac). case parse_mac mac of
             Some m \<Rightarrow> concat (map (\<lambda>f. map (Pair m) (if_ipv4 f)) interfaces) | None \<Rightarrow> []) (dp_ip_mac peer)))"

subsection \<open>The merged list\<close>

definition peer_key :: "discovery_peer \<Rightarrow> bytes \<times> string" where
  "peer_key p = (dp_id p, dp_username p)"

definition ips :: "discovery_peer \<Rightarrow> string set" where
  "ips p = fst ` set (dp_ip_mac p)"

lemma is_same_peer_key: "is_same_peer a b \<longleftrightarrow> peer_key a = peer_key b"
  by (simp add: is_same_peer_def peer_key_def)

lemma hm_insert_keys: "fst ` set (hm_insert k v m) = insert k (fst ` set m)"
  by (simp add: hm_insert_def dom_update)

lemma hm_extend_keys: "fst ` set (hm_extend m m') = fst ` set m \<union> fst ` set m'"
proof -
  have "fst ` set (fold (\<lambda>(k, v). hm_insert k v) m' m) = fst ` set m \<union> fst ` set m'"
    by (induction m' arbitrary: m) (simp_all add: hm_insert_keys case_prod_beta)
  then show ?thesis by (simp add: hm_extend_def)
qed

lemma merge_peer_cases:
  obtains (old) before peer1 after where "peers = before @ peer1 # after" "peer_key peer1 = peer_key peer"
    "merge_peer seen peer peers =
       (if seen then peer\<lparr>dp_ip_mac := hm_extend (dp_ip_mac peer) (dp_ip_mac peer1), dp_online := True\<rparr> else peer) # before @ after"
  | (new) "peer_key peer \<notin> set (map peer_key peers)" "merge_peer seen peer peers = peer # peers"
proof (cases "List.extract (\<lambda>x. is_same_peer x peer) peers")
  case None
  then have "peer_key peer \<notin> set (map peer_key peers)" by (auto simp: extract_None_iff is_same_peer_key)
  then show thesis using None by (intro new) (simp_all add: merge_peer_def)
next
  case (Some x)
  obtain before peer1 after where x: "x = (before, peer1, after)" by (metis prod_cases3)
  show thesis
  proof (rule old)
    show "peers = before @ peer1 # after" "peer_key peer1 = peer_key peer"
      using Some by (auto simp: extract_Some_iff is_same_peer_key x)
    show "merge_peer seen peer peers =
        (if seen then peer\<lparr>dp_ip_mac := hm_extend (dp_ip_mac peer) (dp_ip_mac peer1), dp_online := True\<rparr> else peer) # before @ after"
      by (simp add: merge_peer_def Some x)
  qed
qed

text \<open>What the list holds after the answers \<open>xs\<close>, with the peers \<open>fs\<close> of the file.\<close>

definition merged :: "discovery_peer list \<Rightarrow> discovery_peer list \<Rightarrow> discovery_peer list \<Rightarrow> bool" where
  "merged fs xs peers \<longleftrightarrow> distinct (map peer_key peers)
     \<and> (\<forall>a \<in> set xs. \<exists>p \<in> set peers. peer_key p = peer_key a \<and> dp_online p \<and> ips a \<subseteq> ips p)
     \<and> (\<forall>f \<in> set fs. peer_key f \<notin> peer_key ` set xs \<longrightarrow> f\<lparr>dp_online := False\<rparr> \<in> set peers)"

lemma peer_key_updates [simp]:
  "peer_key (p\<lparr>dp_ip_mac := m\<rparr>) = peer_key p" "peer_key (p\<lparr>dp_online := b\<rparr>) = peer_key p"
  by (simp_all add: peer_key_def)

lemma mergedI:
  assumes "distinct (map peer_key peers)"
    and "\<And>a. a \<in> set xs \<Longrightarrow> \<exists>p \<in> set peers. peer_key p = peer_key a \<and> dp_online p \<and> ips a \<subseteq> ips p"
    and "\<And>f. f \<in> set fs \<Longrightarrow> peer_key f \<notin> peer_key ` set xs \<Longrightarrow> f\<lparr>dp_online := False\<rparr> \<in> set peers"
  shows "merged fs xs peers"
  using assms by (simp add: merged_def)

lemma merged_online:
  assumes "merged fs xs peers" and "a \<in> set xs"
  obtains p where "p \<in> set peers" "peer_key p = peer_key a" "dp_online p" "ips a \<subseteq> ips p"
  using assms by (meson merged_def)

lemma merged_step:
  assumes "merged fs xs peers" and "dp_online peer" and "set (map dp_id xs) \<subseteq> S" and "S \<subseteq> set (map dp_id xs)"
  shows "merged fs (peer # xs) (merge_peer (dp_id peer \<in> S) peer peers)"
proof (cases rule: merge_peer_cases [of peers peer "dp_id peer \<in> S"])
  case new
  then have "distinct (map peer_key (peer # peers))" using assms(1) by (simp add: merged_def)
  moreover have "\<exists>p \<in> set (peer # peers). peer_key p = peer_key a \<and> dp_online p \<and> ips a \<subseteq> ips p" if "a \<in> set (peer # xs)" for a
  proof (cases "a = peer")
    case True
    then show ?thesis using assms(2) by (intro bexI [of _ peer]) simp_all
  next
    case False
    then have ax: "a \<in> set xs" using that by simp
    obtain p where "p \<in> set peers" "peer_key p = peer_key a" "dp_online p" "ips a \<subseteq> ips p"
      using merged_online [OF assms(1) ax] .
    then show ?thesis by (intro bexI [of _ p]) simp_all
  qed
  moreover have "f\<lparr>dp_online := False\<rparr> \<in> set (peer # peers)" if "f \<in> set fs" "peer_key f \<notin> peer_key ` set (peer # xs)" for f
    using that assms(1) by (simp add: merged_def)
  ultimately show ?thesis unfolding new(2) by (intro mergedI) simp_all
next
  case (old before peer1 after)
  define q where "q = (if dp_id peer \<in> S then peer\<lparr>dp_ip_mac := hm_extend (dp_ip_mac peer) (dp_ip_mac peer1), dp_online := True\<rparr> else peer)"
  have q: "peer_key q = peer_key peer" "dp_online q" "ips peer \<subseteq> ips q" "dp_id peer \<in> S \<Longrightarrow> ips peer1 \<subseteq> ips q"
    using assms(2) by (simp_all add: q_def ips_def hm_extend_keys)
  have new: "merge_peer (dp_id peer \<in> S) peer peers = q # before @ after" using old(3) by (simp add: q_def)
  have d: "distinct (map peer_key (q # before @ after))"
  proof -
    have "distinct (map peer_key before @ peer_key peer1 # map peer_key after)" using assms(1) old(1) by (simp add: merged_def)
    then show ?thesis using old(2) q(1) by simp
  qed
  have a: "\<exists>p \<in> set (q # before @ after). peer_key p = peer_key a \<and> dp_online p \<and> ips a \<subseteq> ips p" if ax: "a \<in> set xs" for a
  proof -
    obtain p where p: "p \<in> set peers" "peer_key p = peer_key a" "dp_online p" "ips a \<subseteq> ips p"
      using merged_online [OF assms(1) ax] .
    show ?thesis
    proof (cases "p = peer1")
      case True
      then have "dp_id peer = dp_id a" using p(2) old(2) by (simp add: peer_key_def)
      then have "dp_id peer \<in> S" using ax assms(3) by auto
      then have "ips a \<subseteq> ips q" using p(4) q(4) True by blast
      then show ?thesis using p(2) True q(1,2) old(2) by (intro bexI [of _ q]) simp_all
    next
      case False
      then have "p \<in> set (q # before @ after)" using p(1) old(1) by auto
      then show ?thesis using p(2-4) by blast
    qed
  qed
  have f: "f\<lparr>dp_online := False\<rparr> \<in> set (q # before @ after)" if "f \<in> set fs" "peer_key f \<notin> peer_key ` set (peer # xs)" for f
  proof -
    have "f\<lparr>dp_online := False\<rparr> \<in> set peers" using assms(1) that by (simp add: merged_def)
    moreover have "f\<lparr>dp_online := False\<rparr> \<noteq> peer1" using that(2) old(2) by auto
    ultimately show ?thesis unfolding old(1) by simp
  qed
  have "\<exists>p \<in> set (q # before @ after). peer_key p = peer_key peer \<and> dp_online p \<and> ips peer \<subseteq> ips p"
    using q(1-3) by (intro bexI [of _ q]) simp_all
  then have b: "\<forall>b \<in> set (peer # xs). \<exists>p \<in> set (q # before @ after). peer_key p = peer_key b \<and> dp_online p \<and> ips b \<subseteq> ips p"
    using a by simp
  show ?thesis unfolding new by (rule mergedI [OF d bspec [OF b] f])
qed

lemma fold_receive_merged:
  assumes "merged fs xs (ls_peers s)" and "set (ls_seen s) = dp_id ` set xs" and "\<forall>x \<in> set ys. dp_online (snd x)"
  shows "merged fs (rev (map snd ys) @ xs) (ls_peers (fold lan_receive ys s))"
  using assms
proof (induction ys arbitrary: s xs)
  case (Cons y ys)
  obtain now peer where y: "y = (now, peer)" by fastforce
  have "ls_peers (lan_receive y s) = merge_peer (dp_id peer \<in> set (ls_seen s)) peer (ls_peers s)"
      "set (ls_seen (lan_receive y s)) = dp_id ` set (peer # xs)"
    using Cons.prems(2) by (auto simp: y lan_receive_def Let_def)
  moreover have "merged fs (peer # xs) (merge_peer (dp_id peer \<in> set (ls_seen s)) peer (ls_peers s))"
    using Cons.prems by (intro merged_step) (auto simp: y)
  ultimately show ?case using Cons.IH [of "peer # xs" "lan_receive y s"] Cons.prems(3) by (simp add: y)
qed simp

text \<open>
  Discovery loses nobody: from a file without duplicates, after any answers in any order and at any times, no
  peer is listed twice; every peer that answered is listed as online, with all the addresses it answered from;
  every other peer of the file is kept as it was, offline; and this list is what the file holds at the end.
\<close>

theorem lan_discovery_complete:
  assumes "distinct (map peer_key file)" and "\<forall>x \<in> set answers. dp_online (snd x)"
  shows "merged file (map snd answers) (ls_peers (handle_received_peers file answers))
    \<and> ls_file (handle_received_peers file answers) = ls_peers (handle_received_peers file answers)"
proof -
  have "distinct (map peer_key (map (\<lambda>p. p\<lparr>dp_online := False\<rparr>) file))" using assms(1) by (simp add: comp_def)
  then have "merged file [] (ls_peers (lan_load file))" by (auto simp: merged_def lan_load_def)
  from fold_receive_merged [OF this _ assms(2)]
  have "merged file (rev (map snd answers)) (ls_peers (fold lan_receive answers (lan_load file)))" by (simp add: lan_load_def)
  then show ?thesis by (simp add: handle_received_peers_def merged_def Let_def)
qed

definition demo_peer :: "string \<Rightarrow> bool \<Rightarrow> discovery_peer" where
  "demo_peer ip online = \<lparr>dp_id = [49], dp_username = ''u'', dp_hostname = ''h'', dp_platform = ''p'', dp_online = online, dp_ip_mac = [(ip, ''m'')]\<rparr>"

theorem lan_discovery_complete_witness:
  "merged [demo_peer ''a'' True] [demo_peer ''b'' True, demo_peer ''c'' True]
     (ls_peers (handle_received_peers [demo_peer ''a'' True] [(1, demo_peer ''b'' True), (2, demo_peer ''c'' True)]))"
  using lan_discovery_complete [of "[demo_peer ''a'' True]" "[(1, demo_peer ''b'' True), (2, demo_peer ''c'' True)]"]
  by (simp add: demo_peer_def)

text \<open>
  A machine does not answer its own ping when the ping carries its id, nor any ping while discovery is switched off.
  When two hardware addresses are unknown on both sides, the machine lists its own answer.
\<close>

lemma lan_answer_not_self:
  assumes "cf_id (gs_config (rw_cfg w)) \<noteq> []" and "pd_id p = cf_id (gs_config (rw_cfg w))"
  shows "snd (lan_answer env fr me a p w) = None"
  using assms by (simp add: lan_answer_def world_id_def get_id_nonempty)

lemma own_answer_listed:
  assumes "sf_interfaces me = []" and "snd (lan_answer env fr me (Some a) (lan_ping []) w) = Some pong"
  shows "\<exists>peer. snd (wait_packet [] local now ip to_peer pong st) = Some peer \<and> dp_id peer = pd_id pong"
  using assms by (auto simp: lan_answer_def lan_ping_def wait_packet_def local_mac_def get_mac_def get_mac_by_ip_def
      unwrap_or_default_def List.map_filter_simps case_prod_beta Let_def split: if_splits option.splits)

end
