(* ===== verification/Client_Files.thy ===== *)
theory Client_Files
  imports Fs_Job Net_Util
begin

text \<open>
  The file side of a client's session, the struct \<open>Remote\<close> of \<open>src/client/io_loop.rs\<close>: the jobs that read and write
  local files, the jobs that delete files, the commands of the user interface about them and the file messages of
  the peer. The functions on single jobs are those of \<open>Fs_Job\<close>. What a step sends to the peer, tells the user
  interface and puts in the session's own queue is part of its state. A panic is \<open>None\<close>. The client is a Unix build.
\<close>

subsection \<open>Data\<close>

record remove_job_info =
  rj_files :: "file_entry list"
  rj_path :: string
  rj_sep :: string
  rj_is_remote :: bool
  rj_no_confirm :: bool
  rj_last_update :: int

datatype file_cmd =
    SendFiles i32 job_type string string i32 bool bool
  | AddJob i32 job_type string string i32 bool bool
  | ResumeJob i32 bool
  | SetNoConfirm i32
  | ConfirmDeleteFiles i32 i32
  | SetConfirmOverrideFile i32 i32 bool bool bool
  | RemoveDirAll i32 string bool bool
  | CancelJob i32
  | RemoveDir i32 string
  | RemoveFile i32 string i32 bool
  | CreateDir i32 string bool
  | RenameFile i32 string string bool

datatype file_out =
    OutSend i32 job_type string i32 bool
  | OutReceive i32 string i32 "file_entry list" u64
  | OutSendConfirm confirm_request
  | OutAllFiles i32 string bool
  | OutCancel i32
  | OutRemoveDir i32 string
  | OutRemoveFile i32 string i32
  | OutCreateDir i32 string
  | OutRename i32 string string
  | OutJob fs_msg

datatype file_ui =
    UiJobError i32 string i32
  | UiJobDone i32 i32
  | UiFolderFiles i32 "file_entry list" string bool bool
  | UiConfirmDelete i32 i32 string
  | UiOverrideConfirm i32 i32 string bool bool
  | UiProgress i32 i32 u64 i32 u64
  | UiDisconnect string

datatype peer_file_msg =
    PrDir i32 string "file_entry list"
  | PrDigest bool file_transfer_digest
  | PrBlock file_block
  | PrDone i32 i32
  | PrError i32 string i32
  | PrSendConfirm confirm_request

record client_files =
  cl_read_jobs :: "transfer_job list"
  cl_write_jobs :: "transfer_job list"
  cl_remove_jobs :: "(i32, remove_job_info) hmap"
  cl_fs :: fsys
  cl_fast_timer :: bool
  cl_last_status :: "int \<times> (i32, u64) hmap"
  cl_queue :: "file_cmd list"
  cl_sent :: "file_out list"
  cl_ui :: "file_ui list"

text \<open>The file system of the client, listings of directories, and what is known of the peer.\<close>

record cl_env =
  xe_fs :: fs_env
  xe_listing :: "string \<Rightarrow> bool \<Rightarrow> (file_entry list, string) result"
  xe_create_dir_ok :: "string \<Rightarrow> bool"
  xe_rename_ok :: "string \<Rightarrow> string \<Rightarrow> bool"
  xe_is_dir :: "string \<Rightarrow> bool"
  xe_version :: i64
  xe_peer_platform :: string
  xe_platform :: string

definition can_enable_overwrite_detection :: "i64 \<Rightarrow> bool" where
  "can_enable_overwrite_detection version \<longleftrightarrow> get_version_number ''1.1.10'' \<le>s version"

definition is_support_file_transfer_resume_num :: "i64 \<Rightarrow> bool" where
  "is_support_file_transfer_resume_num ver \<longleftrightarrow> get_version_number ''1.4.2'' \<le>s ver"

definition get_path_sep :: "cl_env \<Rightarrow> bool \<Rightarrow> string" where
  "get_path_sep env is_remote = (if (if is_remote then xe_peer_platform env else xe_platform env) = ''Windows'' then [CHR 0x5C] else ''/'')"

definition transform_windows_path :: "file_entry list \<Rightarrow> file_entry list" where
  "transform_windows_path entries = map (\<lambda>e. e\<lparr>fe_name := map (\<lambda>c. if c = CHR 0x5C then CHR ''/'' else c) (fe_name e)\<rparr>) entries"

fun update_job :: "i32 \<Rightarrow> (transfer_job \<Rightarrow> transfer_job) \<Rightarrow> transfer_job list \<Rightarrow> transfer_job list" where
  "update_job i f [] = []"
| "update_job i f (job # jobs) = (if tj_id job = i then f job # jobs else job # update_job i f jobs)"

definition send_peer :: "file_out \<Rightarrow> client_files \<Rightarrow> client_files" where
  "send_peer m s = s\<lparr>cl_sent := cl_sent s @ [m]\<rparr>"

definition tell_ui :: "file_ui \<Rightarrow> client_files \<Rightarrow> client_files" where
  "tell_ui u s = s\<lparr>cl_ui := cl_ui s @ [u]\<rparr>"

subsection \<open>Files of the client\<close>

definition remove_file :: "cl_env \<Rightarrow> string \<Rightarrow> fsys \<Rightarrow> fsys \<times> string option" where
  "remove_file env path fs =
    (if fs path \<noteq> None \<and> fv_can_remove (xe_fs env) path then (fs_remove path fs, None) else (fs, Some ''remove failed''))"

definition create_dir :: "cl_env \<Rightarrow> string \<Rightarrow> string option" where
  "create_dir env path = (if xe_create_dir_ok env path then None else Some ''create failed'')"

definition strip_slashes :: "string \<Rightarrow> string" where
  "strip_slashes path = rev (dropWhile (\<lambda>c. c = CHR ''/'') (rev path))"

text \<open>\<open>Path::parent\<close>, of a path without \<open>.\<close> components.\<close>

definition parent_dir :: "string \<Rightarrow> string option" where
  "parent_dir path =
    (let q = strip_slashes path in
     if q = [] then None
     else let dir = strip_slashes (rev (dropWhile (\<lambda>c. c \<noteq> CHR ''/'') (rev q))) in
          Some (if dir = [] \<and> path ! 0 = CHR ''/'' then ''/'' else dir))"

text \<open>Renaming moves a file, or everything below a directory; files that are open move along.\<close>

definition move_path :: "string \<Rightarrow> string \<Rightarrow> fsys \<Rightarrow> fsys" where
  "move_path a b fs = (\<lambda>q.
     if q = b then fs a
     else if prefix (b @ ''/'') q then fs (a @ drop (length b) q)
     else if q = a \<or> prefix (a @ ''/'') q then None
     else fs q)"

definition follow_move :: "string \<Rightarrow> string \<Rightarrow> transfer_job \<Rightarrow> transfer_job" where
  "follow_move a b job =
    (case tj_data_stream job of
       Some (FileStream q pos) \<Rightarrow>
         if q = a \<or> prefix (a @ ''/'') q then job\<lparr>tj_data_stream := Some (FileStream (b @ drop (length a) q) pos)\<rparr> else job
     | _ \<Rightarrow> job)"

definition rename_target :: "cl_env \<Rightarrow> string \<Rightarrow> string \<Rightarrow> fsys \<Rightarrow> (string, string) result" where
  "rename_target env path new_name fs =
    (if fs path \<noteq> None \<or> xe_is_dir env path then
       (case parent_dir path of
          None \<Rightarrow> Err ''no parent''
        | Some dir \<Rightarrow>
            let new_path = path_join dir new_name in
            if xe_rename_ok env path new_path then Ok new_path else Err ''rename failed'')
     else Err ''not exists'')"

definition rename_file :: "cl_env \<Rightarrow> string \<Rightarrow> string \<Rightarrow> client_files \<Rightarrow> client_files \<times> string option" where
  "rename_file env path new_name s =
    (case rename_target env path new_name (cl_fs s) of
       Err e \<Rightarrow> (s, Some e)
     | Ok new_path \<Rightarrow>
         (s\<lparr>cl_fs := move_path path new_path (cl_fs s),
            cl_read_jobs := map (follow_move path new_path) (cl_read_jobs s),
            cl_write_jobs := map (follow_move path new_path) (cl_write_jobs s)\<rparr>, None))"

subsection \<open>Progress\<close>

definition handle_job_status :: "int \<Rightarrow> i32 \<Rightarrow> i32 \<Rightarrow> string option \<Rightarrow> client_files \<Rightarrow> client_files" where
  "handle_job_status now i file_num err s =
    (let report = (\<lambda>s. tell_ui (case err of Some e \<Rightarrow> UiJobError i e file_num | None \<Rightarrow> UiJobDone i file_num) s) in
     case hm_get (cl_remove_jobs s) i of
       None \<Rightarrow> report s
     | Some job \<Rightarrow>
         if rj_no_confirm job then
           let n = i32_as_usize (file_num + 1) in
           if n < length (rj_files job) then
             let path = rj_path job @ rj_sep job @ fe_name (rj_files job ! n);
                 s = s\<lparr>cl_queue := cl_queue s @ [RemoveFile i path (of_nat n) (rj_is_remote job)]\<rparr> in
             if (1000 :: i32) \<le>s word_of_int (now - rj_last_update job)
             then report (s\<lparr>cl_remove_jobs := hm_insert i (job\<lparr>rj_last_update := now\<rparr>) (cl_remove_jobs s)\<rparr>)
             else s
           else report (s\<lparr>cl_remove_jobs := hm_remove i (cl_remove_jobs s)\<rparr>)
         else report s)"

definition update_job_status :: "i32 \<Rightarrow> transfer_job \<Rightarrow> client_files \<Rightarrow> client_files" where
  "update_job_status elapsed job s =
    (if elapsed \<le>s 0 then s
     else let last_transferred = unwrap_or (hm_get (snd (cl_last_status s)) (tj_id job)) 0;
              s = s\<lparr>cl_last_status := (fst (cl_last_status s), hm_insert (tj_id job) (tj_transferred job) (snd (cl_last_status s)))\<rparr> in
          tell_ui (UiProgress (tj_id job) (tj_file_num job - 1) (tj_transferred job - last_transferred) elapsed (tj_finished_size job)) s)"

definition update_jobs_status :: "int \<Rightarrow> client_files \<Rightarrow> client_files" where
  "update_jobs_status now s =
    (let elapsed = word_of_int (now - fst (cl_last_status s)) in
     if 1000 \<le>s elapsed then
       let s = fold (update_job_status elapsed) (cl_read_jobs s @ cl_write_jobs s) s in
       s\<lparr>cl_last_status := (now, snd (cl_last_status s))\<rparr>
     else s)"

subsection \<open>Commands of the user interface\<close>

definition mk_confirm :: "i32 \<Rightarrow> i32 \<Rightarrow> bool \<Rightarrow> u32 \<Rightarrow> confirm_request" where
  "mk_confirm i file_num overwrite offset =
     \<lparr>cr_id = i, cr_file_num = file_num, cr_union = Some (if overwrite then ConfirmOffsetBlk offset else ConfirmSkip True)\<rparr>"

text \<open>A new job that reads local files, for sending now or (\<open>last_job\<close>) for a later resume.\<close>

definition add_read_job ::
  "cl_env \<Rightarrow> int \<Rightarrow> bool \<Rightarrow> i32 \<Rightarrow> job_type \<Rightarrow> string \<Rightarrow> string \<Rightarrow> i32 \<Rightarrow> bool \<Rightarrow> bool \<Rightarrow> client_files \<Rightarrow> client_files" where
  "add_read_job env now last_job i ty path to file_num hidden is_remote s =
    (case new_read (xe_listing env) i ty to (FilePath path) file_num hidden is_remote (can_enable_overwrite_detection (xe_version env)) of
       Err e \<Rightarrow> handle_job_status now i (- 1) (Some e) s
     | Ok job \<Rightarrow>
         let s = tell_ui (UiFolderFiles (tj_id job) (tj_files job) path (\<not> is_remote) True) s;
             s = s\<lparr>cl_read_jobs := cl_read_jobs s @ [if last_job then job\<lparr>tj_is_last_job := True\<rparr> else job], cl_fast_timer := True\<rparr> in
         if last_job then s else send_peer (OutReceive i to file_num (tj_files job) (tj_total_size job)) s)"

definition resume_job :: "i32 \<Rightarrow> bool \<Rightarrow> client_files \<Rightarrow> client_files" where
  "resume_job i is_remote s =
    (if is_remote then
       (case get_job i (cl_write_jobs s) of
          None \<Rightarrow> s
        | Some job \<Rightarrow>
            send_peer (OutSend i JobGeneric (tj_remote job) (tj_file_num job) (tj_show_hidden job))
              (s\<lparr>cl_write_jobs := update_job i (\<lambda>j. j\<lparr>tj_is_last_job := False, tj_is_resume := True\<rparr>) (cl_write_jobs s)\<rparr>))
     else
       (case get_job i (cl_read_jobs s) of
          None \<Rightarrow> s
        | Some job \<Rightarrow>
            (case tj_data_source job of
               MemoryCursor _ \<Rightarrow> s
             | FilePath _ \<Rightarrow>
                 send_peer (OutReceive i (tj_remote job) (tj_file_num job) (tj_files job) (tj_total_size job))
                   (s\<lparr>cl_read_jobs := update_job i
                        (\<lambda>j. set_finished_size_on_resume (j\<lparr>tj_is_last_job := False, tj_is_resume := True\<rparr>)) (cl_read_jobs s)\<rparr>))))"

text \<open>\<open>confirm_job\<close> applies \<open>TransferJob::confirm\<close> in a list of jobs.\<close>

definition confirm_job :: "cl_env \<Rightarrow> fsys \<Rightarrow> confirm_request \<Rightarrow> transfer_job list \<Rightarrow> transfer_job list option" where
  "confirm_job env fs r jobs =
    (case get_job (cr_id r) jobs of
       None \<Rightarrow> Some jobs
     | Some job \<Rightarrow> map_option (\<lambda>job'. update_job (cr_id r) (\<lambda>_. job') jobs) (confirm (xe_fs env) fs r job))"

definition set_confirm_override :: "cl_env \<Rightarrow> i32 \<Rightarrow> i32 \<Rightarrow> bool \<Rightarrow> bool \<Rightarrow> bool \<Rightarrow> client_files \<Rightarrow> client_files option" where
  "set_confirm_override env i file_num need_override remember is_upload s =
    (let r = mk_confirm i file_num need_override 0;
         keep = (if remember then update_job i (set_overwrite_strategy (Some need_override)) else (\<lambda>jobs. jobs)) in
     if is_upload then
       (case get_job i (cl_read_jobs s) of
          None \<Rightarrow> Some s
        | Some _ \<Rightarrow> map_option (\<lambda>jobs. s\<lparr>cl_read_jobs := jobs\<rparr>) (confirm_job env (cl_fs s) r (keep (cl_read_jobs s))))
     else
       (case get_job i (cl_write_jobs s) of
          None \<Rightarrow> Some s
        | Some _ \<Rightarrow>
            map_option (\<lambda>jobs. send_peer (OutSendConfirm r) (s\<lparr>cl_write_jobs := jobs\<rparr>))
              (confirm_job env (cl_fs s) r (keep (cl_write_jobs s)))))"

definition remove_dir_all :: "cl_env \<Rightarrow> int \<Rightarrow> i32 \<Rightarrow> string \<Rightarrow> bool \<Rightarrow> bool \<Rightarrow> client_files \<Rightarrow> client_files" where
  "remove_dir_all env now i path is_remote hidden s =
    (let job = (\<lambda>files. \<lparr>rj_files = files, rj_path = path, rj_sep = get_path_sep env is_remote, rj_is_remote = is_remote,
                 rj_no_confirm = False, rj_last_update = now\<rparr>) in
     if is_remote then
       send_peer (OutAllFiles i path hidden) (s\<lparr>cl_remove_jobs := hm_insert i (job []) (cl_remove_jobs s)\<rparr>)
     else case xe_listing env path hidden of
       Err e \<Rightarrow> handle_job_status now i (- 1) (Some e) s
     | Ok entries \<Rightarrow>
         tell_ui (UiFolderFiles i entries path (\<not> is_remote) False)
           (s\<lparr>cl_remove_jobs := hm_insert i (job entries) (cl_remove_jobs s)\<rparr>))"

definition cancel_job :: "cl_env \<Rightarrow> i32 \<Rightarrow> client_files \<Rightarrow> client_files" where
  "cancel_job env i s =
    (let s = send_peer (OutCancel i) s;
         (write_jobs, removed) = remove_job i (cl_write_jobs s) in
     s\<lparr>cl_write_jobs := write_jobs,
       cl_fs := (case removed of Some job \<Rightarrow> remove_download_file (xe_fs env) job (cl_fs s) | None \<Rightarrow> cl_fs s),
       cl_read_jobs := fst (remove_job i (cl_read_jobs s)),
       cl_remove_jobs := hm_remove i (cl_remove_jobs s)\<rparr>)"

fun handle_msg_from_ui :: "cl_env \<Rightarrow> int \<Rightarrow> file_cmd \<Rightarrow> client_files \<Rightarrow> client_files option" where
  "handle_msg_from_ui env now (SendFiles i ty path to file_num hidden is_remote) s =
    Some (if is_remote then
       let dest = (case ty of JobGeneric \<Rightarrow> FilePath to | JobPrinter \<Rightarrow> MemoryCursor []);
           job = new_write i ty path dest file_num hidden is_remote [] (can_enable_overwrite_detection (xe_version env)) in
       send_peer (OutSend i ty path file_num hidden) (s\<lparr>cl_write_jobs := cl_write_jobs s @ [job]\<rparr>)
     else add_read_job env now False i ty path to file_num hidden is_remote s)"
| "handle_msg_from_ui env now (AddJob i ty path to file_num hidden is_remote) s =
    Some (if is_remote then
       let job = new_write i ty path (FilePath to) file_num hidden is_remote [] (can_enable_overwrite_detection (xe_version env)) in
       s\<lparr>cl_write_jobs := cl_write_jobs s @ [job\<lparr>tj_is_last_job := True\<rparr>]\<rparr>
     else add_read_job env now True i ty path to file_num hidden is_remote s)"
| "handle_msg_from_ui env now (ResumeJob i is_remote) s = Some (resume_job i is_remote s)"
| "handle_msg_from_ui env now (SetNoConfirm i) s =
    Some (s\<lparr>cl_remove_jobs := hm_modify i (\<lambda>job. job\<lparr>rj_no_confirm := True\<rparr>) (cl_remove_jobs s)\<rparr>)"
| "handle_msg_from_ui env now (ConfirmDeleteFiles i file_num) s =
    Some (case hm_get (cl_remove_jobs s) i of
       None \<Rightarrow> s
     | Some job \<Rightarrow>
         if i32_as_usize file_num < length (rj_files job)
         then tell_ui (UiConfirmDelete i file_num (fe_name (rj_files job ! i32_as_usize file_num))) s else s)"
| "handle_msg_from_ui env now (SetConfirmOverrideFile i file_num need_override remember is_upload) s =
    set_confirm_override env i file_num need_override remember is_upload s"
| "handle_msg_from_ui env now (RemoveDirAll i path is_remote hidden) s = Some (remove_dir_all env now i path is_remote hidden s)"
| "handle_msg_from_ui env now (CancelJob i) s = Some (cancel_job env i s)"
| "handle_msg_from_ui env now (RemoveDir i path) s = Some (send_peer (OutRemoveDir i path) s)"
| "handle_msg_from_ui env now (RemoveFile i path file_num is_remote) s =
    Some (if is_remote then send_peer (OutRemoveFile i path file_num) s
     else case remove_file env path (cl_fs s) of (fs, err) \<Rightarrow> handle_job_status now i file_num err (s\<lparr>cl_fs := fs\<rparr>))"
| "handle_msg_from_ui env now (CreateDir i path is_remote) s =
    Some (if is_remote then send_peer (OutCreateDir i path) s else handle_job_status now i (- 1) (create_dir env path) s)"
| "handle_msg_from_ui env now (RenameFile i path new_name is_remote) s =
    Some (if is_remote then send_peer (OutRename i path new_name) s
     else case rename_file env path new_name s of (s, err) \<Rightarrow> handle_job_status now i (- 1) err s)"

subsection \<open>Messages of the peer\<close>

text \<open>The answer to a digest: confirm and tell the peer, or ask the user.\<close>

definition answer_digest ::
  "cl_env \<Rightarrow> bool \<Rightarrow> file_transfer_digest \<Rightarrow> string \<Rightarrow> bool option \<Rightarrow> u32 \<Rightarrow> client_files \<Rightarrow> client_files option" where
  "answer_digest env is_upload digest path overwrite_strategy offset s =
    (case overwrite_strategy of
       None \<Rightarrow> Some (tell_ui (UiOverrideConfirm (fd_id digest) (fd_file_num digest) path is_upload (fd_is_identical digest)) s)
     | Some overwrite \<Rightarrow>
         let r = mk_confirm (fd_id digest) (fd_file_num digest) overwrite offset in
         map_option (\<lambda>jobs. send_peer (OutSendConfirm r) (if is_upload then s\<lparr>cl_read_jobs := jobs\<rparr> else s\<lparr>cl_write_jobs := jobs\<rparr>))
           (confirm_job env (cl_fs s) r (if is_upload then cl_read_jobs s else cl_write_jobs s)))"

definition digest_strategy :: "transfer_job \<Rightarrow> file_transfer_digest \<Rightarrow> bool option \<times> u32" where
  "digest_strategy job digest =
    (if fd_is_identical digest \<and> tj_is_resume job \<and> fd_transferred_size digest > 0
     then (Some True, ucast (fd_transferred_size digest)) else (tj_default_overwrite_strategy job, 0))"

definition upload_digest :: "cl_env \<Rightarrow> file_transfer_digest \<Rightarrow> client_files \<Rightarrow> client_files option" where
  "upload_digest env digest s =
    (case get_job (fd_id digest) (cl_read_jobs s) of
       None \<Rightarrow> Some s
     | Some job \<Rightarrow>
         let n = i32_as_usize (fd_file_num digest) in
         (case tj_data_source job of
            FilePath p \<Rightarrow>
              if n < length (tj_files job)
              then (case digest_strategy job digest of (strategy, offset) \<Rightarrow>
                      answer_digest env True digest (job_join p (fe_name (tj_files job ! n))) strategy offset s)
              else Some s
          | MemoryCursor _ \<Rightarrow> Some s))"

definition download_digest :: "cl_env \<Rightarrow> file_transfer_digest \<Rightarrow> client_files \<Rightarrow> client_files option" where
  "download_digest env digest s =
    (case get_job (fd_id digest) (cl_write_jobs s) of
       None \<Rightarrow> Some s
     | Some job \<Rightarrow>
         let n = i32_as_usize (fd_file_num digest) in
         (case tj_data_source job of
            MemoryCursor _ \<Rightarrow> Some s
          | FilePath p \<Rightarrow>
              if n \<ge> length (tj_files job) then Some s
              else
                let write_path = job_join p (fe_name (tj_files job ! n));
                    s = s\<lparr>cl_write_jobs := update_job (fd_id digest) (set_digest (fd_file_size digest) (fd_last_modified digest)) (cl_write_jobs s)\<rparr>;
                    resume = (is_support_file_transfer_resume_num (xe_version env) \<and> tj_is_resume job) in
                (case is_write_need_confirmation (xe_fs env) (cl_fs s) resume write_path digest of
                   Err _ \<Rightarrow> Some s
                 | Ok IsSame \<Rightarrow> answer_digest env False digest write_path (Some False) 0 s
                 | Ok NoSuchFile \<Rightarrow> answer_digest env False digest write_path (Some True) 0 s
                 | Ok (NeedConfirm digest) \<Rightarrow>
                     (case digest_strategy job digest of (strategy, offset) \<Rightarrow>
                        answer_digest env False digest write_path strategy offset s))))"

definition receive_block :: "cl_env \<Rightarrow> int \<Rightarrow> file_block \<Rightarrow> client_files \<Rightarrow> client_files" where
  "receive_block env now block s =
    (case get_job (fb_id block) (cl_write_jobs s) of
       None \<Rightarrow> s
     | Some job \<Rightarrow>
         (case job_write (xe_fs env) block job (cl_fs s) of
            (job', fs, _) \<Rightarrow>
              let s = s\<lparr>cl_write_jobs := update_job (fb_id block) (\<lambda>_. job') (cl_write_jobs s), cl_fs := fs\<rparr> in
              if tj_type job = JobGeneric then update_jobs_status now s else s))"

definition receive_done :: "cl_env \<Rightarrow> int \<Rightarrow> i32 \<Rightarrow> i32 \<Rightarrow> client_files \<Rightarrow> client_files" where
  "receive_done env now i file_num s =
    (case remove_job i (cl_write_jobs s) of
       (jobs, None) \<Rightarrow> handle_job_status now i file_num None (s\<lparr>cl_write_jobs := jobs\<rparr>)
     | (jobs, Some job) \<Rightarrow>
         let s = s\<lparr>cl_write_jobs := jobs, cl_fs := snd (modify_time (xe_fs env) job (cl_fs s))\<rparr> in
         if tj_type job = JobGeneric then handle_job_status now i file_num (job_error job) s else s)"

definition receive_error :: "int \<Rightarrow> i32 \<Rightarrow> string \<Rightarrow> i32 \<Rightarrow> client_files \<Rightarrow> client_files" where
  "receive_error now i err file_num s =
    (case remove_job i (cl_write_jobs s) of
       (jobs, removed) \<Rightarrow>
         let s = s\<lparr>cl_write_jobs := jobs\<rparr> in
         if (case removed of Some job \<Rightarrow> tj_type job | None \<Rightarrow> JobGeneric) = JobGeneric
         then handle_job_status now i file_num (Some err) s else s)"

definition receive_dir :: "cl_env \<Rightarrow> i32 \<Rightarrow> string \<Rightarrow> file_entry list \<Rightarrow> client_files \<Rightarrow> client_files" where
  "receive_dir env i path entries s =
    (let entries = (if xe_peer_platform env = ''Windows'' then transform_windows_path entries else entries);
         s = tell_ui (UiFolderFiles i entries path False False) s in
     if get_job i (cl_write_jobs s) \<noteq> None
     then s\<lparr>cl_write_jobs := update_job i (\<lambda>job. set_finished_size_on_resume (set_files entries job)) (cl_write_jobs s)\<rparr>
     else s\<lparr>cl_remove_jobs := hm_modify i (\<lambda>job. job\<lparr>rj_files := entries\<rparr>) (cl_remove_jobs s)\<rparr>)"

fun handle_file_msg_from_peer :: "cl_env \<Rightarrow> int \<Rightarrow> peer_file_msg \<Rightarrow> client_files \<Rightarrow> client_files option" where
  "handle_file_msg_from_peer env now (PrDir i path entries) s = Some (receive_dir env i path entries s)"
| "handle_file_msg_from_peer env now (PrDigest is_upload digest) s =
    (if is_upload then upload_digest env digest s else download_digest env digest s)"
| "handle_file_msg_from_peer env now (PrBlock block) s = Some (receive_block env now block s)"
| "handle_file_msg_from_peer env now (PrDone i file_num) s = Some (receive_done env now i file_num s)"
| "handle_file_msg_from_peer env now (PrError i err file_num) s = Some (receive_error now i err file_num s)"
| "handle_file_msg_from_peer env now (PrSendConfirm r) s =
    map_option (\<lambda>jobs. s\<lparr>cl_read_jobs := jobs\<rparr>) (confirm_job env (cl_fs s) r (cl_read_jobs s))"

text \<open>The timer: the read jobs go on while there are any; else it slows down again. A failing send ends the session.\<close>

definition files_tick :: "cl_env \<Rightarrow> int \<Rightarrow> client_files \<Rightarrow> client_files" where
  "files_tick env now s =
    (if cl_read_jobs s = [] then s\<lparr>cl_fast_timer := False\<rparr>
     else case handle_read_jobs (xe_fs env) (cl_fs s) (cl_read_jobs s) of
       (jobs, msgs, r) \<Rightarrow>
         let s = s\<lparr>cl_read_jobs := jobs, cl_sent := cl_sent s @ map OutJob msgs\<rparr> in
         (case r of Err e \<Rightarrow> tell_ui (UiDisconnect e) s | Ok _ \<Rightarrow> update_jobs_status now s))"

text \<open>The session takes the commands it has put in its own queue.\<close>

definition take_queue :: "cl_env \<Rightarrow> int \<Rightarrow> client_files \<Rightarrow> client_files option" where
  "take_queue env now s =
    (case cl_queue s of [] \<Rightarrow> Some s | cmd # rest \<Rightarrow> handle_msg_from_ui env now cmd (s\<lparr>cl_queue := rest\<rparr>))"


text \<open>The messages of the peer, one after the other, each with the time of its arrival.\<close>

fun peer_run :: "cl_env \<Rightarrow> (int \<times> peer_file_msg) list \<Rightarrow> client_files \<Rightarrow> client_files option" where
  "peer_run env [] s = Some s"
| "peer_run env ((now, m) # ms) s = Option.bind (handle_file_msg_from_peer env now m s) (peer_run env ms)"

fun queue_run :: "cl_env \<Rightarrow> int list \<Rightarrow> client_files \<Rightarrow> client_files option" where
  "queue_run env [] s = Some s"
| "queue_run env (now # ts) s = Option.bind (take_queue env now s) (queue_run env ts)"

subsection \<open>Lists of jobs\<close>

lemma get_job_SomeD: "get_job i jobs = Some job \<Longrightarrow> job \<in> set jobs \<and> tj_id job = i"
  by (induction jobs) (auto split: if_splits)

lemma get_job_id: "get_job i jobs = Some job \<Longrightarrow> tj_id job = i"
  by (simp add: get_job_SomeD)

lemma get_job_None_iff: "get_job i jobs = None \<longleftrightarrow> i \<notin> tj_id ` set jobs"
  by (induction jobs) auto

lemma get_update_job:
  "get_job i jobs = Some job \<Longrightarrow> tj_id (f job) = i \<Longrightarrow> get_job i (update_job i f jobs) = Some (f job)"
  by (induction jobs) (auto split: if_splits)

lemma update_job_twice: "tj_id (f j) = i \<Longrightarrow> get_job i jobs = Some j \<Longrightarrow> update_job i (\<lambda>_. g) (update_job i f jobs) = update_job i (\<lambda>_. g) jobs"
  by (induction jobs) (auto split: if_splits)

lemma update_job_absent: "get_job i jobs = None \<Longrightarrow> update_job i f jobs = jobs"
  by (induction jobs) (auto split: if_splits)

lemma list_all_update_job:
  "list_all P jobs \<Longrightarrow> (\<And>job. get_job i jobs = Some job \<Longrightarrow> P job \<Longrightarrow> P (f job)) \<Longrightarrow> list_all P (update_job i f jobs)"
  by (induction jobs) auto

lemma ids_update_job:
  "(\<And>job. get_job i jobs = Some job \<Longrightarrow> tj_id (f job) = i) \<Longrightarrow> map tj_id (update_job i f jobs) = map tj_id jobs"
  by (induction jobs) auto

lemma snd_remove_job: "snd (remove_job i jobs) = get_job i jobs"
  by (induction jobs) (auto split: prod.splits)

lemma set_remove_job: "set (fst (remove_job i jobs)) \<subseteq> set jobs"
  by (induction jobs) (auto split: prod.splits)

lemma remove_job_absent: "get_job i jobs = None \<Longrightarrow> remove_job i jobs = (jobs, None)"
  by (induction jobs) (auto split: if_splits)

lemma ids_remove_job: "map tj_id (fst (remove_job i jobs)) = remove1 i (map tj_id jobs)"
  by (induction jobs) (auto split: prod.splits)

subsection \<open>What the other parts of a step leave alone\<close>

lemma tell_ui_fields [simp]:
  "cl_fs (tell_ui u s) = cl_fs s" "cl_write_jobs (tell_ui u s) = cl_write_jobs s" "cl_read_jobs (tell_ui u s) = cl_read_jobs s"
  "cl_remove_jobs (tell_ui u s) = cl_remove_jobs s" "cl_queue (tell_ui u s) = cl_queue s" "cl_sent (tell_ui u s) = cl_sent s"
  "cl_ui (tell_ui u s) = cl_ui s @ [u]"
  by (simp_all add: tell_ui_def)

lemma send_peer_fields [simp]:
  "cl_fs (send_peer m s) = cl_fs s" "cl_write_jobs (send_peer m s) = cl_write_jobs s" "cl_read_jobs (send_peer m s) = cl_read_jobs s"
  "cl_remove_jobs (send_peer m s) = cl_remove_jobs s" "cl_queue (send_peer m s) = cl_queue s" "cl_ui (send_peer m s) = cl_ui s"
  "cl_sent (send_peer m s) = cl_sent s @ [m]"
  by (simp_all add: send_peer_def)

lemma handle_job_status_fields [simp]:
  "cl_fs (handle_job_status now i n err s) = cl_fs s"
  "cl_write_jobs (handle_job_status now i n err s) = cl_write_jobs s"
  "cl_read_jobs (handle_job_status now i n err s) = cl_read_jobs s"
  "cl_sent (handle_job_status now i n err s) = cl_sent s"
  by (simp_all add: handle_job_status_def Let_def split: option.split)

lemma update_job_status_fields:
  "cl_fs (update_job_status e job s) = cl_fs s \<and> cl_write_jobs (update_job_status e job s) = cl_write_jobs s
   \<and> cl_read_jobs (update_job_status e job s) = cl_read_jobs s \<and> cl_sent (update_job_status e job s) = cl_sent s"
  by (simp add: update_job_status_def Let_def)

lemma fold_update_job_status_fields:
  "cl_fs (fold (update_job_status e) jobs s) = cl_fs s \<and> cl_write_jobs (fold (update_job_status e) jobs s) = cl_write_jobs s
   \<and> cl_read_jobs (fold (update_job_status e) jobs s) = cl_read_jobs s \<and> cl_sent (fold (update_job_status e) jobs s) = cl_sent s"
  by (induction jobs arbitrary: s) (simp_all add: update_job_status_fields)

lemma update_jobs_status_fields [simp]:
  "cl_fs (update_jobs_status now s) = cl_fs s" "cl_write_jobs (update_jobs_status now s) = cl_write_jobs s"
  "cl_read_jobs (update_jobs_status now s) = cl_read_jobs s" "cl_sent (update_jobs_status now s) = cl_sent s"
  by (simp_all add: update_jobs_status_def Let_def fold_update_job_status_fields)

lemma confirm_fields:
  assumes "confirm env fs r job = Some job'"
  shows "tj_id job' = tj_id job \<and> tj_data_source job' = tj_data_source job \<and> tj_files job' = tj_files job \<and> tj_type job' = tj_type job"
  using assms
  by (auto simp: confirm_def set_stream_offset_def set_file_skipped_def set_file_confirmed_def set_file_is_waiting_def Let_def
      split: if_splits option.splits confirm_union.splits data_source.splits)

subsection \<open>Where a download writes\<close>

fun path_components :: "string \<Rightarrow> string list" where
  "path_components [] = [[]]"
| "path_components (c # cs) =
    (if c = CHR ''/'' then [] # path_components cs
     else case path_components cs of x # xs \<Rightarrow> (c # x) # xs | [] \<Rightarrow> [[c]])"

definition safe_name :: "string \<Rightarrow> bool" where
  "safe_name name \<longleftrightarrow> (name = [] \<or> name ! 0 \<noteq> CHR ''/'') \<and> ''..'' \<notin> set (path_components name)"

text \<open>The files a download into \<open>p\<close> uses: those with a relative name without \<open>..\<close>, and their partial files and digests.\<close>

definition target_path :: "string \<Rightarrow> string \<Rightarrow> bool" where
  "target_path p q \<longleftrightarrow> (\<exists>name. safe_name name
     \<and> (q = job_join p name \<or> q = download_path (job_join p name) \<or> q = digest_path (job_join p name)))"

fun stream_in :: "(string \<Rightarrow> bool) \<Rightarrow> data_stream option \<Rightarrow> bool" where
  "stream_in P (Some (FileStream q pos)) = P q"
| "stream_in P _ = True"

fun source_paths :: "data_source \<Rightarrow> string \<Rightarrow> bool" where
  "source_paths (FilePath p) q = target_path p q"
| "source_paths (MemoryCursor c) q = False"

definition job_confined :: "transfer_job \<Rightarrow> bool" where
  "job_confined job \<longleftrightarrow> list_all (\<lambda>e. safe_name (fe_name e)) (tj_files job)
     \<and> stream_in (source_paths (tj_data_source job)) (tj_data_stream job)"

definition only_changes :: "(string \<Rightarrow> bool) \<Rightarrow> fsys \<Rightarrow> fsys \<Rightarrow> bool" where
  "only_changes P fs fs' \<longleftrightarrow> (\<forall>q. \<not> P q \<longrightarrow> fs' q = fs q)"

named_theorems confine_intros

lemma only_changes_refl [confine_intros, simp]: "only_changes P fs fs"
  by (simp add: only_changes_def)

lemma only_changes_trans: "only_changes P fs1 fs2 \<Longrightarrow> only_changes P fs2 fs3 \<Longrightarrow> only_changes P fs1 fs3"
  by (simp add: only_changes_def)

lemma only_changes_mono: "only_changes P fs1 fs2 \<Longrightarrow> (\<And>q. P q \<Longrightarrow> Q q) \<Longrightarrow> only_changes Q fs1 fs2"
  by (auto simp: only_changes_def)

lemma only_changes_upd [confine_intros]: "only_changes P fs fs' \<Longrightarrow> P q \<Longrightarrow> only_changes P fs (fs'(q := v))"
  by (auto simp: only_changes_def)

lemma only_changes_remove [confine_intros]: "only_changes P fs fs' \<Longrightarrow> P q \<Longrightarrow> only_changes P fs (fs_remove q fs')"
  by (simp add: fs_remove_def only_changes_upd)

lemma only_changes_try_remove [confine_intros]: "only_changes P fs fs' \<Longrightarrow> P q \<Longrightarrow> only_changes P fs (fs_try_remove env q fs')"
  by (simp add: fs_try_remove_def only_changes_remove)

lemma only_changes_rename [confine_intros]: "only_changes P fs fs' \<Longrightarrow> P a \<Longrightarrow> P b \<Longrightarrow> only_changes P fs (fs_rename a b fs')"
  by (simp add: fs_rename_def only_changes_upd split: option.split)

lemma only_changes_write [confine_intros]: "only_changes P fs fs' \<Longrightarrow> P q \<Longrightarrow> only_changes P fs (fs_write_at q pos d fs')"
  by (simp add: fs_write_at_def only_changes_upd split: option.split)

lemma target_path_names [confine_intros]:
  "safe_name name \<Longrightarrow> target_path p (job_join p name)" "safe_name name \<Longrightarrow> target_path p (download_path (job_join p name))"
  "safe_name name \<Longrightarrow> target_path p (digest_path (job_join p name))"
  by (auto simp: target_path_def)

lemma safe_name_Nil [simp]: "safe_name []"
  by (simp add: safe_name_def)

lemma target_path_self [confine_intros]: "target_path p p"
  using target_path_names(1) [of "[]" p] by (simp add: job_join_def)

text \<open>Such a path extends the target directory.\<close>

lemma target_path_prefix: "target_path p q \<Longrightarrow> prefix p q"
  by (auto simp: target_path_def safe_name_def job_join_def path_join_def download_path_def digest_path_def split: if_splits)

lemma current_path_confined [confine_intros]:
  assumes "current_path job = Some path" and "job_confined job"
  shows "source_paths (tj_data_source job) path" "source_paths (tj_data_source job) (download_path path)"
    "source_paths (tj_data_source job) (digest_path path)"
  using assms
  by (auto simp: current_path_def job_confined_def list_all_length Let_def split: data_source.splits if_splits intro: confine_intros)

lemma modify_time_confined:
  assumes "job_confined job"
  shows "job_confined (fst (modify_time env job fs))"
    and "only_changes (source_paths (tj_data_source job)) fs (snd (modify_time env job fs))"
proof -
  have "stream_in P (tj_data_stream job) \<Longrightarrow> P b \<Longrightarrow> stream_in P (stream_follow a b (tj_data_stream job))" for P a b
    by (auto simp: stream_follow_def split: option.splits data_stream.splits)
  then show "job_confined (fst (modify_time env job fs))"
    using assms by (auto simp: modify_time_def job_confined_def Let_def split: option.split intro: current_path_confined(1) [OF _ assms])
  show "only_changes (source_paths (tj_data_source job)) fs (snd (modify_time env job fs))"
    using assms by (auto simp: modify_time_def Let_def split: option.split intro!: confine_intros)
qed

lemma open_write_file_confined:
  assumes "open_write_file env p n job fs = (job', fs', r)" and "job_confined job" and "tj_data_source job = FilePath p"
    and "i32_as_usize n < length (tj_files job)"
  shows "job_confined job' \<and> only_changes (source_paths (FilePath p)) fs fs' \<and> tj_data_source job' = FilePath p \<and> tj_id job' = tj_id job"
proof -
  obtain job1 fs1 where mt: "modify_time env job fs = (job1, fs1)" by (cases "modify_time env job fs")
  have job1: "job_confined job1" "only_changes (source_paths (FilePath p)) fs fs1" "tj_data_source job1 = FilePath p"
      "tj_files job1 = tj_files job" "tj_id job1 = tj_id job"
    using modify_time_confined [where env = env and fs = fs, OF assms(2)] modify_time_fields [of env job fs] mt assms(3) by auto
  have "safe_name (fe_name (tj_files job ! i32_as_usize n))"
    using assms(2,4) by (simp add: job_confined_def list_all_length)
  then show ?thesis
    using assms(1) job1 mt
    by (auto simp: open_write_file_def job_confined_def Let_def split: if_splits intro!: confine_intros)
qed

lemma write_block_data_confined:
  assumes "write_block_data env b job fs = (job', fs', r)" and "job_confined job"
  shows "job_confined job' \<and> only_changes (source_paths (tj_data_source job)) fs fs'
    \<and> tj_data_source job' = tj_data_source job \<and> tj_id job' = tj_id job"
  using assms
  by (auto simp: write_block_data_def stream_write_all_def job_confined_def Let_def
      split: prod.splits result.splits option.splits data_stream.splits if_splits intro!: confine_intros)

lemma job_write_confined:
  assumes "job_write env b job fs = (job', fs', r)" and "job_confined job"
  shows "job_confined job' \<and> only_changes (source_paths (tj_data_source job)) fs fs'
    \<and> tj_data_source job' = tj_data_source job \<and> tj_id job' = tj_id job"
proof (cases "tj_data_source job")
  case (FilePath p)
  show ?thesis
  proof (cases "fb_id b = tj_id job \<and> i32_as_usize (fb_file_num b) < length (tj_files job)
      \<and> (i32_as_usize (fb_file_num b) \<noteq> i32_as_usize (tj_file_num job) \<or> tj_data_stream job = None)")
    case True
    obtain job1 fs1 r1 where op: "open_write_file env p (fb_file_num b) job fs = (job1, fs1, r1)"
      by (cases "open_write_file env p (fb_file_num b) job fs")
    note opened = open_write_file_confined [OF op assms(2) FilePath]
    show ?thesis
    proof (cases r1)
      case (Ok u)
      then have "write_block_data env b job1 fs1 = (job', fs', r)" using assms(1) True FilePath op by (simp add: job_write_def)
      from write_block_data_confined [OF this] opened True FilePath show ?thesis by (auto intro: only_changes_trans)
    next
      case (Err e)
      with opened assms(1) True FilePath op show ?thesis by (auto simp: job_write_def)
    qed
  next
    case False
    with assms FilePath write_block_data_confined [OF _ assms(2), of env b fs job' fs' r] show ?thesis
      by (auto simp: job_write_def Let_def split: if_splits)
  qed
next
  case (MemoryCursor c)
  define job0 where "job0 = (if tj_data_stream job = None then job\<lparr>tj_data_stream := Some (BufStream c 0)\<rparr> else job)"
  have "job_confined job0" using assms(2) MemoryCursor by (simp add: job0_def job_confined_def)
  with write_block_data_confined [of env b job0 fs job' fs' r] assms MemoryCursor show ?thesis
    by (auto simp: job_write_def job0_def split: if_splits)
qed

lemma confirm_confined:
  assumes "confirm env fs r job = Some job'" and "job_confined job"
  shows "job_confined job'"
  using assms
  by (auto simp: confirm_def set_stream_offset_def set_file_skipped_def set_file_confirmed_def set_file_is_waiting_def
      job_confined_def list_all_length Let_def intro!: confine_intros
      split: if_splits option.splits confirm_union.splits data_source.splits)

subsection \<open>Confinement of the peer\<close>

definition job_sigs :: "transfer_job list \<Rightarrow> (i32 \<times> data_source) list" where
  "job_sigs jobs = map (\<lambda>j. (tj_id j, tj_data_source j)) jobs"

lemma job_sigs_update_job:
  "(\<And>job. get_job i jobs = Some job \<Longrightarrow> tj_id (f job) = i \<and> tj_data_source (f job) = tj_data_source job)
    \<Longrightarrow> job_sigs (update_job i f jobs) = job_sigs jobs"
  unfolding job_sigs_def by (induction jobs) auto

fun peer_msg_id :: "peer_file_msg \<Rightarrow> i32" where
  "peer_msg_id (PrDir i path entries) = i"
| "peer_msg_id (PrDigest is_upload d) = fd_id d"
| "peer_msg_id (PrBlock b) = fb_id b"
| "peer_msg_id (PrDone i n) = i"
| "peer_msg_id (PrError i err n) = i"
| "peer_msg_id (PrSendConfirm r) = cr_id r"

text \<open>A peer that names only files below the directory it was asked for.\<close>

fun names_safe :: "cl_env \<Rightarrow> peer_file_msg \<Rightarrow> bool" where
  "names_safe env (PrDir i path entries) = list_all (\<lambda>e. safe_name (fe_name e))
     (if xe_peer_platform env = ''Windows'' then transform_windows_path entries else entries)"
| "names_safe env _ = True"

definition confined_step :: "i32 \<Rightarrow> client_files \<Rightarrow> client_files \<Rightarrow> bool" where
  "confined_step i s s' \<longleftrightarrow> list_all job_confined (cl_write_jobs s')
     \<and> set (job_sigs (cl_write_jobs s')) \<subseteq> set (job_sigs (cl_write_jobs s))
     \<and> only_changes (\<lambda>q. \<exists>src. (i, src) \<in> set (job_sigs (cl_write_jobs s)) \<and> source_paths src q) (cl_fs s) (cl_fs s')"

lemma confined_step_same:
  "list_all job_confined (cl_write_jobs s') \<Longrightarrow> job_sigs (cl_write_jobs s') = job_sigs (cl_write_jobs s) \<Longrightarrow> cl_fs s' = cl_fs s
    \<Longrightarrow> confined_step i s s'"
  by (simp add: confined_step_def)

lemma get_job_sig: "get_job i jobs = Some job \<Longrightarrow> (i, tj_data_source job) \<in> set (job_sigs jobs)"
  by (auto simp: job_sigs_def dest: get_job_SomeD)

lemma get_job_confined: "get_job i jobs = Some job \<Longrightarrow> list_all job_confined jobs \<Longrightarrow> job_confined job"
  by (auto simp: list_all_iff dest: get_job_SomeD)

lemma confirm_job_confined:
  assumes "confirm_job env fs r jobs = Some jobs'" and "list_all job_confined jobs"
  shows "list_all job_confined jobs' \<and> job_sigs jobs' = job_sigs jobs"
proof (cases "get_job (cr_id r) jobs")
  case (Some job)
  then obtain job' where job': "confirm (xe_fs env) fs r job = Some job'" "jobs' = update_job (cr_id r) (\<lambda>_. job') jobs"
    using assms(1) by (auto simp: confirm_job_def)
  with confirm_fields [OF job'(1)] confirm_confined [OF job'(1)] get_job_confined [OF Some assms(2)] get_job_SomeD [OF Some] Some
  show ?thesis using assms(2) by (auto intro!: list_all_update_job job_sigs_update_job)
qed (use assms in \<open>simp add: confirm_job_def\<close>)

lemma answer_digest_fs:
  "answer_digest env up d path st off s = Some s' \<Longrightarrow> cl_fs s' = cl_fs s"
  by (auto simp: answer_digest_def Let_def split: option.splits)

lemma answer_digest_confined:
  assumes "answer_digest env up d path st off s = Some s'" and "list_all job_confined (cl_write_jobs s)"
  shows "list_all job_confined (cl_write_jobs s') \<and> job_sigs (cl_write_jobs s') = job_sigs (cl_write_jobs s)"
  using assms confirm_job_confined [OF _ assms(2)]
  by (cases up) (auto simp: answer_digest_def Let_def split: option.splits)

lemma set_digest_confined:
  "list_all job_confined jobs \<Longrightarrow> list_all job_confined (update_job i (set_digest a b) jobs)
     \<and> job_sigs (update_job i (set_digest a b) jobs) = job_sigs jobs"
  by (auto simp: set_digest_def job_confined_def intro!: list_all_update_job job_sigs_update_job intro: get_job_id)

lemma upload_digest_confined:
  assumes "upload_digest env d s = Some s'" and "list_all job_confined (cl_write_jobs s)"
  shows "confined_step (fd_id d) s s'"
  using assms answer_digest_confined answer_digest_fs
  by (auto simp: upload_digest_def Let_def split: option.splits data_source.splits if_splits prod.splits intro!: confined_step_same)

lemma download_digest_confined:
  assumes "download_digest env d s = Some s'" and "list_all job_confined (cl_write_jobs s)"
  shows "confined_step (fd_id d) s s'"
proof -
  let ?s = "s\<lparr>cl_write_jobs := update_job (fd_id d) (set_digest (fd_file_size d) (fd_last_modified d)) (cl_write_jobs s)\<rparr>"
  have "s' = s \<or> s' = ?s \<or> (\<exists>dig path st off. answer_digest env False dig path st off ?s = Some s')"
    using assms(1)
    by (auto simp: download_digest_def Let_def split: option.splits data_source.splits if_splits result.splits prod.splits digest_check_result.splits)
  with set_digest_confined [OF assms(2)] answer_digest_confined [of env False _ _ _ _ ?s s'] answer_digest_fs [of env False _ _ _ _ ?s s'] assms(2)
  show ?thesis by (auto intro!: confined_step_same)
qed

lemma receive_block_confined:
  assumes "list_all job_confined (cl_write_jobs s)"
  shows "confined_step (fb_id b) s (receive_block env now b s)"
proof (cases "get_job (fb_id b) (cl_write_jobs s)")
  case (Some job)
  obtain job' fs' r where w: "job_write (xe_fs env) b job (cl_fs s) = (job', fs', r)" by (cases "job_write (xe_fs env) b job (cl_fs s)")
  note conf = job_write_confined [OF w get_job_confined [OF Some assms]]
  have "list_all job_confined (update_job (fb_id b) (\<lambda>_. job') (cl_write_jobs s))"
    using conf assms by (intro list_all_update_job) auto
  moreover have "job_sigs (update_job (fb_id b) (\<lambda>_. job') (cl_write_jobs s)) = job_sigs (cl_write_jobs s)"
    using conf get_job_SomeD [OF Some] Some by (intro job_sigs_update_job) auto
  moreover have "only_changes (\<lambda>q. \<exists>src. (fb_id b, src) \<in> set (job_sigs (cl_write_jobs s)) \<and> source_paths src q) (cl_fs s) fs'"
    using conf get_job_sig [OF Some] by (auto intro: only_changes_mono)
  ultimately show ?thesis using Some w by (simp add: receive_block_def confined_step_def Let_def)
qed (use assms in \<open>simp add: receive_block_def confined_step_same\<close>)

lemma remove_job_confined:
  assumes "list_all job_confined jobs"
  shows "list_all job_confined (fst (remove_job i jobs)) \<and> set (job_sigs (fst (remove_job i jobs))) \<subseteq> set (job_sigs jobs)"
  using assms set_remove_job [of i jobs] by (auto simp: list_all_iff job_sigs_def)

lemma receive_done_confined:
  assumes "list_all job_confined (cl_write_jobs s)"
  shows "confined_step i s (receive_done env now i n s)"
proof -
  obtain jobs rem where rj: "remove_job i (cl_write_jobs s) = (jobs, rem)" by (cases "remove_job i (cl_write_jobs s)")
  then have rem: "rem = get_job i (cl_write_jobs s)" using snd_remove_job [of i "cl_write_jobs s"] by simp
  have "list_all job_confined jobs \<and> set (job_sigs jobs) \<subseteq> set (job_sigs (cl_write_jobs s))"
    using remove_job_confined [OF assms, of i] rj by simp
  moreover have "only_changes (\<lambda>q. \<exists>src. (i, src) \<in> set (job_sigs (cl_write_jobs s)) \<and> source_paths src q)
      (cl_fs s) (snd (modify_time (xe_fs env) job (cl_fs s)))" if "rem = Some job" for job
    using that rem get_job_sig [of i _ job] modify_time_confined(2) [where env = "xe_fs env", OF get_job_confined, of i _ job] assms
    by (auto intro: only_changes_mono)
  ultimately show ?thesis using rj by (auto simp: receive_done_def confined_step_def Let_def split: option.split)
qed

lemma receive_error_confined:
  assumes "list_all job_confined (cl_write_jobs s)"
  shows "confined_step i s (receive_error now i err n s)"
  using remove_job_confined [OF assms, of i]
  by (auto simp: receive_error_def confined_step_def Let_def split: prod.split)

lemma listed_job_fields [simp]:
  "tj_id (set_finished_size_on_resume (set_files es job)) = tj_id job"
  "tj_data_source (set_finished_size_on_resume (set_files es job)) = tj_data_source job"
  "tj_files (set_finished_size_on_resume (set_files es job)) = es"
  "tj_data_stream (set_finished_size_on_resume (set_files es job)) = tj_data_stream job"
  "tj_type (set_finished_size_on_resume (set_files es job)) = tj_type job"
  by (simp_all add: set_finished_size_on_resume_def set_files_def)

lemma receive_dir_confined:
  assumes "list_all job_confined (cl_write_jobs s)" and "names_safe env (PrDir i path entries)"
  shows "confined_step i s (receive_dir env i path entries s)"
  using assms
  by (auto simp: receive_dir_def Let_def job_confined_def get_job_id intro!: confined_step_same list_all_update_job job_sigs_update_job)

lemma peer_msg_confined:
  assumes "handle_file_msg_from_peer env now m s = Some s'" and "list_all job_confined (cl_write_jobs s)" and "names_safe env m"
  shows "confined_step (peer_msg_id m) s s'"
proof (cases m)
  case (PrDigest up d)
  with assms upload_digest_confined download_digest_confined show ?thesis by (auto split: if_splits)
next
  case (PrDir i path entries)
  with assms receive_dir_confined [of s env i path entries] show ?thesis by (simp del: names_safe.simps)
next
  case (PrSendConfirm r)
  with assms show ?thesis by (auto intro: confined_step_same)
qed (use assms in \<open>auto intro: receive_block_confined receive_done_confined receive_error_confined\<close>)

lemma peer_run_confined:
  assumes "peer_run env ms s = Some s'" and "list_all job_confined (cl_write_jobs s)" and "list_all (\<lambda>(t, m). names_safe env m) ms"
  shows "list_all job_confined (cl_write_jobs s') \<and> set (job_sigs (cl_write_jobs s')) \<subseteq> set (job_sigs (cl_write_jobs s))
    \<and> only_changes (\<lambda>q. \<exists>i src. i \<in> (peer_msg_id \<circ> snd) ` set ms \<and> (i, src) \<in> set (job_sigs (cl_write_jobs s)) \<and> source_paths src q)
        (cl_fs s) (cl_fs s')"
  using assms
proof (induction ms arbitrary: s)
  case (Cons x ms)
  obtain now m where x: "x = (now, m)" by (cases x)
  with Cons.prems(1) obtain s1 where s1: "handle_file_msg_from_peer env now m s = Some s1" "peer_run env ms s1 = Some s'"
    by (auto simp: bind_eq_Some_conv)
  have step: "confined_step (peer_msg_id m) s s1" using peer_msg_confined [OF s1(1)] Cons.prems x by simp
  from Cons.IH [OF s1(2)] step Cons.prems(3) have "list_all job_confined (cl_write_jobs s')"
      "set (job_sigs (cl_write_jobs s')) \<subseteq> set (job_sigs (cl_write_jobs s1))"
    and rest: "only_changes (\<lambda>q. \<exists>i src. i \<in> (peer_msg_id \<circ> snd) ` set ms \<and> (i, src) \<in> set (job_sigs (cl_write_jobs s1)) \<and> source_paths src q)
        (cl_fs s1) (cl_fs s')"
    by (auto simp: confined_step_def)
  moreover have "only_changes (\<lambda>q. \<exists>i src. i \<in> (peer_msg_id \<circ> snd) ` set (x # ms) \<and> (i, src) \<in> set (job_sigs (cl_write_jobs s)) \<and> source_paths src q)
      (cl_fs s) (cl_fs s1)"
    using step x by (auto simp: confined_step_def elim!: only_changes_mono)
  moreover have "only_changes (\<lambda>q. \<exists>i src. i \<in> (peer_msg_id \<circ> snd) ` set (x # ms) \<and> (i, src) \<in> set (job_sigs (cl_write_jobs s)) \<and> source_paths src q)
      (cl_fs s1) (cl_fs s')"
    using rest by (rule only_changes_mono) (use step in \<open>auto simp: confined_step_def\<close>)
  ultimately show ?case using step by (auto simp: confined_step_def intro: only_changes_trans)
qed simp

text \<open>The commands of the user keep it, but for a local renaming, which may move an open file elsewhere.\<close>

lemma new_write_confined [simp]: "job_confined (new_write i ty remote src n hidden is_remote [] od)"
  "job_confined (new_write i ty remote src n hidden is_remote [] od\<lparr>tj_is_last_job := True\<rparr>)"
  by (simp_all add: job_confined_def new_write_def job_default_def)

lemma ui_keeps_confined:
  assumes "handle_msg_from_ui env now c s = Some s'" and "list_all job_confined (cl_write_jobs s)"
    and "\<And>i path name. c \<noteq> RenameFile i path name False"
  shows "list_all job_confined (cl_write_jobs s')"
proof (cases c)
  case (SetConfirmOverrideFile i n ov remember up)
  define jobs where "jobs = (if remember then update_job i (set_overwrite_strategy (Some ov)) else (\<lambda>jobs. jobs)) (cl_write_jobs s)"
  have "list_all job_confined jobs"
    using assms(2) by (auto simp: jobs_def job_confined_def set_overwrite_strategy_def intro!: list_all_update_job)
  with assms SetConfirmOverrideFile confirm_job_confined [of env "cl_fs s" _ jobs] show ?thesis
    by (auto simp: set_confirm_override_def Let_def jobs_def split: if_splits option.splits)
next
  case (CancelJob i)
  with assms remove_job_confined [OF assms(2), of i] show ?thesis
    by (auto simp: cancel_job_def Let_def split: prod.splits)
next
  case (ResumeJob i is_remote)
  have "list_all job_confined (update_job i (\<lambda>j. j\<lparr>tj_is_last_job := False, tj_is_resume := True\<rparr>) (cl_write_jobs s))"
    using assms(2) by (intro list_all_update_job) (auto simp: job_confined_def)
  with ResumeJob assms show ?thesis by (auto simp: resume_job_def split: option.splits data_source.splits)
next
  case (RenameFile i path name is_remote)
  with assms show ?thesis by (cases is_remote) auto
qed (use assms in \<open>auto simp: add_read_job_def remove_dir_all_def Let_def split: if_splits option.splits result.splits prod.splits\<close>)

subsection \<open>Messages without a job\<close>

lemma peer_msg_without_job:
  assumes "handle_file_msg_from_peer env now m s = Some s'" and "get_job (peer_msg_id m) (cl_write_jobs s) = None"
  shows "cl_fs s' = cl_fs s \<and> cl_write_jobs s' = cl_write_jobs s"
proof (cases m)
  case (PrDigest up d)
  with assms show ?thesis
    by (cases up) (auto simp: upload_digest_def download_digest_def answer_digest_def Let_def
      split: option.splits data_source.splits if_splits prod.splits)
next
  case (PrDone i n)
  then have "remove_job i (cl_write_jobs s) = (cl_write_jobs s, None)"
    using assms(2) by (simp add: remove_job_absent)
  with PrDone assms(1) show ?thesis by (auto simp: receive_done_def)
next
  case (PrError i err n)
  then have "remove_job i (cl_write_jobs s) = (cl_write_jobs s, None)"
    using assms(2) by (simp add: remove_job_absent)
  with PrError assms(1) show ?thesis by (auto simp: receive_error_def)
qed (use assms in \<open>auto simp: receive_dir_def receive_block_def Let_def\<close>)

lemma peer_run_without_job:
  assumes "peer_run env ms s = Some s'" and "list_all (\<lambda>(t, m). peer_msg_id m = i) ms" and "get_job i (cl_write_jobs s) = None"
  shows "cl_fs s' = cl_fs s \<and> cl_write_jobs s' = cl_write_jobs s"
  using assms
proof (induction ms arbitrary: s)
  case (Cons x ms)
  then obtain now m s1 where x: "x = (now, m)" "peer_msg_id m = i" "handle_file_msg_from_peer env now m s = Some s1" "peer_run env ms s1 = Some s'"
    by (cases x) (auto simp: bind_eq_Some_conv)
  with peer_msg_without_job [OF x(3)] Cons.IH [OF x(4)] Cons.prems(2,3) show ?case by auto
qed simp

lemma cancel_job_removes:
  assumes "distinct (map tj_id (cl_write_jobs s))"
  shows "get_job i (cl_write_jobs (cancel_job env i s)) = None"
proof -
  have "map tj_id (cl_write_jobs (cancel_job env i s)) = remove1 i (map tj_id (cl_write_jobs s))"
    using ids_remove_job [of i "cl_write_jobs s"] by (auto simp: cancel_job_def Let_def split: prod.split)
  then have "i \<notin> set (map tj_id (cl_write_jobs (cancel_job env i s)))" using assms by simp
  then show ?thesis by (simp add: get_job_None_iff)
qed

subsection \<open>Properties of the peer's messages\<close>

text \<open>
  C11. Downloads stay in their target: as long as the names a peer lists are relative and have no \<open>..\<close> component, any
  sequence of its file messages changes files only at a listed name below the target directory of a write job that has the
  id of one of the messages (or at the partial file or digest next to it), and this stays so for whatever follows.
\<close>

theorem downloads_stay_in_target:
  assumes "peer_run env ms s = Some s'" and "list_all job_confined (cl_write_jobs s)" and "list_all (\<lambda>(t, m). names_safe env m) ms"
  shows "list_all job_confined (cl_write_jobs s')
    \<and> (\<forall>q. cl_fs s' q \<noteq> cl_fs s q \<longrightarrow> (\<exists>job p. job \<in> set (cl_write_jobs s) \<and> tj_id job \<in> (peer_msg_id \<circ> snd) ` set ms
          \<and> tj_data_source job = FilePath p \<and> target_path p q \<and> prefix p q))"
proof (intro conjI allI impI)
  fix q assume "cl_fs s' q \<noteq> cl_fs s q"
  then obtain i src where src: "i \<in> (peer_msg_id \<circ> snd) ` set ms" "(i, src) \<in> set (job_sigs (cl_write_jobs s))" "source_paths src q"
      using peer_run_confined [OF assms] unfolding only_changes_def by blast
  then obtain job where job: "job \<in> set (cl_write_jobs s)" "tj_id job = i" "tj_data_source job = src" by (auto simp: job_sigs_def)
  from src(3) obtain p where "src = FilePath p" "target_path p q" by (cases src) auto
  with job src(1) target_path_prefix show "\<exists>job p. job \<in> set (cl_write_jobs s) \<and> tj_id job \<in> (peer_msg_id \<circ> snd) ` set ms
          \<and> tj_data_source job = FilePath p \<and> target_path p q \<and> prefix p q" by blast
qed (use peer_run_confined [OF assms] in simp)

text \<open>
  C12. A peer that does not keep to that replaces any file: with one download running, it can list an absolute path as the
  name of the file, send a block without a digest and report the job as done; the file at that path then has the peer's
  content, whether it existed or not, and neither the user nor an overwrite strategy was asked.
\<close>

theorem peer_replaces_any_file:
  assumes "good_env (xe_fs env)" and "xe_peer_platform env \<noteq> ''Windows''" and "get_job i (cl_write_jobs s) = Some job"
    and "tj_type job = JobGeneric" and "tj_data_source job = FilePath p" and "tj_data_stream job = None"
    and "t \<noteq> []" and "t ! 0 = CHR ''/''"
  shows "\<exists>s'. peer_run env [(t0, PrDir i path [\<lparr>fe_name = t, fe_size = sz, fe_modified_time = mt\<rparr>]),
      (t1, PrBlock \<lparr>fb_id = i, fb_file_num = 0, fb_data = data, fb_compressed = False\<rparr>), (t2, PrDone i 0)] s = Some s'
    \<and> cl_fs s' t = Some data"
proof -
  let ?files = "[\<lparr>fe_name = t, fe_size = sz, fe_modified_time = mt\<rparr>]"
  let ?b = "\<lparr>fb_id = i, fb_file_num = 0, fb_data = data, fb_compressed = False\<rparr>"
  define w where "w = set_finished_size_on_resume (set_files ?files job)"
  define s1 where "s1 = receive_dir env i path ?files s"
  have w: "tj_data_source w = FilePath p" "tj_files w = ?files" "tj_type w = JobGeneric" "tj_data_stream w = None" "tj_id w = i"
    using assms(3-6) get_job_id by (auto simp: w_def)
  have s1: "get_job i (cl_write_jobs s1) = Some w"
    using get_update_job [OF assms(3), of "\<lambda>j. set_finished_size_on_resume (set_files ?files j)"] assms(2,3) get_job_id [OF assms(3)]
    by (simp add: s1_def receive_dir_def w_def Let_def)
  obtain w' fs' where wr: "job_write (xe_fs env) ?b w (cl_fs s1) = (w', fs', Ok ())" "tj_id w' = i" "writer_at p ?files 0 data w' fs'"
    using job_write_first [OF assms(1) w(1-3) disjI1 [OF w(4)], of ?b 0 "cl_fs s1"] w(5) by (auto simp: block_content_def)
  define s2 where "s2 = receive_block env t1 ?b s1"
  have fs2: "cl_fs s2 = fs'" and "get_job i (cl_write_jobs s2) = Some w'"
    using s1 wr get_update_job [OF s1, of "\<lambda>_. w'"] by (simp_all add: s2_def receive_block_def Let_def)
  then obtain jobs where rem: "remove_job i (cl_write_jobs s2) = (jobs, Some w')"
    by (metis snd_remove_job surjective_pairing)
  have "job_join p t = t" using assms(7,8) by (simp add: job_join_def path_join_def)
  then have "snd (modify_time (xe_fs env) w' fs') t = Some data"
    using finish_file(1) [OF wr(3)] assms(1) by (simp add: good_env_def)
  then have "cl_fs (receive_done env t2 i 0 s2) t = Some data" using rem fs2 by (simp add: receive_done_def Let_def)
  then show ?thesis by (simp add: s1_def s2_def)
qed

definition demo_files_env :: cl_env where
  "demo_files_env = \<lparr>xe_fs = demo_env, xe_listing = (\<lambda>_ _. Ok []), xe_create_dir_ok = (\<lambda>_. True), xe_rename_ok = (\<lambda>_ _. True),
     xe_is_dir = (\<lambda>_. False), xe_version = 0, xe_peer_platform = ''Linux'', xe_platform = ''Linux''\<rparr>"

definition demo_client :: client_files where
  "demo_client = \<lparr>cl_read_jobs = [], cl_write_jobs = [new_write 1 JobGeneric ''/r'' (FilePath ''/dl'') 0 False True [] False],
     cl_remove_jobs = [], cl_fs = [''/etc/x'' \<mapsto> [1]], cl_fast_timer = False, cl_last_status = (0, []), cl_queue = [], cl_sent = [], cl_ui = []\<rparr>"

theorem downloads_stay_in_target_witness:
  "\<exists>s'. peer_run demo_files_env [(5, PrDir 1 ''/r'' [\<lparr>fe_name = ''a/b'', fe_size = 1, fe_modified_time = 0\<rparr>]),
      (6, PrBlock \<lparr>fb_id = 1, fb_file_num = 0, fb_data = [65], fb_compressed = False\<rparr>), (7, PrDone 1 0)] demo_client = Some s'
    \<and> list_all job_confined (cl_write_jobs s') \<and> cl_fs s' ''/etc/x'' = Some [1]"
proof -
  let ?ms = "[(5, PrDir 1 ''/r'' [\<lparr>fe_name = ''a/b'', fe_size = 1, fe_modified_time = 0\<rparr>]),
      (6, PrBlock \<lparr>fb_id = 1, fb_file_num = 0, fb_data = [65], fb_compressed = False\<rparr>), (7, PrDone 1 0)] :: (int \<times> peer_file_msg) list"
  obtain s' where run: "peer_run demo_files_env ?ms demo_client = Some s'" by simp
  have conf: "list_all job_confined (cl_write_jobs demo_client)" by (simp add: demo_client_def)
  have safe: "list_all (\<lambda>(t, m). names_safe demo_files_env m) ?ms"
    by (simp add: demo_files_env_def safe_name_def)
  have src: "tj_data_source job = FilePath ''/dl''" if "job \<in> set (cl_write_jobs demo_client)" for job
    using that by (simp add: demo_client_def new_write_def)
  note main = downloads_stay_in_target [OF run conf safe]
  have "cl_fs s' ''/etc/x'' = cl_fs demo_client ''/etc/x''"
  proof (rule ccontr)
    assume "\<not> ?thesis"
    with main obtain job p where "job \<in> set (cl_write_jobs demo_client)" "tj_data_source job = FilePath p" "prefix p ''/etc/x''" by blast
    with src show False by auto
  qed
  with run main show ?thesis by (auto simp: demo_client_def)
qed

theorem peer_replaces_any_file_witness:
  "\<exists>s'. peer_run demo_files_env [(5, PrDir 1 ''/r'' [\<lparr>fe_name = ''/etc/x'', fe_size = 1, fe_modified_time = 0\<rparr>]),
      (6, PrBlock \<lparr>fb_id = 1, fb_file_num = 0, fb_data = [65], fb_compressed = False\<rparr>), (7, PrDone 1 0)] demo_client = Some s'
    \<and> cl_fs s' ''/etc/x'' = Some [65]"
  by (rule peer_replaces_any_file [where p = "''/dl''" and job = "hd (cl_write_jobs demo_client)"])
    (simp_all add: demo_client_def demo_files_env_def demo_env_def new_write_def job_default_def good_env_def)

text \<open>What \<open>confirm\<close> does to the job when it is at the file that is confirmed or skipped, and only then.\<close>

definition answered :: "i32 \<Rightarrow> bool \<Rightarrow> transfer_job \<Rightarrow> transfer_job" where
  "answered n ov job = (if tj_file_num job \<noteq> n then job else if ov then set_file_confirmed True job else set_file_skipped job)"

lemma confirm_job_answered:
  assumes "get_job i jobs = Some job"
  shows "\<exists>jobs'. confirm_job env fs (mk_confirm i n ov 0) jobs = Some jobs' \<and> get_job i jobs' = Some (answered n ov job)"
proof -
  have "tj_id (answered n ov job) = i"
    using get_job_id [OF assms] by (simp add: answered_def set_file_confirmed_def set_file_skipped_def set_file_is_waiting_def)
  then show ?thesis using get_update_job [OF assms, of "\<lambda>_. answered n ov job"] assms
    by (auto simp: confirm_job_def confirm_def mk_confirm_def answered_def)
qed

text \<open>
  C30. An existing file is not overwritten by an honest peer without consent: for a job that is not being resumed, the
  digest of a file that exists at the target leads to a question to the user and to no answer to the peer, unless the job
  has an overwrite strategy, which is then applied; and the answer of the user later is what the peer is sent. The job
  itself is confirmed or moved on by the answer only if it is at the file of the digest. The digest must name a file of
  the job, and the time of the existing file must be readable.
\<close>

theorem existing_file_asks_user:
  assumes "get_job (fd_id d) (cl_write_jobs s) = Some job" and "tj_data_source job = FilePath p"
    and "i32_as_usize (fd_file_num d) < length (tj_files job)"
    and "path = job_join p (fe_name (tj_files job ! i32_as_usize (fd_file_num d)))"
    and "cl_fs s path = Some content" and "fv_mtime (xe_fs env) path = Some mt" and "\<not> tj_is_resume job"
    and "job1 = set_digest (fd_file_size d) (fd_last_modified d) job"
  shows "case tj_default_overwrite_strategy job of
      Some ov \<Rightarrow> (\<exists>s'. handle_file_msg_from_peer env now (PrDigest False d) s = Some s'
        \<and> cl_sent s' = cl_sent s @ [OutSendConfirm (mk_confirm (fd_id d) (fd_file_num d) ov 0)] \<and> cl_ui s' = cl_ui s
        \<and> get_job (fd_id d) (cl_write_jobs s') = Some (answered (fd_file_num d) ov job1))
    | None \<Rightarrow> (\<exists>s' same. handle_file_msg_from_peer env now (PrDigest False d) s = Some s' \<and> cl_sent s' = cl_sent s
        \<and> cl_ui s' = cl_ui s @ [UiOverrideConfirm (fd_id d) (fd_file_num d) path False same]
        \<and> get_job (fd_id d) (cl_write_jobs s') = Some job1
        \<and> (\<forall>ov. \<exists>s''. handle_msg_from_ui env now' (SetConfirmOverrideFile (fd_id d) (fd_file_num d) ov False False) s' = Some s''
             \<and> cl_sent s'' = cl_sent s @ [OutSendConfirm (mk_confirm (fd_id d) (fd_file_num d) ov 0)]
             \<and> get_job (fd_id d) (cl_write_jobs s'') = Some (answered (fd_file_num d) ov job1)))"
proof -
  let ?i = "fd_id d" and ?n = "fd_file_num d"
  define s1 where "s1 = s\<lparr>cl_write_jobs := update_job ?i (set_digest (fd_file_size d) (fd_last_modified d)) (cl_write_jobs s)\<rparr>"
  have job1: "get_job ?i (cl_write_jobs s1) = Some job1"
    using get_update_job [OF assms(1), of "set_digest (fd_file_size d) (fd_last_modified d)"] get_job_id [OF assms(1)] assms(8)
    by (simp add: s1_def set_digest_def)
  note conf = confirm_job_answered [OF job1, of env _ ?n]
  obtain d' where chk: "is_write_need_confirmation (xe_fs env) (cl_fs s) False path d = Ok (NeedConfirm d')"
    and d': "fd_id d' = ?i" "fd_file_num d' = ?n" "fd_transferred_size d' = 0"
    using assms(5,6) by (cases mt) (simp add: is_write_need_confirmation_def)
  have step: "handle_file_msg_from_peer env now (PrDigest False d) s = answer_digest env False d' path (tj_default_overwrite_strategy job) 0 s1"
    using assms chk d'(3) by (simp add: download_digest_def s1_def digest_strategy_def Let_def)
  show ?thesis
  proof (cases "tj_default_overwrite_strategy job")
    case None
    define s' where "s' = tell_ui (UiOverrideConfirm ?i ?n path False (fd_is_identical d')) s1"
    have "handle_file_msg_from_peer env now (PrDigest False d) s = Some s'"
      using step None d' by (simp add: answer_digest_def s'_def)
    moreover have "\<exists>s''. set_confirm_override env ?i ?n ov False False s' = Some s''
             \<and> cl_sent s'' = cl_sent s @ [OutSendConfirm (mk_confirm ?i ?n ov 0)]
             \<and> get_job ?i (cl_write_jobs s'') = Some (answered ?n ov job1)" for ov
      using conf [of "cl_fs s1" ov] job1 by (auto simp: set_confirm_override_def s'_def s1_def)
    moreover have "cl_sent s' = cl_sent s" "cl_ui s' = cl_ui s @ [UiOverrideConfirm ?i ?n path False (fd_is_identical d')]"
        "get_job ?i (cl_write_jobs s') = Some job1"
      using job1 by (simp_all add: s'_def s1_def)
    ultimately show ?thesis using None by (simp only: option.case handle_msg_from_ui.simps) blast
  next
    case (Some ov)
    with step conf [of "cl_fs s1" ov] d' show ?thesis by (auto simp: answer_digest_def s1_def Let_def)
  qed
qed

text \<open>A resumed job is not asked about: the partial file that matches the digest is continued, whatever stands at the target.\<close>

lemma resumed_download_not_asked:
  assumes "tj_is_resume job" and "fs (digest_path path) = Some c" and "fs (download_path path) = Some partial"
    and "fv_digest_parse env c = Some \<lparr>dg_size = fd_file_size d, dg_modified = fd_last_modified d\<rparr>"
    and "partial \<noteq> []" and "length partial < 2 ^ 64"
  shows "\<exists>d'. is_write_need_confirmation env fs True path d = Ok (NeedConfirm d') \<and> fd_id d' = fd_id d \<and> fd_file_num d' = fd_file_num d
    \<and> digest_strategy job d' = (Some True, ucast (of_nat (length partial) :: u64))"
proof -
  have "unat (of_nat (length partial) :: u64) = length partial" using assms(6) by (simp add: unat_of_nat)
  then have "(of_nat (length partial) :: u64) \<noteq> 0" using assms(5) by (metis length_0_conv unat_0)
  with assms show ?thesis by (simp add: is_write_need_confirmation_def digest_strategy_def word_greater_zero_iff)
qed

definition demo_digest :: file_transfer_digest where
  "demo_digest = \<lparr>fd_id = 1, fd_file_num = 0, fd_last_modified = 9, fd_file_size = 4, fd_is_identical = False,
     fd_transferred_size = 0, fd_is_resume = False\<rparr>"

definition demo_listed :: client_files where
  "demo_listed = demo_client\<lparr>cl_write_jobs := [new_write 1 JobGeneric ''/r'' (FilePath ''/dl'') 0 False True
      [\<lparr>fe_name = ''a'', fe_size = 4, fe_modified_time = 9\<rparr>] True], cl_fs := [''/dl/a'' \<mapsto> [1]]\<rparr>"

theorem existing_file_asks_user_witness:
  "\<exists>s' same. handle_file_msg_from_peer demo_files_env 5 (PrDigest False demo_digest) demo_listed = Some s' \<and> cl_sent s' = []
    \<and> cl_ui s' = [UiOverrideConfirm 1 0 ''/dl/a'' False same]"
proof -
  let ?job = "hd (cl_write_jobs demo_listed)"
  have [simp]: "i32_as_usize 0 = 0" using i32_as_usize_small [of 0] by simp
  have job: "get_job (fd_id demo_digest) (cl_write_jobs demo_listed) = Some ?job" "tj_data_source ?job = FilePath ''/dl''"
    "i32_as_usize (fd_file_num demo_digest) < length (tj_files ?job)"
    "''/dl/a'' = job_join ''/dl'' (fe_name (tj_files ?job ! i32_as_usize (fd_file_num demo_digest)))"
    "cl_fs demo_listed ''/dl/a'' = Some [1]" "fv_mtime (xe_fs demo_files_env) ''/dl/a'' = Some (0, 0)" "\<not> tj_is_resume ?job"
    by (simp_all add: demo_listed_def demo_digest_def demo_client_def demo_files_env_def demo_env_def new_write_def job_default_def
        job_join_def path_join_def)
  have "tj_default_overwrite_strategy ?job = None" "cl_sent demo_listed = []" "cl_ui demo_listed = []"
      "fd_id demo_digest = 1" "fd_file_num demo_digest = 0"
    by (simp_all add: demo_listed_def demo_client_def demo_digest_def new_write_def job_default_def)
  with existing_file_asks_user [OF job refl, of 5 6] show ?thesis by (simp del: handle_file_msg_from_peer.simps) blast
qed

text \<open>
  C32. A cancelled job writes nothing more: the cancellation of a download removes its partial file and its digest, as far
  as they can be removed (a failure is ignored, and the file then stays), and whatever messages with its id still arrive
  change no file and no download, as long as no handler panics and no two downloads have the same id.
\<close>

theorem cancelled_job_writes_nothing:
  assumes "distinct (map tj_id (cl_write_jobs s))" and "handle_msg_from_ui env now (CancelJob i) s = Some s1"
    and "list_all (\<lambda>(t, m). peer_msg_id m = i) ms" and "peer_run env ms s1 = Some s'"
  shows "cl_fs s' = cl_fs s1 \<and> cl_write_jobs s' = cl_write_jobs s1 \<and> get_job i (cl_write_jobs s') = None
    \<and> (\<forall>job path. get_job i (cl_write_jobs s) = Some job \<and> tj_type job = JobGeneric \<and> current_path job = Some path
         \<longrightarrow> (\<forall>q. cl_fs s' q = (if q \<in> {download_path path, digest_path path} \<and> fv_can_remove (xe_fs env) q then None
               else cl_fs s q)))"
proof -
  have s1: "s1 = cancel_job env i s" using assms(2) by simp
  have "get_job i (cl_write_jobs s1) = None" using cancel_job_removes [OF assms(1)] s1 by simp
  moreover from peer_run_without_job [OF assms(4,3) this] have "cl_fs s' = cl_fs s1" "cl_write_jobs s' = cl_write_jobs s1" by simp_all
  moreover have "cl_fs s1 q = (if q \<in> {download_path path, digest_path path} \<and> fv_can_remove (xe_fs env) q then None else cl_fs s q)"
    if "get_job i (cl_write_jobs s) = Some job" "tj_type job = JobGeneric" "current_path job = Some path" for job path q
    using that snd_remove_job [of i "cl_write_jobs s"]
    by (auto simp: s1 cancel_job_def remove_download_file_def fs_try_remove_def fs_remove_def Let_def split: prod.split)
  ultimately show ?thesis by simp
qed

theorem cancelled_job_writes_nothing_witness:
  "\<exists>s1 s'. handle_msg_from_ui demo_files_env 5 (CancelJob 1) demo_listed = Some s1
    \<and> peer_run demo_files_env [(6, PrBlock \<lparr>fb_id = 1, fb_file_num = 0, fb_data = [65], fb_compressed = False\<rparr>), (7, PrDone 1 0)] s1 = Some s'
    \<and> cl_fs s' = cl_fs s1 \<and> get_job 1 (cl_write_jobs s') = None"
proof -
  let ?ms = "[(6, PrBlock \<lparr>fb_id = 1, fb_file_num = 0, fb_data = [65], fb_compressed = False\<rparr>), (7, PrDone 1 0)] :: (int \<times> peer_file_msg) list"
  obtain s1 s' where run: "handle_msg_from_ui demo_files_env 5 (CancelJob 1) demo_listed = Some s1" "peer_run demo_files_env ?ms s1 = Some s'"
    by simp
  have "distinct (map tj_id (cl_write_jobs demo_listed))" by (simp add: demo_listed_def)
  from cancelled_job_writes_nothing [OF this run(1) _ run(2)] run show ?thesis by (auto simp del: peer_run.simps handle_msg_from_ui.simps)
qed

subsection \<open>Deleting a directory\<close>

definition removal_path :: "remove_job_info \<Rightarrow> nat \<Rightarrow> string" where
  "removal_path job k = rj_path job @ rj_sep job @ fe_name (rj_files job ! k)"

text \<open>The client is about to delete the \<open>k\<close>-th file of a local directory, all confirmed.\<close>

definition deleting :: "i32 \<Rightarrow> remove_job_info \<Rightarrow> nat \<Rightarrow> client_files \<Rightarrow> bool" where
  "deleting i job k s \<longleftrightarrow> (\<exists>t. hm_get (cl_remove_jobs s) i = Some (job\<lparr>rj_last_update := t\<rparr>))
     \<and> cl_queue s = [RemoveFile i (removal_path job k) (of_nat k) False]"

definition removal_report :: "i32 \<Rightarrow> nat \<Rightarrow> file_ui \<Rightarrow> bool" where
  "removal_report i k u \<longleftrightarrow> u = UiJobDone i (of_nat k) \<or> (\<exists>e. u = UiJobError i e (of_nat k))"

lemma take_queue_deleting:
  assumes "deleting i job k s" and "rj_no_confirm job" and "\<not> rj_is_remote job" and "k < length (rj_files job)" and "length (rj_files job) < 2 ^ 31"
  shows "\<exists>s'. take_queue env now s = Some s' \<and> cl_fs s' = fst (remove_file env (removal_path job k) (cl_fs s))
    \<and> (if Suc k < length (rj_files job) then deleting i job (Suc k) s'
       else cl_queue s' = [] \<and> hm_get (cl_remove_jobs s') i = None \<and> (\<exists>u. cl_ui s' = cl_ui s @ [u] \<and> removal_report i k u))"
proof -
  have idx: "i32_as_usize (of_nat k + 1) = Suc k"
    using i32_as_usize_of_nat [of "Suc k"] assms(4,5) by (simp add: add.commute)
  from assms(1) obtain t where s: "hm_get (cl_remove_jobs s) i = Some (job\<lparr>rj_last_update := t\<rparr>)"
      "cl_queue s = [RemoveFile i (removal_path job k) (of_nat k) False]"
    by (auto simp: deleting_def)
  obtain fs err where rem: "remove_file env (removal_path job k) (cl_fs s) = (fs, err)" by fastforce
  have upd: "\<exists>t'. job\<lparr>rj_last_update := t\<rparr> = job\<lparr>rj_last_update := t'\<rparr>" by blast
  show ?thesis
    using s rem idx assms(2,3)
    by (auto simp: take_queue_def handle_job_status_def deleting_def removal_path_def removal_report_def Let_def hmap_simps upd add.commute
        split: option.split)
qed

lemma remove_file_cases:
  "fst (remove_file env path fs) = (if fv_can_remove (xe_fs env) path then fs(path := None) else fs)"
  by (auto simp: remove_file_def fs_remove_def)

lemma queue_run_deleting:
  assumes "rj_no_confirm job" and "\<not> rj_is_remote job" and "length (rj_files job) < 2 ^ 31"
    and "deleting i job k s" and "k < length (rj_files job)" and "length ts = length (rj_files job) - k"
  shows "\<exists>s'. queue_run env ts s = Some s' \<and> cl_queue s' = [] \<and> hm_get (cl_remove_jobs s') i = None
    \<and> removal_report i (length (rj_files job) - 1) (last (cl_ui s'))
    \<and> (\<forall>q. cl_fs s' q = (if q \<in> removal_path job ` {k..<length (rj_files job)} \<and> fv_can_remove (xe_fs env) q then None else cl_fs s q))"
  using assms(4-)
proof (induction ts arbitrary: k s)
  case (Cons t ts)
  let ?n = "length (rj_files job)"
  obtain s1 where s1: "take_queue env t s = Some s1" "cl_fs s1 = fst (remove_file env (removal_path job k) (cl_fs s))"
    and next_k: "if Suc k < ?n then deleting i job (Suc k) s1
       else cl_queue s1 = [] \<and> hm_get (cl_remove_jobs s1) i = None \<and> (\<exists>u. cl_ui s1 = cl_ui s @ [u] \<and> removal_report i k u)"
    using take_queue_deleting [OF Cons.prems(1) assms(1,2) Cons.prems(2) assms(3)] by blast
  have range: "{k..<?n} = insert k {Suc k..<?n}" using Cons.prems(2) by auto
  show ?case
  proof (cases "Suc k < ?n")
    case True
    moreover have "length ts = ?n - Suc k" using Cons.prems(3) by simp
    ultimately obtain s' where "queue_run env ts s1 = Some s'" "cl_queue s' = []" "hm_get (cl_remove_jobs s') i = None"
      "removal_report i (?n - 1) (last (cl_ui s'))"
      "\<forall>q. cl_fs s' q = (if q \<in> removal_path job ` {Suc k..<?n} \<and> fv_can_remove (xe_fs env) q then None else cl_fs s1 q)"
      using Cons.IH [of "Suc k" s1] next_k by auto
    then show ?thesis using s1 by (auto simp: range remove_file_cases)
  next
    case False
    with Cons.prems(2) have n: "?n = Suc k" by simp
    with Cons.prems(3) have "ts = []" by simp
    with n s1 next_k show ?thesis by (auto simp: remove_file_cases)
  qed
qed simp

text \<open>
  C31. Deleting a local directory completes: once the user has confirmed all files at once and the first is being deleted, the
  session's own queue deletes one file after the other; after as many steps as there are files, whatever the times and
  even if some deletions fail, the queue is empty, the job is gone, the last report is about the last file, every listed
  file that can be removed is gone and no other file has changed.
\<close>

theorem delete_directory_completes:
  assumes "deleting i job 0 s" and "rj_no_confirm job" and "\<not> rj_is_remote job" and "rj_files job \<noteq> []"
    and "length (rj_files job) < 2 ^ 31" and "length ts = length (rj_files job)"
  shows "\<exists>s'. queue_run env ts s = Some s' \<and> cl_queue s' = [] \<and> hm_get (cl_remove_jobs s') i = None
    \<and> removal_report i (length (rj_files job) - 1) (last (cl_ui s'))
    \<and> (\<forall>q. cl_fs s' q = (if q \<in> (\<lambda>e. rj_path job @ rj_sep job @ fe_name e) ` set (rj_files job) \<and> fv_can_remove (xe_fs env) q
         then None else cl_fs s q))"
proof -
  have "removal_path job ` {0..<length (rj_files job)} = (\<lambda>e. rj_path job @ rj_sep job @ fe_name e) ` set (rj_files job)"
    by (force simp: removal_path_def in_set_conv_nth)
  with queue_run_deleting [OF assms(2,3,5,1), of ts env] assms(4,6) show ?thesis by auto
qed

definition demo_removal :: remove_job_info where
  "demo_removal = \<lparr>rj_files = [\<lparr>fe_name = ''a'', fe_size = 1, fe_modified_time = 0\<rparr>, \<lparr>fe_name = ''b'', fe_size = 1, fe_modified_time = 0\<rparr>],
     rj_path = ''/d'', rj_sep = ''/'', rj_is_remote = False, rj_no_confirm = True, rj_last_update = 0\<rparr>"

theorem delete_directory_completes_witness:
  "\<exists>s'. queue_run demo_files_env [2, 3] (demo_client\<lparr>cl_remove_jobs := [(4, demo_removal)], cl_queue := [RemoveFile 4 ''/d/a'' 0 False],
      cl_fs := [''/d/a'' \<mapsto> [1], ''/d/b'' \<mapsto> [2], ''/e'' \<mapsto> [3]]\<rparr>) = Some s'
    \<and> cl_queue s' = [] \<and> cl_fs s' ''/d/b'' = None \<and> cl_fs s' ''/e'' = Some [3]"
proof -
  let ?s = "demo_client\<lparr>cl_remove_jobs := [(4, demo_removal)], cl_queue := [RemoveFile 4 ''/d/a'' 0 False],
      cl_fs := [''/d/a'' \<mapsto> [1], ''/d/b'' \<mapsto> [2], ''/e'' \<mapsto> [3]]\<rparr>"
  have "demo_removal = demo_removal\<lparr>rj_last_update := 0\<rparr>" by (simp add: demo_removal_def)
  then have "deleting 4 demo_removal 0 ?s"
    unfolding deleting_def by (auto simp: hm_get_def removal_path_def demo_removal_def)
  then have "\<exists>s'. queue_run demo_files_env [2, 3] ?s = Some s' \<and> cl_queue s' = [] \<and> hm_get (cl_remove_jobs s') 4 = None
    \<and> removal_report 4 (length (rj_files demo_removal) - 1) (last (cl_ui s'))
    \<and> (\<forall>q. cl_fs s' q = (if q \<in> (\<lambda>e. rj_path demo_removal @ rj_sep demo_removal @ fe_name e) ` set (rj_files demo_removal)
         \<and> fv_can_remove (xe_fs demo_files_env) q then None else cl_fs ?s q))"
    by (rule delete_directory_completes) (simp_all add: demo_removal_def)
  then show ?thesis by (auto simp: demo_removal_def demo_files_env_def demo_env_def simp del: queue_run.simps)
qed

end
