(* ===== verification/Client_Video.thy ===== *)
theory Client_Video
  imports Client_Handler Codec_Negotiation
begin

text \<open>
  The rest of a client's session loop, \<open>src/client/io_loop.rs\<close>, and the decoder threads of \<open>src/client.rs\<close>: incoming
  video frames with the bounded queue of each display, the control of the frame rate, recording, voice calls,
  permissions and notifications of the peer. A decoder thread takes one message of its channel per step; the outcome
  and the duration of a decoding are arguments of that step. What the session puts in its own queue it later sends to
  the peer, another step. Sent messages, the reports to the user interface, and the frames given to the decoder and to the
  recorder are part of the state. Rates and counters are \<open>nat\<close>. The build is the one with the Flutter interface.
\<close>

subsection \<open>Frames\<close>

record encoded_frame =
  ef_data :: bytes
  ef_key :: bool

datatype frame_union =
    Vp8s "encoded_frame list" | Vp9s "encoded_frame list" | Av1s "encoded_frame list"
  | H264s "encoded_frame list" | H265s "encoded_frame list" | RgbFrame | YuvFrame

record video_frame =
  vf_union :: "frame_union option"
  vf_display :: i32

definition contains_key_frame :: "video_frame \<Rightarrow> bool" where
  "contains_key_frame vf =
    (case vf_union vf of
       Some (Vp8s f) \<Rightarrow> list_ex ef_key f
     | Some (Vp9s f) \<Rightarrow> list_ex ef_key f
     | Some (Av1s f) \<Rightarrow> list_ex ef_key f
     | Some (H264s f) \<Rightarrow> list_ex ef_key f
     | Some (H265s f) \<Rightarrow> list_ex ef_key f
     | _ \<Rightarrow> False)"

definition codec_format_from :: "video_frame \<Rightarrow> codec_format" where
  "codec_format_from vf =
    (case vf_union vf of
       Some (Vp8s _) \<Rightarrow> FmtVP8 | Some (Vp9s _) \<Rightarrow> FmtVP9 | Some (Av1s _) \<Rightarrow> FmtAV1
     | Some (H264s _) \<Rightarrow> FmtH264 | Some (H265s _) \<Rightarrow> FmtH265 | _ \<Rightarrow> FmtUnknown)"

subsection \<open>Decoders\<close>

record video_handler =
  vh_format :: codec_format
  vh_fail_counter :: nat
  vh_first_frame :: bool
  vh_record :: bool
  vh_recorder :: bool

definition MAX_DECODE_FAIL_COUNTER :: nat where "MAX_DECODE_FAIL_COUNTER = 3"

definition VIDEO_QUEUE_SIZE :: nat where "VIDEO_QUEUE_SIZE = 120"

definition video_handler_new :: "codec_format \<Rightarrow> video_handler" where
  "video_handler_new format = \<lparr>vh_format = format, vh_fail_counter = 0, vh_first_frame = True, vh_record = False, vh_recorder = False\<rparr>"

definition video_handler_reset :: "codec_format option \<Rightarrow> video_handler \<Rightarrow> video_handler" where
  "video_handler_reset format h =
    h\<lparr>vh_format := (case format of Some f \<Rightarrow> f | None \<Rightarrow> vh_format h), vh_fail_counter := 0, vh_first_frame := True\<rparr>"

text \<open>Starting the recorder may fail; then nothing is written although recording is on.\<close>

definition record_screen :: "bool \<Rightarrow> bool \<Rightarrow> video_handler \<Rightarrow> video_handler" where
  "record_screen recorder_ok start h = h\<lparr>vh_recorder := start \<and> recorder_ok, vh_record := start\<rparr>"

text \<open>\<open>handle_frame\<close> with the outcome of the decoder; the last part of the result is whether the recorder wrote the frame.\<close>

definition handle_frame ::
  "(bool, string) result \<Rightarrow> video_frame \<Rightarrow> video_handler \<Rightarrow> video_handler \<times> (bool, string) result \<times> bool" where
  "handle_frame res vf h =
    (let format = codec_format_from vf;
         h = (if format \<noteq> vh_format h then video_handler_reset (Some format) h else h) in
     case vf_union vf of
       None \<Rightarrow> (h, Ok False, False)
     | Some frame \<Rightarrow>
         let h = (if res = Ok True then h\<lparr>vh_fail_counter := 0\<rparr>
                  else if vh_fail_counter h < 2 ^ 64 - 1 then
                    if vh_first_frame h \<and> vh_fail_counter h < MAX_DECODE_FAIL_COUNTER
                    then h\<lparr>vh_fail_counter := MAX_DECODE_FAIL_COUNTER\<rparr>
                    else h\<lparr>vh_fail_counter := vh_fail_counter h + 1\<rparr>
                  else h);
             h = h\<lparr>vh_first_frame := False\<rparr> in
         (h, res, vh_record h \<and> vh_recorder h))"

datatype media_data = VideoQueue | VideoFrame video_frame | MediaReset | RecordScreen bool

record fps_control_state =
  fc_refresh_times :: nat
  fc_last_refresh :: "int option"
  fc_idle_counter :: nat
  fc_inactive_counter :: nat

text \<open>A display's queue, channel and measurements, and the local variables of its thread (durations in nanoseconds).\<close>

record video_thread =
  vt_queue :: "video_frame list"
  vt_channel :: "media_data list"
  vt_decode_fps :: "nat option"
  vt_frame_count :: nat
  vt_discard :: bool
  vt_ctl :: fps_control_state
  vt_handler :: "video_handler option"
  vt_count :: nat
  vt_duration :: nat
  vt_skip_beginning :: nat
  vt_decoded :: "video_frame list"
  vt_recorded :: "video_frame list"

definition video_thread_new :: video_thread where
  "video_thread_new = \<lparr>vt_queue = [], vt_channel = [], vt_decode_fps = None, vt_frame_count = 0, vt_discard = False,
     vt_ctl = \<lparr>fc_refresh_times = 0, fc_last_refresh = None, fc_idle_counter = 0, fc_inactive_counter = 0\<rparr>,
     vt_handler = None, vt_count = 0, vt_duration = 0, vt_skip_beginning = 0, vt_decoded = [], vt_recorded = []\<rparr>"

definition fps_calculate :: "bool \<Rightarrow> nat \<Rightarrow> video_thread \<Rightarrow> video_thread" where
  "fps_calculate format_changed elapsed t =
    (let t = (if format_changed then t\<lparr>vt_count := 0, vt_duration := 0, vt_skip_beginning := 0\<rparr> else t) in
     if vt_skip_beginning t < 3 then t\<lparr>vt_skip_beginning := vt_skip_beginning t + 1\<rparr>
     else
       let t = t\<lparr>vt_duration := vt_duration t + elapsed, vt_count := vt_count t + 1\<rparr>;
           ms = vt_duration t div 1000000;
           t = (if vt_count t mod 10 = 0 \<and> ms > 0 then t\<lparr>vt_decode_fps := Some (vt_count t * 1000 div ms)\<rparr> else t) in
       if vt_count t \<ge> 30 then t\<lparr>vt_count := 0, vt_duration := 0\<rparr> else t)"

subsection \<open>The session\<close>

datatype session_msg =
    RefreshVideo
  | RefreshVideoDisplay i32
  | CustomFps nat
  | UserFps int
  | ClientRecordStatus bool
  | SupportedDecodings "codec_format list"
  | ToggleVirtualDisplay int
  | TogglePrivacyMode string
  | VoiceCallRequest bool i64
  | ElevationRequest "(string \<times> string) option"

datatype session_ui =
    UiCloseSuccess
  | UiAdaptSize
  | UiRecordStatus bool
  | UiPermission string bool
  | UiQualityFps "(nat \<times> nat) list"
  | UiVoiceWaiting
  | UiVoiceStarted
  | UiVoiceClosed string
  | UiBlockInput bool
  | UiPrivacyMode
  | UiError string
  | UiPortableService bool

record parsed_peer_info =
  pp_platform :: string
  pp_is_installed :: bool
  pp_idd_impl :: string
  pp_support_view_camera :: bool
  pp_support_terminal :: bool

record client_video =
  cv_client :: client_state
  cv_threads :: "(nat, video_thread) hmap"
  cv_format :: codec_format
  cv_first_frame :: bool
  cv_last_auto_fps :: "nat option"
  cv_last_record_state :: bool
  cv_mark_unsupported :: "codec_format list"
  cv_voice_call_request :: "i64 option"
  cv_voice_call :: bool
  cv_keyboard_enabled :: bool
  cv_clipboard_enabled :: bool
  cv_file_transfer_enabled :: bool
  cv_elevation_requested :: bool
  cv_peer_info :: parsed_peer_info
  cv_queue :: "session_msg list"
  cv_sent :: "session_msg list"
  cv_ui :: "session_ui list"

record video_env =
  ve_client :: client_env
  ve_decoder_valid :: "codec_format \<Rightarrow> bool"
  ve_recorder_ok :: bool
  ve_auto_record :: bool
  ve_force_push :: "video_frame \<Rightarrow> video_frame list \<Rightarrow> video_frame list \<times> bool"

text \<open>
  The bounded queue of frames is a library's; a frame is taken from its front. Its documentation says that pushing by force
  appends, and that it replaces the oldest element of a full queue and returns it.
\<close>

definition array_queue :: "(video_frame \<Rightarrow> video_frame list \<Rightarrow> video_frame list \<times> bool) \<Rightarrow> bool" where
  "array_queue push \<longleftrightarrow>
     (\<forall>vf q. push vf q = (if length q < VIDEO_QUEUE_SIZE then (q @ [vf], False) else (tl q @ [vf], True)))"

abbreviation cv_lc :: "client_video \<Rightarrow> login_config" where
  "cv_lc s \<equiv> fst (cv_client s)"

definition set_lc :: "(login_config \<Rightarrow> login_config) \<Rightarrow> client_video \<Rightarrow> client_video" where
  "set_lc f s = s\<lparr>cv_client := (case cv_client s of (h, ps, evs) \<Rightarrow> (f h, ps, evs))\<rparr>"

definition session_send :: "session_msg \<Rightarrow> client_video \<Rightarrow> client_video" where
  "session_send m s = s\<lparr>cv_queue := cv_queue s @ [m]\<rparr>"

definition peer_send :: "session_msg \<Rightarrow> client_video \<Rightarrow> client_video" where
  "peer_send m s = s\<lparr>cv_sent := cv_sent s @ [m]\<rparr>"

definition show_ui :: "session_ui \<Rightarrow> client_video \<Rightarrow> client_video" where
  "show_ui u s = s\<lparr>cv_ui := cv_ui s @ [u]\<rparr>"

definition session_msgbox :: "string \<Rightarrow> string \<Rightarrow> string \<Rightarrow> client_video \<Rightarrow> client_video" where
  "session_msgbox ty title text s =
    s\<lparr>cv_client := (case cv_client s of (h, ps, evs) \<Rightarrow> (h, ps, evs @ [MsgBox ty title text []]))\<rparr>"

definition channel_send :: "media_data \<Rightarrow> video_thread \<Rightarrow> video_thread" where
  "channel_send d t = t\<lparr>vt_channel := vt_channel t @ [d]\<rparr>"

definition is_support_multi_ui_session_num :: "i64 \<Rightarrow> bool" where
  "is_support_multi_ui_session_num ver \<longleftrightarrow> get_version_number ''1.2.4'' \<le>s ver"

definition refresh_video :: "i32 \<Rightarrow> client_video \<Rightarrow> client_video" where
  "refresh_video display s =
    session_send (if is_support_multi_ui_session_num (lc_version (cv_lc s)) then RefreshVideoDisplay display else RefreshVideo) s"

subsection \<open>Recording\<close>

definition update_record_state :: "client_video \<Rightarrow> client_video" where
  "update_record_state s =
    (let permission = lc_record_permission (cv_lc s);
         s = (if \<not> permission then set_lc (\<lambda>h. h\<lparr>lc_record_state := False\<rparr>) s else s);
         start = (lc_record_state (cv_lc s) \<and> permission) in
     if cv_last_record_state s = start then s
     else session_send (ClientRecordStatus start)
            (show_ui (UiRecordStatus start)
              (s\<lparr>cv_last_record_state := start,
                 cv_threads := hm_map_values (channel_send (RecordScreen start)) (cv_threads s)\<rparr>)))"

definition new_video_thread :: "video_env \<Rightarrow> nat \<Rightarrow> client_video \<Rightarrow> client_video" where
  "new_video_thread env display s =
    (let s = s\<lparr>cv_threads := hm_insert display video_thread_new (cv_threads s)\<rparr> in
     if length (cv_threads s) = 1
     then update_record_state (set_lc (\<lambda>h. h\<lparr>lc_record_state := ve_auto_record env\<rparr>) s)
     else s)"

subsection \<open>Frames of the peer\<close>

definition is_support_virtual_display :: "parsed_peer_info \<Rightarrow> bool" where
  "is_support_virtual_display p \<longleftrightarrow> pp_is_installed p \<and> pp_platform p = ''Windows''
     \<and> (pp_idd_impl p = ''onedesk_idd'' \<or> pp_idd_impl p = ''amyuni_idd'')"

definition send_toggle_virtual_display_msg :: "client_video \<Rightarrow> client_video" where
  "send_toggle_virtual_display_msg s =
    (if \<not> is_support_virtual_display (cv_peer_info s) then s
     else fold (\<lambda>d s. case parse_i32 d of Some index \<Rightarrow> peer_send (ToggleVirtualDisplay index) s | None \<Rightarrow> s)
            (split_on CHR '','' (lc_get_option (cv_lc s) ''virtual-display'')) s)"

definition send_toggle_privacy_mode_msg :: "client_video \<Rightarrow> client_video" where
  "send_toggle_privacy_mode_msg s =
    (let lc = cv_lc s; impl_key = lc_get_option lc ''privacy-mode-impl-key'' in
     if get_version_number ''1.2.4'' \<le>s lc_version lc \<and> get_toggle_option lc ''privacy-mode''
     then if impl_key = ''privacy_mode_impl_virtual_display'' \<and> \<not> is_support_virtual_display (cv_peer_info s) then s
          else peer_send (TogglePrivacyMode impl_key) s
     else s)"

definition open_display :: "video_env \<Rightarrow> video_frame \<Rightarrow> client_video \<Rightarrow> client_video" where
  "open_display env vf s =
    (let s = (if \<not> cv_first_frame s
              then send_toggle_privacy_mode_msg (send_toggle_virtual_display_msg
                     (show_ui UiAdaptSize (show_ui UiCloseSuccess (s\<lparr>cv_first_frame := True\<rparr>))))
              else s);
         s = s\<lparr>cv_format := codec_format_from vf\<rparr>;
         display = i32_as_usize (vf_display vf) in
     if \<not> hm_contains (cv_threads s) display then new_video_thread env display s else s)"

definition push_frame :: "video_env \<Rightarrow> video_frame \<Rightarrow> client_video \<Rightarrow> client_video" where
  "push_frame env vf s =
    (let display = i32_as_usize (vf_display vf) in
     case hm_get (cv_threads s) display of
       None \<Rightarrow> s
     | Some t \<Rightarrow>
         if contains_key_frame vf
         then s\<lparr>cv_threads := hm_insert display (channel_send (VideoFrame vf) t) (cv_threads s)\<rparr>
         else case ve_force_push env vf (vt_queue t) of
           (q, overflow) \<Rightarrow>
             if overflow
             then refresh_video (vf_display vf) (s\<lparr>cv_threads := hm_insert display (t\<lparr>vt_queue := q\<rparr>) (cv_threads s)\<rparr>)
             else s\<lparr>cv_threads := hm_insert display (channel_send VideoQueue (t\<lparr>vt_queue := q\<rparr>)) (cv_threads s)\<rparr>)"

definition receive_frame :: "video_env \<Rightarrow> video_frame \<Rightarrow> client_video \<Rightarrow> client_video" where
  "receive_frame env vf s = push_frame env vf (open_display env vf s)"

subsection \<open>The decoder thread\<close>

text \<open>The frame of a message, if any: a queued frame is dropped while the queue is being discarded.\<close>

definition take_frame :: "media_data \<Rightarrow> video_thread \<Rightarrow> video_thread \<times> video_frame option" where
  "take_frame d t =
    (case d of
       VideoFrame vf \<Rightarrow> (t\<lparr>vt_discard := False\<rparr>, Some vf)
     | VideoQueue \<Rightarrow>
         (case vt_queue t of
            [] \<Rightarrow> (t, None)
          | vf # q \<Rightarrow> (t\<lparr>vt_queue := q\<rparr>, if vt_discard t then None else Some vf))
     | _ \<Rightarrow> (t, None))"

definition ensure_handler :: "video_env \<Rightarrow> login_config \<Rightarrow> codec_format \<Rightarrow> video_thread \<Rightarrow> video_handler" where
  "ensure_handler env lc format t =
    (case vt_handler t of
       Some h \<Rightarrow> h
     | None \<Rightarrow>
         let h = video_handler_new format in
         if lc_record_state lc \<and> lc_record_permission lc then record_screen (ve_recorder_ok env) True h else h)"

definition decode_frame ::
  "video_env \<Rightarrow> login_config \<Rightarrow> (bool, string) result \<Rightarrow> nat \<Rightarrow> video_frame \<Rightarrow> video_thread
    \<Rightarrow> video_thread \<times> video_handler \<times> (bool, string) result" where
  "decode_frame env lc res elapsed vf t =
    (let h0 = ensure_handler env lc (codec_format_from vf) t;
         format_changed = (vh_format h0 \<noteq> codec_format_from vf) in
     case handle_frame res vf h0 of
       (h, r, written) \<Rightarrow>
         let t = t\<lparr>vt_handler := Some h, vt_decoded := vt_decoded t @ [vf],
                   vt_recorded := (if written then vt_recorded t @ [vf] else vt_recorded t)\<rparr> in
         (if r = Ok True then fps_calculate format_changed elapsed (t\<lparr>vt_frame_count := vt_frame_count t + 1\<rparr>) else t, h, r))"

text \<open>One pass of the loop of a thread, with the frame it has decoded, the decoder and its result.\<close>

definition thread_pass ::
  "video_env \<Rightarrow> login_config \<Rightarrow> (bool, string) result \<Rightarrow> nat \<Rightarrow> video_thread
    \<Rightarrow> video_thread \<times> (video_frame \<times> video_handler \<times> (bool, string) result) option" where
  "thread_pass env lc res elapsed t =
    (case vt_channel t of
       [] \<Rightarrow> (t, None)
     | d # rest \<Rightarrow>
         let t = t\<lparr>vt_channel := rest\<rparr> in
         (case d of
            MediaReset \<Rightarrow> (t\<lparr>vt_handler := map_option (video_handler_reset None) (vt_handler t)\<rparr>, None)
          | RecordScreen start \<Rightarrow> (t\<lparr>vt_handler := map_option (record_screen (ve_recorder_ok env) start) (vt_handler t)\<rparr>, None)
          | _ \<Rightarrow>
              (case take_frame d t of
                 (t, None) \<Rightarrow> (t, None)
               | (t, Some vf) \<Rightarrow> (case decode_frame env lc res elapsed vf t of (t, h, r) \<Rightarrow> (t, Some (vf, h, r))))))"

definition check_decoder :: "video_env \<Rightarrow> video_handler \<Rightarrow> client_video \<Rightarrow> client_video" where
  "check_decoder env h s =
    (if (\<not> ve_decoder_valid env (vh_format h) \<or> vh_fail_counter h \<ge> MAX_DECODE_FAIL_COUNTER)
        \<and> vh_format h \<notin> set (cv_mark_unsupported s)
     then session_send (SupportedDecodings (cv_mark_unsupported s @ [vh_format h]))
            (s\<lparr>cv_mark_unsupported := cv_mark_unsupported s @ [vh_format h]\<rparr>)
     else s)"

definition video_thread_step :: "video_env \<Rightarrow> (bool, string) result \<Rightarrow> nat \<Rightarrow> nat \<Rightarrow> client_video \<Rightarrow> client_video" where
  "video_thread_step env res elapsed display s =
    (case hm_get (cv_threads s) display of
       None \<Rightarrow> s
     | Some t \<Rightarrow>
         (case thread_pass env (cv_lc s) res elapsed t of
            (t, out) \<Rightarrow>
              let s = s\<lparr>cv_threads := hm_insert display t (cv_threads s)\<rparr> in
              (case out of
                 None \<Rightarrow> s
               | Some (vf, h, r) \<Rightarrow>
                   check_decoder env h (case r of Err _ \<Rightarrow> refresh_video (vf_display vf) s | Ok _ \<Rightarrow> s))))"

subsection \<open>The frame rate\<close>

text \<open>The least of optional rates: an unknown rate is less than any other, and there is none of an empty list.\<close>

fun min_rate :: "nat option list \<Rightarrow> nat option" where
  "min_rate [] = None"
| "min_rate [x] = x"
| "min_rate (x # xs) = (case (x, min_rate xs) of (Some a, Some b) \<Rightarrow> Some (min a b) | _ \<Rightarrow> None)"

definition clip_custom_fps :: "login_config \<Rightarrow> nat" where
  "clip_custom_fps lc =
    (let fps = (case lc_custom_fps lc of Some f \<Rightarrow> unat f | None \<Rightarrow> 30) in
     if fps < 5 \<or> fps > 120 then 30 else fps)"

definition limit_fps :: "bool \<Rightarrow> nat \<Rightarrow> nat \<Rightarrow> nat" where
  "limit_fps direct custom_fps min_decode_fps =
    (let limited = (if direct then min_decode_fps * 9 div 10 else min_decode_fps * 4 div 5) in
     if limited > custom_fps then custom_fps else limited)"

definition count_inactive :: "(nat, nat) hmap \<Rightarrow> nat \<Rightarrow> video_thread \<Rightarrow> video_thread" where
  "count_inactive real_fps_map k t =
    t\<lparr>vt_ctl := (vt_ctl t)\<lparr>fc_inactive_counter :=
       (if unwrap_or (hm_get real_fps_map k) 0 = 0 then fc_inactive_counter (vt_ctl t) + 1 else 0)\<rparr>\<rparr>"

definition fps_trending :: "nat \<Rightarrow> nat \<Rightarrow> video_thread \<Rightarrow> video_thread \<times> bool option" where
  "fps_trending last_auto_fps limited_fps t =
    (let ctl = vt_ctl t; len = length (vt_queue t);
         set_idle = (\<lambda>n. t\<lparr>vt_ctl := ctl\<lparr>fc_idle_counter := n\<rparr>\<rparr>) in
     case vt_decode_fps t of
       None \<Rightarrow> (t, None)
     | Some decode_fps \<Rightarrow>
         if fc_inactive_counter ctl > 15 then (t, None)
         else if len > 1 \<and> last_auto_fps > limited_fps \<or> len > max 1 (decode_fps div 2) then (set_idle 0, Some False)
         else if len \<le> 1 then
           (set_idle (fc_idle_counter ctl + 1),
            if fc_idle_counter ctl + 1 > 3 \<and> last_auto_fps + 3 \<le> limited_fps then Some True else None)
         else (set_idle 0, None))"

definition choose_fps :: "bool \<Rightarrow> nat \<Rightarrow> nat \<Rightarrow> nat" where
  "choose_fps should_decrease limited_fps max_queue_len =
    (let auto_fps = (if should_decrease \<and> limited_fps < max_queue_len then limited_fps div 2 else limited_fps) in
     if auto_fps < 1 then 1 else auto_fps)"

definition refresh_due :: "int \<Rightarrow> nat \<Rightarrow> video_thread \<Rightarrow> bool" where
  "refresh_due now min_decode_fps t \<longleftrightarrow>
     fc_refresh_times (vt_ctl t) < 20 \<and> length (vt_queue t) > min min_decode_fps (VIDEO_QUEUE_SIZE div 2)
     \<and> (fc_refresh_times (vt_ctl t) = 0
        \<or> (case fc_last_refresh (vt_ctl t) of Some i \<Rightarrow> (now - i) div 1000 > 10 | None \<Rightarrow> False))"

definition refresh_thread :: "int \<Rightarrow> nat \<Rightarrow> nat \<Rightarrow> client_video \<Rightarrow> client_video" where
  "refresh_thread now min_decode_fps display s =
    (case hm_get (cv_threads s) display of
       None \<Rightarrow> s
     | Some t \<Rightarrow>
         if refresh_due now min_decode_fps t
         then (refresh_video (of_nat display) s)\<lparr>cv_threads := hm_insert display
                (t\<lparr>vt_ctl := (vt_ctl t)\<lparr>fc_refresh_times := fc_refresh_times (vt_ctl t) + 1, fc_last_refresh := Some now\<rparr>\<rparr>)
                (cv_threads s)\<rparr>
         else s)"

definition set_auto_fps :: "nat \<Rightarrow> client_video \<Rightarrow> client_video" where
  "set_auto_fps auto_fps s =
    (if Some auto_fps \<noteq> cv_last_auto_fps s
     then session_send (CustomFps auto_fps) (s\<lparr>cv_last_auto_fps := Some auto_fps\<rparr>) else s)"

definition fps_control :: "int \<Rightarrow> bool \<Rightarrow> (nat, nat) hmap \<Rightarrow> client_video \<Rightarrow> client_video" where
  "fps_control now direct real_fps_map s =
    (let threads = map (\<lambda>(k, t). (k, count_inactive real_fps_map k t)) (cv_threads s);
         s = s\<lparr>cv_threads := threads\<rparr>;
         custom_fps = clip_custom_fps (cv_lc s);
         max_queue_len = foldr (\<lambda>(k, t) n. max (length (vt_queue t)) n) threads 0 in
     case min_rate (map vt_decode_fps (filter (\<lambda>t. fc_inactive_counter (vt_ctl t) < 15) (hm_values threads))) of
       None \<Rightarrow> s
     | Some min_decode_fps \<Rightarrow>
         let limited_fps = limit_fps direct custom_fps min_decode_fps;
             last = unwrap_or (cv_last_auto_fps s) custom_fps;
             trendings = map (\<lambda>(k, t). snd (fps_trending last limited_fps t)) threads;
             s = s\<lparr>cv_threads := hm_map_values (\<lambda>t. fst (fps_trending last limited_fps t)) threads\<rparr>;
             should_decrease = (Some False \<in> set trendings);
             should_increase = (\<not> should_decrease \<and> Some True \<in> set trendings);
             s = (if cv_last_auto_fps s = None \<or> should_decrease \<or> should_increase
                  then set_auto_fps (choose_fps should_decrease limited_fps max_queue_len) s else s) in
         fold (refresh_thread now min_decode_fps) (map fst (cv_threads s)) s)"

text \<open>The status timer, \<open>elapsed\<close> milliseconds after its last pass.\<close>

definition status_tick :: "int \<Rightarrow> bool \<Rightarrow> nat \<Rightarrow> client_video \<Rightarrow> client_video" where
  "status_tick now direct elapsed s =
    (if elapsed < 1000 then s
     else
       let fps = hm_map_values (\<lambda>t. vt_frame_count t * 1000 div elapsed) (cv_threads s);
           s = s\<lparr>cv_threads := hm_map_values (\<lambda>t. t\<lparr>vt_frame_count := 0\<rparr>) (cv_threads s)\<rparr> in
       show_ui (UiQualityFps fps) (fps_control now direct fps s))"

subsection \<open>The session's own queue\<close>

definition set_discard :: "video_thread \<Rightarrow> video_thread" where
  "set_discard t = t\<lparr>vt_discard := True\<rparr>"

definition handle_own_message :: "session_msg \<Rightarrow> client_video \<Rightarrow> client_video" where
  "handle_own_message m s =
    peer_send m
      (case m of
         RefreshVideo \<Rightarrow> s\<lparr>cv_threads := hm_map_values set_discard (cv_threads s)\<rparr>
       | RefreshVideoDisplay display \<Rightarrow> s\<lparr>cv_threads := hm_modify (i32_as_usize display) set_discard (cv_threads s)\<rparr>
       | _ \<Rightarrow> s)"

definition take_own_message :: "client_video \<Rightarrow> client_video" where
  "take_own_message s = (case cv_queue s of [] \<Rightarrow> s | m # q \<Rightarrow> handle_own_message m (s\<lparr>cv_queue := q\<rparr>))"

definition reset_decoder :: "nat option \<Rightarrow> client_video \<Rightarrow> client_video" where
  "reset_decoder display s =
    s\<lparr>cv_threads := (case display of
        Some d \<Rightarrow> hm_modify d (channel_send MediaReset) (cv_threads s)
      | None \<Rightarrow> hm_map_values (channel_send MediaReset) (cv_threads s))\<rparr>"

definition record_command :: "bool \<Rightarrow> client_video \<Rightarrow> client_video" where
  "record_command start s = update_record_state (set_lc (\<lambda>h. h\<lparr>lc_record_state := start\<rparr>) s)"

subsection \<open>Voice calls\<close>

definition start_voice_call :: "client_video \<Rightarrow> bool" where
  "start_voice_call s \<longleftrightarrow> lc_conn_type (cv_lc s) \<notin> {FILE_TRANSFER, PORT_FORWARD, RDP, TERMINAL}"

definition new_voice_call :: "i64 \<Rightarrow> i64 \<Rightarrow> client_video \<Rightarrow> client_video" where
  "new_voice_call time later s =
    show_ui UiVoiceWaiting (peer_send (VoiceCallRequest True time)
      (s\<lparr>cv_voice_call_request := Some (if time \<noteq> 0 then time else later)\<rparr>))"

definition client_close_voice_call :: "i64 \<Rightarrow> client_video \<Rightarrow> client_video" where
  "client_close_voice_call time s =
    peer_send (VoiceCallRequest False time) (show_ui (UiVoiceClosed ''Closed manually by the peer'') (s\<lparr>cv_voice_call := False\<rparr>))"

definition voice_call_request :: "bool \<Rightarrow> client_video \<Rightarrow> client_video" where
  "voice_call_request is_connect s =
    (if is_connect then s
     else if cv_voice_call s then show_ui (UiVoiceClosed []) (s\<lparr>cv_voice_call := False\<rparr>) else s)"

definition voice_call_response :: "i64 \<Rightarrow> bool \<Rightarrow> client_video \<Rightarrow> client_video" where
  "voice_call_response req_timestamp accepted s =
    (case cv_voice_call_request s of
       None \<Rightarrow> s
     | Some ts \<Rightarrow>
         let s = s\<lparr>cv_voice_call_request := None\<rparr> in
         if req_timestamp \<noteq> ts then s
         else if accepted then (show_ui UiVoiceStarted s)\<lparr>cv_voice_call := start_voice_call s\<rparr>
         else show_ui (UiVoiceClosed []) s)"

subsection \<open>Permissions and notifications\<close>

datatype perm_kind = PermKeyboard | PermClipboard | PermAudio | PermFile | PermRestart | PermRecording | PermBlockInput | PermUnknown

definition permission_info :: "perm_kind \<Rightarrow> bool \<Rightarrow> client_video \<Rightarrow> client_video" where
  "permission_info p enabled s =
    (case p of
       PermKeyboard \<Rightarrow> show_ui (UiPermission ''keyboard'' enabled) (s\<lparr>cv_keyboard_enabled := enabled\<rparr>)
     | PermClipboard \<Rightarrow> show_ui (UiPermission ''clipboard'' enabled) (s\<lparr>cv_clipboard_enabled := enabled\<rparr>)
     | PermAudio \<Rightarrow> show_ui (UiPermission ''audio'' enabled) s
     | PermFile \<Rightarrow>
         let s = s\<lparr>cv_file_transfer_enabled := enabled\<rparr> in
         if \<not> enabled \<and> lc_conn_type (cv_lc s) = FILE_TRANSFER then s else show_ui (UiPermission ''file'' enabled) s
     | PermRestart \<Rightarrow> show_ui (UiPermission ''restart'' enabled) s
     | PermRecording \<Rightarrow>
         show_ui (UiPermission ''recording'' enabled)
           (update_record_state (set_lc (\<lambda>h. h\<lparr>lc_record_permission := enabled\<rparr>) s))
     | PermBlockInput \<Rightarrow> show_ui (UiPermission ''block_input'' enabled) s
     | PermUnknown \<Rightarrow> s)"

datatype block_input_state = BlkOnSucceeded | BlkOnFailed | BlkOffSucceeded | BlkOffFailed | BlkStateUnknown

datatype privacy_mode_state = PrvOnByOther | PrvNotSupported | PrvOnSucceeded | PrvOnFailedDenied | PrvOnFailedPlugin
  | PrvOnFailed | PrvOffSucceeded | PrvOffByPeer | PrvOffFailed | PrvOffUnknown | PrvStateUnknown

definition or_failed :: "string \<Rightarrow> string \<Rightarrow> string" where
  "or_failed msg details = (if details = [] then msg else details)"

definition handle_back_msg_block_input :: "block_input_state \<Rightarrow> string \<Rightarrow> client_video \<Rightarrow> client_video" where
  "handle_back_msg_block_input state details s =
    (case state of
       BlkOnSucceeded \<Rightarrow> show_ui (UiBlockInput True) s
     | BlkOnFailed \<Rightarrow> show_ui (UiBlockInput False) (session_msgbox ''custom-error'' ''Block user input'' (or_failed ''Failed'' details) s)
     | BlkOffSucceeded \<Rightarrow> show_ui (UiBlockInput False) s
     | BlkOffFailed \<Rightarrow> session_msgbox ''custom-error'' ''Unblock user input'' (or_failed ''Failed'' details) s
     | BlkStateUnknown \<Rightarrow> s)"

definition update_privacy_mode :: "video_env \<Rightarrow> string \<Rightarrow> bool \<Rightarrow> client_video \<Rightarrow> client_video" where
  "update_privacy_mode env impl_key on s =
    show_ui UiPrivacyMode (s\<lparr>cv_client := with_config (ve_client env) (\<lambda>c.
       let c = c\<lparr>pc_privacy_mode := on\<rparr> in
       if on then c\<lparr>pc_options := hm_insert ''privacy-mode-impl-key''
                     (if impl_key = [] then ''privacy_mode_impl_mag'' else impl_key) (pc_options c)\<rparr>
       else c) (cv_client s)\<rparr>)"

text \<open>The result is whether the session goes on.\<close>

definition handle_back_msg_privacy_mode ::
  "video_env \<Rightarrow> privacy_mode_state \<Rightarrow> string \<Rightarrow> string \<Rightarrow> client_video \<Rightarrow> bool \<times> client_video" where
  "handle_back_msg_privacy_mode env state details impl_key s =
    (let box = (\<lambda>ty text. session_msgbox ty ''Privacy mode'' text s); off = update_privacy_mode env impl_key False in
     case state of
       PrvOnByOther \<Rightarrow> (False, session_msgbox ''error'' ''Connecting...'' ''Someone turns on privacy mode, exit'' s)
     | PrvNotSupported \<Rightarrow> (True, off (box ''custom-error'' ''Unsupported''))
     | PrvOnSucceeded \<Rightarrow> (True, update_privacy_mode env impl_key True (box ''custom-nocancel'' ''Enter privacy mode''))
     | PrvOnFailedDenied \<Rightarrow> (True, off (box ''custom-error'' ''Peer denied''))
     | PrvOnFailedPlugin \<Rightarrow> (True, off (box ''custom-error'' ''Please install plugins''))
     | PrvOnFailed \<Rightarrow> (True, off (box ''custom-error'' (or_failed ''Failed'' details)))
     | PrvOffSucceeded \<Rightarrow> (True, off (box ''custom-nocancel'' ''Exit privacy mode''))
     | PrvOffByPeer \<Rightarrow> (True, off (box ''custom-error'' ''Peer exit''))
     | PrvOffFailed \<Rightarrow> (True, box ''custom-error'' (or_failed ''Failed to turn off'' details))
     | PrvOffUnknown \<Rightarrow> (True, off (box ''custom-error'' ''Turned off''))
     | PrvStateUnknown \<Rightarrow> (True, s))"

datatype back_notification = BlockInputState block_input_state | PrivacyModeState privacy_mode_state | NoNotification

definition handle_back_notification ::
  "video_env \<Rightarrow> back_notification \<Rightarrow> string \<Rightarrow> string \<Rightarrow> client_video \<Rightarrow> bool \<times> client_video" where
  "handle_back_notification env n details impl_key s =
    (case n of
       BlockInputState state \<Rightarrow> (True, handle_back_msg_block_input state details s)
     | PrivacyModeState state \<Rightarrow> handle_back_msg_privacy_mode env state details impl_key s
     | NoNotification \<Rightarrow> (True, s))"

subsection \<open>What the peer supports\<close>

text \<open>\<open>additions\<close> is the parsed map of platform additions, with what the three keys hold, or nothing when it cannot be parsed.\<close>

definition set_peer_info ::
  "string \<Rightarrow> bool option \<Rightarrow> (bool option \<times> string option \<times> bool option) option \<Rightarrow> client_video \<Rightarrow> client_video" where
  "set_peer_info platform terminal additions s =
    (let p = (cv_peer_info s)\<lparr>pp_platform := platform\<rparr>;
         p = (case terminal of Some b \<Rightarrow> p\<lparr>pp_support_terminal := b\<rparr> | None \<Rightarrow> p);
         p = (case additions of
                Some (installed, idd, camera) \<Rightarrow>
                  p\<lparr>pp_is_installed := unwrap_or installed False, pp_idd_impl := unwrap_or idd [], pp_support_view_camera := unwrap_or camera False\<rparr>
              | None \<Rightarrow> p) in
     s\<lparr>cv_peer_info := p\<rparr>)"

definition check_view_camera_support :: "string \<Rightarrow> string \<Rightarrow> client_video \<Rightarrow> bool \<times> client_video" where
  "check_view_camera_support peer_version peer_platform s =
    (if pp_support_view_camera (cv_peer_info s) then (True, s)
     else (False,
       if get_version_number peer_version <s get_version_number ''1.3.9'' \<and> (peer_platform = ''Windows'' \<or> peer_platform = ''Linux'')
       then session_msgbox ''error'' ''Download new version'' ''upgrade_remote_onedesk_client_to_{1.3.9}_tip'' s
       else show_ui (UiError ''view_camera_unsupported_tip'') s))"

definition check_terminal_support :: "string \<Rightarrow> client_video \<Rightarrow> bool \<times> client_video" where
  "check_terminal_support peer_version s =
    (if pp_support_terminal (cv_peer_info s) then (True, s)
     else (False,
       if get_version_number peer_version <s get_version_number ''1.4.1''
       then session_msgbox ''error'' ''Remote terminal not supported''
              ''Remote terminal is not supported by the remote side. Please upgrade to version 1.4.1 or higher.'' s
       else show_ui (UiError ''Remote terminal is not supported by the remote side'') s))"

text \<open>A rate the user chooses is remembered, becomes the limit of the automatic control, and is sent as it is.\<close>

definition session_set_custom_fps :: "video_env \<Rightarrow> int \<Rightarrow> client_video \<Rightarrow> client_video" where
  "session_set_custom_fps env fps s =
    (case set_custom_fps (ve_client env) fps True (cv_client s) of
       (msg, st) \<Rightarrow> session_send (UserFps (om_custom_fps msg)) (s\<lparr>cv_client := st\<rparr>))"

definition elevate :: "(string \<times> string) option \<Rightarrow> client_video \<Rightarrow> client_video" where
  "elevate logon s = (peer_send (ElevationRequest logon) s)\<lparr>cv_elevation_requested := True\<rparr>"

definition portable_service_running :: "bool \<Rightarrow> client_video \<Rightarrow> client_video" where
  "portable_service_running b s =
    (let s = show_ui (UiPortableService b) s in
     if cv_elevation_requested s \<and> b then session_msgbox ''custom-nocancel-success'' ''Successful'' ''Elevate successfully'' s else s)"

subsection \<open>Runs\<close>

datatype video_event =
    EvFrame video_frame
  | EvDecode nat "(bool, string) result" nat
  | EvStatus int bool nat
  | EvOwnMessage
  | EvResetDecoder "nat option"
  | EvRecord bool
  | EvPermission perm_kind bool
  | EvNewVoiceCall i64 i64
  | EvCloseVoiceCall i64
  | EvVoiceCallRequest bool
  | EvVoiceCallResponse i64 bool
  | EvBackNotification back_notification string string
  | EvElevate "(string \<times> string) option"
  | EvPortableService bool
  | EvUserFps int

text \<open>
  The steps of the loop and of the threads, in any order. A notification that ends the session is its last event; the state
  is kept.
\<close>

fun video_step :: "video_env \<Rightarrow> video_event \<Rightarrow> client_video \<Rightarrow> client_video" where
  "video_step env (EvFrame vf) s = receive_frame env vf s"
| "video_step env (EvDecode display res elapsed) s = video_thread_step env res elapsed display s"
| "video_step env (EvStatus now direct elapsed) s = status_tick now direct elapsed s"
| "video_step env EvOwnMessage s = take_own_message s"
| "video_step env (EvResetDecoder display) s = reset_decoder display s"
| "video_step env (EvRecord start) s = record_command start s"
| "video_step env (EvPermission p enabled) s = permission_info p enabled s"
| "video_step env (EvNewVoiceCall time later) s = new_voice_call time later s"
| "video_step env (EvCloseVoiceCall time) s = client_close_voice_call time s"
| "video_step env (EvVoiceCallRequest c) s = voice_call_request c s"
| "video_step env (EvVoiceCallResponse ts a) s = voice_call_response ts a s"
| "video_step env (EvBackNotification n details impl_key) s = snd (handle_back_notification env n details impl_key s)"
| "video_step env (EvElevate logon) s = elevate logon s"
| "video_step env (EvPortableService b) s = portable_service_running b s"
| "video_step env (EvUserFps fps) s = session_set_custom_fps env fps s"

definition video_run :: "video_env \<Rightarrow> video_event list \<Rightarrow> client_video \<Rightarrow> client_video" where
  "video_run env evs s = fold (video_step env) evs s"

text \<open>A new session: \<open>LoginConfigHandler::initialize\<close> has cleared the state of the recording.\<close>

definition video_init :: "client_state \<Rightarrow> client_video \<Rightarrow> bool" where
  "video_init st s \<longleftrightarrow> cv_client s = st \<and> \<not> lc_record_state (fst st) \<and> cv_threads s = [] \<and> \<not> cv_first_frame s
     \<and> cv_last_auto_fps s = None \<and> \<not> cv_last_record_state s \<and> cv_voice_call_request s = None \<and> \<not> cv_voice_call s
     \<and> cv_queue s = [] \<and> cv_sent s = [] \<and> cv_ui s = []"

subsection \<open>What the operations leave alone\<close>

lemma session_fields [simp]:
  "cv_threads (session_send m s) = cv_threads s" "cv_client (session_send m s) = cv_client s"
  "cv_threads (peer_send m s) = cv_threads s" "cv_client (peer_send m s) = cv_client s"
  "cv_threads (show_ui u s) = cv_threads s" "cv_client (show_ui u s) = cv_client s"
  "cv_threads (session_msgbox a b c s) = cv_threads s" "cv_threads (set_lc f s) = cv_threads s"
  "cv_threads (refresh_video d s) = cv_threads s" "cv_client (refresh_video d s) = cv_client s"
  "cv_threads (check_decoder env h s) = cv_threads s" "cv_client (check_decoder env h s) = cv_client s"
  by (simp_all add: session_send_def peer_send_def show_ui_def session_msgbox_def set_lc_def refresh_video_def check_decoder_def)

lemma toggle_msgs_fields [simp]:
  "cv_threads (send_toggle_virtual_display_msg s) = cv_threads s" "cv_threads (send_toggle_privacy_mode_msg s) = cv_threads s"
  "cv_client (send_toggle_virtual_display_msg s) = cv_client s" "cv_client (send_toggle_privacy_mode_msg s) = cv_client s"
proof -
  have "cv_threads (fold (\<lambda>d s. case parse_i32 d of Some index \<Rightarrow> peer_send (ToggleVirtualDisplay index) s | None \<Rightarrow> s) ds s) = cv_threads s
    \<and> cv_client (fold (\<lambda>d s. case parse_i32 d of Some index \<Rightarrow> peer_send (ToggleVirtualDisplay index) s | None \<Rightarrow> s) ds s) = cv_client s" for ds
    by (induction ds arbitrary: s) (auto split: option.split)
  then show "cv_threads (send_toggle_virtual_display_msg s) = cv_threads s" "cv_client (send_toggle_virtual_display_msg s) = cv_client s"
    by (simp_all add: send_toggle_virtual_display_msg_def)
qed (simp_all add: send_toggle_privacy_mode_msg_def Let_def)

lemma set_auto_fps_fields [simp]: "cv_threads (set_auto_fps f s) = cv_threads s" "cv_client (set_auto_fps f s) = cv_client s"
  by (simp_all add: set_auto_fps_def)

lemma hm_get_map_key: "hm_get (map (\<lambda>(k, t). (k, f k t)) m) k = map_option (f k) (hm_get m k)"
  by (induction m) (auto simp: hm_get_def)

lemma fst_fps_trending: "fst (fps_trending a b t) = t\<lparr>vt_ctl := vt_ctl (fst (fps_trending a b t))\<rparr>"
  by (simp add: fps_trending_def Let_def split: option.split)

text \<open>The events that hand no frame and no recording command to a thread.\<close>

fun quiet :: "video_event \<Rightarrow> bool" where
  "quiet (EvFrame vf) = False"
| "quiet (EvRecord start) = False"
| "quiet (EvPermission p enabled) = (p \<noteq> PermRecording)"
| "quiet _ = True"

lemma quiet_threads:
  "p \<noteq> PermRecording \<Longrightarrow> cv_threads (permission_info p enabled s) = cv_threads s"
  "cv_threads (new_voice_call a b s) = cv_threads s" "cv_threads (client_close_voice_call a s) = cv_threads s"
  "cv_threads (voice_call_request c s) = cv_threads s" "cv_threads (voice_call_response a c s) = cv_threads s"
  "cv_threads (snd (handle_back_notification env n details impl_key s)) = cv_threads s"
  "cv_threads (elevate logon s) = cv_threads s" "cv_threads (portable_service_running c s) = cv_threads s"
  "cv_threads (session_set_custom_fps env fps s) = cv_threads s"
  by (simp_all add: permission_info_def new_voice_call_def client_close_voice_call_def voice_call_request_def voice_call_response_def
      handle_back_notification_def handle_back_msg_block_input_def handle_back_msg_privacy_mode_def update_privacy_mode_def
      elevate_def portable_service_running_def session_set_custom_fps_def Let_def
      split: perm_kind.split option.split prod.split back_notification.split block_input_state.split privacy_mode_state.split)

subsection \<open>Invariants of the threads\<close>

text \<open>
  What holds of every thread: an invariant per display, kept by all that the session does to a thread other than handing
  it frames and recording commands. \<open>L\<close> says what is known of the environment and the settings a thread reads.
\<close>

locale thread_invariant =
  fixes P :: "nat \<Rightarrow> video_thread \<Rightarrow> bool" and L :: "video_env \<Rightarrow> login_config \<Rightarrow> bool"
  assumes P_ctl: "P d t \<Longrightarrow> P d (t\<lparr>vt_ctl := c\<rparr>)"
    and P_count: "P d t \<Longrightarrow> P d (t\<lparr>vt_frame_count := n\<rparr>)"
    and P_discard: "P d t \<Longrightarrow> P d (set_discard t)"
    and P_reset: "P d t \<Longrightarrow> P d (channel_send MediaReset t)"
    and P_pass: "P d t \<Longrightarrow> L env lc \<Longrightarrow> P d (fst (thread_pass env lc res elapsed t))"
begin

definition threads_ok :: "client_video \<Rightarrow> bool" where
  "threads_ok s \<longleftrightarrow> (\<forall>d t. hm_get (cv_threads s) d = Some t \<longrightarrow> P d t)"

lemma threads_ok_map:
  assumes "threads_ok s" and "\<And>d t. P d t \<Longrightarrow> P d (f d t)" and "cv_threads s' = map (\<lambda>(k, t). (k, f k t)) (cv_threads s)"
  shows "threads_ok s'"
  using assms by (auto simp: threads_ok_def hm_get_map_key)

lemma threads_ok_insert:
  assumes "threads_ok s" and "P d t" and "cv_threads s' = hm_insert d t (cv_threads s)"
  shows "threads_ok s'"
  using assms by (auto simp: threads_ok_def hmap_simps)

lemma thread_step_ok:
  assumes "threads_ok s" and "L env (cv_lc s)"
  shows "threads_ok (video_thread_step env res elapsed display s)"
proof (cases "hm_get (cv_threads s) display")
  case (Some t)
  then have "P display (fst (thread_pass env (cv_lc s) res elapsed t))" using assms by (intro P_pass) (auto simp: threads_ok_def)
  then show ?thesis using Some
    by (auto simp: video_thread_step_def Let_def split: prod.splits option.splits result.splits intro!: threads_ok_insert [OF assms(1)])
qed (use assms in \<open>simp add: video_thread_step_def\<close>)

lemma refresh_ok: "threads_ok s \<Longrightarrow> threads_ok (fold (refresh_thread now m) ds s)"
proof (induction ds arbitrary: s)
  case (Cons d ds)
  have "threads_ok (refresh_thread now m d s)"
  proof (cases "hm_get (cv_threads s) d")
    case (Some t)
    with Cons.prems have "P d (t\<lparr>vt_ctl := c\<rparr>)" for c by (simp add: threads_ok_def P_ctl)
    from threads_ok_insert [OF Cons.prems this] Some Cons.prems show ?thesis by (simp add: refresh_thread_def)
  qed (use Cons.prems in \<open>simp add: refresh_thread_def\<close>)
  then show ?case using Cons.IH by simp
qed simp

lemma fps_control_ok:
  assumes "threads_ok s"
  shows "threads_ok (fps_control now direct fps s)"
proof -
  let ?threads = "map (\<lambda>(k, t). (k, count_inactive fps k t)) (cv_threads s)"
  have 1: "threads_ok s1" if "cv_threads s1 = ?threads" for s1
    using threads_ok_map [OF assms _ that] by (simp add: count_inactive_def P_ctl)
  have 2: "threads_ok s2" if "cv_threads s2 = hm_map_values (\<lambda>t. fst (fps_trending a b t)) ?threads" for s2 a b
  proof -
    have "P d (fst (fps_trending a b t))" if "P d t" for d t
      by (subst fst_fps_trending) (rule P_ctl [OF that])
    with threads_ok_map [of "s\<lparr>cv_threads := ?threads\<rparr>" "\<lambda>_ t. fst (fps_trending a b t)" s2] 1 that
    show ?thesis by (simp add: hm_map_values_def)
  qed
  have 3: "threads_ok s2 \<Longrightarrow> threads_ok (if c then set_auto_fps f s2 else s2)" for c f s2
    by (simp add: threads_ok_def)
  have upd: "cv_threads (s\<lparr>cv_threads := x\<rparr>) = x" for x s by simp
  show ?thesis unfolding fps_control_def Let_def
    by (split option.split, intro conjI allI impI, rule 1, rule upd, rule refresh_ok, rule 3, rule 2, rule upd)
qed

lemma status_tick_ok:
  assumes "threads_ok s"
  shows "threads_ok (status_tick now direct elapsed s)"
proof -
  have "threads_ok (s\<lparr>cv_threads := hm_map_values (\<lambda>t. t\<lparr>vt_frame_count := 0\<rparr>) (cv_threads s)\<rparr>)"
    using threads_ok_map [OF assms, of "\<lambda>_ t. t\<lparr>vt_frame_count := 0\<rparr>"] P_count by (simp add: hm_map_values_def)
  then have "threads_ok (fps_control now direct fps (s\<lparr>cv_threads := hm_map_values (\<lambda>t. t\<lparr>vt_frame_count := 0\<rparr>) (cv_threads s)\<rparr>))" for fps
    by (rule fps_control_ok)
  then show ?thesis using assms by (simp add: status_tick_def Let_def threads_ok_def)
qed

lemma own_message_ok:
  assumes "threads_ok s"
  shows "threads_ok (take_own_message s)"
  using assms P_discard
  by (auto simp: take_own_message_def handle_own_message_def threads_ok_def hmap_simps split: list.split session_msg.split)

lemma reset_ok:
  assumes "threads_ok s"
  shows "threads_ok (reset_decoder display s)"
  using assms P_reset by (auto simp: reset_decoder_def threads_ok_def hmap_simps split: option.split)

lemma quiet_step_ok:
  assumes "threads_ok s" and "L env (cv_lc s)" and "quiet ev"
  shows "threads_ok (video_step env ev s)"
  using assms(1,3) thread_step_ok [OF assms(1,2)] status_tick_ok [OF assms(1)] own_message_ok [OF assms(1)] reset_ok [OF assms(1)]
  unfolding threads_ok_def by (cases ev) (simp_all add: quiet_threads)

end

locale recorded_thread_invariant = thread_invariant +
  assumes P_record: "P d t \<Longrightarrow> P d (channel_send (RecordScreen b) t)"
begin

lemma update_record_ok:
  assumes "threads_ok s"
  shows "threads_ok (update_record_state s)"
  using assms P_record by (auto simp: update_record_state_def threads_ok_def Let_def hmap_simps)

lemma new_thread_ok:
  assumes "threads_ok s" and "P d video_thread_new"
  shows "threads_ok (new_video_thread env d s)"
proof -
  have "threads_ok (set_lc f (s\<lparr>cv_threads := hm_insert d video_thread_new (cv_threads s)\<rparr>))"
      "threads_ok (s\<lparr>cv_threads := hm_insert d video_thread_new (cv_threads s)\<rparr>)" for f
    by (rule threads_ok_insert [OF assms], simp)+
  then show ?thesis using update_record_ok by (simp add: new_video_thread_def Let_def)
qed

lemma step_ok:
  assumes "threads_ok s" and "L env (cv_lc s)" and "\<And>vf. ev \<noteq> EvFrame vf"
  shows "threads_ok (video_step env ev s)"
proof (cases "quiet ev")
  case False
  then consider start where "ev = EvRecord start" | b where "ev = EvPermission PermRecording b"
    using assms(3) by (cases ev) (auto split: perm_kind.splits)
  then show ?thesis
  proof cases
    case (1 start)
    then show ?thesis using assms(1) update_record_ok [of "set_lc f s" for f]
      unfolding threads_ok_def by (simp add: record_command_def)
  next
    case (2 b)
    then show ?thesis using assms(1) update_record_ok [of "set_lc f s" for f]
      unfolding threads_ok_def by (simp add: permission_info_def)
  qed
qed (use assms quiet_step_ok in blast)

end

subsection \<open>The order of frames\<close>

text \<open>The frames that wait for the decoder, in the order in which it will take them.\<close>

fun pending :: "media_data list \<Rightarrow> video_frame list \<Rightarrow> video_frame list" where
  "pending [] q = []"
| "pending (VideoFrame vf # ch) q = vf # pending ch q"
| "pending (VideoQueue # ch) (vf # q) = vf # pending ch q"
| "pending (VideoQueue # ch) [] = pending ch []"
| "pending (MediaReset # ch) q = pending ch q"
| "pending (RecordScreen b # ch) q = pending ch q"

definition tokens :: "media_data list \<Rightarrow> nat" where
  "tokens ch = length (filter (\<lambda>d. d = VideoQueue) ch)"

lemma tokens_simps [simp]:
  "tokens [] = 0" "tokens (VideoQueue # ch) = Suc (tokens ch)" "tokens (VideoFrame vf # ch) = tokens ch"
  "tokens (MediaReset # ch) = tokens ch" "tokens (RecordScreen start # ch) = tokens ch" "tokens (a @ b) = tokens a + tokens b"
  by (simp_all add: tokens_def)

lemma pending_append:
  assumes "tokens ch = length q"
  shows "pending (ch @ [VideoFrame vf]) q = pending ch q @ [vf]"
    and "pending (ch @ [VideoQueue]) (q @ [vf]) = pending ch q @ [vf]"
    and "pending (ch @ [MediaReset]) q = pending ch q"
    and "pending (ch @ [RecordScreen b]) q = pending ch q"
  using assms by (induction ch q rule: pending.induct) simp_all

definition in_order :: "video_frame list \<Rightarrow> video_thread \<Rightarrow> bool" where
  "in_order arrived t \<longleftrightarrow> tokens (vt_channel t) = length (vt_queue t) \<and> length (vt_queue t) \<le> VIDEO_QUEUE_SIZE
     \<and> (\<exists>taken. taken @ pending (vt_channel t) (vt_queue t) = arrived \<and> subseq (vt_decoded t) taken)"

lemma fps_calculate_fields [simp]:
  "vt_channel (fps_calculate c e t) = vt_channel t" "vt_queue (fps_calculate c e t) = vt_queue t"
  "vt_decoded (fps_calculate c e t) = vt_decoded t" "vt_recorded (fps_calculate c e t) = vt_recorded t" "vt_handler (fps_calculate c e t) = vt_handler t"
  by (simp_all add: fps_calculate_def Let_def)

lemma decode_frame_fields:
  "vt_channel (fst (decode_frame env lc res e vf t)) = vt_channel t" "vt_queue (fst (decode_frame env lc res e vf t)) = vt_queue t"
  "vt_decoded (fst (decode_frame env lc res e vf t)) = vt_decoded t @ [vf]"
  by (simp_all add: decode_frame_def Let_def split: prod.split)

lemma fst_thread_pass:
  "fst (thread_pass env lc res e t) =
    (case vt_channel t of
       [] \<Rightarrow> t
     | MediaReset # rest \<Rightarrow> t\<lparr>vt_channel := rest, vt_handler := map_option (video_handler_reset None) (vt_handler t)\<rparr>
     | RecordScreen start # rest \<Rightarrow> t\<lparr>vt_channel := rest, vt_handler := map_option (record_screen (ve_recorder_ok env) start) (vt_handler t)\<rparr>
     | VideoFrame vf # rest \<Rightarrow> fst (decode_frame env lc res e vf (t\<lparr>vt_channel := rest, vt_discard := False\<rparr>))
     | VideoQueue # rest \<Rightarrow>
         (case vt_queue t of
            [] \<Rightarrow> t\<lparr>vt_channel := rest\<rparr>
          | vf # q \<Rightarrow> if vt_discard t then t\<lparr>vt_channel := rest, vt_queue := q\<rparr>
                       else fst (decode_frame env lc res e vf (t\<lparr>vt_channel := rest, vt_queue := q\<rparr>))))"
  by (simp add: thread_pass_def take_frame_def Let_def split: list.split media_data.split prod.split)

lemma in_order_pass:
  assumes "in_order arrived t"
  shows "in_order arrived (fst (thread_pass env lc res e t))"
proof -
  obtain taken where inv: "tokens (vt_channel t) = length (vt_queue t)" "length (vt_queue t) \<le> VIDEO_QUEUE_SIZE"
      "taken @ pending (vt_channel t) (vt_queue t) = arrived" "subseq (vt_decoded t) taken"
    using assms by (auto simp: in_order_def)
  have taken: "subseq (vt_decoded t) (taken @ [vf])" "subseq (vt_decoded t @ [vf]) (taken @ [vf])" for vf
    using inv(4) by (auto intro: subseq_rev_drop_many)
  show ?thesis
  proof (cases "vt_channel t")
    case (Cons d rest)
    show ?thesis
    proof (cases d)
      case VideoQueue
      with inv Cons obtain vf q where "vt_queue t = vf # q" by (cases "vt_queue t") auto
      with inv Cons VideoQueue taken [of vf] show ?thesis
        by (auto simp: in_order_def fst_thread_pass decode_frame_fields intro!: exI [of _ "taken @ [vf]"])
    next
      case (VideoFrame vf)
      with inv Cons taken [of vf] show ?thesis
        by (auto simp: in_order_def fst_thread_pass decode_frame_fields intro!: exI [of _ "taken @ [vf]"])
    qed (use inv Cons in \<open>auto simp: in_order_def fst_thread_pass\<close>)
  qed (use assms in \<open>simp add: fst_thread_pass\<close>)
qed

interpretation order: recorded_thread_invariant "\<lambda>d. in_order (arrived d)" "\<lambda>env lc. True" for arrived :: "nat \<Rightarrow> video_frame list"
proof
  fix d :: nat and t lc env res elapsed
  assume "in_order (arrived d) t"
  then show "in_order (arrived d) (fst (thread_pass env lc res elapsed t))" by (rule in_order_pass)
qed (auto simp: in_order_def set_discard_def channel_send_def pending_append)

text \<open>No event removes a thread, and after a frame its display has one.\<close>

lemma hm_contains_simps [simp]:
  "hm_contains (hm_insert k v m) k' = (k' = k \<or> hm_contains m k')"
  "hm_contains (hm_map_values f m) k' = hm_contains m k'"
  "hm_contains (hm_modify k g m) k' = hm_contains m k'"
  "hm_contains (map (\<lambda>(k, t). (k, h k t)) m) k' = hm_contains m k'"
  by (auto simp: hm_contains_def hmap_simps hm_get_map_key)

lemma refresh_contains: "hm_contains (cv_threads s) d \<Longrightarrow> hm_contains (cv_threads (fold (refresh_thread now m) ds s)) d"
  by (induction ds arbitrary: s) (auto simp: refresh_thread_def split: option.split)

lemma fps_control_contains:
  assumes "hm_contains (cv_threads s) d"
  shows "hm_contains (cv_threads (fps_control now direct fps s)) d"
proof -
  have 1: "hm_contains (cv_threads s2) d \<Longrightarrow> hm_contains (cv_threads (if c then set_auto_fps f s2 else s2)) d" for c f s2 by simp
  have 2: "hm_contains (cv_threads (s2\<lparr>cv_threads := hm_map_values g (map (\<lambda>(k, t). (k, count_inactive fps k t)) (cv_threads s))\<rparr>)) d"
      "hm_contains (cv_threads (s2\<lparr>cv_threads := map (\<lambda>(k, t). (k, count_inactive fps k t)) (cv_threads s)\<rparr>)) d" for g s2
    using assms by simp_all
  show ?thesis unfolding fps_control_def Let_def
    by (split option.split, intro conjI allI impI, rule 2(2), rule refresh_contains, rule 1, rule 2(1))
qed

lemma update_record_contains [simp]: "hm_contains (cv_threads (update_record_state s)) d = hm_contains (cv_threads s) d"
  by (simp add: update_record_state_def Let_def)

lemma open_display_contains:
  "hm_contains (cv_threads (open_display env vf s)) d \<longleftrightarrow> d = i32_as_usize (vf_display vf) \<or> hm_contains (cv_threads s) d"
  by (auto simp: open_display_def new_video_thread_def Let_def)

lemma push_frame_contains: "hm_contains (cv_threads s) d \<Longrightarrow> hm_contains (cv_threads (push_frame env vf s)) d"
  by (auto simp: push_frame_def Let_def split: option.split prod.split)

lemma video_step_contains:
  assumes "hm_contains (cv_threads s) d"
  shows "hm_contains (cv_threads (video_step env ev s)) d"
proof (cases ev)
  case (EvDecode display res elapsed)
  with assms show ?thesis by (auto simp: video_thread_step_def Let_def split: option.split prod.split result.split)
next
  case (EvPermission p b)
  with assms show ?thesis by (cases "p = PermRecording") (simp_all add: quiet_threads, simp add: permission_info_def)
next
  case (EvOwnMessage)
  with assms show ?thesis
    by (auto simp: take_own_message_def handle_own_message_def split: list.split session_msg.split)
next
  case (EvResetDecoder display)
  with assms show ?thesis by (auto simp: reset_decoder_def split: option.split)
qed (use assms in \<open>simp_all add: receive_frame_def push_frame_contains open_display_contains status_tick_def record_command_def
  fps_control_contains quiet_threads Let_def\<close>)

fun has_room :: "video_event \<Rightarrow> client_video \<Rightarrow> bool" where
  "has_room (EvFrame vf) s = (contains_key_frame vf
     \<or> (case hm_get (cv_threads s) (i32_as_usize (vf_display vf)) of None \<Rightarrow> True | Some t \<Rightarrow> length (vt_queue t) < VIDEO_QUEUE_SIZE))"
| "has_room _ s = True"

fun no_overflow :: "video_env \<Rightarrow> video_event list \<Rightarrow> client_video \<Rightarrow> bool" where
  "no_overflow env [] s = True"
| "no_overflow env (ev # evs) s = (has_room ev s \<and> no_overflow env evs (video_step env ev s))"

fun arrivals :: "nat \<Rightarrow> video_event list \<Rightarrow> video_frame list" where
  "arrivals d [] = []"
| "arrivals d (EvFrame vf # evs) = (if i32_as_usize (vf_display vf) = d then vf # arrivals d evs else arrivals d evs)"
| "arrivals d (_ # evs) = arrivals d evs"

definition ordered :: "(nat \<Rightarrow> video_frame list) \<Rightarrow> client_video \<Rightarrow> bool" where
  "ordered arrived s \<longleftrightarrow> (\<forall>d t. hm_get (cv_threads s) d = Some t \<longrightarrow> in_order (arrived d) t)
     \<and> (\<forall>d. \<not> hm_contains (cv_threads s) d \<longrightarrow> arrived d = [])"

lemma in_order_new: "in_order [] video_thread_new"
  by (simp add: in_order_def video_thread_new_def)

lemma open_display_ordered:
  assumes "ordered arrived s"
  shows "ordered arrived (open_display env vf s)"
proof -
  let ?d = "i32_as_usize (vf_display vf)"
  let ?s = "(if \<not> cv_first_frame s
              then send_toggle_privacy_mode_msg (send_toggle_virtual_display_msg
                     (show_ui UiAdaptSize (show_ui UiCloseSuccess (s\<lparr>cv_first_frame := True\<rparr>))))
              else s)\<lparr>cv_format := codec_format_from vf\<rparr>"
  have th: "cv_threads ?s = cv_threads s" by simp
  have ok: "order.threads_ok arrived ?s" using assms th by (simp add: ordered_def order.threads_ok_def)
  have "order.threads_ok arrived (open_display env vf s)"
  proof (cases "hm_contains (cv_threads s) ?d")
    case True
    with ok th show ?thesis unfolding open_display_def Let_def by simp
  next
    case False
    then have "in_order (arrived ?d) video_thread_new" using assms in_order_new by (simp add: ordered_def)
    from order.new_thread_ok [where arrived = arrived, OF ok this] False th show ?thesis unfolding open_display_def Let_def by simp
  qed
  then show ?thesis using assms open_display_contains [of env vf s] by (auto simp: ordered_def order.threads_ok_def)
qed

lemma room_after_open:
  assumes "has_room (EvFrame vf) s" and "hm_get (cv_threads (open_display env vf s)) (i32_as_usize (vf_display vf)) = Some t"
  shows "contains_key_frame vf \<or> length (vt_queue t) < VIDEO_QUEUE_SIZE"
  using assms
  by (auto simp: open_display_def new_video_thread_def update_record_state_def Let_def hmap_simps hm_contains_def channel_send_def
      video_thread_new_def VIDEO_QUEUE_SIZE_def split: if_splits option.splits)

lemma push_frame_ordered:
  assumes "ordered arrived s" and "hm_get (cv_threads s) (i32_as_usize (vf_display vf)) = Some t"
    and "contains_key_frame vf \<or> length (vt_queue t) < VIDEO_QUEUE_SIZE"
    and "array_queue (ve_force_push env)"
  shows "ordered (arrived(i32_as_usize (vf_display vf) := arrived (i32_as_usize (vf_display vf)) @ [vf])) (push_frame env vf s)"
proof -
  let ?d = "i32_as_usize (vf_display vf)"
  have "in_order (arrived ?d) t" using assms(1,2) by (simp add: ordered_def)
  then obtain taken where inv: "tokens (vt_channel t) = length (vt_queue t)" "length (vt_queue t) \<le> VIDEO_QUEUE_SIZE"
      "taken @ pending (vt_channel t) (vt_queue t) = arrived ?d" "subseq (vt_decoded t) taken"
    by (auto simp: in_order_def)
  define t' where "t' = (if contains_key_frame vf then channel_send (VideoFrame vf) t else channel_send VideoQueue (t\<lparr>vt_queue := vt_queue t @ [vf]\<rparr>))"
  have "cv_threads (push_frame env vf s) = hm_insert ?d t' (cv_threads s)"
    using assms(2-4) by (auto simp: push_frame_def t'_def array_queue_def)
  moreover have "in_order (arrived ?d @ [vf]) t'"
    using inv assms(3) by (auto simp: t'_def in_order_def channel_send_def pending_append)
  ultimately show ?thesis using assms(1) by (auto simp: ordered_def hmap_simps)
qed

lemma video_step_ordered:
  assumes "array_queue (ve_force_push env)" and "ordered arrived s" and "has_room ev s"
  shows "ordered (\<lambda>d. arrived d @ arrivals d [ev]) (video_step env ev s)"
proof (cases "\<exists>vf. ev = EvFrame vf")
  case True
  then obtain vf where ev: "ev = EvFrame vf" by blast
  let ?d = "i32_as_usize (vf_display vf)" and ?s = "open_display env vf s"
  obtain t where t: "hm_get (cv_threads ?s) ?d = Some t"
    using open_display_contains [of env vf s ?d] by (auto simp: hm_contains_def)
  from push_frame_ordered [OF open_display_ordered [OF assms(2)] t _ assms(1)] room_after_open [of vf s env, OF _ t] assms(3) ev
  have "ordered (arrived(?d := arrived ?d @ [vf])) (push_frame env vf ?s)" by simp
  moreover have "(\<lambda>d. arrived d @ arrivals d [ev]) = arrived(?d := arrived ?d @ [vf])" using ev by auto
  ultimately show ?thesis using ev by (simp add: receive_frame_def)
next
  case False
  then have arr: "arrivals d [ev] = []" for d by (cases ev) auto
  have "order.threads_ok arrived (video_step env ev s)"
    using assms(2) False by (intro order.step_ok) (auto simp: ordered_def order.threads_ok_def)
  with assms(2) arr show ?thesis using video_step_contains [of s _ env ev] by (simp add: ordered_def order.threads_ok_def) blast
qed

lemma arrivals_Cons: "arrivals d (ev # evs) = arrivals d [ev] @ arrivals d evs"
  by (cases ev) simp_all

lemma video_run_ordered:
  assumes "array_queue (ve_force_push env)" and "ordered arrived s" and "no_overflow env evs s"
  shows "ordered (\<lambda>d. arrived d @ arrivals d evs) (video_run env evs s)"
  using assms(2,3)
proof (induction evs arbitrary: arrived s)
  case (Cons ev evs)
  from Cons.IH [OF video_step_ordered [OF assms(1)]] Cons.prems
  have "ordered (\<lambda>d. (arrived d @ arrivals d [ev]) @ arrivals d evs) (video_run env evs (video_step env ev s))" by simp
  then show ?case by (simp add: video_run_def arrivals_Cons [of _ ev evs])
qed (simp add: video_run_def)

text \<open>
  C15. Frames are decoded in the order of their arrival: in every interleaving of arrivals, decoder passes, refreshes, recording
  and control of the frame rate in which no queue overflows, the frames a display's decoder was given are a subsequence
  of those that arrived for it, and the frames it has taken, dropped ones included, with those still waiting are exactly
  those that arrived; every queue token in a channel has its frame.
\<close>

theorem frames_decoded_in_order:
  assumes "video_init st s" and "array_queue (ve_force_push env)" and "no_overflow env evs s" and "hm_get (cv_threads (video_run env evs s)) d = Some t"
  shows "tokens (vt_channel t) = length (vt_queue t) \<and> length (vt_queue t) \<le> VIDEO_QUEUE_SIZE
    \<and> (\<exists>taken. taken @ pending (vt_channel t) (vt_queue t) = arrivals d evs \<and> subseq (vt_decoded t) taken)"
proof -
  have "ordered (\<lambda>d. []) s" using assms(1) by (simp add: ordered_def video_init_def)
  from video_run_ordered [OF assms(2) this assms(3)] assms(4) show ?thesis by (simp add: ordered_def in_order_def)
qed

text \<open>A queue can only overflow when more frames have arrived than it holds.\<close>

lemma tokens_le_pending: "tokens ch = length q \<Longrightarrow> tokens ch \<le> length (pending ch q)"
  by (induction ch q rule: pending.induct) auto

lemma no_overflow_short:
  assumes "array_queue (ve_force_push env)" and "ordered arrived s"
    and "\<And>d. length (arrived d) + length (arrivals d evs) \<le> VIDEO_QUEUE_SIZE"
  shows "no_overflow env evs s"
  using assms(2,3)
proof (induction evs arbitrary: arrived s)
  case (Cons ev evs)
  have room: "has_room ev s"
  proof (cases ev)
    case (EvFrame vf)
    let ?d = "i32_as_usize (vf_display vf)"
    have "length (vt_queue t) < VIDEO_QUEUE_SIZE" if "hm_get (cv_threads s) ?d = Some t" for t
    proof -
      from that Cons.prems(1) have "in_order (arrived ?d) t" by (simp add: ordered_def)
      then obtain taken where arr: "arrived ?d = taken @ pending (vt_channel t) (vt_queue t)" "tokens (vt_channel t) = length (vt_queue t)"
        unfolding in_order_def by metis
      then have "length (vt_queue t) \<le> length (arrived ?d)" using tokens_le_pending [OF arr(2)] by simp
      with Cons.prems(2) [of ?d] EvFrame show ?thesis by simp
    qed
    with EvFrame show ?thesis by (simp split: option.split)
  qed simp_all
  moreover have "no_overflow env evs (video_step env ev s)"
    using Cons.prems(2) by (intro Cons.IH [OF video_step_ordered [OF assms(1) Cons.prems(1) room]]) (simp add: arrivals_Cons [of _ ev evs] add.assoc)
  ultimately show ?case by simp
qed simp

definition demo_video_env :: video_env where
  "demo_video_env = \<lparr>ve_client = demo_client_env, ve_decoder_valid = (\<lambda>_. True), ve_recorder_ok = True, ve_auto_record = False,
     ve_force_push = (\<lambda>vf q. if length q < VIDEO_QUEUE_SIZE then (q @ [vf], False) else (tl q @ [vf], True))\<rparr>"

definition demo_video :: client_video where
  "demo_video = \<lparr>cv_client = (demo_handler, demo_store, []), cv_threads = [], cv_format = FmtUnknown, cv_first_frame = False,
     cv_last_auto_fps = None, cv_last_record_state = False, cv_mark_unsupported = [], cv_voice_call_request = None, cv_voice_call = False,
     cv_keyboard_enabled = True, cv_clipboard_enabled = True, cv_file_transfer_enabled = True, cv_elevation_requested = False,
     cv_peer_info = \<lparr>pp_platform = ''Linux'', pp_is_installed = False, pp_idd_impl = [], pp_support_view_camera = False, pp_support_terminal = False\<rparr>,
     cv_queue = [], cv_sent = [], cv_ui = []\<rparr>"

definition demo_frame :: "bool \<Rightarrow> video_frame" where
  "demo_frame key = \<lparr>vf_union = Some (Vp9s [\<lparr>ef_data = [1], ef_key = key\<rparr>]), vf_display = 0\<rparr>"

lemma demo_video_init: "video_init (demo_handler, demo_store, []) demo_video"
  by (simp add: video_init_def demo_video_def demo_handler_def)

theorem frames_decoded_in_order_witness:
  "\<exists>t taken. hm_get (cv_threads (video_run demo_video_env
       [EvFrame (demo_frame True), EvFrame (demo_frame False), EvDecode (i32_as_usize 0) (Ok True) 5] demo_video)) (i32_as_usize 0) = Some t
    \<and> taken @ pending (vt_channel t) (vt_queue t) = [demo_frame True, demo_frame False] \<and> subseq (vt_decoded t) taken"
proof -
  let ?evs = "[EvFrame (demo_frame True), EvFrame (demo_frame False), EvDecode (i32_as_usize 0) (Ok True) 5]"
  have arr: "arrivals d ?evs = (if d = i32_as_usize 0 then [demo_frame True, demo_frame False] else [])" for d
    by (simp add: demo_frame_def)
  have ord: "ordered (\<lambda>d. []) demo_video" using demo_video_init by (simp add: ordered_def video_init_def)
  have queue: "array_queue (ve_force_push demo_video_env)" by (simp add: array_queue_def demo_video_env_def)
  have "no_overflow demo_video_env ?evs demo_video"
    by (rule no_overflow_short [OF queue ord]) (simp add: arr VIDEO_QUEUE_SIZE_def del: arrivals.simps)
  note main = frames_decoded_in_order [OF demo_video_init queue this]
  have "hm_contains (cv_threads (receive_frame demo_video_env (demo_frame True) demo_video)) (i32_as_usize 0)"
    by (simp add: receive_frame_def push_frame_contains open_display_contains demo_frame_def)
  then have "hm_contains (cv_threads (video_run demo_video_env ?evs demo_video)) (i32_as_usize 0)"
    unfolding video_run_def using video_step_contains by (simp del: video_step.simps(1,2) add: video_step.simps(1) [of _ "demo_frame True"])
  then obtain t where t: "hm_get (cv_threads (video_run demo_video_env ?evs demo_video)) (i32_as_usize 0) = Some t"
    by (auto simp: hm_contains_def)
  from main [OF t] t show ?thesis unfolding arr by auto
qed

text \<open>
  Once a queue overflows the order is lost: the replaced frame takes its token along, so that a frame that came after a key
  frame is decoded before it, until the refresh that the overflow asks for arrives.
\<close>

lemma overflow_reorders:
  assumes "array_queue push" and "length q + 2 = VIDEO_QUEUE_SIZE"
  shows "pending (VideoQueue # VideoFrame k # VideoQueue # ch) (a # b # q) = a # k # b # pending ch q"
    and "\<exists>rest. pending (VideoQueue # VideoFrame k # VideoQueue # ch) (fst (push vf (a # b # q))) = b # k # rest"
  using assms by (auto simp: array_queue_def)

subsection \<open>Recording\<close>

text \<open>What the peer knows of the recording once it has received everything.\<close>

definition told_recording :: "session_msg list \<Rightarrow> bool" where
  "told_recording ms = fold (\<lambda>m b. case m of ClientRecordStatus x \<Rightarrow> x | _ \<Rightarrow> b) ms False"

fun is_record_msg :: "session_msg \<Rightarrow> bool" where
  "is_record_msg (ClientRecordStatus b) = True"
| "is_record_msg _ = False"

lemma told_insert:
  assumes "\<not> is_record_msg m"
  shows "told_recording (xs @ m # ys) = told_recording (xs @ ys)"
  using assms by (cases m) (simp_all add: told_recording_def)

lemma told_snoc: "told_recording (xs @ [ClientRecordStatus b]) = b"
  by (simp add: told_recording_def)

definition record_view :: "client_video \<Rightarrow> bool \<times> bool \<times> bool \<times> bool" where
  "record_view s = (cv_last_record_state s, lc_record_state (cv_lc s), lc_record_permission (cv_lc s), told_recording (cv_sent s @ cv_queue s))"

lemma record_view_msgs [simp]:
  "\<not> is_record_msg m \<Longrightarrow> record_view (session_send m s) = record_view s"
  "\<not> is_record_msg m \<Longrightarrow> record_view (peer_send m s) = record_view s"
  "record_view (show_ui u s) = record_view s" "record_view (session_msgbox a b c s) = record_view s"
  "record_view (refresh_video d s) = record_view s" "record_view (check_decoder env h s) = record_view s"
  "record_view (set_auto_fps f s) = record_view s" "record_view (s\<lparr>cv_threads := ts\<rparr>) = record_view s"
  "record_view (s\<lparr>cv_first_frame := first\<rparr>) = record_view s" "record_view (s\<lparr>cv_format := fmt\<rparr>) = record_view s"
proof -
  show send: "\<not> is_record_msg m \<Longrightarrow> record_view (session_send m s) = record_view s" for m s
    using told_insert [of m "cv_sent s @ cv_queue s" "[]"] by (simp add: record_view_def session_send_def)
  show "\<not> is_record_msg m \<Longrightarrow> record_view (peer_send m s) = record_view s"
    using told_insert [of m "cv_sent s" "cv_queue s"] by (simp add: record_view_def peer_send_def)
  show "record_view (refresh_video d s) = record_view s" by (simp add: refresh_video_def send)
  have upd: "record_view (s\<lparr>cv_mark_unsupported := ms\<rparr>) = record_view s" "record_view (s\<lparr>cv_last_auto_fps := f\<rparr>) = record_view s" for s ms f
    by (simp_all add: record_view_def)
  show "record_view (check_decoder env h s) = record_view s" by (simp add: check_decoder_def send upd)
  show "record_view (set_auto_fps f s) = record_view s" by (simp add: set_auto_fps_def send upd)
qed (auto simp: record_view_def show_ui_def session_msgbox_def split: prod.split)

lemma record_view_toggle [simp]:
  "record_view (send_toggle_virtual_display_msg s) = record_view s" "record_view (send_toggle_privacy_mode_msg s) = record_view s"
proof -
  have "record_view (fold (\<lambda>d s. case parse_i32 d of Some index \<Rightarrow> peer_send (ToggleVirtualDisplay index) s | None \<Rightarrow> s) ds s) = record_view s" for ds
    by (induction ds arbitrary: s) (auto split: option.split)
  then show "record_view (send_toggle_virtual_display_msg s) = record_view s" by (simp add: send_toggle_virtual_display_msg_def)
qed (simp add: send_toggle_privacy_mode_msg_def Let_def)

lemma record_view_refresh: "record_view (fold (refresh_thread now m) ds s) = record_view s"
  by (induction ds arbitrary: s) (auto simp: refresh_thread_def split: option.split)

lemma record_view_fps: "record_view (fps_control now direct fps s) = record_view s"
  unfolding fps_control_def Let_def by (split option.split) (simp add: record_view_refresh)

lemma record_view_with_config [simp]:
  "record_view (s\<lparr>cv_client := with_config env f (cv_client s)\<rparr>) = record_view s"
  by (auto simp: record_view_def with_config_def save_config_def split: prod.split)

lemma record_view_user_fps [simp]: "record_view (session_set_custom_fps env fps s) = record_view s"
proof -
  have "record_view (session_send (UserFps n) s') = record_view s'" for n s' by (rule record_view_msgs) simp
  then show ?thesis
    by (auto simp: session_set_custom_fps_def set_custom_fps_def record_view_def with_config_def save_config_def Let_def split: prod.split)
qed

lemma record_view_own: "record_view (take_own_message s) = record_view s"
proof (cases "cv_queue s")
  case (Cons m q)
  then show ?thesis by (cases m) (simp_all add: take_own_message_def handle_own_message_def record_view_def peer_send_def)
qed (simp add: take_own_message_def)

lemma quiet_record_view:
  assumes "quiet ev"
  shows "record_view (video_step env ev s) = record_view s"
proof -
  have upd: "record_view (s\<lparr>cv_voice_call := b\<rparr>) = record_view s" "record_view (s\<lparr>cv_voice_call_request := r\<rparr>) = record_view s"
    "record_view (s\<lparr>cv_keyboard_enabled := b\<rparr>) = record_view s" "record_view (s\<lparr>cv_clipboard_enabled := b\<rparr>) = record_view s"
    "record_view (s\<lparr>cv_file_transfer_enabled := b\<rparr>) = record_view s" "record_view (s\<lparr>cv_elevation_requested := b\<rparr>) = record_view s" for s b r
    by (simp_all add: record_view_def)
  show ?thesis
  proof (cases ev)
    case (EvDecode display res elapsed)
    then show ?thesis by (auto simp: video_thread_step_def Let_def split: option.split prod.split result.split)
  next
    case (EvPermission p b)
    with assms show ?thesis by (cases p) (simp_all add: permission_info_def upd Let_def)
  next
    case (EvBackNotification n details impl_key)
    then show ?thesis
      by (simp add: handle_back_notification_def handle_back_msg_block_input_def handle_back_msg_privacy_mode_def update_privacy_mode_def Let_def
          split: back_notification.split block_input_state.split privacy_mode_state.split)
  qed (use assms in \<open>simp_all add: status_tick_def record_view_fps record_view_own reset_decoder_def new_voice_call_def client_close_voice_call_def
      voice_call_request_def voice_call_response_def elevate_def portable_service_running_def upd Let_def split: option.split\<close>)
qed

text \<open>
  The recording commands a thread still has to work off end with the current state; a thread without any records
  exactly then.
\<close>

fun last_record :: "media_data list \<Rightarrow> bool option" where
  "last_record [] = None"
| "last_record (RecordScreen b # ch) = (case last_record ch of None \<Rightarrow> Some b | Some c \<Rightarrow> Some c)"
| "last_record (_ # ch) = last_record ch"

lemma last_record_snoc [simp]:
  "last_record (ch @ [RecordScreen b]) = Some b" "last_record (ch @ [MediaReset]) = last_record ch"
  "last_record (ch @ [VideoQueue]) = last_record ch" "last_record (ch @ [VideoFrame vf]) = last_record ch"
  by (induction ch rule: last_record.induct) (auto split: option.splits)

definition rec_ok :: "bool \<Rightarrow> bool \<Rightarrow> video_thread \<Rightarrow> bool" where
  "rec_ok b r t \<longleftrightarrow>
    (case last_record (vt_channel t) of
       Some c \<Rightarrow> c = b
     | None \<Rightarrow> (case vt_handler t of Some h \<Rightarrow> vh_record h = b \<and> vh_recorder h = (b \<and> r) | None \<Rightarrow> True))"

lemma rec_ok_cong: "vt_handler t' = vt_handler t \<Longrightarrow> last_record (vt_channel t') = last_record (vt_channel t) \<Longrightarrow> rec_ok b r t' = rec_ok b r t"
  by (auto simp: rec_ok_def split: option.splits)

lemma rec_ok_fields [simp]:
  "rec_ok b r (t\<lparr>vt_ctl := c\<rparr>) = rec_ok b r t" "rec_ok b r (t\<lparr>vt_frame_count := n\<rparr>) = rec_ok b r t"
  "rec_ok b r (set_discard t) = rec_ok b r t" "rec_ok b r (channel_send MediaReset t) = rec_ok b r t"
  "rec_ok b r (channel_send (VideoFrame vf) t) = rec_ok b r t" "rec_ok b r (channel_send VideoQueue t) = rec_ok b r t"
  "rec_ok b r (t\<lparr>vt_queue := q\<rparr>) = rec_ok b r t"
  by (rule rec_ok_cong; simp add: set_discard_def channel_send_def)+

lemma handle_frame_record: "vh_record (fst (handle_frame res vf h)) = vh_record h" "vh_recorder (fst (handle_frame res vf h)) = vh_recorder h"
  by (simp_all add: handle_frame_def video_handler_reset_def Let_def split: option.split)

lemma decode_frame_record:
  "\<exists>h. vt_handler (fst (decode_frame env lc res e vf t)) = Some h
    \<and> vh_record h = (case vt_handler t of Some h \<Rightarrow> vh_record h | None \<Rightarrow> lc_record_state lc \<and> lc_record_permission lc)
    \<and> vh_recorder h = (case vt_handler t of Some h \<Rightarrow> vh_recorder h
        | None \<Rightarrow> lc_record_state lc \<and> lc_record_permission lc \<and> ve_recorder_ok env)"
  using handle_frame_record [of res vf "ensure_handler env lc (codec_format_from vf) t"]
  by (auto simp: decode_frame_def ensure_handler_def video_handler_new_def record_screen_def Let_def split: prod.splits option.splits)

lemma rec_ok_pass:
  assumes "rec_ok b r t" and "(lc_record_state lc \<and> lc_record_permission lc) = b" and "ve_recorder_ok env = r"
  shows "rec_ok b r (fst (thread_pass env lc res e t))"
proof (cases "vt_channel t")
  case (Cons d rest)
  have frame: "rec_ok b r (fst (decode_frame env lc res e vf t'))" if "vt_channel t' = rest" "vt_handler t' = vt_handler t"
    "last_record (vt_channel t) = last_record rest" for vf t'
    using assms that decode_frame_record [of env lc res e vf t'] decode_frame_fields(1) [of env lc res e vf t']
    by (auto simp: rec_ok_def split: option.splits)
  show ?thesis
  proof (cases d)
    case VideoQueue
    have keep: "rec_ok b r t'" if "vt_channel t' = rest" "vt_handler t' = vt_handler t" for t'
      using assms(1) that Cons VideoQueue rec_ok_cong [of t' t b r] by simp
    with Cons VideoQueue frame show ?thesis by (simp add: fst_thread_pass split: list.split)
  next
    case (VideoFrame vf)
    with Cons frame show ?thesis by (simp add: fst_thread_pass)
  next
    case MediaReset
    with Cons assms(1) show ?thesis by (auto simp: fst_thread_pass rec_ok_def video_handler_reset_def split: option.splits)
  next
    case (RecordScreen c)
    with Cons assms(1,3) show ?thesis by (auto simp: fst_thread_pass rec_ok_def record_screen_def split: option.splits)
  qed
qed (use assms in \<open>simp add: fst_thread_pass\<close>)

interpretation rec: thread_invariant "\<lambda>d. rec_ok b r" "\<lambda>(env :: video_env) lc. (lc_record_state lc \<and> lc_record_permission lc) = b \<and> ve_recorder_ok env = r"
  for b r :: bool
proof
  fix d :: nat and t res elapsed and lc :: login_config and env :: video_env
  assume "rec_ok b r t" "(lc_record_state lc \<and> lc_record_permission lc) = b \<and> ve_recorder_ok env = r"
  then show "rec_ok b r (fst (thread_pass env lc res elapsed t))" by (simp add: rec_ok_pass)
qed simp_all

definition recording_sound :: "bool \<Rightarrow> client_video \<Rightarrow> bool" where
  "recording_sound r s \<longleftrightarrow> cv_last_record_state s = (lc_record_state (cv_lc s) \<and> lc_record_permission (cv_lc s))
     \<and> told_recording (cv_sent s @ cv_queue s) = cv_last_record_state s
     \<and> (\<forall>d t. hm_get (cv_threads s) d = Some t \<longrightarrow> rec_ok (cv_last_record_state s) r t)"

lemma update_record_sound:
  assumes "told_recording (cv_sent s @ cv_queue s) = cv_last_record_state s"
    and "\<And>d t. hm_get (cv_threads s) d = Some t \<Longrightarrow> rec_ok (cv_last_record_state s) r t"
  shows "recording_sound r (update_record_state s)"
proof -
  define s1 where "s1 = (if \<not> lc_record_permission (cv_lc s) then set_lc (\<lambda>h. h\<lparr>lc_record_state := False\<rparr>) s else s)"
  define start where "start = (lc_record_state (cv_lc s1) \<and> lc_record_permission (cv_lc s))"
  have s1: "cv_last_record_state s1 = cv_last_record_state s" "cv_threads s1 = cv_threads s" "cv_sent s1 = cv_sent s" "cv_queue s1 = cv_queue s"
      "start = (lc_record_state (cv_lc s1) \<and> lc_record_permission (cv_lc s1))"
    by (auto simp: s1_def start_def set_lc_def split: prod.split)
  have eq: "update_record_state s = (if cv_last_record_state s1 = start then s1
     else session_send (ClientRecordStatus start) (show_ui (UiRecordStatus start)
              (s1\<lparr>cv_last_record_state := start, cv_threads := hm_map_values (channel_send (RecordScreen start)) (cv_threads s1)\<rparr>)))"
    by (simp add: update_record_state_def s1_def start_def Let_def)
  have rec: "rec_ok start r (channel_send (RecordScreen start) t)" for t by (simp add: rec_ok_def channel_send_def)
  show ?thesis
  proof (cases "cv_last_record_state s1 = start")
    case True
    with assms s1 eq show ?thesis by (simp add: recording_sound_def)
  next
    case False
    with s1 eq told_snoc [of "cv_sent s @ cv_queue s" start] rec show ?thesis
      by (auto simp: recording_sound_def session_send_def show_ui_def hmap_simps)
  qed
qed

lemma recording_sound_threads:
  assumes "recording_sound r s"
  shows "rec.threads_ok (cv_last_record_state s) r s"
    and "(lc_record_state (cv_lc s) \<and> lc_record_permission (cv_lc s)) = cv_last_record_state s"
  using assms unfolding recording_sound_def rec.threads_ok_def by blast+

lemma recording_sound_view:
  assumes "recording_sound r s" and "record_view s' = record_view s" and "rec.threads_ok (cv_last_record_state s) r s'"
  shows "recording_sound r s'"
  using assms by (auto simp: recording_sound_def record_view_def rec.threads_ok_def)

lemma update_set_lc_sound:
  assumes "recording_sound r s"
  shows "recording_sound r (update_record_state (set_lc f s))"
proof (rule update_record_sound)
  show "told_recording (cv_sent (set_lc f s) @ cv_queue (set_lc f s)) = cv_last_record_state (set_lc f s)"
    using assms by (simp add: recording_sound_def set_lc_def)
  show "rec_ok (cv_last_record_state (set_lc f s)) r t" if "hm_get (cv_threads (set_lc f s)) d = Some t" for d t
    using recording_sound_threads(1) [OF assms] that by (simp add: rec.threads_ok_def set_lc_def)
qed

lemma open_display_sound:
  assumes "recording_sound r s"
  shows "recording_sound r (open_display env vf s)"
proof -
  let ?d = "i32_as_usize (vf_display vf)"
  let ?s = "(if \<not> cv_first_frame s
              then send_toggle_privacy_mode_msg (send_toggle_virtual_display_msg
                     (show_ui UiAdaptSize (show_ui UiCloseSuccess (s\<lparr>cv_first_frame := True\<rparr>))))
              else s)\<lparr>cv_format := codec_format_from vf\<rparr>"
  let ?t = "?s\<lparr>cv_threads := hm_insert ?d video_thread_new (cv_threads ?s)\<rparr>"
  have "rec_ok b r video_thread_new" for b by (simp add: rec_ok_def video_thread_new_def)
  then have t: "recording_sound r ?t"
    using recording_sound_threads(1) [OF assms] by (intro recording_sound_view [OF assms]) (auto simp: rec.threads_ok_def hmap_simps)
  have s: "recording_sound r ?s"
    using recording_sound_threads(1) [OF assms] by (intro recording_sound_view [OF assms]) (auto simp: rec.threads_ok_def)
  have "recording_sound r (update_record_state (set_lc (\<lambda>h. h\<lparr>lc_record_state := b\<rparr>) ?t))" for b
    by (rule update_set_lc_sound [OF t])
  with s t show ?thesis unfolding open_display_def new_video_thread_def Let_def by simp
qed

lemma push_frame_sound:
  assumes "recording_sound r s"
  shows "recording_sound r (push_frame env vf s)"
proof (cases "hm_get (cv_threads s) (i32_as_usize (vf_display vf))")
  case (Some t)
  with recording_sound_threads(1) [OF assms] have t: "rec_ok (cv_last_record_state s) r t" by (simp add: rec.threads_ok_def)
  have "record_view (push_frame env vf s) = record_view s"
    using Some by (simp add: push_frame_def Let_def split: prod.split)
  moreover have "rec.threads_ok (cv_last_record_state s) r (push_frame env vf s)"
    using Some recording_sound_threads(1) [OF assms] t
    by (auto simp: push_frame_def rec.threads_ok_def hmap_simps Let_def split: prod.split)
  ultimately show ?thesis using assms recording_sound_view by blast
qed (use assms in \<open>simp add: push_frame_def\<close>)

lemma video_step_sound:
  assumes "recording_sound r s" and "ve_recorder_ok env = r"
  shows "recording_sound r (video_step env ev s)"
proof (cases "quiet ev")
  case True
  have "rec.threads_ok (cv_last_record_state s) r (video_step env ev s)"
    using recording_sound_threads [OF assms(1)] assms(2) True by (intro rec.quiet_step_ok) simp_all
  with assms True quiet_record_view recording_sound_view show ?thesis by blast
next
  case False
  have upd: "recording_sound r (update_record_state (set_lc f s))" for f
    by (rule update_set_lc_sound [OF assms(1)])
  have ui: "recording_sound r (show_ui u s')" if "recording_sound r s'" for u s'
    using recording_sound_threads(1) [OF that] by (intro recording_sound_view [OF that]) (simp_all add: rec.threads_ok_def)
  from False consider vf where "ev = EvFrame vf" | start where "ev = EvRecord start" | b where "ev = EvPermission PermRecording b"
    by (cases ev) auto
  then show ?thesis
    by cases (simp_all add: receive_frame_def push_frame_sound open_display_sound assms record_command_def permission_info_def upd ui)
qed

lemma video_run_sound: "recording_sound r s \<Longrightarrow> ve_recorder_ok env = r \<Longrightarrow> recording_sound r (video_run env evs s)"
  unfolding video_run_def by (induction evs arbitrary: s) (simp_all add: video_step_sound)

text \<open>What a pass writes: the frames it decodes that hold an image, if the recorder of the thread runs.\<close>

definition recordable :: "video_frame \<Rightarrow> bool" where
  "recordable vf \<longleftrightarrow> vf_union vf \<noteq> None"

lemma handle_frame_writes: "snd (snd (handle_frame res vf h)) \<longleftrightarrow> recordable vf \<and> vh_record h \<and> vh_recorder h"
  by (auto simp: handle_frame_def recordable_def video_handler_reset_def Let_def split: option.split)

lemma decode_frame_writes:
  "vt_recorded (fst (decode_frame env lc res e vf t)) = vt_recorded t
     @ (if recordable vf \<and> vh_record (ensure_handler env lc (codec_format_from vf) t)
           \<and> vh_recorder (ensure_handler env lc (codec_format_from vf) t) then [vf] else [])"
  using handle_frame_writes [of res vf "ensure_handler env lc (codec_format_from vf) t"]
  by (cases "handle_frame res vf (ensure_handler env lc (codec_format_from vf) t)") (auto simp: decode_frame_def Let_def)

lemma pass_writes:
  assumes "rec_ok b r t" and "(lc_record_state lc \<and> lc_record_permission lc) = b" and "ve_recorder_ok env = r"
    and "last_record (vt_channel t) = None"
  shows "\<exists>fs. vt_decoded (fst (thread_pass env lc res e t)) = vt_decoded t @ fs
    \<and> vt_recorded (fst (thread_pass env lc res e t)) = vt_recorded t @ (if b \<and> r then filter recordable fs else [])"
proof -
  have handler: "vh_record (ensure_handler env lc f t') = b \<and> vh_recorder (ensure_handler env lc f t') = (b \<and> r)"
    if "vt_handler t' = vt_handler t" for f t'
    using assms that by (auto simp: rec_ok_def ensure_handler_def video_handler_new_def record_screen_def Let_def split: option.splits)
  define W where "W = (\<lambda>t' :: video_thread. \<exists>fs. vt_decoded t' = vt_decoded t @ fs
    \<and> vt_recorded t' = vt_recorded t @ (if b \<and> r then filter recordable fs else []))"
  have keep: "W t'" if "vt_decoded t' = vt_decoded t" "vt_recorded t' = vt_recorded t" for t'
    unfolding W_def using that by (intro exI [of _ "[]"]) simp
  have frame: "W (fst (decode_frame env lc res e vf t'))"
    if "vt_handler t' = vt_handler t" "vt_decoded t' = vt_decoded t" "vt_recorded t' = vt_recorded t" for vf t'
    unfolding W_def using that handler by (intro exI [of _ "[vf]"]) (simp add: decode_frame_fields decode_frame_writes)
  have "W (fst (thread_pass env lc res e t))"
  proof (cases "vt_channel t")
    case (Cons d rest)
    with frame keep assms(4) show ?thesis
      by (cases d) (simp_all add: fst_thread_pass split: list.split option.splits)
  qed (simp add: fst_thread_pass keep)
  then show ?thesis by (simp add: W_def)
qed

lemma decode_event_thread:
  "hm_get (cv_threads s) d = Some t \<Longrightarrow>
   hm_get (cv_threads (video_step env (EvDecode d res e) s)) d = Some (fst (thread_pass env (cv_lc s) res e t))"
  by (simp add: video_thread_step_def hmap_simps Let_def split: prod.split option.split result.split)

text \<open>
  C14. Recording follows the permission: in every interleaving of a new session with its decoder threads, the session is
  recording exactly when recording is asked for and the controlled side permits it, and the last thing the controlled
  side was or will be told is that state. In that state, a decoder thread that has worked off its recording commands
  hands its recorder exactly what it decodes (every decoded message that holds a frame) when the session records and
  recorders can be created, and nothing otherwise, displays opened later included.
\<close>

theorem recording_follows_permission:
  assumes "video_init st s"
  shows "let s' = video_run env evs s in
    cv_last_record_state s' = (lc_record_state (cv_lc s') \<and> lc_record_permission (cv_lc s'))
    \<and> told_recording (cv_sent s' @ cv_queue s') = cv_last_record_state s'
    \<and> (\<forall>d t res elapsed. hm_get (cv_threads s') d = Some t \<and> last_record (vt_channel t) = None
         \<longrightarrow> (\<exists>t' fs. hm_get (cv_threads (video_step env (EvDecode d res elapsed) s')) d = Some t'
               \<and> vt_decoded t' = vt_decoded t @ fs
               \<and> vt_recorded t' = vt_recorded t
                    @ (if cv_last_record_state s' \<and> ve_recorder_ok env then filter recordable fs else [])))"
proof -
  define s' where "s' = video_run env evs s"
  have "recording_sound (ve_recorder_ok env) s" using assms by (auto simp: recording_sound_def video_init_def told_recording_def)
  from video_run_sound [OF this refl, of evs] have sound: "recording_sound (ve_recorder_ok env) s'" by (simp add: s'_def)
  have "\<exists>t' fs. hm_get (cv_threads (video_step env (EvDecode d res elapsed) s')) d = Some t' \<and> vt_decoded t' = vt_decoded t @ fs
      \<and> vt_recorded t' = vt_recorded t @ (if cv_last_record_state s' \<and> ve_recorder_ok env then filter recordable fs else [])"
    if t: "hm_get (cv_threads s') d = Some t" "last_record (vt_channel t) = None" for d t res elapsed
  proof -
    have "rec_ok (cv_last_record_state s') (ve_recorder_ok env) t" using sound t(1) unfolding recording_sound_def by blast
    from pass_writes [OF this recording_sound_threads(2) [OF sound] refl t(2), of res elapsed] decode_event_thread [OF t(1)]
    show ?thesis by auto
  qed
  with sound show ?thesis by (auto simp: recording_sound_def Let_def simp flip: s'_def)
qed

theorem recording_follows_permission_witness:
  "told_recording (cv_sent (video_run demo_video_env [EvFrame (demo_frame True), EvRecord True, EvPermission PermRecording False] demo_video)
     @ cv_queue (video_run demo_video_env [EvFrame (demo_frame True), EvRecord True, EvPermission PermRecording False] demo_video))
   = cv_last_record_state (video_run demo_video_env [EvFrame (demo_frame True), EvRecord True, EvPermission PermRecording False] demo_video)"
  using recording_follows_permission [OF demo_video_init, of demo_video_env "[EvFrame (demo_frame True), EvRecord True, EvPermission PermRecording False]"]
  unfolding Let_def by blast

subsection \<open>The frame rate asked for\<close>

fun harmless :: "session_msg \<Rightarrow> bool" where
  "harmless (CustomFps n) = (1 \<le> n \<and> n \<le> 120)"
| "harmless _ = True"

definition fps_in_range :: "client_video \<Rightarrow> bool" where
  "fps_in_range s \<longleftrightarrow> list_all harmless (cv_sent s @ cv_queue s)"

lemma fps_in_range_msgs [simp]:
  "fps_in_range (session_send m s) \<longleftrightarrow> harmless m \<and> fps_in_range s" "fps_in_range (peer_send m s) \<longleftrightarrow> harmless m \<and> fps_in_range s"
  "fps_in_range (show_ui u s) = fps_in_range s" "fps_in_range (session_msgbox a b c s) = fps_in_range s"
  "fps_in_range (set_lc f s) = fps_in_range s" "fps_in_range (refresh_video d s) = fps_in_range s"
  by (auto simp: fps_in_range_def session_send_def peer_send_def show_ui_def session_msgbox_def set_lc_def refresh_video_def)

lemma fps_in_range_upd [simp]:
  "fps_in_range (s\<lparr>cv_threads := ts\<rparr>) = fps_in_range s" "fps_in_range (s\<lparr>cv_first_frame := f\<rparr>) = fps_in_range s"
  "fps_in_range (s\<lparr>cv_format := fmt\<rparr>) = fps_in_range s" "fps_in_range (s\<lparr>cv_last_record_state := r\<rparr>) = fps_in_range s"
  "fps_in_range (s\<lparr>cv_last_auto_fps := n\<rparr>) = fps_in_range s" "fps_in_range (s\<lparr>cv_mark_unsupported := ms\<rparr>) = fps_in_range s"
  "fps_in_range (s\<lparr>cv_voice_call := v\<rparr>) = fps_in_range s" "fps_in_range (s\<lparr>cv_voice_call_request := q\<rparr>) = fps_in_range s"
  "fps_in_range (s\<lparr>cv_keyboard_enabled := k\<rparr>) = fps_in_range s" "fps_in_range (s\<lparr>cv_clipboard_enabled := k\<rparr>) = fps_in_range s"
  "fps_in_range (s\<lparr>cv_file_transfer_enabled := k\<rparr>) = fps_in_range s" "fps_in_range (s\<lparr>cv_elevation_requested := k\<rparr>) = fps_in_range s"
  "fps_in_range (s\<lparr>cv_client := st\<rparr>) = fps_in_range s"
  by (simp_all add: fps_in_range_def)

lemma toggle_fps [simp]:
  "fps_in_range (send_toggle_virtual_display_msg s) = fps_in_range s" "fps_in_range (send_toggle_privacy_mode_msg s) = fps_in_range s"
proof -
  have "fps_in_range (fold (\<lambda>d s. case parse_i32 d of Some index \<Rightarrow> peer_send (ToggleVirtualDisplay index) s | None \<Rightarrow> s) ds s) = fps_in_range s" for ds
    by (induction ds arbitrary: s) (auto split: option.split)
  then show "fps_in_range (send_toggle_virtual_display_msg s) = fps_in_range s" by (simp add: send_toggle_virtual_display_msg_def)
qed (simp add: send_toggle_privacy_mode_msg_def Let_def)

lemma choose_fps_range:
  "1 \<le> choose_fps dec (limit_fps direct (clip_custom_fps lc) m) q \<and> choose_fps dec (limit_fps direct (clip_custom_fps lc) m) q \<le> 120"
proof -
  have "5 \<le> clip_custom_fps lc \<and> clip_custom_fps lc \<le> 120" by (simp add: clip_custom_fps_def Let_def)
  then have "limit_fps direct (clip_custom_fps lc) m \<le> 120" by (simp add: limit_fps_def Let_def)
  then show ?thesis by (simp add: choose_fps_def Let_def) linarith
qed

text \<open>The rate asked for leaves a tenth, or over a relay a fifth, of the slowest active decoder unused.\<close>

lemma choose_fps_margin:
  "choose_fps dec (limit_fps direct custom m) q \<le> max 1 (m * (if direct then 9 else 8) div 10)"
proof -
  have "m * 4 div 5 = m * 8 div 10" by simp
  then have "limit_fps direct custom m \<le> m * (if direct then 9 else 8) div 10" by (simp add: limit_fps_def Let_def)
  then show ?thesis by (auto simp: choose_fps_def Let_def max_def)
qed

lemma refresh_fps [simp]: "fps_in_range (fold (refresh_thread now m) ds s) = fps_in_range s"
  by (induction ds arbitrary: s) (auto simp: refresh_thread_def split: option.split)

lemma fps_control_range: "fps_in_range s \<Longrightarrow> fps_in_range (fps_control now direct fps s)"
  unfolding fps_control_def Let_def
  by (split option.split) (simp add: set_auto_fps_def choose_fps_range del: One_nat_def)

lemma update_record_fps [simp]: "fps_in_range (update_record_state s) = fps_in_range s"
  by (simp add: update_record_state_def Let_def)

lemma own_message_range:
  assumes "fps_in_range s"
  shows "fps_in_range (take_own_message s)"
proof (cases "cv_queue s")
  case (Cons m q)
  then have "fps_in_range (peer_send m (s\<lparr>cv_queue := q\<rparr>))" using assms by (auto simp: fps_in_range_def peer_send_def)
  with Cons show ?thesis by (auto simp: take_own_message_def handle_own_message_def split: session_msg.splits)
qed (use assms in \<open>simp add: take_own_message_def\<close>)

lemma video_step_range:
  assumes "fps_in_range s"
  shows "fps_in_range (video_step env ev s)"
proof (cases ev)
  case (EvFrame vf)
  with assms show ?thesis
    by (auto simp: receive_frame_def push_frame_def open_display_def new_video_thread_def Let_def split: option.split prod.split)
next
  case (EvDecode display res elapsed)
  with assms show ?thesis by (auto simp: video_thread_step_def check_decoder_def Let_def split: option.split prod.split result.split)
next
  case (EvPermission p b)
  with assms show ?thesis by (cases p) (simp_all add: permission_info_def Let_def)
next
  case (EvBackNotification n details impl_key)
  with assms show ?thesis
    by (simp add: handle_back_notification_def handle_back_msg_block_input_def handle_back_msg_privacy_mode_def update_privacy_mode_def Let_def
        split: back_notification.split block_input_state.split privacy_mode_state.split)
qed (use assms in \<open>simp_all add: status_tick_def fps_control_range own_message_range reset_decoder_def record_command_def new_voice_call_def
    client_close_voice_call_def voice_call_request_def voice_call_response_def elevate_def portable_service_running_def session_set_custom_fps_def Let_def
    split: option.split prod.split\<close>)

text \<open>
  C37. The frame rate that the automatic control of a client asks for stays between 1 and 120 frames per second in every
  run, whatever the decoders measure and whatever rate the user has configured or chooses meanwhile. The user's own choice
  (\<open>UserFps\<close>) is not the control's: \<open>set_custom_fps\<close> sends it as it is, and so do the login options.
\<close>

theorem asked_fps_in_range:
  assumes "video_init st s"
  shows "list_all harmless (cv_sent (video_run env evs s) @ cv_queue (video_run env evs s))"
proof -
  have "fps_in_range s \<Longrightarrow> fps_in_range (video_run env evs s)" for s
    unfolding video_run_def by (induction evs arbitrary: s) (simp_all add: video_step_range)
  moreover have "fps_in_range s" using assms(1) by (simp add: fps_in_range_def video_init_def)
  ultimately show ?thesis by (simp add: fps_in_range_def)
qed

theorem asked_fps_in_range_witness:
  "list_all harmless (cv_sent (video_run demo_video_env [EvFrame (demo_frame True), EvStatus 5 True 1000] demo_video)
     @ cv_queue (video_run demo_video_env [EvFrame (demo_frame True), EvStatus 5 True 1000] demo_video))"
  by (rule asked_fps_in_range [OF demo_video_init])

subsection \<open>Voice calls\<close>

text \<open>A response starts a call only when it carries the time of the request that is waiting, and only once.\<close>

lemma voice_needs_request:
  assumes "cv_voice_call_request s \<noteq> Some ts"
  shows "cv_voice_call (voice_call_response ts accepted s) = cv_voice_call s" "cv_ui (voice_call_response ts accepted s) = cv_ui s"
  using assms by (auto simp: voice_call_response_def Let_def split: option.split)

lemma voice_response_once:
  "voice_call_response ts' accepted' (voice_call_response ts accepted s) = voice_call_response ts accepted s"
  by (simp add: voice_call_response_def show_ui_def Let_def split: option.split)

end
