(* ===== verification/Spec2Isabelle.thy ===== *)
theory Spec2Isabelle
  imports Key_Handshake Kcp_Network Fs_Job Terminal_Tracking Video_Qos Codec_Negotiation Client_Login Lan_Discovery Client_Files Client_Video
begin

text \<open>
  A verification development for the Rust code of a remote-desktop client and server.

  \<^bold>\<open>The program.\<close> A controlling and a controlled host exchange messages over a stream. On the way
  from the application to the network a message passes these parts:

    \<^item> a frame codec (\<open>libs/hbb_common/src/bytes_codec.rs\<close>) puts a length header of one to four bytes in
      front of every message and cuts the received byte stream into messages again;
    \<^item> the encrypted stream (\<open>libs/hbb_common/src/tcp.rs\<close>) seals every message under a key agreed in a
      handshake, with a nonce made from a counter, before it is framed;
    \<^item> when the hosts reach each other by UDP, the KCP transport (\<open>libs/kcp-sys/src\<close>, entered from
      \<open>src/kcp_stream.rs\<close>) carries the byte stream: packets with a packed header, a connection state
      machine with a three-way handshake, one set of tasks per connection around the C control
      block, and an endpoint that dispatches packets, sends keep-alives and removes dead connections;
    \<^item> on the controlled host, \<open>src/server/connection.rs\<close> decides who is let in (passwords, sessions,
      two-factor codes, failure counters) with the settings of \<open>libs/hbb_common/src/password_security.rs\<close>,
      and the services (\<open>src/server/service.rs\<close>) distribute frames, audio and other data to the
      connections that subscribe to them;
    \<^item> file-transfer jobs (\<open>libs/hbb_common/src/fs.rs\<close>) run on both hosts: one side reads files into
      blocks, the other writes blocks to files, with overwrite detection and resuming;
    \<^item> the terminal service (\<open>src/server/terminal_service.rs\<close>) runs shells for the peer and buffers their recent
      output; the quality control (\<open>src/server/video_qos.rs\<close>) sets frame rate and
      bit rate from the delays the clients report;
    \<^item> \<open>src/server.rs\<close> keeps the connections and the services of the process, and \<open>connection.rs\<close> subscribes a
      connection to services as its permissions and options change;
    \<^item> \<open>libs/hbb_common/src/config.rs\<close> keeps identity, passwords, options and the settings of each peer in
      memory and in files, in layers of overwriting and default settings; \<open>libs/hbb_common/src/lib.rs\<close> and
      \<open>socket_client.rs\<close> hold the address and version utilities all of them use;
    \<^item> on the controlling host, \<open>src/client.rs\<close> agrees on the key of the stream, keeps the settings of a session,
      sends them as option messages, and logs in; \<open>libs/scrap/src/common/codec.rs\<close> says what it can decode and
      chooses, on the controlled host, one codec for all connections.

  \<^bold>\<open>The theories.\<close>

    \<^item> \<open>Prelude\<close>: machine words under their Rust names, \<open>Result\<close>, little-endian byte strings, hash maps
      as association lists with distinct keys, and the general interfaces as locales: \<open>keyed_store\<close> (the laws of
      a map, interpreted by the hash maps), \<open>op_invariant\<close> (an invariant kept by every operation holds
      after every sequence of operations; interpreted by the state machine, the endpoint and the
      service), \<open>step_invariant\<close> (the same for a step relation; interpreted by the network),
      \<open>op_simulation\<close> (operations that may not return, simulated by abstract ones; interpreted by the terminal
      buffer) and \<open>op_total\<close> (operations that always return; interpreted by the quality control).
    \<^item> \<open>Bytes_Codec\<close>: \<open>bytes_codec\<close> is the struct \<open>BytesCodec\<close> with its \<open>DecodeState\<close>;
      \<open>decode_head\<close>, \<open>decode_data\<close>, \<open>decode\<close> and \<open>encode\<close> are the functions of these names, with the
      shifts and masks on 64-, 32-, 16- and 8-bit words as in the source. Shown: the round trip of any
      sequence of messages over any chunking, independence of the chunking for arbitrary (also
      malformed) bytes, the length limit, and when the encoder fails. The loop of the framing
      layer that calls \<open>decode\<close> until it yields nothing is a \<open>function\<close> whose measure is the state
      and the bytes left, so it always ends.
    \<^item> \<open>Secure_Stream\<close>: \<open>Encrypt\<close> (key and two \<open>u64\<close> counters), \<open>FramedStream\<close> (\<open>send_raw\<close>, \<open>send_bytes\<close>,
      \<open>next\<close>, \<open>set_key\<close>, \<open>set_raw\<close>) and the key handshake. The \<open>sodiumoxide\<close> functions are a record
      of parameters; the hypotheses used are that opening inverts sealing under the same nonce and key,
      that a sealed text is longer than one byte, and (for the replay property) that a text sealed
      under another nonce is refused. Shown: end-to-end delivery through codec and encryption,
      the nonces of a session (distinct in each direction, the same in both), acceptance exactly in sequence, reflected
      frames, errors of the handshake. A frame counts as sent when the socket's sink has taken it; the loss of a
      frame by a time-out while the buffer of the sink is full is not modelled.
    \<^item> \<open>Kcp_Packet\<close>: the 13-byte header, its flag byte, packets and their bytes. Shown: the round trip and the
      exact condition under which a buffer is refused.
    \<^item> \<open>Kcp_State\<close>: the machine of \<open>state.rs\<close> over an abstract packet type. The trait \<open>PacketFlagManipulator\<close>
      is the record \<open>flag_ops\<close>, its laws the locale \<open>packet_flags\<close>, interpreted (\<open>kp\<close>) by the packets of
      \<open>Kcp_Packet\<close>. Shown: monotone phases, what establishes a connection, what is answered, and
      that the handshake completes.
    \<^item> \<open>Kcp_Connection\<close>: the wrapper \<open>Kcp\<close> of \<open>ffi_safe.rs\<close>, the tasks of a connection in \<open>endpoint.rs\<close> and the
      byte stream of \<open>stream.rs\<close>. The C library is the record of parameters \<open>ikcp\<close>. Shown: chunks
      partition the buffer, bytes reach the control block completely and in order for every interleaving
      of the send task, in chunks that the library's limit of 127 segments admits, reads return the received stream in order, and the exact contract of a read.
    \<^item> \<open>Kcp_Endpoint\<close>: the endpoint as a state (maps of states and connections, output queue, queue of new
      connections) with one definition per task and call: \<open>recv_packet\<close> is one round of the receive loop,
      \<open>ping_task\<close> and \<open>clean_task\<close> one round of these tasks, \<open>connect_begin\<close> and \<open>connect_finish\<close> the two
      halves of \<open>connect\<close> around its wait. \<open>ep_step\<close> collects them, and \<open>ep_inv\<close> is kept by every
      sequence. The search for a conversation number runs on fuel, one more than the number of known
      connections; it is proved that this always suffices, since that many numbers cannot all be taken.
    \<^item> \<open>Kcp_Network\<close>: two sides and an unreliable network as a step relation, with agreement of the handshake.
    \<^item> \<open>Service\<close>: \<open>ServiceInner\<close>, \<open>ServiceTmpl\<close> and \<open>ServiceSwap\<close> (subscribing, hand-over by snapshot, the variants
      of sending, options), and one round of the loops \<open>repeat\<close> and \<open>run\<close>. The messages a subscriber was
      given are part of its state, so that delivery can be stated.
    \<^item> \<open>Fs_Job\<close>: \<open>TransferJob\<close> and the functions on jobs, over a file system that maps paths to contents. Reading and
      opening may fail or be short, and renaming and removing may fail (\<open>fs_env\<close>); the compressor is a parameter of which only
      \<open>decompress (compress x) = x\<close> is used. Shown: a file carried block by block arrives exactly, with fuel
      \<open>size / 128 KiB + 2\<close> rounds, and what happens on the error paths.
    \<^item> \<open>Password_Security\<close>: settings, generated passwords and the encryption of stored secrets, with the cipher and
      the option store as parameters.
    \<^item> \<open>Trusted_Devices\<close>: the devices that may skip two-factor authentication, in their cache and as encrypted JSON in
      the configuration (\<open>config.rs\<close>). Shown: trust survives a restart and expires, each device is listed once.
    \<^item> \<open>Login\<close>: the failure counters with their IPv6 prefixes, password validation, sessions, automatic approval,
      the login request from its first check to its answer, two-factor codes and the log of removed files. The
      clock, the option store, the hash and the parsers of addresses are the record \<open>login_env\<close>. The check of the
      counters and their update are two steps of \<open>guard_step\<close>, as the code locks the table twice. Shown: what a
      login must present, how many guesses are evaluated when they do not overlap and how overlapping ones escape the
      limit, and two ways in without a password.
    \<^item> \<open>Terminal_Buffer\<close>: the output buffer of a terminal with its trimming loop (a \<open>partial_function\<close>, since it may
      not end). Shown: the buffer holds a suffix of what is appended to it, its limits for output in whole lines, and an
      output on which the loop does not end.
    \<^item> \<open>Terminal_Service\<close>, \<open>Terminal_Tracking\<close>: the registry of services, sessions, channels and the reaper of zombie
      processes. Shown: a shell is held until it ends or is killed, output arrives in order, and two error paths.
    \<^item> \<open>Float32\<close>, \<open>Video_Qos\<close>: rounding of rationals to \<open>f32\<close>, and the quality control with its users, delay
      histories, round-trip estimate and ratios. Shown: no call panics, ranges, the users' limits, the estimate
      against its integer specification, the reaction to delays, and recovery of the frame rate.
    \<^item> \<open>Regex_Match\<close>, \<open>Net_Util\<close>: a matcher by derivatives for the patterns of the source; mangled addresses, version
      numbers, identifiers, and the splitting and joining of hosts and ports.
    \<^item> \<open>Option_Store\<close>: the lookup of options in three layers, the settings that may be saved, and the typed defaults
      of the display options.
    \<^item> \<open>Config_Store\<close>: \<open>Config\<close> and \<open>Config2\<close> in memory and in files, identity, key pair, salt, permanent password, proxy
      and rendezvous servers. The file system is a record of parameters, a crash is a restart from the files.
    \<^item> \<open>Peer_Config\<close>: the configuration of a peer, its file, and the listing of peers in batches. The text of an \<open>f64\<close>
      is a parameter (\<open>pe_parse_f64\<close>), its value a rational number.
    \<^item> \<open>Server_Registry\<close>: connections and services of the process, the permissions of a connection, and the
      handlers that subscribe and unsubscribe it. The interface to a service is the locale \<open>subscriber_set\<close>,
      interpreted by \<open>Service\<close>.
    \<^item> \<open>Key_Handshake\<close>: both sides of the key agreement and the one with a rendezvous server, over parameters for
      signatures and boxes. Shown: honest sides get the same key, and a key is only ever sealed to a peer whose
      signature and identity were verified.
    \<^item> \<open>Client_Handler\<close>, \<open>Client_Login\<close>: \<open>LoginConfigHandler\<close> with its stored settings, toggles and messages; passwords, the
      login request, answers and errors. A session is the handler, the stored peers and the list of effects. Shown:
      the controlled side (\<open>Server_Registry\<close>) stays in step with the client's settings, the order of passwords, a
      remembered password is accepted by the validation of \<open>Login\<close> in a later session, and shared passwords are not kept.
    \<^item> \<open>Codec_Negotiation\<close>: abilities and preferences of clients, the choice of the codec, fallback and bit rates. Shown:
      every client can decode what is sent (VP9 taken for granted), the majority of preferences decides.
    \<^item> \<open>Rendezvous\<close>: the mediators that register the program with rendezvous servers over UDP or TCP, in any
      interleaving, the handlers that meet a client, and the direct server. The closure that reports latencies is
      the locale \<open>latency_report\<close>, interpreted by both loops. A handler is one step, except that a registration of the UDP
      loop is two: its checks, and the sending of the id. \<open>Config::set\<close>, which replaces the whole configuration, is not
      among the operations of the rest of the program. Shown: a new id is registered with its key first, up to
      registrations already past their checks, registration completes, silent servers are marked, bounds of the loops, and that a proxy forces the relay.
    \<^item> \<open>Lan_Discovery\<close>: pings, answers and the merged list of \<open>lan.rs\<close>. Shown: the list loses nobody and has no duplicates.
    \<^item> \<open>Client_Files\<close>: the file side of a client's session in \<open>io_loop.rs\<close>, the commands of the user interface, the file
      messages of the peer and the session's own queue, over the jobs of \<open>Fs_Job\<close>. Shown: downloads stay in their target
      for safe names and leave it for others, existing files and the user's consent (which a resumed job does not ask
      for), cancelling, and that deleting a
      directory completes.
    \<^item> \<open>Client_Video\<close>: the rest of that loop and the decoder threads of \<open>client.rs\<close>: frames, queues, the control of the frame
      rate, recording, voice calls, permissions and notifications, in any interleaving. What every thread keeps is proved
      once in the locales \<open>thread_invariant\<close> and \<open>recorded_thread_invariant\<close>, interpreted for the order of frames and for recording.
      Shown: frames are decoded in order, the recorder gets the decoded frames exactly while recording is
      on, and the range of the rate that the automatic control asks for (the user's own rate is sent as it is).
    \<^item> This theory ends with properties that span the client's settings, the connection and the quality control.

  \<^bold>\<open>Conventions.\<close> A \<open>Result\<close> is the datatype \<open>result\<close>; a panic is a value of its own
  (\<open>ReadPanic\<close>). Each task is a step function on the state it locks, since the code holds the lock for
  that long; interleavings are sequences of steps. Time is a number of milliseconds given to each step.
  Every definition that models code is executable, except the step relations.

  \<^bold>\<open>Not modelled.\<close> Sockets and listeners, the C control block, the capture, encoding and input
  libraries, the user interfaces, platform code, inter-process messages and, of the
  client's message loop, audio, clipboard and the set-up of the connection: they are operating-system calls, foreign code or glue. Of \<open>connection.rs\<close> authorisation,
  permissions and subscriptions are modelled, not the injection of input; of \<open>client.rs\<close> the settings, login, key
  exchange and the decoder threads, not hole punching, the decoders and audio; of \<open>fs.rs\<close> not the directory listings; of \<open>config.rs\<close> not the caches
  of address books and groups.

  \<^bold>\<open>Plan.\<close> Next are the file messages and the message dispatch of
  \<open>connection.rs\<close>, the client's audio and clipboard, and a network of whole endpoints in place of the two connection
  states of \<open>Kcp_Network\<close>.
\<close>

subsection \<open>The quality a client asks for\<close>

lemma sint_256:
  assumes "0 \<le> q" and "q < 2 ^ 12"
  shows "sint (word_of_int (256 * q) :: i32) = 256 * q"
  using assms by (subst sint_sbintrunc') (simp add: signed_take_bit_int_eq_self)

lemma shl8_small: "0 \<le> q \<Longrightarrow> q < 2 ^ 12 \<Longrightarrow> shl8 q = 256 * q"
  using sint_256 [of q] by (simp add: shl8_def push_bit_eq_mult mult.commute)

lemma quality_bits:
  assumes "0 \<le> q" and "q < 2 ^ 12"
  shows "signed_drop_bit 8 (word_of_int (256 * q) :: i32) AND 0xFFF = word_of_int q"
proof -
  have "sint (signed_drop_bit 8 (word_of_int (256 * q) :: i32)) = q"
    by (subst sint_signed_drop_bit_eq, subst sint_256 [OF assms]) (simp add: drop_bit_eq_div)
  then have "(of_int (sint (signed_drop_bit 8 (word_of_int (256 * q) :: i32))) :: i32) = of_int q" by (rule arg_cong)
  then have *: "signed_drop_bit 8 (word_of_int (256 * q) :: i32) = word_of_int q" by (simp only: of_int_sint scast_id)
  have m: "(0xFFF :: i32) = mask 12" by (simp add: mask_eq_exp_minus_1)
  have "uint (word_of_int q :: i32) = q" using assms by (subst uint_word_of_int) (simp add: mod_pos_pos_trivial)
  then have "take_bit 12 (word_of_int q :: i32) = word_of_int q"
    using assms by (intro word_uint_eqI) (simp add: unsigned_take_bit_eq take_bit_int_eq_self)
  then show ?thesis unfolding * m by (simp add: take_bit_eq_mask)
qed

text \<open>
  C38. The custom quality arrives: the message that the controlling side sends for a quality \<open>q\<close> makes the controlled
  side set the quality number that stands for it, and the quality control reads that number as the ratio of
  twice \<open>q\<close> percent, within its limits.
\<close>

theorem custom_quality_arrives:
  assumes "10 \<le> q" and "q \<le> 0xFFF"
  shows "snd (snd (opt_quality (fst (save_custom_image_quality env q st)) (p, s, evs))) = evs @ [EvImageQuality (256 * q)]
    \<and> convert_quality (word_of_int (256 * q)) = map_option Custom (clamp BR_MIN BR_MAX (f32_div (of_int (2 * q)) 100))"
proof -
  have "shl8 q = 256 * q" using assms by (intro shl8_small) simp_all
  then have 1: "snd (snd (opt_quality (fst (save_custom_image_quality env q st)) (p, s, evs))) = evs @ [EvImageQuality (256 * q)]"
    using assms by (simp add: save_custom_image_quality_def opt_quality_def om_default_def Let_def)
  have sint: "sint (word_of_int (256 * q) :: i32) = 256 * q" using assms by (intro sint_256) simp_all
  have ne: "(word_of_int (256 * q) :: i32) \<noteq> 3" "(word_of_int (256 * q) :: i32) \<noteq> 2" "(word_of_int (256 * q) :: i32) \<noteq> 4"
    using sint assms by (auto dest!: arg_cong [of _ _ sint])
  have "uint (word_of_int (2 * q) :: u32) = 2 * q"
    using assms by (subst uint_word_of_int) (simp add: mod_pos_pos_trivial)
  moreover have "(word_of_int q * 2 :: u32) = word_of_int (2 * q)" by (simp add: mult.commute)
  ultimately have "unat (word_of_int q * 2 :: u32) = nat (2 * q)" by (simp only: unat_eq_nat_uint)
  then have "f32_of_u32 (word_of_int q * 2) = of_int (2 * q)"
    using assms rnd32_nat [of "nat (2 * q)"] by (simp only: f32_of_u32_def) simp
  then have "convert_quality (word_of_int (256 * q)) = map_option Custom (clamp BR_MIN BR_MAX (f32_div (of_int (2 * q)) 100))"
    using ne quality_bits [of q] assms by (simp add: convert_quality_def Let_def del: of_int_mult)
  with 1 show ?thesis by simp
qed

theorem custom_quality_arrives_witness:
  "convert_quality (word_of_int (256 * 50)) = map_option Custom (clamp BR_MIN BR_MAX (f32_div (of_int (2 * 50)) 100))"
  by (rule custom_quality_arrives [of 50, THEN conjunct2]) simp_all

end
